(* ===== verification/Prelude.thy ===== *)
theory Prelude
  imports Main "HOL-Library.Word" "HOL-Library.Monad_Syntax"
begin

text \<open>
  What every component shares: the machine types of \<^verbatim>\<open>include/type.h\<close>, byte-addressed
  memory with the lemmas on blocks of bytes and little-endian words, the two kernel address
  conversions of \<^verbatim>\<open>include/const.h\<close> and a few lemmas on machine words and lists.

  A computation of the kernel that may go wrong is an \<open>option\<close>: \<open>None\<close> stands for every way
  in which the C program does not go on (an access outside an array, a null pointer, a failed
  \<^verbatim>\<open>assert\<close>, a call of \<^verbatim>\<open>panic\<close>, a loop that does not end), \<open>Some\<close> for a normal return. The error
  codes the C functions return are values, never \<open>None\<close>.
\<close>

unbundle bit_operations_syntax

type_synonym u8 = "8 word"
type_synonym u32 = "32 word"

text \<open>A block of memory: the byte (or word) at each offset from its start.\<close>

type_synonym 'a block = "nat \<Rightarrow> 'a"
type_synonym bytes = "u8 block"

named_theorems block_simps \<open>reading a block after writing it\<close>
named_theorems word_nat \<open>machine words read as natural numbers\<close>

subsection \<open>Constants\<close>

definition MAX_UNSIGNED_INT :: u32 where
  "MAX_UNSIGNED_INT = 0xFFFFFFFF"

definition K_PHY2LIN :: "u32 \<Rightarrow> u32" where
  "K_PHY2LIN x = x + 0xC0000000"

definition K_LIN2PHY :: "u32 \<Rightarrow> u32" where
  "K_LIN2PHY x = x - 0xC0000000"

lemma K_LIN2PHY_PHY2LIN [simp]: "K_LIN2PHY (K_PHY2LIN x) = x"
  by (simp add: K_LIN2PHY_def K_PHY2LIN_def)

lemma K_PHY2LIN_LIN2PHY [simp]: "K_PHY2LIN (K_LIN2PHY x) = x"
  by (simp add: K_LIN2PHY_def K_PHY2LIN_def)

lemma K_PHY2LIN_inject [simp]: "K_PHY2LIN x = K_PHY2LIN y \<longleftrightarrow> x = y"
  by (simp add: K_PHY2LIN_def)

text \<open>C's \<^verbatim>\<open>min\<close> macro and the value \<^verbatim>\<open>-1\<close> as an unsigned word.\<close>

lemma minus_one_u32: "(- 1 :: u32) = MAX_UNSIGNED_INT"
  by (simp add: MAX_UNSIGNED_INT_def)

subsection \<open>Blocks of memory\<close>

definition store_list :: "'a block \<Rightarrow> nat \<Rightarrow> 'a list \<Rightarrow> 'a block" where
  "store_list m a xs = (\<lambda>k. if a \<le> k \<and> k < a + length xs then xs ! (k - a) else m k)"

definition load_list :: "'a block \<Rightarrow> nat \<Rightarrow> nat \<Rightarrow> 'a list" where
  "load_list m a n = map m [a..<a + n]"

lemma length_load_list [simp]: "length (load_list m a n) = n"
  by (simp add: load_list_def)

lemma nth_load_list [simp]: "k < n \<Longrightarrow> load_list m a n ! k = m (a + k)"
  by (simp add: load_list_def)

lemma store_list_in [block_simps]:
  "a \<le> k \<Longrightarrow> k < a + length xs \<Longrightarrow> store_list m a xs k = xs ! (k - a)"
  by (simp add: store_list_def)

lemma store_list_out [block_simps]:
  "k < a \<or> a + length xs \<le> k \<Longrightarrow> store_list m a xs k = m k"
  by (auto simp: store_list_def)

lemma store_list_Nil [simp]: "store_list m a [] = m"
  by (rule ext) (auto simp: store_list_def)

lemma load_list_0 [simp]: "load_list m a 0 = []"
  by (simp add: load_list_def)

lemma store_list_Cons: "store_list m a (x # xs) = store_list (m(a := x)) (Suc a) xs"
  by (rule ext) (auto simp: store_list_def nth_Cons')

lemma store_list_append:
  "store_list m a (xs @ ys) = store_list (store_list m a xs) (a + length xs) ys"
  by (rule ext) (auto simp: store_list_def nth_append)

lemma load_store_same [block_simps]:
  "n = length xs \<Longrightarrow> load_list (store_list m a xs) a n = xs"
  by (rule nth_equalityI) (auto simp: block_simps)

lemma load_store_disjoint [block_simps]:
  "a + length xs \<le> b \<or> b + n \<le> a \<Longrightarrow> load_list (store_list m a xs) b n = load_list m b n"
  by (rule nth_equalityI) (auto simp: block_simps)

lemma load_list_append:
  "load_list m a (n + k) = load_list m a n @ load_list m (a + n) k"
  by (rule nth_equalityI) (auto simp: nth_append)

lemma take_load_list: "k \<le> n \<Longrightarrow> take k (load_list m a n) = load_list m a k"
  by (rule nth_equalityI) auto

lemma drop_load_list: "k \<le> n \<Longrightarrow> drop k (load_list m a n) = load_list m (a + k) (n - k)"
  by (rule nth_equalityI) (auto simp: add.assoc)

subsection \<open>Little-endian 32-bit words in a block of bytes\<close>

definition le32 :: "u32 \<Rightarrow> u8 list" where
  "le32 w = [ucast w, ucast (drop_bit 8 w), ucast (drop_bit 16 w), ucast (drop_bit 24 w)]"

definition load32 :: "bytes \<Rightarrow> nat \<Rightarrow> u32" where
  "load32 m a = ucast (m a) OR push_bit 8 (ucast (m (a + 1)))
     OR push_bit 16 (ucast (m (a + 2))) OR push_bit 24 (ucast (m (a + 3)))"

definition store32 :: "bytes \<Rightarrow> nat \<Rightarrow> u32 \<Rightarrow> bytes" where
  "store32 m a w = store_list m a (le32 w)"

lemma length_le32 [simp]: "length (le32 w) = 4"
  by (simp add: le32_def)

lemma load32_store32 [block_simps]: "load32 (store32 m a w) a = w"
proof -
  have "load32 (store32 m a w) a = ucast (ucast w :: u8) OR push_bit 8 (ucast (ucast (drop_bit 8 w) :: u8))
     OR push_bit 16 (ucast (ucast (drop_bit 16 w) :: u8)) OR push_bit 24 (ucast (ucast (drop_bit 24 w) :: u8))"
    by (simp add: load32_def store32_def store_list_def le32_def numeral_2_eq_2 numeral_3_eq_3)
  also have "\<dots> = w"
  proof (rule bit_word_eqI)
    fix n :: nat
    assume n: "n < LENGTH(32)"
    then consider "n < 8" | "8 \<le> n" "n < 16" | "16 \<le> n" "n < 24" | "24 \<le> n" by fastforce
    then show "bit (ucast (ucast w :: u8) OR push_bit 8 (ucast (ucast (drop_bit 8 w) :: u8))
     OR push_bit 16 (ucast (ucast (drop_bit 16 w) :: u8))
     OR push_bit 24 (ucast (ucast (drop_bit 24 w) :: u8)) :: u32) n = bit w n"
      by cases (use n in \<open>auto simp: bit_simps\<close>)
  qed
  finally show ?thesis .
qed

lemma store32_out [block_simps]: "k < a \<or> a + 4 \<le> k \<Longrightarrow> store32 m a w k = m k"
  by (simp add: store32_def block_simps)

lemma load32_cong: "(\<And>k. k < 4 \<Longrightarrow> m (a + k) = m' (b + k)) \<Longrightarrow> load32 m a = load32 m' b"
proof -
  assume eq: "\<And>k. k < 4 \<Longrightarrow> m (a + k) = m' (b + k)"
  have "m a = m' b" "m (a + 1) = m' (b + 1)" "m (a + 2) = m' (b + 2)" "m (a + 3) = m' (b + 3)"
    using eq[of 0] eq[of 1] eq[of 2] eq[of 3] by simp_all
  then show ?thesis by (simp add: load32_def)
qed

lemma load32_store_list_disjoint [block_simps]:
  "a + length xs \<le> b \<or> b + 4 \<le> a \<Longrightarrow> load32 (store_list m a xs) b = load32 m b"
  by (rule load32_cong) (auto simp: block_simps)

lemma load32_store32_disjoint [block_simps]:
  "a + 4 \<le> b \<or> b + 4 \<le> a \<Longrightarrow> load32 (store32 m a w) b = load32 m b"
  by (simp add: store32_def block_simps)

lemma load32_zero [simp]: "load32 (\<lambda>_. 0) a = 0"
  by (simp add: load32_def)

subsection \<open>Words read as natural numbers\<close>

lemma unat_plus_no_wrap [word_nat]:
  "unat (a :: u32) + unat b < 2 ^ 32 \<Longrightarrow> unat (a + b) = unat a + unat b"
  by (simp add: unat_word_ariths)

lemma unat_minus_no_wrap [word_nat]:
  "unat (b :: u32) \<le> unat a \<Longrightarrow> unat (a - b) = unat a - unat b"
  by (simp add: unat_sub word_le_nat_alt)

lemmas word_order_nat [word_nat] = word_le_nat_alt word_less_nat_alt

lemma unat_lt_u32 [simp]: "unat (w :: u32) < 4294967296"
  using unsigned_less[of w, where 'a = nat] by simp

lemma unat_of_int_u32: "0 \<le> n \<Longrightarrow> n < 2 ^ 32 \<Longrightarrow> unat (of_int n :: u32) = nat n"
  by (simp add: unsigned_of_int take_bit_int_eq_self unat_eq_nat_uint)

lemma unat_MAX_UNSIGNED_INT [simp]: "unat MAX_UNSIGNED_INT = 4294967295"
  by (simp add: MAX_UNSIGNED_INT_def)

lemma unat_nat_u32: "n < 2 ^ 32 \<Longrightarrow> unat (of_nat n :: u32) = n"
  by (simp add: unat_of_nat take_bit_nat_eq_self)

lemma u32_nat_le: "a < 2 ^ 32 \<Longrightarrow> b < 2 ^ 32 \<Longrightarrow> (of_nat a :: u32) \<le> of_nat b \<longleftrightarrow> a \<le> b"
  by (simp add: word_le_nat_alt unat_nat_u32)

lemma u32_nat_less: "a < 2 ^ 32 \<Longrightarrow> b < 2 ^ 32 \<Longrightarrow> (of_nat a :: u32) < of_nat b \<longleftrightarrow> a < b"
  by (simp add: word_less_nat_alt unat_nat_u32)

lemma u32_nat_eq: "a < 2 ^ 32 \<Longrightarrow> b < 2 ^ 32 \<Longrightarrow> (of_nat a :: u32) = of_nat b \<longleftrightarrow> a = b"
  by (metis unat_nat_u32)

lemma u32_nat_diff: "b \<le> a \<Longrightarrow> (of_nat a :: u32) - of_nat b = of_nat (a - b)"
  by simp

lemma u32_nat_div: "a < 2 ^ 32 \<Longrightarrow> b < 2 ^ 32 \<Longrightarrow> (of_nat a :: u32) div of_nat b = of_nat (a div b)"
  by (simp add: word_arith_nat_div unat_nat_u32)

lemma u32_nat_mod: "a < 2 ^ 32 \<Longrightarrow> b < 2 ^ 32 \<Longrightarrow> (of_nat a :: u32) mod of_nat b = of_nat (a mod b)"
  by (simp add: word_arith_nat_mod unat_nat_u32)

lemma u32_nat_sint: "a < 2 ^ 31 \<Longrightarrow> sint (of_nat a :: u32) = int a"
  by (simp add: signed_of_nat signed_take_bit_int_eq_self)

end
