(* ===== verification/CString.thy ===== *)
theory CString
  imports Prelude "HOL-Library.Signed_Division"
begin

text \<open>
  \<^verbatim>\<open>lib/string.c\<close> and the number printers of \<^verbatim>\<open>lib/klib.c\<close> and \<^verbatim>\<open>kernel/ramfs.c\<close>.

  A \<^verbatim>\<open>char *\<close> that is only read is the block of bytes that starts there. The functions that write
  work on one memory and two addresses in it, because the source and the destination may overlap.
  The loops that look for a terminating zero need not end: they are \<open>partial_function\<close>s, and
  \<open>None\<close> means that there is no zero. \<open>holds_str m a xs\<close> says that the zero-terminated string \<open>xs\<close>
  stands at address \<open>a\<close>; the lemmas say what each function computes on such strings.
\<close>

subsection \<open>Zero-terminated strings\<close>

definition cstr :: "u8 list \<Rightarrow> bytes" where
  "cstr xs = (\<lambda>k. if k < length xs then xs ! k else 0)"

definition holds_str :: "bytes \<Rightarrow> nat \<Rightarrow> u8 list \<Rightarrow> bool" where
  "holds_str m a xs \<longleftrightarrow> 0 \<notin> set xs \<and> load_list m a (length xs) = xs \<and> m (a + length xs) = 0"

text \<open>An ASCII literal of the source as bytes.\<close>

definition lit :: "string \<Rightarrow> u8 list" where
  "lit s = map of_char s"

lemma holds_str_nth: "holds_str m a xs \<Longrightarrow> k < length xs \<Longrightarrow> m (a + k) = xs ! k"
  by (metis holds_str_def nth_load_list)

lemma holds_str_nonzero: "holds_str m a xs \<Longrightarrow> k < length xs \<Longrightarrow> m (a + k) \<noteq> 0"
  by (metis holds_str_def holds_str_nth nth_mem)

lemma holds_str_zero: "holds_str m a xs \<Longrightarrow> m (a + length xs) = 0"
  by (simp add: holds_str_def)

lemma holds_str_Nil [simp]: "holds_str m a [] \<longleftrightarrow> m a = 0"
  by (simp add: holds_str_def)

lemma load_list_Suc: "load_list m a (Suc n) = m a # load_list m (Suc a) n"
  by (simp add: load_list_def upt_conv_Cons del: upt_Suc)

lemma holds_str_Cons [simp]:
  "holds_str m a (x # xs) \<longleftrightarrow> x \<noteq> 0 \<and> m a = x \<and> holds_str m (Suc a) xs"
  by (auto simp: holds_str_def load_list_Suc)

lemma holds_str_cstr: "0 \<notin> set xs \<Longrightarrow> holds_str (cstr xs) 0 xs"
  by (auto simp: holds_str_def cstr_def intro!: nth_equalityI)

lemma holds_str_unique: "holds_str m a xs \<Longrightarrow> holds_str m a ys \<Longrightarrow> xs = ys"
proof (induction xs arbitrary: a ys)
  case Nil
  then show ?case by (cases ys) auto
next
  case (Cons x xs)
  then show ?case by (cases ys) auto
qed

lemma holds_str_cong:
  "(\<And>k. k \<le> length xs \<Longrightarrow> m (a + k) = m' (b + k)) \<Longrightarrow> holds_str m a xs \<Longrightarrow> holds_str m' b xs"
proof -
  assume eq: "\<And>k. k \<le> length xs \<Longrightarrow> m (a + k) = m' (b + k)" and h: "holds_str m a xs"
  have "load_list m' b (length xs) = load_list m a (length xs)"
    by (rule nth_equalityI) (auto simp: eq)
  then show ?thesis using h eq[of "length xs"] by (simp add: holds_str_def)
qed

subsection \<open>Reading\<close>

partial_function (option) strlen_loop :: "bytes \<Rightarrow> nat \<Rightarrow> nat \<Rightarrow> nat option" where
  "strlen_loop s k n = (if s k \<noteq> 0 then strlen_loop s (k + 1) (n + 1) else Some n)"

definition strlen :: "bytes \<Rightarrow> nat option" where
  "strlen s = strlen_loop s 0 0"

fun strnlen_loop :: "bytes \<Rightarrow> nat \<Rightarrow> nat \<Rightarrow> nat \<Rightarrow> nat" where
  "strnlen_loop s k 0 n = n"
| "strnlen_loop s k (Suc sz) n =
     (if s k \<noteq> 0 then strnlen_loop s (k + 1) sz (n + 1) else n)"

definition strnlen :: "bytes \<Rightarrow> nat \<Rightarrow> nat" where
  "strnlen s sz = strnlen_loop s 0 sz 0"

text \<open>The difference of two \<^verbatim>\<open>unsigned char\<close>s as an \<^verbatim>\<open>int\<close>.\<close>

definition char_diff :: "u8 \<Rightarrow> u8 \<Rightarrow> int" where
  "char_diff p q = uint p - uint q"

partial_function (option) strcmp_loop :: "bytes \<Rightarrow> bytes \<Rightarrow> nat \<Rightarrow> int option" where
  "strcmp_loop p q k =
     (if p k \<noteq> 0 \<and> p k = q k then strcmp_loop p q (k + 1) else Some (char_diff (p k) (q k)))"

definition strcmp :: "bytes \<Rightarrow> bytes \<Rightarrow> int option" where
  "strcmp p q = strcmp_loop p q 0"

fun strncmp_loop :: "bytes \<Rightarrow> bytes \<Rightarrow> nat \<Rightarrow> nat \<Rightarrow> int" where
  "strncmp_loop p q k 0 = 0"
| "strncmp_loop p q k (Suc n) =
     (if p k \<noteq> 0 \<and> p k = q k then strncmp_loop p q (k + 1) n else char_diff (p k) (q k))"

definition strncmp :: "bytes \<Rightarrow> bytes \<Rightarrow> nat \<Rightarrow> int" where
  "strncmp p q n = strncmp_loop p q 0 n"

subsection \<open>Writing\<close>

partial_function (option) strcpy :: "bytes \<Rightarrow> nat \<Rightarrow> nat \<Rightarrow> bytes option" where
  "strcpy m dst src =
     (let m' = m(dst := m src) in if m src \<noteq> 0 then strcpy m' (dst + 1) (src + 1) else Some m')"

definition strcat :: "bytes \<Rightarrow> nat \<Rightarrow> nat \<Rightarrow> bytes option" where
  "strcat m dst src = do { len \<leftarrow> strlen (\<lambda>k. m (dst + k)); strcpy m (dst + len) src }"

fun strncpy :: "bytes \<Rightarrow> nat \<Rightarrow> nat \<Rightarrow> nat \<Rightarrow> bytes" where
  "strncpy m dst src 0 = m"
| "strncpy m dst src (Suc sz) =
     (let m' = m(dst := m src) in strncpy m' (dst + 1) (if m' src \<noteq> 0 then src + 1 else src) sz)"

text \<open>
  \<^verbatim>\<open>memset\<close> copies its \<^verbatim>\<open>size_t\<close> count to an \<^verbatim>\<open>int\<close>: from $2^{31}$ on the count is negative and
  nothing is written.
\<close>

fun memset_loop :: "bytes \<Rightarrow> nat \<Rightarrow> u8 \<Rightarrow> nat \<Rightarrow> bytes" where
  "memset_loop p v c 0 = p"
| "memset_loop p v c (Suc m) = memset_loop (p(v := c)) (v + 1) c m"

definition memset :: "bytes \<Rightarrow> nat \<Rightarrow> u8 \<Rightarrow> u32 \<Rightarrow> bytes" where
  "memset p v c n = memset_loop p v c (nat (sint n))"

fun copy_down :: "bytes \<Rightarrow> nat \<Rightarrow> nat \<Rightarrow> nat \<Rightarrow> bytes" where
  "copy_down m d s 0 = m"
| "copy_down m d s (Suc n) = copy_down (m(d + n := m (s + n))) d s n"

fun copy_up :: "bytes \<Rightarrow> nat \<Rightarrow> nat \<Rightarrow> nat \<Rightarrow> bytes" where
  "copy_up m d s 0 = m"
| "copy_up m d s (Suc n) = copy_up (m(d := m s)) (d + 1) (s + 1) n"

definition memcpy :: "bytes \<Rightarrow> nat \<Rightarrow> nat \<Rightarrow> nat \<Rightarrow> bytes" where
  "memcpy m dst src n =
     (if src < dst \<and> src + n > dst then copy_down m dst src n else copy_up m dst src n)"

declare strlen_loop.simps [code] and strcmp_loop.simps [code] and strcpy.simps [code]

subsection \<open>What the readers compute\<close>

lemma strlen_loop_holds:
  "holds_str s k xs \<Longrightarrow> strlen_loop s k n = Some (n + length xs)"
proof (induction xs arbitrary: k n)
  case Nil
  then show ?case by (simp add: strlen_loop.simps[of s k n])
next
  case (Cons x xs)
  then show ?case by (simp add: strlen_loop.simps[of s k n])
qed

lemma strlen_holds [simp]: "holds_str s 0 xs \<Longrightarrow> strlen s = Some (length xs)"
  by (simp add: strlen_def strlen_loop_holds)

lemma strlen_cstr [simp]: "0 \<notin> set xs \<Longrightarrow> strlen (cstr xs) = Some (length xs)"
  by (rule strlen_holds) (rule holds_str_cstr)

lemma strlen_loop_Some:
  assumes "strlen_loop s k n = Some r"
  shows "n \<le> r \<and> s (k + (r - n)) = 0 \<and> (\<forall>j < r - n. s (k + j) \<noteq> 0)"
proof (rule strlen_loop.raw_induct
    [where P = "\<lambda>s k n r. n \<le> r \<and> s (k + (r - n)) = 0 \<and> (\<forall>j < r - n. s (k + j) \<noteq> 0)", OF _ assms])
  fix f :: "bytes \<Rightarrow> nat \<Rightarrow> nat \<Rightarrow> nat option" and s :: bytes and k n r
  assume IH: "\<And>s k n r. f s k n = Some r \<Longrightarrow>
      n \<le> r \<and> s (k + (r - n)) = 0 \<and> (\<forall>j < r - n. s (k + j) \<noteq> 0)"
    and eq: "(if s k \<noteq> 0 then f s (k + 1) (n + 1) else Some n) = Some r"
  show "n \<le> r \<and> s (k + (r - n)) = 0 \<and> (\<forall>j < r - n. s (k + j) \<noteq> 0)"
  proof (cases "s k = 0")
    case True
    with eq show ?thesis by simp
  next
    case False
    with eq have "f s (k + 1) (n + 1) = Some r" by simp
    note rec = IH[OF this]
    then have r: "n + 1 \<le> r" and z: "s (k + 1 + (r - (n + 1))) = 0"
      and nz: "\<forall>j < r - (n + 1). s (k + 1 + j) \<noteq> 0"
      by blast+
    obtain d where d: "r = n + 1 + d" using r le_Suc_ex by blast
    have "s (k + j) \<noteq> 0" if "j < Suc d" for j
      using that False nz d by (cases j) auto
    moreover have "s (Suc (k + d)) = 0" using z d by simp
    ultimately show ?thesis using d by simp
  qed
qed

lemma holds_str_load: "s n = 0 \<Longrightarrow> (\<And>j. j < n \<Longrightarrow> s j \<noteq> 0) \<Longrightarrow> holds_str s 0 (load_list s 0 n)"
  by (auto simp: holds_str_def load_list_def)

lemma strlen_Some_holds: "strlen s = Some n \<Longrightarrow> holds_str s 0 (load_list s 0 n)"
  using strlen_loop_Some[of s 0 0 n] by (intro holds_str_load) (auto simp: strlen_def)

text \<open>\<^verbatim>\<open>strlen\<close> returns exactly when there is a terminating zero.\<close>

lemma strlen_returns_iff: "(\<exists>n. strlen s = Some n) \<longleftrightarrow> (\<exists>k. s k = 0)"
proof
  assume "\<exists>n. strlen s = Some n"
  then obtain n where "strlen s = Some n" ..
  from holds_str_zero[OF strlen_Some_holds[OF this]] show "\<exists>k. s k = 0" ..
next
  assume ex: "\<exists>k. s k = 0"
  let ?n = "LEAST k. s k = 0"
  have z: "s ?n = 0" using ex by (rule LeastI_ex)
  have nz: "s j \<noteq> 0" if "j < ?n" for j using not_less_Least[OF that] .
  have "holds_str s 0 (load_list s 0 ?n)" using z nz by (rule holds_str_load)
  from strlen_holds[OF this] show "\<exists>n. strlen s = Some n" ..
qed

lemma strnlen_loop_holds:
  "holds_str s k xs \<Longrightarrow> strnlen_loop s k sz n = n + min sz (length xs)"
proof (induction s k sz n arbitrary: xs rule: strnlen_loop.induct)
  case (1 s k n)
  then show ?case by simp
next
  case (2 s k sz n)
  then show ?case by (cases xs) auto
qed

lemma strnlen_holds: "holds_str s 0 xs \<Longrightarrow> strnlen s sz = min sz (length xs)"
  by (simp add: strnlen_def strnlen_loop_holds)

subsection \<open>What the comparisons compute\<close>

text \<open>The lexicographic comparison of two strings by unsigned bytes.\<close>

fun lex_cmp :: "u8 list \<Rightarrow> u8 list \<Rightarrow> int" where
  "lex_cmp [] [] = 0"
| "lex_cmp [] (y # ys) = - uint y"
| "lex_cmp (x # xs) [] = uint x"
| "lex_cmp (x # xs) (y # ys) = (if x = y then lex_cmp xs ys else char_diff x y)"

lemma uint_eq_iff: "uint (x :: u8) = uint y \<longleftrightarrow> x = y"
  by (simp add: word_uint_eq_iff)

lemma char_diff_zero [simp]: "char_diff x y = 0 \<longleftrightarrow> x = y"
  by (simp add: char_diff_def uint_eq_iff)

lemma lex_cmp_zero_iff: "0 \<notin> set xs \<Longrightarrow> 0 \<notin> set ys \<Longrightarrow> lex_cmp xs ys = 0 \<longleftrightarrow> xs = ys"
  by (induction xs ys rule: lex_cmp.induct) (auto simp: unsigned_eq_0_iff)

lemma lex_cmp_antisym: "lex_cmp ys xs = - lex_cmp xs ys"
  by (induction xs ys rule: lex_cmp.induct) (auto simp: char_diff_def)

lemma strcmp_loop_holds:
  "holds_str p k xs \<Longrightarrow> holds_str q k ys \<Longrightarrow> strcmp_loop p q k = Some (lex_cmp xs ys)"
proof (induction xs ys arbitrary: k rule: lex_cmp.induct)
  case 1
  then show ?case by (simp add: strcmp_loop.simps[of p q k] char_diff_def)
next
  case (2 y ys)
  then show ?case by (simp add: strcmp_loop.simps[of p q k] char_diff_def)
next
  case (3 x xs)
  then show ?case by (simp add: strcmp_loop.simps[of p q k] char_diff_def)
next
  case (4 x xs y ys)
  then show ?case by (auto simp: strcmp_loop.simps[of p q k])
qed

lemma strcmp_holds:
  "holds_str p 0 xs \<Longrightarrow> holds_str q 0 ys \<Longrightarrow> strcmp p q = Some (lex_cmp xs ys)"
  by (simp add: strcmp_def strcmp_loop_holds)

text \<open>One terminated argument is enough for \<^verbatim>\<open>strcmp\<close> to end, and for the test against zero.\<close>

lemma strcmp_loop_right:
  "holds_str q k ys \<Longrightarrow> \<exists>r. strcmp_loop p q k = Some r \<and> (r = 0 \<longleftrightarrow> holds_str p k ys)"
proof (induction ys arbitrary: k)
  case Nil
  then show ?case by (simp add: strcmp_loop.simps[of p q k])
next
  case (Cons y ys)
  then show ?case
    by (cases "p k = y") (auto simp: strcmp_loop.simps[of p q k])
qed

lemma strcmp_right:
  "holds_str q 0 ys \<Longrightarrow> \<exists>r. strcmp p q = Some r \<and> (r = 0 \<longleftrightarrow> holds_str p 0 ys)"
  unfolding strcmp_def by (rule strcmp_loop_right)

lemma strncmp_loop_holds:
  "holds_str p k xs \<Longrightarrow> holds_str q k ys \<Longrightarrow>
    strncmp_loop p q k n = 0 \<longleftrightarrow> take n xs = take n ys"
proof (induction n arbitrary: k xs ys)
  case 0
  then show ?case by simp
next
  case (Suc n)
  then show ?case
    by (cases xs; cases ys) auto
qed

subsection \<open>What the writers do\<close>

lemma strcpy_holds:
  "holds_str m src xs \<Longrightarrow> dst \<le> src \<or> src + length xs < dst \<Longrightarrow>
    strcpy m dst src = Some (store_list m dst (xs @ [0]))"
proof (induction xs arbitrary: m dst src)
  case Nil
  then show ?case by (simp add: strcpy.simps[of m dst src] store_list_Cons fun_upd_def)
next
  case (Cons x xs)
  let ?m = "m(dst := x)"
  have "holds_str m (Suc src) xs" and x: "x \<noteq> 0" "m src = x" using Cons.prems(1) by auto
  moreover have "m (Suc src + k) = ?m (Suc src + k)" if "k \<le> length xs" for k
    using Cons.prems(2) that by auto
  ultimately have h: "holds_str ?m (Suc src) xs" by (blast intro: holds_str_cong)
  have c: "Suc dst \<le> Suc src \<or> Suc src + length xs < Suc dst"
    using Cons.prems(2) by auto
  from Cons.IH[OF h c] have "strcpy ?m (Suc dst) (Suc src) = Some (store_list ?m (Suc dst) (xs @ [0]))" .
  then show ?case using x by (simp add: strcpy.simps[of m dst src] store_list_Cons fun_upd_def)
qed

lemma holds_str_store: "0 \<notin> set xs \<Longrightarrow> holds_str (store_list m a (xs @ [0])) a xs"
  by (auto simp: holds_str_def block_simps nth_append load_list_def intro!: nth_equalityI)

lemma memset_loop_eq: "memset_loop p v c n = store_list p v (replicate n c)"
  by (induction n arbitrary: p v) (simp_all add: store_list_Cons)

lemma memset_eq: "unat n < 2 ^ 31 \<Longrightarrow> memset p v c n = store_list p v (replicate (unat n) c)"
proof -
  assume n: "unat n < 2 ^ 31"
  then have "int (unat n) < int (2 ^ 31)" by (simp only: of_nat_less_iff)
  then have "uint n < 2 ^ 31" by (simp only: uint_nat of_nat_power of_nat_numeral)
  moreover have "- (2 ^ 31) \<le> uint n" by (rule order.trans[OF _ uint_ge_0]) simp
  ultimately have "signed_take_bit 31 (uint n) = uint n" by (rule signed_take_bit_int_eq_self[rotated])
  then have "sint n = uint n" by (simp add: sint_uint)
  then have "nat (sint n) = unat n" by simp
  then show ?thesis by (simp add: memset_def memset_loop_eq)
qed

lemma copy_down_eq:
  "s \<le> d \<Longrightarrow> copy_down m d s n = store_list m d (load_list m s n)"
proof (induction n arbitrary: m)
  case 0
  then show ?case by simp
next
  case (Suc n)
  have "copy_down m d s (Suc n) = store_list (m(d + n := m (s + n))) d
      (load_list (m(d + n := m (s + n))) s n)"
    using Suc by simp
  then show ?case
    using Suc.prems by (auto simp: fun_eq_iff store_list_def)
qed

lemma copy_up_eq:
  "d \<le> s \<or> s + n \<le> d \<Longrightarrow> copy_up m d s n = store_list m d (load_list m s n)"
proof (induction n arbitrary: m d s)
  case 0
  then show ?case by simp
next
  case (Suc n)
  have "Suc d \<le> Suc s \<or> Suc s + n \<le> Suc d" using Suc.prems by auto
  from Suc.IH[OF this] have "copy_up m d s (Suc n) =
      store_list (m(d := m s)) (Suc d) (load_list (m(d := m s)) (Suc s) n)"
    by (simp del: fun_upd_apply)
  moreover have "load_list (m(d := m s)) (Suc s) n = load_list m (Suc s) n"
    using Suc.prems by (auto simp: load_list_def)
  ultimately show ?case by (simp add: store_list_Cons load_list_Suc)
qed

text \<open>\<^verbatim>\<open>memcpy\<close> moves: the destination gets the old bytes of the source, whatever overlaps.\<close>

lemma memcpy_moves: "memcpy m dst src n = store_list m dst (load_list m src n)"
  by (auto simp: memcpy_def copy_down_eq copy_up_eq)

lemma strcat_holds:
  assumes d: "holds_str m dst xs" and s: "holds_str m src ys"
    and apart: "src + length ys < dst + length xs \<or> dst + length xs \<le> src"
  shows "strcat m dst src = Some (store_list m (dst + length xs) (ys @ [0]))"
proof -
  have "holds_str (\<lambda>k. m (dst + k)) 0 xs" using holds_str_cong[OF _ d] by simp
  then show ?thesis
    using strcpy_holds[OF s, of "dst + length xs"] apart by (auto simp: strcat_def)
qed

lemma strncpy_pad:
  "m src = 0 \<Longrightarrow> dst + sz \<le> src \<or> src < dst \<Longrightarrow>
    strncpy m dst src sz = store_list m dst (replicate sz 0)"
  by (induction sz arbitrary: m dst) (auto simp: store_list_Cons fun_upd_def Let_def)

lemma strncpy_holds:
  "holds_str m src xs \<Longrightarrow> dst + sz \<le> src \<or> src + length xs < dst \<Longrightarrow>
    strncpy m dst src sz = store_list m dst (take sz xs @ replicate (sz - length xs) 0)"
proof (induction sz arbitrary: m dst src xs)
  case 0
  then show ?case by simp
next
  case (Suc sz)
  show ?case
  proof (cases xs)
    case Nil
    with Suc.prems show ?thesis using strncpy_pad[of m src dst "Suc sz"] by simp
  next
    case (Cons x ys)
    let ?m = "m(dst := x)"
    have x: "x \<noteq> 0" "m src = x" and tl: "holds_str m (Suc src) ys"
      using Suc.prems(1) Cons by auto
    have "m (Suc src + k) = ?m (Suc src + k)" if "k \<le> length ys" for k
      using Suc.prems(2) that Cons by auto
    with tl have h: "holds_str ?m (Suc src) ys" by (blast intro: holds_str_cong)
    have c: "Suc dst + sz \<le> Suc src \<or> Suc src + length ys < Suc dst"
      using Suc.prems(2) Cons by auto
    have "src \<noteq> dst" using Suc.prems(2) by auto
    with Suc.IH[OF h c] show ?thesis
      using x Cons by (simp add: store_list_Cons fun_upd_def Let_def)
  qed
qed

subsection \<open>The number printers\<close>

text \<open>
  \<^verbatim>\<open>itoa\<close> of \<^verbatim>\<open>lib/klib.c\<close>: the loop goes over the eight nibbles, \<open>k\<close> is the number of nibbles left
  (the C counter \<^verbatim>\<open>i\<close> is \<open>4 * (k - 1)\<close>), \<open>p\<close> the address the next character goes to.
\<close>

fun itoa_loop :: "bytes \<Rightarrow> nat \<Rightarrow> u32 \<Rightarrow> nat \<Rightarrow> bool \<Rightarrow> bytes \<times> nat" where
  "itoa_loop m p num 0 flag = (m, p)"
| "itoa_loop m p num (Suc k) flag =
     (let ch = ucast (drop_bit (4 * k) num AND 0xF) :: u8 in
      if flag \<or> ch > 0 then
        let ch = ch + 0x30; ch = (if ch > 0x39 then ch + 7 else ch) in
        itoa_loop (m(p := ch)) (p + 1) num k True
      else itoa_loop m p num k flag)"

definition itoa :: "bytes \<Rightarrow> nat \<Rightarrow> u32 \<Rightarrow> bytes" where
  "itoa m str num =
     (let m = m(str := 0x30); m = m(str + 1 := 0x78);
          (m, p) = (if num = 0 then (m(str + 2 := 0x30), str + 3)
                    else itoa_loop m (str + 2) num 8 False)
      in m(p := 0))"

text \<open>\<^verbatim>\<open>num2str\<close> of \<^verbatim>\<open>kernel/ramfs.c\<close>; C's \<^verbatim>\<open>/\<close> and \<^verbatim>\<open>%\<close> truncate towards zero.\<close>

function num2str_digits :: "bytes \<Rightarrow> nat \<Rightarrow> int \<Rightarrow> bytes \<times> nat" where
  "num2str_digits buf i num =
     (if num \<noteq> 0 then num2str_digits (buf(i := of_int (num smod 10 + 0x30))) (i + 1) (num sdiv 10)
      else (buf, i))"
  by pat_completeness auto
termination
  by (relation "measure (\<lambda>(buf, i, num). nat \<bar>num\<bar>)")
    (auto simp: signed_divide_int_def abs_mult sgn_if)

fun num2str_reverse :: "bytes \<Rightarrow> nat \<Rightarrow> nat \<Rightarrow> nat \<Rightarrow> bytes" where
  "num2str_reverse buf i j 0 = buf"
| "num2str_reverse buf i j (Suc n) =
     (let tmp = buf j; buf = buf(j := buf (i - j - 1)); buf = buf(i - j - 1 := tmp)
      in num2str_reverse buf i (j + 1) n)"

definition num2str :: "bytes \<Rightarrow> int \<Rightarrow> bytes \<times> nat" where
  "num2str buf num =
     (let (buf, i) = num2str_digits buf 0 num;
          (buf, i) = (if i = 0 then (buf(i := 0x30), i + 1) else (buf, i));
          buf = num2str_reverse buf i 0 (i div 2)
      in (buf(i := 0), i))"

text \<open>Reading the digits back.\<close>

definition digits_val :: "nat \<Rightarrow> nat list \<Rightarrow> nat" where
  "digits_val b ds = foldl (\<lambda>a d. a * b + d) 0 ds"

definition hex_char :: "nat \<Rightarrow> u8" where
  "hex_char d = (if d < 10 then of_nat d + 0x30 else of_nat d + 0x37)"

definition dec_char :: "nat \<Rightarrow> u8" where
  "dec_char d = of_nat d + 0x30"

lemma digits_val_append: "digits_val b (ds @ [d]) = digits_val b ds * b + d"
  by (simp add: digits_val_def)

lemma digits_val_strip: "digits_val b (dropWhile ((=) 0) ds) = digits_val b ds"
proof (induction ds)
  case Nil
  then show ?case by simp
next
  case (Cons d ds)
  then show ?case by (simp add: digits_val_def)
qed

lemma digits_val_Cons: "digits_val b (d # ds) = d * b ^ length ds + digits_val b ds"
proof (induction ds rule: rev_induct)
  case Nil
  then show ?case by (simp add: digits_val_def)
next
  case (snoc e ds)
  then show ?case
    using digits_val_append[of b "d # ds" e] by (simp add: digits_val_append algebra_simps)
qed

definition nibbles :: "nat \<Rightarrow> nat \<Rightarrow> nat list" where
  "nibbles n k = map (\<lambda>j. n div 16 ^ j mod 16) (rev [0..<k])"

lemma nibbles_Suc [simp]: "nibbles n (Suc k) = n div 16 ^ k mod 16 # nibbles n k"
  by (simp add: nibbles_def)

lemma nibbles_0 [simp]: "nibbles n 0 = []"
  by (simp add: nibbles_def)

lemma digits_val_nibbles: "digits_val 16 (nibbles n k) = n mod 16 ^ k"
proof (induction k)
  case 0
  then show ?case by (simp add: digits_val_def)
next
  case (Suc k)
  have "length (nibbles n k) = k" by (simp add: nibbles_def)
  with Suc show ?case
    by (simp only: nibbles_Suc digits_val_Cons power_Suc)
      (metis add.commute mod_mult2_eq mult.commute)
qed

lemma nibble_char:
  assumes "d = unat (drop_bit (4 * k) num AND 0xF :: u32)"
  shows "(ucast (drop_bit (4 * k) num AND 0xF) :: u8) = of_nat d"
    and "d = unat num div 16 ^ k mod 16"
proof -
  show "(ucast (drop_bit (4 * k) num AND 0xF) :: u8) = of_nat d"
    unfolding assms by simp
  have "(0xF :: u32) = mask 4" by (simp add: mask_eq_exp_minus_1)
  then have "d = unat (take_bit 4 (drop_bit (4 * k) num))"
    unfolding assms by (simp only: take_bit_eq_mask)
  also have "\<dots> = take_bit 4 (drop_bit (4 * k) (unat num))"
    by (simp only: unsigned_take_bit_eq unsigned_drop_bit_eq) (simp add: take_bit_nat_eq_self)
  also have "\<dots> = unat num div 16 ^ k mod 16"
    by (simp add: drop_bit_eq_div take_bit_eq_mod power_mult)
  finally show "d = unat num div 16 ^ k mod 16" .
qed

lemma hex_char_nibble:
  assumes "d < 16"
  shows "(let ch = (of_nat d :: u8) + 0x30 in if ch > 0x39 then ch + 7 else ch) = hex_char d"
    and "(of_nat d :: u8) > 0 \<longleftrightarrow> d \<noteq> 0"
proof -
  have "\<forall>d \<in> {..<16}. (let ch = (of_nat d :: u8) + 0x30 in if ch > 0x39 then ch + 7 else ch) = hex_char d
      \<and> ((of_nat d :: u8) > 0 \<longleftrightarrow> d \<noteq> 0)"
    by (simp add: hex_char_def lessThan_nat_numeral lessThan_Suc)
  then show "(let ch = (of_nat d :: u8) + 0x30 in if ch > 0x39 then ch + 7 else ch) = hex_char d"
    and "(of_nat d :: u8) > 0 \<longleftrightarrow> d \<noteq> 0"
    using assms by blast+
qed

lemma itoa_loop_eq:
  "itoa_loop m p num k flag =
     (let ds = (if flag then nibbles (unat num) k else dropWhile ((=) 0) (nibbles (unat num) k))
      in (store_list m p (map hex_char ds), p + length ds))"
proof (induction k arbitrary: m p flag)
  case 0
  then show ?case by simp
next
  case (Suc k)
  define d where "d = unat (drop_bit (4 * k) num AND 0xF :: u32)"
  have c: "(ucast (drop_bit (4 * k) num AND 0xF) :: u8) = of_nat d"
    and d: "unat num div 16 ^ k mod 16 = d"
    using nibble_char[OF d_def] by simp_all
  have d16: "d < 16" unfolding d[symmetric] by simp
  note h = hex_char_nibble[OF d16]
  show ?case
    unfolding itoa_loop.simps c Let_def h(2) h(1)[unfolded Let_def] nibbles_Suc d
    by (simp add: Suc Let_def store_list_Cons fun_upd_def)
qed

lemma itoa_eq:
  "\<exists>ds. itoa m str num = store_list m str (lit ''0x'' @ map hex_char ds @ [0])
     \<and> digits_val 16 ds = unat num \<and> set ds \<subseteq> {..<16} \<and> length ds \<le> 8
     \<and> (ds = [0] \<or> (ds \<noteq> [] \<and> hd ds \<noteq> 0))"
proof (cases "num = 0")
  case True
  have "itoa m str num = store_list m str (lit ''0x'' @ map hex_char [0] @ [0])"
    using True by (simp add: itoa_def lit_def hex_char_def store_list_Cons numeral_2_eq_2
        numeral_3_eq_3 of_char_def fun_upd_def)
  then show ?thesis using True by (intro exI[of _ "[0]"]) (simp add: digits_val_def)
next
  case False
  define ds where "ds = dropWhile ((=) 0) (nibbles (unat num) 8)"
  have v: "digits_val 16 ds = unat num"
    unfolding ds_def digits_val_strip digits_val_nibbles by simp
  then have "ds \<noteq> []" using False by (auto simp: digits_val_def unat_eq_zero)
  moreover from this have "hd ds \<noteq> 0" unfolding ds_def using hd_dropWhile by metis
  moreover have "set ds \<subseteq> {..<16}"
    unfolding ds_def using set_dropWhileD by (fastforce simp: nibbles_def)
  moreover have "length ds \<le> 8"
    unfolding ds_def by (rule order.trans[OF length_dropWhile_le]) (simp add: nibbles_def)
  moreover have "itoa m str num = store_list m str (lit ''0x'' @ map hex_char ds @ [0])"
    using False itoa_loop_eq[of _ "str + 2" num 8 False]
    by (simp add: itoa_def ds_def lit_def store_list_Cons store_list_append numeral_2_eq_2
        of_char_def fun_upd_def Let_def)
  ultimately show ?thesis using v by blast
qed

text \<open>The decimal digits of a number, the last one first, as \<^verbatim>\<open>num2str\<close> finds them.\<close>

fun lsd_digits :: "nat \<Rightarrow> nat list" where
  "lsd_digits n = (if n = 0 then [] else n mod 10 # lsd_digits (n div 10))"

declare lsd_digits.simps [simp del] num2str_digits.simps [simp del]

lemma lsd_digits_0 [simp]: "lsd_digits 0 = []"
  by (simp add: lsd_digits.simps)

lemma lsd_digits_pos: "0 < n \<Longrightarrow> lsd_digits n = n mod 10 # lsd_digits (n div 10)"
  by (simp add: lsd_digits.simps[of n])

lemma digits_val_lsd: "digits_val 10 (rev (lsd_digits n)) = n"
proof (induction n rule: lsd_digits.induct)
  case (1 n)
  then show ?case
    by (cases "n = 0") (simp_all add: lsd_digits_pos digits_val_append, simp add: digits_val_def)
qed

lemma set_lsd_digits: "set (lsd_digits n) \<subseteq> {..<10}"
proof (induction n rule: lsd_digits.induct)
  case (1 n)
  then show ?case by (cases "n = 0") (simp_all add: lsd_digits_pos)
qed

lemma last_lsd_digits: "0 < n \<Longrightarrow> last (lsd_digits n) \<noteq> 0"
proof (induction n rule: lsd_digits.induct)
  case (1 n)
  then show ?case
    by (cases "n div 10 = 0") (auto simp: lsd_digits_pos lsd_digits_pos[of "n div 10"])
qed

lemma num2str_digits_eq:
  "num2str_digits buf i (int n) =
     (store_list buf i (map dec_char (lsd_digits n)), i + length (lsd_digits n))"
proof (induction n arbitrary: buf i rule: lsd_digits.induct)
  case (1 n)
  show ?case
  proof (cases "n = 0")
    case True
    then show ?thesis by (simp add: num2str_digits.simps)
  next
    case False
    have q: "int n sdiv 10 = int (n div 10)" and r: "int n smod 10 = int (n mod 10)"
      by (simp_all add: signed_divide_int_def signed_modulo_int_def sgn_if zdiv_int zmod_int
          minus_mult_div_eq_mod)
    have c: "(of_int (int (n mod 10) + 0x30) :: u8) = dec_char (n mod 10)"
      by (simp add: dec_char_def)
    show ?thesis
      using False
      by (simp only: num2str_digits.simps[of buf i "int n"] q r c) (simp add: lsd_digits_pos
          store_list_Cons "1.IH" fun_upd_def)
  qed
qed

lemma num2str_reverse_eq:
  "2 * (j + n) \<le> i \<Longrightarrow> num2str_reverse buf i j n k =
     (if j \<le> k \<and> k < j + n \<or> i \<le> k + j + n \<and> k + j < i then buf (i - 1 - k) else buf k)"
proof (induction n arbitrary: buf j)
  case 0
  then show ?case by auto
next
  case (Suc n)
  have "2 * (j + 1 + n) \<le> i" using Suc.prems by simp
  note IH = Suc.IH[OF this]
  show ?case
    using Suc.prems unfolding num2str_reverse.simps Let_def IH by auto
qed

lemma num2str_reverse_rev:
  "num2str_reverse (store_list buf 0 xs) (length xs) 0 (length xs div 2) = store_list buf 0 (rev xs)"
proof (rule ext)
  fix k
  show "num2str_reverse (store_list buf 0 xs) (length xs) 0 (length xs div 2) k =
      store_list buf 0 (rev xs) k"
    by (subst num2str_reverse_eq) (auto simp: store_list_def rev_nth intro!: arg_cong[where f = "(!) xs"])
qed

text \<open>The digits \<^verbatim>\<open>num2str\<close> prints.\<close>

definition dec_digits :: "nat \<Rightarrow> nat list" where
  "dec_digits n = (if n = 0 then [0] else rev (lsd_digits n))"

lemma num2str_eq:
  "num2str buf (int n) = (store_list buf 0 (map dec_char (dec_digits n) @ [0]), length (dec_digits n))"
proof (cases "n = 0")
  case True
  then show ?thesis
    using num2str_digits_eq[of buf 0 0]
    by (simp add: num2str_def dec_digits_def dec_char_def store_list_Cons fun_eq_iff)
next
  case False
  have "length (lsd_digits n) \<noteq> 0" using False by (simp add: lsd_digits_pos)
  then show ?thesis
    using False num2str_digits_eq[of buf 0 n]
      num2str_reverse_rev[of buf "map dec_char (lsd_digits n)"]
    by (simp add: num2str_def dec_digits_def store_list_append store_list_Cons rev_map fun_eq_iff)
qed

lemma dec_digits_val: "digits_val 10 (dec_digits n) = n"
  using digits_val_lsd[of n] by (simp add: dec_digits_def digits_val_def)

lemma set_dec_digits: "set (dec_digits n) \<subseteq> {..<10}"
  using set_lsd_digits[of n] by (simp add: dec_digits_def)

lemma hd_dec_digits: "0 < n \<Longrightarrow> hd (dec_digits n) \<noteq> 0"
  using last_lsd_digits[of n] by (simp add: dec_digits_def hd_rev)

subsection \<open>The string functions as their callers see them\<close>

text \<open>\<^verbatim>\<open>memcpy\<close> gives the destination the bytes the source had before the call, also when the
  two overlap in either direction, and changes nothing else.\<close>

lemma memcpy_copies:
  "load_list (memcpy m dst src n) dst n = load_list m src n \<and>
   {k. memcpy m dst src n k \<noteq> m k} \<subseteq> {dst..<dst + n}"
proof
  show "load_list (memcpy m dst src n) dst n = load_list m src n"
    by (simp add: memcpy_moves block_simps)
  show "{k. memcpy m dst src n k \<noteq> m k} \<subseteq> {dst..<dst + n}"
    by (auto simp: memcpy_moves store_list_def split: if_splits)
qed

text \<open>\<^verbatim>\<open>strcmp\<close> of two strings ends, is zero exactly for equal strings, and its sign is that of the
  first differing byte (the shorter string being the smaller one), so it is antisymmetric.\<close>

lemma strcmp_compares:
  assumes "0 \<notin> set xs" "0 \<notin> set ys"
  shows "strcmp (cstr xs) (cstr ys) = Some (lex_cmp xs ys) \<and>
    strcmp (cstr ys) (cstr xs) = Some (- lex_cmp xs ys) \<and> (lex_cmp xs ys = 0 \<longleftrightarrow> xs = ys)"
  using assms lex_cmp_antisym[of ys xs]
  by (simp add: strcmp_holds[OF holds_str_cstr holds_str_cstr] lex_cmp_zero_iff)

lemma strcmp_compares_witness:
  "strcmp (cstr [104, 105]) (cstr [104, 101, 121]) = Some 4"
  using strcmp_compares[of "[104, 105]" "[104, 101, 121]"] by (simp add: char_diff_def)

text \<open>\<^verbatim>\<open>itoa\<close> prints the value it is given: \<^verbatim>\<open>0x\<close> and the hexadecimal digits, each below sixteen, without leading
  zeros, in at most eleven bytes, and nothing outside them changes.\<close>

lemma itoa_prints:
  "\<exists>ds. holds_str (itoa m str num) str (lit ''0x'' @ map hex_char ds) \<and> digits_val 16 ds = unat num \<and>
     set ds \<subseteq> {..<16} \<and> length ds \<le> 8 \<and> (ds = [0] \<or> (ds \<noteq> [] \<and> hd ds \<noteq> 0)) \<and>
     {k. itoa m str num k \<noteq> m k} \<subseteq> {str..<str + length ds + 3}"
proof -
  obtain ds where ds: "itoa m str num = store_list m str ((lit ''0x'' @ map hex_char ds) @ [0])"
      "digits_val 16 ds = unat num" "set ds \<subseteq> {..<16}" "length ds \<le> 8" "ds = [0] \<or> (ds \<noteq> [] \<and> hd ds \<noteq> 0)"
    using itoa_eq[of m str num] by auto
  have "hex_char d \<noteq> 0" if "d < 16" for d
  proof -
    have "\<forall>d \<in> {..<16}. hex_char d \<noteq> 0" by (simp add: hex_char_def lessThan_nat_numeral lessThan_Suc)
    with that show ?thesis by simp
  qed
  then have "0 \<notin> set (lit ''0x'' @ map hex_char ds)" using ds(3) by (auto simp: lit_def of_char_def)
  then have "holds_str (itoa m str num) str (lit ''0x'' @ map hex_char ds)"
    unfolding ds(1) by (rule holds_str_store)
  moreover have "{k. itoa m str num k \<noteq> m k} \<subseteq> {str..<str + length ds + 3}"
    unfolding ds(1) by (auto simp: store_list_def lit_def split: if_splits)
  ultimately show ?thesis using ds by blast
qed

text \<open>\<^verbatim>\<open>num2str\<close> prints a number that is not negative in decimal, without leading zeros, and
  returns the number of digits.\<close>

lemma num2str_prints:
  "\<exists>ds. holds_str (fst (num2str buf (int n))) 0 (map dec_char ds) \<and> snd (num2str buf (int n)) = length ds \<and>
     digits_val 10 ds = n \<and> (ds = [0] \<or> (ds \<noteq> [] \<and> hd ds \<noteq> 0))"
proof (intro exI conjI)
  have "dec_char d \<noteq> 0" if "d < 10" for d
  proof -
    have "\<forall>d \<in> {..<10}. dec_char d \<noteq> 0" by (simp add: dec_char_def lessThan_nat_numeral lessThan_Suc)
    with that show ?thesis by simp
  qed
  then have "0 \<notin> set (map dec_char (dec_digits n))" using set_dec_digits[of n] by auto
  then show "holds_str (fst (num2str buf (int n))) 0 (map dec_char (dec_digits n))"
    by (simp add: num2str_eq holds_str_store)
  show "snd (num2str buf (int n)) = length (dec_digits n)" by (simp add: num2str_eq)
  show "digits_val 10 (dec_digits n) = n" by (rule dec_digits_val)
  show "dec_digits n = [0] \<or> (dec_digits n \<noteq> [] \<and> hd (dec_digits n) \<noteq> 0)"
    using hd_dec_digits[of n] by (cases "n = 0") (auto simp: dec_digits_def lsd_digits_pos)
qed

end
