(* ===== verification/MemMan.thy ===== *)
theory MemMan
  imports Prelude
begin

text \<open>
  The physical memory manager, \<^verbatim>\<open>kernel/memman.c\<close>: a table of free blocks sorted by address.

  \<open>MEMMAN\<close> is \<^verbatim>\<open>struct MEMMAN\<close>; the table is the block \<open>free\<close>, of which the first \<open>frees\<close> entries
  are in use. The shifting loops and the searches are recursions over the number of iterations
  left. The theory shows the table operations equal to operations on the list \<open>blocks\<close> of the
  entries in use, keeps the invariant \<open>memman_ok\<close> (sorted, apart from each other, not empty, at
  most \<open>MEMMAN_FREES\<close>), and states what allocating and freeing do to the set of free addresses
  \<open>avail\<close>. The locale \<open>allocator\<close> is the contract its clients use.
\<close>

subsection \<open>The table\<close>

record FREEINFO =
  fi_addr :: u32
  fi_size :: u32

record MEMMAN =
  frees :: nat
  maxfrees :: nat
  lostsize :: u32
  losts :: u32
  free :: "FREEINFO block"

definition MEMMAN_FREES :: nat where "MEMMAN_FREES = 4090"
definition MEMSTART :: u32 where "MEMSTART = 0x00400000"
definition KWALL :: u32 where "KWALL = 0x00600000"
definition WALL :: u32 where "WALL = 0x00800000"
definition UWALL :: u32 where "UWALL = 0x01000000"
definition MEMEND :: u32 where "MEMEND = 0x02000000"

lemmas memman_consts = MEMMAN_FREES_def MEMSTART_def KWALL_def WALL_def UWALL_def MEMEND_def

definition memman_init :: "MEMMAN \<Rightarrow> MEMMAN" where
  "memman_init man = man\<lparr>frees := 0, maxfrees := 0, lostsize := 0, losts := 0\<rparr>"

text \<open>\<open>for(; i<man->frees; i++) man->free[i] = man->free[i+1]\<close>, \<open>n\<close> iterations.\<close>

fun close_gap :: "FREEINFO block \<Rightarrow> nat \<Rightarrow> nat \<Rightarrow> FREEINFO block" where
  "close_gap f i 0 = f"
| "close_gap f i (Suc n) = close_gap (f(i := f (i + 1))) (i + 1) n"

text \<open>\<open>for(j = man->frees; j>i; j--) man->free[j] = man->free[j-1]\<close>, \<open>n\<close> iterations.\<close>

fun open_gap :: "FREEINFO block \<Rightarrow> nat \<Rightarrow> nat \<Rightarrow> FREEINFO block" where
  "open_gap f j 0 = f"
| "open_gap f j (Suc n) = open_gap (f(j := f (j - 1))) (j - 1) n"

subsection \<open>Allocating\<close>

text \<open>
  The four allocators are the same loop with different bounds: \<open>i\<close> is the index, \<open>n\<close> the number of
  entries left to look at.
\<close>

fun alloc_loop :: "u32 \<Rightarrow> u32 \<Rightarrow> MEMMAN \<Rightarrow> u32 \<Rightarrow> nat \<Rightarrow> nat \<Rightarrow> MEMMAN \<times> u32" where
  "alloc_loop lo hi man sz i 0 = (man, - 1)"
| "alloc_loop lo hi man sz i (Suc n) =
     (if lo \<le> fi_addr (free man i) \<and> fi_addr (free man i) + sz < hi \<and> sz \<le> fi_size (free man i) then
        let a = fi_addr (free man i);
            e = (free man i)\<lparr>fi_addr := a + sz, fi_size := fi_size (free man i) - sz\<rparr>;
            man = man\<lparr>free := (free man)(i := e)\<rparr>
        in if fi_size e = 0 then
             let man = man\<lparr>frees := frees man - 1\<rparr>
             in (man\<lparr>free := close_gap (free man) i (frees man - i)\<rparr>, a)
           else (man, a)
      else alloc_loop lo hi man sz (i + 1) n)"

definition memman_alloc :: "MEMMAN \<Rightarrow> u32 \<Rightarrow> MEMMAN \<times> u32" where
  "memman_alloc man sz = alloc_loop WALL UWALL man sz 0 (frees man)"

definition memman_kalloc :: "MEMMAN \<Rightarrow> u32 \<Rightarrow> MEMMAN \<times> u32" where
  "memman_kalloc man sz = alloc_loop KWALL WALL man sz 0 (frees man)"

definition memman_alloc_4k :: "MEMMAN \<Rightarrow> MEMMAN \<times> u32" where
  "memman_alloc_4k man = alloc_loop UWALL MEMEND man 0x1000 0 (frees man)"

definition memman_kalloc_4k :: "MEMMAN \<Rightarrow> MEMMAN \<times> u32" where
  "memman_kalloc_4k man = alloc_loop MEMSTART KWALL man 0x1000 0 (frees man)"

subsection \<open>Freeing\<close>

fun free_index :: "MEMMAN \<Rightarrow> u32 \<Rightarrow> nat \<Rightarrow> nat \<Rightarrow> nat" where
  "free_index man a i 0 = i"
| "free_index man a i (Suc n) =
     (if fi_addr (free man i) > a then i else free_index man a (i + 1) n)"

definition grow_entry :: "FREEINFO block \<Rightarrow> nat \<Rightarrow> u32 \<Rightarrow> FREEINFO block" where
  "grow_entry f i sz = f(i := (f i)\<lparr>fi_size := fi_size (f i) + sz\<rparr>)"

definition memman_free :: "MEMMAN \<Rightarrow> u32 \<Rightarrow> u32 \<Rightarrow> MEMMAN \<times> u32" where
  "memman_free man a sz =
     (if sz = 0 then (man, 0) else
      let i = free_index man a 0 (frees man); f = free man in
      if i > 0 \<and> fi_addr (f (i - 1)) + fi_size (f (i - 1)) = a then
        let f = grow_entry f (i - 1) sz in
        if i < frees man \<and> a + sz = fi_addr (f i) then
          let f = grow_entry f (i - 1) (fi_size (f i)); fr = frees man - 1
          in (man\<lparr>frees := fr, free := close_gap f i (fr - i)\<rparr>, 0)
        else (man\<lparr>free := f\<rparr>, 0)
      else if i < frees man \<and> a + sz = fi_addr (f i) then
        (man\<lparr>free := f(i := (f i)\<lparr>fi_addr := a, fi_size := fi_size (f i) + sz\<rparr>)\<rparr>, 0)
      else if frees man < MEMMAN_FREES then
        let f = open_gap f (frees man) (frees man - i); fr = frees man + 1
        in (man\<lparr>frees := fr, maxfrees := max (maxfrees man) fr,
               free := f(i := (f i)\<lparr>fi_addr := a, fi_size := sz\<rparr>)\<rparr>, 0)
      else (man\<lparr>losts := losts man + 1, lostsize := lostsize man + sz\<rparr>, - 1))"

definition memman_free_4k :: "MEMMAN \<Rightarrow> u32 \<Rightarrow> MEMMAN \<times> u32" where
  "memman_free_4k man a = memman_free man a 0x1000"

fun total_loop :: "MEMMAN \<Rightarrow> u32 \<Rightarrow> nat \<Rightarrow> nat \<Rightarrow> u32" where
  "total_loop man t i 0 = t"
| "total_loop man t i (Suc n) = total_loop man (t + fi_size (free man i)) (i + 1) n"

definition memman_total :: "MEMMAN \<Rightarrow> u32" where
  "memman_total man = total_loop man 0 0 (frees man)"

subsection \<open>The system calls\<close>

definition do_malloc :: "MEMMAN \<Rightarrow> u32 \<Rightarrow> MEMMAN \<times> u32" where
  "do_malloc man sz = memman_alloc man sz"

definition do_kmalloc :: "MEMMAN \<Rightarrow> u32 \<Rightarrow> MEMMAN \<times> u32" where
  "do_kmalloc man sz = memman_kalloc man sz"

definition do_malloc_4k :: "MEMMAN \<Rightarrow> MEMMAN \<times> u32" where
  "do_malloc_4k man = memman_alloc_4k man"

definition do_kmalloc_4k :: "MEMMAN \<Rightarrow> MEMMAN \<times> u32" where
  "do_kmalloc_4k man = memman_kalloc_4k man"

definition do_free :: "MEMMAN \<Rightarrow> u32 \<Rightarrow> u32 \<Rightarrow> MEMMAN \<times> u32" where
  "do_free man a sz = memman_free man a sz"

definition do_free_4k :: "MEMMAN \<Rightarrow> u32 \<Rightarrow> MEMMAN \<times> u32" where
  "do_free_4k man a = memman_free_4k man a"

subsection \<open>Setting the table up at boot\<close>

text \<open>
  \<open>MemInfo\<close> is the kilobyte the loader left at \<^verbatim>\<open>FMIBuff\<close>: the number of entries, then the end of
  each usable region. More than 255 entries would be read outside the array.
\<close>

fun init_regions :: "u32 block \<Rightarrow> MEMMAN \<Rightarrow> u32 \<Rightarrow> nat \<Rightarrow> nat \<Rightarrow> MEMMAN" where
  "init_regions MemInfo man memstart i 0 = man"
| "init_regions MemInfo man memstart i (Suc n) =
     (if MemInfo i < memstart then init_regions MemInfo man memstart (i + 1) n
      else init_regions MemInfo (fst (memman_free man memstart (MemInfo i - memstart)))
             (MemInfo i + 0x1000) (i + 1) n)"

fun split_loop :: "u32 \<Rightarrow> MEMMAN \<Rightarrow> nat \<Rightarrow> nat \<Rightarrow> MEMMAN" where
  "split_loop wall man i 0 = man"
| "split_loop wall man i (Suc n) =
     (if fi_addr (free man i) \<le> wall \<and> fi_addr (free man i) + fi_size (free man i) > wall then
        if fi_addr (free man i) = wall then man
        else
          let f = open_gap (free man) (frees man) (frees man - (i + 1)); fr = frees man + 1;
              f = f(i + 1 := \<lparr>fi_addr = wall, fi_size = fi_addr (f i) + fi_size (f i) - wall\<rparr>);
              f = f(i := (f i)\<lparr>fi_size := wall - 0x1000 - fi_addr (f i)\<rparr>)
          in man\<lparr>frees := fr, maxfrees := max (maxfrees man) fr, free := f\<rparr>
      else split_loop wall man (i + 1) n)"

definition init :: "MEMMAN \<Rightarrow> u32 block \<Rightarrow> MEMMAN option" where
  "init man MemInfo =
     (if unat (MemInfo 0) > 255 then None else
      let man = memman_init man;
          man = init_regions MemInfo man MEMSTART 1 (unat (MemInfo 0));
          man = split_loop KWALL man 0 (frees man);
          man = split_loop WALL man 0 (frees man);
          man = split_loop UWALL man 0 (frees man)
      in Some man)"

subsection \<open>The table as a list\<close>

definition blocks :: "MEMMAN \<Rightarrow> FREEINFO list" where
  "blocks man = map (free man) [0..<frees man]"

fun alloc_blocks :: "u32 \<Rightarrow> u32 \<Rightarrow> u32 \<Rightarrow> FREEINFO list \<Rightarrow> FREEINFO list \<times> u32" where
  "alloc_blocks lo hi sz [] = ([], - 1)"
| "alloc_blocks lo hi sz (b # bs) =
     (if lo \<le> fi_addr b \<and> fi_addr b + sz < hi \<and> sz \<le> fi_size b then
        (if fi_size b = sz then bs
         else \<lparr>fi_addr = fi_addr b + sz, fi_size = fi_size b - sz\<rparr> # bs, fi_addr b)
      else let (bs', a) = alloc_blocks lo hi sz bs in (b # bs', a))"

definition joins_left :: "u32 \<Rightarrow> FREEINFO list \<Rightarrow> bool" where
  "joins_left a us \<longleftrightarrow> us \<noteq> [] \<and> fi_addr (last us) + fi_size (last us) = a"

definition joins_right :: "u32 \<Rightarrow> FREEINFO list \<Rightarrow> bool" where
  "joins_right e vs \<longleftrightarrow> vs \<noteq> [] \<and> e = fi_addr (hd vs)"

text \<open>\<open>us\<close> are the blocks at or below the freed address, \<open>vs\<close> the ones above it.\<close>

definition free_blocks :: "u32 \<Rightarrow> u32 \<Rightarrow> FREEINFO list \<Rightarrow> FREEINFO list \<Rightarrow> FREEINFO list" where
  "free_blocks a sz us vs =
     (if joins_left a us then
        (let p = last us in
         if joins_right (a + sz) vs
         then butlast us @ p\<lparr>fi_size := fi_size p + sz + fi_size (hd vs)\<rparr> # tl vs
         else butlast us @ p\<lparr>fi_size := fi_size p + sz\<rparr> # vs)
      else if joins_right (a + sz) vs
        then us @ \<lparr>fi_addr = a, fi_size = fi_size (hd vs) + sz\<rparr> # tl vs
        else us @ \<lparr>fi_addr = a, fi_size = sz\<rparr> # vs)"

lemma length_blocks [simp]: "length (blocks man) = frees man"
  by (simp add: blocks_def)

lemma nth_blocks [simp]: "i < frees man \<Longrightarrow> blocks man ! i = free man i"
  by (simp add: blocks_def)

lemma FREEINFO_updates [simp]:
  "(b :: FREEINFO)\<lparr>fi_addr := a, fi_size := s\<rparr> = \<lparr>fi_addr = a, fi_size = s\<rparr>"
  by simp

lemma close_gap_eq:
  "close_gap f i n k = (if i \<le> k \<and> k < i + n then f (k + 1) else f k)"
  by (induction n arbitrary: f i) auto

lemma open_gap_eq:
  "n \<le> j \<Longrightarrow> open_gap f j n k = (if j - n < k \<and> k \<le> j then f (k - 1) else f k)"
  by (induction n arbitrary: f j) auto

lemma map_upd_upt: "i < n \<Longrightarrow> map (f(i := e)) [0..<n] = (map f [0..<n])[i := e]"
  by (rule nth_equalityI) (auto simp: nth_list_update)

lemma map_close_gap:
  "i < n \<Longrightarrow> map (close_gap f i (n - 1 - i)) [0..<n - 1] = take i (map f [0..<n]) @ drop (i + 1) (map f [0..<n])"
  by (rule nth_equalityI) (auto simp: close_gap_eq nth_append)

lemma map_open_gap:
  "i \<le> n \<Longrightarrow> map ((open_gap f n (n - i))(i := e)) [0..<n + 1] =
     take i (map f [0..<n]) @ e # drop i (map f [0..<n])"
proof (rule nth_equalityI)
  fix k
  assume i: "i \<le> n" and "k < length (map ((open_gap f n (n - i))(i := e)) [0..<n + 1])"
  then have "k \<le> n" by simp
  then have "map ((open_gap f n (n - i))(i := e)) [0..<n + 1] ! k = ((open_gap f n (n - i))(i := e)) k"
    by (metis add.left_neutral diff_zero le_imp_less_Suc nth_map_upt Suc_eq_plus1)
  with i \<open>k \<le> n\<close> show "map ((open_gap f n (n - i))(i := e)) [0..<n + 1] ! k =
      (take i (map f [0..<n]) @ e # drop i (map f [0..<n])) ! k"
    by (auto simp: open_gap_eq nth_append nth_Cons')
qed simp

text \<open>The allocation loop works on the list.\<close>

lemma blocks_alloc_hit:
  assumes "i < frees man" and e: "e = \<lparr>fi_addr = a, fi_size = s\<rparr>"
  shows "blocks (man\<lparr>free := (free man)(i := e)\<rparr>) = take i (blocks man) @ e # drop (i + 1) (blocks man)"
    and "blocks (man\<lparr>frees := frees man - 1,
        free := close_gap ((free man)(i := e)) i (frees man - 1 - i)\<rparr>) =
      take i (blocks man) @ drop (i + 1) (blocks man)"
  using assms map_close_gap[of i "frees man" "(free man)(i := e)"]
  by (simp_all add: blocks_def map_upd_upt upd_conv_take_nth_drop del: fun_upd_apply)

lemma alloc_loop_blocks:
  assumes "i + n = frees man"
  shows "blocks (fst (alloc_loop lo hi man sz i n)) =
           take i (blocks man) @ fst (alloc_blocks lo hi sz (drop i (blocks man)))
       \<and> snd (alloc_loop lo hi man sz i n) = snd (alloc_blocks lo hi sz (drop i (blocks man)))"
  using assms
proof (induction n arbitrary: i)
  case 0
  then show ?case by simp
next
  case (Suc n)
  then have i: "i < frees man" by simp
  then have d: "drop i (blocks man) = free man i # drop (i + 1) (blocks man)"
    by (metis Cons_nth_drop_Suc Suc_eq_plus1 length_blocks nth_blocks)
  have t: "take (i + 1) (blocks man) = take i (blocks man) @ [free man i]"
    using i by (simp add: take_Suc_conv_app_nth)
  note IH = Suc.IH[of "i + 1"]
  show ?case
  proof (cases "lo \<le> fi_addr (free man i) \<and> fi_addr (free man i) + sz < hi \<and> sz \<le> fi_size (free man i)")
    case True
    then show ?thesis
      unfolding d using blocks_alloc_hit[OF i refl, of "fi_addr (free man i) + sz" "fi_size (free man i) - sz"]
      by (auto simp: Let_def)
  next
    case False
    then show ?thesis
      unfolding d using IH Suc.prems t by (auto simp: split_beta)
  qed
qed

lemma alloc_loop_all:
  "blocks (fst (alloc_loop lo hi man sz 0 (frees man))) = fst (alloc_blocks lo hi sz (blocks man))"
  "snd (alloc_loop lo hi man sz 0 (frees man)) = snd (alloc_blocks lo hi sz (blocks man))"
  using alloc_loop_blocks[of 0 "frees man" man lo hi sz] by simp_all

text \<open>The search for the place of a freed block.\<close>

definition below :: "u32 \<Rightarrow> FREEINFO list \<Rightarrow> FREEINFO list" where
  "below a bs = takeWhile (\<lambda>b. fi_addr b \<le> a) bs"

definition above :: "u32 \<Rightarrow> FREEINFO list \<Rightarrow> FREEINFO list" where
  "above a bs = dropWhile (\<lambda>b. fi_addr b \<le> a) bs"

lemma below_above [simp]: "below a bs @ above a bs = bs"
  by (simp add: below_def above_def)

lemma free_index_below:
  assumes "i + n = frees man"
  shows "free_index man a i n = i + length (below a (drop i (blocks man)))"
  using assms
proof (induction n arbitrary: i)
  case 0
  then show ?case by (simp add: below_def)
next
  case (Suc n)
  then have "drop i (blocks man) = free man i # drop (i + 1) (blocks man)"
    by (metis Cons_nth_drop_Suc Suc_eq_plus1 length_blocks nth_blocks less_add_Suc1 add_Suc_right)
  with Suc.IH[of "i + 1"] Suc.prems show ?case by (auto simp: below_def not_le)
qed

lemma free_index_all: "free_index man a 0 (frees man) = length (below a (blocks man))"
  using free_index_below[of 0 "frees man" man a] by simp

lemma grow_entry_blocks:
  "i < n \<Longrightarrow> map (grow_entry f i sz) [0..<n] =
     (map f [0..<n])[i := (f i)\<lparr>fi_size := fi_size (f i) + sz\<rparr>]"
  unfolding grow_entry_def by (rule map_upd_upt)

lemma map_split:
  assumes "map f [0..<n] = us @ vs" and "length us = i"
  shows "us \<noteq> [] \<Longrightarrow> f (i - 1) = last us" and "i < n \<longleftrightarrow> vs \<noteq> []" and "vs \<noteq> [] \<Longrightarrow> f i = hd vs"
    and "n = i + length vs"
proof -
  have n: "n = i + length vs" using arg_cong[OF assms(1), of length] assms(2) by simp
  have nth: "f k = (us @ vs) ! k" if "k < n" for k
    using that assms(1) by (metis nth_map_upt add.left_neutral diff_zero)
  show "n = i + length vs" by (rule n)
  show "i < n \<longleftrightarrow> vs \<noteq> []" using n by auto
  show "f (i - 1) = last us" if "us \<noteq> []"
    using that nth[of "i - 1"] n assms(2) by (cases us) (auto simp: last_conv_nth nth_append)
  show "f i = hd vs" if "vs \<noteq> []"
    using that nth[of i] n assms(2) by (simp add: hd_conv_nth nth_append)
qed

text \<open>The cases of \<^verbatim>\<open>memman_free\<close> in terms of the neighbours of the freed block.\<close>

lemma memman_free_unfold:
  fixes man :: MEMMAN and a sz :: u32
  assumes "sz \<noteq> 0"
  defines "us \<equiv> below a (blocks man)" and "vs \<equiv> above a (blocks man)"
  defines "i \<equiv> length us"
  shows "memman_free man a sz =
     (if joins_left a us then
        (if joins_right (a + sz) vs then
           (man\<lparr>frees := frees man - 1, free := close_gap (grow_entry (grow_entry (free man) (i - 1) sz)
                (i - 1) (fi_size (hd vs))) i (frees man - 1 - i)\<rparr>, 0)
         else (man\<lparr>free := grow_entry (free man) (i - 1) sz\<rparr>, 0))
      else if joins_right (a + sz) vs then
        (man\<lparr>free := (free man)(i := \<lparr>fi_addr = a, fi_size = fi_size (hd vs) + sz\<rparr>)\<rparr>, 0)
      else if frees man < MEMMAN_FREES then
        (man\<lparr>frees := frees man + 1, maxfrees := max (maxfrees man) (frees man + 1),
             free := (open_gap (free man) (frees man) (frees man - i))(i := \<lparr>fi_addr = a, fi_size = sz\<rparr>)\<rparr>, 0)
      else (man\<lparr>losts := losts man + 1, lostsize := lostsize man + sz\<rparr>, - 1))"
proof -
  have fi: "free_index man a 0 (frees man) = i" by (simp add: free_index_all i_def us_def)
  have split: "map (free man) [0..<frees man] = us @ vs"
    by (simp add: us_def vs_def flip: blocks_def)
  have il: "length us = i" by (simp add: i_def)
  note sp = map_split[OF split il]
  have l: "i > 0 \<and> fi_addr (free man (i - 1)) + fi_size (free man (i - 1)) = a \<longleftrightarrow> joins_left a us"
    using sp(1) by (auto simp: joins_left_def i_def)
  have r: "i < frees man \<and> a + sz = fi_addr (free man i) \<longleftrightarrow> joins_right (a + sz) vs"
    using sp(2,3) by (auto simp: joins_right_def)
  have hd: "joins_right (a + sz) vs \<Longrightarrow> free man i = hd vs" using sp(3) by (simp add: joins_right_def)
  have g: "i > 0 \<Longrightarrow> grow_entry (free man) (i - 1) sz i = free man i" by (simp add: grow_entry_def)
  show ?thesis
  proof (cases "joins_left a us")
    case True
    then have "i > 0" by (simp add: joins_left_def i_def)
    with True assms(1) show ?thesis
      unfolding memman_free_def fi Let_def l g[OF \<open>i > 0\<close>] r by (auto simp: hd)
  next
    case False
    with assms(1) show ?thesis
      unfolding memman_free_def fi Let_def l r by (auto simp: hd)
  qed
qed

lemma memman_free_full:
  assumes "sz \<noteq> 0" "\<not> joins_left a (below a (blocks man))"
    "\<not> joins_right (a + sz) (above a (blocks man))" "\<not> frees man < MEMMAN_FREES"
  shows "memman_free man a sz = (man\<lparr>losts := losts man + 1, lostsize := lostsize man + sz\<rparr>, - 1)"
  using assms by (simp add: memman_free_unfold)

lemma memman_free_blocks:
  fixes man :: MEMMAN and a sz :: u32
  assumes "sz \<noteq> 0"
  defines "us \<equiv> below a (blocks man)" and "vs \<equiv> above a (blocks man)"
  assumes ok: "joins_left a us \<or> joins_right (a + sz) vs \<or> frees man < MEMMAN_FREES"
  shows "snd (memman_free man a sz) = 0"
    and "blocks (fst (memman_free man a sz)) = free_blocks a sz us vs"
proof -
  define i where "i = length us"
  have split: "map (free man) [0..<frees man] = us @ vs"
    by (simp add: us_def vs_def flip: blocks_def)
  note sp = map_split[OF split i_def[symmetric]]
  note unf = memman_free_unfold[OF assms(1), of man a, folded us_def vs_def, folded i_def]
  show "snd (memman_free man a sz) = 0" using ok by (auto simp: unf)
  show "blocks (fst (memman_free man a sz)) = free_blocks a sz us vs"
  proof (cases "joins_left a us")
    case left: True
    then have us: "us \<noteq> []" "free man (i - 1) = last us" using sp(1) by (auto simp: joins_left_def)
    then have i: "0 < i" "i - 1 < frees man" using sp(4) unfolding i_def by (simp, cases us, auto)
    have g: "map (grow_entry f (i - 1) s) [0..<frees man] =
        butlast us @ p\<lparr>fi_size := fi_size p + s\<rparr> # vs"
      if "map f [0..<frees man] = butlast us @ p # vs" "f (i - 1) = p" for f p s
      using that i us by (simp add: grow_entry_blocks list_update_append i_def)
    have 1: "map (grow_entry (free man) (i - 1) sz) [0..<frees man] =
        butlast us @ (last us)\<lparr>fi_size := fi_size (last us) + sz\<rparr> # vs"
      using us split by (intro g) auto
    show ?thesis
    proof (cases "joins_right (a + sz) vs")
      case True
      then have vs: "vs \<noteq> []" "i < frees man" using sp(2) by (auto simp: joins_right_def)
      have 2: "map (grow_entry (grow_entry (free man) (i - 1) sz) (i - 1) (fi_size (hd vs))) [0..<frees man] =
          butlast us @ (last us)\<lparr>fi_size := fi_size (last us) + sz + fi_size (hd vs)\<rparr> # vs"
        using g[OF 1, of "fi_size (hd vs)"] us by (simp add: grow_entry_def)
      have "length (butlast us) = i - 1" by (simp add: i_def)
      with left True vs i map_close_gap[OF vs(2), of "grow_entry (grow_entry (free man) (i - 1) sz) (i - 1) (fi_size (hd vs))", unfolded 2]
      show ?thesis
        by (cases vs; cases i) (auto simp: unf blocks_def free_blocks_def Let_def)
    next
      case False
      with left 1 show ?thesis by (simp add: unf blocks_def free_blocks_def Let_def)
    qed
  next
    case left: False
    show ?thesis
    proof (cases "joins_right (a + sz) vs")
      case True
      then have vs: "vs \<noteq> []" "i < frees man" using sp(2) by (auto simp: joins_right_def)
      with left True show ?thesis
        by (cases vs) (auto simp: unf blocks_def free_blocks_def map_upd_upt split i_def
            list_update_append simp del: fun_upd_apply)
    next
      case False
      with left ok have "frees man < MEMMAN_FREES" by simp
      moreover have "i \<le> frees man" using sp(4) by simp
      from map_open_gap[OF this, of "free man" "\<lparr>fi_addr = a, fi_size = sz\<rparr>", unfolded split]
      have "map ((open_gap (free man) (frees man) (frees man - i))(i := \<lparr>fi_addr = a, fi_size = sz\<rparr>))
          [0..<frees man + 1] = us @ \<lparr>fi_addr = a, fi_size = sz\<rparr> # vs"
        by (simp add: i_def del: upt_Suc)
      ultimately show ?thesis
        using left False by (simp add: unf blocks_def free_blocks_def del: fun_upd_apply upt_Suc)
    qed
  qed
qed

subsection \<open>The free addresses\<close>

definition b_lo :: "FREEINFO \<Rightarrow> nat" where "b_lo b = unat (fi_addr b)"
definition b_hi :: "FREEINFO \<Rightarrow> nat" where "b_hi b = unat (fi_addr b) + unat (fi_size b)"

definition addr_range :: "u32 \<Rightarrow> u32 \<Rightarrow> nat set" where
  "addr_range a sz = {unat a..<unat a + unat sz}"

definition blocks_avail :: "FREEINFO list \<Rightarrow> nat set" where
  "blocks_avail bs = (\<Union>b \<in> set bs. {b_lo b..<b_hi b})"

text \<open>Not empty, within the address space, sorted and not adjacent to each other.\<close>

definition blocks_ok :: "FREEINFO list \<Rightarrow> bool" where
  "blocks_ok bs \<longleftrightarrow> list_all (\<lambda>b. 0 < fi_size b \<and> b_hi b < 2 ^ 32) bs \<and> sorted_wrt (\<lambda>b c. b_hi b < b_lo c) bs"

definition memman_ok :: "MEMMAN \<Rightarrow> bool" where
  "memman_ok man \<longleftrightarrow> blocks_ok (blocks man) \<and> frees man \<le> MEMMAN_FREES"

definition avail :: "MEMMAN \<Rightarrow> nat set" where
  "avail man = blocks_avail (blocks man)"

lemma blocks_ok_Nil [simp]: "blocks_ok []"
  by (simp add: blocks_ok_def)

lemma blocks_ok_Cons [simp]:
  "blocks_ok (b # bs) \<longleftrightarrow>
     0 < fi_size b \<and> b_hi b < 2 ^ 32 \<and> (\<forall>c \<in> set bs. b_hi b < b_lo c) \<and> blocks_ok bs"
  by (auto simp: blocks_ok_def)

lemma blocks_ok_append:
  "blocks_ok (us @ vs) \<longleftrightarrow>
     blocks_ok us \<and> blocks_ok vs \<and> (\<forall>b \<in> set us. \<forall>c \<in> set vs. b_hi b < b_lo c)"
  by (auto simp: blocks_ok_def sorted_wrt_append)

lemma blocks_avail_simps [simp]:
  "blocks_avail [] = {}" "blocks_avail (b # bs) = {b_lo b..<b_hi b} \<union> blocks_avail bs"
  "blocks_avail (us @ vs) = blocks_avail us \<union> blocks_avail vs"
  by (auto simp: blocks_avail_def)

lemma b_lo_less_b_hi: "0 < fi_size b \<Longrightarrow> b_lo b < b_hi b"
  by (simp add: b_lo_def b_hi_def word_less_nat_alt)

lemma blocks_avail_lower: "x \<in> blocks_avail bs \<Longrightarrow> \<exists>b \<in> set bs. b_lo b \<le> x \<and> x < b_hi b"
  by (auto simp: blocks_avail_def)

text \<open>A table that is in order is determined by its set of free addresses.\<close>

lemma blocks_ok_inject:
  "blocks_ok bs \<Longrightarrow> blocks_ok cs \<Longrightarrow> blocks_avail bs = blocks_avail cs \<Longrightarrow> bs = cs"
proof (induction bs arbitrary: cs)
  case Nil
  show ?case
  proof (cases cs)
    case (Cons c cs')
    with Nil b_lo_less_b_hi[of c] show ?thesis by auto
  qed simp
next
  case (Cons b bs)
  show ?case
  proof (cases cs)
    case Nil
    with Cons.prems b_lo_less_b_hi[of b] show ?thesis by auto
  next
    case (Cons c cs')
    note eq = Cons.prems(3)[unfolded Cons]
    have b: "b_lo b < b_hi b" and c: "b_lo c < b_hi c"
      using Cons.prems(1,2) Cons b_lo_less_b_hi by auto
    have B: "b_hi b < x" if "x \<in> blocks_avail bs" for x
      using blocks_avail_lower[OF that] Cons.prems(1) by fastforce
    have C: "b_hi c < x" if "x \<in> blocks_avail cs'" for x
      using blocks_avail_lower[OF that] Cons.prems(2) Cons by fastforce
    have mem: "x \<in> {b_lo b..<b_hi b} \<union> blocks_avail bs \<longleftrightarrow> x \<in> {b_lo c..<b_hi c} \<union> blocks_avail cs'" for x
      using eq by auto
    have lo: "b_lo b = b_lo c"
      using mem[of "b_lo b"] mem[of "b_lo c"] b c B C by (fastforce dest: B C)
    have hi: "b_hi b = b_hi c"
      using mem[of "b_hi b"] mem[of "b_hi c"] b c lo
      by (metis B C UnE UnI1 atLeastLessThan_iff less_irrefl_nat less_le_not_le nat_le_linear order_le_less)
    have "blocks_avail bs = blocks_avail cs'"
      using mem lo hi B C by (metis (no_types, lifting) UnE UnI2 atLeastLessThan_iff not_less_iff_gr_or_eq subsetI subset_antisym)
    moreover have "b = c"
      using lo hi by (cases b; cases c) (simp add: b_lo_def b_hi_def word_unat_eq_iff)
    ultimately show ?thesis using Cons.IH[of cs'] Cons.prems Cons by simp
  qed
qed

subsection \<open>What allocating does to the free addresses\<close>

definition fits :: "u32 \<Rightarrow> u32 \<Rightarrow> u32 \<Rightarrow> FREEINFO \<Rightarrow> bool" where
  "fits lo hi sz b \<longleftrightarrow> lo \<le> fi_addr b \<and> fi_addr b + sz < hi \<and> sz \<le> fi_size b"

definition rest :: "u32 \<Rightarrow> FREEINFO \<Rightarrow> FREEINFO list" where
  "rest sz b = (if fi_size b = sz then [] else [\<lparr>fi_addr = fi_addr b + sz, fi_size = fi_size b - sz\<rparr>])"

lemma alloc_blocks_none:
  "\<not> (\<exists>b \<in> set bs. fits lo hi sz b) \<Longrightarrow> alloc_blocks lo hi sz bs = (bs, - 1)"
  by (induction bs) (auto simp: fits_def)

lemma alloc_blocks_hit:
  "\<not> (\<exists>u \<in> set us. fits lo hi sz u) \<Longrightarrow> fits lo hi sz b \<Longrightarrow>
    alloc_blocks lo hi sz (us @ b # vs) = (us @ rest sz b @ vs, fi_addr b)"
  by (induction us) (auto simp: fits_def rest_def)

lemma alloc_blocks_cases:
  obtains (none) "\<not> (\<exists>b \<in> set bs. fits lo hi sz b)" "alloc_blocks lo hi sz bs = (bs, - 1)"
  | (hit) us b vs where "bs = us @ b # vs" "fits lo hi sz b"
      "alloc_blocks lo hi sz bs = (us @ rest sz b @ vs, fi_addr b)"
proof (cases "\<exists>b \<in> set bs. fits lo hi sz b")
  case True
  then obtain us b vs where "bs = us @ b # vs" "fits lo hi sz b" "\<not> (\<exists>u \<in> set us. fits lo hi sz u)"
    by (metis split_list_first_prop)
  then show ?thesis using hit alloc_blocks_hit by metis
next
  case False
  then show ?thesis using none alloc_blocks_none by metis
qed

lemma rest_bounds:
  assumes "0 < fi_size b" "b_hi b < 2 ^ 32" "sz \<le> fi_size b"
  shows "list_all (\<lambda>c. 0 < fi_size c \<and> b_lo c = b_lo b + unat sz \<and> b_hi c = b_hi b) (rest sz b)"
    and "blocks_avail (rest sz b) = {b_lo b + unat sz..<b_hi b}"
proof -
  have "unat (fi_addr b) + unat sz < 2 ^ 32"
    using assms by (simp add: b_hi_def word_le_nat_alt)
  then have a: "unat (fi_addr b + sz) = unat (fi_addr b) + unat sz" by (rule unat_plus_no_wrap)
  have s: "unat (fi_size b - sz) = unat (fi_size b) - unat sz"
    using assms(3) by (simp add: unat_minus_no_wrap word_le_nat_alt)
  have "unat sz \<le> unat (fi_size b)" using assms(3) by (simp add: word_le_nat_alt)
  moreover have "unat sz < unat (fi_size b)" if "fi_size b \<noteq> sz"
    using that assms(3) by (metis word_le_nat_alt order_le_less word_unat_eq_iff)
  ultimately show "list_all (\<lambda>c. 0 < fi_size c \<and> b_lo c = b_lo b + unat sz \<and> b_hi c = b_hi b) (rest sz b)"
    and "blocks_avail (rest sz b) = {b_lo b + unat sz..<b_hi b}"
    using a s by (auto simp: rest_def b_lo_def b_hi_def word_less_nat_alt)
qed

lemma alloc_blocks_spec:
  assumes ok: "blocks_ok bs" and r: "alloc_blocks lo hi sz bs = (bs', a)" "a \<noteq> - 1"
  shows "blocks_ok bs'" "length bs' \<le> length bs" "addr_range a sz \<subseteq> blocks_avail bs"
    "blocks_avail bs' = blocks_avail bs - addr_range a sz"
    "lo \<le> a" "unat a + unat sz < unat hi" "\<exists>b \<in> set bs. fits lo hi sz b \<and> a = fi_addr b"
proof -
  obtain us b vs where bs: "bs = us @ b # vs" and f: "fits lo hi sz b"
    and bs': "bs' = us @ rest sz b @ vs" and a: "a = fi_addr b"
    using r by (cases rule: alloc_blocks_cases[where bs = bs and lo = lo and hi = hi and sz = sz]) auto
  have b: "0 < fi_size b" "b_hi b < 2 ^ 32" "sz \<le> fi_size b"
    using ok bs f by (auto simp: blocks_ok_append fits_def)
  note rb = rest_bounds[OF b]
  have all: "0 < fi_size c" "b_lo c = b_lo b + unat sz" "b_hi c = b_hi b" if "c \<in> set (rest sz b)" for c
    using rb(1) that by (auto simp: list_all_iff)
  have "blocks_ok (rest sz b)" using all b(2) by (cases "fi_size b = sz") (auto simp: rest_def)
  then show "blocks_ok bs'"
    using ok unfolding bs bs' by (fastforce simp: blocks_ok_append all)
  show "length bs' \<le> length bs" unfolding bs bs' by (simp add: rest_def)
  have sz: "b_lo b + unat sz \<le> b_hi b" using b(3) by (simp add: b_lo_def b_hi_def word_le_nat_alt)
  have ar: "addr_range a sz = {b_lo b..<b_lo b + unat sz}" by (simp add: addr_range_def a b_lo_def)
  then show "addr_range a sz \<subseteq> blocks_avail bs" using sz unfolding bs by auto
  have "x < b_lo b" if "x \<in> blocks_avail us" for x
    using blocks_avail_lower[OF that] ok bs by (fastforce simp: blocks_ok_append)
  moreover have "b_hi b < x" if "x \<in> blocks_avail vs" for x
    using blocks_avail_lower[OF that] ok bs by (fastforce simp: blocks_ok_append)
  ultimately show "blocks_avail bs' = blocks_avail bs - addr_range a sz"
    using sz unfolding bs bs' ar by (fastforce simp: rb(2))
  show "lo \<le> a" "\<exists>b \<in> set bs. fits lo hi sz b \<and> a = fi_addr b" using f a bs by (auto simp: fits_def)
  have "unat (fi_addr b + sz) = unat (fi_addr b) + unat sz"
    by (rule unat_plus_no_wrap) (use b sz in \<open>simp add: b_lo_def b_hi_def\<close>)
  then show "unat a + unat sz < unat hi" using f a by (simp add: fits_def word_less_nat_alt)
qed

lemma alloc_blocks_fails_iff:
  assumes "blocks_ok bs" "hi \<le> 0x80000000"
  shows "snd (alloc_blocks lo hi sz bs) = - 1 \<longleftrightarrow> \<not> (\<exists>b \<in> set bs. fits lo hi sz b)"
proof (cases rule: alloc_blocks_cases[where bs = bs and lo = lo and hi = hi and sz = sz])
  case (hit us b vs)
  have b: "b_hi b < 2 ^ 32" "sz \<le> fi_size b"
    using assms(1) hit(1,2) by (auto simp: blocks_ok_append fits_def)
  then have "unat (fi_addr b + sz) = unat (fi_addr b) + unat sz"
    by (intro unat_plus_no_wrap) (simp add: b_hi_def word_le_nat_alt)
  then have "unat (fi_addr b) < 2 ^ 31"
    using hit(2) assms(2) by (simp add: fits_def word_less_nat_alt word_le_nat_alt)
  then have "fi_addr b \<noteq> - 1" by (auto simp: minus_one_u32)
  with hit show ?thesis by auto
qed simp

subsection \<open>What freeing does to the free addresses\<close>

lemma below_above_sides:
  assumes ok: "blocks_ok bs" and apart: "addr_range a sz \<inter> blocks_avail bs = {}" and sz: "0 < sz"
  shows "b \<in> set (below a bs) \<Longrightarrow> b_hi b \<le> unat a"
    and "c \<in> set (above a bs) \<Longrightarrow> unat a + unat sz \<le> b_lo c"
proof -
  have ok2: "blocks_ok (below a bs @ above a bs)" using ok by simp
  have ne: "b_lo b < b_hi b" if "b \<in> set bs" for b
    using ok that by (auto simp: blocks_ok_def list_all_iff intro: b_lo_less_b_hi)
  have sub: "{b_lo b..<b_hi b} \<subseteq> blocks_avail bs" if "b \<in> set bs" for b
    using that by (auto simp: blocks_avail_def)
  have u: "unat sz > 0" using sz by (simp add: word_less_nat_alt)
  show "b_hi b \<le> unat a" if "b \<in> set (below a bs)"
  proof (rule ccontr)
    assume n: "\<not> b_hi b \<le> unat a"
    have "b \<in> set bs" "fi_addr b \<le> a" using that by (auto simp: below_def dest: set_takeWhileD)
    then have "unat a \<in> blocks_avail bs" using sub[of b] n by (auto simp: b_lo_def word_le_nat_alt)
    moreover have "unat a \<in> addr_range a sz" using u by (simp add: addr_range_def)
    ultimately show False using apart by blast
  qed
  show "unat a + unat sz \<le> b_lo c" if c: "c \<in> set (above a bs)"
  proof -
    obtain v vs where v: "above a bs = v # vs" using c by (cases "above a bs") auto
    have "\<not> fi_addr v \<le> a" using v unfolding above_def dropWhile_eq_Cons_conv by blast
    then have lv: "unat a < b_lo v" by (simp add: b_lo_def word_le_nat_alt)
    have "blocks_ok (v # vs)" using ok2 v by (simp add: blocks_ok_append)
    then have "b_lo v \<le> b_lo c" using c v b_lo_less_b_hi[of v] by fastforce
    with lv have ac: "unat a < b_lo c" by simp
    show ?thesis
    proof (rule ccontr)
      assume "\<not> unat a + unat sz \<le> b_lo c"
      with ac have "b_lo c \<in> addr_range a sz" by (simp add: addr_range_def)
      moreover have "c \<in> set bs" using c by (auto simp: above_def dest: set_dropWhileD)
      then have "b_lo c \<in> blocks_avail bs" using ne[of c] sub[of c] by auto
      ultimately show False using apart by blast
    qed
  qed
qed

lemma joins_left_iff:
  assumes "blocks_ok us" shows "joins_left a us \<longleftrightarrow> us \<noteq> [] \<and> b_hi (last us) = unat a"
proof (cases "us = []")
  case False
  then have "b_hi (last us) < 2 ^ 32" using assms by (auto simp: blocks_ok_def list_all_iff)
  then have "unat (fi_addr (last us) + fi_size (last us)) = b_hi (last us)"
    unfolding b_hi_def by (intro unat_plus_no_wrap)
  then show ?thesis using False by (auto simp: joins_left_def word_unat_eq_iff)
qed (simp add: joins_left_def)

lemma joins_right_iff:
  "unat a + unat sz < 2 ^ 32 \<Longrightarrow> joins_right (a + sz) vs \<longleftrightarrow> vs \<noteq> [] \<and> b_lo (hd vs) = unat a + unat sz"
  by (auto simp: joins_right_def word_unat_eq_iff unat_plus_no_wrap b_lo_def)

lemma free_blocks_spec:
  assumes ok: "blocks_ok bs" and sz: "0 < sz" and fits: "unat a + unat sz < 2 ^ 32"
    and apart: "addr_range a sz \<inter> blocks_avail bs = {}"
  defines "us \<equiv> below a bs" and "vs \<equiv> above a bs"
  shows "blocks_ok (free_blocks a sz us vs)"
    and "blocks_avail (free_blocks a sz us vs) = blocks_avail bs \<union> addr_range a sz"
proof -
  have bs: "bs = us @ vs" by (simp add: us_def vs_def)
  have ok2: "blocks_ok us" "blocks_ok vs" "\<And>b c. b \<in> set us \<Longrightarrow> c \<in> set vs \<Longrightarrow> b_hi b < b_lo c"
    using ok unfolding bs by (auto simp: blocks_ok_append)
  note sides = below_above_sides[OF ok apart sz, folded us_def vs_def]
  have usz: "0 < unat sz" using sz by (simp add: word_less_nat_alt)
  define n where "n = \<lparr>fi_addr = a, fi_size = sz\<rparr>"
  have n: "b_lo n = unat a" "b_hi n = unat a + unat sz" "0 < fi_size n"
    using sz by (simp_all add: n_def b_lo_def b_hi_def)
  have L: "us = butlast us @ [last us]" "blocks_ok (butlast us)" "0 < fi_size (last us)"
      "\<And>b. b \<in> set (butlast us) \<Longrightarrow> b_hi b < b_lo (last us)"
    if "us \<noteq> []"
    using that ok2(1) append_butlast_last_id[OF that]
    by (metis blocks_ok_append blocks_ok_Cons list.set_intros(1))+
  have left: "b_hi b < unat a" if "\<not> joins_left a us" "b \<in> set us" for b
  proof -
    have ne: "us \<noteq> []" using that(2) by auto
    then have l: "b_hi (last us) < unat a"
      using that(1) joins_left_iff[OF ok2(1), of a] sides(1)[of "last us"] by fastforce
    show ?thesis
    proof (cases "b \<in> set (butlast us)")
      case True
      with L(4)[OF ne] l L(3)[OF ne] b_lo_less_b_hi show ?thesis by fastforce
    next
      case False
      then have "b = last us" using that(2) L(1)[OF ne] by (metis UnE set_append set_ConsD empty_iff list.set(1))
      with l show ?thesis by simp
    qed
  qed
  have R: "blocks_ok (tl vs)" "0 < fi_size (hd vs)" "b_hi (hd vs) < 2 ^ 32"
      "\<And>c. c \<in> set (tl vs) \<Longrightarrow> b_hi (hd vs) < b_lo c" "vs = hd vs # tl vs"
    if "vs \<noteq> []"
    using that ok2(2) by (cases vs; simp)+
  have right: "unat a + unat sz < b_lo c" if "\<not> joins_right (a + sz) vs" "c \<in> set vs" for c
  proof -
    have ne: "vs \<noteq> []" using that(2) by auto
    then have h: "unat a + unat sz < b_lo (hd vs)"
      using that(1) joins_right_iff[OF fits, of vs] sides(2)[of "hd vs"] by fastforce
    show ?thesis
      using that(2) R(4)[OF ne] R(5)[OF ne] h R(2)[OF ne] b_lo_less_b_hi[of "hd vs"]
      by (metis less_trans set_ConsD)
  qed
  have ar: "addr_range a sz = {unat a..<unat a + unat sz}" by (simp add: addr_range_def)
  define ls where "ls = (if joins_left a us then butlast us else us)"
  define rs where "rs = (if joins_right (a + sz) vs then tl vs else vs)"
  define lo where "lo = (if joins_left a us then b_lo (last us) else unat a)"
  define hi where "hi = (if joins_right (a + sz) vs then b_hi (hd vs) else unat a + unat sz)"
  have lo: "blocks_ok ls" "\<And>b. b \<in> set ls \<Longrightarrow> b_hi b < lo" "lo \<le> unat a"
      "blocks_avail us = blocks_avail ls \<union> {lo..<unat a}"
  proof -
    consider (no) "\<not> joins_left a us" | (yes) p where "us = butlast us @ [p]" "last us = p" "b_hi p = unat a"
      "b_lo p < b_hi p" "joins_left a us"
      using L(1,3) joins_left_iff[OF ok2(1)] b_lo_less_b_hi by metis
    then have "blocks_ok ls \<and> (\<forall>b \<in> set ls. b_hi b < lo) \<and> lo \<le> unat a \<and>
        blocks_avail us = blocks_avail ls \<union> {lo..<unat a}"
    proof cases
      case no
      then show ?thesis using left ok2(1) by (simp add: ls_def lo_def)
    next
      case yes
      then have "us \<noteq> []" by auto
      moreover have "blocks_avail us = blocks_avail (butlast us) \<union> {b_lo p..<b_hi p}"
        using arg_cong[OF yes(1), of blocks_avail] by simp
      ultimately show ?thesis using L(2,4) yes by (simp add: ls_def lo_def)
    qed
    then show "blocks_ok ls" "\<And>b. b \<in> set ls \<Longrightarrow> b_hi b < lo" "lo \<le> unat a"
      "blocks_avail us = blocks_avail ls \<union> {lo..<unat a}" by blast+
  qed
  have hi: "blocks_ok rs" "\<And>c. c \<in> set rs \<Longrightarrow> hi < b_lo c" "unat a + unat sz \<le> hi" "hi < 2 ^ 32"
      "blocks_avail vs = {unat a + unat sz..<hi} \<union> blocks_avail rs"
  proof -
    consider (no) "\<not> joins_right (a + sz) vs" | (yes) h ts where "vs = h # ts" "b_lo h = unat a + unat sz"
      "b_lo h < b_hi h" "joins_right (a + sz) vs"
      using R(2,5) joins_right_iff[OF fits] b_lo_less_b_hi by metis
    then have "blocks_ok rs \<and> (\<forall>c \<in> set rs. hi < b_lo c) \<and> unat a + unat sz \<le> hi \<and> hi < 2 ^ 32 \<and>
        blocks_avail vs = {unat a + unat sz..<hi} \<union> blocks_avail rs"
    proof cases
      case no
      then show ?thesis using right ok2(2) fits by (simp add: rs_def hi_def)
    next
      case yes
      then show ?thesis using ok2(2) by (simp add: rs_def hi_def)
    qed
    then show "blocks_ok rs" "\<And>c. c \<in> set rs \<Longrightarrow> hi < b_lo c" "unat a + unat sz \<le> hi" "hi < 2 ^ 32"
      "blocks_avail vs = {unat a + unat sz..<hi} \<union> blocks_avail rs" by blast+
  qed
  have m: "\<exists>m. free_blocks a sz us vs = ls @ m # rs \<and> b_lo m = lo \<and> b_hi m = hi"
  proof -
    note jl = joins_left_iff[OF ok2(1), of a] and jr = joins_right_iff[OF fits, of vs]
    note plus = unat_plus_no_wrap
    show ?thesis
    proof (cases "joins_left a us"; cases "joins_right (a + sz) vs")
      assume l: "joins_left a us" and r: "joins_right (a + sz) vs"
      have "unat (fi_size (last us) + sz) = unat (fi_size (last us)) + unat sz"
        by (rule plus) (use l r jl jr fits in \<open>auto simp: b_lo_def b_hi_def\<close>)
      moreover from this have "unat (fi_size (last us) + sz + fi_size (hd vs)) =
          unat (fi_size (last us)) + unat sz + unat (fi_size (hd vs))"
        using hi(4) l r jl jr by (subst plus) (auto simp: hi_def b_lo_def b_hi_def)
      ultimately show ?thesis
        using l r jl jr by (auto simp: free_blocks_def ls_def rs_def lo_def hi_def b_lo_def b_hi_def Let_def)
    next
      assume l: "joins_left a us" and r: "\<not> joins_right (a + sz) vs"
      have "unat (fi_size (last us) + sz) = unat (fi_size (last us)) + unat sz"
        by (rule plus) (use l jl fits in \<open>auto simp: b_lo_def b_hi_def\<close>)
      then show ?thesis
        using l r jl by (auto simp: free_blocks_def ls_def rs_def lo_def hi_def b_lo_def b_hi_def Let_def)
    next
      assume l: "\<not> joins_left a us" and r: "joins_right (a + sz) vs"
      have "unat (fi_size (hd vs) + sz) = unat (fi_size (hd vs)) + unat sz"
        by (rule plus) (use r jr hi(4) in \<open>auto simp: hi_def b_lo_def b_hi_def\<close>)
      then show ?thesis
        using l r jr by (auto simp: free_blocks_def ls_def rs_def lo_def hi_def b_lo_def b_hi_def)
    qed (simp add: free_blocks_def ls_def rs_def lo_def hi_def b_lo_def b_hi_def)
  qed
  then obtain m where m: "free_blocks a sz us vs = ls @ m # rs" "b_lo m = lo" "b_hi m = hi" by blast
  have m0: "0 < fi_size m"
    using m(2,3) lo(3) hi(3) usz by (auto simp: b_lo_def b_hi_def word_less_nat_alt)
  show "blocks_ok (free_blocks a sz us vs)"
    using lo hi m m0 by (fastforce simp: blocks_ok_append)
  show "blocks_avail (free_blocks a sz us vs) = blocks_avail bs \<union> addr_range a sz"
    unfolding m(1) bs ar blocks_avail_simps lo(4) hi(5) m(2,3) using lo(3) hi(3) by auto
qed

subsection \<open>The operations on the table\<close>

lemma alloc_loop_spec:
  assumes ok: "memman_ok man" and r: "alloc_loop lo hi man sz 0 (frees man) = (man', a)" and a: "a \<noteq> - 1"
  shows "memman_ok man'" "addr_range a sz \<subseteq> avail man" "avail man' = avail man - addr_range a sz"
    "lo \<le> a" "unat a + unat sz < unat hi"
proof -
  have "alloc_blocks lo hi sz (blocks man) = (blocks man', a)"
    using alloc_loop_all[of lo hi man sz] r by (simp add: prod_eq_iff)
  note sp = alloc_blocks_spec[OF ok[unfolded memman_ok_def, THEN conjunct1] this a]
  show "memman_ok man'" using sp(1,2) ok by (simp add: memman_ok_def)
  show "addr_range a sz \<subseteq> avail man" "avail man' = avail man - addr_range a sz"
    "lo \<le> a" "unat a + unat sz < unat hi"
    using sp(3-6) by (simp_all add: avail_def)
qed

lemma alloc_loop_fail:
  "snd (alloc_loop lo hi man sz i n) = - 1 \<Longrightarrow> hi \<le> 0x80000000 \<Longrightarrow> memman_ok man \<Longrightarrow> i + n = frees man \<Longrightarrow>
    fst (alloc_loop lo hi man sz i n) = man"
proof (induction n arbitrary: i)
  case (Suc n)
  have "blocks_ok (blocks man)" using Suc.prems(3) by (simp add: memman_ok_def)
  moreover have "free man i \<in> set (blocks man)" using Suc.prems(4) by (simp add: blocks_def)
  ultimately have b: "b_hi (free man i) < 2 ^ 32" by (simp add: blocks_ok_def list_all_iff)
  have "\<not> fits lo hi sz (free man i)"
  proof
    assume f: "fits lo hi sz (free man i)"
    then have "unat (fi_addr (free man i) + sz) = unat (fi_addr (free man i)) + unat sz"
      using b by (intro unat_plus_no_wrap) (simp add: fits_def b_hi_def word_le_nat_alt)
    then have "unat (fi_addr (free man i)) < 2 ^ 31"
      using f Suc.prems(2) by (simp add: fits_def word_less_nat_alt word_le_nat_alt)
    moreover have "fi_addr (free man i) = - 1"
      using f Suc.prems(1) by (auto simp: fits_def Let_def split: if_splits)
    ultimately show False by (simp add: minus_one_u32)
  qed
  with Suc show ?case by (auto simp: fits_def)
qed simp

lemma alloc_loop_fails_iff:
  assumes "memman_ok man" "hi \<le> 0x80000000"
  shows "snd (alloc_loop lo hi man sz 0 (frees man)) = - 1 \<longleftrightarrow>
    \<not> (\<exists>b \<in> set (blocks man). fits lo hi sz b)"
  using alloc_blocks_fails_iff[where bs = "blocks man" and hi = hi and lo = lo and sz = sz] assms by (simp add: alloc_loop_all memman_ok_def)

lemma memman_free_0 [simp]: "memman_free man a 0 = (man, 0)"
  by (simp add: memman_free_def)

lemma length_free_blocks:
  "length (free_blocks a sz us vs) \<le> length us + length vs + 1"
  "joins_left a us \<or> joins_right e vs \<Longrightarrow> e = a + sz \<Longrightarrow>
    length (free_blocks a sz us vs) \<le> length us + length vs"
  by (auto simp: free_blocks_def joins_left_def joins_right_def Let_def)

lemma length_below_above: "length (below a bs) + length (above a bs) = length bs"
  by (metis below_above length_append)

lemma memman_free_spec:
  assumes ok: "memman_ok man" and sz: "0 < sz" and fits: "unat a + unat sz < 2 ^ 32"
    and apart: "addr_range a sz \<inter> avail man = {}" and r: "memman_free man a sz = (man', r)"
  shows "memman_ok man'" "r = 0 \<Longrightarrow> avail man' = avail man \<union> addr_range a sz"
    "r \<noteq> 0 \<Longrightarrow> man' = man\<lparr>losts := losts man + 1, lostsize := lostsize man + sz\<rparr>"
proof -
  define us vs where "us = below a (blocks man)" and "vs = above a (blocks man)"
  have sz0: "sz \<noteq> 0" using sz by auto
  have bok: "blocks_ok (blocks man)" using ok by (simp add: memman_ok_def)
  note sp = free_blocks_spec[OF bok sz fits apart[unfolded avail_def], folded us_def vs_def]
  have len: "length us + length vs = frees man"
    using length_below_above[of a "blocks man"] by (simp add: us_def vs_def)
  have "memman_ok man' \<and> (r = 0 \<longrightarrow> avail man' = avail man \<union> addr_range a sz) \<and>
      (r \<noteq> 0 \<longrightarrow> man' = man\<lparr>losts := losts man + 1, lostsize := lostsize man + sz\<rparr>)"
  proof (cases "joins_left a us \<or> joins_right (a + sz) vs \<or> frees man < MEMMAN_FREES")
    case True
    note bl = memman_free_blocks[OF sz0 True[unfolded us_def vs_def], folded us_def vs_def]
    then have b: "blocks man' = free_blocks a sz us vs" "r = 0" using r by simp_all
    have "frees man' = length (free_blocks a sz us vs)" using b(1) by (metis length_blocks)
    also have "\<dots> \<le> MEMMAN_FREES"
      using length_free_blocks(1)[of a sz us vs] length_free_blocks(2)[of a us "a + sz" vs sz] len True ok by (fastforce simp: memman_ok_def)
    finally show ?thesis using sp b by (simp add: memman_ok_def avail_def)
  next
    case False
    then have "memman_free man a sz = (man\<lparr>losts := losts man + 1, lostsize := lostsize man + sz\<rparr>, - 1)"
      using memman_free_full[OF sz0] by (simp add: us_def vs_def)
    then show ?thesis using r ok by (auto simp: memman_ok_def blocks_def)
  qed
  then show "memman_ok man'" "r = 0 \<Longrightarrow> avail man' = avail man \<union> addr_range a sz"
    "r \<noteq> 0 \<Longrightarrow> man' = man\<lparr>losts := losts man + 1, lostsize := lostsize man + sz\<rparr>" by blast+
qed

subsection \<open>The contract of an allocator\<close>

text \<open>
  What the clients of the memory manager rely on: \<open>sizes\<close> are the sizes that may be asked for,
  \<open>room s\<close> the addresses that are free in \<open>s\<close>.
\<close>

locale allocator =
  fixes alloc :: "'s \<Rightarrow> u32 \<Rightarrow> 's \<times> u32"
    and release :: "'s \<Rightarrow> u32 \<Rightarrow> u32 \<Rightarrow> 's \<times> u32"
    and ok :: "'s \<Rightarrow> bool"
    and room :: "'s \<Rightarrow> nat set"
    and sizes :: "u32 set"
  assumes alloc_ok: "ok s \<Longrightarrow> n \<in> sizes \<Longrightarrow> alloc s n = (s', a) \<Longrightarrow> ok s'"
    and alloc_room: "ok s \<Longrightarrow> n \<in> sizes \<Longrightarrow> alloc s n = (s', a) \<Longrightarrow> a \<noteq> - 1 \<Longrightarrow>
      addr_range a n \<subseteq> room s \<and> room s' = room s - addr_range a n \<and> unat a + unat n < 2 ^ 32"
    and alloc_failed: "ok s \<Longrightarrow> n \<in> sizes \<Longrightarrow> alloc s n = (s', - 1) \<Longrightarrow> s' = s"
    and release_ok: "ok s \<Longrightarrow> unat a + unat n < 2 ^ 32 \<Longrightarrow> addr_range a n \<inter> room s = {} \<Longrightarrow>
      release s a n = (s', r) \<Longrightarrow> ok s'"
    and release_room: "ok s \<Longrightarrow> unat a + unat n < 2 ^ 32 \<Longrightarrow> addr_range a n \<inter> room s = {} \<Longrightarrow>
      release s a n = (s', r) \<Longrightarrow> room s' = (if r = 0 then room s \<union> addr_range a n else room s)"
begin

lemma alloc_fresh:
  assumes "ok s" "n \<in> sizes" "alloc s n = (s', a)" "a \<noteq> - 1" "X \<inter> room s = {}"
  shows "addr_range a n \<inter> X = {}" "(X \<union> addr_range a n) \<inter> room s' = {}"
  using alloc_room[OF assms(1-4)] assms(5) by auto

lemma alloc_shrinks: "ok s \<Longrightarrow> n \<in> sizes \<Longrightarrow> alloc s n = (s', a) \<Longrightarrow> room s' \<subseteq> room s"
  using alloc_room[of s n s' a] alloc_failed[of s n s'] by (cases "a = - 1") auto

lemma alloc_release:
  assumes "ok s" "n \<in> sizes" "alloc s n = (s', a)" "a \<noteq> - 1" "release s' a n = (s'', 0)"
  shows "ok s''" "room s'' = room s"
proof -
  note al = alloc_room[OF assms(1-4)]
  have ok': "ok s'" using alloc_ok assms by blast
  have d: "addr_range a n \<inter> room s' = {}" using al by auto
  show "ok s''" using release_ok[OF ok' _ d assms(5)] al by blast
  show "room s'' = room s" using release_room[OF ok' _ d assms(5)] al by auto
qed

end

subsection \<open>The four allocators meet the contract\<close>

lemma allocator_alloc_loop:
  assumes "hi \<le> 0x80000000" "\<And>m n. n \<in> S \<Longrightarrow> alloc m n = alloc_loop lo hi m n 0 (frees m)"
  shows "allocator alloc memman_free memman_ok avail S"
proof unfold_locales
  fix s s' :: MEMMAN and n a :: u32
  assume s: "memman_ok s" "n \<in> S" "alloc s n = (s', a)"
  then have r: "alloc_loop lo hi s n 0 (frees s) = (s', a)" using assms(2) by simp
  have f: "a = - 1 \<Longrightarrow> s' = s" using alloc_loop_fail[OF _ assms(1) s(1)] r by (metis add_0 fst_conv snd_conv)
  show "memman_ok s'" using f alloc_loop_spec(1)[OF s(1) r] s(1) by (cases "a = - 1") auto
  show "addr_range a n \<subseteq> avail s \<and> avail s' = avail s - addr_range a n \<and> unat a + unat n < 2 ^ 32"
    if "a \<noteq> - 1"
    using alloc_loop_spec[OF s(1) r that] less_trans[OF alloc_loop_spec(5)[OF s(1) r that] unat_lt_u32] by simp
next
  fix s s' :: MEMMAN and n :: u32
  assume s: "memman_ok s" "n \<in> S" "alloc s n = (s', - 1)"
  then show "s' = s" using alloc_loop_fail[OF _ assms(1) s(1)] assms(2) by (metis add_0 fst_conv snd_conv)
next
  fix s s' :: MEMMAN and n a r :: u32
  assume s: "memman_ok s" "unat a + unat n < 2 ^ 32" "addr_range a n \<inter> avail s = {}"
    "memman_free s a n = (s', r)"
  have "memman_ok s' \<and> avail s' = (if r = 0 then avail s \<union> addr_range a n else avail s)"
  proof (cases "n = 0")
    case True
    with s show ?thesis by (auto simp: addr_range_def)
  next
    case False
    then have "0 < n" by (simp add: word_gt_0)
    from memman_free_spec[OF s(1) this s(2-4)] show ?thesis by (auto simp: avail_def blocks_def)
  qed
  then show "memman_ok s'" "avail s' = (if r = 0 then avail s \<union> addr_range a n else avail s)" by auto
qed

interpretation malloc: allocator memman_alloc memman_free memman_ok avail UNIV
  by (rule allocator_alloc_loop[where lo = WALL and hi = UWALL])
    (simp_all add: memman_alloc_def memman_consts)

interpretation kmalloc: allocator memman_kalloc memman_free memman_ok avail UNIV
  by (rule allocator_alloc_loop[where lo = KWALL and hi = WALL])
    (simp_all add: memman_kalloc_def memman_consts)

interpretation malloc_4k: allocator "\<lambda>man n. memman_alloc_4k man" memman_free memman_ok avail "{0x1000}"
  by (rule allocator_alloc_loop[where lo = UWALL and hi = MEMEND])
    (simp_all add: memman_alloc_4k_def memman_consts)

interpretation kmalloc_4k: allocator "\<lambda>man n. memman_kalloc_4k man" memman_free memman_ok avail "{0x1000}"
  by (rule allocator_alloc_loop[where lo = MEMSTART and hi = KWALL])
    (simp_all add: memman_kalloc_4k_def memman_consts)

lemmas pool_defs = memman_alloc_def memman_kalloc_def memman_alloc_4k_def memman_kalloc_4k_def

text \<open>C35. Every allocator returns addresses of its own pool that were free, takes exactly these
  addresses away, and keeps the table in order.\<close>

theorem alloc_from_own_pool:
  assumes "memman_ok man" "a \<noteq> - 1"
    "((man', a), sz, lo, hi) \<in> {(memman_alloc man n, n, WALL, UWALL), (memman_kalloc man n, n, KWALL, WALL),
       (memman_alloc_4k man, 0x1000, UWALL, MEMEND), (memman_kalloc_4k man, 0x1000, MEMSTART, KWALL)}"
  shows "memman_ok man' \<and> addr_range a sz \<subseteq> avail man \<and> avail man' = avail man - addr_range a sz \<and>
    lo \<le> a \<and> unat a + unat sz < unat hi"
proof -
  have "alloc_loop lo hi man sz 0 (frees man) = (man', a)" using assms(3) by (auto simp: pool_defs)
  from alloc_loop_spec[OF assms(1) this assms(2)] show ?thesis by blast
qed

definition one_block :: MEMMAN where
  "one_block = \<lparr>frees = 1, maxfrees = 1, lostsize = 0, losts = 0,
     free = (\<lambda>_. \<lparr>fi_addr = WALL, fi_size = 0x2000\<rparr>)\<rparr>"

lemma one_block_ok: "memman_ok one_block"
  by (simp add: one_block_def memman_ok_def blocks_def memman_consts b_hi_def)

lemma one_block_alloc:
  "memman_alloc one_block 0x100 = (one_block\<lparr>free := (free one_block)
     (0 := \<lparr>fi_addr = 0x800100, fi_size = 0x1F00\<rparr>)\<rparr>, 0x800000)"
  by (simp add: one_block_def memman_alloc_def memman_consts)

theorem alloc_from_own_pool_witness:
  "\<exists>man'. memman_alloc one_block 0x100 = (man', 0x800000) \<and> memman_ok man' \<and>
    avail man' = avail one_block - addr_range 0x800000 0x100"
proof -
  have "((fst (memman_alloc one_block 0x100), 0x800000 :: u32), 0x100, WALL, UWALL) \<in>
      {(memman_alloc one_block 0x100, 0x100, WALL, UWALL), (memman_kalloc one_block 0x100, 0x100, KWALL, WALL),
       (memman_alloc_4k one_block, 0x1000, UWALL, MEMEND), (memman_kalloc_4k one_block, 0x1000, MEMSTART, KWALL)}"
    by (simp add: one_block_alloc)
  from alloc_from_own_pool[OF one_block_ok _ this] show ?thesis by (simp add: one_block_alloc)
qed

text \<open>An allocator fails exactly when no free block of its pool is large enough, and then
  leaves the table as it was.\<close>

lemma alloc_fails_iff:
  assumes "memman_ok man"
    "((man', a), sz, lo, hi) \<in> {(memman_alloc man n, n, WALL, UWALL), (memman_kalloc man n, n, KWALL, WALL),
       (memman_alloc_4k man, 0x1000, UWALL, MEMEND), (memman_kalloc_4k man, 0x1000, MEMSTART, KWALL)}"
  shows "(a = - 1 \<longleftrightarrow> \<not> (\<exists>b \<in> set (blocks man). fits lo hi sz b)) \<and> (a = - 1 \<longrightarrow> man' = man)"
proof -
  have r: "alloc_loop lo hi man sz 0 (frees man) = (man', a)" and hi: "hi \<le> 0x80000000"
    using assms(2) by (auto simp: pool_defs memman_consts)
  show ?thesis
    using alloc_loop_fails_iff[OF assms(1) hi, of lo sz] alloc_loop_fail[OF _ hi assms(1), of lo sz 0 "frees man"] r
    by simp
qed

lemma alloc_fails_iff_witness:
  "memman_kalloc one_block 0x100 = (one_block, - 1)"
proof -
  have "snd (memman_kalloc one_block 0x100) = - 1"
    by (simp add: one_block_def memman_kalloc_def memman_consts)
  then show ?thesis
    using alloc_fails_iff[OF one_block_ok, where man' = "fst (memman_kalloc one_block 0x100)" and
        a = "snd (memman_kalloc one_block 0x100)" and sz = "0x100" and lo = KWALL and hi = WALL and n = "0x100"]
    by (simp add: prod_eq_iff)
qed

text \<open>C36. Freeing a range that is not free puts it back, joined to its neighbours, and keeps the table
  in order; when the table is full the range is only counted as lost.\<close>

theorem free_puts_back:
  assumes "memman_ok man" "0 < sz" "unat a + unat sz < 2 ^ 32" "addr_range a sz \<inter> avail man = {}"
    "memman_free man a sz = (man', r)"
  shows "memman_ok man' \<and>
    (r = 0 \<and> avail man' = avail man \<union> addr_range a sz \<or>
     r = - 1 \<and> frees man = MEMMAN_FREES \<and>
       man' = man\<lparr>losts := losts man + 1, lostsize := lostsize man + sz\<rparr>)"
proof (cases "r = 0")
  case True
  with memman_free_spec[OF assms] show ?thesis by blast
next
  case False
  have "sz \<noteq> 0" using assms(2) by auto
  with False have f: "\<not> frees man < MEMMAN_FREES" "r = - 1"
    using memman_free_blocks(1)[of sz a man] memman_free_full[of sz a man] assms(5)
    by (metis snd_conv)+
  with False memman_free_spec[OF assms] assms(1) show ?thesis by (auto simp: memman_ok_def)
qed

theorem free_puts_back_witness:
  "\<exists>man'. memman_free one_block 0x802000 0x1000 = (man', 0) \<and> memman_ok man' \<and>
    avail man' = avail one_block \<union> addr_range 0x802000 0x1000"
proof -
  have r: "snd (memman_free one_block 0x802000 0x1000) = 0"
    by (simp add: memman_free_def one_block_def memman_consts Let_def grow_entry_def)
  have "addr_range 0x802000 0x1000 \<inter> avail one_block = {}"
    by (auto simp: addr_range_def avail_def one_block_def blocks_def b_lo_def b_hi_def memman_consts)
  from free_puts_back[OF one_block_ok _ _ this prod.collapse[symmetric]] r show ?thesis
    by (intro exI[of _ "fst (memman_free one_block 0x802000 0x1000)"]) (auto simp: prod_eq_iff)
qed

lemma alloc_leaves_place:
  assumes ok: "blocks_ok bs" and r: "alloc_blocks lo hi sz bs = (bs', a)" "a \<noteq> - 1" "0 < sz"
  shows "length bs' < length bs \<or> joins_right (a + sz) (above a bs')"
proof -
  obtain us b vs where bs: "bs = us @ b # vs" and f: "fits lo hi sz b"
    and bs': "bs' = us @ rest sz b @ vs" and a: "a = fi_addr b"
    using r by (cases rule: alloc_blocks_cases[where bs = bs and lo = lo and hi = hi and sz = sz]) auto
  show ?thesis
  proof (cases "fi_size b = sz")
    case True
    then show ?thesis by (simp add: bs bs' rest_def)
  next
    case False
    have u: "0 < fi_size u \<and> b_hi u < b_lo b" if "u \<in> set us" for u
      using ok that unfolding bs by (auto simp: blocks_ok_def list_all_iff sorted_wrt_append)
    have b': "0 < fi_size b" "b_hi b < 2 ^ 32" "sz \<le> fi_size b"
      using ok bs f by (auto simp: blocks_ok_append fits_def)
    have "fi_addr u \<le> a" if "u \<in> set us" for u
      using u[OF that] b_lo_less_b_hi[of u] by (simp add: a b_lo_def word_le_nat_alt)
    moreover have "\<not> a + sz \<le> a"
    proof -
      have "unat (a + sz) = unat a + unat sz"
        using b' by (intro unat_plus_no_wrap) (simp add: a b_hi_def word_le_nat_alt)
      then show ?thesis using r(3) by (simp add: word_le_nat_alt word_less_nat_alt)
    qed
    ultimately have "above a bs' = rest sz b @ vs"
      by (simp add: above_def bs' rest_def False a dropWhile_append2)
    then show ?thesis by (simp add: joins_right_def rest_def False a)
  qed
qed

lemma alloc_free_restores:
  assumes ok: "memman_ok man" and "0 < sz" "a \<noteq> - 1"
    and r: "(man', a) \<in> {memman_alloc man sz, memman_kalloc man sz}"
  shows "snd (memman_free man' a sz) = 0 \<and> blocks (fst (memman_free man' a sz)) = blocks man"
proof -
  obtain lo hi where al: "alloc_loop lo hi man sz 0 (frees man) = (man', a)"
    using r by (auto simp: pool_defs)
  then have "alloc_blocks lo hi sz (blocks man) = (blocks man', a)"
    using alloc_loop_all[of lo hi man sz] by (simp add: prod_eq_iff)
  from alloc_leaves_place[OF _ this assms(3,2)] ok
  have place: "frees man' < frees man \<or> joins_right (a + sz) (above a (blocks man'))"
    by (simp add: memman_ok_def)
  note sp = alloc_loop_spec[OF ok al assms(3)]
  have sz0: "sz \<noteq> 0" using assms(2) by auto
  have z: "snd (memman_free man' a sz) = 0"
    by (rule memman_free_blocks(1)[OF sz0]) (use place ok in \<open>auto simp: memman_ok_def\<close>)
  have lt: "unat a + unat sz < 2 ^ 32" using less_trans[OF sp(5) unat_lt_u32] by simp
  have d: "addr_range a sz \<inter> avail man' = {}" using sp(3) by auto
  note fr = memman_free_spec[OF sp(1) assms(2) lt d prod.collapse[symmetric]]
  have "avail (fst (memman_free man' a sz)) = avail man" using fr(2) z sp(2,3) by auto
  then have "blocks (fst (memman_free man' a sz)) = blocks man"
    using blocks_ok_inject fr(1) ok by (auto simp: memman_ok_def avail_def)
  with z show ?thesis by simp
qed

text \<open>C37. Giving a block back right after it was allocated restores the table exactly: the freed
  range always finds a place and joins the block it was cut from.\<close>

theorem alloc_then_free:
  assumes ok: "memman_ok man" and "0 < sz" "a \<noteq> - 1"
    and r: "(man', a) \<in> {memman_alloc man sz, memman_kalloc man sz}"
  shows "snd (memman_free man' a sz) = 0 \<and> blocks (fst (memman_free man' a sz)) = blocks man"
  by (rule alloc_free_restores[OF assms])

theorem alloc_then_free_witness:
  "blocks (fst (memman_free (fst (memman_alloc one_block 0x100)) 0x800000 0x100)) = blocks one_block"
  using alloc_then_free[OF one_block_ok, of "0x100" "0x800000" "fst (memman_alloc one_block 0x100)"]
  by (simp add: one_block_alloc)

subsection \<open>Sequences of system calls\<close>

text \<open>
  The states are the manager and the list of blocks that were handed out and not given back; a
  step is one of the system calls.
\<close>

inductive mem_step :: "MEMMAN \<times> (u32 \<times> u32) list \<Rightarrow> MEMMAN \<times> (u32 \<times> u32) list \<Rightarrow> bool" where
  alloc: "((man', a), n) \<in> {(do_malloc man sz, sz), (do_kmalloc man sz, sz),
      (do_malloc_4k man, 0x1000), (do_kmalloc_4k man, 0x1000)} \<Longrightarrow> a \<noteq> - 1 \<Longrightarrow>
    mem_step (man, live) (man', (a, n) # live)"
| no_memory: "((man', - 1), n) \<in> {(do_malloc man sz, sz), (do_kmalloc man sz, sz),
      (do_malloc_4k man, 0x1000), (do_kmalloc_4k man, 0x1000)} \<Longrightarrow>
    mem_step (man, live) (man', live)"
| release: "(a, n) \<in> set live \<Longrightarrow> do_free man a n = (man', r) \<Longrightarrow>
    mem_step (man, live) (man', remove1 (a, n) live)"

inductive_cases mem_step_elim: "mem_step (man, live) c"

lemmas do_defs = do_malloc_def do_kmalloc_def do_malloc_4k_def do_kmalloc_4k_def do_free_def
  do_free_4k_def memman_free_4k_def

definition apart :: "u32 \<times> u32 \<Rightarrow> u32 \<times> u32 \<Rightarrow> bool" where
  "apart = (\<lambda>(a, n) (b, m). addr_range a n \<inter> addr_range b m = {})"

definition live_ok :: "MEMMAN \<Rightarrow> (u32 \<times> u32) list \<Rightarrow> bool" where
  "live_ok man live \<longleftrightarrow> memman_ok man \<and> sorted_wrt apart live \<and>
     (\<forall>(a, n) \<in> set live. unat a + unat n < 2 ^ 32 \<and> addr_range a n \<inter> avail man = {})"

lemma apart_sym: "apart x y \<Longrightarrow> apart y x"
  by (auto simp: apart_def)

lemma sorted_wrt_remove1:
  "sorted_wrt apart xs \<Longrightarrow> sorted_wrt apart (remove1 x xs)"
  "sorted_wrt apart xs \<Longrightarrow> x \<in> set xs \<Longrightarrow> y \<in> set (remove1 x xs) \<Longrightarrow> apart x y"
  by (induction xs) (auto dest: set_remove1_subset[THEN subsetD] apart_sym split: if_splits)

lemma live_ok_step: "mem_step c c' \<Longrightarrow> case c of (man, live) \<Rightarrow> live_ok man live \<Longrightarrow>
    case c' of (man', live') \<Rightarrow> live_ok man' live'"
proof (induction rule: mem_step.induct)
  case (alloc man' a n man sz live)
  then have ok: "memman_ok man" by (simp add: live_ok_def)
  have "memman_ok man' \<and> addr_range a n \<subseteq> avail man \<and> avail man' = avail man - addr_range a n \<and>
      unat a + unat n < 2 ^ 32"
  proof -
    consider "memman_alloc man n = (man', a)" | "memman_kalloc man n = (man', a)"
      | "memman_alloc_4k man = (man', a)" "n = 0x1000" | "memman_kalloc_4k man = (man', a)" "n = 0x1000"
      using alloc.hyps(1) by (auto simp: do_defs)
    then show ?thesis
    proof cases
      case 1
      with malloc.alloc_ok[OF ok UNIV_I 1] malloc.alloc_room[OF ok UNIV_I 1 alloc.hyps(2)] show ?thesis by simp
    next
      case 2
      with kmalloc.alloc_ok[OF ok UNIV_I 2] kmalloc.alloc_room[OF ok UNIV_I 2 alloc.hyps(2)] show ?thesis by simp
    next
      case 3
      with malloc_4k.alloc_ok[OF ok _ 3(1)] malloc_4k.alloc_room[OF ok _ 3(1) alloc.hyps(2)] show ?thesis by simp
    next
      case 4
      with kmalloc_4k.alloc_ok[OF ok _ 4(1)] kmalloc_4k.alloc_room[OF ok _ 4(1) alloc.hyps(2)] show ?thesis by simp
    qed
  qed
  then show ?case using alloc.prems by (fastforce simp: live_ok_def apart_def)
next
  case (no_memory man' n man sz live)
  then have ok: "memman_ok man" by (simp add: live_ok_def)
  have "man' = man"
    using no_memory.hyps malloc.alloc_failed[OF ok] kmalloc.alloc_failed[OF ok]
      malloc_4k.alloc_failed[OF ok] kmalloc_4k.alloc_failed[OF ok]
    unfolding do_defs by (elim insertE emptyE) (auto simp: prod_eq_iff)
  then show ?case using no_memory.prems by simp
next
  case (release a n live man man' r)
  then have ok: "memman_ok man" and b: "unat a + unat n < 2 ^ 32" "addr_range a n \<inter> avail man = {}"
    and f: "memman_free man a n = (man', r)"
    by (auto simp: live_ok_def do_defs)
  have "memman_ok man'" "avail man' \<subseteq> avail man \<union> addr_range a n"
    using malloc.release_ok[OF ok b f] malloc.release_room[OF ok b f] by auto
  moreover have srt: "sorted_wrt apart live" using release.prems by (simp add: live_ok_def)
  moreover have "unat b + unat m < 2 ^ 32 \<and> addr_range b m \<inter> (avail man \<union> addr_range a n) = {}"
    if bm: "(b, m) \<in> set (remove1 (a, n) live)" for b m
  proof -
    have "(b, m) \<in> set live" using bm set_remove1_subset by fast
    moreover have "apart (a, n) (b, m)" using sorted_wrt_remove1(2)[OF srt release.hyps(1) bm] .
    ultimately show ?thesis using release.prems by (auto simp: live_ok_def apart_def)
  qed
  ultimately show ?case
    using sorted_wrt_remove1(1)[OF srt, of "(a, n)"] by (fastforce simp: live_ok_def)
qed

text \<open>C7. Whatever sequence of allocations and releases the kernel makes, the blocks that are handed
  out never overlap each other, never overlap a free block, and the table stays in order.\<close>

theorem live_blocks_apart:
  assumes "mem_step\<^sup>*\<^sup>* (man, []) (man', live)" "memman_ok man"
  shows "memman_ok man' \<and> sorted_wrt (\<lambda>(a, n) (b, m). addr_range a n \<inter> addr_range b m = {}) live \<and>
    (\<Union>(a, n) \<in> set live. addr_range a n) \<inter> avail man' = {}"
proof -
  have "live_ok man []" using assms(2) by (simp add: live_ok_def)
  have "case c' of (man', live') \<Rightarrow> live_ok man' live'" if "mem_step\<^sup>*\<^sup>* (man, []) c'" for c'
    using that by (induction rule: rtranclp_induct) (use \<open>live_ok man []\<close> live_ok_step in auto)
  from this[OF assms(1)] show ?thesis by (fastforce simp: live_ok_def apart_def)
qed

theorem live_blocks_apart_witness:
  "\<exists>man'. mem_step\<^sup>*\<^sup>* (one_block, []) (man', [(0x800000, 0x100)]) \<and> memman_ok man' \<and>
    addr_range 0x800000 0x100 \<inter> avail man' = {}"
proof -
  let ?m = "fst (memman_alloc one_block 0x100)"
  have "mem_step (one_block, []) (?m, [(0x800000, 0x100)])"
    by (rule mem_step.alloc[where sz = "0x100"]) (simp_all add: do_defs one_block_alloc)
  then have st: "mem_step\<^sup>*\<^sup>* (one_block, []) (?m, [(0x800000, 0x100)])" by (rule r_into_rtranclp)
  from live_blocks_apart[OF st one_block_ok] st show ?thesis by auto
qed

subsection \<open>The amount of free memory, and the table at boot\<close>

lemma total_loop_eq: "i + n = frees man \<Longrightarrow>
    total_loop man t i n = t + sum_list (map fi_size (drop i (blocks man)))"
proof (induction n arbitrary: i t)
  case (Suc n)
  then have "drop i (blocks man) = free man i # drop (i + 1) (blocks man)"
    by (metis Cons_nth_drop_Suc Suc_eq_plus1 length_blocks nth_blocks less_add_Suc1 add_Suc_right)
  with Suc show ?case by simp
qed simp

lemma card_blocks_avail:
  "blocks_ok bs \<Longrightarrow> finite (blocks_avail bs) \<and> (of_nat (card (blocks_avail bs)) :: u32) = sum_list (map fi_size bs)"
proof (induction bs)
  case (Cons b bs)
  have "{b_lo b..<b_hi b} \<inter> blocks_avail bs = {}"
    using Cons.prems blocks_avail_lower by fastforce
  with Cons show ?case
    by (simp add: card_Un_disjoint) (simp add: b_lo_def b_hi_def)
qed simp

text \<open>\<^verbatim>\<open>memman_total\<close> is the number of free addresses.\<close>

lemma total_counts_avail:
  "memman_ok man \<Longrightarrow> memman_total man = of_nat (card (avail man))"
  using card_blocks_avail[of "blocks man"] total_loop_eq[of 0 "frees man" man 0]
  by (simp add: memman_total_def memman_ok_def avail_def)

lemma total_counts_avail_witness:
  "memman_total one_block = of_nat (card (avail one_block)) \<and> memman_total one_block = 0x2000"
  using total_counts_avail[OF one_block_ok] by (simp add: memman_total_def one_block_def)

lemma split_hit:
  assumes "i < frees man" "fi_addr b < wall" "wall < fi_addr b + fi_size b"
    "blocks man = us @ b # vs" "length us = i"
  shows "blocks (split_loop wall man i (Suc n)) =
     us @ \<lparr>fi_addr = fi_addr b, fi_size = wall - 0x1000 - fi_addr b\<rparr>
     # \<lparr>fi_addr = wall, fi_size = fi_addr b + fi_size b - wall\<rparr> # vs"
proof -
  have b: "free man i = b" using nth_blocks[OF assms(1)] assms(4,5) by (simp add: nth_append)
  let ?g = "open_gap (free man) (frees man) (frees man - (i + 1))"
  let ?e = "\<lparr>fi_addr = wall, fi_size = fi_addr b + fi_size b - wall\<rparr>"
  let ?d = "\<lparr>fi_addr = fi_addr b, fi_size = wall - 0x1000 - fi_addr b\<rparr>"
  have upd: "b\<lparr>fi_size := s\<rparr> = \<lparr>fi_addr = fi_addr b, fi_size = s\<rparr>" for s by simp
  have g: "?g i = b" using b assms(1) by (auto simp: open_gap_eq)
  have "map (?g(i + 1 := ?e)) [0..<frees man + 1] = (us @ [b]) @ ?e # vs"
    using map_open_gap[of "i + 1" "frees man" "free man" ?e] assms(1,4,5)
    by (simp add: blocks_def del: upt_Suc fun_upd_apply)
  then have "map (?g(i + 1 := ?e, i := ?d)) [0..<frees man + 1] = us @ ?d # ?e # vs"
    using map_upd_upt[of i "frees man + 1" "?g(i + 1 := ?e)" ?d] assms(1,5)
    by (simp add: list_update_append del: upt_Suc fun_upd_apply)
  moreover have "split_loop wall man i (Suc n) =
      man\<lparr>frees := frees man + 1, maxfrees := max (maxfrees man) (frees man + 1), free := ?g(i + 1 := ?e, i := ?d)\<rparr>"
    using assms(2,3) b g by (simp add: Let_def upd)
  ultimately show ?thesis by (simp add: blocks_def del: upt_Suc fun_upd_apply)
qed

lemma split_skip:
  assumes "i < frees man" "blocks man = us @ b # vs" "length us = i" "\<not> wall < fi_addr b + fi_size b"
  shows "split_loop wall man i (Suc n) = split_loop wall man (Suc i) n"
proof -
  have "free man i = b" using nth_blocks[OF assms(1)] assms(2,3) by (simp add: nth_append)
  then show ?thesis using assms(4) by simp
qed

lemma split_losts [simp]: "losts (split_loop wall man i n) = losts man"
  by (induction n arbitrary: i) (auto simp: Let_def)

text \<open>On a machine whose only region ends at \<open>e\<close>, boot cuts the memory from 4M on into the four
  pools of the allocators, with a page left out before each wall.\<close>

lemma init_pools:
  assumes "MemInfo 0 = 1" "MemInfo 1 = e" "UWALL < e"
  shows "\<exists>man'. init man MemInfo = Some man' \<and> memman_ok man' \<and> losts man' = 0 \<and>
    blocks man' = [\<lparr>fi_addr = MEMSTART, fi_size = 0x1FF000\<rparr>, \<lparr>fi_addr = KWALL, fi_size = 0x1FF000\<rparr>,
      \<lparr>fi_addr = WALL, fi_size = 0x7FF000\<rparr>, \<lparr>fi_addr = UWALL, fi_size = e - UWALL\<rparr>]"
proof -
  define m0 where "m0 = memman_init man"
  define m1 where "m1 = fst (memman_free m0 MEMSTART (e - MEMSTART))"
  define m2 where "m2 = split_loop KWALL m1 0 (frees m1)"
  define m3 where "m3 = split_loop WALL m2 0 (frees m2)"
  define m4 where "m4 = split_loop UWALL m3 0 (frees m3)"
  have e: "KWALL < e" "WALL < e" "MEMSTART < e" "e \<noteq> MEMSTART" "\<not> e < MEMSTART"
    using assms(3) by (auto simp: memman_consts intro: less_trans[rotated] dest: less_trans)
  have i: "init man MemInfo = Some m4"
    using assms(1,2) e(5) by (simp add: init_def m0_def m1_def m2_def m3_def m4_def Let_def)
  have b0: "blocks m0 = []" "frees m0 = 0" "losts m0 = 0" by (simp_all add: m0_def memman_init_def blocks_def)
  have n0: "e - MEMSTART \<noteq> 0" using e(4) by simp
  have b1: "blocks m1 = [\<lparr>fi_addr = MEMSTART, fi_size = e - MEMSTART\<rparr>]"
    using memman_free_blocks(2)[OF n0, of MEMSTART m0] b0
    by (simp add: m1_def below_def above_def free_blocks_def joins_left_def joins_right_def MEMMAN_FREES_def)
  have l1: "losts m1 = 0"
    using memman_free_unfold[OF n0, of m0 MEMSTART] b0
    by (simp add: m1_def below_def above_def joins_left_def joins_right_def MEMMAN_FREES_def)
  have f1: "frees m1 = Suc 0" using b1 by (metis length_blocks length_Cons list.size(3))
  have b2: "blocks m2 = [\<lparr>fi_addr = MEMSTART, fi_size = 0x1FF000\<rparr>, \<lparr>fi_addr = KWALL, fi_size = e - KWALL\<rparr>]"
    unfolding m2_def f1 by (subst split_hit[where us = "[]" and vs = "[]" and b = "\<lparr>fi_addr = MEMSTART, fi_size = e - MEMSTART\<rparr>"])
      (use f1 e b1 in \<open>simp_all add: memman_consts\<close>)
  have f2: "frees m2 = Suc (Suc 0)" using b2 by (metis length_blocks length_Cons list.size(3))
  have w2: "split_loop WALL m2 0 (Suc (Suc 0)) = split_loop WALL m2 1 (Suc 0)"
    by (subst split_skip[where us = "[]" and b = "\<lparr>fi_addr = MEMSTART, fi_size = 0x1FF000\<rparr>"
          and vs = "[\<lparr>fi_addr = KWALL, fi_size = e - KWALL\<rparr>]"])
      (simp_all add: b2 f2 memman_consts del: split_loop.simps)
  have b3: "blocks m3 = [\<lparr>fi_addr = MEMSTART, fi_size = 0x1FF000\<rparr>, \<lparr>fi_addr = KWALL, fi_size = 0x1FF000\<rparr>,
      \<lparr>fi_addr = WALL, fi_size = e - WALL\<rparr>]"
    unfolding m3_def f2 w2 by (subst split_hit[where us = "[\<lparr>fi_addr = MEMSTART, fi_size = 0x1FF000\<rparr>]" and vs = "[]"
        and b = "\<lparr>fi_addr = KWALL, fi_size = e - KWALL\<rparr>"])
      (use f2 e b2 in \<open>simp_all add: memman_consts\<close>)
  have f3: "frees m3 = Suc (Suc (Suc 0))" using b3 by (metis length_blocks length_Cons list.size(3))
  have w3: "split_loop UWALL m3 0 (Suc (Suc (Suc 0))) = split_loop UWALL m3 (Suc (Suc 0)) (Suc 0)"
    by (subst split_skip[where us = "[]" and b = "\<lparr>fi_addr = MEMSTART, fi_size = 0x1FF000\<rparr>"
          and vs = "[\<lparr>fi_addr = KWALL, fi_size = 0x1FF000\<rparr>, \<lparr>fi_addr = WALL, fi_size = e - WALL\<rparr>]"],
        simp_all add: b3 f3 memman_consts del: split_loop.simps)
      (subst split_skip[where us = "[\<lparr>fi_addr = MEMSTART, fi_size = 0x1FF000\<rparr>]"
          and b = "\<lparr>fi_addr = KWALL, fi_size = 0x1FF000\<rparr>" and vs = "[\<lparr>fi_addr = WALL, fi_size = e - WALL\<rparr>]"],
        simp_all add: b3 f3 memman_consts del: split_loop.simps)
  have b4: "blocks m4 = [\<lparr>fi_addr = MEMSTART, fi_size = 0x1FF000\<rparr>, \<lparr>fi_addr = KWALL, fi_size = 0x1FF000\<rparr>,
      \<lparr>fi_addr = WALL, fi_size = 0x7FF000\<rparr>, \<lparr>fi_addr = UWALL, fi_size = e - UWALL\<rparr>]"
    unfolding m4_def f3 w3 by (subst split_hit[where us = "[\<lparr>fi_addr = MEMSTART, fi_size = 0x1FF000\<rparr>,
        \<lparr>fi_addr = KWALL, fi_size = 0x1FF000\<rparr>]" and vs = "[]" and b = "\<lparr>fi_addr = WALL, fi_size = e - WALL\<rparr>"])
      (use f3 e b3 assms(3) in \<open>simp_all add: memman_consts\<close>)
  have "unat UWALL + unat (e - UWALL) = unat e"
    using assms(3) by (simp add: unat_minus_no_wrap word_less_nat_alt)
  then have "blocks_ok (blocks m4)"
    using assms(3) unat_lt_u32[of e] unfolding b4
    by (simp add: b_hi_def b_lo_def memman_consts del: unat_lt_u32) (auto simp: word_gt_0)
  moreover have "frees m4 = length (blocks m4)" by simp
  then have "frees m4 = 4" unfolding b4 by simp
  ultimately have "memman_ok m4" by (simp add: memman_ok_def MEMMAN_FREES_def)
  moreover have "losts m4 = 0" by (simp add: m4_def m3_def m2_def l1)
  ultimately show ?thesis using i b4 by blast
qed

lemma init_pools_witness:
  "\<exists>man'. init one_block (\<lambda>i. if i = 0 then 1 else 0x2000000) = Some man' \<and> memman_ok man' \<and>
    map fi_addr (blocks man') = [MEMSTART, KWALL, WALL, UWALL]"
  using init_pools[of "\<lambda>i. if i = 0 then 1 else 0x2000000" "0x2000000" one_block]
  by (auto simp: UWALL_def)

end
