(* ===== verification/RamFat.thy ===== *)
theory RamFat
  imports CString MemMan
begin

text \<open>
  The memory of the RAM file system and its allocation table, the first part of
  \<^verbatim>\<open>kernel/ramfs.c\<close> (\<^verbatim>\<open>rf_alloc_clu\<close> to \<^verbatim>\<open>check_dir_size\<close>).

  The file system keeps its data in memory it gets from the memory manager. The state \<open>ramfs\<close> has
  the table \<^verbatim>\<open>RF_FAT_ROOT\<close> (\<open>fat\<close>), the pages of 4096 bytes that \<^verbatim>\<open>do_malloc_4k\<close> returned, by their
  kernel address (\<open>page\<close>), the words that \<^verbatim>\<open>do_kmalloc(sizeof(u32))\<close> returned (\<open>cell\<close>), and the
  memory manager itself. The three kinds of memory lie in different pools of the manager, so they
  are separate maps. \<open>fat_below\<close> is whatever stands in memory just before the table: \<^verbatim>\<open>rf_read\<close>
  reads it. An index outside the table and an unchecked failure of \<^verbatim>\<open>do_kmalloc\<close> are \<open>None\<close>, so the pointers to
  sizes and link counts that records hold are addresses of words; reading and writing through one is always defined
  here, and the well-formedness of the theorems says which words are meant.
\<close>

subsection \<open>The state\<close>

definition RAM_FS_CLUSTER_SIZE :: nat where "RAM_FS_CLUSTER_SIZE = 0x1000"
definition RAM_FS_NR_CLU :: nat where "RAM_FS_NR_CLU = 8192"
definition RF_MX_ENT_NAME :: nat where "RF_MX_ENT_NAME = 128"
definition RF_NONE :: u32 where "RF_NONE = 0"
definition RF_F :: u32 where "RF_F = 1"
definition RF_D :: u32 where "RF_D = 2"
definition ENOENT :: int where "ENOENT = 2"
definition ENOMEM :: int where "ENOMEM = 12"
definition EACCES :: int where "EACCES = 13"
definition ENFILE :: int where "ENFILE = 23"
definition EMFILE :: int where "EMFILE = 24"
definition ENOTEMPTY :: int where "ENOTEMPTY = 39"

record rf_fat =
  next_cluster :: u32
  rf_addr :: u32

record ramfs =
  fat :: "rf_fat block"
  fat_below :: rf_fat
  page :: "u32 \<Rightarrow> bytes"
  cell :: "u32 \<Rightarrow> u32"
  memman :: MEMMAN

text \<open>
  \<^verbatim>\<open>rf_inode\<close> takes 148 bytes: the name, then five words at these offsets. \<open>RF_NR_REC\<close> of them fit in
  a page. A \<^verbatim>\<open>p_rf_inode\<close> is the address of its page and its index there.
\<close>

type_synonym p_rf_inode = "u32 \<times> nat"

definition sizeof_rf_inode :: nat where "sizeof_rf_inode = 148"
definition RF_NR_REC :: nat where "RF_NR_REC = 27"

datatype rf_field = record_type | p_size | p_link_cnt | open_cnt | start_cluster

fun field_off :: "rf_field \<Rightarrow> nat" where
  "field_off record_type = 128"
| "field_off p_size = 132"
| "field_off p_link_cnt = 136"
| "field_off open_cnt = 140"
| "field_off start_cluster = 144"

definition rf_get :: "'a ramfs_scheme \<Rightarrow> p_rf_inode \<Rightarrow> rf_field \<Rightarrow> u32" where
  "rf_get fs p f = load32 (page fs (fst p)) (sizeof_rf_inode * snd p + field_off f)"

definition rf_set :: "'a ramfs_scheme \<Rightarrow> p_rf_inode \<Rightarrow> rf_field \<Rightarrow> u32 \<Rightarrow> 'a ramfs_scheme" where
  "rf_set fs p f w = fs\<lparr>page := (page fs)(fst p :=
     store32 (page fs (fst p)) (sizeof_rf_inode * snd p + field_off f) w)\<rparr>"

definition rf_name :: "'a ramfs_scheme \<Rightarrow> p_rf_inode \<Rightarrow> bytes" where
  "rf_name fs p = (\<lambda>k. page fs (fst p) (sizeof_rf_inode * snd p + k))"

text \<open>\<^verbatim>\<open>strcpy\<close> of a string that lies elsewhere to the name of an inode.\<close>

definition rf_set_name :: "'a ramfs_scheme \<Rightarrow> p_rf_inode \<Rightarrow> u8 list \<Rightarrow> 'a ramfs_scheme" where
  "rf_set_name fs p xs = fs\<lparr>page := (page fs)(fst p :=
     store_list (page fs (fst p)) (sizeof_rf_inode * snd p) (xs @ [0]))\<rparr>"

text \<open>\<^verbatim>\<open>memcpy\<close> to a place in a page from somewhere else.\<close>

definition put_page :: "'a ramfs_scheme \<Rightarrow> u32 \<Rightarrow> nat \<Rightarrow> u8 list \<Rightarrow> 'a ramfs_scheme" where
  "put_page fs pg off xs = fs\<lparr>page := (page fs)(pg := store_list (page fs pg) off xs)\<rparr>"

definition set_cell :: "'a ramfs_scheme \<Rightarrow> u32 \<Rightarrow> u32 \<Rightarrow> 'a ramfs_scheme" where
  "set_cell fs a w = fs\<lparr>cell := (cell fs)(a := w)\<rparr>"

definition fat_at :: "'a ramfs_scheme \<Rightarrow> u32 \<Rightarrow> rf_fat option" where
  "fat_at fs c = (if unat c < RAM_FS_NR_CLU then Some (fat fs (unat c))
     else if c = MAX_UNSIGNED_INT then Some (fat_below fs) else None)"

definition set_next :: "'a ramfs_scheme \<Rightarrow> u32 \<Rightarrow> u32 \<Rightarrow> 'a ramfs_scheme option" where
  "set_next fs c w = (if unat c < RAM_FS_NR_CLU
     then Some (fs\<lparr>fat := (fat fs)(unat c := (fat fs (unat c))\<lparr>next_cluster := w\<rparr>)\<rparr>) else None)"

definition set_addr :: "'a ramfs_scheme \<Rightarrow> u32 \<Rightarrow> u32 \<Rightarrow> 'a ramfs_scheme option" where
  "set_addr fs c w = (if unat c < RAM_FS_NR_CLU
     then Some (fs\<lparr>fat := (fat fs)(unat c := (fat fs (unat c))\<lparr>rf_addr := w\<rparr>)\<rparr>) else None)"

text \<open>\<^verbatim>\<open>(u32*)K_PHY2LIN(do_kmalloc(sizeof(u32)))\<close>; the code does not look for a failure.\<close>

definition kmalloc_cell :: "'a ramfs_scheme \<Rightarrow> ('a ramfs_scheme \<times> u32) option" where
  "kmalloc_cell fs = (let (m, a) = do_kmalloc (memman fs) 4 in
     if a = - 1 then None else Some (fs\<lparr>memman := m\<rparr>, K_PHY2LIN a))"

subsection \<open>Clusters\<close>

definition rf_alloc_clu :: "'a ramfs_scheme \<Rightarrow> u32 \<Rightarrow> ('a ramfs_scheme \<times> int) option" where
  "rf_alloc_clu fs clu = do {
     fs \<leftarrow> set_next fs clu MAX_UNSIGNED_INT;
     let (m, phy_addr) = do_malloc_4k (memman fs);
     let fs = fs\<lparr>memman := m\<rparr>;
     if phy_addr = - 1 then Some (fs, - 1)
     else do {
       fs \<leftarrow> set_addr fs clu (K_PHY2LIN phy_addr);
       Some (fs\<lparr>page := (page fs)(K_PHY2LIN phy_addr := memset (page fs (K_PHY2LIN phy_addr)) 0 0 0x1000)\<rparr>, 0)
     }
   }"

fun find_free_loop :: "'a ramfs_scheme \<Rightarrow> nat \<Rightarrow> nat \<Rightarrow> ('a ramfs_scheme \<times> int) option" where
  "find_free_loop fs i 0 = Some (fs, - ENOMEM)"
| "find_free_loop fs i (Suc n) =
     (if next_cluster (fat fs i) = 0 then do {
        (fs, r) \<leftarrow> rf_alloc_clu fs (of_nat i);
        if r = - 1 then Some (fs, - ENOMEM) else Some (fs, int i)
      }
      else find_free_loop fs (i + 1) n)"

definition rf_find_first_free_alloc :: "'a ramfs_scheme \<Rightarrow> ('a ramfs_scheme \<times> int) option" where
  "rf_find_first_free_alloc fs = find_free_loop fs 0 RAM_FS_NR_CLU"

partial_function (option) free_clu_loop :: "'a ramfs_scheme \<Rightarrow> u32 \<Rightarrow> u32 \<Rightarrow> 'a ramfs_scheme option" where
  "free_clu_loop fs clu nxt_clu =
     (if nxt_clu \<noteq> MAX_UNSIGNED_INT then do {
        e \<leftarrow> fat_at fs clu;
        fs \<leftarrow> set_next fs clu 0;
        let (m, r) = do_free_4k (memman fs) (K_LIN2PHY (rf_addr e));
        if r = - 1 then None
        else free_clu_loop (fs\<lparr>memman := m\<rparr>) (next_cluster e) (next_cluster e)
      }
      else Some fs)"

definition rf_free_clu :: "'a ramfs_scheme \<Rightarrow> u32 \<Rightarrow> 'a ramfs_scheme option" where
  "rf_free_clu fs clu = free_clu_loop fs clu 0"

text \<open>The walk to the last cluster of a directory, then the search for its last record.\<close>

partial_function (option) dir_last_clu :: "'a ramfs_scheme \<Rightarrow> u32 \<Rightarrow> u32 \<Rightarrow> (u32 \<times> u32) option" where
  "dir_last_clu fs dir_clu dir_size = do {
     e \<leftarrow> fat_at fs dir_clu;
     if next_cluster e \<noteq> MAX_UNSIGNED_INT
     then dir_last_clu fs (next_cluster e) (dir_size + of_nat RAM_FS_CLUSTER_SIZE)
     else Some (dir_clu, dir_size)
   }"

text \<open>\<open>last_rec_loop fs pg n\<close> is \<^verbatim>\<open>i + 1\<close> when the loop that runs from \<^verbatim>\<open>n - 1\<close> down ends.\<close>

fun last_rec_loop :: "'a ramfs_scheme \<Rightarrow> u32 \<Rightarrow> nat \<Rightarrow> nat" where
  "last_rec_loop fs pg 0 = 0"
| "last_rec_loop fs pg (Suc i) =
     (if rf_get fs (pg, i) record_type \<noteq> RF_NONE then i + 1 else last_rec_loop fs pg i)"

definition check_dir_size :: "'a ramfs_scheme \<Rightarrow> u32 \<Rightarrow> u32 option" where
  "check_dir_size fs dir_clu = do {
     (dir_clu, dir_size) \<leftarrow> dir_last_clu fs dir_clu 0;
     e \<leftarrow> fat_at fs dir_clu;
     Some (dir_size + of_nat (last_rec_loop fs (rf_addr e) RF_NR_REC * sizeof_rf_inode))
   }"

declare free_clu_loop.simps [code] and dir_last_clu.simps [code]

subsection \<open>Chains of clusters\<close>

text \<open>\<open>chain fs c cs\<close>: from \<open>c\<close> the links go through \<open>cs\<close> and end.\<close>

fun chain :: "'a ramfs_scheme \<Rightarrow> u32 \<Rightarrow> u32 list \<Rightarrow> bool" where
  "chain fs c [] \<longleftrightarrow> c = MAX_UNSIGNED_INT"
| "chain fs c (d # ds) \<longleftrightarrow> c = d \<and> unat d < RAM_FS_NR_CLU \<and> chain fs (next_cluster (fat fs (unat d))) ds"

definition clu_addr :: "'a ramfs_scheme \<Rightarrow> u32 \<Rightarrow> u32" where
  "clu_addr fs c = rf_addr (fat fs (unat c))"

definition clu_page :: "'a ramfs_scheme \<Rightarrow> u32 \<Rightarrow> bytes" where
  "clu_page fs c = page fs (clu_addr fs c)"

definition clu_data :: "'a ramfs_scheme \<Rightarrow> u32 \<Rightarrow> u8 list" where
  "clu_data fs c = load_list (clu_page fs c) 0 RAM_FS_CLUSTER_SIZE"

definition file_data :: "'a ramfs_scheme \<Rightarrow> u32 list \<Rightarrow> u8 list" where
  "file_data fs cs = concat (map (clu_data fs) cs)"

definition clu_range :: "'a ramfs_scheme \<Rightarrow> u32 \<Rightarrow> nat set" where
  "clu_range fs c = addr_range (K_LIN2PHY (clu_addr fs c)) 0x1000"

text \<open>
  The clusters \<open>K\<close>, the root among them, are in use: each has a page of its own that the memory manager has given away.
\<close>

definition clusters_ok :: "'a ramfs_scheme \<Rightarrow> u32 set \<Rightarrow> bool" where
  "clusters_ok fs K \<longleftrightarrow> memman_ok (memman fs) \<and> 0 \<in> K \<and>
     (\<forall>c \<in> K. unat c < RAM_FS_NR_CLU \<and> next_cluster (fat fs (unat c)) \<noteq> 0 \<and>
        unat (K_LIN2PHY (clu_addr fs c)) + 0x1000 < 2 ^ 32 \<and> clu_range fs c \<inter> avail (memman fs) = {}) \<and>
     (\<forall>c \<in> K. \<forall>d \<in> K. c \<noteq> d \<longrightarrow> clu_range fs c \<inter> clu_range fs d = {})"

lemma RAM_FS_consts [simp]: "RAM_FS_NR_CLU < 4294967295" "\<not> 4294967295 < RAM_FS_NR_CLU" "0 < RAM_FS_NR_CLU" "0 < RAM_FS_CLUSTER_SIZE"
  by (simp_all add: RAM_FS_NR_CLU_def RAM_FS_CLUSTER_SIZE_def)

lemma clu_not_MAX: "unat c < RAM_FS_NR_CLU \<Longrightarrow> c \<noteq> MAX_UNSIGNED_INT"
  by (auto simp: RAM_FS_NR_CLU_def)

lemma fat_at_clu [simp]: "unat c < RAM_FS_NR_CLU \<Longrightarrow> fat_at fs c = Some (fat fs (unat c))"
  by (simp add: fat_at_def)

lemma chain_unique: "chain fs c cs \<Longrightarrow> chain fs c ds \<Longrightarrow> cs = ds"
proof (induction cs arbitrary: c ds)
  case Nil
  then show ?case by (cases ds) (auto dest: clu_not_MAX)
next
  case (Cons x xs)
  then show ?case by (cases ds) (auto dest: clu_not_MAX)
qed

lemma chain_append:
  "chain fs c (xs @ d # ys) \<Longrightarrow> chain fs d (d # ys)"
  by (induction xs arbitrary: c) auto

lemma chain_distinct: "chain fs c cs \<Longrightarrow> distinct cs"
proof (induction cs arbitrary: c)
  case (Cons d ds)
  have "d \<notin> set ds"
  proof
    assume "d \<in> set ds"
    then obtain xs ys where "ds = xs @ d # ys" by (meson split_list)
    moreover from this have "chain fs d (d # ys)" using Cons.prems chain_append[of fs c "d # xs" d ys] by simp
    moreover have "chain fs d (d # ds)" using Cons.prems by simp
    ultimately have "d # ds = d # ys" using chain_unique by blast
    with \<open>ds = xs @ d # ys\<close> show False by simp
  qed
  with Cons show ?case by auto
qed simp

lemma chain_bound: "chain fs c cs \<Longrightarrow> d \<in> set cs \<Longrightarrow> unat d < RAM_FS_NR_CLU"
  by (induction cs arbitrary: c) auto

lemma chain_cong:
  "chain fs c cs \<Longrightarrow> (\<And>d. d \<in> set cs \<Longrightarrow> next_cluster (fat fs' (unat d)) = next_cluster (fat fs (unat d))) \<Longrightarrow>
    chain fs' c cs"
  by (induction cs arbitrary: c) auto

text \<open>Putting a new last cluster behind a chain.\<close>

lemma chain_extend:
  assumes "chain fs c (cs @ [l])" "unat n < RAM_FS_NR_CLU" "n \<notin> set (cs @ [l])"
    "next_cluster (fat fs' (unat l)) = n" "next_cluster (fat fs' (unat n)) = MAX_UNSIGNED_INT"
    "\<And>d. d \<in> set cs \<Longrightarrow> next_cluster (fat fs' (unat d)) = next_cluster (fat fs (unat d))"
  shows "chain fs' c (cs @ [l, n])"
  using assms by (induction cs arbitrary: c) auto

lemma length_file_data [simp]: "length (file_data fs cs) = RAM_FS_CLUSTER_SIZE * length cs"
  by (induction cs) (simp_all add: file_data_def clu_data_def)

lemma file_data_simps [simp]:
  "file_data fs [] = []" "file_data fs (c # cs) = clu_data fs c @ file_data fs cs"
  "file_data fs (cs @ ds) = file_data fs cs @ file_data fs ds"
  by (simp_all add: file_data_def)

lemma file_data_cong:
  "(\<And>c. c \<in> set cs \<Longrightarrow> clu_page fs' c = clu_page fs c) \<Longrightarrow> file_data fs' cs = file_data fs cs"
  by (induction cs) (simp_all add: clu_data_def)

lemma length_clu_data [simp]: "length (clu_data fs c) = RAM_FS_CLUSTER_SIZE"
  by (simp add: clu_data_def)

subsection \<open>Taking a new cluster\<close>

lemma word_of_nat_clu: "i < RAM_FS_NR_CLU \<Longrightarrow> unat (of_nat i :: u32) = i"
  by (simp add: unsigned_of_nat take_bit_nat_eq_self RAM_FS_NR_CLU_def)

lemma clu_eq_iff: "unat (c :: u32) = unat d \<longleftrightarrow> c = d"
  by (simp add: word_unat_eq_iff)

lemma addr_range_page_inj: "addr_range a 0x1000 \<inter> addr_range b 0x1000 = {} \<Longrightarrow> a \<noteq> b"
  by (auto simp: addr_range_def)

lemma clusters_ok_addr_inj:
  "clusters_ok fs K \<Longrightarrow> c \<in> K \<Longrightarrow> d \<in> K \<Longrightarrow> clu_addr fs c = clu_addr fs d \<longleftrightarrow> c = d"
  unfolding clusters_ok_def clu_range_def by (metis addr_range_page_inj)

text \<open>The result of a successful allocation.\<close>

definition new_clu :: "'a ramfs_scheme \<Rightarrow> u32 \<Rightarrow> 'a ramfs_scheme \<Rightarrow> bool" where
  "new_clu fs n fs' \<longleftrightarrow> unat n < RAM_FS_NR_CLU \<and> next_cluster (fat fs (unat n)) = 0 \<and>
     next_cluster (fat fs' (unat n)) = MAX_UNSIGNED_INT \<and> clu_data fs' n = replicate RAM_FS_CLUSTER_SIZE 0 \<and>
     (\<exists>m a p. fs' = fs\<lparr>fat := (fat fs)(unat n := \<lparr>next_cluster = MAX_UNSIGNED_INT, rf_addr = K_PHY2LIN a\<rparr>),
        page := (page fs)(K_PHY2LIN a := p), memman := m\<rparr> \<and> do_malloc_4k (memman fs) = (m, a) \<and> a \<noteq> - 1)"

lemma rf_fat_updates [simp]:
  "(e :: rf_fat)\<lparr>next_cluster := n, rf_addr := a\<rparr> = \<lparr>next_cluster = n, rf_addr = a\<rparr>"
  by simp

lemma rf_alloc_clu_ok:
  assumes "unat n < RAM_FS_NR_CLU" "next_cluster (fat fs (unat n)) = 0" "rf_alloc_clu fs n = Some (fs', r)"
    "r \<noteq> - 1"
  shows "new_clu fs n fs'"
proof -
  obtain m a where ma: "do_malloc_4k (memman fs) = (m, a)" by force
  have z: "memset p 0 0 0x1000 = store_list p 0 (replicate RAM_FS_CLUSTER_SIZE 0)" for p
    by (simp add: memset_eq RAM_FS_CLUSTER_SIZE_def)
  have "a \<noteq> - 1" using assms ma by (auto simp: rf_alloc_clu_def set_next_def)
  then have fs': "fs' = fs\<lparr>fat := (fat fs)(unat n := \<lparr>next_cluster = MAX_UNSIGNED_INT, rf_addr = K_PHY2LIN a\<rparr>),
        page := (page fs)(K_PHY2LIN a := store_list (page fs (K_PHY2LIN a)) 0 (replicate RAM_FS_CLUSTER_SIZE 0)), memman := m\<rparr>"
    using assms ma by (auto simp: rf_alloc_clu_def set_next_def set_addr_def z)
  moreover have "clu_data fs' n = replicate RAM_FS_CLUSTER_SIZE 0"
    by (simp add: fs' clu_data_def clu_page_def clu_addr_def block_simps)
  ultimately show ?thesis using assms ma \<open>a \<noteq> - 1\<close> by (auto simp: new_clu_def)
qed

lemma rf_alloc_clu_returns: "unat n < RAM_FS_NR_CLU \<Longrightarrow> \<exists>fs' r. rf_alloc_clu fs n = Some (fs', r) \<and> (r = 0 \<or> r = - 1)"
  by (cases "do_malloc_4k (memman fs)") (auto simp: rf_alloc_clu_def set_next_def set_addr_def Let_def)

text \<open>A failed allocation: no page was left, and a free entry of the table is marked as used.\<close>

definition lost_clu :: "'a ramfs_scheme \<Rightarrow> 'a ramfs_scheme \<Rightarrow> bool" where
  "lost_clu fs fs' \<longleftrightarrow> (\<exists>j m. j < RAM_FS_NR_CLU \<and> next_cluster (fat fs j) = 0 \<and>
     do_malloc_4k (memman fs) = (m, - 1) \<and>
     fs' = fs\<lparr>fat := (fat fs)(j := (fat fs j)\<lparr>next_cluster := MAX_UNSIGNED_INT\<rparr>), memman := m\<rparr>)"

lemma rf_alloc_clu_fails:
  assumes "unat n < RAM_FS_NR_CLU" "next_cluster (fat fs (unat n)) = 0" "rf_alloc_clu fs n = Some (fs', - 1)"
  shows "lost_clu fs fs'"
proof -
  obtain m a where ma: "do_malloc_4k (memman fs) = (m, a)" by force
  then have "a = - 1" using assms by (auto simp: rf_alloc_clu_def set_next_def set_addr_def Let_def split: if_splits)
  with assms ma show ?thesis
    unfolding lost_clu_def by (intro exI[of _ "unat n"] exI[of _ m])
      (simp add: rf_alloc_clu_def set_next_def Let_def fun_upd_def)
qed

lemma find_free_loop_spec:
  assumes "i + n = RAM_FS_NR_CLU"
  shows "\<exists>fs' r. find_free_loop fs i n = Some (fs', r) \<and>
     (r = - ENOMEM \<and> (fs' = fs \<and> (\<forall>j. i \<le> j \<and> j < RAM_FS_NR_CLU \<longrightarrow> next_cluster (fat fs j) \<noteq> 0) \<or> lost_clu fs fs') \<or>
      0 \<le> r \<and> new_clu fs (of_int r) fs' \<and> r < int RAM_FS_NR_CLU \<and>
        (\<forall>j. i \<le> j \<and> j < nat r \<longrightarrow> next_cluster (fat fs j) \<noteq> 0))"
  using assms
proof (induction n arbitrary: i)
  case 0
  then show ?case by auto
next
  case (Suc n)
  show ?case
  proof (cases "next_cluster (fat fs i) = 0")
    case False
    have "i + 1 + n = RAM_FS_NR_CLU" using Suc.prems by simp
    moreover have "(\<forall>j. i \<le> j \<and> j < b \<longrightarrow> next_cluster (fat fs j) \<noteq> 0) \<longleftrightarrow>
        (\<forall>j. i + 1 \<le> j \<and> j < b \<longrightarrow> next_cluster (fat fs j) \<noteq> 0)" for b
      using False by (metis Suc_eq_plus1 Suc_leI Suc_leD le_neq_implies_less)
    ultimately show ?thesis using Suc.IH[of "i + 1"] False by simp
  next
    case True
    have i: "i < RAM_FS_NR_CLU" using Suc.prems by simp
    let ?n = "of_nat i :: u32"
    have n: "unat ?n = i" using i by (rule word_of_nat_clu)
    obtain fs' r where al: "rf_alloc_clu fs ?n = Some (fs', r)" and r: "r = 0 \<or> r = - 1"
      using rf_alloc_clu_returns[of ?n fs] i n by auto
    show ?thesis
    proof (cases "r = - 1")
      case True
      with al i n \<open>next_cluster (fat fs i) = 0\<close> rf_alloc_clu_fails[of ?n fs fs'] show ?thesis by simp
    next
      case False
      then have "new_clu fs ?n fs'" using rf_alloc_clu_ok[OF _ _ al] i n True by simp
      with al False True i show ?thesis by auto
    qed
  qed
qed

text \<open>No cluster can be had: no entry of the table is free, or no page.\<close>

definition exhausted :: "'a ramfs_scheme \<Rightarrow> bool" where
  "exhausted fs \<longleftrightarrow> (\<forall>j < RAM_FS_NR_CLU. next_cluster (fat fs j) \<noteq> 0) \<or> snd (do_malloc_4k (memman fs)) = - 1"

lemma rf_find_first_free_alloc_spec:
  obtains (found) fs' r where "rf_find_first_free_alloc fs = Some (fs', r)" "0 \<le> r" "r < int RAM_FS_NR_CLU"
      "new_clu fs (of_int r) fs'" "\<forall>j < nat r. next_cluster (fat fs j) \<noteq> 0"
  | (full) fs' where "rf_find_first_free_alloc fs = Some (fs', - ENOMEM)"
      "fs' = fs \<or> lost_clu fs fs'" "exhausted fs"
proof -
  obtain fs' r where r: "rf_find_first_free_alloc fs = Some (fs', r)"
    and c: "r = - ENOMEM \<and> (fs' = fs \<and> (\<forall>j. j < RAM_FS_NR_CLU \<longrightarrow> next_cluster (fat fs j) \<noteq> 0) \<or> lost_clu fs fs') \<or>
      0 \<le> r \<and> new_clu fs (of_int r) fs' \<and> r < int RAM_FS_NR_CLU \<and>
        (\<forall>j. j < nat r \<longrightarrow> next_cluster (fat fs j) \<noteq> 0)"
    using find_free_loop_spec[of 0 RAM_FS_NR_CLU fs] unfolding rf_find_first_free_alloc_def by auto
  show ?thesis
  proof (cases "0 \<le> r")
    case True
    with c show ?thesis by (intro found[OF r]) (auto simp: ENOMEM_def)
  next
    case False
    with c have "r = - ENOMEM" "fs' = fs \<or> lost_clu fs fs'" "exhausted fs"
      by (auto simp: exhausted_def lost_clu_def)
    with r full show ?thesis by blast
  qed
qed

text \<open>What stays the same on a set of clusters (and in the rest of the kernel's state).\<close>

definition same_on :: "u32 set \<Rightarrow> 'a ramfs_scheme \<Rightarrow> 'a ramfs_scheme \<Rightarrow> bool" where
  "same_on L fs fs' \<longleftrightarrow> ramfs.more fs' = ramfs.more fs \<and>
     (\<forall>c \<in> L. fat fs' (unat c) = fat fs (unat c) \<and> clu_page fs' c = clu_page fs c)"

lemma same_on_refl [simp]: "same_on L fs fs"
  by (simp add: same_on_def)

lemma same_on_trans: "same_on L fs fs' \<Longrightarrow> same_on L fs' fs'' \<Longrightarrow> same_on L fs fs''"
  by (simp add: same_on_def)

lemma same_on_mono: "same_on L fs fs' \<Longrightarrow> M \<subseteq> L \<Longrightarrow> same_on M fs fs'"
  by (auto simp: same_on_def)

lemma same_on_chain: "same_on L fs fs' \<Longrightarrow> chain fs c cs \<Longrightarrow> set cs \<subseteq> L \<Longrightarrow> chain fs' c cs"
  by (rule chain_cong[of fs c cs fs']) (auto simp: same_on_def)

lemma same_on_data: "same_on L fs fs' \<Longrightarrow> set cs \<subseteq> L \<Longrightarrow> file_data fs' cs = file_data fs cs"
  by (rule file_data_cong) (auto simp: same_on_def)

lemma malloc_4k_fresh:
  assumes "memman_ok man" "do_malloc_4k man = (m, a)" "a \<noteq> - 1"
  shows "memman_ok m" "addr_range a 0x1000 \<subseteq> avail man" "avail m = avail man - addr_range a 0x1000"
    "unat a + 0x1000 < 2 ^ 32"
proof -
  have r: "memman_alloc_4k man = (m, a)" using assms(2) by (simp add: do_defs)
  from malloc_4k.alloc_ok[OF assms(1) _ r] malloc_4k.alloc_room[OF assms(1) _ r assms(3)]
  show "memman_ok m" "addr_range a 0x1000 \<subseteq> avail man" "avail m = avail man - addr_range a 0x1000"
    "unat a + 0x1000 < 2 ^ 32" by auto
qed

lemma malloc_4k_failed: "memman_ok man \<Longrightarrow> do_malloc_4k man = (m, - 1) \<Longrightarrow> m = man"
  using malloc_4k.alloc_failed[of man "0x1000" m] by (simp add: do_defs)

lemma new_clu_ok:
  assumes K: "clusters_ok fs K" and n: "new_clu fs n fs'"
  shows "n \<notin> K" "clusters_ok fs' (insert n K)" "same_on K fs fs'" "cell fs' = cell fs"
    "c \<in> K \<Longrightarrow> page fs' (clu_addr fs c) = page fs (clu_addr fs c)"
proof -
  obtain m a p where fs': "fs' = fs\<lparr>fat := (fat fs)(unat n := \<lparr>next_cluster = MAX_UNSIGNED_INT, rf_addr = K_PHY2LIN a\<rparr>),
        page := (page fs)(K_PHY2LIN a := p), memman := m\<rparr>"
    and ma: "do_malloc_4k (memman fs) = (m, a)" "a \<noteq> - 1"
    and nb: "unat n < RAM_FS_NR_CLU" "next_cluster (fat fs (unat n)) = 0"
    using n unfolding new_clu_def by blast
  note K' = K[unfolded clusters_ok_def]
  note fresh = malloc_4k_fresh[OF conjunct1[OF K'] ma]
  show nK: "n \<notin> K" using nb K' by auto
  have fat': "fat fs' (unat c) = fat fs (unat c)" if "c \<in> K" for c
    using that nK by (auto simp: fs' clu_eq_iff)
  have addr': "clu_addr fs' c = clu_addr fs c" if "c \<in> K" for c using fat'[OF that] by (simp add: clu_addr_def)
  have addrn: "clu_addr fs' n = K_PHY2LIN a" by (simp add: fs' clu_addr_def)
  have apart: "clu_range fs c \<inter> addr_range a 0x1000 = {}" if "c \<in> K" for c
    using K' that fresh(2) by blast
  then have "clu_addr fs c \<noteq> K_PHY2LIN a" if "c \<in> K" for c
    using that addr_range_page_inj unfolding clu_range_def by (metis K_LIN2PHY_PHY2LIN)
  then show pg: "page fs' (clu_addr fs c) = page fs (clu_addr fs c)" if "c \<in> K" for c
    using that by (simp add: fs')
  moreover have "ramfs.more fs' = ramfs.more fs" by (simp add: fs')
  ultimately show "same_on K fs fs'" using fat' addr' by (simp add: same_on_def clu_page_def)
  show "cell fs' = cell fs" by (simp add: fs')
  have rng: "clu_range fs' c = clu_range fs c" if "c \<in> K" for c using addr'[OF that] by (simp add: clu_range_def)
  have rngn: "clu_range fs' n = addr_range a 0x1000" by (simp add: clu_range_def addrn)
  have "MAX_UNSIGNED_INT \<noteq> 0" by (simp add: MAX_UNSIGNED_INT_def)
  moreover have mm: "memman fs' = m" by (simp add: fs')
  moreover have "next_cluster (fat fs' (unat n)) = MAX_UNSIGNED_INT" by (simp add: fs')
  ultimately show "clusters_ok fs' (insert n K)"
    unfolding clusters_ok_def using K' fresh nb(1) fat' rng rngn apart addr' addrn
    by (auto simp: Int_commute)
qed

lemma lost_clu_ok:
  assumes K: "clusters_ok fs K" and "lost_clu fs fs'"
  shows "clusters_ok fs' K" "same_on K fs fs'" "cell fs' = cell fs" "page fs' = page fs" "memman fs' = memman fs"
proof -
  obtain j m where j: "next_cluster (fat fs j) = 0" "do_malloc_4k (memman fs) = (m, - 1)"
    and fs': "fs' = fs\<lparr>fat := (fat fs)(j := (fat fs j)\<lparr>next_cluster := MAX_UNSIGNED_INT\<rparr>), memman := m\<rparr>"
    using assms(2) unfolding lost_clu_def by blast
  have m: "m = memman fs" using malloc_4k_failed[OF _ j(2)] K by (simp add: clusters_ok_def)
  have fat': "fat fs' (unat c) = fat fs (unat c)" if "c \<in> K" for c
    using that j(1) K by (auto simp: fs' clusters_ok_def)
  show "cell fs' = cell fs" "page fs' = page fs" "memman fs' = memman fs" by (simp_all add: fs' m)
  moreover have "ramfs.more fs' = ramfs.more fs" by (simp add: fs')
  ultimately show "same_on K fs fs'" using fat' by (simp add: same_on_def clu_page_def clu_addr_def)
  show "clusters_ok fs' K"
    using K fat' \<open>memman fs' = memman fs\<close> by (simp add: clusters_ok_def clu_range_def clu_addr_def)
qed

lemma exhausted_lost: "exhausted fs \<Longrightarrow> memman_ok (memman fs) \<Longrightarrow> lost_clu fs fs' \<Longrightarrow> exhausted fs'"
  using malloc_4k_failed by (fastforce simp: exhausted_def lost_clu_def)

text \<open>Putting the new cluster behind the last one of a chain.\<close>

lemma set_next_simps:
  "unat l < RAM_FS_NR_CLU \<Longrightarrow> set_next fs l n = Some (fs\<lparr>fat := (fat fs)(unat l := (fat fs (unat l))\<lparr>next_cluster := n\<rparr>)\<rparr>)"
  by (simp add: set_next_def)

lemma set_next_ok:
  assumes K: "clusters_ok fs K" and "l \<in> K" "n \<noteq> 0" and fs': "set_next fs l n = Some fs'"
  shows "clusters_ok fs' K" "same_on (K - {l}) fs fs'" "cell fs' = cell fs" "page fs' = page fs"
    "memman fs' = memman fs" "clu_addr fs' c = clu_addr fs c" "clu_page fs' c = clu_page fs c"
    "next_cluster (fat fs' (unat l)) = n"
proof -
  have "unat l < RAM_FS_NR_CLU" using assms(1,2) by (simp add: clusters_ok_def)
  then have eq: "fs' = fs\<lparr>fat := (fat fs)(unat l := (fat fs (unat l))\<lparr>next_cluster := n\<rparr>)\<rparr>"
    using fs' by (simp add: set_next_simps)
  show a: "clu_addr fs' c = clu_addr fs c" for c by (simp add: eq clu_addr_def)
  show "cell fs' = cell fs" "page fs' = page fs" "memman fs' = memman fs"
    "next_cluster (fat fs' (unat l)) = n" by (simp_all add: eq)
  then show p: "clu_page fs' c = clu_page fs c" for c using a by (simp add: clu_page_def)
  show "same_on (K - {l}) fs fs'" using p by (simp add: same_on_def eq clu_eq_iff)
  show "clusters_ok fs' K"
    using K assms(3) a \<open>memman fs' = memman fs\<close>
    by (simp add: clusters_ok_def clu_range_def) (simp add: eq)
qed

lemma extend_chain:
  assumes K: "clusters_ok fs K" and ch: "chain fs c (cs @ [l])" and sub: "set (cs @ [l]) \<subseteq> K"
    and n: "new_clu fs n fs1"
  shows "\<exists>fs2. set_next fs1 l n = Some fs2 \<and> n \<notin> K \<and> clusters_ok fs2 (insert n K) \<and> chain fs2 c (cs @ [l, n]) \<and>
    same_on (K - {l}) fs fs2 \<and> clu_data fs2 n = replicate RAM_FS_CLUSTER_SIZE 0 \<and> cell fs2 = cell fs \<and>
    clu_addr fs2 l = clu_addr fs l \<and> clu_page fs2 l = clu_page fs l \<and> next_cluster (fat fs2 (unat l)) = n"
proof -
  note nc = new_clu_ok[OF K n]
  have l: "l \<in> K" using sub by simp
  have "unat l < RAM_FS_NR_CLU" using K l by (simp add: clusters_ok_def)
  then obtain fs2 where fs2: "set_next fs1 l n = Some fs2" by (simp add: set_next_simps)
  have n0: "n \<noteq> 0" using nc(1) K by (auto simp: clusters_ok_def)
  have l1: "l \<in> insert n K" using l by simp
  note sn = set_next_ok[OF nc(2) l1 n0 fs2]
  have nl: "n \<noteq> l" using nc(1) l by auto
  have s: "same_on (K - {l}) fs fs2"
    using same_on_trans[OF same_on_mono[OF nc(3)] same_on_mono[OF sn(2)], of "K - {l}"] by auto
  have "chain fs2 c (cs @ [l, n])"
  proof (rule chain_extend[OF ch])
    show "unat n < RAM_FS_NR_CLU" using n by (simp add: new_clu_def)
    show "n \<notin> set (cs @ [l])" using nc(1) sub by auto
    show "next_cluster (fat fs2 (unat n)) = MAX_UNSIGNED_INT"
      using sn(2) nl n by (simp add: same_on_def new_clu_def)
    show "next_cluster (fat fs2 (unat d)) = next_cluster (fat fs (unat d))" if "d \<in> set cs" for d
    proof -
      have "d \<in> K - {l}" using that sub chain_distinct[OF ch] by auto
      then show ?thesis using s by (simp add: same_on_def)
    qed
  qed (rule sn(8))
  moreover have "clu_data fs2 n = replicate RAM_FS_CLUSTER_SIZE 0"
    using n sn(7) by (simp add: new_clu_def clu_data_def)
  moreover have "clu_addr fs2 l = clu_addr fs l" "clu_page fs2 l = clu_page fs l"
    using sn(6,7) nc(3) l by (simp_all add: same_on_def clu_addr_def)
  ultimately show ?thesis using fs2 nc sn s by auto
qed

subsection \<open>Writing to the page of a cluster\<close>

definition overwrite :: "'b list \<Rightarrow> nat \<Rightarrow> 'b list \<Rightarrow> 'b list" where
  "overwrite xs n ys = take n xs @ ys @ drop (n + length ys) xs"

lemma length_overwrite [simp]: "n + length ys \<le> length xs \<Longrightarrow> length (overwrite xs n ys) = length xs"
  by (simp add: overwrite_def)

lemma overwrite_Nil [simp]: "n \<le> length xs \<Longrightarrow> overwrite xs n [] = xs"
  by (simp add: overwrite_def)

lemma overwrite_left: "n + length ys \<le> length xs \<Longrightarrow> overwrite (xs @ zs) n ys = overwrite xs n ys @ zs"
  by (simp add: overwrite_def)

lemma overwrite_right: "length xs \<le> n \<Longrightarrow> overwrite (xs @ zs) n ys = xs @ overwrite zs (n - length xs) ys"
  by (simp add: overwrite_def)

lemma overwrite_across:
  "n + length as = length xs \<Longrightarrow> overwrite (xs @ zs) n (as @ bs) = overwrite xs n as @ overwrite zs 0 bs"
  by (auto simp: overwrite_def intro!: arg_cong[where f = "\<lambda>k. drop k zs"])

lemma take_drop_overwrite: "n \<le> length xs \<Longrightarrow> take (length ys) (drop n (overwrite xs n ys)) = ys"
  by (simp add: overwrite_def)

lemma load_store_overwrite:
  "n + length xs \<le> k \<Longrightarrow> load_list (store_list p n xs) 0 k = overwrite (load_list p 0 k) n xs"
  by (rule nth_equalityI) (auto simp: overwrite_def store_list_def nth_append)

lemma put_page_simps [simp]:
  "fat (put_page fs pg off xs) = fat fs" "cell (put_page fs pg off xs) = cell fs"
  "memman (put_page fs pg off xs) = memman fs" "clu_addr (put_page fs pg off xs) = clu_addr fs"
  "fat_below (put_page fs pg off xs) = fat_below fs" "ramfs.more (put_page fs pg off xs) = ramfs.more fs"
  by (simp_all add: put_page_def clu_addr_def fun_eq_iff)

lemma put_page_chain [simp]: "chain (put_page fs pg off xs) c cs = chain fs c cs"
  by (induction cs arbitrary: c) simp_all

lemma put_page_ok [simp]: "clusters_ok (put_page fs pg off xs) K = clusters_ok fs K"
  by (simp add: clusters_ok_def clu_range_def)

lemma exhausted_put_page [simp]: "exhausted (put_page fs pg off xs) = exhausted fs"
  by (simp add: exhausted_def)

lemma put_page_other:
  "clusters_ok fs K \<Longrightarrow> c \<in> K \<Longrightarrow> same_on (K - {c}) fs (put_page fs (clu_addr fs c) off xs)"
  using clusters_ok_addr_inj[of fs K _ c]
  by (auto simp: same_on_def clu_page_def) (simp add: put_page_def split: if_splits)

lemma put_page_data:
  "off + length xs \<le> RAM_FS_CLUSTER_SIZE \<Longrightarrow>
    clu_data (put_page fs (clu_addr fs c) off xs) c = overwrite (clu_data fs c) off xs"
  by (simp add: clu_data_def clu_page_def) (simp add: put_page_def load_store_overwrite)

subsection \<open>Giving a chain back\<close>

lemma free_4k_returns:
  assumes ok: "memman_ok man" and b: "unat a + 0x1000 < 2 ^ 32" "addr_range a 0x1000 \<inter> avail man = {}"
    and room: "frees man < MEMMAN_FREES"
  shows "\<exists>m. do_free_4k man a = (m, 0) \<and> memman_ok m \<and> avail m = avail man \<union> addr_range a 0x1000 \<and>
    frees m \<le> frees man + 1"
proof -
  obtain m r where mr: "memman_free man a 0x1000 = (m, r)" by force
  have z: "r = 0" "blocks m = free_blocks a 0x1000 (below a (blocks man)) (above a (blocks man))"
    using memman_free_blocks[of "0x1000" a man] room mr by simp_all
  have "frees m \<le> frees man + 1"
    using length_free_blocks(1)[of a "0x1000" "below a (blocks man)" "above a (blocks man)"]
      length_below_above[of a "blocks man"] z(2) by (metis length_blocks)
  moreover have "unat a + unat (0x1000 :: u32) < 2 ^ 32" using b(1) by simp
  note fr = malloc.release_ok[OF ok this b(2) mr] malloc.release_room[OF ok this b(2) mr]
  ultimately show ?thesis using fr z(1) mr by (simp add: do_defs)
qed

lemma same_on_set_next:
  "set_next fs l n = Some fs' \<Longrightarrow> unat l < RAM_FS_NR_CLU \<Longrightarrow>
    (\<forall>c. c \<noteq> l \<longrightarrow> fat fs' (unat c) = fat fs (unat c)) \<and> clu_addr fs' = clu_addr fs \<and>
    next_cluster (fat fs' (unat l)) = n \<and> page fs' = page fs \<and> cell fs' = cell fs \<and> memman fs' = memman fs \<and>
    ramfs.more fs' = ramfs.more fs"
  by (auto simp: set_next_simps clu_addr_def fun_eq_iff clu_eq_iff)

lemma free_clu_step:
  assumes K: "clusters_ok fs K" and c: "c \<in> K" "c \<noteq> 0" and nxt: "nxt \<noteq> MAX_UNSIGNED_INT"
    and room: "frees (memman fs) < MEMMAN_FREES"
  shows "\<exists>fs'. free_clu_loop fs c nxt =
      free_clu_loop fs' (next_cluster (fat fs (unat c))) (next_cluster (fat fs (unat c))) \<and>
    clusters_ok fs' (K - {c}) \<and> same_on (K - {c}) fs fs' \<and> next_cluster (fat fs' (unat c)) = 0 \<and>
    avail (memman fs') = avail (memman fs) \<union> clu_range fs c \<and> frees (memman fs') \<le> frees (memman fs) + 1 \<and>
    cell fs' = cell fs \<and> (\<forall>d. d \<noteq> c \<longrightarrow> fat fs' (unat d) = fat fs (unat d))"
proof -
  note K' = K[unfolded clusters_ok_def]
  have b: "unat c < RAM_FS_NR_CLU" using K' c by blast
  obtain fs1 where fs1: "set_next fs c 0 = Some fs1" using b by (simp add: set_next_simps)
  note s1 = same_on_set_next[OF fs1 b]
  have ra: "rf_addr (fat fs (unat c)) = clu_addr fs c" by (simp add: clu_addr_def)
  obtain m where m: "do_free_4k (memman fs) (K_LIN2PHY (clu_addr fs c)) = (m, 0)" "memman_ok m"
    "avail m = avail (memman fs) \<union> clu_range fs c" "frees m \<le> frees (memman fs) + 1"
    using free_4k_returns[of "memman fs" "K_LIN2PHY (clu_addr fs c)"] K' c room unfolding clu_range_def by blast
  let ?fs = "fs1\<lparr>memman := m\<rparr>"
  have lp: "free_clu_loop fs c nxt = free_clu_loop ?fs (next_cluster (fat fs (unat c))) (next_cluster (fat fs (unat c)))"
    using nxt b fs1 m(1) s1 by (simp add: free_clu_loop.simps[of fs c nxt] ra)
  moreover have ad: "clu_addr ?fs = clu_addr fs" using s1 by (simp add: clu_addr_def fun_eq_iff)
  then have "clu_range ?fs = clu_range fs" by (simp add: clu_range_def fun_eq_iff)
  moreover have dj: "clu_range fs e \<inter> clu_range fs c = {}" if "e \<in> K - {c}" for e
    using K' c(1) that by blast
  ultimately have "clusters_ok ?fs (K - {c})"
    using K' c m s1 ad dj by (simp add: clusters_ok_def Int_Un_distrib)
  moreover have "same_on (K - {c}) fs ?fs" using s1 ad by (simp add: same_on_def clu_page_def)
  ultimately show ?thesis using m s1 lp by (intro exI[of _ ?fs]) simp
qed

lemma free_clu_loop_spec:
  assumes "clusters_ok fs K" "chain fs c (c # ds)" "set (c # ds) \<subseteq> K" "0 \<notin> set (c # ds)" "nxt \<noteq> MAX_UNSIGNED_INT"
    "frees (memman fs) + length ds < MEMMAN_FREES"
  shows "\<exists>fs'. free_clu_loop fs c nxt = Some fs' \<and> clusters_ok fs' (K - set (c # ds)) \<and>
    same_on (K - set (c # ds)) fs fs' \<and> (\<forall>d \<in> set (c # ds). next_cluster (fat fs' (unat d)) = 0) \<and>
    avail (memman fs') = avail (memman fs) \<union> (\<Union>d \<in> set (c # ds). clu_range fs d) \<and> cell fs' = cell fs \<and>
    (\<forall>d. d \<notin> set (c # ds) \<longrightarrow> fat fs' (unat d) = fat fs (unat d))"
  using assms
proof (induction ds arbitrary: fs c K nxt)
  case Nil
  have n: "next_cluster (fat fs (unat c)) = MAX_UNSIGNED_INT" using Nil.prems(2) by simp
  have r: "frees (memman fs) < MEMMAN_FREES" using Nil.prems(6) by simp
  from free_clu_step[OF Nil.prems(1) _ _ Nil.prems(5) r, of c] Nil.prems(3,4)
  obtain fs' where s: "free_clu_loop fs c nxt = free_clu_loop fs' MAX_UNSIGNED_INT MAX_UNSIGNED_INT"
    "clusters_ok fs' (K - {c})" "same_on (K - {c}) fs fs'" "next_cluster (fat fs' (unat c)) = 0"
    "avail (memman fs') = avail (memman fs) \<union> clu_range fs c" "cell fs' = cell fs"
    "\<forall>d. d \<noteq> c \<longrightarrow> fat fs' (unat d) = fat fs (unat d)"
    unfolding n by auto
  then show ?case by (intro exI[of _ fs']) (simp add: free_clu_loop.simps[of fs' MAX_UNSIGNED_INT MAX_UNSIGNED_INT])
next
  case (Cons d ds)
  have n: "next_cluster (fat fs (unat c)) = d" "chain fs d (d # ds)" using Cons.prems(2) by simp_all
  have dc: "c \<notin> set (d # ds)" using chain_distinct[OF Cons.prems(2)] by simp
  have r: "frees (memman fs) < MEMMAN_FREES" using Cons.prems(6) by simp
  from free_clu_step[OF Cons.prems(1) _ _ Cons.prems(5) r, of c] Cons.prems(3,4)
  obtain fs1 where s: "free_clu_loop fs c nxt = free_clu_loop fs1 d d"
    "clusters_ok fs1 (K - {c})" "same_on (K - {c}) fs fs1" "next_cluster (fat fs1 (unat c)) = 0"
    "avail (memman fs1) = avail (memman fs) \<union> clu_range fs c" "frees (memman fs1) \<le> frees (memman fs) + 1"
    "cell fs1 = cell fs" "\<forall>e. e \<noteq> c \<longrightarrow> fat fs1 (unat e) = fat fs (unat e)"
    unfolding n(1) by auto
  have sub: "set (d # ds) \<subseteq> K - {c}" using Cons.prems(3) dc by auto
  have ch: "chain fs1 d (d # ds)" by (rule same_on_chain[OF s(3) n(2) sub])
  have dn: "d \<noteq> MAX_UNSIGNED_INT" using chain_bound[OF n(2), of d] clu_not_MAX by auto
  have rng: "clu_range fs1 e = clu_range fs e" if "e \<in> set (d # ds)" for e
    using s(8) that dc by (auto simp: clu_range_def clu_addr_def)
  have fr: "frees (memman fs1) + length ds < MEMMAN_FREES" using s(6) Cons.prems(6) by simp
  from Cons.IH[OF s(2) ch sub _ dn fr] Cons.prems(4)
  obtain fs' where t: "free_clu_loop fs1 d d = Some fs'" "clusters_ok fs' (K - {c} - set (d # ds))"
    "same_on (K - {c} - set (d # ds)) fs1 fs'" "\<forall>e \<in> set (d # ds). next_cluster (fat fs' (unat e)) = 0"
    "avail (memman fs') = avail (memman fs1) \<union> (\<Union>e \<in> set (d # ds). clu_range fs1 e)" "cell fs' = cell fs1"
    "\<forall>e. e \<notin> set (d # ds) \<longrightarrow> fat fs' (unat e) = fat fs1 (unat e)"
    by auto
  have set: "K - {c} - set (d # ds) = K - set (c # d # ds)" by auto
  have "next_cluster (fat fs' (unat c)) = 0" using t(7) dc s(4) by simp
  moreover have "avail (memman fs') = avail (memman fs) \<union> (\<Union>e \<in> set (c # d # ds). clu_range fs e)"
    using t(5) s(5) rng by auto
  moreover have "same_on (K - set (c # d # ds)) fs fs'"
    by (rule same_on_trans[OF same_on_mono[OF s(3)] t(3)[unfolded set]]) auto
  ultimately show ?case using s(1,7,8) t set by (intro exI[of _ fs']) auto
qed

subsection \<open>The table's operations\<close>

text \<open>A small state for the examples: the root and one more cluster in use.\<close>

definition demo_man :: MEMMAN where
  "demo_man = \<lparr>frees = 2, maxfrees = 2, lostsize = 0, losts = 0,
     free = (\<lambda>i. if i = 0 then \<lparr>fi_addr = KWALL, fi_size = 0x10000\<rparr> else \<lparr>fi_addr = 0x1010000, fi_size = 0x100000\<rparr>)\<rparr>"

definition demo_fs :: ramfs where
  "demo_fs = \<lparr>fat = (\<lambda>i. if i = 0 then \<lparr>next_cluster = MAX_UNSIGNED_INT, rf_addr = K_PHY2LIN 0x1000000\<rparr>
       else if i = 1 then \<lparr>next_cluster = MAX_UNSIGNED_INT, rf_addr = K_PHY2LIN 0x1001000\<rparr>
       else \<lparr>next_cluster = 0, rf_addr = 0\<rparr>),
     fat_below = \<lparr>next_cluster = 0, rf_addr = 0\<rparr>, page = (\<lambda>_ _. 0), cell = (\<lambda>_. 0), memman = demo_man\<rparr>"

lemma demo_man_ok: "memman_ok demo_man"
  by (simp add: demo_man_def memman_ok_def blocks_def memman_consts b_hi_def b_lo_def upt_rec)

lemma demo_avail: "avail demo_man = {0x600000..<0x610000} \<union> {0x1010000..<0x1110000}"
  by (simp add: demo_man_def avail_def blocks_def memman_consts b_hi_def b_lo_def upt_rec)

lemma demo_fs_ok: "clusters_ok demo_fs {0, 1}"
  by (auto simp: clusters_ok_def demo_man_ok demo_avail demo_fs_def RAM_FS_NR_CLU_def clu_range_def clu_addr_def
      addr_range_def MAX_UNSIGNED_INT_def)

lemma demo_malloc: "\<exists>m. do_malloc_4k demo_man = (m, 0x1010000)"
proof -
  have "frees demo_man = Suc (Suc 0)" by (simp add: demo_man_def)
  then show ?thesis
    unfolding do_defs memman_alloc_4k_def by (simp only: alloc_loop.simps) (simp add: demo_man_def memman_consts)
qed

text \<open>C33. A new cluster is the first free entry of the table; it gets a zeroed page that no cluster in
  use has, and nothing that is in use changes.\<close>

theorem new_cluster_is_fresh:
  assumes "clusters_ok fs K" "rf_find_first_free_alloc fs = Some (fs', r)" "0 \<le> r"
  shows "(of_int r :: u32) \<notin> K \<and> clusters_ok fs' (insert (of_int r) K) \<and> same_on K fs fs' \<and> cell fs' = cell fs \<and>
    chain fs' (of_int r) [of_int r] \<and> file_data fs' [of_int r] = replicate 4096 0 \<and>
    {j. j < nat r \<and> next_cluster (fat fs j) = 0} = {}"
proof (cases rule: rf_find_first_free_alloc_spec[of fs])
  case (found fs2 r2)
  then have eq: "fs2 = fs'" "r2 = r" using assms(2) by simp_all
  from found(4) have n: "new_clu fs (of_int r) fs'" unfolding eq .
  show ?thesis
    using new_clu_ok[OF assms(1) n] n found(5)[unfolded eq]
    by (auto simp: new_clu_def RAM_FS_CLUSTER_SIZE_def)
next
  case (full fs2)
  then show ?thesis using assms(2,3) by (simp add: ENOMEM_def)
qed

theorem new_cluster_is_fresh_witness:
  "\<exists>fs' r. rf_find_first_free_alloc demo_fs = Some (fs', r) \<and> r = 2 \<and> clusters_ok fs' (insert 2 {0, 1})"
proof (cases rule: rf_find_first_free_alloc_spec[of demo_fs])
  case (found fs' r)
  have "\<not> 2 < nat r" using found(5) by (auto simp: demo_fs_def)
  moreover have "(of_int r :: u32) \<notin> {0, 1}" using new_cluster_is_fresh[OF demo_fs_ok found(1,2)] by simp
  then have "r \<noteq> 0" "r \<noteq> 1" by auto
  ultimately have "r = 2" using found(2) by linarith
  then show ?thesis using new_cluster_is_fresh[OF demo_fs_ok found(1,2)] found(1) by auto
next
  case (full fs')
  obtain m where "do_malloc_4k demo_man = (m, 0x1010000)" using demo_malloc by blast
  then have no: "\<not> lost_clu demo_fs fs'" by (auto simp: lost_clu_def demo_fs_def)
  with full have "rf_find_first_free_alloc demo_fs = Some (demo_fs, - ENOMEM)" by simp
  moreover have "\<exists>fs' r. find_free_loop demo_fs 0 8192 = Some (fs', r) \<and> r \<noteq> - ENOMEM"
  proof -
    have n: "(8192 :: nat) = Suc (Suc (Suc 8189))" by simp
    have d: "next_cluster (fat demo_fs 0) \<noteq> 0" "next_cluster (fat demo_fs (0 + 1)) \<noteq> 0"
        "next_cluster (fat demo_fs (0 + 1 + 1)) = 0"
      by (simp_all add: demo_fs_def MAX_UNSIGNED_INT_def)
    obtain fs1 where "rf_alloc_clu demo_fs (of_nat (0 + 1 + 1)) = Some (fs1, 0)"
      using \<open>do_malloc_4k demo_man = (m, 0x1010000)\<close>
      by (simp add: rf_alloc_clu_def set_next_def set_addr_def RAM_FS_NR_CLU_def demo_fs_def)
    then show ?thesis unfolding n find_free_loop.simps using d by (simp add: ENOMEM_def)
  qed
  ultimately show ?thesis by (auto simp: rf_find_first_free_alloc_def RAM_FS_NR_CLU_def)
qed

text \<open>C34. When there is no page left, the search marks the first free entry as the end of a chain before
  it asks for the page, and fails: the entry is lost, it is neither free nor part of a file.\<close>

theorem failed_alloc_loses_entry:
  assumes "memman_ok (memman fs)" "do_malloc_4k (memman fs) = (m, - 1)" "i < RAM_FS_NR_CLU"
    "next_cluster (fat fs i) = 0" "list_all (\<lambda>j. next_cluster (fat fs j) \<noteq> 0) [0..<i]"
  shows "\<exists>fs'. rf_find_first_free_alloc fs = Some (fs', - ENOMEM) \<and>
    fat fs' = (fat fs)(i := (fat fs i)\<lparr>next_cluster := MAX_UNSIGNED_INT\<rparr>) \<and> memman fs' = memman fs"
proof -
  have mm: "m = memman fs" using malloc_4k_failed assms(1,2) by blast
  let ?r = "Some (fs\<lparr>fat := (fat fs)(i := (fat fs i)\<lparr>next_cluster := MAX_UNSIGNED_INT\<rparr>), memman := m\<rparr>, - ENOMEM)"
  have "find_free_loop fs j n = ?r" if "j + n = RAM_FS_NR_CLU" "j \<le> i" for j n
    using that
  proof (induction n arbitrary: j)
    case 0
    with assms(3) show ?case by simp
  next
    case (Suc n)
    show ?case
    proof (cases "j = i")
      case True
      have u: "unat (of_nat i :: u32) = i" using assms(3) by (rule word_of_nat_clu)
      show ?thesis
        using True assms(2,3,4) by (simp add: rf_alloc_clu_def set_next_def u Let_def fun_upd_def)
    next
      case False
      then have "next_cluster (fat fs j) \<noteq> 0" using assms(5) Suc.prems by (simp add: list_all_iff)
      with Suc False show ?thesis by simp
    qed
  qed
  from this[of 0 RAM_FS_NR_CLU] show ?thesis by (simp add: rf_find_first_free_alloc_def mm)
qed

theorem failed_alloc_loses_entry_witness:
  "\<exists>fs'. rf_find_first_free_alloc (demo_fs\<lparr>memman := one_block\<rparr>) = Some (fs', - ENOMEM) \<and>
    next_cluster (fat fs' 2) = MAX_UNSIGNED_INT"
proof -
  have "do_malloc_4k one_block = (one_block, - 1)"
    by (simp add: do_defs memman_alloc_4k_def one_block_def memman_consts)
  from failed_alloc_loses_entry[of "demo_fs\<lparr>memman := one_block\<rparr>" one_block 2] this one_block_ok show ?thesis
    by (auto simp: demo_fs_def RAM_FS_NR_CLU_def MAX_UNSIGNED_INT_def upt_rec)
qed

text \<open>C32. Freeing a chain frees every cluster of it and gives every page back to the memory manager, and
  touches no other cluster.\<close>

theorem free_chain_gives_back:
  assumes "clusters_ok fs K" "chain fs c cs" "cs \<noteq> []" "set cs \<subseteq> K" "0 \<notin> set cs"
    "frees (memman fs) + length cs \<le> MEMMAN_FREES"
  shows "\<exists>fs'. rf_free_clu fs c = Some fs' \<and> clusters_ok fs' (K - set cs) \<and> same_on (K - set cs) fs fs' \<and>
    list_all (\<lambda>d. next_cluster (fat fs' (unat d)) = 0) cs \<and> cell fs' = cell fs \<and>
    avail (memman fs') = avail (memman fs) \<union> (\<Union>d \<in> set cs. clu_range fs d)"
proof -
  obtain ds where cs: "cs = c # ds" using assms(2,3) by (cases cs) auto
  have z: "(0 :: u32) \<noteq> MAX_UNSIGNED_INT" by (simp add: MAX_UNSIGNED_INT_def)
  have "frees (memman fs) + length ds < MEMMAN_FREES" using assms(6) cs by simp
  from free_clu_loop_spec[OF assms(1) assms(2,4,5)[unfolded cs] z this] show ?thesis
    unfolding cs rf_free_clu_def by (auto simp: list_all_iff)
qed

theorem free_chain_gives_back_witness:
  "\<exists>fs'. rf_free_clu demo_fs 1 = Some fs' \<and> next_cluster (fat fs' 1) = 0 \<and>
    avail (memman fs') = avail demo_man \<union> {0x1001000..<0x1002000}"
proof -
  have "chain demo_fs 1 [1]" by (simp add: demo_fs_def RAM_FS_NR_CLU_def)
  moreover have "frees (memman demo_fs) + length [1] \<le> MEMMAN_FREES"
    by (simp add: demo_fs_def demo_man_def MEMMAN_FREES_def)
  ultimately obtain fs' where "rf_free_clu demo_fs 1 = Some fs'" "next_cluster (fat fs' 1) = 0"
      "avail (memman fs') = avail (memman demo_fs) \<union> clu_range demo_fs 1"
    using free_chain_gives_back[OF demo_fs_ok, of 1 "[1]"] by auto
  moreover have "memman demo_fs = demo_man" "clu_range demo_fs 1 = {0x1001000..<0x1002000}"
    by (simp_all add: demo_fs_def clu_range_def clu_addr_def addr_range_def)
  ultimately show ?thesis by auto
qed

end

