(* ===== verification/RamDir.thy ===== *)
theory RamDir
  imports RamFat
begin

text \<open>
  Directories of the RAM file system, the second part of \<^verbatim>\<open>kernel/ramfs.c\<close> (\<^verbatim>\<open>init_dir_record\<close> to
  \<^verbatim>\<open>find_path\<close>): a directory is a page of records, a path is followed from the root cluster 0.

  \<^verbatim>\<open>NULL\<close> as a pointer to a record is \<open>None\<close>; the outer \<open>option\<close> of a result is the one of the
  computations, so that a search that fails returns \<open>Some (fs, None)\<close>.
\<close>

definition O_CREAT :: int where "O_CREAT = 1"
definition O_RDWR :: int where "O_RDWR = 2"

text \<open>\<open>flag & O_CREAT\<close>\<close>

definition has_flag :: "int \<Rightarrow> int \<Rightarrow> bool" where
  "has_flag flags f \<longleftrightarrow> flags AND f \<noteq> 0"

definition init_dir_record :: "'a ramfs_scheme \<Rightarrow> u32 \<Rightarrow> p_rf_inode option \<Rightarrow> 'a ramfs_scheme option" where
  "init_dir_record fs dir_clu parent_rec = do {
     e \<leftarrow> fat_at fs dir_clu;
     let rec = (rf_addr e, 0);
     let fs = rf_set_name fs rec (lit ''.'');
     let fs = rf_set fs rec record_type RF_D;
     (fs, ps) \<leftarrow> kmalloc_cell fs;
     let fs = rf_set fs rec p_size ps;
     (fs, pl) \<leftarrow> kmalloc_cell fs;
     let fs = rf_set fs rec p_link_cnt pl;
     let fs = set_cell fs (rf_get fs rec p_size) (of_nat sizeof_rf_inode);
     let fs = set_cell fs (rf_get fs rec p_link_cnt) 0;
     let fs = rf_set fs rec start_cluster dir_clu;
     case parent_rec of
       None \<Rightarrow> Some fs
     | Some parent_rec \<Rightarrow>
         let fs = set_cell fs (rf_get fs rec p_size) (cell fs (rf_get fs rec p_size) + of_nat sizeof_rf_inode);
             rec = (fst rec, snd rec + 1);
             fs = rf_set_name fs rec (lit ''..'');
             fs = rf_set fs rec record_type RF_D;
             fs = rf_set fs rec p_size (rf_get fs parent_rec p_size);
             fs = rf_set fs rec start_cluster (rf_get fs parent_rec start_cluster);
             fs = rf_set fs rec p_link_cnt (rf_get fs parent_rec p_link_cnt)
         in Some fs
   }"

text \<open>
  The search for a free record. \<open>rec\<close> stays the page of the first cluster, also after the loop has
  put a new cluster behind the directory and started again at record 0; the result is the record
  index and the cluster the loop stopped at.
\<close>

partial_function (option) free_rec_loop ::
  "'a ramfs_scheme \<Rightarrow> u32 \<Rightarrow> u32 \<Rightarrow> nat \<Rightarrow> ('a ramfs_scheme \<times> (nat \<times> u32) option) option" where
  "free_rec_loop fs pg dir_clu i =
     (if i < RF_NR_REC then
        if rf_get fs (pg, i) record_type = RF_NONE then Some (fs, Some (i, dir_clu))
        else if i + 1 = RF_NR_REC then do {
          (fs, inew) \<leftarrow> rf_find_first_free_alloc fs;
          if inew < 0 then Some (fs, None)
          else do {
            fs \<leftarrow> set_next fs dir_clu (of_int inew);
            free_rec_loop fs pg (of_int inew) 0
          }
        }
        else free_rec_loop fs pg dir_clu (i + 1)
      else Some (fs, Some (i, dir_clu)))"

definition fill_from :: "'a ramfs_scheme \<Rightarrow> p_rf_inode \<Rightarrow> p_rf_inode \<Rightarrow> 'a ramfs_scheme" where
  "fill_from fs rec p_fa =
     (let fs = rf_set fs rec record_type (rf_get fs p_fa record_type);
          fs = rf_set fs rec start_cluster (rf_get fs p_fa start_cluster);
          fs = rf_set fs rec p_size (rf_get fs p_fa p_size)
      in rf_set fs rec p_link_cnt (rf_get fs p_fa p_link_cnt))"

definition fill_file :: "'a ramfs_scheme \<Rightarrow> p_rf_inode \<Rightarrow> u32 \<Rightarrow> 'a ramfs_scheme option" where
  "fill_file fs rec entClu = do {
     (fs, ps) \<leftarrow> kmalloc_cell fs;
     let fs = rf_set fs rec p_size ps;
     let fs = set_cell fs (rf_get fs rec p_size) 0;
     let fs = rf_set fs rec open_cnt 0;
     (fs, pl) \<leftarrow> kmalloc_cell fs;
     let fs = rf_set fs rec p_link_cnt pl;
     let fs = set_cell fs (rf_get fs rec p_link_cnt) 0;
     Some (rf_set fs rec start_cluster entClu)
   }"

definition fill_dir :: "'a ramfs_scheme \<Rightarrow> p_rf_inode \<Rightarrow> p_rf_inode \<Rightarrow> u32 \<Rightarrow> 'a ramfs_scheme option" where
  "fill_dir fs dot rec entClu = do {
     fs \<leftarrow> init_dir_record fs entClu (Some dot);
     (fs, ps) \<leftarrow> kmalloc_cell fs;
     let fs = rf_set fs rec p_size ps;
     n \<leftarrow> check_dir_size fs entClu;
     let fs = set_cell fs (rf_get fs rec p_size) n;
     (fs, pl) \<leftarrow> kmalloc_cell fs;
     let fs = rf_set fs rec p_link_cnt pl;
     let fs = set_cell fs (rf_get fs rec p_link_cnt) 0;
     let fs = rf_set fs rec open_cnt 0;
     Some (rf_set fs rec start_cluster entClu)
   }"

definition rf_write_record :: "'a ramfs_scheme \<Rightarrow> p_rf_inode option \<Rightarrow> u8 list \<Rightarrow> u32 \<Rightarrow> u32 \<Rightarrow>
    p_rf_inode option \<Rightarrow> ('a ramfs_scheme \<times> p_rf_inode option) option" where
  "rf_write_record fs dir_rec name entClu type p_fa = do {
     let dir_clu = (case dir_rec of None \<Rightarrow> 0 | Some d \<Rightarrow> rf_get fs d start_cluster);
     e \<leftarrow> fat_at fs dir_clu;
     let pg = rf_addr e;
     (fs, found) \<leftarrow> free_rec_loop fs pg dir_clu 0;
     case found of
       None \<Rightarrow> Some (fs, None)
     | Some (i, dir_clu) \<Rightarrow> do {
         let fs = rf_set_name fs (pg, i) name;
         let fs = rf_set fs (pg, i) record_type type;
         new_size \<leftarrow> check_dir_size fs dir_clu;
         let fs = set_cell fs (rf_get fs (pg, 0) p_size) new_size;
         fs \<leftarrow> (case p_fa of
              Some p_fa \<Rightarrow> Some (fill_from fs (pg, i) p_fa)
            | None \<Rightarrow>
                if type = RF_F then fill_file fs (pg, i) entClu
                else if type = RF_D then fill_dir fs (pg, 0) (pg, i) entClu
                else Some fs);
         let fs = (case dir_rec of None \<Rightarrow> fs | Some d \<Rightarrow> set_cell fs (rf_get fs d p_size) new_size);
         Some (fs, Some (pg, i))
       }
   }"

text \<open>The table's address is not part of the model: \<open>init_ram_fs\<close> starts from its contents.\<close>

definition init_ram_fs :: "'a ramfs_scheme \<Rightarrow> 'a ramfs_scheme option" where
  "init_ram_fs fs = do {
     let (m, a) = do_kmalloc (memman fs) (8 * of_nat RAM_FS_NR_CLU);
     if a = - 1 then None else do {
       (fs, r) \<leftarrow> rf_alloc_clu (fs\<lparr>memman := m\<rparr>) 0;
       init_dir_record fs 0 None
     }
   }"

subsection \<open>Following a path\<close>

text \<open>
  What the scan of the records of a directory comes to: the loop ran to its end, it found the
  directory the next component names, or it returned.
\<close>

datatype scan_result = NotHere | Enter p_rf_inode u32 | Return "p_rf_inode option"

definition refresh_dir_size :: "'a ramfs_scheme \<Rightarrow> p_rf_inode \<Rightarrow> 'a ramfs_scheme option" where
  "refresh_dir_size fs p = do {
     n \<leftarrow> check_dir_size fs (rf_get fs p start_cluster);
     Some (set_cell fs (rf_get fs p p_size) n)
   }"

fun scan_loop :: "'a ramfs_scheme \<Rightarrow> u32 \<Rightarrow> u8 list \<Rightarrow> bool \<Rightarrow> u32 \<Rightarrow> nat \<Rightarrow> nat \<Rightarrow>
    ('a ramfs_scheme \<times> scan_result) option" where
  "scan_loop fs pg ent_name deeper find_type i 0 = Some (fs, NotHere)"
| "scan_loop fs pg ent_name deeper find_type i (Suc n) =
     (let t = rf_get fs (pg, i) record_type in
      if t = RF_NONE then scan_loop fs pg ent_name deeper find_type (i + 1) n
      else do {
        r \<leftarrow> strcmp (rf_name fs (pg, i)) (cstr ent_name);
        if deeper \<and> t = RF_D \<and> r = 0 then do {
          fs \<leftarrow> refresh_dir_size fs (pg, i);
          Some (fs, Enter (pg, i) (rf_get fs (pg, i) start_cluster))
        }
        else if \<not> deeper \<and> r = 0 then
          if t = find_type then do {
            fs \<leftarrow> (if t = RF_D then refresh_dir_size fs (pg, i) else Some fs);
            Some (fs, Return (Some (pg, i)))
          }
          else Some (fs, Return None)
        else scan_loop fs pg ent_name deeper find_type (i + 1) n
      })"

text \<open>The next component: the bytes up to a slash, in a buffer of \<open>RF_MX_ENT_NAME\<close> bytes.\<close>

definition slash :: u8 where "slash = 0x2F"

definition next_ent :: "u8 list \<Rightarrow> nat \<Rightarrow> u8 list option" where
  "next_ent path pathpos = (let e = takeWhile (\<lambda>c. c \<noteq> slash) (drop pathpos path) in
     if length e < RF_MX_ENT_NAME then Some e else None)"

partial_function (option) find_path_loop :: "'a ramfs_scheme \<Rightarrow> u8 list \<Rightarrow> p_rf_inode option \<Rightarrow> u32 \<Rightarrow> nat \<Rightarrow>
    int \<Rightarrow> u32 \<Rightarrow> p_rf_inode option \<Rightarrow> ('a ramfs_scheme \<times> p_rf_inode option) option" where
  "find_path_loop fs path dir_rec dir_clu pathpos flag find_type p_fa =
     (if pathpos < length path then do {
        ent_name \<leftarrow> next_ent path pathpos;
        let pathpos = pathpos + length ent_name;
        e \<leftarrow> fat_at fs dir_clu;
        (fs, r) \<leftarrow> scan_loop fs (rf_addr e) ent_name (pathpos < length path) find_type 0 RF_NR_REC;
        case r of
          Return p \<Rightarrow> Some (fs, p)
        | Enter d clu \<Rightarrow> find_path_loop fs path (Some d) clu (pathpos + 1) flag find_type p_fa
        | NotHere \<Rightarrow>
            if pathpos < length path then do {
              e \<leftarrow> fat_at fs dir_clu;
              if next_cluster e = MAX_UNSIGNED_INT then Some (fs, None)
              else find_path_loop fs path dir_rec (next_cluster e) pathpos flag find_type p_fa
            }
            else if has_flag flag O_CREAT then do {
              (fs, inew) \<leftarrow> rf_find_first_free_alloc fs;
              if inew < 0 then Some (fs, None)
              else rf_write_record fs dir_rec ent_name (of_int inew) find_type p_fa
            }
            else Some (fs, None)
      }
      else Some (fs, None))"

definition find_path :: "'a ramfs_scheme \<Rightarrow> u8 list \<Rightarrow> p_rf_inode option \<Rightarrow> int \<Rightarrow> u32 \<Rightarrow> p_rf_inode option \<Rightarrow>
    ('a ramfs_scheme \<times> p_rf_inode option) option" where
  "find_path fs path dir_rec flag find_type p_fa =
     (let dir_clu = (case dir_rec of None \<Rightarrow> 0 | Some d \<Rightarrow> rf_get fs d start_cluster)
      in find_path_loop fs path dir_rec dir_clu 0 flag find_type p_fa)"

declare free_rec_loop.simps [code] and find_path_loop.simps [code]

subsection \<open>Fields and names of inodes\<close>

lemma field_off_bounds: "128 \<le> field_off f" "field_off f + 4 \<le> sizeof_rf_inode"
  by (cases f; simp add: sizeof_rf_inode_def)+

lemma field_off_apart: "f \<noteq> g \<Longrightarrow> field_off f + 4 \<le> field_off g \<or> field_off g + 4 \<le> field_off f"
  by (cases f; cases g) simp_all

lemma rec_apart: "i \<noteq> j \<Longrightarrow> sizeof_rf_inode * i + sizeof_rf_inode \<le> sizeof_rf_inode * j \<or>
    sizeof_rf_inode * j + sizeof_rf_inode \<le> sizeof_rf_inode * (i :: nat)"
  by (metis add.commute mult_Suc_right mult_le_mono2 not_less_eq_eq nat_le_linear le_neq_implies_less Suc_leI)

lemma rf_get_set [simp]: "rf_get (rf_set fs p f w) q g = (if q = p \<and> g = f then w else rf_get fs q g)"
proof -
  obtain a i where p: "p = (a, i)" by force
  obtain b j where q: "q = (b, j)" by force
  consider "b \<noteq> a" | "b = a" "j = i" "g = f" | "b = a" "j = i" "g \<noteq> f" | "b = a" "j \<noteq> i" by blast
  then show ?thesis
  proof cases
    case 3
    then show ?thesis
      using field_off_apart[of g f] by (auto simp: rf_get_def rf_set_def p q block_simps)
  next
    case 4
    then have "sizeof_rf_inode * i + field_off f + 4 \<le> sizeof_rf_inode * j + field_off g \<or>
        sizeof_rf_inode * j + field_off g + 4 \<le> sizeof_rf_inode * i + field_off f"
      using rec_apart[of i j] field_off_bounds[of f] field_off_bounds[of g] by auto
    with 4 show ?thesis by (simp add: rf_get_def rf_set_def p q block_simps)
  qed (simp_all add: rf_get_def rf_set_def p q block_simps)
qed

lemma rf_get_set_name [simp]:
  assumes "length xs < RF_MX_ENT_NAME"
  shows "rf_get (rf_set_name fs p xs) q g = rf_get fs q g"
proof -
  obtain a i where p: "p = (a, i)" by force
  obtain b j where q: "q = (b, j)" by force
  have "sizeof_rf_inode * i + length (xs @ [0 :: u8]) \<le> sizeof_rf_inode * j + field_off g \<or>
      sizeof_rf_inode * j + field_off g + 4 \<le> sizeof_rf_inode * i"
    using assms rec_apart[of i j] field_off_bounds[of g]
    by (cases "i = j") (auto simp: RF_MX_ENT_NAME_def sizeof_rf_inode_def)
  then show ?thesis by (simp add: rf_get_def rf_set_name_def p q block_simps)
qed

lemma rf_get_misc [simp]:
  "rf_get (set_cell fs a w) = rf_get fs" "rf_get (fs\<lparr>memman := m\<rparr>) = rf_get fs"
  "rf_name (set_cell fs a w) = rf_name fs" "rf_name (fs\<lparr>memman := m\<rparr>) = rf_name fs"
  by (simp_all add: rf_get_def rf_name_def set_cell_def fun_eq_iff)

text \<open>The names of an inode, as the comparison sees them.\<close>

lemma rf_name_set:
  assumes "k < RF_MX_ENT_NAME"
  shows "rf_name (rf_set fs p f w) q k = rf_name fs q k"
proof -
  obtain a i where p: "p = (a, i)" by force
  obtain b j where q: "q = (b, j)" by force
  have "sizeof_rf_inode * j + k < sizeof_rf_inode * i + field_off f \<or>
      sizeof_rf_inode * i + field_off f + 4 \<le> sizeof_rf_inode * j + k"
    using assms rec_apart[of i j] field_off_bounds[of f]
    by (cases "i = j") (auto simp: RF_MX_ENT_NAME_def sizeof_rf_inode_def)
  then show ?thesis by (simp add: rf_name_def rf_set_def p q block_simps)
qed

lemma rf_name_set_name_other:
  assumes "k < RF_MX_ENT_NAME" "length xs < RF_MX_ENT_NAME" "q \<noteq> p"
  shows "rf_name (rf_set_name fs p xs) q k = rf_name fs q k"
proof -
  obtain a i where p: "p = (a, i)" by force
  obtain b j where q: "q = (b, j)" by force
  show ?thesis
  proof (cases "b = a")
    case True
    with assms(3) have "i \<noteq> j" by (simp add: p q)
    then have "sizeof_rf_inode * j + k < sizeof_rf_inode * i \<or>
        sizeof_rf_inode * i + length (xs @ [0 :: u8]) \<le> sizeof_rf_inode * j + k"
      using assms(1,2) rec_apart[of i j] by (auto simp: RF_MX_ENT_NAME_def sizeof_rf_inode_def)
    with True show ?thesis by (simp add: rf_name_def rf_set_name_def p q block_simps)
  qed (simp add: rf_name_def rf_set_name_def p q)
qed

lemma holds_str_name_cong:
  assumes "\<And>k. k < RF_MX_ENT_NAME \<Longrightarrow> rf_name fs' q k = rf_name fs q k" "length e < RF_MX_ENT_NAME"
  shows "holds_str (rf_name fs' q) 0 e \<longleftrightarrow> holds_str (rf_name fs q) 0 e"
proof -
  show ?thesis
    using holds_str_cong[of e "rf_name fs' q" 0 "rf_name fs q" 0] holds_str_cong[of e "rf_name fs q" 0 "rf_name fs' q" 0]
      assms by auto
qed

lemma name_set [simp]:
  "length e < RF_MX_ENT_NAME \<Longrightarrow> holds_str (rf_name (rf_set fs p f w) q) 0 e \<longleftrightarrow> holds_str (rf_name fs q) 0 e"
  by (rule holds_str_name_cong) (simp_all add: rf_name_set)

lemma name_set_name:
  assumes "length e < RF_MX_ENT_NAME" "length xs < RF_MX_ENT_NAME" "0 \<notin> set xs"
  shows "holds_str (rf_name (rf_set_name fs p xs) q) 0 e \<longleftrightarrow> (if q = p then e = xs else holds_str (rf_name fs q) 0 e)"
proof (cases "q = p")
  case True
  have "holds_str (rf_name (rf_set_name fs p xs) p) 0 xs"
    using holds_str_cong[OF _ holds_str_store[OF assms(3), of "page fs (fst p)" "sizeof_rf_inode * snd p"],
        of "rf_name (rf_set_name fs p xs) p" 0]
    by (simp add: rf_name_def rf_set_name_def)
  with True show ?thesis using holds_str_unique by auto
next
  case False
  then show ?thesis using assms by (simp add: holds_str_name_cong[OF rf_name_set_name_other])
qed

lemma rf_set_core [simp]:
  "fat (rf_set fs p f w) = fat fs" "cell (rf_set fs p f w) = cell fs" "memman (rf_set fs p f w) = memman fs"
  "fat_below (rf_set fs p f w) = fat_below fs" "ramfs.more (rf_set fs p f w) = ramfs.more fs"
  "fat (rf_set_name fs p xs) = fat fs" "cell (rf_set_name fs p xs) = cell fs" "memman (rf_set_name fs p xs) = memman fs"
  "fat_below (rf_set_name fs p xs) = fat_below fs" "ramfs.more (rf_set_name fs p xs) = ramfs.more fs"
  "fat (set_cell fs a v) = fat fs" "memman (set_cell fs a v) = memman fs" "page (set_cell fs a v) = page fs"
  "fat_below (set_cell fs a v) = fat_below fs" "ramfs.more (set_cell fs a v) = ramfs.more fs"
  "cell (set_cell fs a v) = (cell fs)(a := v)"
  by (simp_all add: rf_set_def rf_set_name_def set_cell_def)

subsection \<open>A search changes sizes only\<close>

text \<open>\<open>cells_only fs fs'\<close>: apart from words that hold sizes and counts the two states are equal.\<close>

definition cells_only :: "'a ramfs_scheme \<Rightarrow> 'a ramfs_scheme \<Rightarrow> bool" where
  "cells_only fs fs' \<longleftrightarrow> fs' = fs\<lparr>cell := cell fs'\<rparr>"

lemma cells_only_refl [simp]: "cells_only fs fs"
  by (simp add: cells_only_def)

lemma cells_onlyD:
  assumes "cells_only fs fs'"
  shows "fat fs' = fat fs" "page fs' = page fs" "memman fs' = memman fs" "fat_below fs' = fat_below fs"
    "ramfs.more fs' = ramfs.more fs" "rf_get fs' = rf_get fs" "fat_at fs' = fat_at fs" "rf_name fs' = rf_name fs"
proof -
  have eq: "fs' = fs\<lparr>cell := cell fs'\<rparr>" using assms by (simp add: cells_only_def)
  show "fat fs' = fat fs" "page fs' = page fs" "memman fs' = memman fs" "fat_below fs' = fat_below fs"
    "ramfs.more fs' = ramfs.more fs"
    by (subst eq, simp)+
  then show "rf_get fs' = rf_get fs" "fat_at fs' = fat_at fs" "rf_name fs' = rf_name fs"
    by (auto simp: rf_get_def fat_at_def rf_name_def intro!: ext)
qed

lemma cells_only_trans: "cells_only fs fs' \<Longrightarrow> cells_only fs' fs'' \<Longrightarrow> cells_only fs fs''"
  unfolding cells_only_def by (metis ramfs.fold_congs(4) ramfs.surjective ramfs.update_convs(4))

lemma cells_only_set_cell [simp]: "cells_only fs (set_cell fs a w)"
  by (simp add: cells_only_def set_cell_def)

lemma refresh_cells_only: "refresh_dir_size fs p = Some fs' \<Longrightarrow> cells_only fs fs'"
  by (auto simp: refresh_dir_size_def Option.bind_eq_Some_conv)

lemma scan_loop_cells_only:
  "scan_loop fs pg e deeper t i n = Some (fs', r) \<Longrightarrow> cells_only fs fs'"
  by (induction n arbitrary: i)
    (auto simp: Let_def Option.bind_eq_Some_conv refresh_cells_only split: if_splits)

lemma find_path_loop_cells_only:
  assumes "find_path_loop fs path dir_rec dir_clu pathpos flag t p_fa = Some (fs', r)" "\<not> has_flag flag O_CREAT"
  shows "cells_only fs fs'"
proof -
  have "\<not> has_flag flag O_CREAT \<longrightarrow> cells_only fs (fst (fs', r))"
  proof (rule find_path_loop.raw_induct[where P = "\<lambda>fs path dir_rec dir_clu pathpos flag t p_fa x.
        \<not> has_flag flag O_CREAT \<longrightarrow> cells_only fs (fst x)", OF _ assms(1)], intro impI)
    fix find :: "'a ramfs_scheme \<Rightarrow> u8 list \<Rightarrow> p_rf_inode option \<Rightarrow> u32 \<Rightarrow> nat \<Rightarrow> int \<Rightarrow> u32 \<Rightarrow> p_rf_inode option \<Rightarrow>
        ('a ramfs_scheme \<times> p_rf_inode option) option"
      and fs :: "'a ramfs_scheme" and path dir_rec dir_clu pathpos flag t p_fa x
    assume IH: "\<And>fs path dir_rec dir_clu pathpos flag t p_fa x.
        find fs path dir_rec dir_clu pathpos flag t p_fa = Some x \<Longrightarrow>
        \<not> has_flag flag O_CREAT \<longrightarrow> cells_only fs (fst x)"
      and nc: "\<not> has_flag flag O_CREAT"
      and eq: "(if pathpos < length path then do {
        ent_name \<leftarrow> next_ent path pathpos;
        let pathpos = pathpos + length ent_name;
        e \<leftarrow> fat_at fs dir_clu;
        (fs, r) \<leftarrow> scan_loop fs (rf_addr e) ent_name (pathpos < length path) t 0 RF_NR_REC;
        case r of
          Return p \<Rightarrow> Some (fs, p)
        | Enter d clu \<Rightarrow> find fs path (Some d) clu (pathpos + 1) flag t p_fa
        | NotHere \<Rightarrow>
            if pathpos < length path then do {
              e \<leftarrow> fat_at fs dir_clu;
              if next_cluster e = MAX_UNSIGNED_INT then Some (fs, None)
              else find fs path dir_rec (next_cluster e) pathpos flag t p_fa
            }
            else if has_flag flag O_CREAT then do {
              (fs, inew) \<leftarrow> rf_find_first_free_alloc fs;
              if inew < 0 then Some (fs, None)
              else rf_write_record fs dir_rec ent_name (of_int inew) t p_fa
            }
            else Some (fs, None)
      }
      else Some (fs, None)) = Some x"
    show "cells_only fs (fst x)"
    proof (cases "pathpos < length path")
      case False
      with eq show ?thesis by auto
    next
      case True
      obtain ent where ent: "next_ent path pathpos = Some ent" using eq True by (cases "next_ent path pathpos") auto
      obtain e where e: "fat_at fs dir_clu = Some e" using eq True ent by (cases "fat_at fs dir_clu") (auto simp: Let_def)
      define pos where "pos = pathpos + length ent"
      obtain fs1 r where sc: "scan_loop fs (rf_addr e) ent (pos < length path) t 0 RF_NR_REC = Some (fs1, r)"
        using eq True ent e by (cases "scan_loop fs (rf_addr e) ent (pos < length path) t 0 RF_NR_REC")
          (auto simp: Let_def pos_def)
      have k: "(case r of
            Return p \<Rightarrow> Some (fs1, p)
          | Enter d clu \<Rightarrow> find fs1 path (Some d) clu (pos + 1) flag t p_fa
          | NotHere \<Rightarrow>
              if pos < length path then do {
                e \<leftarrow> fat_at fs1 dir_clu;
                if next_cluster e = MAX_UNSIGNED_INT then Some (fs1, None)
                else find fs1 path dir_rec (next_cluster e) pos flag t p_fa
              }
              else if has_flag flag O_CREAT then do {
                (fs, inew) \<leftarrow> rf_find_first_free_alloc fs1;
                if inew < 0 then Some (fs, None)
                else rf_write_record fs dir_rec ent (of_int inew) t p_fa
              }
              else Some (fs1, None)) = Some x"
        using eq by (simp only: True if_True ent e Option.bind_lunit Let_def sc[unfolded pos_def] pos_def prod.case)
      note c1 = scan_loop_cells_only[OF sc]
      show ?thesis
      proof (cases r)
        case NotHere
        with k c1 nc show ?thesis
          by (auto simp: Option.bind_eq_Some_conv split: if_splits dest!: IH intro: cells_only_trans)
      next
        case (Enter d clu)
        with k have "find fs1 path (Some d) clu (pos + 1) flag t p_fa = Some x" by simp
        from IH[OF this] nc c1 show ?thesis by (blast intro: cells_only_trans)
      next
        case (Return q)
        with k c1 show ?thesis by auto
      qed
    qed
  qed
  with assms(2) show ?thesis by simp
qed

lemma find_path_cells_only:
  "find_path fs path dir_rec flag t p_fa = Some (fs', r) \<Longrightarrow> \<not> has_flag flag O_CREAT \<Longrightarrow> cells_only fs fs'"
  unfolding find_path_def Let_def by (rule find_path_loop_cells_only)

subsection \<open>What a path means\<close>

text \<open>
  The abstract search, for directories of one cluster: the first record in use with the name (and,
  on the way, of a directory), component by component.
\<close>

definition rec_named :: "'a ramfs_scheme \<Rightarrow> p_rf_inode \<Rightarrow> u8 list \<Rightarrow> bool" where
  "rec_named fs p e \<longleftrightarrow> rf_get fs p record_type \<noteq> RF_NONE \<and> holds_str (rf_name fs p) 0 e"

fun find_rec :: "'a ramfs_scheme \<Rightarrow> u32 \<Rightarrow> u8 list \<Rightarrow> bool \<Rightarrow> nat \<Rightarrow> nat \<Rightarrow> nat option" where
  "find_rec fs pg e deeper i 0 = None"
| "find_rec fs pg e deeper i (Suc n) =
     (if rec_named fs (pg, i) e \<and> (deeper \<longrightarrow> rf_get fs (pg, i) record_type = RF_D) then Some i
      else find_rec fs pg e deeper (i + 1) n)"

fun resolve :: "'a ramfs_scheme \<Rightarrow> u32 \<Rightarrow> u8 list list \<Rightarrow> u32 \<Rightarrow> p_rf_inode option" where
  "resolve fs c [] t = None"
| "resolve fs c [e] t = (case find_rec fs (clu_addr fs c) e False 0 RF_NR_REC of
      None \<Rightarrow> None
    | Some i \<Rightarrow> if rf_get fs (clu_addr fs c, i) record_type = t then Some (clu_addr fs c, i) else None)"
| "resolve fs c (e # e' # es) t = (case find_rec fs (clu_addr fs c) e True 0 RF_NR_REC of
      None \<Rightarrow> None
    | Some i \<Rightarrow> resolve fs (rf_get fs (clu_addr fs c, i) start_cluster) (e' # es) t)"

fun join_path :: "u8 list list \<Rightarrow> u8 list" where
  "join_path [] = []"
| "join_path [e] = e"
| "join_path (e # e' # es) = e @ slash # join_path (e' # es)"

text \<open>Components fit in the buffer and have no slash or zero; the last one is not empty.\<close>

definition comps_ok :: "u8 list list \<Rightarrow> bool" where
  "comps_ok es \<longleftrightarrow> es \<noteq> [] \<and> last es \<noteq> [] \<and>
     list_all (\<lambda>e. length e < RF_MX_ENT_NAME \<and> 0 \<notin> set e \<and> slash \<notin> set e) es"

text \<open>The directories \<open>D\<close> have one cluster each, and all their directories are among them.\<close>

definition dirs_ok :: "'a ramfs_scheme \<Rightarrow> u32 set \<Rightarrow> bool" where
  "dirs_ok fs D \<longleftrightarrow> 0 \<in> D \<and> (\<forall>c \<in> D. unat c < RAM_FS_NR_CLU \<and> next_cluster (fat fs (unat c)) = MAX_UNSIGNED_INT \<and>
     (\<forall>i < RF_NR_REC. rf_get fs (clu_addr fs c, i) record_type = RF_D \<longrightarrow>
        rf_get fs (clu_addr fs c, i) start_cluster \<in> D))"

lemma RF_D_not_NONE [simp]: "RF_D \<noteq> RF_NONE" "RF_F \<noteq> RF_NONE" "RF_D \<noteq> RF_F"
  "RF_NONE \<noteq> RF_D" "RF_NONE \<noteq> RF_F" "RF_F \<noteq> RF_D"
  by (simp_all add: RF_D_def RF_NONE_def RF_F_def)

lemma check_dir_size_one:
  "unat c < RAM_FS_NR_CLU \<Longrightarrow> next_cluster (fat fs (unat c)) = MAX_UNSIGNED_INT \<Longrightarrow>
    check_dir_size fs c = Some (of_nat (last_rec_loop fs (clu_addr fs c) RF_NR_REC * sizeof_rf_inode))"
  by (simp add: check_dir_size_def dir_last_clu.simps[of fs c] clu_addr_def)

lemma dirs_ok_check: "dirs_ok fs D \<Longrightarrow> c \<in> D \<Longrightarrow> \<exists>n. check_dir_size fs c = Some n"
  using check_dir_size_one unfolding dirs_ok_def by blast

lemma find_rec_Some:
  "find_rec fs pg e deeper i n = Some j \<Longrightarrow> i \<le> j \<and> j < i + n \<and> rec_named fs (pg, j) e \<and>
    (deeper \<longrightarrow> rf_get fs (pg, j) record_type = RF_D)"
  by (induction n arbitrary: i) (fastforce split: if_splits)+

text \<open>One directory.\<close>

definition scan_outcome :: "'a ramfs_scheme \<Rightarrow> u32 \<Rightarrow> u8 list \<Rightarrow> bool \<Rightarrow> u32 \<Rightarrow> nat option \<Rightarrow> scan_result" where
  "scan_outcome fs pg e deeper t r = (case r of
       None \<Rightarrow> NotHere
     | Some j \<Rightarrow> if deeper then Enter (pg, j) (rf_get fs (pg, j) start_cluster)
                else Return (if rf_get fs (pg, j) record_type = t then Some (pg, j) else None))"

lemma scan_loop_find_rec:
  assumes e: "0 \<notin> set e"
    and D: "\<And>j. j < i + n \<Longrightarrow> rf_get fs (pg, j) record_type = RF_D \<Longrightarrow>
      \<exists>k. check_dir_size fs (rf_get fs (pg, j) start_cluster) = Some k"
  shows "\<exists>fs'. scan_loop fs pg e deeper t i n = Some (fs', scan_outcome fs pg e deeper t (find_rec fs pg e deeper i n)) \<and>
    cells_only fs fs'"
  using D
proof (induction n arbitrary: i)
  case 0
  then show ?case by (simp add: scan_outcome_def)
next
  case (Suc n)
  let ?p = "(pg, i)"
  let ?t = "rf_get fs ?p record_type"
  obtain r where r: "strcmp (rf_name fs ?p) (cstr e) = Some r" "r = 0 \<longleftrightarrow> holds_str (rf_name fs ?p) 0 e"
    using strcmp_right[OF holds_str_cstr[OF e]] by blast
  have IH: "\<exists>fs'. scan_loop fs pg e deeper t (Suc i) n =
      Some (fs', scan_outcome fs pg e deeper t (find_rec fs pg e deeper (Suc i) n)) \<and> cells_only fs fs'"
    using Suc.IH[of "Suc i"] Suc.prems by simp
  have ref: "?t = RF_D \<Longrightarrow> \<exists>fs'. refresh_dir_size fs ?p = Some fs' \<and> cells_only fs fs'"
    using Suc.prems[of i] by (auto simp: refresh_dir_size_def)
  show ?case
  proof (cases "rec_named fs ?p e \<and> (deeper \<longrightarrow> ?t = RF_D)")
    case True
    then have tn: "?t \<noteq> RF_NONE" "r = 0" using r(2) by (auto simp: rec_named_def)
    show ?thesis
    proof (cases "?t = RF_D")
      case d: True
      then obtain fs' where f: "refresh_dir_size fs ?p = Some fs'" "cells_only fs fs'" using ref by blast
      show ?thesis
        using True tn d r f cells_onlyD(6)[OF f(2)] by (auto simp: scan_outcome_def)
    next
      case False
      with True have "\<not> deeper" by simp
      with False True tn r show ?thesis by (auto simp: scan_outcome_def Let_def)
    qed
  next
    case False
    then have "?t = RF_NONE \<or> (deeper \<and> (?t \<noteq> RF_D \<or> r \<noteq> 0)) \<or> (\<not> deeper \<and> r \<noteq> 0)"
      using r(2) by (auto simp: rec_named_def)
    with False IH r(1) show ?thesis by (auto simp: Let_def)
  qed
qed

lemma cells_only_find_rec: "cells_only fs fs' \<Longrightarrow> find_rec fs' pg e deeper i n = find_rec fs pg e deeper i n"
  by (induction n arbitrary: i) (auto simp: rec_named_def cells_onlyD)

lemma cells_only_resolve: "cells_only fs fs' \<Longrightarrow> resolve fs' c es t = resolve fs c es t"
proof (induction fs c es t rule: resolve.induct)
  case (2 fs c e t)
  then show ?case by (simp add: cells_only_find_rec clu_addr_def cells_onlyD split: option.split)
next
  case (3 fs c e e' es t)
  then show ?case by (simp add: cells_only_find_rec clu_addr_def cells_onlyD split: option.split)
qed simp

lemma join_path_Cons: "join_path (e # es) = (if es = [] then e else e @ slash # join_path es)"
  by (cases es) simp_all

lemma takeWhile_join: "slash \<notin> set e \<Longrightarrow> takeWhile (\<lambda>c. c \<noteq> slash) (join_path (e # es)) = e"
  by (auto simp: join_path_Cons takeWhile_append takeWhile_eq_all_conv)

lemma join_path_not_Nil: "comps_ok es \<Longrightarrow> join_path es \<noteq> []"
  by (cases es) (auto simp: comps_ok_def join_path_Cons)

lemma find_path_loop_resolve:
  assumes "dirs_ok fs D" "comps_ok es" "c \<in> D" "drop pos path = join_path es" "\<not> has_flag flg O_CREAT"
  shows "\<exists>fs'. find_path_loop fs path dr c pos flg t p_fa = Some (fs', resolve fs c es t) \<and> cells_only fs fs'"
  using assms
proof (induction es arbitrary: fs dr c pos)
  case Nil
  then show ?case by (simp add: comps_ok_def)
next
  case (Cons e es)
  note D = Cons.prems(1) and c = Cons.prems(3) and dr = Cons.prems(4)
  have e: "length e < RF_MX_ENT_NAME" "0 \<notin> set e" "slash \<notin> set e" using Cons.prems(2) by (auto simp: comps_ok_def)
  have lt: "pos < length path" using join_path_not_Nil[OF Cons.prems(2)] dr by (metis drop_all not_less)
  have ne: "next_ent path pos = Some e" using e takeWhile_join[OF e(3), of es] dr by (simp add: next_ent_def Let_def)
  have cb: "unat c < RAM_FS_NR_CLU" "next_cluster (fat fs (unat c)) = MAX_UNSIGNED_INT"
    using D c by (auto simp: dirs_ok_def)
  have len: "length path = pos + length (join_path (e # es))"
    using arg_cong[OF dr, of length] lt by simp
  then have more: "pos + length e < length path \<longleftrightarrow> es \<noteq> []" by (auto simp: join_path_Cons)
  have chk: "\<exists>k. check_dir_size fs (rf_get fs (clu_addr fs c, j) start_cluster) = Some k"
    if "j < 0 + RF_NR_REC" "rf_get fs (clu_addr fs c, j) record_type = RF_D" for j
    using D c that dirs_ok_check[OF D] unfolding dirs_ok_def by simp
  obtain fs1 where sc: "scan_loop fs (clu_addr fs c) e (es \<noteq> []) t 0 RF_NR_REC =
      Some (fs1, scan_outcome fs (clu_addr fs c) e (es \<noteq> []) t (find_rec fs (clu_addr fs c) e (es \<noteq> []) 0 RF_NR_REC))"
    and c1: "cells_only fs fs1"
    using scan_loop_find_rec[OF e(2) chk] by blast
  note cd = cells_onlyD[OF c1]
  show ?case
  proof (cases "find_rec fs (clu_addr fs c) e (es \<noteq> []) 0 RF_NR_REC")
    case None
    then have "resolve fs c (e # es) t = None" by (cases es) auto
    then show ?thesis
      using lt ne cb sc None more Cons.prems(5) c1 cd
      by (subst find_path_loop.simps) (auto simp: scan_outcome_def clu_addr_def Let_def)
  next
    case (Some j)
    show ?thesis
    proof (cases es)
      case Nil
      with Some show ?thesis
        using lt ne cb sc more c1
        by (subst find_path_loop.simps) (auto simp: scan_outcome_def clu_addr_def)
    next
      case (Cons e' es')
      let ?c = "rf_get fs (clu_addr fs c, j) start_cluster"
      have "j < RF_NR_REC" "rf_get fs (clu_addr fs c, j) record_type = RF_D"
        using find_rec_Some[OF Some] Cons by auto
      then have c': "?c \<in> D" using D c by (simp add: dirs_ok_def)
      have D1: "dirs_ok fs1 D" using D cd by (simp add: dirs_ok_def clu_addr_def)
      have dr': "drop (pos + length e + 1) path = join_path es"
      proof -
        have "drop (pos + length e + 1) path = drop (length e + 1) (drop pos path)"
          by (simp add: add.commute)
        also have "drop pos path = e @ slash # join_path es" using dr Cons by (simp add: join_path_Cons[of e])
        finally show ?thesis by simp
      qed
      have ok': "comps_ok es" using Cons.prems(2) \<open>es = e' # es'\<close> by (simp add: comps_ok_def)
      from Cons.IH[OF D1 ok' c' dr' Cons.prems(5), of "Some (clu_addr fs c, j)"] obtain fs2 where
        I: "find_path_loop fs1 path (Some (clu_addr fs c, j)) ?c (pos + length e + 1) flg t p_fa =
          Some (fs2, resolve fs1 ?c es t)" "cells_only fs1 fs2" by blast
      have "resolve fs c (e # es) t = resolve fs1 ?c es t"
        using Some Cons cells_only_resolve[OF c1] by simp
      moreover have "pos + length e < length path" using more Cons by simp
      ultimately show ?thesis
        using lt ne cb sc Some I cells_only_trans[OF c1 I(2)] Cons
        by (subst find_path_loop.simps) (simp add: scan_outcome_def clu_addr_def)
    qed
  qed
qed

text \<open>An absolute path in the file system, without its leading slash.\<close>

lemma find_path_resolve:
  assumes "dirs_ok fs D" "comps_ok es" "\<not> has_flag flg O_CREAT"
  shows "\<exists>fs'. find_path fs (join_path es) None flg t p_fa = Some (fs', resolve fs 0 es t) \<and> cells_only fs fs'"
  unfolding find_path_def Let_def option.case
  by (rule find_path_loop_resolve[OF assms(1,2) _ _ assms(3)]) (use assms(1) in \<open>auto simp: dirs_ok_def\<close>)

text \<open>C6. Without \<^verbatim>\<open>O_CREAT\<close> the search returns what the path leads to, the components taken one after
  another from the root directory, and changes nothing but the sizes it refreshes; it returns in
  every such file system.\<close>

theorem find_path_follows_path:
  assumes "dirs_ok fs D" "comps_ok es" "\<not> has_flag flg O_CREAT"
  shows "\<exists>fs'. find_path fs (join_path es) None flg t p_fa = Some (fs', resolve fs 0 es t) \<and>
    fat fs' = fat fs \<and> page fs' = page fs \<and> memman fs' = memman fs"
  using find_path_resolve[OF assms] cells_onlyD(1-3) by metis

text \<open>A root directory with a directory \<open>d\<close>, and a file \<open>f\<close> in it.\<close>

definition demo_tree :: ramfs where
  "demo_tree =
     (let p = (K_PHY2LIN 0x1000000, 0); q = (K_PHY2LIN 0x1001000, 0);
          fs = rf_set (rf_set_name demo_fs p (lit ''d'')) p record_type RF_D;
          fs = rf_set (rf_set_name (rf_set fs p start_cluster 1) q (lit ''f'')) q record_type RF_F
      in fs)"

lemma find_path_follows_path_witness:
  "\<exists>fs'. find_path demo_tree (lit ''d/f'') None O_RDWR RF_F None = Some (fs', Some (K_PHY2LIN 0x1001000, 0))"
proof -
  have a: "clu_addr demo_tree 0 = K_PHY2LIN 0x1000000" "clu_addr demo_tree 1 = K_PHY2LIN 0x1001000"
    by (simp_all add: demo_tree_def Let_def clu_addr_def demo_fs_def)
  have f: "fat demo_tree = fat demo_fs" by (simp add: demo_tree_def Let_def)
  have z: "rf_get demo_fs p g = 0" for p g by (simp add: rf_get_def demo_fs_def load32_def)
  have l: "length (lit ''d'') < RF_MX_ENT_NAME" "length (lit ''f'') < RF_MX_ENT_NAME" "0 \<notin> set (lit ''d'')" "0 \<notin> set (lit ''f'')"
    by (simp_all add: lit_def RF_MX_ENT_NAME_def)
  note g = demo_tree_def Let_def l z
  have t: "rf_get demo_tree p record_type = (if p = (K_PHY2LIN 0x1000000, 0) then RF_D
      else if p = (K_PHY2LIN 0x1001000, 0) then RF_F else RF_NONE)" for p
    by (simp add: g RF_NONE_def)
  have s: "rf_get demo_tree (K_PHY2LIN 0x1000000, 0) start_cluster = 1" by (simp add: g)
  have "dirs_ok demo_tree {0, 1}"
    by (simp add: dirs_ok_def a t s f) (simp add: demo_fs_def RAM_FS_NR_CLU_def)
  moreover have "comps_ok [lit ''d'', lit ''f'']"
    by (simp add: comps_ok_def lit_def RF_MX_ENT_NAME_def slash_def)
  moreover have "\<not> has_flag O_RDWR O_CREAT" by (simp add: has_flag_def O_CREAT_def O_RDWR_def)
  moreover have "rec_named demo_tree (K_PHY2LIN 0x1000000, 0) (lit ''d'')"
    by (simp add: rec_named_def t) (simp add: g name_set_name)
  moreover have "rec_named demo_tree (K_PHY2LIN 0x1001000, 0) (lit ''f'')"
    by (simp add: rec_named_def t) (simp add: g name_set_name)
  then have "resolve demo_tree 0 [lit ''d'', lit ''f''] RF_F = Some (K_PHY2LIN 0x1001000, 0)"
    using calculation by (simp add: a t s RF_NR_REC_def find_rec.simps(2)[where n = 26, simplified])
  ultimately show ?thesis
    using find_path_follows_path[of demo_tree "{0, 1}" "[lit ''d'', lit ''f'']" O_RDWR RF_F None]
    by (auto simp: lit_def slash_def)
qed

end
