(* ===== verification/RamCreate.thy ===== *)
theory RamCreate
  imports RamDir
begin

text \<open>
  Creating a file of the RAM file system: what \<^verbatim>\<open>rf_write_record\<close> and \<^verbatim>\<open>find_path\<close> with \<^verbatim>\<open>O_CREAT\<close> do to
  the directories.
\<close>

subsection \<open>Writing a record\<close>

lemma free_rec_loop_first:
  assumes "i < RF_NR_REC" "rf_get fs (pg, i) record_type = RF_NONE"
    "\<And>j. k \<le> j \<Longrightarrow> j < i \<Longrightarrow> rf_get fs (pg, j) record_type \<noteq> RF_NONE" "k \<le> i"
  shows "free_rec_loop fs pg c k = Some (fs, Some (i, c))"
  using assms(3,4)
proof (induction "i - k" arbitrary: k)
  case 0
  then have "k = i" by simp
  with assms(1,2) show ?case by (simp add: free_rec_loop.simps[of fs pg c i])
next
  case (Suc n)
  then have "k < i" "rf_get fs (pg, k) record_type \<noteq> RF_NONE" by auto
  moreover have "free_rec_loop fs pg c (k + 1) = Some (fs, Some (i, c))"
    using Suc.hyps(2) Suc.prems by (intro Suc.hyps(1)) auto
  ultimately show ?case using assms(1) by (simp add: free_rec_loop.simps[of fs pg c k])
qed

text \<open>The first free record of a page.\<close>

fun first_free :: "'a ramfs_scheme \<Rightarrow> u32 \<Rightarrow> nat \<Rightarrow> nat \<Rightarrow> nat option" where
  "first_free fs pg i 0 = None"
| "first_free fs pg i (Suc n) =
     (if rf_get fs (pg, i) record_type = RF_NONE then Some i else first_free fs pg (i + 1) n)"

lemma first_free_Some:
  "first_free fs pg k n = Some i \<Longrightarrow> k \<le> i \<and> i < k + n \<and> rf_get fs (pg, i) record_type = RF_NONE \<and>
    (\<forall>j. k \<le> j \<and> j < i \<longrightarrow> rf_get fs (pg, j) record_type \<noteq> RF_NONE)"
proof (induction n arbitrary: k)
  case (Suc n)
  show ?case
  proof (cases "rf_get fs (pg, k) record_type = RF_NONE")
    case False
    with Suc.prems have "first_free fs pg (k + 1) n = Some i" by simp
    from Suc.IH[OF this] False show ?thesis
      by (metis Suc_eq_plus1 Suc_leD Suc_leI add_Suc_right add_Suc le_neq_implies_less)
  qed (use Suc.prems in auto)
qed simp

lemma free_rec_loop_free:
  "first_free fs pg 0 RF_NR_REC = Some i \<Longrightarrow> free_rec_loop fs pg c 0 = Some (fs, Some (i, c))"
  using first_free_Some[of fs pg 0 RF_NR_REC i] by (intro free_rec_loop_first) auto

text \<open>\<open>rec_added fs fs' p e t c\<close>: the record \<open>p\<close> became an inode, all other records are as before.\<close>

definition rec_added :: "'a ramfs_scheme \<Rightarrow> 'a ramfs_scheme \<Rightarrow> p_rf_inode \<Rightarrow> u8 list \<Rightarrow> u32 \<Rightarrow> u32 \<Rightarrow> bool" where
  "rec_added fs fs' p e t c \<longleftrightarrow> fat fs' = fat fs \<and> ramfs.more fs' = ramfs.more fs \<and>
     (\<forall>q f. q \<noteq> p \<longrightarrow> rf_get fs' q f = rf_get fs q f) \<and>
     (\<forall>q x. length x < RF_MX_ENT_NAME \<longrightarrow> holds_str (rf_name fs' q) 0 x =
        (if q = p then x = e else holds_str (rf_name fs q) 0 x)) \<and>
     rf_get fs' p record_type = t \<and> rf_get fs' p start_cluster = c \<and> rf_get fs' p open_cnt = 0"

lemma kmalloc_cellD:
  "kmalloc_cell fs = Some (fs', a) \<Longrightarrow> \<exists>m. fs' = fs\<lparr>memman := m\<rparr> \<and> do_kmalloc (memman fs) 4 = (m, K_LIN2PHY a)"
  by (auto simp: kmalloc_cell_def Let_def split: if_splits prod.splits)

lemma fill_file_added:
  assumes "fill_file fs p c = Some fs'" "rf_get fs p record_type = t"
    "\<And>x. length x < RF_MX_ENT_NAME \<Longrightarrow> holds_str (rf_name fs p) 0 x \<longleftrightarrow> x = e"
  shows "rec_added fs fs' p e t c"
proof -
  obtain fs1 ps where 1: "kmalloc_cell fs = Some (fs1, ps)"
    using assms(1) by (cases "kmalloc_cell fs") (auto simp: fill_file_def)
  define fs2 where "fs2 = rf_set (set_cell (rf_set fs1 p p_size ps) ps 0) p open_cnt 0"
  obtain fs3 pl where 2: "kmalloc_cell fs2 = Some (fs3, pl)"
    using assms(1) 1 by (cases "kmalloc_cell fs2") (auto simp: fill_file_def fs2_def)
  have fs': "fs' = rf_set (set_cell (rf_set fs3 p p_link_cnt pl) pl 0) p start_cluster c"
    using assms(1) 1 2 by (simp add: fill_file_def fs2_def)
  obtain m1 m3 where "fs1 = fs\<lparr>memman := m1\<rparr>" "fs3 = fs2\<lparr>memman := m3\<rparr>"
    using kmalloc_cellD[OF 1] kmalloc_cellD[OF 2] by blast
  then show ?thesis using assms(2,3) unfolding rec_added_def fs' fs2_def by simp
qed

definition dir_of :: "'a ramfs_scheme \<Rightarrow> p_rf_inode option \<Rightarrow> u32" where
  "dir_of fs dr = (case dr of None \<Rightarrow> 0 | Some d \<Rightarrow> rf_get fs d start_cluster)"

lemma rec_added_trans:
  assumes "\<And>q f. rf_get fs1 q f = (if q = p \<and> f = record_type then t else rf_get fs q f)"
    "\<And>q x. length x < RF_MX_ENT_NAME \<Longrightarrow> holds_str (rf_name fs1 q) 0 x \<longleftrightarrow> (if q = p then x = e else holds_str (rf_name fs q) 0 x)"
    "fat fs1 = fat fs" "ramfs.more fs1 = ramfs.more fs" "rec_added fs1 fs' p e t c"
  shows "rec_added fs fs' p e t c"
  using assms unfolding rec_added_def by simp

lemma rf_write_record_file:
  assumes c: "dir_of fs dr = c" "unat c < RAM_FS_NR_CLU" "next_cluster (fat fs (unat c)) = MAX_UNSIGNED_INT"
    and i: "first_free fs (clu_addr fs c) 0 RF_NR_REC = Some i"
    and e: "length e < RF_MX_ENT_NAME" "0 \<notin> set e"
    and r: "rf_write_record fs dr e ent RF_F None = Some (fs', r)"
  shows "r = Some (clu_addr fs c, i) \<and> rec_added fs fs' (clu_addr fs c, i) e RF_F ent"
proof -
  let ?p = "(clu_addr fs c, i)"
  have c': "(case dr of None \<Rightarrow> 0 | Some d \<Rightarrow> rf_get fs d start_cluster) = c" using c(1) by (simp add: dir_of_def)
  have a: "rf_addr (fat fs (unat c)) = clu_addr fs c" by (simp add: clu_addr_def)
  define fs1 where "fs1 = rf_set (rf_set_name fs ?p e) ?p record_type RF_F"
  have "unat c < RAM_FS_NR_CLU" "next_cluster (fat fs1 (unat c)) = MAX_UNSIGNED_INT" using c by (simp_all add: fs1_def)
  then obtain n where n: "check_dir_size fs1 c = Some n" using check_dir_size_one by blast
  define fs2 where "fs2 = set_cell fs1 (rf_get fs1 (clu_addr fs c, 0) p_size) n"
  have "rf_write_record fs dr e ent RF_F None = do {
      fs \<leftarrow> fill_file fs2 ?p ent;
      let fs = (case dr of None \<Rightarrow> fs | Some d \<Rightarrow> set_cell fs (rf_get fs d p_size) n);
      Some (fs, Some ?p) }"
    using c(2) n[unfolded fs1_def] free_rec_loop_free[OF i] e
    by (simp add: rf_write_record_def c' a Let_def fs2_def fs1_def)
  then obtain fs3 where f: "fill_file fs2 ?p ent = Some fs3" and rr: "r = Some ?p"
      "fs' = (case dr of None \<Rightarrow> fs3 | Some d \<Rightarrow> set_cell fs3 (rf_get fs3 d p_size) n)"
    using r by (cases "fill_file fs2 ?p ent") (auto simp: Let_def)
  have nm: "holds_str (rf_name fs2 q) 0 x \<longleftrightarrow> (if q = ?p then x = e else holds_str (rf_name fs q) 0 x)"
    if "length x < RF_MX_ENT_NAME" for q x
    using that e by (simp add: fs2_def fs1_def name_set_name)
  have g: "rf_get fs2 q f = (if q = ?p \<and> f = record_type then RF_F else rf_get fs q f)" for q f
    using e by (simp add: fs2_def fs1_def)
  have "rec_added fs2 fs3 ?p e RF_F ent"
    by (rule fill_file_added[OF f]) (use nm g in auto)
  then have "rec_added fs fs3 ?p e RF_F ent"
    using rec_added_trans[of fs2 ?p RF_F fs e fs3 ent, OF g nm] by (simp add: fs2_def fs1_def)
  then show ?thesis using rr by (cases dr) (simp_all add: rec_added_def)
qed

subsection \<open>The search that creates\<close>

text \<open>The directory a path leads to before its last component.\<close>

fun resolve_parent :: "'a ramfs_scheme \<Rightarrow> u32 \<Rightarrow> u8 list list \<Rightarrow> u32 option" where
  "resolve_parent fs c [] = None"
| "resolve_parent fs c [e] = Some c"
| "resolve_parent fs c (e # e' # es) = (case find_rec fs (clu_addr fs c) e True 0 RF_NR_REC of
      None \<Rightarrow> None
    | Some i \<Rightarrow> resolve_parent fs (rf_get fs (clu_addr fs c, i) start_cluster) (e' # es))"

lemma cells_only_parent: "cells_only fs fs' \<Longrightarrow> resolve_parent fs' c es = resolve_parent fs c es"
proof (induction fs c es rule: resolve_parent.induct)
  case (3 fs c e e' es)
  then show ?case by (simp add: cells_only_find_rec clu_addr_def cells_onlyD split: option.split)
qed simp_all

lemma resolve_parent_dir: "dirs_ok fs D \<Longrightarrow> c \<in> D \<Longrightarrow> resolve_parent fs c es = Some b \<Longrightarrow> b \<in> D"
proof (induction fs c es rule: resolve_parent.induct)
  case (3 fs c e e' es)
  then obtain i where i: "find_rec fs (clu_addr fs c) e True 0 RF_NR_REC = Some i" by (auto split: option.splits)
  from find_rec_Some[OF i] 3 i show ?case by (auto simp: dirs_ok_def)
qed simp_all

text \<open>The prefix of the search, up to the last component.\<close>

lemma find_path_loop_parent:
  assumes "dirs_ok fs D" "comps_ok es" "c \<in> D" "drop pos path = join_path es" "dir_of fs dr = c"
    "resolve_parent fs c es = Some b" "fst ` set_option dr \<subseteq> clu_addr fs ` D"
  shows "\<exists>fs' dr' pos'. cells_only fs fs' \<and> dir_of fs' dr' = b \<and> drop pos' path = last es \<and>
    fst ` set_option dr' \<subseteq> clu_addr fs ` D \<and>
    find_path_loop fs path dr c pos flg t p_fa = find_path_loop fs' path dr' b pos' flg t p_fa"
  using assms
proof (induction es arbitrary: fs dr c pos)
  case Nil
  then show ?case by (simp add: comps_ok_def)
next
  case (Cons e es)
  note D = Cons.prems(1) and c = Cons.prems(3) and dr = Cons.prems(4)
  show ?case
  proof (cases es)
    case Nil
    with Cons.prems(4-7) show ?thesis by (intro exI[of _ fs] exI[of _ dr] exI[of _ pos]) simp
  next
    case (Cons e' es')
    then obtain j where j: "find_rec fs (clu_addr fs c) e True 0 RF_NR_REC = Some j"
        "resolve_parent fs (rf_get fs (clu_addr fs c, j) start_cluster) es = Some b"
      using Cons.prems(6) by (auto split: option.splits)
    have e: "length e < RF_MX_ENT_NAME" "0 \<notin> set e" "slash \<notin> set e" using Cons.prems(2) by (auto simp: comps_ok_def)
    have jp: "join_path (e # es) = e @ slash # join_path es" using Cons by (simp add: join_path_Cons[of e])
    have lt: "pos < length path" using join_path_not_Nil[OF Cons.prems(2)] dr by (metis drop_all not_less)
    have ne: "next_ent path pos = Some e" using e takeWhile_join[OF e(3), of es] dr by (simp add: next_ent_def Let_def)
    have cb: "unat c < RAM_FS_NR_CLU" using D c by (auto simp: dirs_ok_def)
    have "length path = pos + length (join_path (e # es))" using arg_cong[OF dr, of length] lt by simp
    then have more: "pos + length e < length path" by (simp add: jp)
    have chk: "\<exists>k. check_dir_size fs (rf_get fs (clu_addr fs c, j) start_cluster) = Some k"
      if "j < 0 + RF_NR_REC" "rf_get fs (clu_addr fs c, j) record_type = RF_D" for j
      using D c that dirs_ok_check[OF D] unfolding dirs_ok_def by simp
    let ?c = "rf_get fs (clu_addr fs c, j) start_cluster"
    obtain fs1 where sc: "scan_loop fs (clu_addr fs c) e True t 0 RF_NR_REC = Some (fs1, Enter (clu_addr fs c, j) ?c)"
      and c1: "cells_only fs fs1"
      using scan_loop_find_rec[where i = 0 and n = RF_NR_REC and deeper = True and t = t, OF e(2) chk] j(1) by (auto simp: scan_outcome_def)
    note cd = cells_onlyD[OF c1]
    have "?c \<in> D" using find_rec_Some[OF j(1)] D c by (auto simp: dirs_ok_def)
    moreover have "dirs_ok fs1 D" using D cd by (simp add: dirs_ok_def clu_addr_def)
    moreover have "comps_ok es" using Cons.prems(2) Cons by (simp add: comps_ok_def)
    moreover have "drop (pos + length e + 1) path = join_path es"
    proof -
      have "drop (pos + length e + 1) path = drop (length e + 1) (drop pos path)" by (simp add: add.commute)
      then show ?thesis using dr by (simp add: jp)
    qed
    moreover have "dir_of fs1 (Some (clu_addr fs c, j)) = ?c" by (simp add: dir_of_def cd)
    moreover have "clu_addr fs1 = clu_addr fs" using cd(1) by (simp add: clu_addr_def fun_eq_iff)
    moreover have "fst ` set_option (Some (clu_addr fs c, j)) \<subseteq> clu_addr fs ` D" using c by simp
    moreover have "resolve_parent fs1 ?c es = Some b" using j(2) cells_only_parent[OF c1] by simp
    ultimately obtain fs' dr' pos' where I: "cells_only fs1 fs'" "dir_of fs' dr' = b" "drop pos' path = last es"
      "fst ` set_option dr' \<subseteq> clu_addr fs ` D"
      "find_path_loop fs1 path (Some (clu_addr fs c, j)) ?c (pos + length e + 1) flg t p_fa =
        find_path_loop fs' path dr' b pos' flg t p_fa"
      using Cons.IH[of fs1] by metis
    have "find_path_loop fs path dr c pos flg t p_fa =
        find_path_loop fs1 path (Some (clu_addr fs c, j)) ?c (pos + length e + 1) flg t p_fa"
      using lt ne cb sc more by (subst find_path_loop.simps) (simp add: clu_addr_def)
    moreover have "last (e # es) = last es" using Cons by simp
    ultimately show ?thesis
      using I cells_only_trans[OF c1 I(1)] by (intro exI[of _ fs'] exI[of _ dr'] exI[of _ pos']) simp
  qed
qed

subsection \<open>What a new file does to the searches\<close>

text \<open>
  \<open>new_file fs fs' D b i e\<close>: in the directory \<open>b\<close> the free record \<open>i\<close> became a file named \<open>e\<close>; seen
  from the directories \<open>D\<close> nothing else happened.
\<close>

definition new_file :: "'a ramfs_scheme \<Rightarrow> 'a ramfs_scheme \<Rightarrow> u32 set \<Rightarrow> u32 \<Rightarrow> nat \<Rightarrow> u8 list \<Rightarrow> bool" where
  "new_file fs fs' D b i e \<longleftrightarrow> rf_get fs (clu_addr fs b, i) record_type = RF_NONE \<and>
     (\<forall>c \<in> D. fat fs' (unat c) = fat fs (unat c) \<and>
       (\<forall>j f. (c, j) \<noteq> (b, i) \<longrightarrow> rf_get fs' (clu_addr fs c, j) f = rf_get fs (clu_addr fs c, j) f) \<and>
       (\<forall>j x. length x < RF_MX_ENT_NAME \<longrightarrow> holds_str (rf_name fs' (clu_addr fs c, j)) 0 x =
          (if (c, j) = (b, i) then x = e else holds_str (rf_name fs (clu_addr fs c, j)) 0 x))) \<and>
     rf_get fs' (clu_addr fs b, i) record_type = RF_F"

lemma find_rec_cong:
  "(\<And>j. k \<le> j \<Longrightarrow> j < k + n \<Longrightarrow>
      (rec_named fs' (pg, j) e \<and> (dp \<longrightarrow> rf_get fs' (pg, j) record_type = RF_D)) =
      (rec_named fs (pg, j) e \<and> (dp \<longrightarrow> rf_get fs (pg, j) record_type = RF_D))) \<Longrightarrow>
    find_rec fs' pg e dp k n = find_rec fs pg e dp k n"
  by (induction n arbitrary: k) auto

lemma find_rec_unique:
  "(\<And>j. k \<le> j \<Longrightarrow> j < k + n \<Longrightarrow> rec_named fs (pg, j) e \<and> (dp \<longrightarrow> rf_get fs (pg, j) record_type = RF_D) \<longleftrightarrow> j = i) \<Longrightarrow>
    k \<le> i \<Longrightarrow> i < k + n \<Longrightarrow> find_rec fs pg e dp k n = Some i"
proof (induction n arbitrary: k)
  case (Suc n)
  show ?case
  proof (cases "k = i")
    case True
    with Suc.prems(1)[of k] show ?thesis by simp
  next
    case False
    with Suc.prems(1)[of k] Suc.IH[of "Suc k"] Suc.prems show ?thesis by simp
  qed
qed simp

lemma find_rec_None:
  "find_rec fs pg e dp k n = None \<longleftrightarrow> (\<forall>j. k \<le> j \<and> j < k + n \<longrightarrow>
     \<not> (rec_named fs (pg, j) e \<and> (dp \<longrightarrow> rf_get fs (pg, j) record_type = RF_D)))"
proof (induction n arbitrary: k)
  case (Suc n)
  have *: "(\<forall>j. k \<le> j \<and> j < k + Suc n \<longrightarrow> P j) \<longleftrightarrow> P k \<and> (\<forall>j. Suc k \<le> j \<and> j < Suc k + n \<longrightarrow> P j)" for P
    by (auto simp: Suc_le_eq) (metis le_neq_implies_less)
  show ?case unfolding * using Suc[of "Suc k"] by simp
qed auto

lemma new_file_named:
  assumes "new_file fs fs' D b i e" "c \<in> D" "length x < RF_MX_ENT_NAME"
  shows "rec_named fs' (clu_addr fs c, j) x = (if (c, j) = (b, i) then x = e else rec_named fs (clu_addr fs c, j) x)"
  using assms by (auto simp: new_file_def rec_named_def)

lemma new_file_find_rec:
  assumes n: "new_file fs fs' D b i e" and c: "c \<in> D" and x: "length x < RF_MX_ENT_NAME"
    and d: "dp \<or> c \<noteq> b \<or> x \<noteq> e"
  shows "find_rec fs' (clu_addr fs c) x dp 0 m = find_rec fs (clu_addr fs c) x dp 0 m"
proof (rule find_rec_cong)
  fix j
  have t: "rf_get fs' (clu_addr fs c, j) record_type = (if (c, j) = (b, i) then RF_F else rf_get fs (clu_addr fs c, j) record_type)"
    using n c by (auto simp: new_file_def)
  have o: "rf_get fs (clu_addr fs b, i) record_type = RF_NONE" using n by (simp add: new_file_def)
  show "(rec_named fs' (clu_addr fs c, j) x \<and> (dp \<longrightarrow> rf_get fs' (clu_addr fs c, j) record_type = RF_D)) =
      (rec_named fs (clu_addr fs c, j) x \<and> (dp \<longrightarrow> rf_get fs (clu_addr fs c, j) record_type = RF_D))"
    using new_file_named[OF n c x, of j] t o d by (auto simp: rec_named_def split: if_splits)
qed

lemma new_file_new:
  assumes n: "new_file fs fs' D b i e" and b: "b \<in> D" and x: "length e < RF_MX_ENT_NAME" and i: "i < m"
    and none: "find_rec fs (clu_addr fs b) e False 0 m = None"
  shows "find_rec fs' (clu_addr fs b) e False 0 m = Some i"
proof (rule find_rec_unique)
  fix j
  assume "j < 0 + m"
  with none have "\<not> rec_named fs (clu_addr fs b, j) e" by (simp add: find_rec_None)
  then show "rec_named fs' (clu_addr fs b, j) e \<and> (False \<longrightarrow> rf_get fs' (clu_addr fs b, j) record_type = RF_D) \<longleftrightarrow> j = i"
    using new_file_named[OF n b x, of j] by auto
qed (use i in auto)

lemma new_file_found:
  assumes n: "new_file fs fs' D b i e" and c: "c \<in> D" and j: "find_rec fs (clu_addr fs c) x dp 0 m = Some j"
  shows "rf_get fs' (clu_addr fs c, j) f = rf_get fs (clu_addr fs c, j) f"
proof -
  have "(c, j) \<noteq> (b, i)" using find_rec_Some[OF j] n by (auto simp: new_file_def rec_named_def)
  with n c show ?thesis by (auto simp: new_file_def)
qed

lemma new_file_resolve:
  assumes n: "new_file fs fs' D b i e" and D: "dirs_ok fs D" and b: "b \<in> D" and i: "i < RF_NR_REC"
    and e: "length e < RF_MX_ENT_NAME" and none: "find_rec fs (clu_addr fs b) e False 0 RF_NR_REC = None"
  shows "c \<in> D \<Longrightarrow> list_all (\<lambda>x. length x < RF_MX_ENT_NAME) es \<Longrightarrow>
    resolve fs' c es t = (if resolve_parent fs c es = Some b \<and> last es = e
      then if t = RF_F then Some (clu_addr fs b, i) else None else resolve fs c es t)"
  using n D b none
proof (induction fs c es t rule: resolve.induct)
  case (1 fs c t)
  then show ?case by simp
next
  case (2 fs c x t)
  note nf = 2(3)
  have a: "clu_addr fs' c = clu_addr fs c" using nf 2(1) by (simp add: new_file_def clu_addr_def)
  show ?case
  proof (cases "c = b \<and> x = e")
    case True
    moreover have "rf_get fs' (clu_addr fs b, i) record_type = RF_F" using nf by (simp add: new_file_def)
    ultimately show ?thesis using new_file_new[OF nf 2(5) e i 2(6)] a by simp
  next
    case False
    have f: "find_rec fs' (clu_addr fs c) x False 0 RF_NR_REC = find_rec fs (clu_addr fs c) x False 0 RF_NR_REC"
      using new_file_find_rec[OF nf 2(1)] 2(2) False by simp
    show ?thesis using new_file_found[OF nf 2(1)] False by (auto simp: a f split: option.splits)
  qed
next
  case (3 fs c x x' es t)
  note nf = 3(4)
  have a: "clu_addr fs' c = clu_addr fs c" using nf 3(2) by (simp add: new_file_def clu_addr_def)
  have f: "find_rec fs' (clu_addr fs c) x True 0 RF_NR_REC = find_rec fs (clu_addr fs c) x True 0 RF_NR_REC"
    using new_file_find_rec[OF nf 3(2)] 3(3) by simp
  show ?case
  proof (cases "find_rec fs (clu_addr fs c) x True 0 RF_NR_REC")
    case (Some j)
    have "rf_get fs (clu_addr fs c, j) start_cluster \<in> D"
      using find_rec_Some[OF Some] 3(2,5) by (auto simp: dirs_ok_def)
    with 3(1)[OF Some] 3(3-) Some show ?thesis by (simp add: a f new_file_found[OF nf 3(2) Some])
  qed (simp add: a f)
qed

subsection \<open>Creating a file\<close>

text \<open>\<open>words_left man\<close>: two more words can be had from \<^verbatim>\<open>do_kmalloc\<close>, for the size and the link count.\<close>

definition words_left :: "MEMMAN \<Rightarrow> bool" where
  "words_left man \<longleftrightarrow> (let (m, a) = do_kmalloc man 4; (m', a') = do_kmalloc m 4 in a \<noteq> - 1 \<and> a' \<noteq> - 1)"

lemma fill_file_returns: "words_left (memman fs) \<Longrightarrow> \<exists>fs'. fill_file fs p c = Some fs'"
  by (auto simp: words_left_def fill_file_def kmalloc_cell_def Let_def split: prod.splits)

lemma first_free_cong:
  "(\<And>j. rf_get fs' (pg, j) record_type = rf_get fs (pg, j) record_type) \<Longrightarrow> first_free fs' pg k n = first_free fs pg k n"
  by (induction n arbitrary: k) simp_all

lemma rf_write_record_returns:
  assumes c: "dir_of fs dr = c" "unat c < RAM_FS_NR_CLU" "next_cluster (fat fs (unat c)) = MAX_UNSIGNED_INT"
    and i: "first_free fs (clu_addr fs c) 0 RF_NR_REC = Some i"
    and w: "words_left (memman fs)"
  shows "\<exists>fs' r. rf_write_record fs dr e ent RF_F None = Some (fs', r)"
proof -
  let ?p = "(clu_addr fs c, i)"
  have c': "(case dr of None \<Rightarrow> 0 | Some d \<Rightarrow> rf_get fs d start_cluster) = c" using c(1) by (simp add: dir_of_def)
  have a: "rf_addr (fat fs (unat c)) = clu_addr fs c" by (simp add: clu_addr_def)
  define fs1 where "fs1 = rf_set (rf_set_name fs ?p e) ?p record_type RF_F"
  have "unat c < RAM_FS_NR_CLU" "next_cluster (fat fs1 (unat c)) = MAX_UNSIGNED_INT" using c by (simp_all add: fs1_def)
  then obtain n where n: "check_dir_size fs1 c = Some n" using check_dir_size_one by blast
  obtain fs3 where "fill_file (set_cell fs1 (rf_get fs1 (clu_addr fs c, 0) p_size) n) ?p ent = Some fs3"
    using fill_file_returns[of "set_cell fs1 (rf_get fs1 (clu_addr fs c, 0) p_size) n" ?p ent] w by (auto simp: fs1_def)
  then show ?thesis
    using c(2) n[unfolded fs1_def] free_rec_loop_free[OF i] by (simp add: rf_write_record_def c' a Let_def fs1_def)
qed

text \<open>C5. Creating a file by its path: when the parent directory exists, has no entry of that name and a
  free record, and neither clusters nor words run out, the search with \<^verbatim>\<open>O_CREAT\<close> returns the first free
  record of the parent, and from then on the path leads to that record while every other path leads
  to what it led to before.\<close>

theorem create_makes_path:
  assumes D: "dirs_ok fs D" "D \<subseteq> K" and K: "clusters_ok fs K" and es: "comps_ok es"
    and b: "resolve_parent fs 0 es = Some b"
    and none: "find_rec fs (clu_addr fs b) (last es) False 0 RF_NR_REC = None"
    and i: "first_free fs (clu_addr fs b) 0 RF_NR_REC = Some i"
    and left: "\<not> exhausted fs" "words_left (fst (do_malloc_4k (memman fs)))" and flg: "has_flag flg O_CREAT"
  shows "\<exists>fs'. find_path fs (join_path es) None flg RF_F None = Some (fs', Some (clu_addr fs b, i)) \<and>
    resolve fs' 0 es RF_F = Some (clu_addr fs b, i) \<and>
    (\<forall>es' t. comps_ok es' \<and> \<not> (resolve_parent fs 0 es' = Some b \<and> last es' = last es) \<longrightarrow>
      resolve fs' 0 es' t = resolve fs 0 es' t)"
proof -
  let ?e = "last es" and ?p = "(clu_addr fs b, i)"
  have e: "length ?e < RF_MX_ENT_NAME" "0 \<notin> set ?e" "slash \<notin> set ?e" "?e \<noteq> []" "es \<noteq> []"
    using es by (auto simp: comps_ok_def list_all_iff)
  have z: "0 \<in> D" using D by (simp add: dirs_ok_def)
  have bD: "b \<in> D" using resolve_parent_dir[OF D(1) z b] .
  then have bK: "b \<in> K" using D(2) by blast
  have bclu: "unat b < RAM_FS_NR_CLU" "next_cluster (fat fs (unat b)) = MAX_UNSIGNED_INT" using D(1) bD by (auto simp: dirs_ok_def)
  obtain fs1 dr pos where 1: "cells_only fs fs1" "dir_of fs1 dr = b" "drop pos (join_path es) = ?e"
      "fst ` set_option dr \<subseteq> clu_addr fs ` D"
      "find_path_loop fs (join_path es) None 0 0 flg RF_F None = find_path_loop fs1 (join_path es) dr b pos flg RF_F None"
    using find_path_loop_parent[OF D(1) es z _ _ b, where pos = 0 and path = "join_path es" and dr = None
        and flg = flg and t = RF_F and p_fa = None]
    by (force simp: dir_of_def[of fs None])
  note cd1 = cells_onlyD[OF 1(1)]
  have addr1: "clu_addr fs1 = clu_addr fs" using cd1(1) by (simp add: clu_addr_def fun_eq_iff)
  have D1: "dirs_ok fs1 D" using D(1) cd1 addr1 by (simp add: dirs_ok_def)
  have none1: "find_rec fs1 (clu_addr fs b) ?e False 0 RF_NR_REC = None" using none cells_only_find_rec[OF 1(1)] by simp
  obtain fs2 where sc: "scan_loop fs1 (clu_addr fs b) ?e False RF_F 0 RF_NR_REC = Some (fs2, NotHere)" and "cells_only fs1 fs2"
    using scan_loop_find_rec[OF e(2), where fs = fs1 and pg = "clu_addr fs b" and i = 0 and n = RF_NR_REC and deeper = False and t = RF_F]
      none1 D1 bD dirs_ok_check[OF D1] unfolding dirs_ok_def addr1 by (auto simp: scan_outcome_def)
  then have c2: "cells_only fs fs2" using 1(1) cells_only_trans by blast
  note cd2 = cells_onlyD[OF c2]
  have addr2: "clu_addr fs2 = clu_addr fs" using cd2(1) by (simp add: clu_addr_def fun_eq_iff)
  have K2: "clusters_ok fs2 K" using K cd2 addr2 by (simp add: clusters_ok_def clu_range_def)
  have "\<not> exhausted fs2" using left(1) cd2 by (simp add: exhausted_def)
  then obtain fs3 r where al: "rf_find_first_free_alloc fs2 = Some (fs3, r)" "0 \<le> r" and nc: "new_clu fs2 (of_int r) fs3"
    by (cases rule: rf_find_first_free_alloc_spec[of fs2]) auto
  note n = new_clu_ok[OF K2 nc, unfolded addr2 cd2]
  have fat3: "fat fs3 (unat c) = fat fs (unat c)" if "c \<in> D" for c
    using n(3) D(2) that cd2 by (auto simp: same_on_def)
  have get3: "rf_get fs3 (clu_addr fs c, j) = rf_get fs (clu_addr fs c, j)"
      "rf_name fs3 (clu_addr fs c, j) = rf_name fs (clu_addr fs c, j)" if "c \<in> D" for c j
    using n(5)[of c] D(2) that by (auto simp: rf_get_def rf_name_def intro!: ext)
  have addr3: "clu_addr fs3 b = clu_addr fs b" using fat3[OF bD] by (simp add: clu_addr_def)
  have dr3: "dir_of fs3 dr = b"
    using 1(2,4) get3 cd1(6) by (cases dr) (auto simp: dir_of_def)
  have w3: "words_left (memman fs3)" using nc left(2) cd2 by (auto simp: new_clu_def)
  have i3: "first_free fs3 (clu_addr fs3 b) 0 RF_NR_REC = Some i"
    using i first_free_cong[of fs3 "clu_addr fs b" fs] get3(1)[OF bD] by (simp add: addr3)
  have b3: "next_cluster (fat fs3 (unat b)) = MAX_UNSIGNED_INT" using bclu(2) fat3[OF bD] by simp
  obtain fs4 q where w: "rf_write_record fs3 dr ?e (of_int r) RF_F None = Some (fs4, q)"
    using rf_write_record_returns[OF dr3 bclu(1) b3 i3 w3] by blast
  have q: "q = Some ?p" "rec_added fs3 fs4 ?p ?e RF_F (of_int r)"
    using rf_write_record_file[OF dr3 bclu(1) b3 i3 e(1,2) w] by (simp_all add: addr3)
  have len: "length (join_path es) = pos + length ?e" "pos < length (join_path es)"
    using arg_cong[OF 1(3), of length] e(4) length_greater_0_conv[of ?e] unfolding length_drop by linarith+
  have tw: "takeWhile (\<lambda>c. c \<noteq> slash) ?e = ?e" using e(3) by (auto simp: takeWhile_eq_all_conv)
  have ne: "next_ent (join_path es) pos = Some ?e" using e(1) by (simp add: next_ent_def 1(3) tw Let_def)
  have "find_path fs (join_path es) None flg RF_F None = Some (fs4, Some ?p)"
    unfolding find_path_def Let_def option.case 1(5)
    using len ne sc al w q(1) bclu(1) flg cd1(1) by (subst find_path_loop.simps) (simp add: clu_addr_def)
  moreover have nf: "new_file fs fs4 D b i ?e"
    using q(2) fat3 get3 first_free_Some[OF i] clusters_ok_addr_inj[OF K] D(2) bK
    unfolding new_file_def rec_added_def by (auto 0 3)
  have "i < RF_NR_REC" using first_free_Some[OF i] by simp
  note res = new_file_resolve[OF nf D(1) bD this e(1) none z]
  have "resolve fs4 0 es' t = (if resolve_parent fs 0 es' = Some b \<and> last es' = ?e
      then if t = RF_F then Some ?p else None else resolve fs 0 es' t)" if "comps_ok es'" for es' t
    using that res[of es' t] by (auto simp: comps_ok_def list_all_iff)
  ultimately show ?thesis using b es by auto
qed

lemma create_makes_path_witness:
  "\<exists>fs'. find_path demo_fs (lit ''a'') None (O_CREAT + O_RDWR) RF_F None = Some (fs', Some (clu_addr demo_fs 0, 0)) \<and>
    resolve fs' 0 [lit ''a''] RF_F = Some (clu_addr demo_fs 0, 0)"
proof -
  have t: "rf_get demo_fs (clu_addr demo_fs 0, j) record_type = RF_NONE" for j
    by (simp add: rf_get_def demo_fs_def RF_NONE_def load32_def)
  have "dirs_ok demo_fs {0}"
    by (simp add: dirs_ok_def t) (simp add: demo_fs_def RAM_FS_NR_CLU_def)
  moreover have "comps_ok [lit ''a'']"
    by (simp add: comps_ok_def lit_def RF_MX_ENT_NAME_def slash_def)
  moreover have "find_rec demo_fs (clu_addr demo_fs 0) (last [lit ''a'']) False 0 RF_NR_REC = None"
    by (simp add: find_rec_None rec_named_def t)
  moreover have "first_free demo_fs (clu_addr demo_fs 0) 0 RF_NR_REC = Some 0"
    using first_free.simps(2)[of demo_fs "clu_addr demo_fs 0" 0 26] t by (simp add: RF_NR_REC_def)
  moreover obtain m where m: "do_malloc_4k demo_man = (m, 0x1010000)" using demo_malloc by blast
  moreover have "\<not> exhausted demo_fs"
  proof -
    have "next_cluster (fat demo_fs 2) = 0" "2 < RAM_FS_NR_CLU" by (simp_all add: demo_fs_def RAM_FS_NR_CLU_def)
    moreover have "memman demo_fs = demo_man" by (simp add: demo_fs_def)
    ultimately show ?thesis using m unfolding exhausted_def by auto
  qed
  moreover have "words_left (fst (do_malloc_4k (memman demo_fs)))"
  proof -
    have b: "blocks (memman demo_fs) = [\<lparr>fi_addr = KWALL, fi_size = 0x10000\<rparr>, \<lparr>fi_addr = 0x1010000, fi_size = 0x100000\<rparr>]"
      by (simp add: demo_fs_def demo_man_def blocks_def upt_rec)
    show ?thesis
      by (simp add: words_left_def do_defs memman_kalloc_def memman_alloc_4k_def split_beta Let_def alloc_loop_all b
          memman_consts)
  qed
  moreover have "has_flag (O_CREAT + O_RDWR) O_CREAT" by (simp add: has_flag_def O_CREAT_def O_RDWR_def)
  ultimately show ?thesis
    using create_makes_path[of demo_fs "{0}" "{0, 1}" "[lit ''a'']" 0 0 "O_CREAT + O_RDWR"] demo_fs_ok by auto
qed

end
