(* ===== verification/RamFile.thy ===== *)
theory RamFile
  imports RamDir
begin

text \<open>
  The file operations of the RAM file system, the third part of \<^verbatim>\<open>kernel/ramfs.c\<close> (\<^verbatim>\<open>rf_open\<close> to
  \<^verbatim>\<open>rf_readdir\<close>).

  To the state of the file system come the descriptor table \<^verbatim>\<open>f_desc_table\<close> and the table \<^verbatim>\<open>filp\<close> of
  the current process, whose entries are null or the index of a descriptor. A user buffer is a block
  of bytes: \<open>rf_write\<close> reads it, \<open>rf_read\<close> returns it updated; \<^verbatim>\<open>va2la\<close> of the current process is the
  identity there. The position is a C \<^verbatim>\<open>int\<close>: where adding to it would overflow the model stops.
\<close>

definition NR_FILES :: nat where "NR_FILES = 64"
definition NR_FILE_DESC :: nat where "NR_FILE_DESC = 128"
definition MAX_PATH :: nat where "MAX_PATH = 128"
definition SEEK_SET :: int where "SEEK_SET = 1"
definition SEEK_CUR :: int where "SEEK_CUR = 2"
definition SEEK_END :: int where "SEEK_END = 3"
definition VFS_INDEX_RAMFS :: int where "VFS_INDEX_RAMFS = 5"

text \<open>The union \<^verbatim>\<open>ptr_node\<close>; inodes of the disk file system and FAT32 files by their number.\<close>

datatype ptr_node = NullNode | RamNode p_rf_inode | InodeNode nat | FileNode nat

record file_desc =
  fd_mode :: int
  fd_pos :: int
  fd_node :: ptr_node
  flag :: int
  dev_index :: int

record fstate = ramfs +
  filp :: "nat option block"
  f_desc_table :: "file_desc block"

definition int_ok :: "int \<Rightarrow> bool" where
  "int_ok n \<longleftrightarrow> - (2 ^ 31) \<le> n \<and> n < 2 ^ 31"

text \<open>\<^verbatim>\<open>p_proc_current->task.filp[fd]\<close>, dereferenced; the index must be in the table.\<close>

definition fd_slot :: "'a fstate_scheme \<Rightarrow> int \<Rightarrow> nat option option" where
  "fd_slot s fd = (if 0 \<le> fd \<and> nat fd < NR_FILES then Some (filp s (nat fd)) else None)"

definition fd_desc :: "'a fstate_scheme \<Rightarrow> int \<Rightarrow> nat option" where
  "fd_desc s fd = do { slot \<leftarrow> fd_slot s fd; slot }"

definition node_ram :: "ptr_node \<Rightarrow> p_rf_inode option" where
  "node_ram n = (case n of RamNode p \<Rightarrow> Some p | _ \<Rightarrow> None)"

definition set_desc :: "'a fstate_scheme \<Rightarrow> nat \<Rightarrow> (file_desc \<Rightarrow> file_desc) \<Rightarrow> 'a fstate_scheme" where
  "set_desc s d f = s\<lparr>f_desc_table := (f_desc_table s)(d := f (f_desc_table s d))\<rparr>"

text \<open>The first free slot of \<^verbatim>\<open>filp\<close> and the first free descriptor.\<close>

fun free_fd_loop :: "'a fstate_scheme \<Rightarrow> nat \<Rightarrow> nat \<Rightarrow> nat option" where
  "free_fd_loop s i 0 = None"
| "free_fd_loop s i (Suc n) = (if filp s i = None then Some i else free_fd_loop s (i + 1) n)"

fun free_desc_loop :: "'a fstate_scheme \<Rightarrow> nat \<Rightarrow> nat \<Rightarrow> nat option" where
  "free_desc_loop s i 0 = None"
| "free_desc_loop s i (Suc n) = (if flag (f_desc_table s i) = 0 then Some i else free_desc_loop s (i + 1) n)"

definition connect_fd :: "'a fstate_scheme \<Rightarrow> nat \<Rightarrow> nat \<Rightarrow> p_rf_inode \<Rightarrow> int \<Rightarrow> 'a fstate_scheme" where
  "connect_fd s fd i p flags =
     (let s = rf_set s p open_cnt (rf_get s p open_cnt + 1);
          s = s\<lparr>filp := (filp s)(fd := Some i)\<rparr>
      in set_desc s i (\<lambda>d. d\<lparr>flag := 1, fd_node := RamNode p, dev_index := VFS_INDEX_RAMFS,
           fd_mode := flags, fd_pos := 0\<rparr>))"

text \<open>The copy of the path to a buffer of \<open>MAX_PATH\<close> bytes is not used, but it must fit.\<close>

definition rf_open :: "'a fstate_scheme \<Rightarrow> u8 list \<Rightarrow> int \<Rightarrow> ('a fstate_scheme \<times> int) option" where
  "rf_open s pathname flags =
     (if \<not> length pathname < MAX_PATH then None else
      case free_fd_loop s 0 NR_FILES of
        None \<Rightarrow> Some (s, - EMFILE)
      | Some fd \<Rightarrow>
        (case free_desc_loop s 0 NR_FILE_DESC of
           None \<Rightarrow> Some (s, - ENFILE)
         | Some i \<Rightarrow> do {
             (s, fd_ram) \<leftarrow> find_path s pathname None flags RF_F None;
             case fd_ram of
               Some p \<Rightarrow> Some (connect_fd s fd i p flags, int fd)
             | None \<Rightarrow> Some (s, - ENOENT)
           }))"

text \<open>
  \<open>fd > NR_FILES\<close> lets \<^verbatim>\<open>NR_FILES\<close> itself through, and \<^verbatim>\<open>filp\<close> is read behind its end there.
\<close>

definition rf_close :: "'a fstate_scheme \<Rightarrow> int \<Rightarrow> ('a fstate_scheme \<times> int) option" where
  "rf_close s fd =
     (if fd < 0 \<or> fd > int NR_FILES then Some (s, - 1) else do {
        slot \<leftarrow> fd_slot s fd;
        case slot of
          None \<Rightarrow> Some (s, - 1)
        | Some d \<Rightarrow> do {
            p \<leftarrow> node_ram (fd_node (f_desc_table s d));
            if rf_get s p open_cnt = 0 then Some (s, - 1)
            else
              let s = rf_set s p open_cnt (rf_get s p open_cnt - 1);
                  s = set_desc s d (\<lambda>e. e\<lparr>fd_node := NullNode, flag := 0\<rparr>)
              in Some (s\<lparr>filp := (filp s)(nat fd := None)\<rparr>, 0)
          }
      })"

subsection \<open>Reading\<close>

partial_function (option) walk_clu :: "'a ramfs_scheme \<Rightarrow> nat \<Rightarrow> nat \<Rightarrow> u32 \<Rightarrow> u32 option" where
  "walk_clu fs cnt_clu cur_nr_clu st_clu =
     (if cnt_clu \<noteq> cur_nr_clu then do {
        e \<leftarrow> fat_at fs st_clu;
        walk_clu fs (cnt_clu + 1) cur_nr_clu (next_cluster e)
      } else Some st_clu)"

text \<open>
  \<open>min(bytes_to_read, *pf_rec->p_size - cur_pos)\<close> compares unsigned words; \<open>off\<close> is the offset of
  \<^verbatim>\<open>rf_data\<close> in its page.
\<close>

partial_function (option) read_loop :: "'a ramfs_scheme \<Rightarrow> u32 \<Rightarrow> int \<Rightarrow> int \<Rightarrow> u32 \<Rightarrow> u32 \<Rightarrow> nat \<Rightarrow> bytes \<Rightarrow> nat \<Rightarrow>
    (bytes \<times> nat) option" where
  "read_loop fs sz cur_pos len st_clu pg off buf bytes_read =
     (if int bytes_read < len \<and> st_clu \<noteq> MAX_UNSIGNED_INT then do {
        let bytes_left = RAM_FS_CLUSTER_SIZE - off;
        let bytes_to_read = min bytes_left (nat len - bytes_read);
        let n = (if (of_nat bytes_to_read :: u32) < sz - of_int cur_pos then bytes_to_read
                 else unat (sz - of_int cur_pos));
        let buf = store_list buf bytes_read (load_list (page fs pg) off n);
        e \<leftarrow> fat_at fs st_clu;
        e' \<leftarrow> fat_at fs (next_cluster e);
        read_loop fs sz cur_pos len (next_cluster e) (rf_addr e') 0 buf (bytes_read + n)
      } else Some (buf, bytes_read))"

definition rf_read :: "'a fstate_scheme \<Rightarrow> int \<Rightarrow> bytes \<Rightarrow> int \<Rightarrow> ('a fstate_scheme \<times> bytes \<times> int) option" where
  "rf_read s fd buf len = do {
     d \<leftarrow> fd_desc s fd;
     if \<not> has_flag (fd_mode (f_desc_table s d)) O_RDWR then Some (s, buf, - EACCES)
     else do {
       p \<leftarrow> node_ram (fd_node (f_desc_table s d));
       let cur_pos = fd_pos (f_desc_table s d);
       let cur_nr_clu = cur_pos div int RAM_FS_CLUSTER_SIZE;
       let sz = cell s (rf_get s p p_size);
       if of_int cur_pos \<ge> sz then Some (s, buf, 0)
       else if cur_pos < 0 then None
       else do {
         st_clu \<leftarrow> walk_clu s 0 (nat cur_nr_clu) (rf_get s p start_cluster);
         e \<leftarrow> fat_at s st_clu;
         (buf, bytes_read) \<leftarrow> read_loop s sz cur_pos len st_clu (rf_addr e)
           (nat cur_pos mod RAM_FS_CLUSTER_SIZE) buf 0;
         if int bytes_read = len \<or> of_nat bytes_read = sz - of_int cur_pos then
           if int_ok (cur_pos + int bytes_read)
           then Some (set_desc s d (\<lambda>e. e\<lparr>fd_pos := cur_pos + int bytes_read\<rparr>), buf, int bytes_read)
           else None
         else None
       }
     }
   }"

subsection \<open>Writing\<close>

text \<open>The walk to the cluster of the position puts clusters behind the file as it needs them.\<close>

partial_function (option) write_walk :: "'a ramfs_scheme \<Rightarrow> u32 \<Rightarrow> nat \<Rightarrow> ('a ramfs_scheme \<times> u32 option) option" where
  "write_walk fs cluster fat_offset =
     (if cluster \<noteq> MAX_UNSIGNED_INT \<and> fat_offset \<noteq> 0 then do {
        e \<leftarrow> fat_at fs cluster;
        if next_cluster e = MAX_UNSIGNED_INT then do {
          (fs, inew) \<leftarrow> rf_find_first_free_alloc fs;
          if inew < 0 then Some (fs, None)
          else do {
            fs \<leftarrow> set_next fs cluster (of_int inew);
            e \<leftarrow> fat_at fs cluster;
            write_walk fs (next_cluster e) (fat_offset - 1)
          }
        }
        else write_walk fs (next_cluster e) (fat_offset - 1)
      } else Some (fs, Some cluster))"

text \<open>
  The loop over the clusters the buffer goes beyond. The result says whether it ended for want of
  memory, and otherwise where the rest of the buffer goes. The place in the buffer is an offset, so a buffer
  that goes round the end of the 32-bit address space is not considered.
\<close>

datatype write_result = NoSpace nat | Rest u32 u32 nat nat

partial_function (option) write_loop :: "'a ramfs_scheme \<Rightarrow> u32 \<Rightarrow> u32 \<Rightarrow> nat \<Rightarrow> bytes \<Rightarrow> nat \<Rightarrow> nat \<Rightarrow>
    ('a ramfs_scheme \<times> write_result) option" where
  "write_loop fs cluster pg off buf len bytes_write =
     (if RAM_FS_CLUSTER_SIZE < off + len - bytes_write then do {
        let pref = RAM_FS_CLUSTER_SIZE - off;
        let fs = put_page fs pg off (load_list buf bytes_write pref);
        let bytes_write = bytes_write + pref;
        e \<leftarrow> fat_at fs cluster;
        (fs, ok) \<leftarrow> (if next_cluster e = MAX_UNSIGNED_INT then do {
            (fs, inew) \<leftarrow> rf_find_first_free_alloc fs;
            if inew < 0 then Some (fs, False)
            else do { fs \<leftarrow> set_next fs cluster (of_int inew); Some (fs, True) }
          } else Some (fs, True));
        if \<not> ok then Some (fs, NoSpace bytes_write)
        else do {
          e \<leftarrow> fat_at fs cluster;
          e' \<leftarrow> fat_at fs (next_cluster e);
          write_loop fs (next_cluster e) (rf_addr e') 0 buf len bytes_write
        }
      } else Some (fs, Rest cluster pg off bytes_write))"

text \<open>\<open>if(pos > *frec->p_size) *frec->p_size = pos\<close>, an unsigned comparison.\<close>

definition grow_size :: "'a ramfs_scheme \<Rightarrow> p_rf_inode \<Rightarrow> int \<Rightarrow> 'a ramfs_scheme" where
  "grow_size fs p pos = (if of_int pos > cell fs (rf_get fs p p_size)
     then set_cell fs (rf_get fs p p_size) (of_int pos) else fs)"

definition rf_write :: "'a fstate_scheme \<Rightarrow> int \<Rightarrow> bytes \<Rightarrow> int \<Rightarrow> ('a fstate_scheme \<times> int) option" where
  "rf_write s fd buf len = do {
     d \<leftarrow> fd_desc s fd;
     if \<not> has_flag (fd_mode (f_desc_table s d)) O_RDWR then Some (s, - EACCES)
     else do {
       p \<leftarrow> node_ram (fd_node (f_desc_table s d));
       let pos = fd_pos (f_desc_table s d);
       if pos < 0 \<or> len < 0 \<or> \<not> int_ok (pos + len) then None
       else do {
         (s, cluster) \<leftarrow> write_walk s (rf_get s p start_cluster) (nat pos div RAM_FS_CLUSTER_SIZE);
         case cluster of
           None \<Rightarrow> Some (s, 0)
         | Some cluster \<Rightarrow> do {
             e \<leftarrow> fat_at s cluster;
             (s, r) \<leftarrow> write_loop s cluster (rf_addr e) (nat pos mod RAM_FS_CLUSTER_SIZE) buf (nat len) 0;
             case r of
               NoSpace bytes_write \<Rightarrow>
                 let s = set_desc s d (\<lambda>e. e\<lparr>fd_pos := fd_pos e + int bytes_write\<rparr>)
                 in Some (grow_size s p (fd_pos (f_desc_table s d)), int bytes_write)
             | Rest cluster pg off bytes_write \<Rightarrow>
                 let s = put_page s pg off (load_list buf bytes_write (nat len - bytes_write));
                     s = set_desc s d (\<lambda>e. e\<lparr>fd_pos := pos + len\<rparr>)
                 in Some (grow_size s p (pos + len), len)
           }
       }
     }
   }"

subsection \<open>Moving the position\<close>

definition rf_lseek :: "'a fstate_scheme \<Rightarrow> int \<Rightarrow> int \<Rightarrow> int \<Rightarrow> ('a fstate_scheme \<times> int) option" where
  "rf_lseek s fd offset whence = do {
     d \<leftarrow> fd_desc s fd;
     p \<leftarrow> node_ram (fd_node (f_desc_table s d));
     let pos = fd_pos (f_desc_table s d);
     let f_size = sint (cell s (rf_get s p p_size));
     let target = (if whence = SEEK_SET then Some offset
       else if whence = SEEK_CUR then Some (pos + offset)
       else if whence = SEEK_END then Some (f_size + offset) else None);
     case target of
       None \<Rightarrow> Some (s, - 1)
     | Some pos \<Rightarrow>
         if \<not> int_ok pos then None
         else if pos > f_size \<or> pos < 0 then Some (s, - 1)
         else Some (set_desc s d (\<lambda>e. e\<lparr>fd_pos := pos\<rparr>), pos)
   }"

subsection \<open>Creating, deleting and linking\<close>

definition rf_create :: "'a fstate_scheme \<Rightarrow> u8 list \<Rightarrow> ('a fstate_scheme \<times> int) option" where
  "rf_create s pathname = rf_open s pathname O_CREAT"

definition rf_create_dir :: "'a ramfs_scheme \<Rightarrow> u8 list \<Rightarrow> ('a ramfs_scheme \<times> int) option" where
  "rf_create_dir s dirname = do {
     (s, p) \<leftarrow> find_path s dirname None O_CREAT RF_D None;
     Some (s, if p \<noteq> None then 0 else - 1)
   }"

definition rf_open_dir :: "'a fstate_scheme \<Rightarrow> u8 list \<Rightarrow> ('a fstate_scheme \<times> int) option" where
  "rf_open_dir s dirname =
     (if length dirname > MAX_PATH then Some (s, - 1) else
      case free_fd_loop s 0 NR_FILES of
        None \<Rightarrow> Some (s, - EMFILE)
      | Some fd \<Rightarrow>
        (case free_desc_loop s 0 NR_FILE_DESC of
           None \<Rightarrow> Some (s, - ENFILE)
         | Some i \<Rightarrow> do {
             (s, fd_ram) \<leftarrow> find_path s dirname None O_RDWR RF_D None;
             case fd_ram of
               None \<Rightarrow> Some (s, - ENOENT)
             | Some p \<Rightarrow> Some (connect_fd s fd i p O_RDWR, int fd)
           }))"

text \<open>The two words of an inode are given back; the results of \<^verbatim>\<open>do_free\<close> are not looked at.\<close>

definition free_cells :: "'a ramfs_scheme \<Rightarrow> p_rf_inode \<Rightarrow> 'a ramfs_scheme" where
  "free_cells fs p =
     (let m = fst (do_free (memman fs) (K_LIN2PHY (rf_get fs p p_size)) 4);
          m = fst (do_free m (K_LIN2PHY (rf_get fs p p_link_cnt)) 4)
      in fs\<lparr>memman := m\<rparr>)"

definition rf_delete :: "'a ramfs_scheme \<Rightarrow> u8 list \<Rightarrow> ('a ramfs_scheme \<times> int) option" where
  "rf_delete fs filename = do {
     (fs, r) \<leftarrow> find_path fs filename None 0 RF_F None;
     case r of
       None \<Rightarrow> Some (fs, - ENOENT)
     | Some p \<Rightarrow>
         if cell fs (rf_get fs p p_link_cnt) \<ge> 1 then Some (fs, - 1)
         else if rf_get fs p open_cnt \<ge> 1 then Some (fs, - 1)
         else do {
           let fs = free_cells fs p;
           let fs = rf_set fs p record_type RF_NONE;
           fs \<leftarrow> rf_free_clu fs (rf_get fs p start_cluster);
           Some (fs, 0)
         }
   }"

definition rf_delete_dir :: "'a ramfs_scheme \<Rightarrow> u8 list \<Rightarrow> ('a ramfs_scheme \<times> int) option" where
  "rf_delete_dir fs dirname = do {
     (fs, r) \<leftarrow> find_path fs dirname None 0 RF_D None;
     case r of
       None \<Rightarrow> Some (fs, - ENOENT)
     | Some p \<Rightarrow> do {
         let fs = rf_set fs p record_type RF_NONE;
         if cell fs (rf_get fs p p_link_cnt) \<ge> 1 then Some (fs, - 1)
         else do {
           let fs = free_cells fs p;
           n \<leftarrow> check_dir_size fs (rf_get fs p start_cluster);
           if n > of_nat (2 * sizeof_rf_inode) then Some (fs, - ENOTEMPTY)
           else do {
             fs \<leftarrow> rf_free_clu fs (rf_get fs p start_cluster);
             Some (fs, 0)
           }
         }
       }
   }"

text \<open>
  \<^verbatim>\<open>*prec->p_link_cnt--\<close> decrements the pointer (by the size of a word), not the count.
\<close>

definition unlink_rec :: "'a ramfs_scheme \<Rightarrow> p_rf_inode \<Rightarrow> 'a ramfs_scheme" where
  "unlink_rec fs p =
     (let fs = rf_set fs p p_link_cnt (rf_get fs p p_link_cnt - 4)
      in rf_set fs p record_type RF_NONE)"

definition rf_unlink :: "'a ramfs_scheme \<Rightarrow> u8 list \<Rightarrow> ('a ramfs_scheme \<times> int) option" where
  "rf_unlink fs pathname = do {
     (fs, prec_f) \<leftarrow> find_path fs pathname None 0 RF_F None;
     case prec_f of
       Some p \<Rightarrow>
         if cell fs (rf_get fs p p_link_cnt) = 0 then rf_delete fs pathname
         else Some (unlink_rec fs p, 0)
     | None \<Rightarrow> do {
         (fs, prec_d) \<leftarrow> find_path fs pathname None 0 RF_D None;
         case prec_d of
           Some p \<Rightarrow>
             if cell fs (rf_get fs p p_link_cnt) = 0 then rf_delete_dir fs pathname
             else Some (unlink_rec fs p, 0)
         | None \<Rightarrow> Some (fs, - ENOENT)
       }
   }"

definition link_to :: "'a ramfs_scheme \<Rightarrow> p_rf_inode \<Rightarrow> u8 list \<Rightarrow> ('a ramfs_scheme \<times> int) option" where
  "link_to fs old newpath = do {
     (fs, r) \<leftarrow> find_path fs newpath None O_CREAT (rf_get fs old record_type) (Some old);
     case r of
       None \<Rightarrow> Some (fs, - 1)
     | Some _ \<Rightarrow>
         Some (set_cell fs (rf_get fs old p_link_cnt) (cell fs (rf_get fs old p_link_cnt) + 1), 0)
   }"

definition rf_link :: "'a ramfs_scheme \<Rightarrow> u8 list \<Rightarrow> u8 list \<Rightarrow> ('a ramfs_scheme \<times> int) option" where
  "rf_link fs oldpath newpath = do {
     (fs, old_inode_f) \<leftarrow> find_path fs oldpath None 0 RF_F None;
     case old_inode_f of
       Some old \<Rightarrow> link_to fs old newpath
     | None \<Rightarrow> do {
         (fs, old_inode_d) \<leftarrow> find_path fs oldpath None 0 RF_D None;
         case old_inode_d of
           Some old \<Rightarrow> link_to fs old newpath
         | None \<Rightarrow> Some (fs, - ENOENT)
       }
   }"

subsection \<open>Listing a directory\<close>

definition put :: "bytes \<times> nat \<Rightarrow> u8 list \<Rightarrow> bytes \<times> nat" where
  "put out xs = (store_list (fst out) (snd out) xs, snd out + length xs)"

text \<open>
  One record: \<^verbatim>\<open>tmp_buf\<close> (512 bytes) holds its 148 bytes, and the name is read from there up to a zero.
\<close>

definition list_record :: "'a ramfs_scheme \<Rightarrow> bytes \<Rightarrow> bytes \<times> nat \<Rightarrow> (bytes \<times> nat) option" where
  "list_record fs tmp_buf out =
     (let t = load32 tmp_buf (field_off record_type);
          out = (if t = RF_F then put out (lit ''file: '')
                 else if t = RF_D then put out (lit ''dir: '') else out)
      in if t = RF_F \<or> t = RF_D then do {
           n \<leftarrow> strlen tmp_buf;
           if n \<ge> 512 then None else do {
             let out = put out (load_list tmp_buf 0 n);
             let out = put out (lit '' size: '');
             let num_buf = fst (num2str (\<lambda>_. 0) (sint (cell fs (load32 tmp_buf (field_off p_size)))));
             k \<leftarrow> strlen num_buf;
             let out = put out (load_list num_buf 0 k);
             Some (put out [0x0A])
           }
         } else Some out)"

partial_function (option) readdir_loop :: "'a fstate_scheme \<Rightarrow> int \<Rightarrow> bytes \<Rightarrow> bytes \<times> nat \<Rightarrow>
    ('a fstate_scheme \<times> bytes \<times> nat) option" where
  "readdir_loop s fd tmp_buf out = do {
     (s, tmp_buf, r) \<leftarrow> rf_read s fd tmp_buf (int sizeof_rf_inode);
     if r = int sizeof_rf_inode then do {
       out \<leftarrow> list_record s tmp_buf out;
       readdir_loop s fd tmp_buf out
     }
     else Some (s, out)
   }"

text \<open>The third argument of \<^verbatim>\<open>rf_readdir\<close>, the length of the buffer, is not used.\<close>

definition rf_readdir :: "'a fstate_scheme \<Rightarrow> int \<Rightarrow> bytes \<Rightarrow> ('a fstate_scheme \<times> bytes \<times> int) option" where
  "rf_readdir s fd buf = do {
     (s, _) \<leftarrow> rf_lseek s fd 0 SEEK_SET;
     (s, buf, pos) \<leftarrow> readdir_loop s fd (\<lambda>_. 0) (buf, 0);
     Some (s, buf(pos := 0), int pos)
   }"

declare walk_clu.simps [code] and read_loop.simps [code] and write_walk.simps [code] and write_loop.simps [code] and readdir_loop.simps [code]

subsection \<open>Reading along a chain\<close>

lemma walk_clu_chain:
  "chain fs c cs \<Longrightarrow> n < length cs \<Longrightarrow> walk_clu fs k (k + n) c = Some (cs ! n)"
proof (induction n arbitrary: k c cs)
  case 0
  then show ?case by (cases cs) (simp_all add: walk_clu.simps[of fs k k c])
next
  case (Suc n)
  then obtain ds where cs: "cs = c # ds" by (cases cs) auto
  with Suc.prems have "walk_clu fs (Suc k) (Suc k + n) (next_cluster (fat fs (unat c))) = Some (ds ! n)"
    by (intro Suc.IH) auto
  then show ?case using Suc.prems cs by (simp add: walk_clu.simps[of fs k "Suc (k + n)" c])
qed

lemma read_chunk_size:
  assumes "n \<le> m" "of_nat m \<le> sz - (of_int pos :: u32)" "m < 2 ^ 32"
  shows "(if (of_nat n :: u32) < sz - of_int pos then n else unat (sz - of_int pos)) = n"
proof -
  have u: "unat (of_nat n :: u32) = n" using assms by (simp add: unsigned_of_nat take_bit_nat_eq_self)
  have "unat (of_nat m :: u32) = m" using assms by (simp add: unsigned_of_nat take_bit_nat_eq_self)
  then have "n \<le> unat (sz - of_int pos)" using assms(1,2) by (simp add: word_le_nat_alt)
  then show ?thesis using u by (auto simp: word_less_nat_alt)
qed

lemma fat_at_next:
  assumes "chain fs (next_cluster (fat fs (unat c))) ds"
  shows "\<exists>e. fat_at fs (next_cluster (fat fs (unat c))) = Some e \<and> (ds \<noteq> [] \<longrightarrow> rf_addr e = clu_addr fs (hd ds))"
  using assms by (cases ds) (auto simp: fat_at_def clu_addr_def)

lemma take_drop_load: "n \<le> k \<Longrightarrow> off + n \<le> k \<Longrightarrow> take n (drop off (load_list p 0 k)) = load_list p off n"
  by (simp add: drop_load_list take_load_list)

lemma read_loop_chain:
  assumes "chain fs c (c # ds)" "off < RAM_FS_CLUSTER_SIZE" "br \<le> m" "of_nat m \<le> sz - (of_int pos :: u32)" "m < 2 ^ 32"
    "off + (m - br) \<le> RAM_FS_CLUSTER_SIZE * Suc (length ds)"
  shows "read_loop fs sz pos (int m) c (clu_addr fs c) off buf br =
     Some (store_list buf br (take (m - br) (drop off (file_data fs (c # ds)))), m)"
  using assms
proof (induction ds arbitrary: c off buf br)
  case Nil
  show ?case
  proof (cases "br < m")
    case False
    with Nil.prems(3) show ?thesis by (simp add: read_loop.simps[of fs sz pos "int m" c])
  next
    case True
    have c: "unat c < RAM_FS_NR_CLU" "c \<noteq> MAX_UNSIGNED_INT" using Nil.prems(1) clu_not_MAX by auto
    have n: "next_cluster (fat fs (unat c)) = MAX_UNSIGNED_INT" using Nil.prems(1) by simp
    define k where "k = m - br"
    have mi: "min (RAM_FS_CLUSTER_SIZE - off) (m - br) = k" using Nil.prems(6) by (simp add: k_def)
    have ch: "(if (of_nat k :: u32) < sz - of_int pos then k else unat (sz - of_int pos)) = k"
      by (rule read_chunk_size[OF _ Nil.prems(4,5)]) (simp add: k_def)
    obtain e where e: "fat_at fs MAX_UNSIGNED_INT = Some e" by (simp add: fat_at_def)
    have "read_loop fs sz pos (int m) c (clu_addr fs c) off buf br =
        read_loop fs sz pos (int m) MAX_UNSIGNED_INT (rf_addr e) 0
          (store_list buf br (load_list (page fs (clu_addr fs c)) off k)) (br + k)"
      using c True by (simp add: read_loop.simps[of fs sz pos "int m" c] Let_def mi ch n e cong del: if_weak_cong)
    also have "\<dots> = Some (store_list buf br (load_list (page fs (clu_addr fs c)) off (m - br)), m)"
      using True by (simp add: read_loop.simps[of fs sz pos "int m" MAX_UNSIGNED_INT] k_def)
    also have "load_list (page fs (clu_addr fs c)) off (m - br) = take (m - br) (drop off (file_data fs [c]))"
      using Nil.prems(6) by (simp add: clu_data_def clu_page_def take_drop_load)
    finally show ?thesis .
  qed
next
  case (Cons d ds)
  show ?case
  proof (cases "br < m")
    case False
    with Cons.prems(3) show ?thesis by (simp add: read_loop.simps[of fs sz pos "int m" c])
  next
    case True
    have c: "unat c < RAM_FS_NR_CLU" "c \<noteq> MAX_UNSIGNED_INT" using Cons.prems(1) clu_not_MAX by auto
    have n: "next_cluster (fat fs (unat c)) = d" "chain fs d (d # ds)" using Cons.prems(1) by simp_all
    define k where "k = min (RAM_FS_CLUSTER_SIZE - off) (m - br)"
    have ch: "(if (of_nat k :: u32) < sz - of_int pos then k else unat (sz - of_int pos)) = k"
      by (rule read_chunk_size[OF _ Cons.prems(4,5)]) (simp add: k_def)
    have d: "fat_at fs d = Some (fat fs (unat d))" using n(2) by simp
    let ?buf = "store_list buf br (load_list (page fs (clu_addr fs c)) off k)"
    have "read_loop fs sz pos (int m) c (clu_addr fs c) off buf br =
        read_loop fs sz pos (int m) d (clu_addr fs d) 0 ?buf (br + k)"
      using c True by (simp add: read_loop.simps[of fs sz pos "int m" c] Let_def k_def[symmetric] ch n(1) d cong del: if_weak_cong)
        (simp add: clu_addr_def)
    also have "\<dots> = Some (store_list ?buf (br + k) (take (m - (br + k)) (drop 0 (file_data fs (d # ds)))), m)"
      using Cons.prems(2,3,6) n(2) by (intro Cons.IH[OF _ _ _ Cons.prems(4,5)]) (auto simp: k_def min_def)
    also have "\<dots> = Some (store_list buf br (take (m - br) (drop off (file_data fs (c # d # ds)))), m)"
    proof -
      have l: "load_list (page fs (clu_addr fs c)) off k = take k (drop off (clu_data fs c))"
        using Cons.prems(2) by (simp add: clu_data_def clu_page_def take_drop_load k_def)
      have "take (m - br) (drop off (clu_data fs c @ file_data fs (d # ds))) =
          take k (drop off (clu_data fs c)) @ take (m - (br + k)) (file_data fs (d # ds))"
        using Cons.prems(2) by (auto simp: k_def min_def)
      moreover have "length (take k (drop off (clu_data fs c))) = k" by (simp add: k_def)
      ultimately show ?thesis
        unfolding l drop_0 file_data_simps(2)[of fs c "d # ds"] by (simp only: store_list_append)
    qed
    finally show ?thesis .
  qed
qed

subsection \<open>Writing along a chain\<close>

text \<open>The loop with the copy of the rest that follows it: the new state and the bytes written.\<close>

definition write_end :: "'a ramfs_scheme \<Rightarrow> write_result \<Rightarrow> bytes \<Rightarrow> nat \<Rightarrow> 'a ramfs_scheme \<times> nat" where
  "write_end fs r buf m = (case r of NoSpace n \<Rightarrow> (fs, n)
     | Rest c pg off bw \<Rightarrow> (put_page fs pg off (load_list buf bw (m - bw)), m))"

text \<open>
  \<open>written fs K cs fs' K' es off xs\<close>: the file \<open>cs\<close> got the clusters \<open>es\<close> behind it and the bytes
  \<open>xs\<close> at \<open>off\<close>; nothing else in use changed.
\<close>

definition written :: "'a ramfs_scheme \<Rightarrow> u32 set \<Rightarrow> u32 list \<Rightarrow> 'a ramfs_scheme \<Rightarrow> u32 set \<Rightarrow> u32 list \<Rightarrow>
    nat \<Rightarrow> u8 list \<Rightarrow> bool" where
  "written fs K cs fs' K' es off xs \<longleftrightarrow> K' = K \<union> set es \<and> K \<inter> set es = {} \<and> clusters_ok fs' K' \<and>
     chain fs' (hd cs) (cs @ es) \<and> same_on (K - set cs) fs fs' \<and> cell fs' = cell fs \<and>
     (\<forall>c \<in> K. clu_addr fs' c = clu_addr fs c) \<and>
     file_data fs' (cs @ es) = overwrite (file_data fs cs @ replicate (RAM_FS_CLUSTER_SIZE * length es) 0) off xs"

lemma write_loop_last:
  assumes K: "clusters_ok fs K" and ch: "chain fs c (c # ds)" and sub: "set (c # ds) \<subseteq> K"
    and fit: "off + length xs \<le> RAM_FS_CLUSTER_SIZE"
  shows "written fs K (c # ds) (put_page fs (clu_addr fs c) off xs) K [] off xs"
proof -
  have c: "c \<in> K" using sub by simp
  note so = put_page_other[OF K c, of off xs]
  have "file_data (put_page fs (clu_addr fs c) off xs) ds = file_data fs ds"
    by (rule same_on_data[OF so]) (use sub chain_distinct[OF ch] in auto)
  then show ?thesis
    using K ch so fit put_page_data[OF fit, of fs c] same_on_mono[OF so, of "K - set (c # ds)"]
    by (auto simp: written_def overwrite_left)
qed

text \<open>One more cluster in front.\<close>

lemma written_Cons:
  assumes K: "clusters_ok fs K" and ch: "chain fs c (c # ds)" and sub: "set (c # ds) \<subseteq> K" and ds: "ds \<noteq> []"
    and len: "off + length as = RAM_FS_CLUSTER_SIZE"
    and w: "written (put_page fs (clu_addr fs c) off as) K ds fs' K' es 0 bs"
  shows "written fs K (c # ds) fs' K' es off (as @ bs)"
proof -
  let ?p = "put_page fs (clu_addr fs c) off as"
  note w' = w[unfolded written_def]
  have c: "c \<in> K" "c \<notin> set ds" using sub chain_distinct[OF ch] by auto
  have so: "same_on (K - {c}) fs ?p" by (rule put_page_other[OF K c(1)])
  have sp: "same_on (K - set ds) ?p fs'" using w' by blast
  have cc: "c \<in> K - set ds" using c by simp
  have fc: "fat fs' (unat c) = fat fs (unat c)" "clu_data fs' c = overwrite (clu_data fs c) off as"
    using sp cc put_page_data[of off as fs c] len by (simp_all add: same_on_def clu_data_def)
  have "hd ds = next_cluster (fat fs (unat c))" using ch ds by (cases ds) auto
  then have "chain fs' c ((c # ds) @ es)" using w' ch fc(1) by simp
  moreover have "same_on (K - set (c # ds)) fs fs'"
    by (rule same_on_trans[OF same_on_mono[OF so] same_on_mono[OF sp]]) auto
  moreover have "file_data ?p ds = file_data fs ds"
    by (rule same_on_data[OF so]) (use sub c in auto)
  then have "file_data fs' ((c # ds) @ es) =
      overwrite (file_data fs (c # ds) @ replicate (RAM_FS_CLUSTER_SIZE * length es) 0) off (as @ bs)"
    using w' fc(2) len by (simp add: overwrite_across)
  ultimately show ?thesis using w' by (auto simp: written_def)
qed

lemma written_lost:
  assumes w: "written fs K cs p K [] off xs" and sub: "set cs \<subseteq> K" and l: "lost_clu p fs'"
  shows "written fs K cs fs' K [] off xs"
proof -
  note w' = w[unfolded written_def]
  have pK: "clusters_ok p K" using w' by blast
  note lo = lost_clu_ok[OF pK l]
  have "chain fs' (hd cs) (cs @ [])" using same_on_chain[OF lo(2)] w' sub by simp
  moreover have "file_data fs' cs = file_data p cs" by (rule same_on_data[OF lo(2) sub])
  moreover have "same_on (K - set cs) fs fs'"
    by (rule same_on_trans[OF _ same_on_mono[OF lo(2)]]) (use w' in auto)
  moreover have "clu_addr fs' c = clu_addr p c" if "c \<in> K" for c
    using lo(2) that by (simp add: same_on_def clu_addr_def)
  ultimately show ?thesis using w' lo by (auto simp: written_def)
qed

text \<open>A new cluster behind the last one, and the rest written from there on.\<close>

lemma written_new:
  assumes K: "clusters_ok fs K" and ch: "chain fs c [c]" and c: "c \<in> K"
    and len: "off + length as = RAM_FS_CLUSTER_SIZE"
    and n: "new_clu (put_page fs (clu_addr fs c) off as) n fs1" and fs2: "set_next fs1 c n = Some fs2"
    and w: "written fs2 (insert n K) [n] fs' K' es 0 bs"
  shows "written fs K [c] fs' K' (n # es) off (as @ bs)"
proof -
  let ?p = "put_page fs (clu_addr fs c) off as"
  note w' = w[unfolded written_def]
  have "chain ?p c ([] @ [c])" "set ([] @ [c]) \<subseteq> K" "clusters_ok ?p K" using ch c K by simp_all
  from extend_chain[OF this(3,1,2) n] fs2
  have e: "n \<notin> K" "chain fs2 c [c, n]" "same_on (K - {c}) ?p fs2" "clu_addr fs2 c = clu_addr ?p c"
    "clu_data fs2 n = replicate RAM_FS_CLUSTER_SIZE 0" "cell fs2 = cell ?p" "clu_page fs2 c = clu_page ?p c" by auto
  have sp: "same_on K fs2 fs'" using w' e(1) by (simp add: same_on_mono)
  have so: "same_on (K - {c}) fs ?p" by (rule put_page_other[OF K c])
  have "same_on (K - set [c]) fs fs'"
    using same_on_trans[OF same_on_trans[OF so e(3)] same_on_mono[OF sp]] by auto
  moreover have "clu_data fs' c = clu_data ?p c"
    using sp c e(7) by (simp add: same_on_def clu_data_def)
  then have "clu_data fs' c = overwrite (clu_data fs c) off as" using put_page_data[of off as fs c] len by simp
  then have "file_data fs' ([c] @ n # es) =
      overwrite (file_data fs [c] @ replicate (RAM_FS_CLUSTER_SIZE * length (n # es)) 0) off (as @ bs)"
    using w' len e(5) by (simp add: overwrite_across replicate_add)
  moreover have "chain fs' (hd [c]) ([c] @ n # es)"
    using w' e(2) sp c by (simp add: same_on_def)
  moreover have "clu_addr fs' d = clu_addr fs d" if "d \<in> K" for d
    using w' e(3,4) that by (cases "d = c") (auto simp: same_on_def clu_addr_def)
  ultimately show ?thesis using w' e(1,6) by (auto simp: written_def)
qed

lemma write_loop_spec:
  assumes "clusters_ok fs K" "chain fs c (c # ds)" "set (c # ds) \<subseteq> K" "off < RAM_FS_CLUSTER_SIZE" "bw \<le> m"
  shows "\<exists>fs1 r fs' n K' es. write_loop fs c (clu_addr fs c) off buf m bw = Some (fs1, r) \<and>
    write_end fs1 r buf m = (fs', n) \<and> bw \<le> n \<and> n \<le> m \<and> (n < m \<longrightarrow> exhausted fs') \<and>
    written fs K (c # ds) fs' K' es off (load_list buf bw (n - bw))"
  using assms
proof (induction "m - bw" arbitrary: fs K c ds off bw rule: less_induct)
  case less
  note K = less.prems(1) and ch = less.prems(2) and sub = less.prems(3) and off = less.prems(4)
  have c: "c \<in> K" "unat c < RAM_FS_NR_CLU" using sub ch by auto
  define xs where "xs = load_list buf bw (RAM_FS_CLUSTER_SIZE - off)"
  define p where "p = put_page fs (clu_addr fs c) off xs"
  let ?bw = "bw + (RAM_FS_CLUSTER_SIZE - off)"
  show ?case
  proof (cases "RAM_FS_CLUSTER_SIZE < off + m - bw")
    case False
    then have "written fs K (c # ds) (put_page fs (clu_addr fs c) off (load_list buf bw (m - bw))) K [] off
        (load_list buf bw (m - bw))"
      using less.prems by (intro write_loop_last) auto
    then show ?thesis using False less.prems(5)
      by (subst write_loop.simps) (auto simp: write_end_def)
  next
    case True
    have xs: "off + length xs = RAM_FS_CLUSTER_SIZE" using off by (simp add: xs_def)
    have lt: "m - ?bw < m - bw" "?bw \<le> m" using True off by auto
    have pK: "clusters_ok p K" and pch: "chain p c (c # ds)" using K ch by (simp_all add: p_def)
    have split: "load_list buf bw (n - bw) = xs @ load_list buf ?bw (n - ?bw)" if "?bw \<le> n" for n
      using load_list_append[of buf bw "RAM_FS_CLUSTER_SIZE - off" "n - ?bw"] that by (simp add: xs_def)
    have un: "write_loop fs c (clu_addr fs c) off buf m bw = do {
        (fs, ok) \<leftarrow> (if next_cluster (fat p (unat c)) = MAX_UNSIGNED_INT then do {
            (fs, inew) \<leftarrow> rf_find_first_free_alloc p;
            if inew < 0 then Some (fs, False)
            else do { fs \<leftarrow> set_next fs c (of_int inew); Some (fs, True) }
          } else Some (p, True));
        if \<not> ok then Some (fs, NoSpace ?bw)
        else do {
          e \<leftarrow> fat_at fs c;
          e' \<leftarrow> fat_at fs (next_cluster e);
          write_loop fs (next_cluster e) (rf_addr e') 0 buf m ?bw
        }
      }"
      using True c by (subst write_loop.simps) (simp add: Let_def p_def xs_def)
    show ?thesis
    proof (cases ds)
      case (Cons d ds2)
      then have d: "next_cluster (fat p (unat c)) = d" "d \<noteq> MAX_UNSIGNED_INT" "chain p d (d # ds2)"
        using pch clu_not_MAX by auto
      have loop: "write_loop fs c (clu_addr fs c) off buf m bw = write_loop p d (clu_addr p d) 0 buf m ?bw"
        using c d by (simp add: un) (simp add: clu_addr_def)
      have "set (d # ds2) \<subseteq> K" using sub Cons by simp
      from less.hyps[OF lt(1) pK d(3) this RAM_FS_consts(4) lt(2)] obtain fs1 r fs' n K' es where
        I: "write_loop p d (clu_addr p d) 0 buf m ?bw = Some (fs1, r)" "write_end fs1 r buf m = (fs', n)"
        "?bw \<le> n" "n \<le> m" "n < m \<longrightarrow> exhausted fs'"
        "written p K (d # ds2) fs' K' es 0 (load_list buf ?bw (n - ?bw))" by auto
      have "written fs K (c # ds) fs' K' es off (xs @ load_list buf ?bw (n - ?bw))"
        by (rule written_Cons[OF K ch sub _ xs]) (use I(6) Cons p_def in auto)
      with I split[OF I(3)] show ?thesis unfolding loop by auto
    next
      case Nil
      then have d: "next_cluster (fat p (unat c)) = MAX_UNSIGNED_INT" using pch by simp
      have ch1: "chain fs c [c]" using ch Nil by simp
      show ?thesis
      proof (cases rule: rf_find_first_free_alloc_spec[of p])
        case (found fs1 r)
        have n: "new_clu p (of_int r) fs1" by (rule found(4))
        have "chain p c ([] @ [c])" "set ([] @ [c]) \<subseteq> K" using pch Nil c by simp_all
        from extend_chain[OF pK this n] obtain fs2 where
          e: "set_next fs1 c (of_int r) = Some fs2" "clusters_ok fs2 (insert (of_int r) K)"
            "chain fs2 c [c, of_int r]" "next_cluster (fat fs2 (unat c)) = of_int r" by auto
        have ch2: "chain fs2 (of_int r) [of_int r]" using e(3,4) by simp
        have loop: "write_loop fs c (clu_addr fs c) off buf m bw =
            write_loop fs2 (of_int r) (clu_addr fs2 (of_int r)) 0 buf m ?bw"
          using c d e found(1,2) ch2 by (simp add: un) (simp add: clu_addr_def)
        have "set [of_int r] \<subseteq> insert (of_int r) K" by simp
        from less.hyps[OF lt(1) e(2) ch2 this RAM_FS_consts(4) lt(2)] obtain fs3 t fs' n' K' es where
          I: "write_loop fs2 (of_int r) (clu_addr fs2 (of_int r)) 0 buf m ?bw = Some (fs3, t)"
          "write_end fs3 t buf m = (fs', n')" "?bw \<le> n'" "n' \<le> m" "n' < m \<longrightarrow> exhausted fs'"
          "written fs2 (insert (of_int r) K) [of_int r] fs' K' es 0 (load_list buf ?bw (n' - ?bw))" by auto
        have "written fs K [c] fs' K' (of_int r # es) off (xs @ load_list buf ?bw (n' - ?bw))"
          by (rule written_new[OF K ch1 c(1) xs n[unfolded p_def] e(1) I(6)])
        with I split[OF I(3)] Nil show ?thesis unfolding loop
          by (intro exI[of _ fs3] exI[of _ t] exI[of _ fs'] exI[of _ n'] exI[of _ K'] exI[of _ "of_int r # es"]) auto
      next
        case (full fs1)
        have loop: "write_loop fs c (clu_addr fs c) off buf m bw = Some (fs1, NoSpace ?bw)"
          using d full(1) by (simp add: un ENOMEM_def)
        have wp: "written fs K (c # ds) p K [] off xs"
          unfolding p_def using xs by (intro write_loop_last[OF K ch sub]) simp
        have "written fs K (c # ds) fs1 K [] off xs \<and> exhausted fs1"
          using full(2,3) wp written_lost[OF wp sub] exhausted_lost[OF full(3)] pK
          by (auto simp: clusters_ok_def)
        then show ?thesis unfolding loop using lt off
          by (auto simp: write_end_def xs_def)
      qed
    qed
  qed
qed

lemma written_refl:
  "clusters_ok fs K \<Longrightarrow> chain fs (hd cs) cs \<Longrightarrow> n \<le> RAM_FS_CLUSTER_SIZE * length cs \<Longrightarrow> written fs K cs fs K [] n []"
  by (simp add: written_def)

lemma written_nil:
  "written fs K cs fs' K' es n [] \<Longrightarrow> n \<le> RAM_FS_CLUSTER_SIZE * length (cs @ es) \<Longrightarrow>
    k \<le> RAM_FS_CLUSTER_SIZE * length (cs @ es) \<Longrightarrow> written fs K cs fs' K' es k []"
  by (auto simp: written_def distrib_left)

text \<open>The same file seen from an earlier cluster.\<close>

lemma written_shift:
  assumes ch: "chain fs c (c # ds)" and sub: "set (c # ds) \<subseteq> K" and ds: "ds \<noteq> []"
    and w: "written fs K ds fs' K' es n xs"
  shows "written fs K (c # ds) fs' K' es (RAM_FS_CLUSTER_SIZE + n) xs"
proof -
  note w' = w[unfolded written_def]
  have c: "c \<in> K - set ds" using sub chain_distinct[OF ch] by auto
  then have "fat fs' (unat c) = fat fs (unat c)" "clu_data fs' c = clu_data fs c"
    using w' by (auto simp: same_on_def clu_data_def)
  moreover have "hd ds = next_cluster (fat fs (unat c))" using ch ds by (cases ds) auto
  moreover have "same_on (K - set (c # ds)) fs fs'" using w' by (auto intro: same_on_mono)
  ultimately show ?thesis using w' ch by (auto simp: written_def overwrite_right)
qed

lemma written_prefix:
  "chain fs (hd (ps @ ds)) (ps @ ds) \<Longrightarrow> set (ps @ ds) \<subseteq> K \<Longrightarrow> ds \<noteq> [] \<Longrightarrow> written fs K ds fs' K' es n xs \<Longrightarrow>
    written fs K (ps @ ds) fs' K' es (RAM_FS_CLUSTER_SIZE * length ps + n) xs"
proof (induction ps)
  case (Cons p ps)
  then have "chain fs (hd (ps @ ds)) (ps @ ds)" by (cases "ps @ ds") auto
  with Cons have "written fs K (ps @ ds) fs' K' es (RAM_FS_CLUSTER_SIZE * length ps + n) xs" by simp
  from written_shift[OF _ _ _ this, of p] Cons.prems show ?case by (simp add: add.assoc)
qed simp

lemma written_trans:
  assumes w1: "written fs K cs fs1 K1 es1 0 []" and w2: "written fs1 K1 (cs @ es1) fs2 K2 es2 n xs"
    and sub: "set cs \<subseteq> K" and ne: "cs \<noteq> []" and fit: "n \<le> RAM_FS_CLUSTER_SIZE * length (cs @ es1)"
  shows "written fs K cs fs2 K2 (es1 @ es2) n xs"
proof -
  note w1' = w1[unfolded written_def] and w2' = w2[unfolded written_def]
  have "same_on (K - set cs) fs fs2"
    by (rule same_on_trans[OF _ same_on_mono[of "K1 - set (cs @ es1)" fs1 fs2]]) (use w1' w2' in auto)
  moreover have "file_data fs2 (cs @ es1 @ es2) =
      overwrite (file_data fs cs @ replicate (RAM_FS_CLUSTER_SIZE * length (es1 @ es2)) 0) n xs"
    using w1' w2' by (simp add: distrib_left replicate_add)
  moreover have "chain fs2 (hd cs) (cs @ es1 @ es2)" using w2' ne by simp
  moreover have "K2 = K \<union> set (es1 @ es2)" "K \<inter> set (es1 @ es2) = {}" using w1' w2' by auto
  ultimately show ?thesis using w1' w2' by (auto simp: written_def)
qed

lemma write_walk_spec:
  assumes "clusters_ok fs K" "chain fs c (c # ds)" "set (c # ds) \<subseteq> K"
  shows "\<exists>fs' r K' es. write_walk fs c k = Some (fs', r) \<and> written fs K (c # ds) fs' K' es 0 [] \<and>
    (r = None \<and> exhausted fs' \<or> k < length (c # ds @ es) \<and> r = Some ((c # ds @ es) ! k))"
  using assms
proof (induction k arbitrary: fs K c ds)
  case 0
  then show ?case
    by (intro exI[of _ fs] exI[of _ "Some c"] exI[of _ K] exI[of _ "[]"])
      (simp add: write_walk.simps[of fs c 0] written_def)
next
  case (Suc k)
  note K = Suc.prems(1) and ch = Suc.prems(2) and sub = Suc.prems(3)
  have c: "c \<in> K" "unat c < RAM_FS_NR_CLU" "c \<noteq> MAX_UNSIGNED_INT" using sub ch clu_not_MAX by auto
  show ?case
  proof (cases ds)
    case (Cons d ds2)
    then have d: "next_cluster (fat fs (unat c)) = d" "d \<noteq> MAX_UNSIGNED_INT" "chain fs d (d # ds2)"
      using ch clu_not_MAX by auto
    have "set (d # ds2) \<subseteq> K" using sub Cons by simp
    from Suc.IH[OF K d(3) this] obtain fs' r K' es where I: "write_walk fs d k = Some (fs', r)"
      "written fs K (d # ds2) fs' K' es 0 []"
      "r = None \<and> exhausted fs' \<or> k < length (d # ds2 @ es) \<and> r = Some ((d # ds2 @ es) ! k)" by blast
    have "written fs K (c # ds) fs' K' es 0 []"
      by (rule written_nil[OF written_shift[OF ch sub]]) (use I(2) Cons in auto)
    moreover have "write_walk fs c (Suc k) = Some (fs', r)"
      using c d I(1) by (simp add: write_walk.simps[of fs c "Suc k"])
    ultimately show ?thesis using I(3) Cons by auto
  next
    case Nil
    then have d: "next_cluster (fat fs (unat c)) = MAX_UNSIGNED_INT" using ch by simp
    have ch1: "chain fs c [c]" using ch Nil by simp
    show ?thesis
    proof (cases rule: rf_find_first_free_alloc_spec[of fs])
      case (found fs1 r)
      have p: "put_page fs (clu_addr fs c) RAM_FS_CLUSTER_SIZE [] = fs" by (simp add: put_page_def)
      have "chain fs c ([] @ [c])" "set ([] @ [c]) \<subseteq> K" using ch1 c by simp_all
      from extend_chain[OF K this found(4)] obtain fs2 where
        e: "set_next fs1 c (of_int r) = Some fs2" "clusters_ok fs2 (insert (of_int r) K)"
          "chain fs2 c [c, of_int r]" "next_cluster (fat fs2 (unat c)) = of_int r" by auto
      have ch2: "chain fs2 (of_int r) [of_int r]" using e(3,4) by simp
      have "set [of_int r] \<subseteq> insert (of_int r) K" by simp
      from Suc.IH[OF e(2) ch2 this] obtain fs' t K' es where
        I: "write_walk fs2 (of_int r) k = Some (fs', t)" "written fs2 (insert (of_int r) K) [of_int r] fs' K' es 0 []"
        "t = None \<and> exhausted fs' \<or> k < length (of_int r # es) \<and> t = Some ((of_int r # es) ! k)" by auto
      have "written fs K [c] fs' K' (of_int r # es) RAM_FS_CLUSTER_SIZE ([] @ [])"
        by (rule written_new[OF K ch1 c(1)]) (use found(4) e(1) I(2) p in auto)
      then have "written fs K (c # ds) fs' K' (of_int r # es) 0 []" using Nil by (auto intro: written_nil)
      moreover have "write_walk fs c (Suc k) = Some (fs', t)"
        using c d e found(1,2) I(1) by (simp add: write_walk.simps[of fs c "Suc k"])
      ultimately show ?thesis using I(3) Nil by (intro exI[of _ fs'] exI[of _ t] exI[of _ K'] exI[of _ "of_int r # es"]) auto
    next
      case (full fs1)
      have wp: "written fs K (c # ds) fs K [] 0 []" using K ch by (intro written_refl) auto
      have "written fs K (c # ds) fs1 K [] 0 [] \<and> exhausted fs1"
        using full(2,3) wp written_lost[OF wp sub] exhausted_lost[OF full(3)] K by (auto simp: clusters_ok_def)
      moreover have "write_walk fs c (Suc k) = Some (fs1, None)"
        using c d full(1) by (simp add: write_walk.simps[of fs c "Suc k"] ENOMEM_def)
      ultimately show ?thesis by auto
    qed
  qed
qed

subsection \<open>A file as a sequence of bytes\<close>

text \<open>The abstract file: the bytes of the clusters up to the size in the inode.\<close>

definition file_size :: "'a ramfs_scheme \<Rightarrow> p_rf_inode \<Rightarrow> nat" where
  "file_size s p = unat (cell s (rf_get s p p_size))"

definition file_content :: "'a ramfs_scheme \<Rightarrow> p_rf_inode \<Rightarrow> u32 list \<Rightarrow> u8 list" where
  "file_content s p cs = take (file_size s p) (file_data s cs)"

text \<open>
  A well-formed file: its inode lies in the page of a cluster that is not one of its own, its chain
  starts where the inode says, and holds at least as many bytes as the size.
\<close>

definition file_ok :: "'a ramfs_scheme \<Rightarrow> u32 set \<Rightarrow> p_rf_inode \<Rightarrow> u32 list \<Rightarrow> bool" where
  "file_ok s K p cs \<longleftrightarrow> clusters_ok s K \<and> set cs \<subseteq> K \<and> cs \<noteq> [] \<and> chain s (rf_get s p start_cluster) cs \<and>
     (\<exists>c \<in> K - set cs. fst p = clu_addr s c) \<and> file_size s p \<le> RAM_FS_CLUSTER_SIZE * length cs"

text \<open>A descriptor opened for reading and writing on the file.\<close>

definition open_on :: "'a fstate_scheme \<Rightarrow> int \<Rightarrow> nat \<Rightarrow> p_rf_inode \<Rightarrow> bool" where
  "open_on s fd d p \<longleftrightarrow> fd_desc s fd = Some d \<and> fd_node (f_desc_table s d) = RamNode p \<and>
     has_flag (fd_mode (f_desc_table s d)) O_RDWR"

lemma core_cong:
  fixes s s' :: "'a ramfs_scheme"
  assumes "fat s' = fat s" "page s' = page s" "memman s' = memman s"
  shows "clu_addr s' = clu_addr s" "clu_page s' = clu_page s" "file_data s' cs = file_data s cs"
    "chain s' c cs = chain s c cs" "clusters_ok s' K = clusters_ok s K"
    "exhausted s' = exhausted s" "rf_get s' = rf_get s"
proof -
  show a: "clu_addr s' = clu_addr s" using assms by (simp add: clu_addr_def fun_eq_iff)
  show p: "clu_page s' = clu_page s" using assms a by (simp add: clu_page_def fun_eq_iff)
  show "file_data s' cs = file_data s cs" using p by (intro file_data_cong) simp
  show "chain s' c cs = chain s c cs" using assms by (induction cs arbitrary: c) simp_all
  show "clusters_ok s' K = clusters_ok s K" using assms a by (simp add: clusters_ok_def clu_range_def)
  show "exhausted s' = exhausted s" using assms by (simp add: exhausted_def)
  show "rf_get s' = rf_get s" using assms by (intro ext) (simp add: rf_get_def)
qed

lemma rf_get_same_page: "page s' (fst p) = page s (fst p) \<Longrightarrow> rf_get s' p f = rf_get s p f"
  by (simp add: rf_get_def)

lemma set_desc_simps [simp]:
  "fat (set_desc s d f) = fat s" "page (set_desc s d f) = page s" "memman (set_desc s d f) = memman s"
  "cell (set_desc s d f) = cell s" "filp (set_desc s d f) = filp s" "fat_below (set_desc s d f) = fat_below s"
  "f_desc_table (set_desc s d f) = (f_desc_table s)(d := f (f_desc_table s d))"
  by (simp_all add: set_desc_def)

lemma set_desc_idem: "f (f_desc_table s d) = f_desc_table s d \<Longrightarrow> set_desc s d f = s"
  by (cases s) (simp add: set_desc_def fun_upd_idem)

lemma fd_pos_idem: "fd_pos (e :: file_desc) = n \<Longrightarrow> e\<lparr>fd_pos := n\<rparr> = e"
  by (cases e) simp

lemma rf_get_set_desc [simp]: "rf_get (set_desc s d f) = rf_get s"
  by (rule core_cong) simp_all

lemma grow_size_simps [simp]:
  "fat (grow_size s p n) = fat s" "page (grow_size s p n) = page s" "memman (grow_size s p n) = memman s"
  by (simp_all add: grow_size_def set_cell_def)

lemma grow_size_io [simp]:
  "filp (grow_size s p n) = filp s" "f_desc_table (grow_size s p n) = f_desc_table s"
  by (simp_all add: grow_size_def set_cell_def)

lemma put_page_io [simp]:
  "filp (put_page s pg off xs) = filp s" "f_desc_table (put_page s pg off xs) = f_desc_table s"
  by (simp_all add: put_page_def)

lemma grow_size_cell:
  assumes "0 \<le> n" "n < 2 ^ 31"
  shows "cell (grow_size s p n) = (cell s)(rf_get s p p_size := of_nat (max (file_size s p) (nat n)))"
proof -
  have u: "unat (of_int n :: u32) = nat n" using assms by (intro unat_of_int_u32) auto
  show ?thesis
  proof (cases "of_int n > cell s (rf_get s p p_size)")
    case True
    then have "file_size s p < nat n" by (simp add: word_less_nat_alt u file_size_def)
    with True assms show ?thesis by (simp add: grow_size_def set_cell_def max_def)
  next
    case False
    then have "nat n \<le> file_size s p" by (simp add: word_less_nat_alt u file_size_def)
    then have "of_nat (max (file_size s p) (nat n)) = cell s (rf_get s p p_size)"
      by (simp add: max_def file_size_def)
    with False show ?thesis by (simp add: grow_size_def fun_upd_idem)
  qed
qed

lemma overwrite_content:
  assumes "D' = overwrite (D @ replicate k 0) pos xs" "length D' = length D + k" "pos \<le> sz" "sz \<le> length D"
  shows "take (max sz (pos + length xs)) D' = overwrite (take sz D) pos xs"
proof -
  have fit: "pos + length xs \<le> length D + k"
  proof (rule ccontr)
    assume "\<not> pos + length xs \<le> length D + k"
    then have "length (overwrite (D @ replicate k 0) pos xs) = pos + length xs"
      using assms(3,4) by (simp add: overwrite_def)
    with assms(1,2) \<open>\<not> _\<close> show False by simp
  qed
  show ?thesis
  proof (cases "pos + length xs \<le> sz")
    case True
    with assms(3) have "pos = sz \<or> pos < sz" by auto
    with True show ?thesis using assms by (auto simp: overwrite_def max_def take_drop min_def)
  next
    case False
    then show ?thesis using assms by (simp add: overwrite_def max_def min_def)
  qed
qed

lemma more_io:
  "ramfs.more t = ramfs.more (s :: 'a fstate_scheme) \<Longrightarrow> filp t = filp s"
  "ramfs.more t = ramfs.more (s :: 'a fstate_scheme) \<Longrightarrow> f_desc_table t = f_desc_table s"
  by (cases t; cases s; simp)+

lemma same_on_io:
  "same_on L s t \<Longrightarrow> filp t = filp (s :: 'a fstate_scheme)"
  "same_on L s t \<Longrightarrow> f_desc_table t = f_desc_table (s :: 'a fstate_scheme)"
  by (simp_all add: same_on_def more_io[of t s])

lemma writtenD:
  assumes "written fs K cs fs' K' es n xs"
  shows "same_on (K - set cs) fs fs'" "cell fs' = cell fs" "clusters_ok fs' K'" "K' = K \<union> set es"
    "chain fs' (hd cs) (cs @ es)" "K \<inter> set es = {}" "c \<in> K \<Longrightarrow> clu_addr fs' c = clu_addr fs c"
    "file_data fs' (cs @ es) = overwrite (file_data fs cs @ replicate (RAM_FS_CLUSTER_SIZE * length es) 0) n xs"
  using assms unfolding written_def by blast+

lemma same_on_get: "same_on L fs fs' \<Longrightarrow> c \<in> L \<Longrightarrow> fst p = clu_addr fs c \<Longrightarrow> rf_get fs' p f = rf_get fs p f"
proof (rule rf_get_same_page)
  assume a: "same_on L fs fs'" "c \<in> L" "fst p = clu_addr fs c"
  then have "fat fs' (unat c) = fat fs (unat c)" "clu_page fs' c = clu_page fs c" by (auto simp: same_on_def)
  with a(3) show "page fs' (fst p) = page fs (fst p)" by (simp add: clu_page_def clu_addr_def)
qed

lemma grow_size_noop:
  assumes "0 \<le> n" "nat n \<le> file_size s p" shows "grow_size s p n = s"
proof -
  have "nat n < 2 ^ 32"
    using assms(2) le_less_trans[OF _ unat_lt_u32[of "cell s (rf_get s p p_size)"]] by (simp add: file_size_def)
  then have "unat (of_int n :: u32) = nat n" using assms(1) by (intro unat_of_int_u32) auto
  then show ?thesis using assms by (simp add: grow_size_def word_less_nat_alt file_size_def not_less)
qed

lemma rf_write_core:
  assumes ok: "file_ok s K p cs" and o: "open_on s fd d p"
    and pos: "fd_pos (f_desc_table s d) = int q" "q \<le> file_size s p"
    and len: "0 \<le> len" "int q + len < 2 ^ 31"
  shows "\<exists>s2 s' n K' es. rf_write s fd buf len = Some (s', int n) \<and> n \<le> nat len \<and> (n < nat len \<longrightarrow> exhausted s2) \<and>
    written s K cs s2 K' es q (load_list buf 0 n) \<and>
    s' = grow_size (set_desc s2 d (\<lambda>e. e\<lparr>fd_pos := int (q + n)\<rparr>)) p (int (q + n))"
proof -
  obtain dc where dc: "dc \<in> K - set cs" "fst p = clu_addr s dc" using ok by (auto simp: file_ok_def)
  have K: "clusters_ok s K" and sub: "set cs \<subseteq> K" and ne: "cs \<noteq> []"
    and ch: "chain s (rf_get s p start_cluster) cs" and fit: "file_size s p \<le> RAM_FS_CLUSTER_SIZE * length cs"
    using ok by (auto simp: file_ok_def)
  define c where "c = rf_get s p start_cluster"
  obtain ds where cs: "cs = c # ds" using ch ne by (cases cs) (auto simp: c_def)
  define k where "k = q div RAM_FS_CLUSTER_SIZE"
  define off where "off = q mod RAM_FS_CLUSTER_SIZE"
  have q: "RAM_FS_CLUSTER_SIZE * k + off = q" "off < RAM_FS_CLUSTER_SIZE" by (simp_all add: k_def off_def)
  have chc: "chain s c (c # ds)" using ch by (simp add: c_def cs)
  from write_walk_spec[OF K chc sub[unfolded cs], of k] obtain s1 r K1 es1 where
    W: "write_walk s c k = Some (s1, r)" "written s K cs s1 K1 es1 0 []"
    "r = None \<and> exhausted s1 \<or> k < length (cs @ es1) \<and> r = Some ((cs @ es1) ! k)"
    unfolding cs by auto
  note so1 = writtenD(1)[OF W(2)]
  note desc = o[unfolded open_on_def]
  have ovf: "int_ok (int q + len)" using len by (simp add: int_ok_def)
  have un: "rf_write s fd buf len = (case r of
         None \<Rightarrow> Some (s1, 0)
       | Some cluster \<Rightarrow> do {
           e \<leftarrow> fat_at s1 cluster;
           (s, r) \<leftarrow> write_loop s1 cluster (rf_addr e) off buf (nat len) 0;
           case r of
             NoSpace bytes_write \<Rightarrow>
               Some (grow_size (set_desc s d (\<lambda>e. e\<lparr>fd_pos := fd_pos e + int bytes_write\<rparr>)) p
                 (fd_pos (f_desc_table s d) + int bytes_write), int bytes_write)
           | Rest cluster pg off bytes_write \<Rightarrow>
               Some (grow_size (set_desc (put_page s pg off (load_list buf bytes_write (nat len - bytes_write)))
                 d (\<lambda>e. e\<lparr>fd_pos := int q + len\<rparr>)) p (int q + len), len)
         })"
    using desc pos(1) len ovf W(1) by (simp add: rf_write_def c_def[symmetric] k_def[symmetric] off_def[symmetric]
        nat_int zmod_int zdiv_int node_ram_def Let_def)
  have sz1: "file_size s1 p = file_size s p"
    using same_on_get[OF so1 dc] writtenD(2)[OF W(2)] by (simp add: file_size_def)
  from W(3) show ?thesis
  proof
    assume r: "r = None \<and> exhausted s1"
    have w: "written s K cs s1 K1 es1 q []"
      by (rule written_nil[OF W(2)]) (use pos(2) fit in \<open>simp_all add: distrib_left\<close>)
    have "set_desc s1 d (\<lambda>e. e\<lparr>fd_pos := int q\<rparr>) = s1"
      using pos(1) same_on_io(2)[OF so1] by (intro set_desc_idem) (simp add: fd_pos_idem)
    moreover have "grow_size s1 p (int q) = s1" using pos(2) sz1 by (intro grow_size_noop) simp_all
    ultimately show ?thesis using r w un
      by (intro exI[of _ s1] exI[of _ s1] exI[of _ 0] exI[of _ K1] exI[of _ es1]) simp
  next
    assume r: "k < length (cs @ es1) \<and> r = Some ((cs @ es1) ! k)"
    define cl where "cl = (cs @ es1) ! k"
    define rest where "rest = drop (Suc k) (cs @ es1)"
    have sp: "cs @ es1 = take k (cs @ es1) @ cl # rest"
      unfolding cl_def rest_def by (rule id_take_nth_drop) (use r in \<open>simp\<close>)
    have ch1: "chain s1 (hd (take k (cs @ es1) @ cl # rest)) (take k (cs @ es1) @ cl # rest)"
      unfolding sp[symmetric] using writtenD(5)[OF W(2)] ne by simp
    then have ch2: "chain s1 cl (cl # rest)" by (rule chain_append)
    have K1: "clusters_ok s1 K1" "set (cs @ es1) \<subseteq> K1" using writtenD(3,4)[OF W(2)] sub by auto
    have sub1: "set (take k (cs @ es1) @ cl # rest) \<subseteq> K1" unfolding sp[symmetric] by (rule K1(2))
    then have sub2: "set (cl # rest) \<subseteq> K1" by simp
    from write_loop_spec[OF K1(1) ch2 sub2 q(2), of 0 "nat len" buf] obtain fs1 t s2 n K' es where
      L: "write_loop s1 cl (clu_addr s1 cl) off buf (nat len) 0 = Some (fs1, t)"
      "write_end fs1 t buf (nat len) = (s2, n)" "n \<le> nat len" "n < nat len \<longrightarrow> exhausted s2"
      "written s1 K1 (cl # rest) s2 K' es off (load_list buf 0 n)" by auto
    have lk: "length (take k (cs @ es1)) = k" unfolding length_take using r by (intro min_absorb2) simp
    have "written s1 K1 (cs @ es1) s2 K' es q (load_list buf 0 n)"
      using written_prefix[OF ch1 sub1 _ L(5)] unfolding sp[symmetric] lk q(1) by simp
    from this have w: "written s K cs s2 K' (es1 @ es) q (load_list buf 0 n)"
      by (rule written_trans[OF W(2) _ sub ne]) (use pos(2) fit in \<open>simp add: distrib_left\<close>)
    have tab: "f_desc_table s2 = f_desc_table s" by (rule same_on_io(2)[OF writtenD(1)[OF w]])
    have clb: "unat cl < RAM_FS_NR_CLU" using ch2 by simp
    have "rf_write s fd buf len = Some (grow_size (set_desc s2 d (\<lambda>e. e\<lparr>fd_pos := int (q + n)\<rparr>)) p (int (q + n)), int n)"
    proof (cases t)
      case (NoSpace x)
      then have "fs1 = s2" "x = n" using L(2) by (simp_all add: write_end_def)
      then show ?thesis using L(1) NoSpace r clb tab pos(1)
        by (simp add: un cl_def[symmetric] clu_addr_def set_desc_def)
    next
      case (Rest x1 x2 x3 x4)
      then have "s2 = put_page fs1 x2 x3 (load_list buf x4 (nat len - x4))" "n = nat len"
        using L(2) by (auto simp: write_end_def)
      then show ?thesis using L(1) Rest r clb len
        by (simp add: un cl_def[symmetric] clu_addr_def)
    qed
    with w L(3,4) show ?thesis by blast
  qed
qed

lemma rf_write_effect:
  assumes ok: "file_ok s K p cs" and o: "open_on s fd d p"
    and pos: "fd_pos (f_desc_table s d) = int q" "q \<le> file_size s p"
    and len: "0 \<le> len" "int q + len < 2 ^ 31"
  shows "\<exists>s' n es. rf_write s fd buf len = Some (s', int n) \<and> n \<le> nat len \<and> (n < nat len \<longrightarrow> exhausted s') \<and>
    set es \<inter> K = {} \<and> file_ok s' (K \<union> set es) p (cs @ es) \<and>
    file_content s' p (cs @ es) = overwrite (file_content s p cs) q (load_list buf 0 n) \<and>
    file_size s' p = max (file_size s p) (q + n) \<and> open_on s' fd d p \<and> fd_pos (f_desc_table s' d) = int (q + n) \<and>
    (\<forall>e. e \<noteq> d \<longrightarrow> f_desc_table s' e = f_desc_table s e) \<and> filp s' = filp s \<and>
    (\<forall>c \<in> K - set cs. fat s' (unat c) = fat s (unat c) \<and> clu_page s' c = clu_page s c) \<and>
    (\<forall>a. a \<noteq> rf_get s p p_size \<longrightarrow> cell s' a = cell s a)"
proof -
  obtain s2 s' n K' es where W: "rf_write s fd buf len = Some (s', int n)" "n \<le> nat len"
    "n < nat len \<longrightarrow> exhausted s2" "written s K cs s2 K' es q (load_list buf 0 n)"
    and s': "s' = grow_size (set_desc s2 d (\<lambda>e. e\<lparr>fd_pos := int (q + n)\<rparr>)) p (int (q + n))"
    using rf_write_core[OF assms] by blast
  obtain dc where dc: "dc \<in> K - set cs" "fst p = clu_addr s dc" using ok by (auto simp: file_ok_def)
  note w = writtenD[OF W(4)]
  have core: "fat s' = fat s2" "page s' = page s2" "memman s' = memman s2" by (simp_all add: s')
  note cc = core_cong[OF core]
  have get: "rf_get s2 p f = rf_get s p f" for f by (rule same_on_get[OF w(1) dc])
  have n31: "int (q + n) < 2 ^ 31" using len W(2) by simp
  have sz2: "file_size s2 p = file_size s p" by (simp add: file_size_def get w(2))
  have cell': "cell s' = (cell s)(rf_get s p p_size := of_nat (max (file_size s p) (q + n)))"
    unfolding s' using n31 by (subst grow_size_cell) (simp_all add: get w(2) sz2 file_size_def nat_int_add)
  have "max (file_size s p) (q + n) < 2 ^ 32" using n31 by (simp add: file_size_def max_def)
  then have size': "file_size s' p = max (file_size s p) (q + n)"
    by (simp add: file_size_def[of s'] cc(7) get cell' unsigned_of_nat take_bit_nat_eq_self)
  have fit: "file_size s p \<le> length (file_data s cs)" using ok by (simp add: file_ok_def)
  have len': "length (file_data s2 (cs @ es)) = length (file_data s cs) + RAM_FS_CLUSTER_SIZE * length es"
    by (simp add: distrib_left)
  from overwrite_content[OF w(8) len' pos(2) fit]
  have cont: "file_content s' p (cs @ es) = overwrite (file_content s p cs) q (load_list buf 0 n)"
    by (simp add: file_content_def size' cc(3))
  have "length (file_content s' p (cs @ es)) \<ge> q + n"
    unfolding cont using pos(2) fit by (simp add: overwrite_def file_content_def)
  then have fits': "file_size s' p \<le> RAM_FS_CLUSTER_SIZE * length (cs @ es)"
    unfolding size' using fit by (auto simp: file_content_def size' distrib_left)
  have ne: "cs \<noteq> []" "chain s (rf_get s p start_cluster) cs" "set cs \<subseteq> K" using ok by (auto simp: file_ok_def)
  then have "hd cs = rf_get s p start_cluster" by (cases cs) auto
  then have chain': "chain s' (rf_get s' p start_cluster) (cs @ es)" using w(5) by (simp add: cc(4,7) get)
  have dc': "dc \<in> K \<union> set es - set (cs @ es)" "fst p = clu_addr s' dc"
    using dc w(6) w(7)[of dc] by (auto simp: cc(1))
  have fok: "file_ok s' (K \<union> set es) p (cs @ es)"
    unfolding file_ok_def using w(3) chain' ne dc' fits' by (auto simp: cc(5) w(4))
  have tab: "f_desc_table s' = (f_desc_table s)(d := (f_desc_table s d)\<lparr>fd_pos := int (q + n)\<rparr>)"
    using same_on_io(2)[OF w(1)] by (simp add: s')
  have fp: "filp s' = filp s" using same_on_io(1)[OF w(1)] by (simp add: s')
  have "open_on s' fd d p" using o by (auto simp: open_on_def fd_desc_def fd_slot_def tab fp split: if_splits)
  moreover have "\<forall>c \<in> K - set cs. fat s' (unat c) = fat s (unat c) \<and> clu_page s' c = clu_page s c"
    using w(1) by (simp add: same_on_def core cc(2))
  moreover have "n < nat len \<longrightarrow> exhausted s'" using W(3) by (simp add: cc(6))
  moreover have "set es \<inter> K = {}" using w(6) by auto
  ultimately show ?thesis using W(1,2) fok cont size' tab fp cell'
    by (intro exI[of _ s'] exI[of _ n] exI[of _ es]) simp
qed

lemma rf_read_effect:
  assumes ok: "file_ok s K p cs" and o: "open_on s fd d p"
    and pos: "fd_pos (f_desc_table s d) = int q" "q + m \<le> file_size s p" and sz: "file_size s p < 2 ^ 31"
  shows "rf_read s fd buf (int m) = Some (set_desc s d (\<lambda>e. e\<lparr>fd_pos := int (q + m)\<rparr>),
    store_list buf 0 (take m (drop q (file_content s p cs))), int m)"
proof -
  have ch: "chain s (rf_get s p start_cluster) cs" and fit: "file_size s p \<le> RAM_FS_CLUSTER_SIZE * length cs"
    using ok by (auto simp: file_ok_def)
  define k where "k = q div RAM_FS_CLUSTER_SIZE"
  define off where "off = q mod RAM_FS_CLUSTER_SIZE"
  have q: "RAM_FS_CLUSTER_SIZE * k + off = q" "off < RAM_FS_CLUSTER_SIZE" by (simp_all add: k_def off_def)
  define size32 where "size32 = cell s (rf_get s p p_size)"
  have usz: "unat size32 = file_size s p" by (simp add: size32_def file_size_def)
  have qlt: "q < 2 ^ 32" using pos(2) sz by simp
  have uq: "unat (of_int (int q) :: u32) = q" using qlt by (simp add: unsigned_of_nat take_bit_nat_eq_self)
  note desc = o[unfolded open_on_def]
  have p2: "0 \<le> int q" "\<not> int q < 0" "nat (int q div int RAM_FS_CLUSTER_SIZE) = k"
    by (simp_all add: k_def zdiv_int[symmetric])
  show ?thesis
  proof (cases "q = file_size s p")
    case True
    then have "m = 0" using pos(2) by simp
    moreover have "set_desc s d (\<lambda>e. e\<lparr>fd_pos := int q\<rparr>) = s"
      using pos(1) by (intro set_desc_idem) (simp add: fd_pos_idem)
    moreover have "size32 \<le> of_int (int q)" using True uq usz by (simp add: word_le_nat_alt)
    ultimately show ?thesis
      using desc pos(1) by (simp add: rf_read_def node_ram_def size32_def)
  next
    case False
    then have lt: "q < file_size s p" using pos(2) by simp
    then have nle: "\<not> size32 \<le> of_int (int q)" using uq usz by (simp add: word_le_nat_alt)
    have kl: "k < length cs"
    proof -
      have "RAM_FS_CLUSTER_SIZE * k < RAM_FS_CLUSTER_SIZE * length cs" using q lt fit by linarith
      then show ?thesis by simp
    qed
    define c where "c = cs ! k"
    define rest where "rest = drop (Suc k) cs"
    have sp: "cs = take k cs @ c # rest" unfolding c_def rest_def by (rule id_take_nth_drop[OF kl])
    have ch2: "chain s c (c # rest)" using ch chain_append[of s _ "take k cs" c rest] unfolding sp[symmetric] by blast
    have wk: "walk_clu s 0 k (rf_get s p start_cluster) = Some c"
      using walk_clu_chain[OF ch kl, of 0] by (simp add: c_def)
    have m32: "m < 2 ^ 32" using pos(2) sz by simp
    have sub: "unat (size32 - of_int (int q)) = file_size s p - q"
      using lt by (subst unat_minus_no_wrap) (simp_all add: uq usz del: of_int_of_nat_eq)
    have mle: "of_nat m \<le> size32 - (of_int (int q) :: u32)"
      using pos(2) m32 unfolding word_le_nat_alt sub by (simp add: unsigned_of_nat take_bit_nat_eq_self)
    have lc: "length cs = k + Suc (length rest)" using arg_cong[OF sp, of length] kl by (simp add: min_def)
    have off2: "off + (m - 0) \<le> RAM_FS_CLUSTER_SIZE * Suc (length rest)"
      using q(1) pos(2) fit unfolding lc by (simp add: distrib_left)
    note rl = read_loop_chain[OF ch2 q(2) le0 mle m32 off2, of buf]
    have "file_data s cs = file_data s (take k cs) @ file_data s (c # rest)" by (subst sp) simp
    moreover have "length (file_data s (take k cs)) = RAM_FS_CLUSTER_SIZE * k" using kl by simp
    ultimately obtain A where A: "file_data s cs = A @ file_data s (c # rest)" "length A = RAM_FS_CLUSTER_SIZE * k"
      by blast
    have dr: "drop q (file_data s cs) = drop off (file_data s (c # rest))"
      unfolding q(1)[symmetric] A(1) by (simp add: A(2))
    have "take m (drop q (file_content s p cs)) = take m (drop q (file_data s cs))"
      using pos(2) by (simp add: file_content_def take_drop min_def)
    moreover have cb: "unat c < RAM_FS_NR_CLU" using ch2 by simp
    moreover have "int_ok (int q + int m)" using pos(2) sz by (simp add: int_ok_def)
    ultimately show ?thesis
      using desc pos(1) nle p2 wk rl
      by (simp add: rf_read_def node_ram_def size32_def[symmetric] k_def[symmetric] off_def[symmetric] dr
          clu_addr_def Let_def del: of_int_of_nat_eq)
  qed
qed

subsection \<open>Reading and writing as the callers see them\<close>

text \<open>A state with one open file: descriptor 0 on the record 1 of the root, ten bytes in cluster 1.\<close>

definition demo_ino :: p_rf_inode where "demo_ino = (K_PHY2LIN 0x1000000, 1)"

definition demo_io :: fstate where
  "demo_io = ramfs.extend
     (demo_fs\<lparr>page := (\<lambda>a. if a = K_PHY2LIN 0x1000000
          then store32 (store32 (\<lambda>_. 0) (148 + 144) 1) (148 + 132) 100 else (\<lambda>_. 0)),
        cell := (\<lambda>_. 0)(100 := 10)\<rparr>)
     (fstate.fields (\<lambda>i. if i = 0 then Some 0 else None)
       (\<lambda>i. if i = 0 then \<lparr>fd_mode = O_RDWR, fd_pos = 4, fd_node = RamNode demo_ino, flag = 1, dev_index = 5\<rparr>
            else \<lparr>fd_mode = 0, fd_pos = 0, fd_node = NullNode, flag = 0, dev_index = 0\<rparr>))"

lemma demo_io_simps:
  "fat demo_io = fat demo_fs" "memman demo_io = demo_man" "cell demo_io = (\<lambda>_. 0)(100 := 10)"
  "rf_get demo_io demo_ino p_size = 100" "rf_get demo_io demo_ino start_cluster = 1"
  "f_desc_table demo_io 0 = \<lparr>fd_mode = O_RDWR, fd_pos = 4, fd_node = RamNode demo_ino, flag = 1, dev_index = 5\<rparr>"
  "filp demo_io 0 = Some 0"
  by (simp_all add: demo_io_def demo_fs_def ramfs.defs fstate.defs rf_get_def demo_ino_def sizeof_rf_inode_def
      block_simps)

lemma demo_io_ok: "file_ok demo_io {0, 1} demo_ino [1]"
proof -
  have "clusters_ok demo_io {0, 1}"
    using demo_fs_ok by (simp add: clusters_ok_def clu_range_def clu_addr_def demo_io_simps) (simp add: demo_fs_def)
  moreover have "file_size demo_io demo_ino = 10" by (simp add: file_size_def demo_io_simps)
  moreover have "fst demo_ino = clu_addr demo_io 0" by (simp add: clu_addr_def demo_io_simps) (simp add: demo_fs_def demo_ino_def)
  moreover have "chain demo_fs 1 [1]" by (simp add: demo_fs_def RAM_FS_NR_CLU_def)
  then have "chain demo_io 1 [1]" by (simp add: demo_io_simps)
  ultimately show ?thesis
    unfolding file_ok_def by (intro conjI bexI[of _ 0]) (simp_all add: demo_io_simps RAM_FS_CLUSTER_SIZE_def)
qed

lemma demo_io_open: "open_on demo_io 0 0 demo_ino"
  by (simp add: open_on_def fd_desc_def fd_slot_def demo_io_simps NR_FILES_def has_flag_def O_RDWR_def)

text \<open>C1. Writing refines writing to a sequence of bytes: the bytes the call says it wrote replace those
  at the position, the file grows when the write ends behind its end, over as many clusters as it
  takes; the position moves by the bytes written; the call is short only when the memory or the
  table is exhausted. Every cluster of another file or directory stays as it was, with its entry of the table; so do the sizes and link
  counts of all files but the size of this one, and every other descriptor.\<close>

theorem write_refines_bytes:
  assumes "file_ok s K p cs" "open_on s fd d p" "fd_pos (f_desc_table s d) = int q" "q \<le> file_size s p"
    "0 \<le> len" "int q + len < 2 ^ 31"
  shows "\<exists>s' n es. rf_write s fd buf len = Some (s', int n) \<and> n \<le> nat len \<and> (n = nat len \<or> exhausted s') \<and>
    set es \<inter> K = {} \<and> file_ok s' (K \<union> set es) p (cs @ es) \<and>
    file_content s' p (cs @ es) = overwrite (file_content s p cs) q (load_list buf 0 n) \<and>
    fd_pos (f_desc_table s' d) = int (q + n) \<and> open_on s' fd d p \<and>
    same_on (K - set cs) (ramfs.truncate s) (ramfs.truncate s') \<and>
    (\<forall>a. a \<noteq> rf_get s p p_size \<longrightarrow> cell s' a = cell s a) \<and> filp s' = filp s \<and>
    (f_desc_table s')(d := f_desc_table s d) = f_desc_table s"
proof -
  have t: "clu_page (ramfs.truncate t) = clu_page t" "fat (ramfs.truncate t) = fat t" for t :: "'a fstate_scheme"
    by (simp_all add: clu_page_def clu_addr_def ramfs.defs fun_eq_iff)
  from rf_write_effect[OF assms] obtain s' n es where W:
    "rf_write s fd buf len = Some (s', int n)" "n \<le> nat len" "n < nat len \<longrightarrow> exhausted s'" "set es \<inter> K = {}"
    "file_ok s' (K \<union> set es) p (cs @ es)"
    "file_content s' p (cs @ es) = overwrite (file_content s p cs) q (load_list buf 0 n)" "open_on s' fd d p"
    "fd_pos (f_desc_table s' d) = int (q + n)" "\<forall>e. e \<noteq> d \<longrightarrow> f_desc_table s' e = f_desc_table s e" "filp s' = filp s"
    "\<forall>c \<in> K - set cs. fat s' (unat c) = fat s (unat c) \<and> clu_page s' c = clu_page s c"
    "\<forall>a. a \<noteq> rf_get s p p_size \<longrightarrow> cell s' a = cell s a" by blast
  have "same_on (K - set cs) (ramfs.truncate s) (ramfs.truncate s')"
    using W(11) unfolding same_on_def t by (simp add: ramfs.defs)
  moreover have "(f_desc_table s')(d := f_desc_table s d) = f_desc_table s" using W(9) by (auto simp: fun_eq_iff)
  moreover have "n = nat len \<or> exhausted s'" using W(2,3) by auto
  ultimately show ?thesis using W by blast
qed

theorem write_refines_bytes_witness:
  "\<exists>s' n. rf_write demo_io 0 (\<lambda>k. of_nat k) 3 = Some (s', int n) \<and> n \<le> 3 \<and>
    fd_pos (f_desc_table s' 0) = 4 + int n"
  using write_refines_bytes[OF demo_io_ok demo_io_open, of 4 3 "\<lambda>k. of_nat k"]
  by (auto simp: demo_io_simps file_size_def)

text \<open>C31. Reading within the file returns the bytes at the position, exactly as many as were asked for,
  across cluster boundaries, moves the position by as much and changes nothing else.\<close>

theorem read_returns_content:
  assumes "file_ok s K p cs" "open_on s fd d p" "fd_pos (f_desc_table s d) = int q" "q + m \<le> file_size s p"
    "file_size s p < 2 ^ 31"
  shows "rf_read s fd buf (int m) = Some (set_desc s d (\<lambda>e. e\<lparr>fd_pos := int (q + m)\<rparr>),
    store_list buf 0 (take m (drop q (file_content s p cs))), int m)"
  by (rule rf_read_effect[OF assms])

theorem read_returns_content_witness:
  "\<exists>s'. rf_read demo_io 0 (\<lambda>_. 1) 2 = Some (s', store_list (\<lambda>_. 1) 0 (take 2 (drop 4 (file_content demo_io demo_ino [1]))), 2) \<and>
    fd_pos (f_desc_table s' 0) = 6"
  using read_returns_content[OF demo_io_ok demo_io_open, of 4 2 "\<lambda>_. 1"]
  by (auto simp: demo_io_simps file_size_def)

text \<open>C2. What is written is read back: after a complete write, moving back to where it started and
  reading as many bytes returns the bytes of the buffer that was written.\<close>

theorem write_seek_read:
  assumes ok: "file_ok s K p cs" "open_on s fd d p" and pos: "fd_pos (f_desc_table s d) = int q" "q \<le> file_size s p"
    and len: "int q + int m < 2 ^ 31" "file_size s p < 2 ^ 31" and w: "rf_write s fd buf (int m) = Some (s1, int m)"
  shows "\<exists>s2 s3. rf_lseek s1 fd (int q) SEEK_SET = Some (s2, int q) \<and>
    rf_read s2 fd buf' (int m) = Some (s3, store_list buf' 0 (load_list buf 0 m), int m)"
proof -
  from rf_write_effect[OF ok pos _ len(1), of buf] w obtain es where W:
    "file_ok s1 (K \<union> set es) p (cs @ es)"
    "file_content s1 p (cs @ es) = overwrite (file_content s p cs) q (load_list buf 0 m)"
    "file_size s1 p = max (file_size s p) (q + m)" "open_on s1 fd d p" by auto
  have fit: "file_size s p \<le> RAM_FS_CLUSTER_SIZE * length cs" using ok(1) by (simp add: file_ok_def)
  have sz: "file_size s1 p < 2 ^ 31" "q + m \<le> file_size s1 p" using W(3) len by auto
  define s2 where "s2 = set_desc s1 d (\<lambda>e. e\<lparr>fd_pos := int q\<rparr>)"
  have "uint (cell s1 (rf_get s1 p p_size)) = int (file_size s1 p)" by (simp add: file_size_def)
  then have "sint (cell s1 (rf_get s1 p p_size)) = int (file_size s1 p)"
    using sz(1) by (simp add: sint_uint signed_take_bit_int_eq_self)
  then have l: "rf_lseek s1 fd (int q) SEEK_SET = Some (s2, int q)"
    using W(4) sz len by (simp add: rf_lseek_def open_on_def node_ram_def int_ok_def s2_def)
  have core: "fat s2 = fat s1" "page s2 = page s1" "memman s2 = memman s1" "cell s2 = cell s1" by (simp_all add: s2_def)
  note cc = core_cong[OF core(1-3)]
  have "file_ok s2 (K \<union> set es) p (cs @ es)" using W(1) by (simp add: file_ok_def cc file_size_def core)
  moreover have "open_on s2 fd d p" using W(4) by (auto simp: open_on_def s2_def fd_desc_def fd_slot_def split: if_splits)
  moreover have "fd_pos (f_desc_table s2 d) = int q" by (simp add: s2_def)
  moreover have fs: "file_size s2 p = file_size s1 p" by (simp add: file_size_def cc core)
  ultimately have r: "rf_read s2 fd buf' (int m) = Some (set_desc s2 d (\<lambda>e. e\<lparr>fd_pos := int (q + m)\<rparr>),
      store_list buf' 0 (take m (drop q (file_content s2 p (cs @ es)))), int m)"
    using sz by (intro rf_read_effect) simp_all
  have "file_content s2 p (cs @ es) = file_content s1 p (cs @ es)" by (simp add: file_content_def fs cc)
  moreover have "q \<le> length (file_content s p cs)" using pos(2) fit by (simp add: file_content_def)
  ultimately have "take m (drop q (file_content s2 p (cs @ es))) = load_list buf 0 m"
    using take_drop_overwrite[of q "file_content s p cs" "load_list buf 0 m"] W(2) by simp
  with l r show ?thesis by auto
qed

theorem write_seek_read_witness:
  "\<exists>s1 s2 s3. rf_write demo_io 0 (\<lambda>k. of_nat k) 3 = Some (s1, 3) \<and> rf_lseek s1 0 4 SEEK_SET = Some (s2, 4) \<and>
    rf_read s2 0 (\<lambda>_. 9) 3 = Some (s3, store_list (\<lambda>_. 9) 0 [0, 1, 2], 3)"
proof -
  have "fat_at demo_io 1 = Some (fat demo_io 1)" by (simp add: fat_at_def RAM_FS_NR_CLU_def)
  then obtain s1 where w: "rf_write demo_io 0 (\<lambda>k. of_nat k) 3 = Some (s1, 3)"
    using demo_io_open by (simp add: rf_write_def open_on_def node_ram_def demo_io_simps int_ok_def
        RAM_FS_CLUSTER_SIZE_def write_walk.simps write_loop.simps)
  have "load_list (\<lambda>k. of_nat k) 0 3 = [0, 1, 2 :: u8]" by (simp add: load_list_def upt_rec)
  with write_seek_read[OF demo_io_ok demo_io_open, of 4 3 "\<lambda>k. of_nat k" s1 "\<lambda>_. 9"] w show ?thesis
    by (auto simp: demo_io_simps file_size_def)
qed

end
