(* ===== verification/VfsPath.thy ===== *)
theory VfsPath
  imports RamFile
begin

text \<open>
  The paths of \<^verbatim>\<open>kernel/vfs.c\<close>: \<^verbatim>\<open>process_relative_path\<close> turns the path of a call into an absolute
  one, in place in a buffer of \<open>MAX_PATH\<close> bytes, and \<^verbatim>\<open>get_index\<close> takes the name of the file system
  off its front.

  Both read \<^verbatim>\<open>path[i - 1]\<close> also for \<^verbatim>\<open>i = 0\<close>: \<open>prev\<close> is that byte below the buffer. A write outside
  the buffer, and one outside the stack of directories or the buffer of the name, is \<open>None\<close>.
\<close>

definition DEV_NAME_LEN :: nat where "DEV_NAME_LEN = 15"
definition dot :: u8 where "dot = 0x2E"

subsection \<open>Relative paths\<close>

text \<open>The loop that makes room for the working directory.\<close>

fun shift_loop :: "bytes \<Rightarrow> nat \<Rightarrow> nat \<Rightarrow> bytes" where
  "shift_loop path cwd_len 0 = path"
| "shift_loop path cwd_len (Suc i) = shift_loop (path(i + cwd_len + 1 := path i)) cwd_len i"

text \<open>
  The loop that takes out \<^verbatim>\<open>.\<close> and \<^verbatim>\<open>..\<close>. Its state is the buffer, the offset \<^verbatim>\<open>offs\<close>, the stack
  \<^verbatim>\<open>dir_stack\<close> and its \<^verbatim>\<open>top\<close>.
\<close>

type_synonym dots_state = "bytes \<times> nat \<times> nat block \<times> nat"

definition dots_step :: "u8 \<Rightarrow> nat \<Rightarrow> nat \<Rightarrow> dots_state \<Rightarrow> dots_state option" where
  "dots_step prev len i = (\<lambda>(path, offs, dir_stack, tp).
     let ends = (path i = slash \<or> i = len) \<and> (if i = 0 then prev else path (i - 1)) \<noteq> slash;
         ent = (\<lambda>k. path (dir_stack tp + k));
         n = i - dir_stack tp;
         (offs, tp) = (if ends \<and> tp \<noteq> 0 then
             if strncmp ent (cstr (lit ''/.'')) n = 0 then (offs + n, tp)
             else if strncmp ent (cstr (lit ''/..'')) n = 0 then
               let tp = (if tp > 1 then tp - 1 else tp) in (offs + (i - dir_stack tp), tp)
             else (offs, tp)
           else (offs, tp))
     in if ends \<and> \<not> tp + 1 < MAX_PATH \<or> i < offs then None
        else let (dir_stack, tp) = (if ends then (dir_stack(tp + 1 := i), tp + 1) else (dir_stack, tp))
             in Some (path(i - offs := path i), offs, dir_stack, tp))"

fun dots_loop :: "u8 \<Rightarrow> nat \<Rightarrow> nat \<Rightarrow> nat \<Rightarrow> dots_state \<Rightarrow> dots_state option" where
  "dots_loop prev len i 0 s = Some s"
| "dots_loop prev len i (Suc n) s = do { s \<leftarrow> dots_step prev len i s; dots_loop prev len (i + 1) n s }"

definition process_relative_path :: "u8 \<Rightarrow> bytes \<Rightarrow> bytes \<Rightarrow> bytes option" where
  "process_relative_path prev cwd path =
     (if path 0 = slash then Some path else do {
        path_len \<leftarrow> strlen path;
        cwd_len \<leftarrow> strlen cwd;
        r \<leftarrow> strcmp cwd (cstr (lit ''/''));
        let cwd_len = (if r = 0 then 0 else cwd_len);
        if \<not> path_len + cwd_len + 1 < MAX_PATH then None else do {
          let path = shift_loop path cwd_len path_len;
          let path = store_list path 0 (load_list cwd 0 cwd_len);
          let path = path(cwd_len := slash);
          let path = path(path_len + cwd_len + 1 := 0);
          (path, offs, dir_stack, tp) \<leftarrow>
            dots_loop prev (path_len + cwd_len + 1) 0 (path_len + cwd_len + 2) (path, 0, (\<lambda>_. 0), 0);
          r \<leftarrow> strcmp path (cstr []);
          Some (if r = 0 then store_list path 0 [slash, 0] else path)
        }
      })"

subsection \<open>The file system of a path\<close>

text \<open>The copy of the name to its buffer: the index the name ended at and the rest of the path.\<close>

fun name_loop :: "bytes \<Rightarrow> bytes \<Rightarrow> nat \<Rightarrow> nat \<Rightarrow> (bytes \<times> nat \<times> nat) option" where
  "name_loop path fs_name i 0 = Some (fs_name, i, 1)"
| "name_loop path fs_name i (Suc n) =
     (if path (i + 1) = slash then Some (fs_name, i, i + 2)
      else if i < DEV_NAME_LEN then name_loop path (fs_name(i := path (i + 1))) (i + 1) n
      else None)"

fun drop_loop :: "bytes \<Rightarrow> nat \<Rightarrow> nat \<Rightarrow> nat \<Rightarrow> bytes" where
  "drop_loop path a i 0 = path"
| "drop_loop path a i (Suc n) = drop_loop (path(i := path (i + a))) a (i + 1) n"

definition fs_names :: "u8 list list" where
  "fs_names = [lit ''dev_tty0'', lit ''dev_tty1'', lit ''dev_tty2'', lit ''fat0'', lit ''orange'', lit ''ram'']"

fun index_loop :: "bytes \<Rightarrow> u8 list list \<Rightarrow> nat \<Rightarrow> int option" where
  "index_loop fs_name [] i = Some (- 1)"
| "index_loop fs_name (x # xs) i = do {
     r \<leftarrow> strcmp fs_name (cstr x);
     if r = 0 then Some (int i) else index_loop fs_name xs (i + 1)
   }"

definition get_index :: "u8 \<Rightarrow> bytes \<Rightarrow> bytes \<Rightarrow> (bytes \<times> int) option" where
  "get_index prev cwd path = do {
     path \<leftarrow> process_relative_path prev cwd path;
     pathlen \<leftarrow> strlen path;
     (fs_name, i, a) \<leftarrow> name_loop path (\<lambda>_. 0) 0 pathlen;
     if \<not> i < DEV_NAME_LEN \<or> pathlen < a then None else do {
       let fs_name = fs_name(i := 0);
       let path = drop_loop path a 0 (pathlen - a);
       let path = path(pathlen - a := 0);
       index \<leftarrow> index_loop fs_name fs_names 0;
       Some (path, index)
     }
   }"

subsection \<open>What the dots do\<close>

text \<open>An absolute path, and the components that name something.\<close>

definition abs_path :: "u8 list list \<Rightarrow> u8 list" where
  "abs_path es = concat (map (\<lambda>e. slash # e) es)"

definition comp_ok :: "u8 list \<Rightarrow> bool" where
  "comp_ok e \<longleftrightarrow> e \<noteq> [] \<and> 0 \<notin> set e \<and> slash \<notin> set e"

definition plain :: "u8 list \<Rightarrow> bool" where
  "plain e \<longleftrightarrow> comp_ok e \<and> e \<noteq> [dot] \<and> e \<noteq> [dot, dot]"

lemma abs_path_simps [simp]:
  "abs_path [] = []" "abs_path (e # es) = slash # e @ abs_path es" "abs_path (xs @ ys) = abs_path xs @ abs_path ys"
  by (simp_all add: abs_path_def)

lemma slash_dot [simp]: "slash \<noteq> 0" "dot \<noteq> 0" "slash \<noteq> dot" "dot \<noteq> slash" "0 \<noteq> slash"
  by (simp_all add: slash_def dot_def)

lemma lit_dots: "lit ''/.'' = [slash, dot]" "lit ''/..'' = [slash, dot, dot]" "lit ''/'' = [slash]"
  by (simp_all add: lit_def slash_def dot_def)

lemma char_diff_0 [simp]: "char_diff p q = 0 \<longleftrightarrow> p = q"
  by (simp add: char_diff_def word_uint_eq_iff)

lemma strncmp_dots:
  assumes q: "\<And>k. k \<le> length e \<Longrightarrow> q k = (slash # e) ! k" and e: "e \<noteq> []" "0 \<notin> set e"
  shows "strncmp q (cstr (lit ''/.'')) (Suc (length e)) = 0 \<longleftrightarrow> e = [dot]" (is ?A)
    "strncmp q (cstr (lit ''/..'')) (Suc (length e)) = 0 \<longleftrightarrow> e = [dot] \<or> e = [dot, dot]" (is ?B)
proof -
  obtain x xs where x: "e = x # xs" using e by (cases e) auto
  have q0: "q 0 = slash" "q (Suc 0) = x" using q[of 0] q[of 1] by (simp_all add: x)
  have "?A \<and> ?B"
  proof (cases xs)
    case Nil
    with q0 e show ?thesis by (auto simp: x strncmp_def lit_dots cstr_def)
  next
    case (Cons y ys)
    have q2: "q (Suc (Suc 0)) = y" using q[of "Suc (Suc 0)"] by (simp add: x Cons)
    show ?thesis
    proof (cases ys)
      case Nil
      with q0 q2 e show ?thesis by (auto simp: x Cons strncmp_def lit_dots cstr_def)
    next
      case (Cons z zs)
      have q3: "q (Suc (Suc (Suc 0))) = z" using q[of "Suc (Suc (Suc 0))"] by (simp add: x \<open>xs = _\<close> Cons)
      with q0 q2 e show ?thesis by (auto simp: x \<open>xs = _\<close> Cons strncmp_def lit_dots cstr_def)
    qed
  qed
  then show ?A ?B by auto
qed

lemma strncmp_first: "q 0 \<noteq> slash \<Longrightarrow> strncmp q (cstr (lit ''/.'')) (Suc n) \<noteq> 0 \<and> strncmp q (cstr (lit ''/..'')) (Suc n) \<noteq> 0"
  by (simp add: strncmp_def lit_dots cstr_def)

text \<open>
  The buffer while the loop is at \<open>i\<close>: \<open>out\<close> has been written, from there on the path \<open>p\<close> stands as
  it was.
\<close>

definition dots_inv :: "u8 list \<Rightarrow> nat \<Rightarrow> bytes \<Rightarrow> nat \<Rightarrow> u8 list \<Rightarrow> bool" where
  "dots_inv p i path offs out \<longleftrightarrow> i \<le> length p \<and> offs \<le> i \<and> length out = i - offs \<and>
     (\<forall>k < i - offs. path k = out ! k) \<and> (\<forall>k. i - offs \<le> k \<and> k < length p \<longrightarrow> path k = p ! k) \<and>
     path (length p) = 0 \<and> (offs = 0 \<longrightarrow> out = take i p)"

lemma dots_inv_write:
  assumes "dots_inv p i path offs out" "i < length p"
  shows "dots_inv p (Suc i) (path(i - offs := path i)) offs (out @ [p ! i])"
proof -
  have "path i = p ! i" using assms by (auto simp: dots_inv_def)
  with assms show ?thesis
    by (auto simp: dots_inv_def nth_append less_Suc_eq Suc_diff_le take_Suc_conv_app_nth)
qed

lemma dots_copy:
  assumes "dots_inv p i path offs out" "p = u @ xs @ v" "length u = i" "slash \<notin> set xs"
  shows "\<exists>path'. dots_loop prev (length p) i (length xs) (path, offs, st, tp) = Some (path', offs, st, tp) \<and>
    dots_inv p (i + length xs) path' offs (out @ xs)"
  using assms
proof (induction xs arbitrary: i path out u)
  case Nil
  then show ?case by auto
next
  case (Cons x xs)
  have i: "i < length p" "p ! i = x" using Cons.prems(2,3) by (auto simp: nth_append)
  have x: "path i = x" using Cons.prems(1) i by (auto simp: dots_inv_def)
  then have "path i \<noteq> slash" using Cons.prems(4) by auto
  then have st: "dots_step prev (length p) i (path, offs, st, tp) = Some (path(i - offs := x), offs, st, tp)"
    using Cons.prems(1) i x by (auto simp: dots_step_def dots_inv_def Let_def)
  have inv: "dots_inv p (Suc i) (path(i - offs := x)) offs (out @ [x])"
    using dots_inv_write[OF Cons.prems(1) i(1)] x i(2) by simp
  have "p = (u @ [x]) @ xs @ v" "length (u @ [x]) = Suc i" "slash \<notin> set xs" using Cons.prems(2-4) by auto
  from Cons.IH[OF inv this] obtain path' where I: "dots_loop prev (length p) (Suc i) (length xs) (path(i - offs := x), offs, st, tp) = Some (path', offs, st, tp)"
    "dots_inv p (Suc i + length xs) path' offs ((out @ [x]) @ xs)" by blast
  show ?case using st I by (intro exI[of _ path']) simp
qed

text \<open>The end of the component \<open>e\<close>, which starts behind the slash at \<open>st tp\<close>.\<close>

lemma ent_orig:
  assumes inv: "dots_inv p i path offs (out @ e)" and p: "p = u @ slash # e @ v" "i = length u + Suc (length e)"
    and o: "offs = 0 \<or> Suc (length e) \<le> offs" and k: "k \<le> length e"
  shows "path (length u + k) = (slash # e) ! k"
proof -
  have "path (length u + k) = p ! (length u + k)"
  proof (cases "offs = 0")
    case True
    then show ?thesis using inv p k by (auto simp: dots_inv_def nth_append)
  next
    case False
    then have "i - offs \<le> length u + k \<and> length u + k < length p" using o p k by auto
    then show ?thesis using inv by (auto simp: dots_inv_def)
  qed
  then show ?thesis using p k by (cases k) (simp_all add: nth_append)
qed

lemma ent_plain:
  assumes inv: "dots_inv p i path offs (out @ e)" and p: "p = u @ slash # e @ v" "i = length u + Suc (length e)"
    and e: "plain e"
  shows "strncmp (\<lambda>k. path (length u + k)) (cstr (lit ''/.'')) (Suc (length e)) \<noteq> 0"
    "strncmp (\<lambda>k. path (length u + k)) (cstr (lit ''/..'')) (Suc (length e)) \<noteq> 0"
proof -
  let ?q = "\<lambda>k. path (length u + k)"
  have "strncmp ?q (cstr (lit ''/.'')) (Suc (length e)) \<noteq> 0 \<and> strncmp ?q (cstr (lit ''/..'')) (Suc (length e)) \<noteq> 0"
  proof (cases "offs = 0 \<or> Suc (length e) \<le> offs")
    case True
    then show ?thesis
      using ent_orig[OF inv p True] strncmp_dots[of e ?q] e by (simp add: plain_def comp_ok_def)
  next
    case False
    have l: "length out + length e = i - offs" using inv by (simp add: dots_inv_def)
    then have lt: "length u < i - offs" "length out \<le> length u" using False p(2) by auto
    then have "path (length u) = (out @ e) ! length u" using inv by (auto simp: dots_inv_def)
    also have "\<dots> \<in> set e" using lt l by (simp add: nth_append nth_mem)
    finally have "?q 0 \<noteq> slash" using e by (auto simp: plain_def comp_ok_def)
    then show ?thesis by (rule strncmp_first)
  qed
  then show "strncmp ?q (cstr (lit ''/.'')) (Suc (length e)) \<noteq> 0" "strncmp ?q (cstr (lit ''/..'')) (Suc (length e)) \<noteq> 0"
    by auto
qed

lemma ent_last:
  assumes inv: "dots_inv p i path offs (out @ e)" and p: "p = u @ slash # e @ v" "i = length u + Suc (length e)"
    and e: "comp_ok e"
  shows "path (i - 1) \<noteq> slash"
proof -
  have ne: "e \<noteq> []" "slash \<notin> set e" using e by (auto simp: comp_ok_def)
  have l: "length out + length e = i - offs" using inv by (simp add: dots_inv_def)
  have pe: "p ! (i - 1) = e ! (length e - 1)" using p ne by (cases e rule: rev_cases) (auto simp: nth_append)
  have "path (i - 1) = e ! (length e - 1)"
  proof (cases "offs = 0")
    case True
    then have "path (i - 1) = (out @ e) ! (i - 1)" using inv p by (auto simp: dots_inv_def)
    then show ?thesis using True l p ne by (cases e rule: rev_cases) (auto simp: nth_append)
  next
    case False
    then have "path (i - 1) = p ! (i - 1)" using inv p by (auto simp: dots_inv_def)
    with pe show ?thesis by simp
  qed
  moreover have "e ! (length e - 1) \<in> set e" using ne by simp
  ultimately show ?thesis using ne by metis
qed

lemma dots_loop_add: "dots_loop prev l i (m + n) s = do { s \<leftarrow> dots_loop prev l i m s; dots_loop prev l (i + m) n s }"
  by (induction m arbitrary: i s) (auto intro!: bind_option_cong)

lemma ent_ends:
  assumes inv: "dots_inv p i path offs out" and p: "p = u @ slash # e @ v" "i = length u + Suc (length e)"
    and v: "v = [] \<or> hd v = slash"
  shows "path i = slash \<or> i = length p"
  using inv p v by (cases v) (auto simp: dots_inv_def nth_append)

lemma end_plain:
  assumes inv: "dots_inv p i path offs (out @ e)" and p: "p = u @ slash # e @ v" "i = length u + Suc (length e)"
    and v: "v = [] \<or> hd v = slash" and e: "plain e" and tp: "st tp = length u" "0 < tp" "Suc tp < MAX_PATH"
  shows "dots_step prev (length p) i (path, offs, st, tp) =
    Some (path(i - offs := path i), offs, st(Suc tp := i), Suc tp)"
proof -
  have n: "i - st tp = Suc (length e)" using p(2) tp(1) by simp
  have o: "\<not> i < offs" using inv by (simp add: dots_inv_def)
  have l: "path (i - Suc 0) \<noteq> slash" using ent_last[OF inv p] e by (simp add: plain_def)
  note ep = ent_plain[OF inv p e, folded tp(1)]
  have "i \<noteq> 0" using p(2) by simp
  then show ?thesis using ent_ends[OF inv p v] l ep tp(2,3) o by (simp add: dots_step_def Let_def n)
qed

lemma end_dot:
  assumes inv: "dots_inv p i path 0 (out @ [dot])" and p: "p = u @ slash # [dot] @ v" "i = length u + 2"
    and v: "v = [] \<or> hd v = slash" and tp: "st tp = length u" "0 < tp" "Suc tp < MAX_PATH"
  shows "dots_step prev (length p) i (path, 0, st, tp) =
    Some (path(length u := path i), 2, st(Suc tp := i), Suc tp)"
proof -
  have p2: "i = length u + Suc (length [dot])" using p(2) by simp
  have n: "i - st tp = Suc (length [dot])" using p(2) tp(1) by simp
  have l: "path (i - Suc 0) \<noteq> slash" using ent_last[OF inv p(1) p2] by (simp add: comp_ok_def)
  have "path (length u + k) = (slash # [dot]) ! k" if "k \<le> length [dot]" for k
    using ent_orig[OF inv p(1) p2 disjI1 that] by simp
  then have "strncmp (\<lambda>k. path (st tp + k)) (cstr (lit ''/.'')) (Suc (length [dot])) = 0"
    using strncmp_dots(1)[of "[dot]" "\<lambda>k. path (length u + k)"] by (simp add: tp(1))
  moreover have "i \<noteq> 0" "i - Suc (Suc 0) = length u" "\<not> i < Suc (Suc 0)" using p(2) by auto
  ultimately show ?thesis using ent_ends[OF inv p(1) p2 v] l tp(2,3) by (simp add: dots_step_def Let_def n)
qed

lemma end_dotdot:
  assumes inv: "dots_inv p i path 0 (out @ [dot, dot])" and p: "p = u @ slash # [dot, dot] @ v" "i = length u + 3"
    and v: "v = [] \<or> hd v = slash" and tp: "st tp = length u" "0 < tp" "Suc tp < MAX_PATH"
    and tp': "tp' = (if tp > 1 then tp - 1 else tp)" "st tp' \<le> length u"
  shows "dots_step prev (length p) i (path, 0, st, tp) =
    Some (path(st tp' := path i), i - st tp', st(Suc tp' := i), Suc tp')"
proof -
  have p2: "i = length u + Suc (length [dot, dot])" using p(2) by simp
  have n: "i - st tp = Suc (length [dot, dot])" using p(2) tp(1) by simp
  have l: "path (i - Suc 0) \<noteq> slash" using ent_last[OF inv p(1) p2] by (simp add: comp_ok_def)
  have q: "path (length u + k) = (slash # [dot, dot]) ! k" if "k \<le> length [dot, dot]" for k
    using ent_orig[OF inv p(1) p2 disjI1 that] by simp
  have s: "strncmp (\<lambda>k. path (st tp + k)) (cstr (lit ''/.'')) (Suc (length [dot, dot])) \<noteq> 0"
      "strncmp (\<lambda>k. path (st tp + k)) (cstr (lit ''/..'')) (Suc (length [dot, dot])) = 0"
    using strncmp_dots[of "[dot, dot]" "\<lambda>k. path (length u + k)"] q by (simp_all add: tp(1))
  have b: "Suc tp' < MAX_PATH" "st tp' \<le> i" "i \<noteq> 0" "i - (i - st tp') = st tp'" using tp(2,3) tp' p(2) by auto
  show ?thesis
    using ent_ends[OF inv p(1) p2 v] l s tp(2) b by (simp add: dots_step_def Let_def n tp'(1)[symmetric, simplified])
qed

text \<open>Plain components are copied; the stack knows where each of them starts.\<close>

lemma dots_plain:
  assumes "dots_inv p (Suc (length u)) path offs out" "p = u @ abs_path es @ slash # w" "list_all plain es"
    "st tp = length u" "0 < tp" "2 * tp \<le> length u + 2" "length p < MAX_PATH"
  shows "\<exists>path' st'. dots_loop prev (length p) (Suc (length u)) (length (abs_path es)) (path, offs, st, tp) =
      Some (path', offs, st', tp + length es) \<and>
    dots_inv p (Suc (length u) + length (abs_path es)) path' offs (out @ tl (abs_path es @ [slash])) \<and>
    st' (tp + length es) = length u + length (abs_path es) \<and> (\<forall>k \<le> tp. st' k = st k) \<and>
    (es \<noteq> [] \<longrightarrow> st' (tp + length es - 1) = length u + length (abs_path (butlast es))) \<and>
    2 * (tp + length es) \<le> length u + length (abs_path es) + 2"
  using assms
proof (induction es arbitrary: u path out st tp)
  case Nil
  then show ?case by simp
next
  case (Cons e es)
  define i where "i = length u + Suc (length e)"
  define v where "v = abs_path es @ slash # w"
  have e: "plain e" "slash \<notin> set e" "e \<noteq> []" using Cons.prems(3) by (auto simp: plain_def comp_ok_def)
  have p: "p = u @ slash # e @ v" using Cons.prems(2) by (simp add: v_def)
  have "p = (u @ [slash]) @ e @ v" using p by simp
  from dots_copy[OF Cons.prems(1) this _ e(2), where prev = prev and st = st and tp = tp] obtain path1 where
    1: "dots_loop prev (length p) (Suc (length u)) (length e) (path, offs, st, tp) = Some (path1, offs, st, tp)"
      "dots_inv p i path1 offs (out @ e)" by (auto simp: i_def)
  have v: "v = [] \<or> hd v = slash" by (cases es) (simp_all add: v_def)
  have tp: "Suc tp < MAX_PATH" using Cons.prems(2,6,7) by (simp add: MAX_PATH_def)
  note 2 = end_plain[where st = st and tp = tp and out = out and prev = prev, OF 1(2) p i_def v e(1) Cons.prems(4,5) tp]
  have il: "i < length p" "p ! i = slash" using p v by (cases v; simp add: i_def nth_append v_def)+
  have 3: "dots_inv p (Suc i) (path1(i - offs := path1 i)) offs ((out @ e) @ [slash])"
    using dots_inv_write[OF 1(2) il(1)] il(2) by simp
  have li: "length (u @ slash # e) = i" by (simp add: i_def)
  have t2: "2 * Suc tp \<le> i + 2" using Cons.prems(6) e(3) by (cases e) (auto simp: i_def)
  have p': "p = (u @ slash # e) @ abs_path es @ slash # w" using Cons.prems(2) by simp
  have "list_all plain es" "(st(Suc tp := i)) (Suc tp) = i" "0 < Suc tp" using Cons.prems(3) by simp_all
  note IH = Cons.IH[where u = "u @ slash # e" and st = "st(Suc tp := i)" and tp = "Suc tp", unfolded li,
      OF 3 p' this t2 Cons.prems(7)]
  obtain path' st' where 4:
    "dots_loop prev (length p) (Suc i) (length (abs_path es)) (path1(i - offs := path1 i), offs, st(Suc tp := i), Suc tp) =
      Some (path', offs, st', Suc tp + length es)"
    "dots_inv p (Suc i + length (abs_path es)) path' offs (((out @ e) @ [slash]) @ tl (abs_path es @ [slash]))"
    "st' (Suc tp + length es) = i + length (abs_path es)" "\<forall>k \<le> Suc tp. st' k = (st(Suc tp := i)) k"
    "es \<noteq> [] \<longrightarrow> st' (Suc tp + length es - 1) = i + length (abs_path (butlast es))"
    "2 * (Suc tp + length es) \<le> i + length (abs_path es) + 2"
    using IH by blast
  have s1: "dots_loop prev (length p) (Suc (length u)) (Suc (length e)) (path, offs, st, tp) =
      Some (path1(i - offs := path1 i), offs, st(Suc tp := i), Suc tp)"
    using dots_loop_add[of prev "length p" "Suc (length u)" "length e" 1] 1(1) 2 by (simp add: i_def)
  have s2: "dots_loop prev (length p) (Suc (length u)) (length (abs_path (e # es))) (path, offs, st, tp) =
      Some (path', offs, st', tp + length (e # es))"
  proof -
    have l: "length (abs_path (e # es)) = Suc (length e) + length (abs_path es)" "Suc (length u) + Suc (length e) = Suc i"
      by (simp_all add: i_def)
    show ?thesis unfolding l(1) dots_loop_add s1 l(2) using 4(1) by simp
  qed
  have s3: "(out @ e) @ [slash] @ tl (abs_path es @ [slash]) = out @ tl (abs_path (e # es) @ [slash])"
    by (cases es) simp_all
  have s4: "st' (tp + length (e # es) - 1) = length u + length (abs_path (butlast (e # es)))"
    using 4(4,5) Cons.prems(4) by (cases es) (auto simp: i_def)
  show ?case
    using s2 4(2-4,6) s4 s3 by (intro exI[of _ path'] exI[of _ st']) (simp add: i_def add.assoc)
qed

text \<open>The last component.\<close>

lemma dots_last:
  assumes inv: "dots_inv p (Suc (length u)) path offs out" and p: "p = u @ slash # e" and e: "plain e"
    and tp: "st tp = length u" "0 < tp" "Suc tp < MAX_PATH" and out: "0 \<notin> set out"
  shows "\<exists>path' st' tp'. dots_loop prev (length p) (Suc (length u)) (Suc (length e)) (path, offs, st, tp) =
      Some (path', offs, st', tp') \<and> holds_str path' 0 (out @ e)"
proof -
  have e': "0 \<notin> set e" "slash \<notin> set e" using e by (auto simp: plain_def comp_ok_def)
  have l: "length p = Suc (length u) + length e" "length p = length u + Suc (length e)" by (simp_all add: p)
  have "p = (u @ [slash]) @ e @ []" "length (u @ [slash]) = Suc (length u)" by (simp_all add: p)
  from dots_copy[OF inv this e'(2), where prev = prev and st = st and tp = tp, folded l(1)] obtain path1 where
    1: "dots_loop prev (length p) (Suc (length u)) (length e) (path, offs, st, tp) = Some (path1, offs, st, tp)"
      "dots_inv p (length p) path1 offs (out @ e)" by blast
  have "p = u @ slash # e @ []" by (simp add: p)
  note 2 = end_plain[where st = st and tp = tp and out = out and prev = prev, OF 1(2) this l(2) disjI1[OF refl] e tp]
  note inv' = 1(2)[unfolded dots_inv_def]
  have "load_list (path1(length p - offs := path1 (length p))) 0 (length (out @ e)) = out @ e"
    using inv' by (intro nth_equalityI) auto
  then have "holds_str (path1(length p - offs := path1 (length p))) 0 (out @ e)"
    using inv' out e' by (auto simp: holds_str_def)
  moreover have "dots_loop prev (length p) (Suc (length u)) (Suc (length e)) (path, offs, st, tp) =
      Some (path1(length p - offs := path1 (length p)), offs, st(Suc tp := length p), Suc tp)"
    using dots_loop_add[of prev "length p" "Suc (length u)" "length e" 1] 1(1) 2 l(1) by (simp del: fun_upd_apply)
  ultimately show ?thesis by blast
qed

lemma abs_path_split: "es \<noteq> [] \<Longrightarrow> abs_path es = abs_path (butlast es) @ slash # last es"
  by (metis abs_path_simps append_butlast_last_id append_Nil2)

lemma abs_path_no_zero: "list_all plain es \<Longrightarrow> 0 \<notin> set (abs_path es)"
  by (induction es) (auto simp: plain_def comp_ok_def)

text \<open>From the slash at the end of \<open>u\<close> on, plain components only.\<close>

lemma dots_finish:
  assumes inv: "dots_inv p (Suc (length u)) path offs (out @ [slash])" and p: "p = u @ abs_path es" and es: "list_all plain es" "es \<noteq> []"
    and tp: "st tp = length u" "0 < tp" "2 * tp \<le> length u + 2" "length p < MAX_PATH" and out: "0 \<notin> set out"
  shows "\<exists>path' st' tp'. dots_loop prev (length p) (Suc (length u)) (length (abs_path es)) (path, offs, st, tp) =
      Some (path', offs, st', tp') \<and> holds_str path' 0 (out @ abs_path es)"
proof -
  let ?bs = "butlast es" and ?e = "last es"
  have plain: "list_all plain ?bs" "plain ?e" using es by (auto simp: list_all_iff dest: in_set_butlastD)
  have p': "p = u @ abs_path ?bs @ slash # ?e" using p abs_path_split[OF es(2)] by simp
  obtain path1 st1 where 1:
    "dots_loop prev (length p) (Suc (length u)) (length (abs_path ?bs)) (path, offs, st, tp) = Some (path1, offs, st1, tp + length ?bs)"
    "dots_inv p (Suc (length u) + length (abs_path ?bs)) path1 offs ((out @ [slash]) @ tl (abs_path ?bs @ [slash]))"
    "st1 (tp + length ?bs) = length u + length (abs_path ?bs)" "2 * (tp + length ?bs) \<le> length u + length (abs_path ?bs) + 2"
    using dots_plain[where st = st and tp = tp and prev = prev, OF inv p' plain(1) tp] by blast
  have o: "(out @ [slash]) @ tl (abs_path ?bs @ [slash]) = out @ abs_path ?bs @ [slash]" by (cases ?bs) simp_all
  have lu: "length (u @ abs_path ?bs) = length u + length (abs_path ?bs)" by simp
  have "dots_inv p (Suc (length (u @ abs_path ?bs))) path1 offs (out @ abs_path ?bs @ [slash])" using 1(2) by (simp add: o[simplified])
  moreover have "p = (u @ abs_path ?bs) @ slash # ?e" using p' by simp
  moreover have "st1 (tp + length ?bs) = length (u @ abs_path ?bs)" "0 < tp + length ?bs" using 1(3) tp(2) by simp_all
  moreover have "Suc (tp + length ?bs) < MAX_PATH" using 1(4) tp(4) p' by (simp add: MAX_PATH_def)
  moreover have "0 \<notin> set (out @ abs_path ?bs @ [slash])" using out abs_path_no_zero[OF plain(1)] by simp
  ultimately obtain path2 st2 tp2 where 2:
    "dots_loop prev (length p) (Suc (length (u @ abs_path ?bs))) (Suc (length ?e)) (path1, offs, st1, tp + length ?bs) = Some (path2, offs, st2, tp2)"
    "holds_str path2 0 ((out @ abs_path ?bs @ [slash]) @ ?e)"
    using dots_last[where st = st1 and tp = "tp + length ?bs" and prev = prev, OF _ _ plain(2)] by blast
  have l: "length (abs_path es) = length (abs_path ?bs) + Suc (length ?e)" "Suc (length u) + length (abs_path ?bs) = Suc (length (u @ abs_path ?bs))"
    using abs_path_split[OF es(2)] by simp_all
  have "dots_loop prev (length p) (Suc (length u)) (length (abs_path es)) (path, offs, st, tp) = Some (path2, offs, st2, tp2)"
    unfolding l(1) dots_loop_add 1(1) l(2) using 2(1) by simp
  moreover have "(out @ abs_path ?bs @ [slash]) @ ?e = out @ abs_path es" using abs_path_split[OF es(2)] by simp
  ultimately show ?thesis using 2(2) by auto
qed

text \<open>The start: the first slash is pushed when the byte below the buffer is not a slash.\<close>

lemma dots_start:
  assumes "path 0 = slash" "prev \<noteq> slash"
  shows "dots_loop prev l 0 (Suc n) (path, 0, st, 0) = dots_loop prev l 1 n (path, 0, st(1 := 0), 1)"
  using assms by (simp add: dots_step_def MAX_PATH_def fun_upd_idem)

lemma dots_inv_trunc: 
  assumes "dots_inv p i path 0 out" "n < i" shows "dots_inv p i path (i - n) (take n out)"
proof -
  have "path k = p ! k" if "k < length p" for k
    using assms that by (cases "k < i") (auto simp: dots_inv_def)
  then show ?thesis using assms by (auto simp: dots_inv_def)
qed

lemma dots_after:
  assumes inv: "dots_inv p i path offs out" and p: "p = u @ abs_path fs" "length u = i" and fs: "list_all plain fs"
    and out: "0 \<notin> set out" and tp: "2 * Suc tp \<le> i + 2" "length p < MAX_PATH"
  shows "\<exists>path' st' tp'. dots_loop prev (length p) (Suc i) (length (abs_path fs))
      (path(i - offs := path i), offs, st(Suc tp := i), Suc tp) = Some (path', offs, st', tp') \<and>
    holds_str path' 0 (out @ abs_path fs)"
proof (cases "fs = []")
  case True
  have "load_list (path(i - offs := path i)) 0 (length out) = out"
    using inv by (intro nth_equalityI) (auto simp: dots_inv_def)
  then have "holds_str (path(i - offs := path i)) 0 out"
    using inv out p by (auto simp: holds_str_def dots_inv_def True)
  then show ?thesis by (simp add: True)
next
  case False
  have "i < length p" "p ! i = slash" using p abs_path_split[OF False] by (cases fs; auto simp: nth_append False)+
  then have "dots_inv p (Suc (length u)) (path(i - offs := path i)) offs (out @ [slash])"
    using dots_inv_write[OF inv] p(2) by simp
  moreover have "(st(Suc tp := i)) (Suc tp) = length u" using p(2) by simp
  ultimately show ?thesis
    using dots_finish[where st = "st(Suc tp := i)" and tp = "Suc tp" and u = u and prev = prev, OF _ p(1) fs False _ _ _ tp(2) out]
      tp(1) p(2) by blast
qed

text \<open>A path with one dot component behind plain ones.\<close>

lemma dots_one:
  assumes inv: "dots_inv p 1 path 0 [slash]" and p: "p = abs_path (cs @ d # fs)" and cs: "list_all plain cs" and fs: "list_all plain fs"
    and d: "d = [dot] \<or> d = [dot, dot]" and l: "length p < MAX_PATH"
  shows "\<exists>path' offs' st' tp'. dots_loop prev (length p) 1 (length p) (path, 0, \<lambda>_. 0, 1) = Some (path', offs', st', tp') \<and>
    holds_str path' 0 (abs_path ((if d = [dot] then cs else butlast cs) @ fs))"
proof -
  define u where "u = abs_path cs"
  define v where "v = abs_path fs"
  define i where "i = length u + Suc (length d)"
  have v: "v = [] \<or> hd v = slash" by (cases fs) (simp_all add: v_def)
  have p1: "p = [] @ abs_path cs @ slash # d @ v" using p by (simp add: v_def)
  have p2: "p = u @ slash # d @ v" using p by (simp add: u_def v_def)
  have inv0: "dots_inv p (Suc (length [])) path 0 [slash]" using inv by simp
  obtain path1 st1 where 1:
    "dots_loop prev (length p) 1 (length u) (path, 0, \<lambda>_. 0, 1) = Some (path1, 0, st1, 1 + length cs)"
    "dots_inv p (Suc (length u)) path1 0 ([slash] @ tl (u @ [slash]))"
    "st1 (1 + length cs) = length u" "cs \<noteq> [] \<longrightarrow> st1 (length cs) = length (abs_path (butlast cs))"
    "2 * (1 + length cs) \<le> length u + 2"
    using dots_plain[where st = "\<lambda>_. 0" and tp = 1 and prev = prev, OF inv0 p1 cs _ _ _ l] unfolding u_def[symmetric] by auto
  have o: "[slash] @ tl (u @ [slash]) = u @ [slash]" by (cases cs) (simp_all add: u_def)
  have pd: "p = (u @ [slash]) @ d @ v" "length (u @ [slash]) = Suc (length u)" "slash \<notin> set d" using p2 d by auto
  obtain path2 where 2:
    "dots_loop prev (length p) (Suc (length u)) (length d) (path1, 0, st1, 1 + length cs) = Some (path2, 0, st1, 1 + length cs)"
    "dots_inv p i path2 0 ((u @ [slash]) @ d)"
    using dots_copy[OF 1(2)[unfolded o] pd, where prev = prev and st = st1 and tp = "1 + length cs"] by (auto simp: i_def)
  define ds where "ds = (if d = [dot] then cs else butlast cs)"
  define tp' where "tp' = (if d = [dot] \<or> cs = [] then 1 + length cs else length cs)"
  let ?out = "abs_path ds"
  have tp: "Suc (1 + length cs) < MAX_PATH" using 1(5) l p2 by (simp add: MAX_PATH_def)
  have lo: "length ?out \<le> length u"
  proof -
    have "u = abs_path (butlast cs) @ (if cs = [] then [] else slash # last cs)"
      using abs_path_split[of cs] by (simp add: u_def)
    from arg_cong[OF this, of length] show ?thesis by (simp add: ds_def u_def)
  qed
  have take: "take (length ?out) ((u @ [slash]) @ d) = ?out"
  proof (cases "d = [dot]")
    case False
    then show ?thesis using abs_path_split[of cs] by (cases "cs = []") (simp_all add: ds_def u_def)
  qed (simp add: ds_def u_def)
  have st: "dots_step prev (length p) i (path2, 0, st1, 1 + length cs) =
      Some (path2(i - (i - length ?out) := path2 i), i - length ?out, st1(Suc tp' := i), Suc tp')"
  proof (cases "d = [dot]")
    case True
    have "i = length u + 2" using True by (simp add: i_def)
    moreover have "p = u @ slash # [dot] @ v" using p2 True by simp
    ultimately show ?thesis
      using end_dot[where st = st1 and tp = "1 + length cs" and prev = prev and out = "u @ [slash]", OF _ _ _ v 1(3) _ tp] 2(2) True
      by (simp add: ds_def u_def tp'_def)
  next
    case False
    then have dd: "d = [dot, dot]" using d by simp
    have s: "st1 tp' = length ?out" using 1(3,4) False by (cases "cs = []") (simp_all add: ds_def tp'_def u_def)
    have "tp' = (if 1 + length cs > 1 then 1 + length cs - 1 else 1 + length cs)" using False by (simp add: tp'_def)
    moreover have "i = length u + 3" using dd by (simp add: i_def)
    moreover have "p = u @ slash # [dot, dot] @ v" using p2 dd by simp
    moreover have "i - (i - length ?out) = length ?out" using lo by (simp add: i_def)
    ultimately show ?thesis
      using end_dotdot[where st = st1 and tp = "1 + length cs" and prev = prev and out = "u @ [slash]" and tp' = tp', OF _ _ _ v 1(3) _ tp]
        2(2) dd s lo by simp
  qed
  have inv2: "dots_inv p i path2 (i - length ?out) ?out"
    using dots_inv_trunc[OF 2(2), of "length ?out"] lo take by (simp add: i_def)
  have pu: "p = (u @ slash # d) @ abs_path fs" "length (u @ slash # d) = i" using p2 by (simp_all add: v_def i_def)
  have nz: "0 \<notin> set ?out"
  proof -
    have "list_all plain ds" using cs by (auto simp: ds_def list_all_iff dest: in_set_butlastD)
    then show ?thesis by (rule abs_path_no_zero)
  qed
  have tp2: "2 * Suc tp' \<le> i + 2" using 1(5) d by (auto simp: tp'_def i_def)
  obtain path3 st3 tp3 where 3:
    "dots_loop prev (length p) (Suc i) (length (abs_path fs))
      (path2(i - (i - length ?out) := path2 i), i - length ?out, st1(Suc tp' := i), Suc tp') = Some (path3, i - length ?out, st3, tp3)"
    "holds_str path3 0 (?out @ abs_path fs)"
    using dots_after[where st = st1 and tp = tp' and prev = prev, OF inv2 pu fs nz tp2 l] by blast
  have lp: "length p = length u + (length d + (1 + length (abs_path fs)))" "1 + length u = Suc (length u)"
    "Suc (length u) + length d = i" using p2 by (simp_all add: v_def i_def)
  have "dots_loop prev (length p) 1 (length u + (length d + (1 + length (abs_path fs)))) (path, 0, \<lambda>_. 0, 1) =
      Some (path3, i - length ?out, st3, tp3)"
    unfolding dots_loop_add 1(1) using 2(1) st 3(1) lp(2,3) by (simp del: fun_upd_apply)
  then have "dots_loop prev (length p) 1 (length p) (path, 0, \<lambda>_. 0, 1) = Some (path3, i - length ?out, st3, tp3)"
    unfolding lp(1)[symmetric] .
  then show ?thesis using 3(2) by (auto simp: ds_def)
qed

subsection \<open>The path a relative path stands for\<close>

text \<open>The components after taking out the dots, as they are meant: a stack of directories.\<close>

definition is_dots :: "u8 list \<Rightarrow> bool" where
  "is_dots e \<longleftrightarrow> e = [dot] \<or> e = [dot, dot]"

fun resolve_dots :: "u8 list list \<Rightarrow> u8 list list \<Rightarrow> u8 list list" where
  "resolve_dots ds [] = ds"
| "resolve_dots ds (e # es) =
     resolve_dots (if e = [dot] then ds else if e = [dot, dot] then butlast ds else ds @ [e]) es"

definition root_or :: "u8 list \<Rightarrow> u8 list" where
  "root_or xs = (if xs = [] then [slash] else xs)"

lemma resolve_dots_plain: "list_all plain es \<Longrightarrow> resolve_dots ds (es @ fs) = resolve_dots (ds @ es) fs"
  by (induction es arbitrary: ds) (simp_all add: plain_def)

lemma abs_path_join: "es \<noteq> [] \<Longrightarrow> abs_path es = slash # join_path es"
  by (induction es rule: join_path.induct) simp_all

lemma shift_loop_eq:
  "shift_loop path c n k = (if c < k \<and> k \<le> c + n then path (k - c - 1) else path k)"
proof (induction n arbitrary: path)
  case (Suc n)
  show ?case unfolding shift_loop.simps Suc by (auto simp: not_le le_Suc_eq)
qed auto

text \<open>The buffer before the loop.\<close>

lemma joined_path:
  assumes "holds_str path 0 xs" "load_list cwd 0 c = ys" "length ys = c"
  shows "dots_inv (ys @ slash # xs) 0 ((store_list (shift_loop path c (length xs)) 0 (load_list cwd 0 c))(c := slash,
    length xs + c + 1 := 0)) 0 []"
proof -
  have "path k = xs ! k" if "k < length xs" for k using holds_str_nth[OF assms(1) that] by simp
  then show ?thesis
    using assms(2,3) by (auto simp: dots_inv_def store_list_def shift_loop_eq nth_append nth_Cons')
qed

lemma dots_all:
  assumes inv: "dots_inv (abs_path (cs @ ts)) 0 path 0 []" and cs: "list_all plain cs" and ts: "ts \<noteq> []" "list_all comp_ok ts"
    and one: "length (filter is_dots ts) \<le> 1" and prev: "prev \<noteq> slash" and l: "length (abs_path (cs @ ts)) < MAX_PATH"
  shows "\<exists>path' offs st tp. dots_loop prev (length (abs_path (cs @ ts))) 0 (Suc (length (abs_path (cs @ ts)))) (path, 0, \<lambda>_. 0, 0) =
      Some (path', offs, st, tp) \<and> holds_str path' 0 (abs_path (resolve_dots cs ts))"
proof -
  let ?p = "abs_path (cs @ ts)"
  have ne: "?p \<noteq> []" "?p ! 0 = slash" using ts by (cases cs; cases ts; simp)+
  then have p0: "path 0 = slash" using inv by (auto simp: dots_inv_def)
  have inv1: "dots_inv ?p 1 path 0 [slash]"
    using dots_inv_write[OF inv] ne by (simp add: fun_upd_idem)
  have plain: "plain e" if "comp_ok e" "\<not> is_dots e" for e using that by (auto simp: plain_def is_dots_def)
  have "\<exists>path' offs st tp. dots_loop prev (length ?p) 1 (length ?p) (path, 0, \<lambda>_. 0, 1) = Some (path', offs, st, tp) \<and>
      holds_str path' 0 (abs_path (resolve_dots cs ts))"
  proof (cases "\<exists>d \<in> set ts. is_dots d")
    case False
    then have pl: "list_all plain ts" using ts(2) plain by (auto simp: list_all_iff)
    then have "list_all plain (cs @ ts)" "cs @ ts \<noteq> []" using cs ts by simp_all
    moreover have "dots_inv ?p (Suc (length [])) path 0 ([] @ [slash])" using inv1 by simp
    moreover have "?p = [] @ abs_path (cs @ ts)" by simp
    ultimately have "\<exists>path' st tp. dots_loop prev (length ?p) 1 (length ?p) (path, 0, \<lambda>_. 0, 1) = Some (path', 0, st, tp) \<and>
        holds_str path' 0 ?p"
      using dots_finish[where out = "[]" and u = "[]" and st = "\<lambda>_. 0" and tp = 1 and prev = prev, OF _ _ _ _ _ _ _ l] by fastforce
    moreover have "resolve_dots cs ts = cs @ ts" using resolve_dots_plain[OF pl, of cs "[]"] by simp
    ultimately show ?thesis by metis
  next
    case True
    then obtain es d fs where t: "ts = es @ d # fs" "is_dots d" by (meson split_list)
    with one have "filter is_dots es = []" "filter is_dots fs = []" by auto
    then have pl: "list_all plain es" "list_all plain fs"
      using ts(2) plain by (auto simp: t(1) list_all_iff filter_empty_conv)
    then have "list_all plain (cs @ es)" using cs by simp
    moreover have "?p = abs_path ((cs @ es) @ d # fs)" by (simp add: t(1))
    ultimately have "\<exists>path' offs' st' tp'. dots_loop prev (length ?p) 1 (length ?p) (path, 0, \<lambda>_. 0, 1) = Some (path', offs', st', tp') \<and>
        holds_str path' 0 (abs_path ((if d = [dot] then cs @ es else butlast (cs @ es)) @ fs))"
      using dots_one[OF inv1 _ _ pl(2) _ l, where prev = prev] t(2) unfolding is_dots_def by blast
    moreover have "resolve_dots cs ts = (if d = [dot] then cs @ es else butlast (cs @ es)) @ fs"
      unfolding t(1) resolve_dots_plain[OF pl(1)]
      using t(2) resolve_dots_plain[OF pl(2), where fs = "[]"] by (auto simp: is_dots_def)
    ultimately show ?thesis by metis
  qed
  moreover have "dots_loop prev (length ?p) 0 (Suc (length ?p)) (path, 0, \<lambda>_. 0, 0) =
      dots_loop prev (length ?p) 1 (length ?p) (path, 0, (\<lambda>_. 0)(1 := 0), 1)"
    by (rule dots_start[where path = path and prev = prev and st = "\<lambda>_. 0", OF p0 prev])
  moreover have "(\<lambda>_ :: nat. 0 :: nat)(1 := 0) = (\<lambda>_. 0)" by (simp add: fun_upd_idem)
  ultimately show ?thesis by simp
qed

text \<open>C8. A relative path with at most one dot component becomes the absolute path it stands for: the
  working directory and the path, without \<^verbatim>\<open>.\<close> and with the directory in front of \<^verbatim>\<open>..\<close> taken back;
  provided the byte below the buffer is not a slash.\<close>

theorem relative_path_resolves:
  assumes cs: "list_all plain cs" and ts: "ts \<noteq> []" "list_all comp_ok ts" "length (filter is_dots ts) \<le> 1"
    and mem: "holds_str cwd 0 (root_or (abs_path cs))" "holds_str path 0 (join_path ts)"
    and prev: "prev \<noteq> slash" and len: "length (abs_path (cs @ ts)) < MAX_PATH"
  shows "\<exists>path'. process_relative_path prev cwd path = Some path' \<and>
    holds_str path' 0 (root_or (abs_path (resolve_dots cs ts)))"
proof -
  let ?p = "abs_path (cs @ ts)" and ?xs = "join_path ts"
  obtain t us where t: "ts = t # us" using ts(1) by (cases ts) auto
  with ts(2) obtain x xs where x: "t = x # xs" "x \<noteq> slash" by (cases t) (auto simp: comp_ok_def)
  have "\<exists>ys. ?xs = x # ys" by (simp add: t x(1) join_path_Cons)
  then have p0: "path 0 \<noteq> slash" using mem(2) x(2) by auto
  have root: "root_or (abs_path cs) = [slash] \<longleftrightarrow> cs = []"
    using cs by (cases cs) (auto simp: root_or_def plain_def comp_ok_def)
  have lit: "holds_str (cstr (lit ''/'')) 0 [slash]" unfolding lit_dots by (rule holds_str_cstr) simp
  obtain r where r: "strcmp cwd (cstr (lit ''/'')) = Some r" "r = 0 \<longleftrightarrow> cs = []"
  proof -
    obtain r where "strcmp cwd (cstr (lit ''/'')) = Some r" "r = 0 \<longleftrightarrow> holds_str cwd 0 [slash]"
      using strcmp_right[OF lit, of cwd] by blast
    moreover have "holds_str cwd 0 [slash] \<longleftrightarrow> cs = []" using mem(1) holds_str_unique[OF mem(1)] root by metis
    ultimately show ?thesis using that by simp
  qed
  define c where "c = length (abs_path cs)"
  have c: "(if r = 0 then 0 else length (root_or (abs_path cs))) = c" using r(2) by (cases cs) (simp_all add: c_def root_or_def)
  have "load_list cwd 0 c = abs_path cs"
    using mem(1) by (cases "cs = []") (simp_all add: c_def root_or_def holds_str_def split: if_splits)
  define path1 where "path1 = (store_list (shift_loop path c (length ?xs)) 0 (load_list cwd 0 c))(c := slash, length ?xs + c + 1 := 0)"
  have p: "?p = abs_path cs @ slash # ?xs" using abs_path_join[OF ts(1)] by simp
  have inv: "dots_inv ?p 0 path1 0 []"
    unfolding p path1_def using joined_path[OF mem(2) \<open>load_list cwd 0 c = _\<close>] by (simp add: c_def)
  have l: "length ?p = length ?xs + c + 1" unfolding p c_def by simp
  obtain path2 offs st tp where 2:
    "dots_loop prev (length ?p) 0 (Suc (length ?p)) (path1, 0, \<lambda>_. 0, 0) = Some (path2, offs, st, tp)"
    "holds_str path2 0 (abs_path (resolve_dots cs ts))"
    using dots_all[OF inv cs ts prev len] by blast
  obtain r2 where r2: "strcmp path2 (cstr []) = Some r2" "r2 = 0 \<longleftrightarrow> abs_path (resolve_dots cs ts) = []"
  proof -
    have "holds_str (cstr []) 0 []" by (simp add: cstr_def)
    then obtain r where "strcmp path2 (cstr []) = Some r" "r = 0 \<longleftrightarrow> holds_str path2 0 []"
      using strcmp_right[of "cstr []" "[]" path2] by blast
    moreover have "holds_str path2 0 [] \<longleftrightarrow> abs_path (resolve_dots cs ts) = []"
      using 2(2) holds_str_unique[OF 2(2), of "[]"] by metis
    ultimately show ?thesis using that by simp
  qed
  have "holds_str (store_list path2 0 [slash, 0]) 0 [slash]" by (simp add: store_list_def)
  moreover have "process_relative_path prev cwd path = Some (if r2 = 0 then store_list path2 0 [slash, 0] else path2)"
  proof -
    have steps: "length ?xs + c + 2 = Suc (length ?p)" and bound: "length ?xs + c + 1 < MAX_PATH" using l len by auto
    show ?thesis
      unfolding process_relative_path_def if_not_P[OF p0] strlen_holds[OF mem(2)] strlen_holds[OF mem(1)] r(1)
        Option.bind.bind_lunit Let_def c path1_def[symmetric] steps
      unfolding l[symmetric] 2(1) using bound l r2(1) by simp
  qed
  ultimately show ?thesis using 2(2) r2(2) by (auto simp: root_or_def)
qed

lemma relative_path_resolves_witness:
  "\<exists>path'. process_relative_path 0 (cstr (lit ''/ram/a'')) (cstr (lit ''../b'')) = Some path' \<and>
    holds_str path' 0 (lit ''/ram/b'')"
proof -
  let ?cs = "[lit ''ram'', lit ''a'']" and ?ts = "[[dot, dot], lit ''b'']"
  have 1: "list_all plain ?cs" by (simp add: lit_def plain_def comp_ok_def slash_def dot_def)
  have 2: "list_all comp_ok ?ts" by (simp add: lit_def comp_ok_def slash_def dot_def)
  have 3: "length (filter is_dots ?ts) \<le> 1" by (simp add: is_dots_def lit_def dot_def)
  have eqs: "root_or (abs_path ?cs) = lit ''/ram/a''" "join_path ?ts = lit ''../b''"
    "root_or (abs_path (resolve_dots ?cs ?ts)) = lit ''/ram/b''"
    by (simp_all add: lit_def slash_def dot_def root_or_def)
  have 4: "holds_str (cstr (lit ''/ram/a'')) 0 (root_or (abs_path ?cs))" "holds_str (cstr (lit ''../b'')) 0 (join_path ?ts)"
    unfolding eqs by (rule holds_str_cstr, simp add: lit_def)+
  have 5: "(0 :: u8) \<noteq> slash" "length (abs_path (?cs @ ?ts)) < MAX_PATH" by (simp_all add: lit_def MAX_PATH_def)
  show ?thesis using relative_path_resolves[OF 1 _ 2 3 4 5] unfolding eqs by simp
qed

text \<open>Two dot components in a row go wrong: below \<^verbatim>\<open>/x\<close> the path \<^verbatim>\<open>a/../../b\<close> makes the loop write in front
  of the buffer, and \<^verbatim>\<open>./..\<close> leaves the \<^verbatim>\<open>..\<close> in the path.\<close>

lemma two_dots_go_wrong:
  "process_relative_path 0 (cstr (lit ''/x'')) (cstr (lit ''a/../../b'')) = None \<and>
   map_option (\<lambda>p. load_list p 0 6) (process_relative_path 0 (cstr (lit ''/x'')) (cstr (lit ''./..''))) =
    Some (lit ''/x/..'' @ [0])"
  by code_simp

subsection \<open>The name in front of a path\<close>

lemma name_loop_skip:
  "(\<And>k. k < m \<Longrightarrow> path (i + k + 1) \<noteq> slash) \<Longrightarrow> i + m \<le> DEV_NAME_LEN \<Longrightarrow>
    name_loop path f i (m + n) = name_loop path (store_list f i (load_list path (i + 1) m)) (i + m) n"
proof (induction m arbitrary: f i)
  case (Suc m)
  have "path (i + 1) \<noteq> slash" "i < DEV_NAME_LEN" using Suc.prems(1)[of 0] Suc.prems(2) by simp_all
  moreover have p: "path (Suc i + k + 1) \<noteq> slash" if "k < m" for k using Suc.prems(1)[of "Suc k"] that by simp
  moreover have "Suc i + m \<le> DEV_NAME_LEN" using Suc.prems(2) by simp
  note Suc.IH[OF p this, of "f(i := path (i + 1))"]
  ultimately show ?case by (simp add: load_list_Suc store_list_Cons fun_upd_def)
qed simp

lemma drop_loop_eq:
  "0 < a \<Longrightarrow> drop_loop path a i n k = (if i \<le> k \<and> k < i + n then path (k + a) else path k)"
proof (induction n arbitrary: path i)
  case (Suc n)
  show ?case unfolding drop_loop.simps Suc.IH[OF Suc.prems] using Suc.prems by auto
qed auto

lemma index_loop_finds:
  assumes "holds_str f 0 x" "list_all (\<lambda>y. 0 \<notin> set y) xs"
  shows "\<exists>r. index_loop f xs i = Some r \<and> (x \<notin> set xs \<and> r = - 1 \<or> (\<exists>j < length xs. r = int (i + j) \<and> xs ! j = x \<and> x \<notin> set (take j xs)))"
  using assms(2)
proof (induction xs arbitrary: i)
  case (Cons y ys)
  then obtain r where r: "strcmp f (cstr y) = Some r" "r = 0 \<longleftrightarrow> holds_str f 0 y"
    using strcmp_right[OF holds_str_cstr[of y], of f] by auto
  have eq: "holds_str f 0 y \<longleftrightarrow> x = y" using holds_str_unique[OF assms(1)] assms(1) by blast
  show ?case
  proof (cases "x = y")
    case True
    then show ?thesis using r eq by (auto intro!: exI[of _ 0])
  next
    case False
    obtain q where q: "index_loop f ys (i + 1) = Some q"
      "x \<notin> set ys \<and> q = - 1 \<or> (\<exists>j < length ys. q = int (i + 1 + j) \<and> ys ! j = x \<and> x \<notin> set (take j ys))"
      using Cons by fastforce
    show ?thesis
    proof (cases "x \<in> set ys")
      case True
      with q(2) obtain j where "j < length ys" "q = int (i + 1 + j)" "ys ! j = x" "x \<notin> set (take j ys)" by auto
      then show ?thesis using q(1) r eq False by (auto intro!: exI[of _ "Suc j"])
    qed (use q r eq False in auto)
  qed
qed simp

lemma fs_names_ok: "list_all (\<lambda>y. 0 \<notin> set y) fs_names" "length fs_names = 6"
  by (simp_all add: fs_names_def lit_def)

lemma holds_str_I:
  assumes "0 \<notin> set xs" "\<And>k. k < length xs \<Longrightarrow> f k = xs ! k" "f (length xs) = 0" shows "holds_str f 0 xs"
proof -
  have "load_list f 0 (length xs) = xs" using assms(2) by (intro nth_equalityI) auto
  with assms(1,3) show ?thesis by (simp add: holds_str_def)
qed

text \<open>C30. The name between the first two slashes of an absolute path selects the file system, and the
  path goes on behind it; without a second slash the name itself is what the file system is given.\<close>

theorem get_index_splits:
  assumes path: "holds_str path 0 (slash # x @ ys)" and x: "slash \<notin> set x" "length x + 1 < DEV_NAME_LEN"
    and ys: "ys = [] \<or> hd ys = slash"
  shows "\<exists>path' i. get_index prev cwd path = Some (path', i) \<and> holds_str path' 0 (if ys = [] then x else tl ys) \<and>
    (if x \<in> set fs_names then 0 \<le> i \<and> i < 6 \<and> fs_names ! nat i = x else i = - 1)"
proof -
  let ?xs = "slash # x @ ys"
  have nth: "path k = ?xs ! k" if "k < length ?xs" for k using holds_str_nth[OF path that] by simp
  have zero: "path (length ?xs) = 0" "0 \<notin> set ?xs" using path holds_str_zero[OF path] by (auto simp: holds_str_def)
  have p0: "path 0 = slash" using nth[of 0] by simp
  have px: "path (k + 1) = x ! k" if "k < length x" for k using nth[of "k + 1"] that by (simp add: nth_append)
  have "path (0 + k + 1) \<noteq> slash" if "k < length x" for k using px[OF that] x(1) that by (metis add_0 nth_mem)
  note skip = name_loop_skip[where m = "length x" and i = 0 and path = path and f = "\<lambda>_. 0", OF this]
  have ld: "load_list path 1 (length x) = x" using px by (intro nth_equalityI) (simp_all add: add.commute)
  define f where "f = store_list (\<lambda>_. 0 :: u8) 0 x"
  have f: "holds_str (f(i := 0)) 0 x" if "i = length x \<or> i = length x + 1" for i
    using that zero(2) by (intro holds_str_I) (auto simp: f_def store_list_def)
  obtain a i where a: "name_loop path (\<lambda>_. 0) 0 (length ?xs) = Some (f, i, a)"
      "i = length x \<or> i = length x + 1" "a = (if ys = [] then 1 else length x + 2)"
  proof (cases "ys = []")
    case True
    then have "path (length x + 1) = 0" "path (length x + 1) \<noteq> slash" using zero by auto
    then have "name_loop path (\<lambda>_. 0) 0 (length x + 1) = Some (f(length x := 0), length x + 1, 1)"
      using skip[of 1] ld x(2) by (simp add: f_def)
    moreover have "f(length x := 0) = f" by (auto simp: f_def store_list_def)
    ultimately show ?thesis using that True by simp
  next
    case False
    then have r: "ys = slash # tl ys" using ys by (cases ys) auto
    then have "path (length x + 1) = slash" using nth[of "length x + 1"] by (cases ys) (auto simp: nth_append)
    then have "name_loop path (\<lambda>_. 0) 0 (length x + Suc (length ys)) = Some (f, length x, length x + 2)"
      using skip[of "Suc (length ys)"] ld x(2) by (simp add: f_def)
    then show ?thesis using that False by simp
  qed
  define path' where "path' = (drop_loop path a 0 (length ?xs - a))(length ?xs - a := 0)"
  have al: "a \<le> length ?xs" "0 < a" using a(3) by (cases ys; simp)+
  have dr: "drop a ?xs = (if ys = [] then x else tl ys)" using a(3) by (cases ys) simp_all
  have "holds_str path' 0 (drop a ?xs)"
  proof (rule holds_str_I)
    show "0 \<notin> set (drop a ?xs)" using zero(2) by (metis in_set_dropD)
    show "path' k = drop a ?xs ! k" if "k < length (drop a ?xs)" for k
      using that al nth[of "k + a"] by (simp add: path'_def drop_loop_eq add.commute)
    show "path' (length (drop a ?xs)) = 0" by (simp add: path'_def)
  qed
  moreover obtain r where "index_loop (f(i := 0)) fs_names 0 = Some r"
      "x \<notin> set fs_names \<and> r = - 1 \<or> (\<exists>j < length fs_names. r = int (0 + j) \<and> fs_names ! j = x \<and> x \<notin> set (take j fs_names))"
    using index_loop_finds[OF f[OF a(2)] fs_names_ok(1), of 0] by blast
  moreover have il: "i < DEV_NAME_LEN" "\<not> length ?xs < a" using a(2) x(2) al by auto
  have "get_index prev cwd path = do { index \<leftarrow> index_loop (f(i := 0)) fs_names 0; Some (path', index) }"
    unfolding get_index_def process_relative_path_def if_P[OF p0] Option.bind.bind_lunit strlen_holds[OF path] a(1) Let_def prod.case path'_def
    using il by simp
  ultimately show ?thesis unfolding dr using fs_names_ok(2) by (auto simp: in_set_conv_nth)
qed

lemma get_index_splits_witness:
  "\<exists>path'. get_index 0 (cstr (lit ''/'')) (cstr (lit ''/ram/a'')) = Some (path', 5) \<and> holds_str path' 0 (lit ''a'')"
proof -
  have p: "slash # lit ''ram'' @ lit ''/a'' = lit ''/ram/a''" by (simp add: lit_def slash_def)
  have 1: "holds_str (cstr (lit ''/ram/a'')) 0 (slash # lit ''ram'' @ lit ''/a'')"
    unfolding p by (rule holds_str_cstr) (simp add: lit_def)
  have 2: "slash \<notin> set (lit ''ram'')" "length (lit ''ram'') + 1 < DEV_NAME_LEN" "lit ''/a'' = [] \<or> hd (lit ''/a'') = slash"
    by (simp_all add: lit_def slash_def DEV_NAME_LEN_def)
  obtain path' i where r: "get_index 0 (cstr (lit ''/'')) (cstr (lit ''/ram/a'')) = Some (path', i)"
    "holds_str path' 0 (tl (lit ''/a''))" "0 \<le> i \<and> i < 6 \<and> fs_names ! nat i = lit ''ram''"
    using get_index_splits[OF 1 2, of 0 "cstr (lit ''/'')"] by (auto simp: fs_names_def lit_def split: if_splits)
  have "i = 0 \<or> i = 1 \<or> i = 2 \<or> i = 3 \<or> i = 4 \<or> i = 5" using conjunct1[OF r(3)] conjunct1[OF conjunct2[OF r(3)]] by arith
  then have "i = 5" using r(3) by (auto simp: fs_names_def lit_def)
  with r show ?thesis by (simp add: lit_def)
qed

end
