(* ===== verification/Vfs.thy ===== *)
theory Vfs
  imports VfsPath RamCreate
begin

text \<open>
  The virtual file system, \<^verbatim>\<open>kernel/vfs.c\<close>: the tables and the \<^verbatim>\<open>do_v*\<close> functions, each of which finds
  the file system of its path or descriptor and calls the entry of \<^verbatim>\<open>file_op\<close>.

  A \<^verbatim>\<open>struct file_op\<close> is a record of the functions, \<open>None\<close> for a null pointer; the functions work on
  the state \<open>'s\<close>. The operations of the Orange and the FAT32 file systems are arguments of the table,
  the ones of the RAM file system are the definitions of \<^verbatim>\<open>RamFile\<close>. To the state come the working
  directory of the current process, and \<open>prev_byte\<close>, the byte of the stack below a path buffer.
  What is printed on the console is left out.
\<close>

record vstate = fstate +
  cwd :: bytes
  prev_byte :: u8

subsection \<open>The tables\<close>

record 's file_op =
  op_create :: "('s \<Rightarrow> u8 list \<Rightarrow> ('s \<times> int) option) option"
  op_open :: "('s \<Rightarrow> u8 list \<Rightarrow> int \<Rightarrow> ('s \<times> int) option) option"
  op_close :: "('s \<Rightarrow> int \<Rightarrow> ('s \<times> int) option) option"
  op_read :: "('s \<Rightarrow> int \<Rightarrow> bytes \<Rightarrow> int \<Rightarrow> ('s \<times> bytes \<times> int) option) option"
  op_write :: "('s \<Rightarrow> int \<Rightarrow> bytes \<Rightarrow> int \<Rightarrow> ('s \<times> int) option) option"
  op_lseek :: "('s \<Rightarrow> int \<Rightarrow> int \<Rightarrow> int \<Rightarrow> ('s \<times> int) option) option"
  op_unlink :: "('s \<Rightarrow> u8 list \<Rightarrow> ('s \<times> int) option) option"
  op_delete :: "('s \<Rightarrow> u8 list \<Rightarrow> ('s \<times> int) option) option"
  op_opendir :: "('s \<Rightarrow> u8 list \<Rightarrow> ('s \<times> int) option) option"
  op_createdir :: "('s \<Rightarrow> u8 list \<Rightarrow> ('s \<times> int) option) option"
  op_deletedir :: "('s \<Rightarrow> u8 list \<Rightarrow> ('s \<times> int) option) option"
  op_link :: "('s \<Rightarrow> u8 list \<Rightarrow> u8 list \<Rightarrow> ('s \<times> int) option) option"

definition no_op :: "'s file_op" where
  "no_op = \<lparr>op_create = None, op_open = None, op_close = None, op_read = None, op_write = None, op_lseek = None,
     op_unlink = None, op_delete = None, op_opendir = None, op_createdir = None, op_deletedir = None, op_link = None\<rparr>"

text \<open>\<^verbatim>\<open>f_op_table\<close> as \<^verbatim>\<open>init_fileop_table\<close> leaves it; \<open>real\<close> has the functions \<^verbatim>\<open>real_*\<close> of the Orange
  file system, \<open>fat32\<close> those of FAT32.\<close>

definition NR_FS_OP :: nat where "NR_FS_OP = 4"
definition NR_FS :: nat where "NR_FS = 6"

definition init_fileop_table :: "('a vstate_scheme) file_op \<Rightarrow> ('a vstate_scheme) file_op \<Rightarrow>
    ('a vstate_scheme) file_op list" where
  "init_fileop_table real fat32 =
    [no_op\<lparr>op_open := op_open real, op_close := op_close real, op_write := op_write real, op_lseek := op_lseek real,
       op_unlink := op_unlink real, op_read := op_read real\<rparr>,
     no_op\<lparr>op_open := op_open real, op_close := op_close real, op_write := op_write real, op_lseek := op_lseek real,
       op_unlink := op_unlink real, op_delete := op_unlink real, op_read := op_read real\<rparr>,
     no_op\<lparr>op_create := op_create fat32, op_delete := op_delete fat32, op_open := op_open fat32, op_close := op_close fat32,
       op_write := op_write fat32, op_read := op_read fat32, op_opendir := op_opendir fat32, op_createdir := op_createdir fat32,
       op_deletedir := op_deletedir fat32\<rparr>,
     no_op\<lparr>op_create := Some rf_create, op_open := Some rf_open, op_close := Some rf_close, op_read := Some rf_read,
       op_write := Some rf_write, op_lseek := Some rf_lseek, op_delete := Some rf_delete, op_unlink := Some rf_unlink,
       op_opendir := Some rf_open_dir, op_createdir := Some rf_create_dir, op_deletedir := Some rf_delete_dir,
       op_link := Some rf_link\<rparr>]"

text \<open>The super blocks and their operations matter here only by what they are initialised to.\<close>

definition NR_SUPER_BLOCK :: nat where "NR_SUPER_BLOCK = 8"
definition NO_DEV :: int where "NO_DEV = 0"
definition DEV_HD :: int where "DEV_HD = 3"
definition DEV_CHAR_TTY :: int where "DEV_CHAR_TTY = 4"
definition NO_FS_TYPE :: int where "NO_FS_TYPE = 0"
definition ORANGE_TYPE :: int where "ORANGE_TYPE = 1"
definition FAT32_TYPE :: int where "FAT32_TYPE = 2"
definition TTY_FS_TYPE :: int where "TTY_FS_TYPE = 3"
definition RAM_FS_TYPE :: int where "RAM_FS_TYPE = 4"

record sb_head =
  sb_dev :: int
  fs_type :: int

definition init_super_block_table :: "sb_head list" where
  "init_super_block_table =
     replicate 3 \<lparr>sb_dev = DEV_CHAR_TTY, fs_type = TTY_FS_TYPE\<rparr> @
     [\<lparr>sb_dev = DEV_HD, fs_type = ORANGE_TYPE\<rparr>, \<lparr>sb_dev = DEV_HD, fs_type = FAT32_TYPE\<rparr>,
      \<lparr>sb_dev = DEV_HD, fs_type = RAM_FS_TYPE\<rparr>] @
     replicate (NR_SUPER_BLOCK - 6) \<lparr>sb_dev = NO_DEV, fs_type = NO_FS_TYPE\<rparr>"

text \<open>\<^verbatim>\<open>struct vfs\<close>; the pointers are indices into the tables.\<close>

record vfs =
  fs_name :: "u8 list"
  fs_op :: nat
  fs_sb :: nat
  fs_s_op :: nat

definition vfs_table :: "vfs list" where
  "vfs_table =
    [\<lparr>fs_name = lit ''dev_tty0'', fs_op = 0, fs_sb = 0, fs_s_op = 1\<rparr>,
     \<lparr>fs_name = lit ''dev_tty1'', fs_op = 0, fs_sb = 1, fs_s_op = 1\<rparr>,
     \<lparr>fs_name = lit ''dev_tty2'', fs_op = 0, fs_sb = 2, fs_s_op = 1\<rparr>,
     \<lparr>fs_name = lit ''fat0'', fs_op = 2, fs_sb = 4, fs_s_op = 1\<rparr>,
     \<lparr>fs_name = lit ''orange'', fs_op = 1, fs_sb = 3, fs_s_op = 0\<rparr>,
     \<lparr>fs_name = lit ''ram'', fs_op = 3, fs_sb = 5, fs_s_op = 1\<rparr>]"

text \<open>\<^verbatim>\<open>vfs_table[index].op\<close>\<close>

definition vfs_op :: "'s file_op list \<Rightarrow> int \<Rightarrow> 's file_op option" where
  "vfs_op tab index =
     (if 0 \<le> index \<and> nat index < NR_FS then Some (tab ! fs_op (vfs_table ! nat index)) else None)"

definition zero_desc :: file_desc where
  "zero_desc = \<lparr>fd_mode = 0, fd_pos = 0, fd_node = NullNode, flag = 0, dev_index = 0\<rparr>"

definition init_file_desc_table :: "'a fstate_scheme \<Rightarrow> 'a fstate_scheme" where
  "init_file_desc_table s = s\<lparr>f_desc_table := (\<lambda>i. if i < NR_FILE_DESC then zero_desc else f_desc_table s i)\<rparr>"

subsection \<open>From the path of a call to a file system\<close>

text \<open>The string in a buffer.\<close>

definition str_of :: "bytes \<Rightarrow> u8 list option" where
  "str_of m = do { n \<leftarrow> strlen m; Some (load_list m 0 n) }"

text \<open>The copy of the argument to \<^verbatim>\<open>pathname\<close>, made absolute; then the file system and its path.\<close>

definition abs_name :: "'a vstate_scheme \<Rightarrow> u8 list \<Rightarrow> bytes option" where
  "abs_name s path = (if length path < MAX_PATH
     then process_relative_path (prev_byte s) (cwd s) (cstr path) else None)"

definition split_name :: "'a vstate_scheme \<Rightarrow> bytes \<Rightarrow> (u8 list \<times> int) option" where
  "split_name s pathname = do {
     (rel, index) \<leftarrow> get_index (prev_byte s) (cwd s) pathname;
     rel \<leftarrow> str_of rel;
     Some (rel, index)
   }"

definition vfs_lookup :: "'a vstate_scheme \<Rightarrow> u8 list \<Rightarrow> (u8 list \<times> int) option" where
  "vfs_lookup s path = do { pathname \<leftarrow> abs_name s path; split_name s pathname }"

text \<open>\<^verbatim>\<open>p_proc_current->task.filp[fd]->dev_index\<close>\<close>

definition fd_index :: "'a fstate_scheme \<Rightarrow> int \<Rightarrow> int option" where
  "fd_index s fd = do { d \<leftarrow> fd_desc s fd; Some (dev_index (f_desc_table s d)) }"

subsection \<open>The calls\<close>

type_synonym 'a optab = "'a vstate_scheme file_op list"

definition do_vopen :: "'a optab \<Rightarrow> 'a vstate_scheme \<Rightarrow> u8 list \<Rightarrow> int \<Rightarrow> ('a vstate_scheme \<times> int) option" where
  "do_vopen tab s path flags = do {
     (pathname, index) \<leftarrow> vfs_lookup s path;
     if index = - 1 then Some (s, - 1) else do {
       op \<leftarrow> vfs_op tab index;
       opn \<leftarrow> op_open op;
       (s, fd) \<leftarrow> opn s pathname flags;
       if fd \<noteq> - 1 then do {
         d \<leftarrow> fd_desc s fd;
         Some (set_desc s d (\<lambda>e. e\<lparr>dev_index := index\<rparr>), fd)
       } else Some (s, fd)
     }
   }"

definition do_vclose :: "'a optab \<Rightarrow> 'a vstate_scheme \<Rightarrow> int \<Rightarrow> ('a vstate_scheme \<times> int) option" where
  "do_vclose tab s fd = do {
     index \<leftarrow> fd_index s fd;
     op \<leftarrow> vfs_op tab index;
     cls \<leftarrow> op_close op;
     cls s fd
   }"

definition do_vread :: "'a optab \<Rightarrow> 'a vstate_scheme \<Rightarrow> int \<Rightarrow> bytes \<Rightarrow> int \<Rightarrow> ('a vstate_scheme \<times> bytes \<times> int) option" where
  "do_vread tab s fd buf count = do {
     index \<leftarrow> fd_index s fd;
     op \<leftarrow> vfs_op tab index;
     rd \<leftarrow> op_read op;
     rd s fd buf count
   }"

text \<open>
  The loop of \<^verbatim>\<open>do_vwrite\<close> over pieces of 512 bytes; \<open>tmp\<close> is the buffer \<^verbatim>\<open>s\<close>, \<open>k\<close> the offset of
  \<^verbatim>\<open>fsbuf\<close> in the caller's buffer.
\<close>

partial_function (option) vwrite_loop :: "('s \<Rightarrow> int \<Rightarrow> bytes \<Rightarrow> int \<Rightarrow> ('s \<times> int) option) \<Rightarrow> 's \<Rightarrow> int \<Rightarrow> bytes \<Rightarrow>
    int \<Rightarrow> bytes \<Rightarrow> nat \<Rightarrow> int \<Rightarrow> ('s \<times> int) option" where
  "vwrite_loop wr s fd buf count tmp k f_len =
     (if f_len = 0 then Some (s, count) else do {
        let iobytes = min 512 f_len;
        let tmp = store_list tmp 0 (load_list buf k (nat iobytes));
        (s, bytes) \<leftarrow> wr s fd tmp iobytes;
        if bytes \<noteq> iobytes then Some (s, bytes)
        else vwrite_loop wr s fd buf count tmp (k + nat iobytes) (f_len - bytes)
      })"

declare vwrite_loop.simps [code]

definition do_vwrite :: "'a optab \<Rightarrow> 'a vstate_scheme \<Rightarrow> int \<Rightarrow> bytes \<Rightarrow> int \<Rightarrow> ('a vstate_scheme \<times> int) option" where
  "do_vwrite tab s fd buf count = do {
     index \<leftarrow> fd_index s fd;
     op \<leftarrow> vfs_op tab index;
     wr \<leftarrow> op_write op;
     vwrite_loop wr s fd buf count (\<lambda>_. 0) 0 count
   }"

definition do_vlseek :: "'a optab \<Rightarrow> 'a vstate_scheme \<Rightarrow> int \<Rightarrow> int \<Rightarrow> int \<Rightarrow> ('a vstate_scheme \<times> int) option" where
  "do_vlseek tab s fd offset whence = do {
     index \<leftarrow> fd_index s fd;
     op \<leftarrow> vfs_op tab index;
     seek \<leftarrow> op_lseek op;
     seek s fd offset whence
   }"

text \<open>The calls that pass one path on differ in the operation and in whether they make the path absolute
  before \<^verbatim>\<open>get_index\<close> does.\<close>

definition path_call :: "'a optab \<Rightarrow> ('a vstate_scheme file_op \<Rightarrow> ('a vstate_scheme \<Rightarrow> u8 list \<Rightarrow> ('a vstate_scheme \<times> int) option) option) \<Rightarrow>
    'a vstate_scheme \<Rightarrow> (u8 list \<times> int) option \<Rightarrow> ('a vstate_scheme \<times> int) option" where
  "path_call tab sel s name = do {
     (pathname, index) \<leftarrow> name;
     if index = - 1 then Some (s, - 1) else do {
       op \<leftarrow> vfs_op tab index;
       f \<leftarrow> sel op;
       f s pathname
     }
   }"

definition copy_name :: "u8 list \<Rightarrow> bytes option" where
  "copy_name path = (if length path < MAX_PATH then Some (cstr path) else None)"

definition do_vunlink :: "'a optab \<Rightarrow> 'a vstate_scheme \<Rightarrow> u8 list \<Rightarrow> ('a vstate_scheme \<times> int) option" where
  "do_vunlink tab s path = path_call tab op_unlink s (vfs_lookup s path)"

definition do_vcreate :: "'a optab \<Rightarrow> 'a vstate_scheme \<Rightarrow> u8 list \<Rightarrow> ('a vstate_scheme \<times> int) option" where
  "do_vcreate tab s path = path_call tab op_create s (vfs_lookup s path)"

definition do_vdelete :: "'a optab \<Rightarrow> 'a vstate_scheme \<Rightarrow> u8 list \<Rightarrow> ('a vstate_scheme \<times> int) option" where
  "do_vdelete tab s path = path_call tab op_delete s (do { pathname \<leftarrow> copy_name path; split_name s pathname })"

definition do_vdeletedir :: "'a optab \<Rightarrow> 'a vstate_scheme \<Rightarrow> u8 list \<Rightarrow> ('a vstate_scheme \<times> int) option" where
  "do_vdeletedir tab s path = path_call tab op_deletedir s (vfs_lookup s path)"

text \<open>\<^verbatim>\<open>do_vcreatedir\<close> takes the entry \<^verbatim>\<open>index\<close> of \<^verbatim>\<open>f_op_table\<close> itself, not the one of the file system.\<close>

definition do_vcreatedir :: "'a optab \<Rightarrow> 'a vstate_scheme \<Rightarrow> u8 list \<Rightarrow> ('a vstate_scheme \<times> int) option" where
  "do_vcreatedir tab s path = do {
     pathname \<leftarrow> copy_name path;
     (pathname, index) \<leftarrow> split_name s pathname;
     if index = - 1 then Some (s, - 1)
     else if \<not> nat index < NR_FS_OP then None
     else do { f \<leftarrow> op_createdir (tab ! nat index); f s pathname }
   }"

definition do_vopendir :: "'a optab \<Rightarrow> 'a vstate_scheme \<Rightarrow> u8 list \<Rightarrow> ('a vstate_scheme \<times> int) option" where
  "do_vopendir tab s path = do {
     pathname \<leftarrow> abs_name s path;
     r \<leftarrow> strcmp pathname (cstr (lit ''/''));
     if r = 0 then Some (s, 0) else do {
       r \<leftarrow> strcmp pathname (cstr (lit ''/ram''));
       if r = 0 then do {
         op \<leftarrow> vfs_op tab VFS_INDEX_RAMFS;
         f \<leftarrow> op_opendir op;
         f s (lit ''.'')
       }
       else do {
         (pathname, index) \<leftarrow> split_name s pathname;
         if index = - 1 then Some (s, - 1) else do {
           op \<leftarrow> vfs_op tab index;
           case op_opendir op of
             None \<Rightarrow> Some (s, - 1)
           | Some f \<Rightarrow> f s pathname
         }
       }
     }
   }"

definition do_vchdir :: "'a optab \<Rightarrow> 'a vstate_scheme \<Rightarrow> u8 list \<Rightarrow> ('a vstate_scheme \<times> int) option" where
  "do_vchdir tab s dirname = do {
     pathname \<leftarrow> abs_name s dirname;
     new_cwd \<leftarrow> str_of pathname;
     let set_cwd = (\<lambda>s :: 'a vstate_scheme. s\<lparr>cwd := store_list (cwd s) 0 (new_cwd @ [0])\<rparr>);
     r \<leftarrow> strcmp pathname (cstr (lit ''/''));
     if r = 0 then Some (set_cwd s, 0) else do {
       i \<leftarrow> index_loop (\<lambda>k. pathname (k + 1)) (map fs_name vfs_table) 0;
       if i \<noteq> - 1 then Some (set_cwd s, 0) else do {
         (pathname, index) \<leftarrow> split_name s pathname;
         if index = - 1 then Some (s, - 1) else do {
           op \<leftarrow> vfs_op tab index;
           f \<leftarrow> op_opendir op;
           (s, fd) \<leftarrow> f s pathname;
           if fd < 0 then Some (s, - 1) else do {
             cls \<leftarrow> op_close op;
             (s, r) \<leftarrow> cls s fd;
             Some (set_cwd s, 0)
           }
         }
       }
     }
   }"

definition do_vmkdir :: "'a optab \<Rightarrow> 'a vstate_scheme \<Rightarrow> u8 list \<Rightarrow> ('a vstate_scheme \<times> int) option" where
  "do_vmkdir tab s path = do {
     (pathname, index) \<leftarrow> vfs_lookup s path;
     op \<leftarrow> vfs_op tab index;
     f \<leftarrow> op_createdir op;
     f s pathname
   }"

definition do_vlink :: "'a optab \<Rightarrow> 'a vstate_scheme \<Rightarrow> u8 list \<Rightarrow> u8 list \<Rightarrow> ('a vstate_scheme \<times> int) option" where
  "do_vlink tab s oldpath newpath = do {
     oldname \<leftarrow> abs_name s oldpath;
     newname \<leftarrow> abs_name s newpath;
     (oldname, index) \<leftarrow> split_name s oldname;
     (newname, index') \<leftarrow> split_name s newname;
     if index = - 1 then Some (s, - 1) else do {
       op \<leftarrow> vfs_op tab index;
       f \<leftarrow> op_link op;
       f s oldname newname
     }
   }"

definition do_vreaddir :: "'a vstate_scheme \<Rightarrow> int \<Rightarrow> bytes \<Rightarrow> int \<Rightarrow> ('a vstate_scheme \<times> bytes \<times> int) option" where
  "do_vreaddir s fd buf count = do {
     index \<leftarrow> fd_index s fd;
     if index = VFS_INDEX_RAMFS then rf_readdir s fd buf else Some (s, buf, - 1)
   }"

subsection \<open>Files that are sequences of bytes\<close>

text \<open>
  What \<^verbatim>\<open>do_vwrite\<close> relies on in a \<^verbatim>\<open>write\<close>: the open file holds the bytes \<open>xs\<close> at position \<open>q\<close>, a
  call writes a part of the buffer there, and only a part when the file system is full.
\<close>

locale byte_file =
  fixes wr :: "'s \<Rightarrow> int \<Rightarrow> bytes \<Rightarrow> int \<Rightarrow> ('s \<times> int) option"
    and holds :: "'s \<Rightarrow> int \<Rightarrow> u8 list \<Rightarrow> nat \<Rightarrow> bool"
    and full :: "'s \<Rightarrow> bool"
  assumes write_some: "holds s fd xs q \<Longrightarrow> int q + int n < 2 ^ 31 \<Longrightarrow>
    \<exists>s' m. wr s fd buf (int n) = Some (s', int m) \<and> m \<le> n \<and> (m < n \<longrightarrow> full s') \<and>
      holds s' fd (overwrite xs q (load_list buf 0 m)) (q + m)"
    and holds_length: "holds s fd xs q \<Longrightarrow> q \<le> length xs"
begin

lemma overwrite_overwrite:
  assumes "q \<le> length xs"
  shows "overwrite (overwrite xs q ys) (q + length ys) zs = overwrite xs q (ys @ zs)"
  using assms by (simp add: overwrite_def min_def add.commute add.left_commute)

text \<open>The pieces add up to one write.\<close>

lemma vwrite_loop_bytes:
  assumes "holds s fd xs q" "int q + int n < 2 ^ 31"
  shows "\<exists>s' m r. vwrite_loop wr s fd buf count tmp k (int n) = Some (s', r) \<and> m \<le> n \<and>
    holds s' fd (overwrite xs q (load_list buf k m)) (q + m) \<and>
    (if m = n then r = count else full s' \<and> r = int (m mod 512))"
  using assms
proof (induction n arbitrary: s xs q tmp k rule: less_induct)
  case (less n)
  show ?case
  proof (cases "n = 0")
    case True
    have "overwrite xs q [] = xs" by (simp add: overwrite_def)
    with True less.prems show ?thesis by (intro exI[of _ s] exI[of _ "0 :: nat"] exI[of _ count]) (simp add: vwrite_loop.simps)
  next
    case False
    define p where "p = min 512 n"
    have p: "0 < p" "p \<le> n" "p \<le> 512" "min 512 (int n) = int p" using False by (auto simp: p_def min_def)
    define tmp' where "tmp' = store_list tmp 0 (load_list buf k p)"
    have b: "load_list tmp' 0 m = load_list buf k m" if "m \<le> p" for m
      using that by (intro nth_equalityI) (auto simp: tmp'_def store_list_def)
    obtain s1 m where 1: "wr s fd tmp' (int p) = Some (s1, int m)" "m \<le> p" "m < p \<longrightarrow> full s1"
        "holds s1 fd (overwrite xs q (load_list tmp' 0 m)) (q + m)"
      using write_some[OF less.prems(1), of p tmp'] less.prems(2) p(2) by auto
    show ?thesis
    proof (cases "m = p")
      case False
      then have "vwrite_loop wr s fd buf count tmp k (int n) = Some (s1, int m)"
        using 1(1) p \<open>n \<noteq> 0\<close> by (subst vwrite_loop.simps) (simp add: Let_def tmp'_def)
      then show ?thesis using 1 b[OF 1(2)] False p by (intro exI[of _ s1] exI[of _ m]) auto
    next
      case True
      define ys where "ys = overwrite xs q (load_list buf k p)"
      have h: "holds s1 fd ys (q + p)" using 1(4) True b[of p] by (simp add: ys_def)
      have "n - p < n" "int (q + p) + int (n - p) < 2 ^ 31" using p less.prems(2) by auto
      from less.IH[OF this(1) h this(2), of tmp' "k + p"] obtain s2 m2 r where
        2: "vwrite_loop wr s1 fd buf count tmp' (k + p) (int (n - p)) = Some (s2, r)" "m2 \<le> n - p"
          "holds s2 fd (overwrite ys (q + p) (load_list buf (k + p) m2)) (q + p + m2)"
          "if m2 = n - p then r = count else full s2 \<and> r = int (m2 mod 512)" by blast
      have "vwrite_loop wr s fd buf count tmp k (int n) = Some (s2, r)"
        using 1(1) 2(1) True p \<open>n \<noteq> 0\<close> by (subst vwrite_loop.simps) (simp add: Let_def tmp'_def of_nat_diff)
      moreover have "overwrite ys (q + p) (load_list buf (k + p) m2) = overwrite xs q (load_list buf k (p + m2))"
        using overwrite_overwrite[OF holds_length[OF less.prems(1)], of "load_list buf k p" "load_list buf (k + p) m2"]
        by (simp add: ys_def load_list_append)
      moreover have "p + m2 \<le> n" "m2 = n - p \<longleftrightarrow> p + m2 = n" using 2(2) p(2) by auto
      moreover have "m2 \<noteq> n - p \<Longrightarrow> p = 512" using 2(2) by (auto simp: p_def)
      ultimately show ?thesis using 2(3,4)
        by (intro exI[of _ s2] exI[of _ "p + m2"] exI[of _ r]) (auto simp: add.assoc)
    qed
  qed
qed

end

text \<open>The RAM file system keeps the promise.\<close>

definition ram_holds :: "'a fstate_scheme \<Rightarrow> int \<Rightarrow> u8 list \<Rightarrow> nat \<Rightarrow> bool" where
  "ram_holds s fd xs q \<longleftrightarrow> (\<exists>K cs d p. file_ok s K p cs \<and> open_on s fd d p \<and> fd_pos (f_desc_table s d) = int q \<and>
     q \<le> file_size s p \<and> xs = file_content s p cs)"

interpretation ram_file: byte_file rf_write ram_holds exhausted
proof
  fix s :: "'a fstate_scheme" and fd xs q n buf
  assume "ram_holds s fd xs q" "int q + int n < 2 ^ 31"
  then obtain K cs d p where h: "file_ok s K p cs" "open_on s fd d p" "fd_pos (f_desc_table s d) = int q" "q \<le> file_size s p"
      "xs = file_content s p cs" and n: "0 \<le> int n" "int q + int n < 2 ^ 31"
    by (auto simp: ram_holds_def)
  from rf_write_effect[OF h(1-4) n, of buf] obtain s' m es where
    "rf_write s fd buf (int n) = Some (s', int m)" "m \<le> n" "m < n \<longrightarrow> exhausted s'" "file_ok s' (K \<union> set es) p (cs @ es)"
    "file_content s' p (cs @ es) = overwrite (file_content s p cs) q (load_list buf 0 m)"
    "file_size s' p = max (file_size s p) (q + m)" "open_on s' fd d p" "fd_pos (f_desc_table s' d) = int (q + m)" by auto
  moreover from this h(5) have "ram_holds s' fd (overwrite xs q (load_list buf 0 m)) (q + m)"
    unfolding ram_holds_def by (intro exI[of _ "K \<union> set es"] exI[of _ "cs @ es"] exI[of _ d] exI[of _ p]) simp
  ultimately show "\<exists>s' m. rf_write s fd buf (int n) = Some (s', int m) \<and> m \<le> n \<and> (m < n \<longrightarrow> exhausted s') \<and>
      ram_holds s' fd (overwrite xs q (load_list buf 0 m)) (q + m)" by blast
next
  fix s :: "'a fstate_scheme" and fd xs q
  assume "ram_holds s fd xs q"
  then show "q \<le> length xs" by (auto simp: ram_holds_def file_content_def file_ok_def)
qed

subsection \<open>The calls on the RAM file system\<close>

lemma vfs_op_ram: "vfs_op (init_fileop_table real fat32) VFS_INDEX_RAMFS = Some (init_fileop_table real fat32 ! 3)"
  by (simp add: vfs_op_def VFS_INDEX_RAMFS_def NR_FS_def vfs_table_def)

lemma ram_ops:
  "op_open (init_fileop_table real fat32 ! 3) = Some rf_open" "op_write (init_fileop_table real fat32 ! 3) = Some rf_write"
  by (simp_all add: init_fileop_table_def)

text \<open>C28. A write through the virtual file system, in pieces of 512 bytes, is one write to the bytes of the
  file. When the memory runs out it still writes a prefix, but then it returns the length of the last
  piece instead of the number of bytes written.\<close>

theorem vwrite_refines_bytes:
  assumes "ram_holds s fd xs q" "fd_index s fd = Some VFS_INDEX_RAMFS" "int q + int n < 2 ^ 31"
  shows "\<exists>s' m r. do_vwrite (init_fileop_table real fat32) s fd buf (int n) = Some (s', r) \<and> m \<le> n \<and>
    ram_holds s' fd (overwrite xs q (load_list buf 0 m)) (q + m) \<and>
    (if m = n then r = int n else exhausted s' \<and> r = int (m mod 512))"
  using ram_file.vwrite_loop_bytes[OF assms(1,3), of buf "int n" "\<lambda>_. 0" 0] assms(2)
  by (simp add: do_vwrite_def vfs_op_ram ram_ops)

definition demo_v :: vstate where
  "demo_v = fstate.extend demo_io (vstate.fields (cstr [slash]) 0)"

lemma demo_v_simps:
  "fat demo_v = fat demo_fs" "memman demo_v = demo_man" "page demo_v = page demo_io" "cell demo_v = cell demo_io"
  "f_desc_table demo_v = f_desc_table demo_io" "filp demo_v = filp demo_io" "cwd demo_v = cstr [slash]" "prev_byte demo_v = 0"
  by (simp_all add: demo_v_def fstate.defs vstate.defs demo_io_simps)

lemma demo_v_get: "rf_get demo_v p f = rf_get demo_io p f"
  by (simp add: rf_get_def demo_v_simps)

lemma demo_v_holds: "ram_holds demo_v 0 (file_content demo_v demo_ino [1]) 4"
proof -
  have ok: "file_ok demo_v {0, 1} demo_ino [1]"
    using demo_io_ok unfolding file_ok_def file_size_def demo_v_get demo_v_simps(4)
    by (simp add: clusters_ok_def clu_range_def clu_addr_def demo_v_simps demo_io_simps) (simp add: MAX_UNSIGNED_INT_def)
  have "open_on demo_v 0 0 demo_ino" using demo_io_open by (simp add: open_on_def fd_desc_def fd_slot_def demo_v_simps NR_FILES_def)
  with ok show ?thesis unfolding ram_holds_def
    by (intro exI[of _ "{0, 1}"] exI[of _ "[1]"] exI[of _ "0 :: nat"] exI[of _ demo_ino])
      (simp add: demo_v_simps demo_io_simps file_size_def demo_v_get)
qed

lemma vwrite_refines_bytes_witness:
  "\<exists>s' m r. do_vwrite (init_fileop_table no_op no_op) demo_v 0 (\<lambda>k. of_nat k) 600 = Some (s', r) \<and> m \<le> 600 \<and>
    ram_holds s' 0 (overwrite (file_content demo_v demo_ino [1]) 4 (load_list (\<lambda>k. of_nat k) 0 m)) (4 + m)"
proof -
  have "fd_index demo_v 0 = Some VFS_INDEX_RAMFS"
    by (simp add: fd_index_def fd_desc_def fd_slot_def demo_v_simps demo_io_simps NR_FILES_def VFS_INDEX_RAMFS_def)
  from vwrite_refines_bytes[OF demo_v_holds this, of 600 no_op no_op "\<lambda>k. of_nat k"] show ?thesis by auto
qed

lemma rf_get_io [simp]:
  "rf_get (s\<lparr>filp := f\<rparr>) = rf_get s" "rf_get (s\<lparr>f_desc_table := t\<rparr>) = rf_get s"
  "filp (rf_set s p g w) = filp s" "f_desc_table (rf_set s p g w) = f_desc_table s"
  by (simp_all add: rf_get_def rf_set_def fun_eq_iff)

lemma cells_only_io:
  assumes "cells_only s (s' :: 'a fstate_scheme)" shows "filp s' = filp s" "f_desc_table s' = f_desc_table s"
  using more_io[of s' s] cells_onlyD(5)[OF assms] by auto

text \<open>C29. Opening an existing file of the RAM file system returns a descriptor on it; opening a file that
  does not exist does not return an error but goes wrong: \<^verbatim>\<open>do_vopen\<close> takes the error number for a
  descriptor and follows \<^verbatim>\<open>filp\<close> out of its bounds.\<close>

theorem vopen_ram_file:
  assumes name: "vfs_lookup s path = Some (join_path es, VFS_INDEX_RAMFS)" "length (join_path es) < MAX_PATH"
    and fs: "dirs_ok s D" "comps_ok es" "\<not> has_flag flags O_CREAT"
    and free: "free_fd_loop s 0 NR_FILES = Some fd" "free_desc_loop s 0 NR_FILE_DESC = Some i" "fd < NR_FILES"
  shows "case resolve s 0 es RF_F of
      None \<Rightarrow> do_vopen (init_fileop_table real fat32) s path flags = None
    | Some p \<Rightarrow> \<exists>s'. do_vopen (init_fileop_table real fat32) s path flags = Some (s', int fd) \<and> filp s' fd = Some i \<and>
        f_desc_table s' i = \<lparr>fd_mode = flags, fd_pos = 0, fd_node = RamNode p, flag = 1, dev_index = VFS_INDEX_RAMFS\<rparr> \<and>
        rf_get s' p open_cnt = rf_get s p open_cnt + 1"
proof -
  obtain s1 where f: "find_path s (join_path es) None flags RF_F None = Some (s1, resolve s 0 es RF_F)" and c: "cells_only s s1"
    using find_path_resolve[OF fs] by blast
  have o: "rf_open s (join_path es) flags = (case resolve s 0 es RF_F of
      None \<Rightarrow> Some (s1, - ENOENT) | Some p \<Rightarrow> Some (connect_fd s1 fd i p flags, int fd))"
    using name(2) free f by (simp add: rf_open_def split: option.split)
  have v: "do_vopen (init_fileop_table real fat32) s path flags = do {
      (s, fd) \<leftarrow> rf_open s (join_path es) flags;
      if fd \<noteq> - 1 then do { d \<leftarrow> fd_desc s fd; Some (set_desc s d (\<lambda>e. e\<lparr>dev_index := VFS_INDEX_RAMFS\<rparr>), fd) } else Some (s, fd) }"
    using name(1) by (simp add: do_vopen_def vfs_op_ram ram_ops) (simp add: VFS_INDEX_RAMFS_def)
  show ?thesis
  proof (cases "resolve s 0 es RF_F")
    case None
    then show ?thesis by (simp add: v o fd_desc_def fd_slot_def ENOENT_def)
  next
    case (Some p)
    obtain m q n g dv where "f_desc_table s1 i = \<lparr>fd_mode = m, fd_pos = q, fd_node = n, flag = g, dev_index = dv\<rparr>"
      by (cases "f_desc_table s1 i")
    then show ?thesis
      using Some free(3) cells_onlyD(6)[OF c]
      by (simp add: v o fd_desc_def fd_slot_def connect_fd_def Let_def set_desc_def)
  qed
qed

lemma vopen_ram_file_witness:
  "do_vopen (init_fileop_table no_op no_op) demo_v (lit ''/ram/x'') O_RDWR = None"
proof -
  have t: "rf_get demo_v (clu_addr demo_v 0, j) record_type = RF_NONE" if "j < 27" for j
  proof -
    have "rf_get demo_io (K_PHY2LIN 0x1000000, j) record_type = 0"
      by (simp add: rf_get_def demo_io_def ramfs.defs fstate.defs)
        (use that in \<open>cases "j = 0"; cases "j = 1"; simp add: sizeof_rf_inode_def block_simps\<close>)
    then show ?thesis by (simp add: demo_v_get clu_addr_def demo_v_simps RF_NONE_def) (simp add: demo_fs_def)
  qed
  have "find_rec demo_v (clu_addr demo_v 0) (lit ''x'') False 0 RF_NR_REC = None"
    using t by (simp add: find_rec_None rec_named_def RF_NR_REC_def)
  then have r: "resolve demo_v 0 [lit ''x''] RF_F = None" by simp
  have "do { (rel, index) \<leftarrow> get_index 0 (cstr [slash]) (cstr (lit ''/ram/x'')); rel \<leftarrow> str_of rel; Some (rel, index) } =
      Some (lit ''x'', 5)" by code_simp
  then have 1: "vfs_lookup demo_v (lit ''/ram/x'') = Some (join_path [lit ''x''], VFS_INDEX_RAMFS)"
    by (simp add: vfs_lookup_def abs_name_def split_name_def demo_v_simps process_relative_path_def VFS_INDEX_RAMFS_def)
      (simp add: cstr_def lit_def slash_def MAX_PATH_def)
  have 2: "length (join_path [lit ''x'']) < MAX_PATH" by (simp add: lit_def MAX_PATH_def)
  have "next_cluster (fat demo_v 0) = MAX_UNSIGNED_INT" by (simp add: demo_v_simps) (simp add: demo_fs_def)
  then have 3: "dirs_ok demo_v {0}" using t by (simp add: dirs_ok_def RF_NR_REC_def)
  have 4: "comps_ok [lit ''x'']" "\<not> has_flag O_RDWR O_CREAT"
    by (simp_all add: comps_ok_def lit_def RF_MX_ENT_NAME_def slash_def has_flag_def O_CREAT_def O_RDWR_def)
  have n: "NR_FILES = Suc (Suc 62)" "NR_FILE_DESC = Suc (Suc 126)" by (simp_all add: NR_FILES_def NR_FILE_DESC_def)
  have "filp demo_v 0 = Some 0" "filp demo_v 1 = None" "flag (f_desc_table demo_v 0) = 1" "flag (f_desc_table demo_v 1) = 0"
    by (simp_all add: demo_v_simps demo_io_def ramfs.defs fstate.defs)
  then have 5: "free_fd_loop demo_v 0 NR_FILES = Some 1" "free_desc_loop demo_v 0 NR_FILE_DESC = Some 1" "1 < NR_FILES"
    unfolding n free_fd_loop.simps free_desc_loop.simps by simp_all
  from vopen_ram_file[OF 1 2 3 4 5, of no_op no_op] r show ?thesis by simp
qed

text \<open>Changing to the root or to the root of a file system succeeds and makes the absolute path the
  working directory, and changes nothing else.\<close>

lemma vchdir_top_level:
  assumes name: "abs_name s dirname = Some m" "holds_str m 0 xs" and top: "xs = [slash] \<or> (\<exists>x \<in> set fs_names. xs = slash # x)"
  shows "\<exists>s'. do_vchdir tab s dirname = Some (s', 0) \<and> holds_str (cwd s') 0 xs \<and> s'\<lparr>cwd := cwd s\<rparr> = s"
proof -
  have lit: "holds_str (cstr (lit ''/'')) 0 [slash]" unfolding lit_dots by (rule holds_str_cstr) simp
  obtain r where r: "strcmp m (cstr (lit ''/'')) = Some r" "r = 0 \<longleftrightarrow> xs = [slash]"
    using strcmp_right[OF lit, of m] name(2) holds_str_unique[OF name(2)] by metis
  define s' where "s' = s\<lparr>cwd := store_list (cwd s) 0 (xs @ [0])\<rparr>"
  have str: "str_of m = Some xs" using name(2) by (simp add: str_of_def) (simp add: holds_str_def)
  have "0 \<notin> set xs" using name(2) by (simp add: holds_str_def)
  then have h: "holds_str (cwd s') 0 xs" by (simp add: s'_def holds_str_store)
  have "do_vchdir tab s dirname = Some (s', 0)"
  proof (cases "xs = [slash]")
    case True
    then show ?thesis using name(1) str r by (simp add: do_vchdir_def s'_def)
  next
    case False
    then obtain x where x: "x \<in> set fs_names" "xs = slash # x" using top by blast
    have "holds_str (\<lambda>k. m (k + 1)) 0 x"
      using holds_str_cong[of x m 1 "\<lambda>k. m (k + 1)" 0] name(2) by (simp add: x(2) add.commute)
    moreover have n: "map fs_name vfs_table = fs_names" by (simp add: vfs_table_def fs_names_def)
    ultimately obtain i where "index_loop (\<lambda>k. m (k + 1)) (map fs_name vfs_table) 0 = Some i" "i \<noteq> - 1"
      using index_loop_finds[of "\<lambda>k. m (k + 1)" x fs_names 0] x(1) fs_names_ok by fastforce
    then show ?thesis using name(1) str r False by (simp add: do_vchdir_def s'_def)
  qed
  then show ?thesis using h by (intro exI[of _ s']) (simp add: s'_def)
qed

lemma vchdir_top_level_witness:
  "\<exists>s'. do_vchdir (init_fileop_table no_op no_op) demo_v (lit ''/ram'') = Some (s', 0) \<and> holds_str (cwd s') 0 (lit ''/ram'')"
proof -
  have 1: "abs_name demo_v (lit ''/ram'') = Some (cstr (lit ''/ram''))"
    by (simp add: abs_name_def process_relative_path_def) (simp add: cstr_def lit_def slash_def MAX_PATH_def)
  have 2: "holds_str (cstr (lit ''/ram'')) 0 (lit ''/ram'')" by (rule holds_str_cstr) (simp add: lit_def)
  have 3: "lit ''/ram'' = [slash] \<or> (\<exists>x \<in> set fs_names. lit ''/ram'' = slash # x)"
    by (simp add: fs_names_def lit_def slash_def)
  from vchdir_top_level[OF 1 2 3, of "init_fileop_table no_op no_op"] show ?thesis by auto
qed

end
