(* ===== verification/HardDisk.thy ===== *)
theory HardDisk
  imports MemMan CString
begin

text \<open>
  The hard disk driver, \<^verbatim>\<open>kernel/hd.c\<close>.

  The disk behind the controller is the map \<open>sectors\<close> from the address of a sector to its bytes: what
  the code relies on is that a command given to the registers reads or writes the sectors from the
  address in \<^verbatim>\<open>lba_low\<close>, \<^verbatim>\<open>lba_mid\<close>, \<^verbatim>\<open>lba_high\<close> and the low half of \<^verbatim>\<open>device\<close> on, as many as
  \<^verbatim>\<open>count\<close> says and 256 when that is 0 (ATA, 28-bit addresses). Waiting for the disk ends when the
  command has sectors left, otherwise never (\<open>None\<close>). \<open>insw\<close> and \<open>outsw\<close> move 512 words through a
  buffer of 1024 bytes, of which the code uses the first 512.
\<close>

definition SECTOR_SIZE :: nat where "SECTOR_SIZE = 512"
definition NR_PART_PER_DRIVE :: nat where "NR_PART_PER_DRIVE = 4"
definition NR_SUB_PER_PART :: nat where "NR_SUB_PER_PART = 16"
definition NR_SUB_PER_DRIVE :: nat where "NR_SUB_PER_DRIVE = 64"
definition NR_PRIM_PER_DRIVE :: nat where "NR_PRIM_PER_DRIVE = 5"
definition MAX_PRIM :: int where "MAX_PRIM = 9"
definition MINOR_hd1a :: int where "MINOR_hd1a = 16"
definition NO_PART :: u8 where "NO_PART = 0"
definition EXT_PART :: u8 where "EXT_PART = 5"
definition PARTITION_TABLE_OFFSET :: nat where "PARTITION_TABLE_OFFSET = 0x1BE"
definition ORANGE_FLAG :: u32 where "ORANGE_FLAG = 1"
definition FAT32_FLAG :: u32 where "FAT32_FLAG = 2"

record part_info =
  base :: u32
  psize :: u32
  part_fs :: u32

record hd_info =
  hd_open_cnt :: int
  primary :: "part_info block"
  logical :: "part_info block"

record hd_cmd =
  features :: u8
  count :: u8
  lba_low :: u8
  lba_mid :: u8
  lba_high :: u8
  devreg :: u8
  command :: u8

definition ATA_READ :: u8 where "ATA_READ = 0x20"
definition ATA_WRITE :: u8 where "ATA_WRITE = 0x30"

text \<open>The type of a \<^verbatim>\<open>MESSAGE\<close> to the driver, and the fields of one that the driver looks at.\<close>

datatype io_type = DEV_READ | DEV_WRITE

record hd_msg =
  io_type :: io_type
  device :: int
  position :: "64 word"
  cnt :: int

text \<open>The state: \<^verbatim>\<open>hd_info\<close>, which has one entry, the disk, and the sector its \<^verbatim>\<open>IDENTIFY\<close> command returns.\<close>

record hdisk =
  hd0 :: hd_info
  sectors :: "nat \<Rightarrow> bytes"
  ident :: bytes

subsection \<open>Reading and writing\<close>

definition DRV_OF_DEV :: "int \<Rightarrow> int" where
  "DRV_OF_DEV dev = (if dev \<le> MAX_PRIM then dev sdiv int NR_PRIM_PER_DRIVE
     else (dev - MINOR_hd1a) sdiv int NR_SUB_PER_DRIVE)"

text \<open>The entry of \<^verbatim>\<open>hd_info[drive]\<close> for a device; an index outside the arrays is \<open>None\<close>.\<close>

definition part_of_dev :: "hdisk \<Rightarrow> int \<Rightarrow> part_info option" where
  "part_of_dev d dev =
     (if DRV_OF_DEV dev \<noteq> 0 then None
      else if dev < MAX_PRIM then
        (if 0 \<le> dev \<and> dev < int NR_PRIM_PER_DRIVE then Some (primary (hd0 d) (nat dev)) else None)
      else let logidx = (dev - MINOR_hd1a) smod int NR_SUB_PER_DRIVE in
        if 0 \<le> logidx then Some (logical (hd0 d) (nat logidx)) else None)"

definition MAKE_DEVICE_REG :: "u32 \<Rightarrow> u32 \<Rightarrow> u32 \<Rightarrow> u8" where
  "MAKE_DEVICE_REG lba drv highest = ucast (push_bit 6 lba OR push_bit 4 drv OR (highest AND 0xF) OR 0xA0)"

definition rw_cmd :: "u32 \<Rightarrow> int \<Rightarrow> io_type \<Rightarrow> hd_cmd" where
  "rw_cmd sect_nr n t =
     \<lparr>features = 0, count = of_int ((n + int SECTOR_SIZE - 1) sdiv int SECTOR_SIZE),
      lba_low = ucast (sect_nr AND 0xFF), lba_mid = ucast (drop_bit 8 sect_nr AND 0xFF),
      lba_high = ucast (drop_bit 16 sect_nr AND 0xFF),
      devreg = MAKE_DEVICE_REG 1 0 (drop_bit 24 sect_nr AND 0xF),
      command = (if t = DEV_READ then ATA_READ else ATA_WRITE)\<rparr>"

text \<open>The controller: the sector a command addresses, and how many sectors it moves.\<close>

definition cmd_lba :: "hd_cmd \<Rightarrow> nat" where
  "cmd_lba c = unat (lba_low c) + 2 ^ 8 * unat (lba_mid c) + 2 ^ 16 * unat (lba_high c) +
     2 ^ 24 * unat (devreg c AND 0xF)"

definition cmd_sectors :: "hd_cmd \<Rightarrow> nat" where
  "cmd_sectors c = (if count c = 0 then 256 else unat (count c))"

text \<open>The two branches of the loop over the sectors; \<open>n\<close> is the number of sectors the disk still moves.
  On a write the first \<open>bytes\<close> bytes of \<^verbatim>\<open>hdbuf\<close> are those of the caller.\<close>

fun rd_loop :: "hdisk \<Rightarrow> nat \<Rightarrow> nat \<Rightarrow> bytes \<Rightarrow> nat \<Rightarrow> int \<Rightarrow> bytes option" where
  "rd_loop d lba 0 buf la bytes_left = (if bytes_left = 0 then Some buf else None)"
| "rd_loop d lba (Suc n) buf la bytes_left =
     (if bytes_left = 0 then Some buf
      else if bytes_left < 0 then None
      else let bytes = nat (min (int SECTOR_SIZE) bytes_left)
        in rd_loop d (lba + 1) n (store_list buf la (load_list (sectors d lba) 0 bytes)) (la + SECTOR_SIZE)
             (bytes_left - int SECTOR_SIZE))"

fun wr_loop :: "hdisk \<Rightarrow> nat \<Rightarrow> nat \<Rightarrow> bytes \<Rightarrow> bytes \<Rightarrow> nat \<Rightarrow> int \<Rightarrow> hdisk option" where
  "wr_loop d lba 0 hdbuf buf la bytes_left = (if bytes_left = 0 then Some d else None)"
| "wr_loop d lba (Suc n) hdbuf buf la bytes_left =
     (if bytes_left = 0 then Some d
      else if bytes_left < 0 then None
      else let bytes = nat (min (int SECTOR_SIZE) bytes_left);
               hdbuf = store_list hdbuf 0 (load_list buf la bytes);
               d = d\<lparr>sectors := (sectors d)(lba := store_list (sectors d lba) 0 (load_list hdbuf 0 SECTOR_SIZE))\<rparr>
        in wr_loop d (lba + 1) n hdbuf buf (la + SECTOR_SIZE) (bytes_left - int SECTOR_SIZE))"

definition hd_rdwt :: "hdisk \<Rightarrow> hd_msg \<Rightarrow> bytes \<Rightarrow> (hdisk \<times> bytes) option" where
  "hd_rdwt d p buf = do {
     part \<leftarrow> part_of_dev d (device p);
     let sect_nr = ucast (drop_bit 9 (position p)) + base part;
     let cmd = rw_cmd sect_nr (cnt p) (io_type p);
     case io_type p of
       DEV_READ \<Rightarrow> do {
         buf \<leftarrow> rd_loop d (cmd_lba cmd) (cmd_sectors cmd) buf 0 (cnt p);
         Some (d, buf)
       }
     | DEV_WRITE \<Rightarrow> do {
         d \<leftarrow> wr_loop d (cmd_lba cmd) (cmd_sectors cmd) (\<lambda>_. 0) buf 0 (cnt p);
         Some (d, buf)
       }
   }"

subsection \<open>The partition tables\<close>

record part_ent =
  sys_id :: u8
  start_sect :: u32
  nr_sects :: u32

definition read_sector :: "hdisk \<Rightarrow> u32 \<Rightarrow> bytes" where
  "read_sector d sect_nr = sectors d (cmd_lba (rw_cmd sect_nr 512 DEV_READ))"

definition get_part_table :: "hdisk \<Rightarrow> u32 \<Rightarrow> nat \<Rightarrow> part_ent" where
  "get_part_table d sect_nr i =
     (let hdbuf = read_sector d sect_nr; a = PARTITION_TABLE_OFFSET + 16 * i in
      \<lparr>sys_id = hdbuf (a + 4), start_sect = load32 hdbuf (a + 8), nr_sects = load32 hdbuf (a + 12)\<rparr>)"

text \<open>The flags of a file system in its second sector; an unknown one leaves the type as it was.\<close>

definition get_fs_flags :: "hdisk \<Rightarrow> u32 \<Rightarrow> u32 \<Rightarrow> u32" where
  "get_fs_flags d sect_nr old =
     (let hdbuf = read_sector d sect_nr in
      if hdbuf 0 = 0x11 then ORANGE_FLAG
      else if load32 hdbuf 4 = 0x534F4453 \<and> load32 hdbuf 8 = 0x302E35 then FAT32_FLAG
      else old)"

definition set_primary :: "hdisk \<Rightarrow> nat \<Rightarrow> (part_info \<Rightarrow> part_info) \<Rightarrow> hdisk" where
  "set_primary d i f = d\<lparr>hd0 := (hd0 d)\<lparr>primary := (primary (hd0 d))(i := f (primary (hd0 d) i))\<rparr>\<rparr>"

definition set_logical :: "hdisk \<Rightarrow> nat \<Rightarrow> (part_info \<Rightarrow> part_info) \<Rightarrow> hdisk" where
  "set_logical d i f = d\<lparr>hd0 := (hd0 d)\<lparr>logical := (logical (hd0 d))(i := f (logical (hd0 d) i))\<rparr>\<rparr>"

definition part_of :: "hdisk \<Rightarrow> u32 \<Rightarrow> u32 \<Rightarrow> part_info \<Rightarrow> part_info" where
  "part_of d b n p = p\<lparr>base := b, psize := n, part_fs := get_fs_flags d (b + 1) (part_fs p)\<rparr>"

fun ext_loop :: "hdisk \<Rightarrow> u32 \<Rightarrow> u32 \<Rightarrow> nat \<Rightarrow> nat \<Rightarrow> nat \<Rightarrow> hdisk" where
  "ext_loop d ext_start_sect s nr_1st_sub i 0 = d"
| "ext_loop d ext_start_sect s nr_1st_sub i (Suc n) =
     (let t0 = get_part_table d s 0; t1 = get_part_table d s 1;
          d = set_logical d (nr_1st_sub + i) (part_of d (s + start_sect t0) (nr_sects t0))
      in if sys_id t1 = NO_PART then d
         else ext_loop d ext_start_sect (ext_start_sect + start_sect t1) nr_1st_sub (i + 1) n)"

definition partition_ext :: "hdisk \<Rightarrow> int \<Rightarrow> hdisk" where
  "partition_ext d dev =
     (let j = nat (dev mod int NR_PRIM_PER_DRIVE); s = base (primary (hd0 d) j)
      in ext_loop d s s ((j - 1) * NR_SUB_PER_PART) 0 NR_SUB_PER_PART)"

fun prim_loop :: "hdisk \<Rightarrow> int \<Rightarrow> u32 \<Rightarrow> nat \<Rightarrow> nat \<Rightarrow> hdisk" where
  "prim_loop d dev drive i 0 = d"
| "prim_loop d dev drive i (Suc n) =
     (let t = get_part_table d drive i in
      if sys_id t = NO_PART then prim_loop d dev drive (i + 1) n
      else
        let d = set_primary d (i + 1) (part_of d (start_sect t) (nr_sects t));
            d = (if sys_id t = EXT_PART then partition_ext d (dev + int (i + 1)) else d)
        in prim_loop d dev drive (i + 1) n)"

text \<open>\<^verbatim>\<open>partition(device, P_PRIMARY)\<close>: the table is read from the sector with the number of the drive.\<close>

definition partition :: "hdisk \<Rightarrow> int \<Rightarrow> hdisk option" where
  "partition d dev = (if DRV_OF_DEV dev \<noteq> 0 then None
     else Some (prim_loop d dev (of_int (DRV_OF_DEV dev)) 0 NR_PART_PER_DRIVE))"

definition load16 :: "bytes \<Rightarrow> nat \<Rightarrow> u32" where
  "load16 m a = ucast (m a) OR push_bit 8 (ucast (m (a + 1)))"

definition hd_identify :: "hdisk \<Rightarrow> hdisk" where
  "hd_identify d = set_primary d 0
     (\<lambda>p. p\<lparr>base := 0, psize := push_bit 16 (load16 (ident d) (2 * 61)) + load16 (ident d) (2 * 60)\<rparr>)"

definition hd_open :: "hdisk \<Rightarrow> int \<Rightarrow> hdisk option" where
  "hd_open d drive = (if drive \<noteq> 0 then None else do {
     let d = hd_identify d;
     let n = hd_open_cnt (hd0 d);
     let d = d\<lparr>hd0 := (hd0 d)\<lparr>hd_open_cnt := n + 1\<rparr>\<rparr>;
     if n = 0 then partition d (drive * (int NR_PART_PER_DRIVE + 1)) else Some d
   })"

definition hd_close :: "hdisk \<Rightarrow> int \<Rightarrow> hdisk option" where
  "hd_close d dev = (if DRV_OF_DEV dev \<noteq> 0 then None
     else Some (d\<lparr>hd0 := (hd0 d)\<lparr>hd_open_cnt := hd_open_cnt (hd0 d) - 1\<rparr>\<rparr>))"

text \<open>\<^verbatim>\<open>DIOCTL_GET_GEO\<close> copies the entry of the device out.\<close>

definition hd_ioctl :: "hdisk \<Rightarrow> int \<Rightarrow> part_info option" where
  "hd_ioctl d dev = part_of_dev d dev"

subsection \<open>The request queue\<close>

text \<open>
  The queue is linked through the requests themselves: \<open>nxt\<close> gives the field \<^verbatim>\<open>next\<close> of the request at
  each address, \<open>None\<close> is a null pointer.
\<close>

record hd_queue =
  front :: "u32 option"
  rear :: "u32 option"
  nxt :: "u32 \<Rightarrow> u32 option"

definition init_hd_queue :: "hd_queue \<Rightarrow> hd_queue" where
  "init_hd_queue q = q\<lparr>front := None, rear := None\<rparr>"

definition in_hd_queue :: "hd_queue \<Rightarrow> u32 \<Rightarrow> hd_queue" where
  "in_hd_queue q p =
     (let q = q\<lparr>nxt := (nxt q)(p := None)\<rparr> in
      case rear q of
        None \<Rightarrow> q\<lparr>front := Some p, rear := Some p\<rparr>
      | Some r \<Rightarrow> q\<lparr>nxt := (nxt q)(r := Some p), rear := Some p\<rparr>)"

definition out_hd_queue :: "hd_queue \<Rightarrow> (hd_queue \<times> u32 option) option" where
  "out_hd_queue q =
     (case rear q of
        None \<Rightarrow> Some (q, None)
      | Some r \<Rightarrow> do {
          p \<leftarrow> front q;
          if front q = rear q then Some (q\<lparr>front := None, rear := None\<rparr>, Some p)
          else Some (q\<lparr>front := nxt q p\<rparr>, Some p)
        })"

text \<open>
  A process that reads or writes with \<^verbatim>\<open>hd_rdwt_sched\<close> gets a buffer from the memory manager, puts a
  request into the queue and sleeps; \<^verbatim>\<open>hd_service\<close> serves the queue and wakes the processes up; then the
  process goes on, copies the buffer out and frees it.
\<close>

record rw_info =
  rw_msg :: hd_msg
  kbuf :: bytes
  rw_proc :: nat

record hd_sys =
  disk :: hdisk
  hdque :: hd_queue
  reqs :: "u32 \<Rightarrow> rw_info"
  kmem :: MEMMAN
  sleeping :: "nat \<Rightarrow> bool"

text \<open>\<^verbatim>\<open>hd_rdwt_real\<close> is a copy of \<^verbatim>\<open>hd_rdwt\<close> in the source, with the request where that has the message, and is translated on its
  own: the base of the device, the command, and the loop with both branches in it. Its \<^verbatim>\<open>panic\<close> when the disk wants no more
  data is the \<open>None\<close> of a disk that has no sectors left to move.\<close>

definition real_base :: "hdisk \<Rightarrow> rw_info \<Rightarrow> u32 option" where
  "real_base d p =
     (let dev = device (rw_msg p); logidx = (dev - MINOR_hd1a) smod int NR_SUB_PER_DRIVE in
      if DRV_OF_DEV dev \<noteq> 0 then None
      else if dev < MAX_PRIM then
        if 0 \<le> dev \<and> dev < int NR_PRIM_PER_DRIVE then Some (base (primary (hd0 d) (nat dev))) else None
      else if 0 \<le> logidx then Some (base (logical (hd0 d) (nat logidx))) else None)"

fun real_loop :: "hdisk \<Rightarrow> io_type \<Rightarrow> nat \<Rightarrow> nat \<Rightarrow> bytes \<Rightarrow> bytes \<Rightarrow> nat \<Rightarrow> int \<Rightarrow> (hdisk \<times> bytes) option" where
  "real_loop d t lba 0 hdbuf kb la bytes_left = (if bytes_left = 0 then Some (d, kb) else None)"
| "real_loop d t lba (Suc n) hdbuf kb la bytes_left =
     (if bytes_left = 0 then Some (d, kb)
      else if bytes_left < 0 then None
      else
        let bytes = nat (min (int SECTOR_SIZE) bytes_left);
            (d, hdbuf, kb) = (case t of
                DEV_READ \<Rightarrow>
                  let hdbuf = store_list hdbuf 0 (load_list (sectors d lba) 0 SECTOR_SIZE)
                  in (d, hdbuf, store_list kb la (load_list hdbuf 0 bytes))
              | DEV_WRITE \<Rightarrow>
                  let hdbuf = store_list hdbuf 0 (load_list kb la bytes)
                  in (d\<lparr>sectors := (sectors d)(lba := store_list (sectors d lba) 0 (load_list hdbuf 0 SECTOR_SIZE))\<rparr>, hdbuf, kb))
        in real_loop d t (lba + 1) n hdbuf kb (la + SECTOR_SIZE) (bytes_left - int SECTOR_SIZE))"

definition hd_rdwt_real :: "hdisk \<Rightarrow> rw_info \<Rightarrow> (hdisk \<times> rw_info) option" where
  "hd_rdwt_real d p = do {
     b \<leftarrow> real_base d p;
     let sect_nr = ucast (drop_bit 9 (position (rw_msg p))) + b;
     let cmd = \<lparr>features = 0, count = of_int ((cnt (rw_msg p) + int SECTOR_SIZE - 1) sdiv int SECTOR_SIZE),
       lba_low = ucast (sect_nr AND 0xFF), lba_mid = ucast (drop_bit 8 sect_nr AND 0xFF),
       lba_high = ucast (drop_bit 16 sect_nr AND 0xFF),
       devreg = MAKE_DEVICE_REG 1 0 (drop_bit 24 sect_nr AND 0xF),
       command = (if io_type (rw_msg p) = DEV_READ then ATA_READ else ATA_WRITE)\<rparr>;
     (d, kb) \<leftarrow> real_loop d (io_type (rw_msg p)) (cmd_lba cmd) (cmd_sectors cmd) (\<lambda>_. 0) (kbuf p) 0 (cnt (rw_msg p));
     Some (d, p\<lparr>kbuf := kb\<rparr>)
   }"

text \<open>Up to \<^verbatim>\<open>sched()\<close>; \<open>a\<close> is the address of the request on the stack of the process \<open>pid\<close>. The result has the
  address of the buffer.\<close>

definition hd_submit :: "hd_sys \<Rightarrow> u32 \<Rightarrow> nat \<Rightarrow> hd_msg \<Rightarrow> bytes \<Rightarrow> (hd_sys \<times> u32) option" where
  "hd_submit s a pid p buf =
     (let (m, b) = do_kmalloc (kmem s) (of_int (cnt p)) in
      if b = - 1 \<or> cnt p < 0 then None
      else
        let kb = (if io_type p = DEV_WRITE then store_list (\<lambda>_. 0) 0 (load_list buf 0 (nat (cnt p))) else (\<lambda>_. 0))
        in Some (s\<lparr>kmem := m, reqs := (reqs s)(a := \<lparr>rw_msg = p, kbuf = kb, rw_proc = pid\<rparr>),
             hdque := in_hd_queue (hdque s) a, sleeping := (sleeping s)(pid := True)\<rparr>, b))"

text \<open>The inner loop of \<^verbatim>\<open>hd_service\<close>.\<close>

partial_function (option) hd_serve :: "hd_sys \<Rightarrow> hd_sys option" where
  "hd_serve s = do {
     (q, r) \<leftarrow> out_hd_queue (hdque s);
     case r of
       None \<Rightarrow> Some (s\<lparr>hdque := q\<rparr>)
     | Some a \<Rightarrow> do {
         (d, rw) \<leftarrow> hd_rdwt_real (disk s) (reqs s a);
         hd_serve (s\<lparr>hdque := q, disk := d, reqs := (reqs s)(a := rw), sleeping := (sleeping s)(rw_proc rw := False)\<rparr>)
       }
   }"

declare hd_serve.simps [code]

definition hd_finish :: "hd_sys \<Rightarrow> u32 \<Rightarrow> u32 \<Rightarrow> bytes \<Rightarrow> hd_sys \<times> bytes" where
  "hd_finish s a b buf =
     (let r = reqs s a; n = cnt (rw_msg r);
          buf = (if io_type (rw_msg r) = DEV_READ then store_list buf 0 (load_list (kbuf r) 0 (nat n)) else buf);
          (m, e) = do_free (kmem s) b (of_int n)
      in (s\<lparr>kmem := m\<rparr>, buf))"

text \<open>The whole call when only this process uses the disk.\<close>

definition hd_rdwt_sched :: "hd_sys \<Rightarrow> u32 \<Rightarrow> nat \<Rightarrow> hd_msg \<Rightarrow> bytes \<Rightarrow> (hd_sys \<times> bytes) option" where
  "hd_rdwt_sched s a pid p buf = do {
     (s, b) \<leftarrow> hd_submit s a pid p buf;
     s \<leftarrow> hd_serve s;
     Some (hd_finish s a b buf)
   }"

definition init_hd :: "hd_sys \<Rightarrow> hd_sys" where
  "init_hd s = s\<lparr>disk := (disk s)\<lparr>hd0 := \<lparr>hd_open_cnt = 0, primary = (\<lambda>_. \<lparr>base = 0, psize = 0, part_fs = 0\<rparr>),
     logical = (\<lambda>_. \<lparr>base = 0, psize = 0, part_fs = 0\<rparr>)\<rparr>\<rparr>, hdque := init_hd_queue (hdque s)\<rparr>"

subsection \<open>First in, first out\<close>

datatype 'a queue_op = Enq 'a | Deq

text \<open>What a sequence of calls returns: of the code's queue, and of a list.\<close>

fun run_queue :: "('q \<Rightarrow> 'a \<Rightarrow> 'q) \<Rightarrow> ('q \<Rightarrow> ('q \<times> 'a option) option) \<Rightarrow> 'q \<Rightarrow> 'a queue_op list \<Rightarrow> 'a option list option" where
  "run_queue enq deq q [] = Some []"
| "run_queue enq deq q (Enq x # ops) = run_queue enq deq (enq q x) ops"
| "run_queue enq deq q (Deq # ops) = do { (q, r) \<leftarrow> deq q; rs \<leftarrow> run_queue enq deq q ops; Some (r # rs) }"

fun run_list :: "'a list \<Rightarrow> 'a queue_op list \<Rightarrow> 'a option list" where
  "run_list xs [] = []"
| "run_list xs (Enq x # ops) = run_list (xs @ [x]) ops"
| "run_list [] (Deq # ops) = None # run_list [] ops"
| "run_list (x # xs) (Deq # ops) = Some x # run_list xs ops"

text \<open>No request is put into the queue while it is in there.\<close>

fun fresh_ops :: "'a list \<Rightarrow> 'a queue_op list \<Rightarrow> bool" where
  "fresh_ops xs [] = True"
| "fresh_ops xs (Enq x # ops) = (x \<notin> set xs \<and> fresh_ops (xs @ [x]) ops)"
| "fresh_ops xs (Deq # ops) = fresh_ops (tl xs) ops"

locale fifo_queue =
  fixes enq :: "'q \<Rightarrow> 'a \<Rightarrow> 'q" and deq :: "'q \<Rightarrow> ('q \<times> 'a option) option" and holds :: "'q \<Rightarrow> 'a list \<Rightarrow> bool"
  assumes enq_holds: "holds q xs \<Longrightarrow> x \<notin> set xs \<Longrightarrow> holds (enq q x) (xs @ [x])"
    and deq_empty: "holds q [] \<Longrightarrow> \<exists>q'. deq q = Some (q', None) \<and> holds q' []"
    and deq_first: "holds q (x # xs) \<Longrightarrow> \<exists>q'. deq q = Some (q', Some x) \<and> holds q' xs"
begin

lemma run_queue_list: "holds q xs \<Longrightarrow> fresh_ops xs ops \<Longrightarrow> run_queue enq deq q ops = Some (run_list xs ops)"
proof (induction xs ops arbitrary: q rule: run_list.induct)
  case (2 xs x ops)
  then show ?case using enq_holds by simp
next
  case (3 ops)
  from deq_empty[OF 3(2)] obtain q' where "deq q = Some (q', None)" "holds q' []" by blast
  with 3 show ?case by simp
next
  case (4 x xs ops)
  from deq_first[OF 4(2)] obtain q' where "deq q = Some (q', Some x)" "holds q' xs" by blast
  with 4 show ?case by simp
qed simp

end

text \<open>The requests linked from \<^verbatim>\<open>front\<close> to \<^verbatim>\<open>rear\<close>.\<close>

fun linked :: "(u32 \<Rightarrow> u32 option) \<Rightarrow> u32 list \<Rightarrow> bool" where
  "linked nx [] = True"
| "linked nx [p] = True"
| "linked nx (p # p' # ps) = (nx p = Some p' \<and> linked nx (p' # ps))"

definition hd_holds :: "hd_queue \<Rightarrow> u32 list \<Rightarrow> bool" where
  "hd_holds q ps \<longleftrightarrow> distinct ps \<and> linked (nxt q) ps \<and>
     (if ps = [] then rear q = None else front q = Some (hd ps) \<and> rear q = Some (last ps))"

lemma linked_upd: "p \<notin> set ps \<Longrightarrow> linked (nx(p := v)) ps = linked nx ps"
  by (induction nx ps rule: linked.induct) auto

lemma linked_snoc: "ps \<noteq> [] \<Longrightarrow> distinct ps \<Longrightarrow> linked nx ps \<Longrightarrow> linked (nx(last ps := Some p)) (ps @ [p])"
  by (induction nx ps rule: linked.induct) auto

interpretation hd_fifo: fifo_queue in_hd_queue out_hd_queue hd_holds
proof
  fix q ps x
  assume h: "hd_holds q ps" "x \<notin> set ps"
  show "hd_holds (in_hd_queue q x) (ps @ [x])"
  proof (cases "ps = []")
    case True
    with h show ?thesis by (simp add: hd_holds_def in_hd_queue_def)
  next
    case False
    with h have r: "rear q = Some (last ps)" "front q = Some (hd ps)" "linked (nxt q) ps" "distinct ps" by (auto simp: hd_holds_def)
    have "linked ((nxt q)(x := None)) ps" using r(3) h(2) by (simp add: linked_upd)
    from linked_snoc[OF False r(4) this] show ?thesis
      using r h(2) False by (simp add: hd_holds_def in_hd_queue_def Let_def)
  qed
next
  fix q
  assume "hd_holds q []"
  then show "\<exists>q'. out_hd_queue q = Some (q', None) \<and> hd_holds q' []" by (simp add: hd_holds_def out_hd_queue_def)
next
  fix q x ps
  assume "hd_holds q (x # ps)"
  then show "\<exists>q'. out_hd_queue q = Some (q', Some x) \<and> hd_holds q' ps"
    by (cases ps) (auto simp: hd_holds_def out_hd_queue_def)
qed

subsection \<open>What a command moves\<close>

lemma sector_nat [simp]: "SECTOR_SIZE = 512"
  by (simp add: SECTOR_SIZE_def)

lemma devreg_low: "MAKE_DEVICE_REG 1 0 h AND 0xF = ucast (h AND 0xF)"
proof (rule bit_word_eqI)
  fix n :: nat
  assume "n < LENGTH(8)"
  then have "n = 0 \<or> n = 1 \<or> n = 2 \<or> n = 3 \<or> n = 4 \<or> n = 5 \<or> n = 6 \<or> n = 7" by auto
  then show "bit (MAKE_DEVICE_REG 1 0 h AND 0xF) n = bit (ucast (h AND 0xF) :: u8) n"
    by (elim disjE) (simp_all add: MAKE_DEVICE_REG_def bit_simps)
qed

lemma horner: "x = 256 * a + r0 \<Longrightarrow> a = 256 * b + r1 \<Longrightarrow> b = 256 * c + r2 \<Longrightarrow>
    r0 + 256 * r1 + 65536 * r2 + 16777216 * c = (x :: nat)"
  by simp

lemma cmd_lba_rw:
  assumes "unat s < 2 ^ 28"
  shows "cmd_lba (rw_cmd s n t) = unat s"
proof -
  have m: "(0xFF :: u32) = mask 8" "(0xF :: u32) = mask 4" by (simp_all add: mask_eq_exp_minus_1)
  have low: "unat (ucast (w AND 0xFF) :: u8) = unat w mod 256" for w :: u32
    unfolding m take_bit_eq_mask[symmetric] by (simp only: unsigned_ucast_eq unsigned_take_bit_eq) (simp add: take_bit_eq_mod)
  have nib: "unat (ucast ((w AND 0xF) AND 0xF) :: u8) = unat w mod 16" for w :: u32
    unfolding m take_bit_eq_mask[symmetric] by (simp only: unsigned_ucast_eq unsigned_take_bit_eq) (simp add: take_bit_eq_mod mod_mod_cancel)
  have "cmd_lba (rw_cmd s n t) = unat s mod 256 + 2 ^ 8 * (unat (drop_bit 8 s) mod 256) +
      2 ^ 16 * (unat (drop_bit 16 s) mod 256) + 2 ^ 24 * (unat (drop_bit 24 s) mod 16)"
    unfolding cmd_lba_def rw_cmd_def by (simp only: devreg_low hd_cmd.simps low nib)
  also have "\<dots> = unat s mod 256 + 256 * (unat s div 256 mod 256) + 65536 * (unat s div 65536 mod 256) +
      16777216 * (unat s div 16777216 mod 16)"
    unfolding unat_drop_bit_eq by (simp add: drop_bit_eq_div)
  also have "\<dots> = unat s"
  proof -
    let ?x = "unat s"
    have d: "?x div 65536 = ?x div 256 div 256" "?x div 16777216 = ?x div 65536 div 256"
      by (simp_all add: div_mult2_eq[symmetric])
    have c: "?x div 16777216 mod 16 = ?x div 16777216" using assms by (simp add: less_mult_imp_div_less)
    have "?x = 256 * (?x div 256) + ?x mod 256"
      "?x div 256 = 256 * (?x div 65536) + ?x div 256 mod 256"
      "?x div 65536 = 256 * (?x div 16777216) + ?x div 65536 mod 256"
      unfolding d by simp_all
    from horner[OF this] show ?thesis unfolding c .
  qed
  finally show ?thesis .
qed

lemma cmd_sectors_rw:
  assumes "0 < n" "n \<le> 256"
  shows "cmd_sectors (rw_cmd s (int (512 * n)) t) = n"
proof -
  have e: "(int (512 * n) + int SECTOR_SIZE - 1) sdiv int SECTOR_SIZE = int n"
    using assms by (simp add: signed_divide_int_def sgn_if)
  show ?thesis
  proof (cases "n = 256")
    case True
    then show ?thesis unfolding cmd_sectors_def rw_cmd_def e by simp
  next
    case False
    then have "unat (of_int (int n) :: u8) = n" using assms by (simp add: unsigned_of_nat take_bit_nat_eq_self)
    then show ?thesis using assms unfolding cmd_sectors_def rw_cmd_def e by (auto simp: unat_eq_0)
  qed
qed

definition put_sectors :: "(nat \<Rightarrow> bytes) \<Rightarrow> nat \<Rightarrow> nat \<Rightarrow> bytes \<Rightarrow> nat \<Rightarrow> (nat \<Rightarrow> bytes)" where
  "put_sectors f lba n buf la = (\<lambda>i. if lba \<le> i \<and> i < lba + n
     then (\<lambda>j. if j < 512 then buf (la + 512 * (i - lba) + j) else f i j) else f i)"

definition get_sectors :: "(nat \<Rightarrow> bytes) \<Rightarrow> nat \<Rightarrow> nat \<Rightarrow> bytes \<Rightarrow> nat \<Rightarrow> bytes" where
  "get_sectors f lba n buf la = (\<lambda>j. if la \<le> j \<and> j < la + 512 * n
     then f (lba + (j - la) div 512) ((j - la) mod 512) else buf j)"

lemma wr_loop_sectors:
  "wr_loop d lba n hdbuf buf la (int (512 * n)) = Some (d\<lparr>sectors := put_sectors (sectors d) lba n buf la\<rparr>)"
proof (induction n arbitrary: d lba hdbuf la)
  case 0
  have "put_sectors (sectors d) lba 0 buf la = sectors d" by (auto simp: put_sectors_def fun_eq_iff)
  then show ?case by simp
next
  case (Suc n)
  have e: "int (512 * Suc n) - int SECTOR_SIZE = int (512 * n)" "nat (min (int SECTOR_SIZE) (int (512 * Suc n))) = 512" by simp_all
  let ?f = "(sectors d)(lba := store_list (sectors d lba) 0 (load_list (store_list hdbuf 0 (load_list buf la 512)) 0 512))"
  have "put_sectors ?f (lba + 1) n buf (la + 512) = put_sectors (sectors d) lba (Suc n) buf la"
  proof (intro ext)
    fix i j
    show "put_sectors ?f (lba + 1) n buf (la + 512) i j = put_sectors (sectors d) lba (Suc n) buf la i j"
    proof (cases "lba < i \<and> i < lba + Suc n")
      case True
      then obtain k where "i = lba + 1 + k" by (metis less_iff_Suc_add Suc_eq_plus1 add.commute add.left_commute)
      with True show ?thesis by (simp add: put_sectors_def add.assoc)
    next
      case False
      then show ?thesis by (auto simp: put_sectors_def store_list_def)
    qed
  qed
  then show ?case using Suc.IH by (simp add: Let_def)
qed

lemma rd_loop_sectors:
  "rd_loop d lba n buf la (int (512 * n)) = Some (get_sectors (sectors d) lba n buf la)"
proof (induction n arbitrary: lba buf la)
  case 0
  then show ?case by (auto simp: get_sectors_def fun_eq_iff)
next
  case (Suc n)
  have "get_sectors (sectors d) (lba + 1) n (store_list buf la (load_list (sectors d lba) 0 512)) (la + 512) =
      get_sectors (sectors d) lba (Suc n) buf la"
  proof
    fix j
    consider "j < la \<or> la + 512 * Suc n \<le> j" | "la \<le> j" "j < la + 512" | "la + 512 \<le> j" "j < la + 512 * Suc n" by linarith
    then show "get_sectors (sectors d) (lba + 1) n (store_list buf la (load_list (sectors d lba) 0 512)) (la + 512) j =
        get_sectors (sectors d) lba (Suc n) buf la j"
    proof cases
      case 3
      then obtain k where k: "j = la + 512 + k" by (metis le_Suc_ex)
      have "(j - la) div 512 = Suc (k div 512)" "(j - la) mod 512 = k mod 512" by (simp_all add: k div_add_self1 mod_add_self1)
      with 3 show ?thesis by (simp add: get_sectors_def k)
    qed (auto simp: get_sectors_def store_list_def)
  qed
  moreover have "int (512 * Suc n) - int SECTOR_SIZE = int (512 * n)" "nat (min (int SECTOR_SIZE) (int (512 * Suc n))) = 512" by simp_all
  ultimately show ?case using Suc.IH by (simp add: Let_def)
qed

lemma hd_rdwt_sectors:
  assumes part: "part_of_dev d (device p) = Some part" and n: "cnt p = int (512 * n)" "0 < n" "n \<le> 256"
    and lba: "lba = cmd_lba (rw_cmd (ucast (drop_bit 9 (position p)) + base part) (cnt p) (io_type p))"
  shows "hd_rdwt d p buf = (case io_type p of
      DEV_READ \<Rightarrow> Some (d, get_sectors (sectors d) lba n buf 0)
    | DEV_WRITE \<Rightarrow> Some (d\<lparr>sectors := put_sectors (sectors d) lba n buf 0\<rparr>, buf))"
  unfolding hd_rdwt_def part lba n(1)
  by (simp add: Let_def cmd_sectors_rw[OF n(2,3), simplified] rd_loop_sectors[simplified] wr_loop_sectors[simplified] split: io_type.split)

lemma load_get_sectors: "load_list (get_sectors f lba n buf 0) 0 (512 * n) = map (\<lambda>j. f (lba + j div 512) (j mod 512)) [0..<512 * n]"
  by (simp add: load_list_def get_sectors_def)

lemma get_put_sectors: "load_list (get_sectors (put_sectors f lba n buf 0) lba n buf' 0) 0 (512 * n) = load_list buf 0 (512 * n)"
proof -
  have "put_sectors f lba n buf 0 (lba + j div 512) (j mod 512) = buf j" if "j < 512 * n" for j
    using that by (simp add: put_sectors_def less_mult_imp_div_less mult.commute)
  then show ?thesis by (simp add: load_get_sectors) (simp add: load_list_def)
qed

text \<open>C22. Writing whole sectors to a device and reading the same place of the device again returns the
  bytes written; no other sector of the disk changes, nor does the table of partitions. The sectors are
  those from the start of the device's partition on; they must lie below the limit of 28-bit addresses,
  and one command moves at most 256 of them.\<close>

theorem hd_write_read:
  assumes "part_of_dev d dev = Some part" and "0 < n" "n \<le> 256"
    and "s = unat (ucast (drop_bit 9 pos) + base part)" "s + n \<le> 2 ^ 28"
  shows "\<exists>d'. hd_rdwt d \<lparr>io_type = DEV_WRITE, device = dev, position = pos, cnt = int (512 * n)\<rparr> buf = Some (d', buf) \<and>
    hd0 d' = hd0 d \<and> (\<forall>i. s \<le> i \<and> i < s + n \<or> sectors d' i = sectors d i) \<and>
    (\<exists>buf2. hd_rdwt d' \<lparr>io_type = DEV_READ, device = dev, position = pos, cnt = int (512 * n)\<rparr> buf' = Some (d', buf2) \<and>
      load_list buf2 0 (512 * n) = load_list buf 0 (512 * n) \<and> (\<forall>j \<ge> 512 * n. buf2 j = buf' j))"
proof -
  let ?d = "d\<lparr>sectors := put_sectors (sectors d) s n buf 0\<rparr>"
  have lba: "s = cmd_lba (rw_cmd (ucast (drop_bit 9 pos) + base part) k t)" for k t
    using assms(4,5,2) by (subst cmd_lba_rw) simp_all
  have part: "part_of_dev ?d dev = Some part" unfolding assms(1)[symmetric] by (simp add: part_of_dev_def Let_def)
  have w: "hd_rdwt d \<lparr>io_type = DEV_WRITE, device = dev, position = pos, cnt = int (512 * n)\<rparr> buf = Some (?d, buf)"
    by (subst hd_rdwt_sectors[where lba = s]) (use assms(1-3) lba in auto)
  have r: "hd_rdwt ?d \<lparr>io_type = DEV_READ, device = dev, position = pos, cnt = int (512 * n)\<rparr> buf' =
      Some (?d, get_sectors (put_sectors (sectors d) s n buf 0) s n buf' 0)"
    by (subst hd_rdwt_sectors[where lba = s]) (use part assms(2,3) lba in auto)
  show ?thesis
    by (rule exI[of _ ?d]) (simp add: w[simplified] r[simplified] get_put_sectors; simp add: put_sectors_def get_sectors_def)
qed

definition demo_disk :: hdisk where
  "demo_disk = \<lparr>hd0 = \<lparr>hd_open_cnt = 1, primary = (\<lambda>_. \<lparr>base = 0x800, psize = 0x1000, part_fs = 1\<rparr>),
     logical = (\<lambda>_. \<lparr>base = 0, psize = 0, part_fs = 0\<rparr>)\<rparr>, sectors = (\<lambda>_ _. 0), ident = (\<lambda>_. 0)\<rparr>"

theorem hd_write_read_witness:
  "\<exists>d'. hd_rdwt demo_disk \<lparr>io_type = DEV_WRITE, device = 1, position = 0x600, cnt = int (512 * 2)\<rparr> (\<lambda>k. of_nat k) = Some (d', \<lambda>k. of_nat k) \<and>
    hd0 d' = hd0 demo_disk \<and> (\<forall>i. 2051 \<le> i \<and> i < 2051 + 2 \<or> sectors d' i = sectors demo_disk i) \<and>
    (\<exists>buf2. hd_rdwt d' \<lparr>io_type = DEV_READ, device = 1, position = 0x600, cnt = int (512 * 2)\<rparr> (\<lambda>_. 0) = Some (d', buf2) \<and>
      load_list buf2 0 (512 * 2) = load_list (\<lambda>k. of_nat k) 0 (512 * 2) \<and> (\<forall>j \<ge> 512 * 2. buf2 j = 0))"
  by (rule hd_write_read[where part = "primary (hd0 demo_disk) 1"])
    (simp_all add: part_of_dev_def DRV_OF_DEV_def MAX_PRIM_def NR_PRIM_PER_DRIVE_def demo_disk_def signed_divide_int_def)

text \<open>C23. The request queue, linked through the requests, is first in, first out: any sequence of calls
  of \<^verbatim>\<open>in_hd_queue\<close> and \<^verbatim>\<open>out_hd_queue\<close> after \<^verbatim>\<open>init_hd_queue\<close> that puts in no request that is
  waiting already never follows a null pointer and returns what the same sequence of a list returns.\<close>

theorem hd_queue_fifo:
  assumes "fresh_ops [] ops"
  shows "run_queue in_hd_queue out_hd_queue (init_hd_queue q) ops = Some (run_list [] ops)"
  by (rule hd_fifo.run_queue_list[OF _ assms]) (simp add: hd_holds_def init_hd_queue_def)

theorem hd_queue_fifo_witness:
  "run_queue in_hd_queue out_hd_queue (init_hd_queue \<lparr>front = None, rear = None, nxt = (\<lambda>_. None)\<rparr>)
     [Deq, Enq 0x100, Enq 0x200, Deq, Enq 0x100, Deq, Deq, Deq] =
   Some [None, Some 0x100, Some 0x200, Some 0x100, None]"
  by (subst hd_queue_fifo) simp_all

subsection \<open>A request through the queue\<close>

text \<open>The two copies of the transfer do the same: their loops, and what comes before them.\<close>

lemma real_loop_read:
  "real_loop d DEV_READ lba n hdbuf kb la left = map_option (Pair d) (rd_loop d lba n kb la left)"
proof (induction n arbitrary: lba hdbuf kb la left)
  case (Suc n)
  have "load_list (store_list hdbuf 0 (load_list m 0 SECTOR_SIZE)) 0 (nat (min (int SECTOR_SIZE) left)) =
      load_list m 0 (nat (min (int SECTOR_SIZE) left))" for m :: bytes
    by (rule nth_equalityI) (auto simp: store_list_def)
  then show ?case using Suc.IH by (simp add: Let_def)
qed simp

lemma real_loop_write:
  "real_loop d DEV_WRITE lba n hdbuf kb la left = map_option (\<lambda>d. (d, kb)) (wr_loop d lba n hdbuf kb la left)"
  by (induction n arbitrary: d lba hdbuf la left) (simp_all add: Let_def)

lemma real_base_part: "real_base d p = map_option base (part_of_dev d (device (rw_msg p)))"
  by (simp add: real_base_def part_of_dev_def Let_def)

lemma hd_rdwt_real_copy:
  "hd_rdwt_real d p = map_option (\<lambda>(d, b). (d, p\<lparr>kbuf := b\<rparr>)) (hd_rdwt d (rw_msg p) (kbuf p))"
  unfolding hd_rdwt_real_def hd_rdwt_def real_base_part rw_cmd_def[symmetric]
  by (cases "part_of_dev d (device (rw_msg p))"; cases "io_type (rw_msg p)")
    (auto simp: Let_def real_loop_read real_loop_write rw_cmd_def split: Option.bind_splits)

lemma serve_one:
  assumes "out_hd_queue (hdque s) = Some (q, Some a)" "rear q = None" "hd_rdwt_real (disk s) (reqs s a) = Some (d, rw)"
  shows "hd_serve s = Some (s\<lparr>hdque := q, disk := d, reqs := (reqs s)(a := rw), sleeping := (sleeping s)(rw_proc rw := False)\<rparr>)"
proof -
  have "out_hd_queue q = Some (q, None)" using assms(2) by (simp add: out_hd_queue_def)
  then have "hdque s' = q \<Longrightarrow> hd_serve s' = Some (s'\<lparr>hdque := q\<rparr>)" for s'
    by (simp add: hd_serve.simps[of s'])
  then show ?thesis using assms(1,3) by (simp add: hd_serve.simps[of s])
qed

lemma get_sectors_store: "get_sectors f lba n buf 0 = store_list buf 0 (load_list (get_sectors f lba n kb 0) 0 (512 * n))"
  by (rule ext) (simp add: load_get_sectors, simp add: get_sectors_def store_list_def)

lemma put_sectors_copy: "put_sectors f lba n (store_list kb 0 (load_list buf 0 (512 * n))) 0 = put_sectors f lba n buf 0"
  by (intro ext) (auto simp: put_sectors_def store_list_def)

lemma sched_direct:
  assumes "part_of_dev (disk s) (device p) = Some part" "cnt p = int (512 * n)" "0 < n" "n \<le> 256"
    and q: "rear (hdque s) = None"
    and mem: "memman_ok (kmem s)" "snd (do_kmalloc (kmem s) (of_int (cnt p))) \<noteq> - 1"
  shows "\<exists>d buf' s'. hd_rdwt (disk s) p buf = Some (d, buf') \<and> hd_rdwt_sched s a pid p buf = Some (s', buf') \<and>
    disk s' = d \<and> rear (hdque s') = None \<and> \<not> sleeping s' pid \<and> blocks (kmem s') = blocks (kmem s)"
proof -
  let ?lba = "cmd_lba (rw_cmd (ucast (drop_bit 9 (position p)) + base part) (cnt p) (io_type p))"
  obtain m b where mb: "do_kmalloc (kmem s) (of_int (cnt p)) = (m, b)" by fastforce
  have sz: "(0 :: u32) < of_int (cnt p)"
    using assms(2-4) unat_of_int_u32[of "cnt p"] by (simp add: word_less_nat_alt)
  have bl: "blocks (fst (do_free m b (of_int (cnt p)))) = blocks (kmem s)"
    using alloc_free_restores[OF mem(1) sz, of b m] mb mem(2) by (simp add: do_kmalloc_def do_free_def)
  let ?kb = "if io_type p = DEV_WRITE then store_list (\<lambda>_. 0) 0 (load_list buf 0 (512 * n)) else (\<lambda>_. 0)"
  let ?s1 = "s\<lparr>kmem := m, reqs := (reqs s)(a := \<lparr>rw_msg = p, kbuf = ?kb, rw_proc = pid\<rparr>),
     hdque := in_hd_queue (hdque s) a, sleeping := (sleeping s)(pid := True)\<rparr>"
  have nn: "nat (cnt p) = 512 * n" "\<not> cnt p < 0" using assms(2) by simp_all
  have sub: "hd_submit s a pid p buf = Some (?s1, b)"
    using mb mem(2) nn by (simp add: hd_submit_def)
  have out: "\<exists>q'. out_hd_queue (hdque ?s1) = Some (q', Some a) \<and> rear q' = None"
    using q by (simp add: in_hd_queue_def out_hd_queue_def Let_def)
  note rd = hd_rdwt_sectors[OF assms(1-4) refl]
  obtain d kb' where r: "hd_rdwt (disk s) p ?kb = Some (d, kb')" by (cases "io_type p") (simp_all add: rd)
  obtain q' where q': "out_hd_queue (hdque ?s1) = Some (q', Some a)" "rear q' = None" using out by blast
  let ?rw = "\<lparr>rw_msg = p, kbuf = kb', rw_proc = pid\<rparr>"
  have "hd_rdwt_real (disk ?s1) (reqs ?s1 a) = Some (d, ?rw)" by (simp add: hd_rdwt_real_copy r)
  from serve_one[OF q' this] have sv: "hd_serve ?s1 = Some (?s1\<lparr>hdque := q', disk := d, reqs := (reqs ?s1)(a := ?rw),
      sleeping := (sleeping ?s1)(pid := False)\<rparr>)"
    unfolding rw_info.select_convs .
  show ?thesis
    unfolding hd_rdwt_sched_def sub using sv r q'(2) bl nn
    by (cases "io_type p") (auto simp: rd hd_finish_def put_sectors_copy get_sectors_store[symmetric] split: prod.split)
qed

text \<open>C21. A process that reads or writes sectors through the queue while no other process uses the disk
  gets what the direct call \<^verbatim>\<open>hd_rdwt\<close> gives, on the disk and in its buffer, although the transfer is done by the other copy of the
  code, \<^verbatim>\<open>hd_rdwt_real\<close>, on a buffer of the kernel; the service routine
  comes back with an empty queue, the process is awake again, and the memory manager has the buffer back.\<close>

theorem sched_equals_direct:
  assumes "part_of_dev (disk s) (device p) = Some part" "cnt p = int (512 * n)" "0 < n" "n \<le> 256"
    and q: "rear (hdque s) = None"
    and mem: "memman_ok (kmem s)" "snd (do_kmalloc (kmem s) (of_int (cnt p))) \<noteq> - 1"
  shows "\<exists>d buf' s'. hd_rdwt (disk s) p buf = Some (d, buf') \<and> hd_rdwt_sched s a pid p buf = Some (s', buf') \<and>
    disk s' = d \<and> rear (hdque s') = None \<and> \<not> sleeping s' pid \<and> blocks (kmem s') = blocks (kmem s)"
  by (rule sched_direct[OF assms])

definition demo_sys :: hd_sys where
  "demo_sys = \<lparr>disk = demo_disk, hdque = \<lparr>front = None, rear = None, nxt = (\<lambda>_. None)\<rparr>,
     reqs = (\<lambda>_. \<lparr>rw_msg = \<lparr>io_type = DEV_READ, device = 0, position = 0, cnt = 0\<rparr>, kbuf = (\<lambda>_. 0), rw_proc = 0\<rparr>),
     kmem = one_block\<lparr>free := (\<lambda>_. \<lparr>fi_addr = KWALL, fi_size = 0x1000\<rparr>)\<rparr>, sleeping = (\<lambda>_. False)\<rparr>"

theorem sched_equals_direct_witness:
  "\<exists>d buf' s'. hd_rdwt (disk demo_sys) \<lparr>io_type = DEV_WRITE, device = 1, position = 0, cnt = int (512 * 2)\<rparr> (\<lambda>_. 7) = Some (d, buf') \<and>
    hd_rdwt_sched demo_sys 0x100 3 \<lparr>io_type = DEV_WRITE, device = 1, position = 0, cnt = int (512 * 2)\<rparr> (\<lambda>_. 7) = Some (s', buf') \<and>
    disk s' = d \<and> rear (hdque s') = None \<and> \<not> sleeping s' 3 \<and> blocks (kmem s') = blocks (kmem demo_sys)"
proof (rule sched_equals_direct[where n = 2 and part = "primary (hd0 demo_disk) 1"])
  show "memman_ok (kmem demo_sys)"
    by (simp add: demo_sys_def one_block_def memman_ok_def blocks_def memman_consts b_hi_def)
  show "snd (do_kmalloc (kmem demo_sys) (of_int (cnt \<lparr>io_type = DEV_WRITE, device = 1, position = 0, cnt = int (512 * 2)\<rparr>))) \<noteq> - 1"
    by (simp add: demo_sys_def one_block_def do_kmalloc_def memman_kalloc_def memman_consts)
qed (simp_all add: demo_sys_def part_of_dev_def DRV_OF_DEV_def MAX_PRIM_def NR_PRIM_PER_DRIVE_def demo_disk_def signed_divide_int_def)

subsection \<open>Opening the drive\<close>

lemma get_fs_flags_cong: "sectors d' = sectors d \<Longrightarrow> get_fs_flags d' = get_fs_flags d"
  by (intro ext) (simp add: get_fs_flags_def read_sector_def)

lemma get_part_table_cong: "sectors d' = sectors d \<Longrightarrow> get_part_table d' = get_part_table d"
  by (intro ext) (simp add: get_part_table_def read_sector_def)

lemma set_part_sectors [simp]:
  "sectors (set_logical d k f) = sectors d" "sectors (set_primary d k f) = sectors d"
  "primary (hd0 (set_logical d k f)) = primary (hd0 d)" "hd_open_cnt (hd0 (set_logical d k f)) = hd_open_cnt (hd0 d)"
  "primary (hd0 (set_primary d k f)) = (primary (hd0 d))(k := f (primary (hd0 d) k))"
  "hd_open_cnt (hd0 (set_primary d k f)) = hd_open_cnt (hd0 d)"
  by (simp_all add: set_logical_def set_primary_def)

lemma ext_loop_frame:
  "sectors (ext_loop d e s m i n) = sectors d \<and> primary (hd0 (ext_loop d e s m i n)) = primary (hd0 d) \<and>
   hd_open_cnt (hd0 (ext_loop d e s m i n)) = hd_open_cnt (hd0 d)"
  by (induction d e s m i n rule: ext_loop.induct) (simp_all add: Let_def)

text \<open>Entry \<open>i\<close> of the table, written to the partition with number \<open>i + 1\<close>.\<close>

definition primary_entry :: "hdisk \<Rightarrow> u32 \<Rightarrow> nat \<Rightarrow> part_info \<Rightarrow> part_info" where
  "primary_entry d drive i p = (let t = get_part_table d drive i in
     if sys_id t = NO_PART then p else part_of d (start_sect t) (nr_sects t) p)"

lemma prim_loop_entries:
  "sectors (prim_loop d dev drive i n) = sectors d \<and> hd_open_cnt (hd0 (prim_loop d dev drive i n)) = hd_open_cnt (hd0 d) \<and>
   primary (hd0 (prim_loop d dev drive i n)) = (\<lambda>k. if i < k \<and> k \<le> i + n
      then primary_entry d drive (k - 1) (primary (hd0 d) k) else primary (hd0 d) k)"
proof (induction n arbitrary: d i)
  case 0
  then show ?case by (auto simp: fun_eq_iff)
next
  case (Suc n)
  let ?t = "get_part_table d drive i"
  let ?d1 = "set_primary d (i + 1) (part_of d (start_sect ?t) (nr_sects ?t))"
  let ?d2 = "if sys_id ?t = NO_PART then d else if sys_id ?t = EXT_PART then partition_ext ?d1 (dev + int (i + 1)) else ?d1"
  have step: "prim_loop d dev drive i (Suc n) = prim_loop ?d2 dev drive (i + 1) n" by (simp add: Let_def)
  have d2: "sectors ?d2 = sectors d" "hd_open_cnt (hd0 ?d2) = hd_open_cnt (hd0 d)"
    "primary (hd0 ?d2) = (primary (hd0 d))(i + 1 := primary_entry d drive i (primary (hd0 d) (i + 1)))"
    by (simp_all add: partition_ext_def ext_loop_frame Let_def primary_entry_def)
  have e: "primary_entry ?d2 = primary_entry d"
    by (intro ext) (simp only: primary_entry_def part_of_def get_part_table_cong[OF d2(1)] get_fs_flags_cong[OF d2(1)])
  show ?case unfolding step using Suc.IH[of ?d2 "i + 1"] unfolding d2 e
    by (auto simp: fun_eq_iff)
qed

text \<open>C24. Opening the drive always succeeds and changes no sector. The first time it reads the partition
  table: every primary partition the table names gets the start, the size and the file system found on
  its second sector, the others keep what they had. Later opens read nothing.\<close>

theorem hd_open_reads_table:
  "\<exists>d'. hd_open d 0 = Some d' \<and> sectors d' = sectors d \<and> hd_open_cnt (hd0 d') = hd_open_cnt (hd0 d) + 1 \<and>
    (\<forall>k. primary (hd0 d') (Suc k) =
      (if k < 4 \<and> hd_open_cnt (hd0 d) = 0 \<and> sys_id (get_part_table d 0 k) \<noteq> NO_PART
       then let t = get_part_table d 0 k; p = primary (hd0 d) (Suc k) in
         p\<lparr>base := start_sect t, psize := nr_sects t, part_fs := get_fs_flags d (start_sect t + 1) (part_fs p)\<rparr>
       else primary (hd0 d) (Suc k)))"
proof -
  let ?i = "hd_identify d"
  let ?d = "?i\<lparr>hd0 := (hd0 ?i)\<lparr>hd_open_cnt := hd_open_cnt (hd0 ?i) + 1\<rparr>\<rparr>"
  let ?r = "if hd_open_cnt (hd0 d) = 0 then prim_loop ?d 0 0 0 4 else ?d"
  have i: "sectors ?i = sectors d" "hd_open_cnt (hd0 ?i) = hd_open_cnt (hd0 d)" "\<And>k. primary (hd0 ?i) (Suc k) = primary (hd0 d) (Suc k)"
    by (simp_all add: hd_identify_def)
  have "hd_open d 0 = Some ?r"
    using i(2) by (simp add: hd_open_def Let_def partition_def DRV_OF_DEV_def MAX_PRIM_def NR_PRIM_PER_DRIVE_def NR_PART_PER_DRIVE_def)
  moreover have d: "sectors ?d = sectors d" by (simp add: i)
  have e: "primary_entry ?d = primary_entry d"
    by (intro ext) (simp only: primary_entry_def part_of_def get_part_table_cong[OF d] get_fs_flags_cong[OF d])
  have "primary (hd0 ?r) (Suc k) = (if k < 4 \<and> hd_open_cnt (hd0 d) = 0 then primary_entry d 0 k (primary (hd0 d) (Suc k))
      else primary (hd0 d) (Suc k))" for k
    using prim_loop_entries[of ?d 0 0 0 4] i(3) unfolding e by auto
  moreover have "sectors ?r = sectors d" "hd_open_cnt (hd0 ?r) = hd_open_cnt (hd0 d) + 1"
    using prim_loop_entries[of ?d 0 0 0 4] i by auto
  ultimately show ?thesis
    by (intro exI[of _ ?r]) (simp add: primary_entry_def part_of_def Let_def)
qed

end
