(* ===== verification/OrangeFs.thy ===== *)
theory OrangeFs
  imports HardDisk Vfs
begin

text \<open>
  The Orange file system, \<^verbatim>\<open>kernel/fs.c\<close>: the layout of the disk, the table of inodes, the allocation maps
  and the operations \<^verbatim>\<open>real_*\<close> that the virtual file system calls.

  To the state of the virtual file system come the disk driver, the table of inodes in memory, the
  table of super blocks and \<^verbatim>\<open>root_inode\<close>, the index of an inode or null. A local \<^verbatim>\<open>fsbuf\<close> is a block of 512
  bytes that a sector is read into; an access outside it is \<open>None\<close>. The number of a sector is a C
  \<^verbatim>\<open>int\<close> where its byte position is computed: beyond 2 gigabytes that overflows, \<open>None\<close>. An \<^verbatim>\<open>int\<close> that is
  given an unsigned value reads its bits. Output on the console is left out. The parameters
  of \<open>mkfs\<close> are the macros \<^verbatim>\<open>INSTALL_START_SECTOR\<close>, \<^verbatim>\<open>INSTALL_NR_SECTORS\<close> and \<^verbatim>\<open>INSTALL_FILENAME\<close>
  of the \<^verbatim>\<open>Makefile\<close>.
\<close>

definition MAGIC_V1 :: u32 where "MAGIC_V1 = 0x111"
definition INODE_SIZE :: nat where "INODE_SIZE = 32"
definition DIR_ENTRY_SIZE :: nat where "DIR_ENTRY_SIZE = 16"
definition MAX_FILENAME_LEN :: nat where "MAX_FILENAME_LEN = 12"
definition NR_INODE :: nat where "NR_INODE = 64"
definition ROOT_INODE :: int where "ROOT_INODE = 1"
definition NR_CONSOLES :: nat where "NR_CONSOLES = 3"
definition NR_DEFAULT_FILE_SECTS :: nat where "NR_DEFAULT_FILE_SECTS = 2048"
definition I_TYPE_MASK :: u32 where "I_TYPE_MASK = 0xF000"
definition I_REGULAR :: u32 where "I_REGULAR = 0x8000"
definition I_DIRECTORY :: u32 where "I_DIRECTORY = 0x4000"
definition I_CHAR_SPECIAL :: u32 where "I_CHAR_SPECIAL = 0x2000"

record super_block = sb_head +
  magic :: u32
  nr_inodes :: u32
  sb_nr_sects :: u32
  nr_imap_sects :: u32
  nr_smap_sects :: u32
  n_1st_sect :: u32
  nr_inode_sects :: u32
  sb_root_inode :: u32
  sb_inode_size :: u32
  inode_isize_off :: u32
  inode_start_off :: u32
  dir_ent_size :: u32
  dir_ent_inode_off :: u32
  dir_ent_fname_off :: u32

text \<open>The sixteen unused bytes of a \<^verbatim>\<open>struct inode\<close> in memory are never looked at. The count of users is a C \<^verbatim>\<open>int\<close>, here without overflow:
  every user is an entry of the table of descriptors or a call that is running.\<close>

record inode =
  i_mode :: u32
  i_size :: u32
  i_start_sect :: u32
  i_nr_sects :: u32
  i_dev :: int
  i_cnt :: int
  i_num :: int

text \<open>\<open>stack_addr\<close> is the address of a disk request on the kernel stack of the current process, \<open>cur_pid\<close>.\<close>

record ostate = vstate +
  hds :: hd_sys
  inode_table :: "inode block"
  sb_table :: "super_block block"
  root_inode :: "nat option"
  stack_addr :: u32
  cur_pid :: nat

definition set_inode :: "'a ostate_scheme \<Rightarrow> nat \<Rightarrow> (inode \<Rightarrow> inode) \<Rightarrow> 'a ostate_scheme" where
  "set_inode s p f = s\<lparr>inode_table := (inode_table s)(p := f (inode_table s p))\<rparr>"

subsection \<open>Sectors\<close>

definition MINOR :: "int \<Rightarrow> int" where "MINOR dev = dev AND 0xFF"
definition MAJOR :: "int \<Rightarrow> int" where "MAJOR dev = drop_bit 8 dev AND 0xFF"
definition MAKE_DEV :: "int \<Rightarrow> int \<Rightarrow> int" where "MAKE_DEV a b = push_bit 8 a OR b"

definition rw_sector :: "'a ostate_scheme \<Rightarrow> io_type \<Rightarrow> int \<Rightarrow> 64 word \<Rightarrow> int \<Rightarrow> bytes \<Rightarrow>
    ('a ostate_scheme \<times> bytes) option" where
  "rw_sector s t dev pos n buf = do {
     (d, buf) \<leftarrow> hd_rdwt (disk (hds s)) \<lparr>io_type = t, device = MINOR dev, position = pos, cnt = n\<rparr> buf;
     Some (s\<lparr>hds := (hds s)\<lparr>disk := d\<rparr>\<rparr>, buf)
   }"

definition rw_sector_sched :: "'a ostate_scheme \<Rightarrow> io_type \<Rightarrow> int \<Rightarrow> 64 word \<Rightarrow> int \<Rightarrow> bytes \<Rightarrow>
    ('a ostate_scheme \<times> bytes) option" where
  "rw_sector_sched s t dev pos n buf = do {
     (h, buf) \<leftarrow> hd_rdwt_sched ((hds s)\<lparr>kmem := memman s\<rparr>) (stack_addr s) (cur_pid s)
        \<lparr>io_type = t, device = MINOR dev, position = pos, cnt = n\<rparr> buf;
     Some (s\<lparr>hds := h, memman := kmem h\<rparr>, buf)
   }"

text \<open>The byte position of a sector given by an \<^verbatim>\<open>int\<close>, and by an unsigned number, which wraps.\<close>

definition sect_pos :: "int \<Rightarrow> 64 word option" where
  "sect_pos n = (if int_ok (n * int SECTOR_SIZE) then Some (of_int (n * int SECTOR_SIZE)) else None)"

definition sect_pos_u32 :: "u32 \<Rightarrow> 64 word" where
  "sect_pos_u32 n = ucast (n * of_nat SECTOR_SIZE)"

definition rd_sect :: "'a ostate_scheme \<Rightarrow> int \<Rightarrow> int \<Rightarrow> bytes option" where
  "rd_sect s dev n = do { pos \<leftarrow> sect_pos n; (s, buf) \<leftarrow> rw_sector s DEV_READ dev pos 512 (\<lambda>_. 0); Some buf }"

definition wr_sect :: "'a ostate_scheme \<Rightarrow> int \<Rightarrow> int \<Rightarrow> bytes \<Rightarrow> 'a ostate_scheme option" where
  "wr_sect s dev n buf = do { pos \<leftarrow> sect_pos n; (s, buf) \<leftarrow> rw_sector s DEV_WRITE dev pos 512 buf; Some s }"

definition rd_sect_sched :: "'a ostate_scheme \<Rightarrow> int \<Rightarrow> int \<Rightarrow> ('a ostate_scheme \<times> bytes) option" where
  "rd_sect_sched s dev n = do { pos \<leftarrow> sect_pos n; rw_sector_sched s DEV_READ dev pos 512 (\<lambda>_. 0) }"

definition wr_sect_sched :: "'a ostate_scheme \<Rightarrow> int \<Rightarrow> int \<Rightarrow> bytes \<Rightarrow> 'a ostate_scheme option" where
  "wr_sect_sched s dev n buf = do { pos \<leftarrow> sect_pos n; (s, buf) \<leftarrow> rw_sector_sched s DEV_WRITE dev pos 512 buf; Some s }"

subsection \<open>The device and its super block\<close>

text \<open>The first partition with a file system of the type, among the primary ones, then the logical ones.\<close>

fun fs_dev_loop :: "part_info block \<Rightarrow> int \<Rightarrow> nat \<Rightarrow> nat \<Rightarrow> nat option" where
  "fs_dev_loop tab t i 0 = None"
| "fs_dev_loop tab t i (Suc n) = (if part_fs (tab i) = of_int t then Some i else fs_dev_loop tab t (i + 1) n)"

definition get_fs_dev :: "'a ostate_scheme \<Rightarrow> int \<Rightarrow> int" where
  "get_fs_dev s t =
     (let info = hd0 (disk (hds s)) in
      case fs_dev_loop (primary info) t 0 NR_PRIM_PER_DRIVE of
        Some i \<Rightarrow> push_bit 8 DEV_HD OR int i
      | None \<Rightarrow> (case fs_dev_loop (logical info) t 0 NR_SUB_PER_DRIVE of
          Some i \<Rightarrow> push_bit 8 DEV_HD OR (int i + MINOR_hd1a)
        | None \<Rightarrow> 0))"

text \<open>A \<^verbatim>\<open>struct super_block\<close> in its 64 bytes.\<close>

definition super_block_bytes :: "super_block \<Rightarrow> u8 list" where
  "super_block_bytes sb = concat (List.map le32 [magic sb, nr_inodes sb, sb_nr_sects sb, nr_imap_sects sb, nr_smap_sects sb,
     n_1st_sect sb, nr_inode_sects sb, sb_root_inode sb, sb_inode_size sb, inode_isize_off sb, inode_start_off sb,
     dir_ent_size sb, dir_ent_inode_off sb, dir_ent_fname_off sb, of_int (sb_dev sb), of_int (fs_type sb)])"

definition load_super_block :: "bytes \<Rightarrow> super_block" where
  "load_super_block m = \<lparr>sb_dev = sint (load32 m 56), fs_type = sint (load32 m 60),
     magic = load32 m 0, nr_inodes = load32 m 4, sb_nr_sects = load32 m 8, nr_imap_sects = load32 m 12,
     nr_smap_sects = load32 m 16, n_1st_sect = load32 m 20, nr_inode_sects = load32 m 24, sb_root_inode = load32 m 28,
     sb_inode_size = load32 m 32, inode_isize_off = load32 m 36, inode_start_off = load32 m 40, dir_ent_size = load32 m 44,
     dir_ent_inode_off = load32 m 48, dir_ent_fname_off = load32 m 52\<rparr>"

fun sb_type_loop :: "super_block block \<Rightarrow> int \<Rightarrow> nat \<Rightarrow> nat \<Rightarrow> nat option" where
  "sb_type_loop tab t i 0 = None"
| "sb_type_loop tab t i (Suc n) = (if fs_type (tab i) = t then Some i else sb_type_loop tab t (i + 1) n)"

definition read_super_block :: "'a ostate_scheme \<Rightarrow> int \<Rightarrow> 'a ostate_scheme option" where
  "read_super_block s dev = do {
     fsbuf \<leftarrow> rd_sect s dev 1;
     i \<leftarrow> sb_type_loop (sb_table s) ORANGE_TYPE 0 NR_SUPER_BLOCK;
     Some (s\<lparr>sb_table := (sb_table s)(i := (load_super_block fsbuf)\<lparr>sb_dev := dev, fs_type := ORANGE_TYPE\<rparr>)\<rparr>)
   }"

fun sb_dev_loop :: "super_block block \<Rightarrow> int \<Rightarrow> nat \<Rightarrow> nat \<Rightarrow> nat option" where
  "sb_dev_loop tab dev i 0 = None"
| "sb_dev_loop tab dev i (Suc n) = (if sb_dev (tab i) = dev then Some i else sb_dev_loop tab dev (i + 1) n)"

text \<open>\<open>None\<close> is the null pointer, which every caller dereferences.\<close>

definition get_super_block :: "'a ostate_scheme \<Rightarrow> int \<Rightarrow> super_block option" where
  "get_super_block s dev = map_option (sb_table s) (sb_dev_loop (sb_table s) dev 0 NR_SUPER_BLOCK)"

subsection \<open>The table of inodes\<close>

text \<open>The search for an inode in use, and for the first free slot.\<close>

fun find_inode :: "inode block \<Rightarrow> int \<Rightarrow> int \<Rightarrow> nat \<Rightarrow> nat option \<Rightarrow> nat \<Rightarrow> nat + nat option" where
  "find_inode tab dev num p q 0 = Inr q"
| "find_inode tab dev num p q (Suc n) =
     (if i_cnt (tab p) \<noteq> 0 then
        if i_dev (tab p) = dev \<and> i_num (tab p) = num then Inl p else find_inode tab dev num (p + 1) q n
      else find_inode tab dev num (p + 1) (if q = None then Some p else q) n)"

text \<open>The sector and the offset in it of an inode on the disk.\<close>

definition inode_blk :: "super_block \<Rightarrow> int \<Rightarrow> int" where
  "inode_blk sb num = sint (1 + 1 + nr_imap_sects sb + nr_smap_sects sb + of_int ((num - 1) sdiv 16))"

definition inode_off :: "int \<Rightarrow> nat option" where
  "inode_off num = (let r = (num - 1) smod 16 in if r < 0 then None else Some (nat r * INODE_SIZE))"

definition load_inode :: "bytes \<Rightarrow> nat \<Rightarrow> inode \<Rightarrow> inode" where
  "load_inode m a e = e\<lparr>i_mode := load32 m a, i_size := load32 m (a + 4), i_start_sect := load32 m (a + 8),
     i_nr_sects := load32 m (a + 12)\<rparr>"

definition store_inode :: "bytes \<Rightarrow> nat \<Rightarrow> inode \<Rightarrow> bytes" where
  "store_inode m a e = store32 (store32 (store32 (store32 m a (i_mode e)) (a + 4) (i_size e)) (a + 8) (i_start_sect e))
     (a + 12) (i_nr_sects e)"

text \<open>The two copies of the function differ in how they read the sector.\<close>

definition get_inode_by :: "('a ostate_scheme \<Rightarrow> int \<Rightarrow> int \<Rightarrow> ('a ostate_scheme \<times> bytes) option) \<Rightarrow> 'a ostate_scheme \<Rightarrow>
    int \<Rightarrow> int \<Rightarrow> ('a ostate_scheme \<times> nat option) option" where
  "get_inode_by rd s dev num =
     (if num = 0 then Some (s, None) else
      case find_inode (inode_table s) dev num 0 None NR_INODE of
        Inl p \<Rightarrow> Some (set_inode s p (\<lambda>e. e\<lparr>i_cnt := i_cnt e + 1\<rparr>), Some p)
      | Inr None \<Rightarrow> None
      | Inr (Some q) \<Rightarrow> do {
          let s = set_inode s q (\<lambda>e. e\<lparr>i_dev := dev, i_num := num, i_cnt := 1\<rparr>);
          sb \<leftarrow> get_super_block s dev;
          (s, fsbuf) \<leftarrow> rd s dev (inode_blk sb num);
          a \<leftarrow> inode_off num;
          Some (set_inode s q (load_inode fsbuf a), Some q)
        })"

definition get_inode :: "'a ostate_scheme \<Rightarrow> int \<Rightarrow> int \<Rightarrow> ('a ostate_scheme \<times> nat option) option" where
  "get_inode = get_inode_by (\<lambda>s dev n. map_option (\<lambda>buf. (s, buf)) (rd_sect s dev n))"

definition get_inode_sched :: "'a ostate_scheme \<Rightarrow> int \<Rightarrow> int \<Rightarrow> ('a ostate_scheme \<times> nat option) option" where
  "get_inode_sched = get_inode_by rd_sect_sched"

definition put_inode :: "'a ostate_scheme \<Rightarrow> nat \<Rightarrow> 'a ostate_scheme" where
  "put_inode s p = set_inode s p (\<lambda>e. e\<lparr>i_cnt := i_cnt e - 1\<rparr>)"

definition sync_inode :: "'a ostate_scheme \<Rightarrow> nat \<Rightarrow> 'a ostate_scheme option" where
  "sync_inode s p = do {
     let e = inode_table s p;
     sb \<leftarrow> get_super_block s (i_dev e);
     fsbuf \<leftarrow> rd_sect s (i_dev e) (inode_blk sb (i_num e));
     a \<leftarrow> inode_off (i_num e);
     wr_sect s (i_dev e) (inode_blk sb (i_num e)) (store_inode fsbuf a e)
   }"

definition new_inode :: "'a ostate_scheme \<Rightarrow> int \<Rightarrow> int \<Rightarrow> int \<Rightarrow> ('a ostate_scheme \<times> nat) option" where
  "new_inode s dev inode_nr sect = do {
     (s, p) \<leftarrow> get_inode s dev inode_nr;
     p \<leftarrow> p;
     let s = set_inode s p (\<lambda>e. e\<lparr>i_mode := I_REGULAR, i_size := 0, i_start_sect := of_int sect,
        i_nr_sects := of_nat NR_DEFAULT_FILE_SECTS, i_dev := dev, i_cnt := 1, i_num := inode_nr\<rparr>);
     s \<leftarrow> sync_inode s p;
     Some (s, p)
   }"

subsection \<open>The allocation maps\<close>

text \<open>The first zero bit of a byte that is not \<open>0xFF\<close>, from bit \<open>k\<close> on.\<close>

fun first_zero :: "u8 \<Rightarrow> nat \<Rightarrow> nat \<Rightarrow> nat" where
  "first_zero b k 0 = k"
| "first_zero b k (Suc n) = (if bit b k then first_zero b (k + 1) n else k)"

fun imap_byte :: "bytes \<Rightarrow> nat \<Rightarrow> nat \<Rightarrow> nat option" where
  "imap_byte m j 0 = None"
| "imap_byte m j (Suc n) = (if m j = 0xFF then imap_byte m (j + 1) n else Some j)"

text \<open>The loop over the sectors of the map returns in its first round.\<close>

definition alloc_imap_bit :: "'a ostate_scheme \<Rightarrow> int \<Rightarrow> ('a ostate_scheme \<times> int) option" where
  "alloc_imap_bit s dev = do {
     sb \<leftarrow> get_super_block s dev;
     if nr_imap_sects sb = 0 then None
     else do {
       fsbuf \<leftarrow> rd_sect s dev 2;
       case imap_byte fsbuf 0 SECTOR_SIZE of
         None \<Rightarrow> Some (s, 0)
       | Some j \<Rightarrow> do {
           let k = first_zero (fsbuf j) 0 8;
           s \<leftarrow> wr_sect s dev 2 (fsbuf(j := fsbuf j OR push_bit k 1));
           Some (s, int (j * 8 + k))
         }
     }
   }"

text \<open>The bits set in one byte, and how many sectors are still to be allocated.\<close>

fun set_bits :: "u8 \<Rightarrow> nat \<Rightarrow> int \<Rightarrow> nat \<Rightarrow> u8 \<times> int" where
  "set_bits b k left 0 = (b, left)"
| "set_bits b k left (Suc n) =
     (let b = b OR push_bit k 1 in if left - 1 = 0 then (b, 0) else set_bits b (k + 1) (left - 1) n)"

text \<open>The bytes of sector \<open>i\<close> of the map; \<open>sect1\<close> is the first sector found, or 0.\<close>

fun smap_bytes :: "super_block \<Rightarrow> nat \<Rightarrow> bytes \<Rightarrow> nat \<Rightarrow> int \<Rightarrow> int \<Rightarrow> nat \<Rightarrow> bytes \<times> int \<times> int" where
  "smap_bytes sb i m j left sect1 0 = (m, left, sect1)"
| "smap_bytes sb i m j left sect1 (Suc n) =
     (if left \<le> 0 then (m, left, sect1)
      else if sect1 = 0 then
        if m j = 0xFF then smap_bytes sb i m (j + 1) left sect1 n
        else
          let k = first_zero (m j) 0 8;
              sect1 = sint (of_nat ((i * SECTOR_SIZE + j) * 8 + k) - 1 + n_1st_sect sb);
              (b, left) = set_bits (m j) k left (8 - k)
          in smap_bytes sb i (m(j := b)) (j + 1) left sect1 n
      else
        let (b, left) = set_bits (m j) 0 left 8
        in smap_bytes sb i (m(j := b)) (j + 1) left sect1 n)"

fun smap_sects :: "'a ostate_scheme \<Rightarrow> int \<Rightarrow> super_block \<Rightarrow> int \<Rightarrow> nat \<Rightarrow> int \<Rightarrow> int \<Rightarrow> nat \<Rightarrow> ('a ostate_scheme \<times> int) option" where
  "smap_sects s dev sb blk0 i left sect1 0 = Some (s, sect1)"
| "smap_sects s dev sb blk0 i left sect1 (Suc n) = do {
     fsbuf \<leftarrow> rd_sect s dev (blk0 + int i);
     let (fsbuf, left, sect1) = smap_bytes sb i fsbuf 0 left sect1 SECTOR_SIZE;
     s \<leftarrow> (if sect1 \<noteq> 0 then wr_sect s dev (blk0 + int i) fsbuf else Some s);
     if left = 0 then Some (s, sect1) else smap_sects s dev sb blk0 (i + 1) left sect1 n
   }"

definition alloc_smap_bit :: "'a ostate_scheme \<Rightarrow> int \<Rightarrow> int \<Rightarrow> ('a ostate_scheme \<times> int) option" where
  "alloc_smap_bit s dev nr_sects_to_alloc = do {
     sb \<leftarrow> get_super_block s dev;
     smap_sects s dev sb (sint (1 + 1 + nr_imap_sects sb)) 0 nr_sects_to_alloc 0 (unat (nr_smap_sects sb))
   }"

subsection \<open>Names and the directory\<close>

fun memcmp :: "bytes \<Rightarrow> nat \<Rightarrow> bytes \<Rightarrow> nat \<Rightarrow> nat \<Rightarrow> int" where
  "memcmp m1 p1 m2 p2 0 = 0"
| "memcmp m1 p1 m2 p2 (Suc n) = (if m1 p1 \<noteq> m2 p2 then sint (m1 p1) - sint (m2 p2) else memcmp m1 (p1 + 1) m2 (p2 + 1) n)"

text \<open>The loop of \<^verbatim>\<open>strip_path\<close>, left after \<open>MAX_FILENAME_LEN\<close> characters.\<close>

fun strip_loop :: "bytes \<Rightarrow> bytes \<Rightarrow> nat \<Rightarrow> nat \<Rightarrow> nat \<Rightarrow> bytes \<times> int" where
  "strip_loop filename path i t 0 = (filename(t := 0), 0)"
| "strip_loop filename path i t (Suc n) =
     (if path i = 0 then (filename(t := 0), 0)
      else if path i = slash then (filename, - 1)
      else strip_loop (filename(t := path i)) path (i + 1) (t + 1) n)"

text \<open>The directory, \<^verbatim>\<open>*ppinode\<close>, is always \<^verbatim>\<open>root_inode\<close>.\<close>

definition strip_path :: "bytes \<Rightarrow> bytes \<Rightarrow> bytes \<times> int" where
  "strip_path filename pathname = strip_loop filename pathname (if pathname 0 = slash then 1 else 0) 0 MAX_FILENAME_LEN"

text \<open>One sector of the directory: the inode number of the name, or the number of entries counted.\<close>

fun search_entries :: "bytes \<Rightarrow> bytes \<Rightarrow> int \<Rightarrow> nat \<Rightarrow> nat \<Rightarrow> nat \<Rightarrow> int + nat" where
  "search_entries fsbuf filename nr_dir_entries j m 0 = Inr m"
| "search_entries fsbuf filename nr_dir_entries j m (Suc n) =
     (if memcmp filename 0 fsbuf (j * DIR_ENTRY_SIZE + 4) MAX_FILENAME_LEN = 0 then Inl (sint (load32 fsbuf (j * DIR_ENTRY_SIZE)))
      else if int (m + 1) > nr_dir_entries then Inr (m + 1)
      else search_entries fsbuf filename nr_dir_entries (j + 1) (m + 1) n)"

fun search_blocks :: "'a ostate_scheme \<Rightarrow> int \<Rightarrow> int \<Rightarrow> bytes \<Rightarrow> int \<Rightarrow> nat \<Rightarrow> nat \<Rightarrow> nat \<Rightarrow> int option" where
  "search_blocks s dev blk0 filename nr_dir_entries i m 0 = Some 0"
| "search_blocks s dev blk0 filename nr_dir_entries i m (Suc n) = do {
     fsbuf \<leftarrow> rd_sect s dev (blk0 + int i);
     case search_entries fsbuf filename nr_dir_entries 0 m (SECTOR_SIZE div DIR_ENTRY_SIZE) of
       Inl inode_nr \<Rightarrow> Some inode_nr
     | Inr m \<Rightarrow> if int m > nr_dir_entries then Some 0
         else search_blocks s dev blk0 filename nr_dir_entries (i + 1) m n
   }"

definition search_file :: "'a ostate_scheme \<Rightarrow> bytes \<Rightarrow> int option" where
  "search_file s path =
     (let (filename, r) = strip_path (\<lambda>_. 0) path in
      if r \<noteq> 0 then Some 0
      else do {
        p \<leftarrow> root_inode s;
        let dir = inode_table s p;
        if filename 0 = 0 then Some (i_num dir)
        else
          let nr_dir_blks = sint ((i_size dir + of_nat SECTOR_SIZE - 1) div of_nat SECTOR_SIZE);
              nr_dir_entries = sint (i_size dir div of_nat DIR_ENTRY_SIZE)
          in search_blocks s (i_dev dir) (sint (i_start_sect dir)) filename nr_dir_entries 0 0 (nat nr_dir_blks)
      })"

text \<open>A free entry: the number of entries counted, whether one was found, and where \<^verbatim>\<open>pde\<close> stopped.\<close>

fun free_entry :: "bytes \<Rightarrow> int \<Rightarrow> nat \<Rightarrow> nat \<Rightarrow> nat \<Rightarrow> nat \<times> bool \<times> nat" where
  "free_entry fsbuf nr_dir_entries j m 0 = (m, False, j)"
| "free_entry fsbuf nr_dir_entries j m (Suc n) =
     (if int (m + 1) > nr_dir_entries then (m + 1, False, j)
      else if load32 fsbuf (j * DIR_ENTRY_SIZE) = 0 then (m + 1, True, j)
      else free_entry fsbuf nr_dir_entries (j + 1) (m + 1) n)"

text \<open>The result has the sector, its contents, whether an entry was found, and \<^verbatim>\<open>pde\<close>.\<close>

fun free_entry_blocks :: "'a ostate_scheme \<Rightarrow> int \<Rightarrow> int \<Rightarrow> int \<Rightarrow> nat \<Rightarrow> nat \<Rightarrow> nat \<Rightarrow> (nat \<times> bytes \<times> bool \<times> nat) option" where
  "free_entry_blocks s dev blk0 nr_dir_entries i m 0 = None"
| "free_entry_blocks s dev blk0 nr_dir_entries i m (Suc n) = do {
     fsbuf \<leftarrow> rd_sect s dev (blk0 + int i);
     let (m, found, j) = free_entry fsbuf nr_dir_entries 0 m (SECTOR_SIZE div DIR_ENTRY_SIZE);
     if int m > nr_dir_entries \<or> found then Some (i, fsbuf, found, j)
     else free_entry_blocks s dev blk0 nr_dir_entries (i + 1) m n
   }"

text \<open>
  \<^verbatim>\<open>strcpy\<close> puts the name and its null byte into the entry; with twelve characters the null byte
  falls on the entry behind it. When the loops end without a \<open>break\<close>, \<^verbatim>\<open>pde\<close> is behind \<^verbatim>\<open>fsbuf\<close>.
\<close>

definition new_dir_entry :: "'a ostate_scheme \<Rightarrow> nat \<Rightarrow> int \<Rightarrow> bytes \<Rightarrow> 'a ostate_scheme option" where
  "new_dir_entry s p inode_nr filename = do {
     let dir = inode_table s p;
     let blk0 = sint (i_start_sect dir);
     let nr_dir_blks = sint ((i_size dir + of_nat SECTOR_SIZE) div of_nat SECTOR_SIZE);
     let nr_dir_entries = sint (i_size dir div of_nat DIR_ENTRY_SIZE);
     (i, fsbuf, found, j) \<leftarrow> free_entry_blocks s (i_dev dir) blk0 nr_dir_entries 0 0 (nat nr_dir_blks);
     let s = (if found then s else set_inode s p (\<lambda>e. e\<lparr>i_size := i_size e + of_nat DIR_ENTRY_SIZE\<rparr>));
     n \<leftarrow> strlen filename;
     if j * DIR_ENTRY_SIZE + 4 + n + 1 > SECTOR_SIZE then None
     else do {
       let fsbuf = store32 fsbuf (j * DIR_ENTRY_SIZE) (of_int inode_nr);
       let fsbuf = store_list fsbuf (j * DIR_ENTRY_SIZE + 4) (load_list filename 0 n @ [0]);
       s \<leftarrow> wr_sect s (i_dev dir) (blk0 + int i) fsbuf;
       sync_inode s p
     }
   }"

subsection \<open>Opening, creating and closing\<close>

definition create_file :: "'a ostate_scheme \<Rightarrow> bytes \<Rightarrow> ('a ostate_scheme \<times> nat option) option" where
  "create_file s path =
     (let (filename, r) = strip_path (\<lambda>_. 0) path in
      if r \<noteq> 0 then Some (s, None)
      else do {
        d \<leftarrow> root_inode s;
        let dev = i_dev (inode_table s d);
        (s, inode_nr) \<leftarrow> alloc_imap_bit s dev;
        (s, free_sect_nr) \<leftarrow> alloc_smap_bit s dev (int NR_DEFAULT_FILE_SECTS);
        (s, newino) \<leftarrow> new_inode s dev inode_nr free_sect_nr;
        s \<leftarrow> new_dir_entry s d (i_num (inode_table s newino)) filename;
        Some (s, Some newino)
      })"

text \<open>The descriptor is connected before the type of the inode is looked at.\<close>

definition connect_inode :: "'a ostate_scheme \<Rightarrow> nat \<Rightarrow> nat \<Rightarrow> nat \<Rightarrow> int \<Rightarrow> 'a ostate_scheme option" where
  "connect_inode s fd i p flags =
     (let s = s\<lparr>filp := (filp s)(fd := Some i)\<rparr>;
          s = set_desc s i (\<lambda>d. d\<lparr>flag := 1, fd_node := InodeNode p, fd_mode := flags, fd_pos := 0\<rparr>);
          e = inode_table s p; imode = i_mode e AND I_TYPE_MASK
      in if imode = I_CHAR_SPECIAL then Some s
         else if imode = I_DIRECTORY then (if i_num e \<noteq> ROOT_INODE then None else Some s)
         else if i_mode e \<noteq> I_REGULAR then None
         else Some s)"

definition do_open :: "'a ostate_scheme \<Rightarrow> u8 list \<Rightarrow> int \<Rightarrow> ('a ostate_scheme \<times> int) option" where
  "do_open s path flags =
     (if \<not> length path < MAX_PATH then None else do {
        let pathname = cstr path;
        fd \<leftarrow> free_fd_loop s 0 NR_FILES;
        i \<leftarrow> free_desc_loop s 0 NR_FILE_DESC;
        inode_nr \<leftarrow> search_file s pathname;
        if has_flag flags O_CREAT then
          if inode_nr \<noteq> 0 then Some (s, int fd)
          else do {
            (s, pin) \<leftarrow> create_file s pathname;
            case pin of
              None \<Rightarrow> Some (s, - 1)
            | Some p \<Rightarrow> do { s \<leftarrow> connect_inode s fd i p flags; Some (s, int fd) }
          }
        else if snd (strip_path (\<lambda>_. 0) pathname) \<noteq> 0 then Some (s, - 1)
        else do {
          d \<leftarrow> root_inode s;
          (s, pin) \<leftarrow> get_inode s (i_dev (inode_table s d)) inode_nr;
          case pin of
            None \<Rightarrow> Some (s, - 1)
          | Some p \<Rightarrow> do { s \<leftarrow> connect_inode s fd i p flags; Some (s, int fd) }
        }
      })"

definition real_open :: "'a ostate_scheme \<Rightarrow> u8 list \<Rightarrow> int \<Rightarrow> ('a ostate_scheme \<times> int) option" where
  "real_open s pathname flags = do_open s pathname flags"

definition node_inode :: "ptr_node \<Rightarrow> nat option" where
  "node_inode n = (case n of InodeNode p \<Rightarrow> Some p | _ \<Rightarrow> None)"

definition do_close :: "'a ostate_scheme \<Rightarrow> int \<Rightarrow> ('a ostate_scheme \<times> int) option" where
  "do_close s fd = do {
     d \<leftarrow> fd_desc s fd;
     p \<leftarrow> node_inode (fd_node (f_desc_table s d));
     let s = put_inode s p;
     let s = set_desc s d (\<lambda>e. e\<lparr>fd_node := NullNode, flag := 0\<rparr>);
     Some (s\<lparr>filp := (filp s)(nat fd := None)\<rparr>, 0)
   }"

definition real_close :: "'a ostate_scheme \<Rightarrow> int \<Rightarrow> ('a ostate_scheme \<times> int) option" where
  "real_close s fd = do_close s fd"

subsection \<open>Reading and writing\<close>

text \<open>The terminals behind the special files.\<close>

record 's tty_ops =
  op_tty_read :: "'s \<Rightarrow> nat \<Rightarrow> bytes \<Rightarrow> int \<Rightarrow> ('s \<times> bytes \<times> int) option"
  op_tty_write :: "'s \<Rightarrow> nat \<Rightarrow> bytes \<Rightarrow> int \<Rightarrow> 's option"

text \<open>
  The loop over the sectors of a file, in chunks of one sector. The amount moved depends on \<^verbatim>\<open>len\<close> only,
  not on the end of the file; a negative one is a copy of nearly 4 gigabytes.
\<close>

fun rdwt_loop :: "'a ostate_scheme \<Rightarrow> io_type \<Rightarrow> int \<Rightarrow> nat \<Rightarrow> bytes \<Rightarrow> int \<Rightarrow> nat \<Rightarrow> nat \<Rightarrow> int \<Rightarrow> nat \<Rightarrow>
    ('a ostate_scheme \<times> bytes \<times> nat) option" where
  "rdwt_loop s t dev d buf i off bytes_rw bytes_left 0 = Some (s, buf, bytes_rw)"
| "rdwt_loop s t dev d buf i off bytes_rw bytes_left (Suc n) =
     (let bytes = min bytes_left (int SECTOR_SIZE - int off) in
      if bytes < 0 then None
      else do {
        fsbuf \<leftarrow> rd_sect s dev i;
        (s, buf) \<leftarrow> (case t of
            DEV_READ \<Rightarrow> Some (s, store_list buf bytes_rw (load_list fsbuf off (nat bytes)))
          | DEV_WRITE \<Rightarrow> do {
              s \<leftarrow> wr_sect s dev i (store_list fsbuf off (load_list buf bytes_rw (nat bytes)));
              Some (s, buf)
            });
        let s = set_desc s d (\<lambda>e. e\<lparr>fd_pos := fd_pos e + bytes\<rparr>);
        rdwt_loop s t dev d buf (i + 1) 0 (bytes_rw + nat bytes) (bytes_left - bytes) n
      })"

text \<open>
  The state, the buffer, \<^verbatim>\<open>fs_msg->CNT\<close> and the result. The type of the message, \<^verbatim>\<open>READ\<close> or \<^verbatim>\<open>WRITE\<close>, is
  given as that of the disk request it leads to.
\<close>

definition do_rdwt :: "('a ostate_scheme) tty_ops \<Rightarrow> 'a ostate_scheme \<Rightarrow> io_type \<Rightarrow> int \<Rightarrow> bytes \<Rightarrow> int \<Rightarrow>
    ('a ostate_scheme \<times> bytes \<times> int \<times> int) option" where
  "do_rdwt tty s t fd buf len = do {
     d \<leftarrow> fd_desc s fd;
     if \<not> has_flag (fd_mode (f_desc_table s d)) O_RDWR then Some (s, buf, len, - 1)
     else do {
       p \<leftarrow> node_inode (fd_node (f_desc_table s d));
       let pos = fd_pos (f_desc_table s d);
       let pin = inode_table s p;
       if i_mode pin AND I_TYPE_MASK = I_CHAR_SPECIAL then do {
         let dev = sint (i_start_sect pin);
         let nr_tty = nat (MINOR dev);
         if MAJOR dev \<noteq> 4 then None
         else case t of
           DEV_READ \<Rightarrow> do { (s, buf, n) \<leftarrow> op_tty_read tty s nr_tty buf len; Some (s, buf, n, n) }
         | DEV_WRITE \<Rightarrow> do { s \<leftarrow> op_tty_write tty s nr_tty buf len; Some (s, buf, len, len) }
       }
       else if \<not> int_ok (pos + len) \<or> pos < 0 then None
       else do {
         let lim = (case t of DEV_READ \<Rightarrow> i_size pin | DEV_WRITE \<Rightarrow> i_nr_sects pin * of_nat SECTOR_SIZE);
         let pos_end = sint (min (of_int (pos + len)) lim);
         let off = nat pos mod SECTOR_SIZE;
         let rw_sect_min = sint (i_start_sect pin + of_int (pos div int SECTOR_SIZE));
         let rw_sect_max = sint (i_start_sect pin + of_int (pos_end div int SECTOR_SIZE));
         (s, buf, bytes_rw) \<leftarrow> rdwt_loop s t (i_dev pin) d buf rw_sect_min off 0 len (nat (rw_sect_max - rw_sect_min + 1));
         s \<leftarrow> (if of_int (fd_pos (f_desc_table s d)) > i_size (inode_table s p)
            then sync_inode (set_inode s p (\<lambda>e. e\<lparr>i_size := of_int (fd_pos (f_desc_table s d))\<rparr>)) p
            else Some s);
         Some (s, buf, len, int bytes_rw)
       }
     }
   }"

text \<open>The callers return \<^verbatim>\<open>fs_msg.CNT\<close>.\<close>

definition real_read :: "('a ostate_scheme) tty_ops \<Rightarrow> 'a ostate_scheme \<Rightarrow> int \<Rightarrow> bytes \<Rightarrow> int \<Rightarrow>
    ('a ostate_scheme \<times> bytes \<times> int) option" where
  "real_read tty s fd buf n0 = do { (s, buf, n, r) \<leftarrow> do_rdwt tty s DEV_READ fd buf n0; Some (s, buf, n) }"

definition real_write :: "('a ostate_scheme) tty_ops \<Rightarrow> 'a ostate_scheme \<Rightarrow> int \<Rightarrow> bytes \<Rightarrow> int \<Rightarrow>
    ('a ostate_scheme \<times> int) option" where
  "real_write tty s fd buf n0 = do { (s, buf, n, r) \<leftarrow> do_rdwt tty s DEV_WRITE fd buf n0; Some (s, n) }"

definition do_lseek :: "'a ostate_scheme \<Rightarrow> int \<Rightarrow> int \<Rightarrow> int \<Rightarrow> ('a ostate_scheme \<times> int) option" where
  "do_lseek s fd off whence = do {
     d \<leftarrow> fd_desc s fd;
     p \<leftarrow> node_inode (fd_node (f_desc_table s d));
     let pos = fd_pos (f_desc_table s d);
     let f_size = sint (i_size (inode_table s p));
     let target = (if whence = SEEK_SET then Some off
       else if whence = SEEK_CUR then Some (pos + off)
       else if whence = SEEK_END then Some (f_size + off) else None);
     case target of
       None \<Rightarrow> Some (s, - 1)
     | Some pos \<Rightarrow>
         if \<not> int_ok pos then None
         else if pos > f_size \<or> pos < 0 then Some (s, - 1)
         else Some (set_desc s d (\<lambda>e. e\<lparr>fd_pos := pos\<rparr>), pos)
   }"

definition real_lseek :: "'a ostate_scheme \<Rightarrow> int \<Rightarrow> int \<Rightarrow> int \<Rightarrow> ('a ostate_scheme \<times> int) option" where
  "real_lseek s fd offset whence = do_lseek s fd offset whence"

subsection \<open>Removing a file\<close>

definition clear_bit :: "nat \<Rightarrow> u8 \<Rightarrow> u8" where
  "clear_bit k b = b AND NOT (push_bit k 1)"

text \<open>The first byte of the bits in the sector map, and how many bits are left.\<close>

fun clear_first :: "u8 \<Rightarrow> nat \<Rightarrow> int \<Rightarrow> nat \<Rightarrow> u8 \<times> int" where
  "clear_first b i bits_left 0 = (b, bits_left)"
| "clear_first b i bits_left (Suc n) =
     (if bits_left = 0 then (b, bits_left) else clear_first (clear_bit i b) (i + 1) (bits_left - 1) n)"

text \<open>When the offset is at the end of the sector the next one is taken.\<close>

definition next_map_sect :: "'a ostate_scheme \<Rightarrow> int \<Rightarrow> int \<Rightarrow> bytes \<Rightarrow> nat \<Rightarrow> ('a ostate_scheme \<times> int \<times> bytes \<times> nat) option" where
  "next_map_sect s dev sect fsbuf i =
     (if i = SECTOR_SIZE then do {
        s \<leftarrow> wr_sect_sched s dev sect fsbuf;
        (s, fsbuf) \<leftarrow> rd_sect_sched s dev (sect + 1);
        Some (s, sect + 1, fsbuf, 0)
      } else Some (s, sect, fsbuf, i))"

fun clear_bytes :: "'a ostate_scheme \<Rightarrow> int \<Rightarrow> int \<Rightarrow> bytes \<Rightarrow> nat \<Rightarrow> int \<Rightarrow> nat \<Rightarrow>
    ('a ostate_scheme \<times> int \<times> bytes \<times> nat \<times> int) option" where
  "clear_bytes s dev sect fsbuf i bits_left 0 = Some (s, sect, fsbuf, i, bits_left)"
| "clear_bytes s dev sect fsbuf i bits_left (Suc n) = do {
     (s, sect, fsbuf, i) \<leftarrow> next_map_sect s dev sect fsbuf i;
     clear_bytes s dev sect (fsbuf(i := 0)) (i + 1) (bits_left - 8) n
   }"

definition free_smap :: "'a ostate_scheme \<Rightarrow> int \<Rightarrow> super_block \<Rightarrow> u32 \<Rightarrow> u32 \<Rightarrow> 'a ostate_scheme option" where
  "free_smap s dev sb sect1 nr = do {
     let bit_idx = sint (sect1 - n_1st_sect sb + 1);
     let byte_idx = bit_idx sdiv 8;
     let bits_left = sint nr;
     let byte_cnt = (bits_left - (8 - bit_idx smod 8)) sdiv 8;
     let sect = sint (2 + nr_imap_sects sb + of_int (byte_idx sdiv int SECTOR_SIZE));
     if bit_idx < 0 then None
     else do {
       (s, fsbuf) \<leftarrow> rd_sect_sched s dev sect;
       let i = nat byte_idx mod SECTOR_SIZE;
       let (b, bits_left) = clear_first (fsbuf i) (nat bit_idx mod 8) bits_left (8 - nat bit_idx mod 8);
       (s, sect, fsbuf, i, bits_left) \<leftarrow> clear_bytes s dev sect (fsbuf(i := b)) (i + 1) bits_left (nat byte_cnt);
       (s, sect, fsbuf, i) \<leftarrow> next_map_sect s dev sect fsbuf i;
       if bits_left < 0 \<or> bits_left \<ge> 32 then None
       else wr_sect_sched s dev sect (fsbuf(i := fsbuf i AND push_bit (nat bits_left) (- 1)))
     }
   }"

text \<open>One sector of the directory: the entries counted, the entry found, and the size of the used ones.\<close>

fun find_entry :: "bytes \<Rightarrow> int \<Rightarrow> int \<Rightarrow> nat \<Rightarrow> nat \<Rightarrow> nat \<Rightarrow> nat \<Rightarrow> nat \<times> nat option \<times> nat" where
  "find_entry fsbuf inode_nr nr_dir_entries j m dir_size 0 = (m, None, dir_size)"
| "find_entry fsbuf inode_nr nr_dir_entries j m dir_size (Suc n) =
     (if int (m + 1) > nr_dir_entries then (m + 1, None, dir_size)
      else if sint (load32 fsbuf (j * DIR_ENTRY_SIZE)) = inode_nr then (m + 1, Some j, dir_size)
      else find_entry fsbuf inode_nr nr_dir_entries (j + 1) (m + 1)
        (if load32 fsbuf (j * DIR_ENTRY_SIZE) \<noteq> 0 then dir_size + DIR_ENTRY_SIZE else dir_size) n)"

fun clear_entry :: "'a ostate_scheme \<Rightarrow> int \<Rightarrow> int \<Rightarrow> int \<Rightarrow> int \<Rightarrow> nat \<Rightarrow> nat \<Rightarrow> nat \<Rightarrow> nat \<Rightarrow> ('a ostate_scheme \<times> nat \<times> nat) option" where
  "clear_entry s dev blk0 inode_nr nr_dir_entries i m dir_size 0 = Some (s, m, dir_size)"
| "clear_entry s dev blk0 inode_nr nr_dir_entries i m dir_size (Suc n) = do {
     (s, fsbuf) \<leftarrow> rd_sect_sched s dev (blk0 + int i);
     let (m, found, dir_size) = find_entry fsbuf inode_nr nr_dir_entries 0 m dir_size (SECTOR_SIZE div DIR_ENTRY_SIZE);
     case found of
       Some j \<Rightarrow> do {
         s \<leftarrow> wr_sect_sched s dev (blk0 + int i) (store_list fsbuf (j * DIR_ENTRY_SIZE) (replicate DIR_ENTRY_SIZE 0));
         Some (s, m, dir_size)
       }
     | None \<Rightarrow> if int m > nr_dir_entries then Some (s, m, dir_size)
         else clear_entry s dev blk0 inode_nr nr_dir_entries (i + 1) m dir_size n
   }"

definition remove_entry :: "'a ostate_scheme \<Rightarrow> nat \<Rightarrow> int \<Rightarrow> 'a ostate_scheme option" where
  "remove_entry s d inode_nr = do {
     let dir = inode_table s d;
     let nr_dir_blks = sint ((i_size dir + of_nat SECTOR_SIZE) div of_nat SECTOR_SIZE);
     let nr_dir_entries = sint (i_size dir div of_nat DIR_ENTRY_SIZE);
     (s, m, dir_size) \<leftarrow> clear_entry s (i_dev dir) (sint (i_start_sect dir)) inode_nr nr_dir_entries 0 0 0 (nat nr_dir_blks);
     if int m = nr_dir_entries then sync_inode (set_inode s d (\<lambda>e. e\<lparr>i_size := of_nat dir_size\<rparr>)) d
     else Some s
   }"

text \<open>The two early returns behind \<^verbatim>\<open>get_inode_sched\<close> do not give the inode back.\<close>

definition do_unlink :: "'a ostate_scheme \<Rightarrow> u8 list \<Rightarrow> ('a ostate_scheme \<times> int) option" where
  "do_unlink s path =
     (if \<not> length path < MAX_PATH then None
      else if path = lit ''/'' then Some (s, - 1)
      else do {
        inode_nr \<leftarrow> search_file s (cstr path);
        if inode_nr = 0 then Some (s, - 1)
        else if snd (strip_path (\<lambda>_. 0) (cstr path)) \<noteq> 0 then Some (s, - 1)
        else do {
          d \<leftarrow> root_inode s;
          (s, pin) \<leftarrow> get_inode_sched s (i_dev (inode_table s d)) inode_nr;
          p \<leftarrow> pin;
          let pin = inode_table s p;
          if i_mode pin \<noteq> I_REGULAR then Some (s, - 1)
          else if i_cnt pin > 1 then Some (s, - 1)
          else do {
            sb \<leftarrow> get_super_block s (i_dev pin);
            (s, fsbuf) \<leftarrow> rd_sect_sched s (i_dev pin) 2;
            let byte_idx = nat (inode_nr div 8) mod SECTOR_SIZE;
            s \<leftarrow> (if inode_nr < 0 then None
               else wr_sect_sched s (i_dev pin) 2 (fsbuf(byte_idx := clear_bit (nat (inode_nr mod 8)) (fsbuf byte_idx))));
            s \<leftarrow> free_smap s (i_dev pin) sb (i_start_sect pin) (i_nr_sects pin);
            let s = set_inode s p (\<lambda>e. e\<lparr>i_mode := 0, i_size := 0, i_start_sect := 0, i_nr_sects := 0\<rparr>);
            s \<leftarrow> sync_inode s p;
            let s = put_inode s p;
            s \<leftarrow> remove_entry s d inode_nr;
            Some (s, 0)
          }
        }
      })"

definition real_unlink :: "'a ostate_scheme \<Rightarrow> u8 list \<Rightarrow> ('a ostate_scheme \<times> int) option" where
  "real_unlink s pathname = do_unlink s pathname"

text \<open>The functions in the table of file operations.\<close>

definition orange_ops :: "('a ostate_scheme) tty_ops \<Rightarrow> ('a ostate_scheme) file_op" where
  "orange_ops tty = no_op\<lparr>op_open := Some real_open, op_close := Some real_close, op_read := Some (real_read tty),
     op_write := Some (real_write tty), op_lseek := Some real_lseek, op_unlink := Some real_unlink\<rparr>"

subsection \<open>Making and mounting a file system\<close>

text \<open>Writing at an unsigned sector number.\<close>

definition wr_sect_u32 :: "'a ostate_scheme \<Rightarrow> int \<Rightarrow> u32 \<Rightarrow> bytes \<Rightarrow> 'a ostate_scheme option" where
  "wr_sect_u32 s dev n buf = do { (s, buf) \<leftarrow> rw_sector s DEV_WRITE dev (sect_pos_u32 n) 512 buf; Some s }"

definition rd_sect_u32 :: "'a ostate_scheme \<Rightarrow> int \<Rightarrow> u32 \<Rightarrow> bytes option" where
  "rd_sect_u32 s dev n = do { (s, buf) \<leftarrow> rw_sector s DEV_READ dev (sect_pos_u32 n) 512 (\<lambda>_. 0); Some buf }"

definition mkfs_super_block :: "int \<Rightarrow> u32 \<Rightarrow> super_block" where
  "mkfs_super_block dev sz =
     (let smap = sz div 4096 + 1; isects = 4096 * of_nat INODE_SIZE div of_nat SECTOR_SIZE in
      \<lparr>sb_dev = dev, fs_type = ORANGE_TYPE, magic = MAGIC_V1, nr_inodes = 4096, sb_nr_sects = sz, nr_imap_sects = 1,
       nr_smap_sects = smap, n_1st_sect = 1 + 1 + 1 + smap + isects, nr_inode_sects = isects,
       sb_root_inode = of_int ROOT_INODE, sb_inode_size = of_nat INODE_SIZE, inode_isize_off = 4, inode_start_off = 8,
       dir_ent_size = of_nat DIR_ENTRY_SIZE, dir_ent_inode_off = 0, dir_ent_fname_off = 4\<rparr>)"

definition zero_buf :: bytes where "zero_buf = (\<lambda>_. 0)"

definition mkfs_imap :: bytes where
  "mkfs_imap = fold (\<lambda>i m. m(0 := m 0 OR push_bit i 1)) [0..<NR_CONSOLES + 3] zero_buf"

definition mkfs_smap :: bytes where
  "mkfs_smap = (let n = NR_DEFAULT_FILE_SECTS + 1 in
     fold (\<lambda>j m. m(n div 8 := m (n div 8) OR push_bit j 1)) [0..<n mod 8] (store_list zero_buf 0 (replicate (n div 8) 0xFF)))"

fun zero_smap :: "'a ostate_scheme \<Rightarrow> int \<Rightarrow> super_block \<Rightarrow> nat \<Rightarrow> nat \<Rightarrow> 'a ostate_scheme option" where
  "zero_smap s dev sb i 0 = Some s"
| "zero_smap s dev sb i (Suc n) = do {
     s \<leftarrow> wr_sect_u32 s dev (2 + nr_imap_sects sb + of_nat i) zero_buf;
     zero_smap s dev sb (i + 1) n
   }"

text \<open>The bits of the sectors \<^verbatim>\<open>app.tar\<close> lies in.\<close>

fun install_bits :: "'a ostate_scheme \<Rightarrow> int \<Rightarrow> super_block \<Rightarrow> bytes \<Rightarrow> nat \<Rightarrow> u32 \<Rightarrow> nat \<Rightarrow> 'a ostate_scheme option" where
  "install_bits s dev sb fsbuf off cur_sect 0 = wr_sect_u32 s dev (2 + nr_imap_sects sb + cur_sect) fsbuf"
| "install_bits s dev sb fsbuf off cur_sect (Suc bit_left) = do {
     let fsbuf = fsbuf(off div 8 := fsbuf (off div 8) OR push_bit (off mod 8) 1);
     if off + 1 = SECTOR_SIZE * 8 then do {
       s \<leftarrow> wr_sect_u32 s dev (2 + nr_imap_sects sb + cur_sect) fsbuf;
       fsbuf \<leftarrow> rd_sect_u32 s dev (2 + nr_imap_sects sb + (cur_sect + 1));
       install_bits s dev sb fsbuf 0 (cur_sect + 1) bit_left
     }
     else install_bits s dev sb fsbuf (off + 1) cur_sect bit_left
   }"

definition disk_inode :: "u32 \<Rightarrow> u32 \<Rightarrow> u32 \<Rightarrow> u32 \<Rightarrow> inode" where
  "disk_inode m sz st n = \<lparr>i_mode = m, i_size = sz, i_start_sect = st, i_nr_sects = n, i_dev = 0, i_cnt = 0, i_num = 0\<rparr>"

definition mkfs_inodes :: "super_block \<Rightarrow> u32 \<Rightarrow> u32 \<Rightarrow> bytes" where
  "mkfs_inodes sb install_start install_nr =
     (let m = store_inode zero_buf 0 (disk_inode I_DIRECTORY (of_nat (DIR_ENTRY_SIZE * 5)) (n_1st_sect sb) (of_nat NR_DEFAULT_FILE_SECTS));
          m = fold (\<lambda>i m. store_inode m (INODE_SIZE * (i + 1)) (disk_inode I_CHAR_SPECIAL 0 (of_int (MAKE_DEV DEV_CHAR_TTY (int i))) 0))
            [0..<NR_CONSOLES] m
      in store_inode m (INODE_SIZE * (NR_CONSOLES + 1))
           (disk_inode I_REGULAR (install_nr * of_nat SECTOR_SIZE) install_start install_nr))"

definition dir_entry_bytes :: "bytes \<Rightarrow> nat \<Rightarrow> nat \<Rightarrow> u8 list \<Rightarrow> bytes" where
  "dir_entry_bytes m j inode_nr name = store_list (store32 m (j * DIR_ENTRY_SIZE) (of_nat inode_nr)) (j * DIR_ENTRY_SIZE + 4) (name @ [0])"

definition mkfs_root :: "u8 list \<Rightarrow> bytes" where
  "mkfs_root install_name =
     (let m = dir_entry_bytes zero_buf 0 1 (lit ''.'');
          m = dir_entry_bytes m 1 2 (lit ''dev_tty0'');
          m = dir_entry_bytes m 2 3 (lit ''dev_tty1'');
          m = dir_entry_bytes m 3 4 (lit ''dev_tty2'')
      in dir_entry_bytes m 4 (NR_CONSOLES + 2) install_name)"

definition mkfs :: "int \<Rightarrow> nat \<Rightarrow> u8 list \<Rightarrow> 'a ostate_scheme \<Rightarrow> 'a ostate_scheme option" where
  "mkfs install_start install_nr install_name s = do {
     let dev = get_fs_dev s ORANGE_TYPE;
     geo \<leftarrow> hd_ioctl (disk (hds s)) (MINOR dev);
     let sb = mkfs_super_block dev (psize geo);
     s \<leftarrow> wr_sect s dev 1 (store_list (\<lambda>i. 0x90) 0 (super_block_bytes sb));
     s \<leftarrow> wr_sect s dev 2 mkfs_imap;
     s \<leftarrow> wr_sect_u32 s dev (2 + nr_imap_sects sb) mkfs_smap;
     s \<leftarrow> zero_smap s dev sb 1 (unat (nr_smap_sects sb) - 1);
     let bit_offset = sint (of_int install_start - n_1st_sect sb + 1);
     fsbuf \<leftarrow> rd_sect_u32 s dev (2 + nr_imap_sects sb + of_int (bit_offset sdiv 4096));
     s \<leftarrow> (if bit_offset < 0 then None
        else install_bits s dev sb fsbuf (nat bit_offset mod 4096) (of_int (bit_offset div 4096)) install_nr);
     s \<leftarrow> wr_sect_u32 s dev (2 + nr_imap_sects sb + nr_smap_sects sb) (mkfs_inodes sb (of_int install_start) (of_nat install_nr));
     wr_sect_u32 s dev (n_1st_sect sb) (mkfs_root install_name)
   }"

definition zero_inode :: inode where
  "zero_inode = \<lparr>i_mode = 0, i_size = 0, i_start_sect = 0, i_nr_sects = 0, i_dev = 0, i_cnt = 0, i_num = 0\<rparr>"

definition init_fs :: "int \<Rightarrow> nat \<Rightarrow> u8 list \<Rightarrow> 'a ostate_scheme \<Rightarrow> 'a ostate_scheme option" where
  "init_fs install_start install_nr install_name s = do {
     let s = s\<lparr>inode_table := (\<lambda>i. if i < NR_INODE then zero_inode else inode_table s i)\<rparr>;
     let dev = get_fs_dev s ORANGE_TYPE;
     s \<leftarrow> read_super_block s dev;
     sb \<leftarrow> get_super_block s dev;
     s \<leftarrow> (if magic sb \<noteq> MAGIC_V1 then do {
         s \<leftarrow> mkfs install_start install_nr install_name s;
         read_super_block s dev
       } else Some s);
     (s, r) \<leftarrow> get_inode s dev ROOT_INODE;
     Some (s\<lparr>root_inode := r\<rparr>)
   }"

end
