(* ===== verification/OrangeDisk.thy ===== *)
theory OrangeDisk
  imports OrangeFs
begin

text \<open>
  What the Orange file system does on its disk, sector by sector: the laws of reading and writing a
  sector of a partition, first as a contract between the file system and the driver, and with it the
  inodes on the disk, the table of inodes and the map of inodes.
\<close>

subsection \<open>Sectors of a device\<close>

text \<open>The sectors that both the byte position and the 28-bit address of the controller reach.\<close>

definition sect_ok :: "'a ostate_scheme \<Rightarrow> int \<Rightarrow> int \<Rightarrow> bool" where
  "sect_ok s dev n \<longleftrightarrow> (case part_of_dev (disk (hds s)) (MINOR dev) of None \<Rightarrow> False
     | Some part \<Rightarrow> 0 \<le> n \<and> n < 2 ^ 22 \<and> unat (base part) + nat n < 2 ^ 28)"

definition lba_of :: "'a ostate_scheme \<Rightarrow> int \<Rightarrow> int \<Rightarrow> nat" where
  "lba_of s dev n = unat (base (the (part_of_dev (disk (hds s)) (MINOR dev)))) + nat n"

definition blk :: "'a ostate_scheme \<Rightarrow> int \<Rightarrow> int \<Rightarrow> bytes" where
  "blk s dev n = (\<lambda>j. if j < 512 then sectors (disk (hds s)) (lba_of s dev n) j else 0)"

text \<open>Two states whose file systems lie in the same place of the disk.\<close>

definition same_disk :: "'a ostate_scheme \<Rightarrow> 'a ostate_scheme \<Rightarrow> bool" where
  "same_disk s s' \<longleftrightarrow> hd0 (disk (hds s')) = hd0 (disk (hds s)) \<and> sb_table s' = sb_table s"

lemma part_of_dev_cong: "hd0 d' = hd0 d \<Longrightarrow> part_of_dev d' dev = part_of_dev d dev"
  by (simp add: part_of_dev_def Let_def)

lemma same_disk_refl [simp]: "same_disk s s"
  by (simp add: same_disk_def)

lemma same_disk_trans: "same_disk s s' \<Longrightarrow> same_disk s' s'' \<Longrightarrow> same_disk s s''"
  by (simp add: same_disk_def)

lemma same_disk_eqs:
  assumes "same_disk s s'"
  shows "sect_ok s' dev n = sect_ok s dev n" "lba_of s' dev n = lba_of s dev n" "get_super_block s' dev = get_super_block s dev"
  using assms part_of_dev_cong[of "disk (hds s')" "disk (hds s)"]
  by (simp_all add: same_disk_def sect_ok_def lba_of_def get_super_block_def)

definition put_blk :: "'a ostate_scheme \<Rightarrow> int \<Rightarrow> int \<Rightarrow> bytes \<Rightarrow> 'a ostate_scheme" where
  "put_blk s dev n buf = s\<lparr>hds := (hds s)\<lparr>disk := (disk (hds s))\<lparr>sectors :=
     put_sectors (sectors (disk (hds s))) (lba_of s dev n) 1 buf 0\<rparr>\<rparr>\<rparr>"

lemma sect_command:
  assumes "sect_ok s dev n"
  shows "\<exists>part. part_of_dev (disk (hds s)) (MINOR dev) = Some part \<and> sect_pos n = Some (of_int (n * 512)) \<and>
    cmd_lba (rw_cmd (ucast (drop_bit 9 (of_int (n * 512) :: 64 word)) + base part) 512 t) = lba_of s dev n"
proof -
  obtain part where part: "part_of_dev (disk (hds s)) (MINOR dev) = Some part"
    and n: "0 \<le> n" "n < 2 ^ 22" "unat (base part) + nat n < 2 ^ 28"
    using assms by (auto simp: sect_ok_def split: option.splits)
  have m: "uint (of_int (n * 512) :: 64 word) = n * 512"
    using n take_bit_int_eq_self[of "n * 512" "LENGTH(64)"] unfolding unsigned_of_int by simp
  have uint_n: "uint (of_int n :: 64 word) = n"
    using n take_bit_int_eq_self[of n "LENGTH(64)"] unfolding unsigned_of_int by simp
  have "uint (drop_bit 9 (of_int (n * 512) :: 64 word)) = n"
    using n take_bit_int_eq_self[of "n * 512" "LENGTH(64)"] unfolding unsigned_drop_bit_eq m by (simp add: drop_bit_eq_div)
  with uint_n have dr: "drop_bit 9 (of_int (n * 512) :: 64 word) = of_int n" by (metis word_uint_eq_iff)
  have u: "ucast (of_int n :: 64 word) = (of_int n :: u32)"
    unfolding ucast_eq uint_n ..
  have k: "unat (of_int n + base part) = unat (base part) + nat n"
    using n unat_of_int_u32[of n] by (subst unat_plus_no_wrap) simp_all
  have "cmd_lba (rw_cmd (ucast (drop_bit 9 (of_int (n * 512) :: 64 word)) + base part) 512 t) = unat (base part) + nat n"
    unfolding dr u by (subst cmd_lba_rw) (use n k in simp_all)
  then show ?thesis using part n by (simp add: sect_pos_def int_ok_def lba_of_def)
qed

lemma rd_sect_blk:
  assumes "sect_ok s dev n"
  shows "rd_sect s dev n = Some (blk s dev n)"
proof -
  from sect_command[OF assms, of DEV_READ] obtain part where
    p: "part_of_dev (disk (hds s)) (MINOR dev) = Some part" "sect_pos n = Some (of_int (n * 512))"
      "lba_of s dev n = cmd_lba (rw_cmd (ucast (drop_bit 9 (of_int (n * 512) :: 64 word)) + base part) 512 DEV_READ)"
    by auto
  have r: "hd_rdwt (disk (hds s)) \<lparr>io_type = DEV_READ, device = MINOR dev, position = of_int (n * 512), cnt = 512\<rparr> (\<lambda>_. 0) =
      Some (disk (hds s), get_sectors (sectors (disk (hds s))) (lba_of s dev n) 1 (\<lambda>_. 0) 0)"
    by (subst hd_rdwt_sectors[where n = 1 and lba = "lba_of s dev n"]) (use p in simp_all)
  have "get_sectors (sectors (disk (hds s))) (lba_of s dev n) 1 (\<lambda>_. 0) 0 = blk s dev n"
    by (auto simp: get_sectors_def blk_def fun_eq_iff)
  with r p(2) show ?thesis by (simp add: rd_sect_def rw_sector_def)
qed

lemma wr_sect_blk:
  assumes "sect_ok s dev n"
  shows "wr_sect s dev n buf = Some (put_blk s dev n buf)"
proof -
  from sect_command[OF assms, of DEV_WRITE] obtain part where
    p: "part_of_dev (disk (hds s)) (MINOR dev) = Some part" "sect_pos n = Some (of_int (n * 512))"
      "lba_of s dev n = cmd_lba (rw_cmd (ucast (drop_bit 9 (of_int (n * 512) :: 64 word)) + base part) 512 DEV_WRITE)"
    by auto
  have r: "hd_rdwt (disk (hds s)) \<lparr>io_type = DEV_WRITE, device = MINOR dev, position = of_int (n * 512), cnt = 512\<rparr> buf =
      Some ((disk (hds s))\<lparr>sectors := put_sectors (sectors (disk (hds s))) (lba_of s dev n) 1 buf 0\<rparr>, buf)"
    by (subst hd_rdwt_sectors[where n = 1 and lba = "lba_of s dev n"]) (use p in simp_all)
  with p(2) show ?thesis by (simp add: wr_sect_def rw_sector_def put_blk_def)
qed

lemma put_blk_simps [simp]:
  "same_disk s (put_blk s dev n buf)" "inode_table (put_blk s dev n buf) = inode_table s"
  "sb_table (put_blk s dev n buf) = sb_table s" "root_inode (put_blk s dev n buf) = root_inode s"
  "f_desc_table (put_blk s dev n buf) = f_desc_table s" "filp (put_blk s dev n buf) = filp s"
  by (simp_all add: put_blk_def same_disk_def)

lemma put_blk_eqs [simp]:
  "sect_ok (put_blk s dev n buf) dev' n' = sect_ok s dev' n'"
  "lba_of (put_blk s dev n buf) dev' n' = lba_of s dev' n'"
  "get_super_block (put_blk s dev n buf) dev' = get_super_block s dev'"
  using same_disk_eqs[of s "put_blk s dev n buf"] by simp_all

lemma set_inode_simps [simp]:
  "same_disk s (set_inode s p f)" "sb_table (set_inode s p f) = sb_table s" "root_inode (set_inode s p f) = root_inode s"
  "hds (set_inode s p f) = hds s" "f_desc_table (set_inode s p f) = f_desc_table s" "filp (set_inode s p f) = filp s"
  "inode_table (set_inode s p f) = (inode_table s)(p := f (inode_table s p))"
  by (simp_all add: set_inode_def same_disk_def)

lemma set_inode_eqs [simp]:
  "sect_ok (set_inode s p f) dev n = sect_ok s dev n" "lba_of (set_inode s p f) dev n = lba_of s dev n"
  "get_super_block (set_inode s p f) dev = get_super_block s dev" "blk (set_inode s p f) dev n = blk s dev n"
  using same_disk_eqs[of s "set_inode s p f"] by (simp_all add: blk_def cong: if_cong)

lemma put_set_inode: "put_blk (set_inode s p f) dev n buf = set_inode (put_blk s dev n buf) p f"
  by (simp add: put_blk_def set_inode_def) (simp add: lba_of_def)

lemma put_blk_sectors: "sectors (disk (hds (put_blk s dev n buf))) = put_sectors (sectors (disk (hds s))) (lba_of s dev n) 1 buf 0"
  by (simp add: put_blk_def)

text \<open>The sectors of one device are different places of the disk.\<close>

lemma lba_of_inject: "sect_ok s dev n \<Longrightarrow> sect_ok s dev n' \<Longrightarrow> lba_of s dev n = lba_of s dev n' \<longleftrightarrow> n = n'"
  by (auto simp: lba_of_def sect_ok_def split: option.splits)

lemma blk_put_same: "blk (put_blk s dev n buf) dev n = (\<lambda>j. if j < 512 then buf j else 0)"
  by (simp add: blk_def put_blk_sectors put_sectors_def fun_eq_iff)

lemma blk_put_other:
  "lba_of s dev' n' \<noteq> lba_of s dev n \<Longrightarrow> blk (put_blk s dev n buf) dev' n' = blk s dev' n'"
  by (auto simp: blk_def put_blk_sectors put_sectors_def fun_eq_iff dest!: less_Suc_eq_le[THEN iffD1])

text \<open>The contract between the file system and the driver: what a client may rely on of a store of sectors.\<close>

locale sector_store =
  fixes rd :: "'s \<Rightarrow> int \<Rightarrow> bytes option" and wr :: "'s \<Rightarrow> int \<Rightarrow> bytes \<Rightarrow> 's option" and ok :: "'s \<Rightarrow> int \<Rightarrow> bool"
  assumes rd_total: "ok s n \<Longrightarrow> \<exists>m. rd s n = Some m"
    and wr_total: "ok s n \<Longrightarrow> \<exists>s'. wr s n m = Some s' \<and> (\<forall>k. ok s' k = ok s k)"
    and rd_wr_same: "ok s n \<Longrightarrow> wr s n m = Some s' \<Longrightarrow> rd s' n = Some (\<lambda>j. if j < 512 then m j else 0)"
    and rd_wr_other: "ok s n \<Longrightarrow> ok s k \<Longrightarrow> k \<noteq> n \<Longrightarrow> wr s n m = Some s' \<Longrightarrow> rd s' k = rd s k"
begin

definition update :: "'s \<Rightarrow> int \<Rightarrow> (bytes \<Rightarrow> bytes) \<Rightarrow> 's option" where
  "update s n f = do { m \<leftarrow> rd s n; wr s n (f m) }"

lemma update_total:
  assumes "ok s n"
  shows "\<exists>s' m. rd s n = Some m \<and> update s n f = Some s' \<and> (\<forall>k. ok s' k = ok s k) \<and>
    rd s' n = Some (\<lambda>j. if j < 512 then f m j else 0) \<and> (\<forall>k. ok s k \<longrightarrow> k \<noteq> n \<longrightarrow> rd s' k = rd s k)"
proof -
  from rd_total[OF assms] obtain m where m: "rd s n = Some m" by blast
  from wr_total[OF assms, of "f m"] obtain s' where s': "wr s n (f m) = Some s'" "\<forall>k. ok s' k = ok s k" by blast
  from rd_wr_same[OF assms s'(1)] rd_wr_other[OF assms _ _ s'(1)] m s' show ?thesis by (simp add: update_def)
qed

end

interpretation hd_sectors: sector_store "\<lambda>s. rd_sect s dev" "\<lambda>s. wr_sect s dev" "\<lambda>s. sect_ok s dev" for dev
proof
  fix s :: "'a ostate_scheme" and n k m s'
  assume n: "sect_ok s dev n"
  show "\<exists>m. rd_sect s dev n = Some m" using rd_sect_blk[OF n] by blast
  show "\<exists>s'. wr_sect s dev n m = Some s' \<and> (\<forall>k. sect_ok s' dev k = sect_ok s dev k)" using wr_sect_blk[OF n] by simp
  assume w: "wr_sect s dev n m = Some s'"
  then have s': "s' = put_blk s dev n m" using wr_sect_blk[OF n] by simp
  show "rd_sect s' dev n = Some (\<lambda>j. if j < 512 then m j else 0)"
    using n by (simp add: s' rd_sect_blk blk_put_same)
  assume k: "sect_ok s dev k" "k \<noteq> n"
  then have "lba_of s dev k \<noteq> lba_of s dev n" using lba_of_inject[OF k(1) n] by simp
  then show "rd_sect s' dev k = rd_sect s dev k" using k(1) by (simp add: s' rd_sect_blk blk_put_other)
qed

subsection \<open>Inodes on the disk\<close>

lemma signed_div_mod_pos: "0 \<le> x \<Longrightarrow> x sdiv 16 = (x :: int) div 16" "0 \<le> x \<Longrightarrow> x smod 16 = (x :: int) mod 16"
  by (simp_all add: signed_divide_int_def signed_modulo_int_def sgn_if)

lemma inode_off_pos: "1 \<le> num \<Longrightarrow> inode_off num = Some (nat ((num - 1) mod 16) * 32)"
  by (simp add: inode_off_def INODE_SIZE_def signed_div_mod_pos Let_def)

lemma inode_off_bound: "1 \<le> num \<Longrightarrow> nat ((num - 1) mod 16) * 32 + 32 \<le> 512"
  by simp

lemma load_store_inode [simp]:
  "load_inode (store_inode m a e) a e' = e'\<lparr>i_mode := i_mode e, i_size := i_size e, i_start_sect := i_start_sect e, i_nr_sects := i_nr_sects e\<rparr>"
  by (simp add: load_inode_def store_inode_def block_simps)

lemma load_store_inode_full:
  "load_inode (store_inode m a e) a (e'\<lparr>i_dev := i_dev e, i_num := i_num e, i_cnt := 1\<rparr>) = e\<lparr>i_cnt := 1\<rparr>" for e e' :: inode
  by (cases e; cases e') (simp add: load_inode_def store_inode_def block_simps)

lemma load_store_inode_other:
  "a + 16 \<le> b \<or> b + 16 \<le> a \<Longrightarrow> load_inode (store_inode m a e) b e' = load_inode m b e'"
  by (auto simp: load_inode_def store_inode_def block_simps)

lemma load_inode_cong: "(\<And>j. j < 16 \<Longrightarrow> m (a + j) = m' (a + j)) \<Longrightarrow> load_inode m a e = load_inode m' a e"
proof -
  assume m: "\<And>j. j < 16 \<Longrightarrow> m (a + j) = m' (a + j)"
  have "load32 m a = load32 m' a" "load32 m (a + 4) = load32 m' (a + 4)" "load32 m (a + 8) = load32 m' (a + 8)"
    "load32 m (a + 12) = load32 m' (a + 12)"
    by (rule load32_cong; simp add: m add.assoc)+
  then show ?thesis by (simp add: load_inode_def)
qed

lemma load_inode_clip:
  "a + 16 \<le> 512 \<Longrightarrow> load_inode (\<lambda>j. if j < 512 then m j else 0) a e = load_inode m a e"
  by (rule load_inode_cong) simp

text \<open>The four words of an inode of a device, as they are on its disk.\<close>

definition inode_at :: "'a ostate_scheme \<Rightarrow> super_block \<Rightarrow> int \<Rightarrow> int \<Rightarrow> inode" where
  "inode_at s sb dev num = load_inode (blk s dev (inode_blk sb num)) (nat ((num - 1) mod 16) * 32) zero_inode"

lemma inode_blk_inject:
  assumes "1 \<le> num" "num < 2 ^ 31" "1 \<le> k" "k < 2 ^ 31" and eq: "inode_blk sb num = inode_blk sb k"
  shows "(num - 1) div 16 = (k - 1) div 16"
proof -
  have "(of_int ((num - 1) div 16) :: u32) = of_int ((k - 1) div 16)"
    using eq assms(1-4) by (simp add: inode_blk_def signed_div_mod_pos word_eq_iff_signed[symmetric])
  moreover have "uint (of_int ((i - 1) div 16) :: u32) = (i - 1) div 16" if "1 \<le> i" "i < 2 ^ 31" for i :: int
    using that take_bit_int_eq_self[of "(i - 1) div 16" "LENGTH(32)"] by (simp add: unsigned_of_int)
  ultimately show ?thesis using assms by metis
qed

lemma sync_inode_blk:
  assumes "get_super_block s (i_dev (inode_table s p)) = Some sb" "1 \<le> i_num (inode_table s p)"
    and "sect_ok s (i_dev (inode_table s p)) (inode_blk sb (i_num (inode_table s p)))"
  shows "sync_inode s p = Some (put_blk s (i_dev (inode_table s p)) (inode_blk sb (i_num (inode_table s p)))
    (store_inode (blk s (i_dev (inode_table s p)) (inode_blk sb (i_num (inode_table s p))))
      (nat ((i_num (inode_table s p) - 1) mod 16) * 32) (inode_table s p)))"
  using assms by (simp add: sync_inode_def rd_sect_blk wr_sect_blk inode_off_pos Let_def)

lemma inode_at_put:
  assumes ok: "sect_ok s dev (inode_blk sb num)" and n: "1 \<le> num" "num < 2 ^ 31"
    and s': "s' = put_blk s dev (inode_blk sb num) (store_inode (blk s dev (inode_blk sb num)) (nat ((num - 1) mod 16) * 32) e)"
  shows "inode_at s' sb dev num = zero_inode\<lparr>i_mode := i_mode e, i_size := i_size e, i_start_sect := i_start_sect e, i_nr_sects := i_nr_sects e\<rparr>"
    and "1 \<le> k \<Longrightarrow> k < 2 ^ 31 \<Longrightarrow> k \<noteq> num \<Longrightarrow> sect_ok s dev (inode_blk sb k) \<Longrightarrow> inode_at s' sb dev k = inode_at s sb dev k"
proof -
  show "inode_at s' sb dev num = zero_inode\<lparr>i_mode := i_mode e, i_size := i_size e, i_start_sect := i_start_sect e, i_nr_sects := i_nr_sects e\<rparr>"
    using inode_off_bound[OF n(1)] by (simp add: inode_at_def s' blk_put_same load_inode_clip)
  assume k: "1 \<le> k" "k < 2 ^ 31" "k \<noteq> num" "sect_ok s dev (inode_blk sb k)"
  show "inode_at s' sb dev k = inode_at s sb dev k"
  proof (cases "inode_blk sb k = inode_blk sb num")
    case False
    then have "lba_of s dev (inode_blk sb k) \<noteq> lba_of s dev (inode_blk sb num)" using lba_of_inject[OF k(4) ok] by simp
    then show ?thesis by (simp add: inode_at_def s' blk_put_other)
  next
    case True
    from inode_blk_inject[OF k(1,2) n True] k(3) have "(k - 1) mod 16 \<noteq> (num - 1) mod 16"
      by (metis div_mult_mod_eq diff_add_cancel)
    then have "nat ((k - 1) mod 16) \<noteq> nat ((num - 1) mod 16)" by (simp add: eq_nat_nat_iff)
    then have "nat ((num - 1) mod 16) * 32 + 16 \<le> nat ((k - 1) mod 16) * 32 \<or> nat ((k - 1) mod 16) * 32 + 16 \<le> nat ((num - 1) mod 16) * 32"
      by linarith
    then show ?thesis using inode_off_bound[OF k(1)]
      by (simp add: inode_at_def s' True blk_put_same load_inode_clip load_store_inode_other)
  qed
qed

lemma inode_table_upd_eqs [simp]:
  "sect_ok (s\<lparr>inode_table := tab\<rparr>) dev n = sect_ok s dev n" "blk (s\<lparr>inode_table := tab\<rparr>) dev n = blk s dev n"
  "get_super_block (s\<lparr>inode_table := tab\<rparr>) dev = get_super_block s dev"
  by (simp_all add: sect_ok_def blk_def lba_of_def get_super_block_def cong: if_cong)

lemma get_inode_blk:
  assumes "find_inode (inode_table s) dev num 0 None NR_INODE = Inr (Some q)" "1 \<le> num" "get_super_block s dev = Some sb"
    and "sect_ok s dev (inode_blk sb num)"
  shows "get_inode s dev num = Some (set_inode s q (\<lambda>e. load_inode (blk s dev (inode_blk sb num)) (nat ((num - 1) mod 16) * 32)
      (e\<lparr>i_dev := dev, i_num := num, i_cnt := 1\<rparr>)), Some q)"
  using assms by (simp add: get_inode_def get_inode_by_def rd_sect_blk inode_off_pos) (simp add: set_inode_def)

text \<open>C15. Writing an inode back and reading it again from the disk gives the same inode. After
  \<^verbatim>\<open>sync_inode\<close> the inode on the disk has the mode, size and place of the one in memory; no other inode of
  the device changes on the disk; and \<^verbatim>\<open>get_inode\<close>, on any table that has no copy of the inode and a free
  slot, fills the first free slot with the inode as it was, with a count of one.\<close>

theorem sync_then_get:
  assumes "e = inode_table s p" "dev = i_dev e" "num = i_num e" "1 \<le> num" "num < 2 ^ 31"
    and "get_super_block s dev = Some sb" "sect_ok s dev (inode_blk sb num)"
  shows "\<exists>s'. sync_inode s p = Some s' \<and> inode_table s' = inode_table s \<and>
    (\<forall>k. 1 \<le> k \<longrightarrow> k < 2 ^ 31 \<longrightarrow> k \<noteq> num \<longrightarrow> sect_ok s dev (inode_blk sb k) \<longrightarrow> inode_at s' sb dev k = inode_at s sb dev k) \<and>
    (\<forall>tab q. find_inode tab dev num 0 None NR_INODE = Inr (Some q) \<longrightarrow>
      get_inode (s'\<lparr>inode_table := tab\<rparr>) dev num = Some (s'\<lparr>inode_table := tab(q := e\<lparr>i_cnt := 1\<rparr>)\<rparr>, Some q))"
proof -
  let ?b = "store_inode (blk s dev (inode_blk sb num)) (nat ((num - 1) mod 16) * 32) e"
  let ?s = "put_blk s dev (inode_blk sb num) ?b"
  have sync: "sync_inode s p = Some ?s" using sync_inode_blk[of s p sb] assms by simp
  have at: "inode_at ?s sb dev k = inode_at s sb dev k"
    if "1 \<le> k" "k < 2 ^ 31" "k \<noteq> num" "sect_ok s dev (inode_blk sb k)" for k
    by (rule inode_at_put(2)[OF assms(7,4,5) refl that])
  have get: "get_inode (?s\<lparr>inode_table := tab\<rparr>) dev num = Some (?s\<lparr>inode_table := tab(q := e\<lparr>i_cnt := 1\<rparr>)\<rparr>, Some q)"
    if "find_inode tab dev num 0 None NR_INODE = Inr (Some q)" for tab q
  proof -
    have "load_inode (blk ?s dev (inode_blk sb num)) (nat ((num - 1) mod 16) * 32) ((tab q)\<lparr>i_dev := dev, i_num := num, i_cnt := 1\<rparr>) = e\<lparr>i_cnt := 1\<rparr>"
      using inode_off_bound[OF assms(4)] by (simp add: blk_put_same load_inode_clip assms(2,3) load_store_inode_full del: load_store_inode)
    note e = this
    have "get_inode (?s\<lparr>inode_table := tab\<rparr>) dev num = Some (set_inode (?s\<lparr>inode_table := tab\<rparr>) q (\<lambda>e. load_inode
        (blk (?s\<lparr>inode_table := tab\<rparr>) dev (inode_blk sb num)) (nat ((num - 1) mod 16) * 32) (e\<lparr>i_dev := dev, i_num := num, i_cnt := 1\<rparr>)), Some q)"
      by (rule get_inode_blk) (use that assms(4,6,7) in simp_all)
    moreover have "inode_table (?s\<lparr>inode_table := tab\<rparr>) = tab"
      "\<And>t. ?s\<lparr>inode_table := tab\<rparr>\<lparr>inode_table := t\<rparr> = ?s\<lparr>inode_table := t\<rparr>" by simp_all
    ultimately show ?thesis unfolding set_inode_def inode_table_upd_eqs by (simp only: e)
  qed
  show ?thesis using sync at get by auto
qed

definition demo_os :: "unit ostate_scheme" where
  "demo_os = \<lparr>fat = (\<lambda>_. \<lparr>next_cluster = 0, rf_addr = 0\<rparr>), fat_below = \<lparr>next_cluster = 0, rf_addr = 0\<rparr>, page = (\<lambda>_ _. 0),
     cell = (\<lambda>_. 0), memman = kmem demo_sys, filp = (\<lambda>i. if i = 0 then Some 0 else None),
     f_desc_table = (\<lambda>_. zero_desc\<lparr>fd_mode := O_RDWR, fd_node := InodeNode 1, flag := 1, fd_pos := 100\<rparr>), cwd = (\<lambda>_. 0), prev_byte = 0, hds = demo_sys,
     inode_table = (\<lambda>_. zero_inode)(0 := \<lparr>i_mode = I_DIRECTORY, i_size = 80, i_start_sect = 261, i_nr_sects = 2048, i_dev = 0x301, i_cnt = 1, i_num = 1\<rparr>,
       1 := \<lparr>i_mode = I_REGULAR, i_size = 700, i_start_sect = 2309, i_nr_sects = 2048, i_dev = 0x301, i_cnt = 1, i_num = 6\<rparr>),
     sb_table = (\<lambda>_. mkfs_super_block 0x301 0x1000), root_inode = Some 0, stack_addr = 0x500, cur_pid = 3\<rparr>"

lemma demo_os_sect: "0 \<le> n \<Longrightarrow> n < 2 ^ 22 \<Longrightarrow> sect_ok demo_os 0x301 n"
  by (simp add: sect_ok_def demo_os_def demo_sys_def demo_disk_def MINOR_def part_of_dev_def DRV_OF_DEV_def MAX_PRIM_def
      NR_PRIM_PER_DRIVE_def signed_divide_int_def)

lemma demo_os_sb: "get_super_block demo_os 0x301 = Some (mkfs_super_block 0x301 0x1000)"
  by (simp add: get_super_block_def demo_os_def NR_SUPER_BLOCK_def numeral_eq_Suc mkfs_super_block_def Let_def)

theorem sync_then_get_witness:
  "\<exists>s'. sync_inode demo_os 1 = Some s' \<and>
     get_inode (s'\<lparr>inode_table := (\<lambda>_. zero_inode)\<rparr>) 0x301 6 =
       Some (s'\<lparr>inode_table := (\<lambda>_. zero_inode)(0 := inode_table demo_os 1)\<rparr>, Some 0)"
proof -
  have e: "i_dev (inode_table demo_os 1) = 0x301" "i_num (inode_table demo_os 1) = 6"
    "(inode_table demo_os 1)\<lparr>i_cnt := 1\<rparr> = inode_table demo_os 1" by (simp_all add: demo_os_def)
  have b: "inode_blk (mkfs_super_block 0x301 0x1000) 6 = 5" by code_simp
  have f: "find_inode (\<lambda>_. zero_inode) 0x301 6 0 None NR_INODE = Inr (Some 0)" by code_simp
  show ?thesis
    using sync_then_get[OF refl e(1)[symmetric] e(2)[symmetric] _ _ demo_os_sb] f unfolding b e by (auto simp: demo_os_sect)
qed

subsection \<open>The table of inodes\<close>

text \<open>Counts are not negative, and no inode of a device is in two slots at the same time.\<close>

definition table_ok :: "inode block \<Rightarrow> bool" where
  "table_ok tab \<longleftrightarrow> (\<forall>p < NR_INODE. 0 \<le> i_cnt (tab p)) \<and>
     (\<forall>p < NR_INODE. \<forall>q < NR_INODE. 0 < i_cnt (tab p) \<and> 0 < i_cnt (tab q) \<and> i_dev (tab p) = i_dev (tab q) \<and>
        i_num (tab p) = i_num (tab q) \<longrightarrow> p = q)"

lemma find_inode_Inl:
  "find_inode tab dev num p q n = Inl r \<Longrightarrow> p \<le> r \<and> r < p + n \<and> i_cnt (tab r) \<noteq> 0 \<and> i_dev (tab r) = dev \<and> i_num (tab r) = num"
  by (induction tab dev num p q n rule: find_inode.induct) (auto split: if_splits)

lemma find_inode_Inr:
  "find_inode tab dev num p q n = Inr q' \<Longrightarrow> p \<le> r \<Longrightarrow> r < p + n \<Longrightarrow> i_dev (tab r) = dev \<Longrightarrow> i_num (tab r) = num \<Longrightarrow> i_cnt (tab r) = 0"
proof (induction tab dev num p q n rule: find_inode.induct)
  case (2 tab dev num p q n)
  show ?case
  proof (cases "r = p")
    case True
    with 2(3,4,6,7) show ?thesis by (simp split: if_splits)
  next
    case False
    then have r: "p + 1 \<le> r" "r < p + 1 + n" using 2(4,5) by simp_all
    show ?thesis
    proof (cases "i_cnt (tab p) = 0")
      case True
      then show ?thesis using 2(2)[OF _ _ r 2(6,7)] 2(3) by simp
    next
      case False
      then show ?thesis using 2(1)[OF False _ _ r 2(6,7)] 2(3) by (simp split: if_splits)
    qed
  qed
qed simp

lemma find_inode_free:
  "find_inode tab dev num p q n = Inr (Some r) \<Longrightarrow> q = Some r \<or> p \<le> r \<and> r < p + n \<and> i_cnt (tab r) = 0"
proof (induction n arbitrary: p q)
  case (Suc n)
  show ?case
  proof (cases "i_cnt (tab p) = 0")
    case True
    then have "find_inode tab dev num (p + 1) (if q = None then Some p else q) n = Inr (Some r)" using Suc.prems by simp
    from Suc.IH[OF this] True show ?thesis by (cases q) auto
  next
    case False
    then have "find_inode tab dev num (p + 1) q n = Inr (Some r)" using Suc.prems by (simp split: if_splits)
    from Suc.IH[OF this] show ?thesis by auto
  qed
qed simp

lemma wr_sect_table: "wr_sect s dev n buf = Some s' \<Longrightarrow> inode_table s' = inode_table s \<and> sb_table s' = sb_table s"
  by (auto simp: wr_sect_def rw_sector_def bind_eq_Some_conv)

lemma rd_sect_sched_table: "rd_sect_sched s dev n = Some (s', m) \<Longrightarrow> inode_table s' = inode_table s"
  by (auto simp: rd_sect_sched_def rw_sector_sched_def bind_eq_Some_conv)

lemma sync_inode_table: "sync_inode s p = Some s' \<Longrightarrow> inode_table s' = inode_table s"
  by (auto simp: sync_inode_def bind_eq_Some_conv Let_def dest: wr_sect_table)

text \<open>What a call of either function does to the table.\<close>

lemma get_inode_by_table:
  assumes "get_inode_by rd s dev num = Some (s', r)" and rd: "\<And>s n s' m. rd s dev n = Some (s', m) \<Longrightarrow> inode_table s' = inode_table s"
  shows "inode_table s' = inode_table s \<and> r = None \<and> num = 0 \<or>
    (\<exists>p e. r = Some p \<and> p < NR_INODE \<and> inode_table s' = (inode_table s)(p := e) \<and> i_dev e = dev \<and> i_num e = num \<and>
      (i_cnt (inode_table s p) \<noteq> 0 \<and> e = (inode_table s p)\<lparr>i_cnt := i_cnt (inode_table s p) + 1\<rparr> \<or>
       i_cnt e = 1 \<and> (\<forall>q < NR_INODE. i_dev (inode_table s q) = dev \<and> i_num (inode_table s q) = num \<longrightarrow> i_cnt (inode_table s q) = 0)))"
proof (cases "num = 0")
  case True
  then show ?thesis using assms(1) by (simp add: get_inode_by_def)
next
  case False
  show ?thesis
  proof (cases "find_inode (inode_table s) dev num 0 None NR_INODE")
    case (Inl p)
    from find_inode_Inl[OF this] show ?thesis using assms(1) False Inl
      by (intro disjI2 exI[of _ p] exI[of _ "(inode_table s p)\<lparr>i_cnt := i_cnt (inode_table s p) + 1\<rparr>"]) (auto simp: get_inode_by_def)
  next
    case (Inr q)
    with assms(1) False obtain p sb m a s2 where p: "q = Some p" "r = Some p"
      and rs: "rd (set_inode s p (\<lambda>e. e\<lparr>i_dev := dev, i_num := num, i_cnt := 1\<rparr>)) dev (inode_blk sb num) = Some (s2, m)"
      and s': "s' = set_inode s2 p (load_inode m a)"
      by (auto simp: get_inode_by_def Let_def bind_eq_Some_conv split: option.splits)
    have free: "p < NR_INODE"
      "\<forall>q < NR_INODE. i_dev (inode_table s q) = dev \<and> i_num (inode_table s q) = num \<longrightarrow> i_cnt (inode_table s q) = 0"
      using find_inode_free[of "inode_table s" dev num 0 None NR_INODE p] find_inode_Inr[OF Inr] Inr p(1) by auto
    have "inode_table s' = (inode_table s)(p := load_inode m a ((inode_table s p)\<lparr>i_dev := dev, i_num := num, i_cnt := 1\<rparr>))"
      using rd[OF rs] by (simp add: s')
    then show ?thesis using free p by (auto simp: load_inode_def)
  qed
qed

lemma get_inode_table:
  assumes "get_inode s dev num = Some (s', r) \<or> get_inode_sched s dev num = Some (s', r)"
  shows "inode_table s' = inode_table s \<and> r = None \<and> num = 0 \<or>
    (\<exists>p e. r = Some p \<and> p < NR_INODE \<and> inode_table s' = (inode_table s)(p := e) \<and> i_dev e = dev \<and> i_num e = num \<and>
      (i_cnt (inode_table s p) \<noteq> 0 \<and> e = (inode_table s p)\<lparr>i_cnt := i_cnt (inode_table s p) + 1\<rparr> \<or>
       i_cnt e = 1 \<and> (\<forall>q < NR_INODE. i_dev (inode_table s q) = dev \<and> i_num (inode_table s q) = num \<longrightarrow> i_cnt (inode_table s q) = 0)))"
  using assms
proof
  assume "get_inode s dev num = Some (s', r)"
  then show ?thesis unfolding get_inode_def by (rule get_inode_by_table) auto
next
  assume "get_inode_sched s dev num = Some (s', r)"
  then show ?thesis unfolding get_inode_sched_def by (rule get_inode_by_table) (rule rd_sect_sched_table)
qed

lemma table_ok_upd:
  assumes "table_ok tab" "0 \<le> i_cnt e"
    and "\<And>q. q < NR_INODE \<Longrightarrow> q \<noteq> p \<Longrightarrow> 0 < i_cnt (tab q) \<Longrightarrow> i_dev (tab q) = i_dev e \<Longrightarrow> i_num (tab q) = i_num e \<Longrightarrow> i_cnt e = 0"
  shows "table_ok (tab(p := e))"
  using assms unfolding table_ok_def by (simp, metis less_irrefl)

text \<open>An entry that keeps its device and number, with a positive count, goes with the others.\<close>

lemma table_ok_same:
  assumes "table_ok tab" "p < NR_INODE \<Longrightarrow> 0 < i_cnt (tab p)" "0 \<le> i_cnt e" "i_dev e = i_dev (tab p)" "i_num e = i_num (tab p)"
  shows "table_ok (tab(p := e))"
proof (cases "p < NR_INODE")
  case True
  then show ?thesis using assms by (intro table_ok_upd) (auto simp: table_ok_def)
next
  case False
  then show ?thesis using assms(1) by (simp add: table_ok_def)
qed

lemma table_ok_get:
  assumes "table_ok (inode_table s)" "get_inode s dev num = Some (s', r) \<or> get_inode_sched s dev num = Some (s', r)"
  shows "table_ok (inode_table s')"
  using get_inode_table[OF assms(2)]
proof (elim disjE conjE exE)
  fix p e
  assume p: "p < NR_INODE" "inode_table s' = (inode_table s)(p := e)" "e = (inode_table s p)\<lparr>i_cnt := i_cnt (inode_table s p) + 1\<rparr>"
    "i_cnt (inode_table s p) \<noteq> 0"
  have "0 \<le> i_cnt (inode_table s p)" using assms(1) p(1) by (simp add: table_ok_def)
  with p(4) show ?thesis unfolding p(2) by (intro table_ok_same assms(1)) (simp_all add: p(3))
next
  fix p e
  assume p: "inode_table s' = (inode_table s)(p := e)" "i_dev e = dev" "i_num e = num" "i_cnt e = 1"
    "\<forall>q < NR_INODE. i_dev (inode_table s q) = dev \<and> i_num (inode_table s q) = num \<longrightarrow> i_cnt (inode_table s q) = 0"
  show ?thesis unfolding p(1) by (intro table_ok_upd assms(1)) (use p in auto)
qed (use assms(1) in simp)

text \<open>The steps of the file system that touch the table.\<close>

inductive inode_step :: "'a ostate_scheme \<Rightarrow> 'a ostate_scheme \<Rightarrow> bool" where
  get: "get_inode s dev num = Some (s', r) \<Longrightarrow> inode_step s s'"
| get_sched: "get_inode_sched s dev num = Some (s', r) \<Longrightarrow> inode_step s s'"
| put: "p < NR_INODE \<Longrightarrow> 0 < i_cnt (inode_table s p) \<Longrightarrow> inode_step s (put_inode s p)"
| new: "new_inode s dev num sect = Some (s', p) \<Longrightarrow> inode_step s s'"
| sync: "sync_inode s p = Some s' \<Longrightarrow> inode_step s s'"
| resize: "inode_step s (set_inode s p (\<lambda>e. e\<lparr>i_size := n\<rparr>))"
| clear: "inode_step s (set_inode s p (\<lambda>e. e\<lparr>i_mode := 0, i_size := 0, i_start_sect := 0, i_nr_sects := 0\<rparr>))"

lemma table_ok_new:
  assumes "table_ok (inode_table s)" "new_inode s dev num sect = Some (s', p)"
  shows "table_ok (inode_table s')"
proof -
  from assms(2) obtain s1 s2 where g: "get_inode s dev num = Some (s1, Some p)"
    and s2: "s2 = set_inode s1 p (\<lambda>e. e\<lparr>i_mode := I_REGULAR, i_size := 0, i_start_sect := of_int sect,
        i_nr_sects := of_nat NR_DEFAULT_FILE_SECTS, i_dev := dev, i_cnt := 1, i_num := num\<rparr>)" "sync_inode s2 p = Some s'"
    by (auto simp: new_inode_def Let_def bind_eq_Some_conv)
  have ok1: "table_ok (inode_table s1)" using table_ok_get[OF assms(1)] g by blast
  from get_inode_table[of s dev num s1 "Some p"] g obtain e where e: "p < NR_INODE" "inode_table s1 p = e" "i_dev e = dev" "i_num e = num"
    "i_cnt e = 1 \<or> i_cnt e = i_cnt (inode_table s p) + 1" by auto
  have "0 \<le> i_cnt (inode_table s p)" using assms(1) e(1) by (simp add: table_ok_def)
  then have "0 < i_cnt (inode_table s1 p)" using e by auto
  then show ?thesis unfolding sync_inode_table[OF s2(2)] s2(1) set_inode_simps using e
    by (intro table_ok_same ok1) simp_all
qed

lemma table_ok_fields: "table_ok tab \<Longrightarrow> i_cnt e = i_cnt (tab p) \<Longrightarrow> i_dev e = i_dev (tab p) \<Longrightarrow> i_num e = i_num (tab p) \<Longrightarrow> table_ok (tab(p := e))"
proof -
  assume t: "table_ok tab" and e: "i_cnt e = i_cnt (tab p)" "i_dev e = i_dev (tab p)" "i_num e = i_num (tab p)"
  have "i_cnt ((tab(p := e)) q) = i_cnt (tab q)" "i_dev ((tab(p := e)) q) = i_dev (tab q)" "i_num ((tab(p := e)) q) = i_num (tab q)" for q
    using e by simp_all
  then show ?thesis using t unfolding table_ok_def by (simp only:)
qed

lemma table_ok_step: "inode_step s s' \<Longrightarrow> table_ok (inode_table s) \<Longrightarrow> table_ok (inode_table s')"
proof (induction rule: inode_step.induct)
  case (put p s)
  then show ?case unfolding put_inode_def set_inode_simps by (intro table_ok_same) simp_all
next
  case (resize s p n)
  then show ?case unfolding set_inode_simps by (rule table_ok_fields) simp_all
next
  case (clear s p)
  then show ?case unfolding set_inode_simps by (rule table_ok_fields) simp_all
next
  case (sync s p s')
  then show ?case using sync_inode_table by metis
qed (blast intro: table_ok_get table_ok_new)+

text \<open>C14. Whatever the file system does with inodes after \<^verbatim>\<open>init_fs\<close> cleared the table, no inode of a device
  is ever in two slots of the table and no count is negative; and then \<^verbatim>\<open>get_inode\<close> gives a slot of the
  table that holds the inode asked for, counted, and changes no other slot.\<close>

theorem inode_cached_once:
  assumes "inode_step\<^sup>*\<^sup>* s0 s" "\<forall>p < NR_INODE. inode_table s0 p = zero_inode"
  shows "table_ok (inode_table s) \<and> (\<forall>dev num s' p. get_inode s dev num = Some (s', Some p) \<longrightarrow>
    p < NR_INODE \<and> i_dev (inode_table s' p) = dev \<and> i_num (inode_table s' p) = num \<and> 0 < i_cnt (inode_table s' p) \<and>
    (\<forall>q. q = p \<or> inode_table s' q = inode_table s q))"
proof -
  have ok: "table_ok (inode_table s)"
    using assms(1)
  proof (induction rule: rtranclp_induct)
    case base
    then show ?case using assms(2) by (simp add: table_ok_def zero_inode_def)
  qed (rule table_ok_step)
  moreover have "p < NR_INODE \<and> i_dev (inode_table s' p) = dev \<and> i_num (inode_table s' p) = num \<and> 0 < i_cnt (inode_table s' p) \<and>
    (\<forall>q. q = p \<or> inode_table s' q = inode_table s q)" if "get_inode s dev num = Some (s', Some p)" for dev num s' p
  proof -
    have "0 \<le> i_cnt (inode_table s p)" if "p < NR_INODE" using ok that by (simp add: table_ok_def)
    then show ?thesis using get_inode_table[of s dev num s' "Some p"] that by (auto split: if_splits)
  qed
  ultimately show ?thesis by blast
qed

theorem inode_cached_once_witness:
  "\<exists>s. get_inode (demo_os\<lparr>inode_table := (\<lambda>_. zero_inode)\<rparr>) 0x301 6 = Some (s, Some 0) \<and> table_ok (inode_table s)"
proof -
  let ?s0 = "demo_os\<lparr>inode_table := (\<lambda>_. zero_inode)\<rparr>"
  have b: "inode_blk (mkfs_super_block 0x301 0x1000) 6 = 5" by code_simp
  have f: "find_inode (\<lambda>_. zero_inode) 0x301 6 0 None NR_INODE = Inr (Some 0)" by code_simp
  have "\<exists>s. get_inode ?s0 0x301 6 = Some (s, Some 0)"
    by (subst get_inode_blk[where q = 0 and sb = "mkfs_super_block 0x301 0x1000"])
      (simp_all add: f b demo_os_sb demo_os_sect)
  then obtain s where s: "get_inode ?s0 0x301 6 = Some (s, Some 0)" by blast
  from inode_step.get[OF this] have "inode_step\<^sup>*\<^sup>* ?s0 s" by blast
  from inode_cached_once[OF this] s show ?thesis by simp
qed

subsection \<open>The map of inodes\<close>

definition map_bit :: "bytes \<Rightarrow> nat \<Rightarrow> bool" where
  "map_bit m i = bit (m (i div 8)) (i mod 8)"

lemma bit_place: "k < 8 \<Longrightarrow> i = j * 8 + k \<longleftrightarrow> i div 8 = j \<and> i mod 8 = (k :: nat)"
proof
  assume "i div 8 = j \<and> i mod 8 = k"
  then show "i = j * 8 + k" by (metis div_mult_mod_eq)
qed simp

lemma first_zero_spec:
  "k \<le> i \<Longrightarrow> i < k + n \<Longrightarrow> \<not> bit b i \<Longrightarrow> k \<le> first_zero b k n \<and> first_zero b k n < k + n \<and>
    \<not> bit b (first_zero b k n) \<and> (\<forall>j. k \<le> j \<and> j < first_zero b k n \<longrightarrow> bit b j)"
proof (induction n arbitrary: k)
  case (Suc n)
  show ?case
  proof (cases "bit b k")
    case True
    with Suc.prems have "k + 1 \<le> i" "i < k + 1 + n" by (cases "i = k"; simp)+
    from Suc.IH[OF this Suc.prems(3)] have ih: "k + 1 \<le> first_zero b (k + 1) n" "first_zero b (k + 1) n < k + Suc n"
      "\<not> bit b (first_zero b (k + 1) n)" "\<And>j. k + 1 \<le> j \<Longrightarrow> j < first_zero b (k + 1) n \<Longrightarrow> bit b j" by auto
    have "bit b j" if "k \<le> j" "j < first_zero b (k + 1) n" for j
      using that True ih(4)[of j] by (cases "j = k") simp_all
    with ih(1-3) True show ?thesis by simp
  next
    case False
    then show ?thesis by auto
  qed
qed simp

lemma byte_full: "b = 0xFF \<longleftrightarrow> (\<forall>i < 8. bit (b :: u8) i)"
proof -
  have "b = mask 8 \<longleftrightarrow> (\<forall>i < 8. bit b i)" by (auto simp: bit_mask_iff intro!: bit_word_eqI)
  moreover have "(mask 8 :: u8) = 0xFF" by (simp add: mask_eq_exp_minus_1)
  ultimately show ?thesis by metis
qed

lemma imap_byte_None: "imap_byte m j n = None \<Longrightarrow> j \<le> i \<Longrightarrow> i < j + n \<Longrightarrow> m i = 0xFF"
proof (induction n arbitrary: j)
  case (Suc n)
  then show ?case by (cases "i = j") (auto split: if_splits)
qed simp

lemma imap_byte_Some:
  "imap_byte m j n = Some i \<Longrightarrow> j \<le> i \<and> i < j + n \<and> m i \<noteq> 0xFF \<and> (\<forall>k. j \<le> k \<and> k < i \<longrightarrow> m k = 0xFF)"
proof (induction n arbitrary: j)
  case (Suc n)
  show ?case
  proof (cases "m j = 0xFF")
    case True
    with Suc.prems have "imap_byte m (j + 1) n = Some i" by simp
    from Suc.IH[OF this] True show ?thesis by (metis Suc_eq_plus1 Suc_leD Suc_leI add_Suc_right add_Suc_shift le_neq_implies_less)
  next
    case False
    with Suc.prems show ?thesis by auto
  qed
qed simp

text \<open>C17. A new inode number is the first zero bit of the inode map: \<^verbatim>\<open>alloc_imap_bit\<close> sets this bit on the
  disk and changes no other bit of the map and no other sector. When all bits of the first sector are
  set the result is 0 and nothing is written; when the super block says there is no map at all, it panics.\<close>

theorem alloc_imap_first_free:
  assumes "get_super_block s dev = Some sb" "nr_imap_sects sb \<noteq> 0" "sect_ok s dev 2"
  shows "if \<forall>i < 4096. map_bit (blk s dev 2) i then alloc_imap_bit s dev = Some (s, 0)
    else \<exists>s' r. alloc_imap_bit s dev = Some (s', int r) \<and> r < 4096 \<and> \<not> map_bit (blk s dev 2) r \<and>
      (\<forall>i < r. map_bit (blk s dev 2) i) \<and> (\<forall>i < 4096. map_bit (blk s' dev 2) i \<longleftrightarrow> i = r \<or> map_bit (blk s dev 2) i) \<and>
      (\<forall>dev' n. lba_of s dev' n \<noteq> lba_of s dev 2 \<longrightarrow> blk s' dev' n = blk s dev' n)"
proof (cases "imap_byte (blk s dev 2) 0 SECTOR_SIZE")
  case None
  then have full: "blk s dev 2 j = 0xFF" if "j < 512" for j
    using imap_byte_None[OF None, of j] that by simp
  have "map_bit (blk s dev 2) i" if "i < 4096" for i
  proof -
    have "i div 8 < 512" using that by (simp add: less_mult_imp_div_less)
    from full[OF this] show ?thesis unfolding byte_full map_bit_def by simp
  qed
  moreover have "alloc_imap_bit s dev = Some (s, 0)" using None assms by (simp add: alloc_imap_bit_def rd_sect_blk)
  ultimately show ?thesis by simp
next
  case (Some j)
  let ?m = "blk s dev 2"
  let ?k = "first_zero (?m j) 0 8"
  let ?s = "put_blk s dev 2 (?m(j := ?m j OR push_bit ?k 1))"
  from imap_byte_Some[OF Some] have j: "j < 512" "?m j \<noteq> 0xFF" "\<And>i. i < j \<Longrightarrow> ?m i = 0xFF" by simp_all
  from j(2) obtain z where z: "z < 8" "\<not> bit (?m j) z" unfolding byte_full by blast
  have k: "?k < 8 \<and> \<not> bit (?m j) ?k \<and> (\<forall>i < ?k. bit (?m j) i)" using first_zero_spec[of 0 z 8 "?m j"] z by simp
  have r: "alloc_imap_bit s dev = Some (?s, int (j * 8 + ?k))" using Some assms by (simp add: alloc_imap_bit_def rd_sect_blk wr_sect_blk Let_def)
  have free: "\<not> map_bit ?m (j * 8 + ?k)" "j * 8 + ?k < 4096" using k j(1) by (simp_all add: map_bit_def)
  have before: "map_bit ?m i" if "i < j * 8 + ?k" for i
  proof (cases "i div 8 = j")
    case True
    then have "i mod 8 < ?k" using that by (metis add_less_cancel_left div_mult_mod_eq)
    then show ?thesis using k True by (simp add: map_bit_def)
  next
    case False
    have "i div 8 < j + 1" using that k by (intro less_mult_imp_div_less) simp
    with False have "?m (i div 8) = 0xFF" by (intro j(3)) simp
    then show ?thesis unfolding byte_full map_bit_def by simp
  qed
  have after: "map_bit (blk ?s dev 2) i \<longleftrightarrow> i = j * 8 + ?k \<or> map_bit ?m i" if "i < 4096" for i
  proof -
    have "i div 8 < 512" using that by (simp add: less_mult_imp_div_less)
    moreover have "i = j * 8 + ?k \<longleftrightarrow> i div 8 = j \<and> i mod 8 = ?k"
      by (rule bit_place) (use k in simp)
    ultimately show ?thesis by (auto simp: map_bit_def blk_put_same bit_simps)
  qed
  have "\<not> (\<forall>i < 4096. map_bit ?m i)" using free by blast
  moreover have "\<exists>s' r. alloc_imap_bit s dev = Some (s', int r) \<and> r < 4096 \<and> \<not> map_bit ?m r \<and>
      (\<forall>i < r. map_bit ?m i) \<and> (\<forall>i < 4096. map_bit (blk s' dev 2) i \<longleftrightarrow> i = r \<or> map_bit ?m i) \<and>
      (\<forall>dev' n. lba_of s dev' n \<noteq> lba_of s dev 2 \<longrightarrow> blk s' dev' n = blk s dev' n)"
    by (intro exI[of _ ?s] exI[of _ "j * 8 + ?k"] conjI allI impI r free before after blk_put_other)
  ultimately show ?thesis by (simp only: if_False)
qed

theorem alloc_imap_first_free_witness:
  "\<not> map_bit (blk demo_os 0x301 2) 0 \<and> (\<exists>s'. alloc_imap_bit demo_os 0x301 = Some (s', 0) \<and> map_bit (blk s' 0x301 2) 0)"
proof -
  have z: "\<not> map_bit (blk demo_os 0x301 2) i" for i by (simp add: map_bit_def blk_def demo_os_def demo_sys_def demo_disk_def)
  have "nr_imap_sects (mkfs_super_block 0x301 0x1000) \<noteq> 0" by (simp add: mkfs_super_block_def Let_def)
  from alloc_imap_first_free[OF demo_os_sb this demo_os_sect] z show ?thesis
    by (auto dest: spec[where x = 0] split: if_splits)
qed

end
