(* ===== verification/OrangeFile.thy ===== *)
theory OrangeFile
  imports OrangeDisk
begin

text \<open>
  What reading, writing, seeking and searching do on the files of the Orange file system: a file is the
  sequence of bytes in its sectors, and the directory a sequence of entries.
\<close>

subsection \<open>The bytes of a file\<close>

definition file_bytes :: "'a ostate_scheme \<Rightarrow> int \<Rightarrow> int \<Rightarrow> bytes" where
  "file_bytes s dev sect = (\<lambda>i. blk s dev (sect + int (i div 512)) (i mod 512))"

definition advance :: "int \<Rightarrow> file_desc \<Rightarrow> file_desc" where
  "advance n e = e\<lparr>fd_pos := fd_pos e + n\<rparr>"

definition with_sectors :: "'a ostate_scheme \<Rightarrow> (nat \<Rightarrow> bytes) \<Rightarrow> 'a ostate_scheme" where
  "with_sectors s f = s\<lparr>hds := (hds s)\<lparr>disk := (disk (hds s))\<lparr>sectors := f\<rparr>\<rparr>\<rparr>"

lemma file_bytes_next: "file_bytes s dev (sect + 1) i = file_bytes s dev sect (512 + i)"
  by (simp add: file_bytes_def add.assoc div_add_self1)

lemma file_bytes_first: "j < 512 \<Longrightarrow> file_bytes s dev sect j = blk s dev sect j"
  by (simp add: file_bytes_def)

lemma with_sectors_simps [simp]:
  "same_disk s (with_sectors s f)" "inode_table (with_sectors s f) = inode_table s" "sb_table (with_sectors s f) = sb_table s"
  "root_inode (with_sectors s f) = root_inode s" "f_desc_table (with_sectors s f) = f_desc_table s"
  "with_sectors (with_sectors s f) g = with_sectors s g" "with_sectors s (sectors (disk (hds s))) = s"
  "sectors (disk (hds (with_sectors s f))) = f"
  by (simp_all add: with_sectors_def same_disk_def)

lemma with_sectors_eqs [simp]:
  "sect_ok (with_sectors s f) dev n = sect_ok s dev n" "lba_of (with_sectors s f) dev n = lba_of s dev n"
  "get_super_block (with_sectors s f) dev = get_super_block s dev"
  using same_disk_eqs[of s "with_sectors s f"] by simp_all

lemma odesc_simps [simp]:
  "hds (set_desc s d f) = hds s" "inode_table (set_desc s d f) = inode_table s" "sb_table (set_desc s d f) = sb_table s"
  "root_inode (set_desc s d f) = root_inode s" "same_disk s (set_desc s d f)"
  "f_desc_table (set_desc s d f) = (f_desc_table s)(d := f (f_desc_table s d))"
  for s :: "'a ostate_scheme"
  by (simp_all add: set_desc_def same_disk_def)

lemma set_desc_eqs [simp]:
  "sect_ok (set_desc s d f) dev n = sect_ok s dev n" "lba_of (set_desc s d f) dev n = lba_of s dev n"
  "get_super_block (set_desc s d f) dev = get_super_block s dev" "blk (set_desc s d f) dev n = blk s dev n"
  "file_bytes (set_desc s d f) dev sect = file_bytes s dev sect" "sync_inode (set_desc s d f) p = map_option (\<lambda>s. set_desc s d f) (sync_inode s p)"
  for s :: "'a ostate_scheme"
proof -
  show eqs: "sect_ok (set_desc s d f) dev n = sect_ok s dev n" "lba_of (set_desc s d f) dev n = lba_of s dev n"
    "get_super_block (set_desc s d f) dev = get_super_block s dev"
    using same_disk_eqs[of s "set_desc s d f"] by simp_all
  show "blk (set_desc s d f) dev n = blk s dev n" for n by (simp add: blk_def eqs[unfolded atomize_eq] lba_of_def cong: if_cong)
  then show "file_bytes (set_desc s d f) dev sect = file_bytes s dev sect" by (simp add: file_bytes_def)
  have "rd_sect (set_desc s d f) = rd_sect s" by (intro ext) (auto simp: rd_sect_def rw_sector_def split: Option.bind_splits)
  moreover have "wr_sect (set_desc s d f) dev n buf = map_option (\<lambda>s. set_desc s d f) (wr_sect s dev n buf)" for dev n buf
    by (auto simp: wr_sect_def rw_sector_def set_desc_def split: Option.bind_splits)
  ultimately show "sync_inode (set_desc s d f) p = map_option (\<lambda>s. set_desc s d f) (sync_inode s p)"
    by (auto simp: sync_inode_def get_super_block_def Let_def split: Option.bind_splits)
qed

lemma with_sectors_set_desc: "with_sectors (set_desc s d g) f = set_desc (with_sectors s f) d g"
  by (simp add: with_sectors_def set_desc_def)

lemma put_blk_with: "put_blk s dev n buf = with_sectors s (put_sectors (sectors (disk (hds s))) (lba_of s dev n) 1 buf 0)"
  by (simp add: put_blk_def with_sectors_def)

lemma set_desc_twice: "set_desc (set_desc s d (advance m)) d (advance n) = set_desc s d (advance (m + n))"
  for s :: "'a ostate_scheme"
  by (simp add: set_desc_def advance_def add.assoc)

lemma set_desc_advance_0: "set_desc s d (advance 0) = s" for s :: "'a ostate_scheme"
  by (simp add: set_desc_def advance_def)

text \<open>The loop moves as many bytes as are asked for, up to the end of the last sector.\<close>

lemma rdwt_loop_read:
  assumes "\<And>k. k < n \<Longrightarrow> sect_ok s dev (i + int k)" "off < 512"
  shows "rdwt_loop s DEV_READ dev d buf i off bytes_rw (int left) n =
    Some (set_desc s d (advance (int (min left (512 * n - off)))),
      store_list buf bytes_rw (load_list (file_bytes s dev i) off (min left (512 * n - off))), bytes_rw + min left (512 * n - off))"
  using assms
proof (induction n arbitrary: s buf i off bytes_rw left)
  case 0
  then show ?case by (simp add: set_desc_advance_0)
next
  case (Suc n)
  obtain b where b: "b = min left (512 - off)" by blast
  have ok0: "sect_ok s dev i" using Suc.prems(1)[of 0] by simp
  let ?s = "set_desc s d (advance (int b))"
  let ?buf = "store_list buf bytes_rw (load_list (blk s dev i) off b)"
  have ok: "sect_ok ?s dev (i + 1 + int k)" if "k < n" for k
    using Suc.prems(1)[of "Suc k"] that by (simp add: add.assoc)
  have bytes: "min (int left) (int SECTOR_SIZE - int off) = int b" "int left - int b = int (left - b)"
    using Suc.prems(2) by (auto simp: b)
  have step: "rdwt_loop s DEV_READ dev d buf i off bytes_rw (int left) (Suc n) =
      rdwt_loop ?s DEV_READ dev d ?buf (i + 1) 0 (bytes_rw + b) (int (left - b)) n"
    unfolding rdwt_loop.simps bytes by (simp add: Let_def rd_sect_blk[OF ok0] bytes advance_def[abs_def])
  obtain r where r: "r = min (left - b) (512 * n - 0)" by blast
  have tot: "min left (512 * Suc n - off) = b + r" using Suc.prems(2) by (auto simp: b r)
  have first: "load_list (blk s dev i) off b = load_list (file_bytes s dev i) off b"
    using Suc.prems(2) by (auto intro!: nth_equalityI simp: file_bytes_first b)
  have second: "load_list (file_bytes s dev (i + 1)) 0 r = load_list (file_bytes s dev i) (off + b) r"
  proof (cases "r = 0")
    case False
    then have "off + b = 512" using Suc.prems(2) by (auto simp: b r)
    then show ?thesis by (intro nth_equalityI) (auto simp: file_bytes_next)
  qed simp
  note ih = Suc.IH[where s = ?s and i = "i + 1" and off = 0 and left = "left - b" and buf = ?buf and bytes_rw = "bytes_rw + b", OF ok]
  show ?case unfolding step tot using ih unfolding r[symmetric]
    by (simp add: first second set_desc_twice load_list_append store_list_append add.assoc)
qed

text \<open>Writing, the sectors of the range get the bytes of the buffer and nothing else on the disk changes.\<close>

lemma blk_with: "blk (with_sectors s f) dev n = (\<lambda>j. if j < 512 then f (lba_of s dev n) j else 0)"
  by (simp add: blk_def cong: if_cong)

lemma rdwt_loop_write:
  assumes "\<And>k. k < n \<Longrightarrow> sect_ok s dev (i + int k)" "off < 512"
  shows "\<exists>f. rdwt_loop s DEV_WRITE dev d buf i off bytes_rw (int left) n =
      Some (set_desc (with_sectors s f) d (advance (int (min left (512 * n - off)))), buf, bytes_rw + min left (512 * n - off)) \<and>
    (\<forall>j < 512 * n. file_bytes (with_sectors s f) dev i j =
      (if off \<le> j \<and> j < off + min left (512 * n - off) then buf (bytes_rw + j - off) else file_bytes s dev i j)) \<and>
    (\<forall>l. (\<forall>k < n. 512 * k < off + min left (512 * n - off) \<longrightarrow> l \<noteq> lba_of s dev (i + int k)) \<longrightarrow> f l = sectors (disk (hds s)) l)"
  using assms
proof (induction n arbitrary: s i off bytes_rw left)
  case 0
  then show ?case by (intro exI[of _ "sectors (disk (hds s))"]) (simp add: set_desc_advance_0)
next
  case (Suc n)
  obtain b where b: "b = min left (512 - off)" by blast
  have ok0: "sect_ok s dev i" using Suc.prems(1)[of 0] by simp
  let ?w = "store_list (blk s dev i) off (load_list buf bytes_rw b)"
  let ?f = "put_sectors (sectors (disk (hds s))) (lba_of s dev i) 1 ?w 0"
  let ?s = "set_desc (with_sectors s ?f) d (advance (int b))"
  have okk: "sect_ok s dev (i + 1 + int k)" if "k < n" for k
    using Suc.prems(1)[of "Suc k"] that by (simp add: add.assoc)
  then have ok: "sect_ok ?s dev (i + 1 + int k)" if "k < n" for k using that by simp
  have bytes: "min (int left) (int SECTOR_SIZE - int off) = int b" "int left - int b = int (left - b)"
    using Suc.prems(2) by (auto simp: b)
  have step: "rdwt_loop s DEV_WRITE dev d buf i off bytes_rw (int left) (Suc n) =
      rdwt_loop ?s DEV_WRITE dev d buf (i + 1) 0 (bytes_rw + b) (int (left - b)) n"
    unfolding rdwt_loop.simps bytes
    by (simp add: Let_def rd_sect_blk[OF ok0] wr_sect_blk[OF ok0] put_blk_with bytes advance_def[abs_def])
  obtain r where r: "r = min (left - b) (512 * n - 0)" by blast
  have tot: "min left (512 * Suc n - off) = b + r" using Suc.prems(2) by (auto simp: b r)
  from Suc.IH[where s = ?s and i = "i + 1" and off = 0 and left = "left - b" and bytes_rw = "bytes_rw + b", OF ok]
  obtain f where f: "rdwt_loop ?s DEV_WRITE dev d buf (i + 1) 0 (bytes_rw + b) (int (left - b)) n =
      Some (set_desc (with_sectors ?s f) d (advance (int r)), buf, bytes_rw + b + r)"
    and cont: "\<And>j. j < 512 * n \<Longrightarrow> file_bytes (with_sectors s f) dev (i + 1) j =
      (if j < r then buf (bytes_rw + b + j) else file_bytes (with_sectors s ?f) dev (i + 1) j)"
    and frame: "\<And>l. (\<forall>k < n. 512 * k < r \<longrightarrow> l \<noteq> lba_of s dev (i + 1 + int k)) \<Longrightarrow> f l = ?f l"
    unfolding r[symmetric] by (auto simp: with_sectors_set_desc)
  have ne: "lba_of s dev i \<noteq> lba_of s dev (i + 1 + int k)" if "k < n" for k
    using lba_of_inject[OF ok0 okk[OF that]] by simp
  have fi: "f (lba_of s dev i) = ?f (lba_of s dev i)" by (rule frame) (use ne in blast)
  have "rdwt_loop s DEV_WRITE dev d buf i off bytes_rw (int left) (Suc n) =
      Some (set_desc (with_sectors s f) d (advance (int (b + r))), buf, bytes_rw + (b + r))"
    unfolding step f by (simp add: with_sectors_set_desc set_desc_twice)
  moreover have "file_bytes (with_sectors s f) dev i j =
      (if off \<le> j \<and> j < off + (b + r) then buf (bytes_rw + j - off) else file_bytes s dev i j)" if j: "j < 512 * Suc n" for j
  proof (cases "j < 512")
    case True
    have "r = 0 \<or> off + b = 512" using Suc.prems(2) by (auto simp: b r)
    with True show ?thesis by (auto simp: file_bytes_first blk_with fi put_sectors_def store_list_def)
  next
    case False
    then obtain k where k: "j = 512 + k" by (metis le_Suc_ex not_less)
    have "file_bytes (with_sectors s ?f) dev (i + 1) k = file_bytes s dev (i + 1) k"
    proof -
      have "k div 512 < n" using j k by (simp add: less_mult_imp_div_less)
      from ne[OF this] show ?thesis by (auto simp: file_bytes_def blk_with blk_def put_sectors_def)
    qed
    moreover have "off + b = 512 \<or> r = 0 \<and> off + b < 512" using Suc.prems(2) by (auto simp: b r)
    moreover have "off + b = 512 \<Longrightarrow> bytes_rw + (512 + k) - off = bytes_rw + b + k" by linarith
    moreover have "k < 512 * n" using j k by simp
    ultimately show ?thesis using cont[of k] Suc.prems(2) by (auto simp: k file_bytes_next[symmetric])
  qed
  moreover have "f l = sectors (disk (hds s)) l"
    if l: "\<forall>k < Suc n. 512 * k < off + (b + r) \<longrightarrow> l \<noteq> lba_of s dev (i + int k)" for l
  proof -
    have "r = 0 \<or> off + b = 512" using Suc.prems(2) by (auto simp: b r)
    then have "\<forall>k < n. 512 * k < r \<longrightarrow> l \<noteq> lba_of s dev (i + 1 + int k)"
      using l by (auto simp: add.assoc dest: spec[where x = "Suc _"])
    moreover have "?f l = sectors (disk (hds s)) l"
    proof (cases "off + (b + r) = 0")
      case True
      then have "?w = blk s dev i" by simp
      then show ?thesis by (auto simp: put_sectors_def blk_def fun_eq_iff le_less_Suc_eq)
    next
      case False
      then have "l \<noteq> lba_of s dev i" using l[rule_format, of 0] by auto
      then show ?thesis by (auto simp: put_sectors_def)
    qed
    ultimately show ?thesis using frame by simp
  qed
  ultimately show ?case unfolding tot by blast
qed

subsection \<open>Reading and writing\<close>

text \<open>An open regular file: its descriptor allows both, its size fits its sectors, and these and the one
  behind them can be reached on the disk and are not the sector its inode lies in.\<close>

definition fsect :: "inode \<Rightarrow> int" where
  "fsect e = sint (i_start_sect e)"

definition file_ok :: "'a ostate_scheme \<Rightarrow> super_block \<Rightarrow> inode \<Rightarrow> bool" where
  "file_ok s sb e \<longleftrightarrow> i_mode e AND I_TYPE_MASK \<noteq> I_CHAR_SPECIAL \<and> 1 \<le> i_num e \<and> i_num e < 2 ^ 31 \<and>
     get_super_block s (i_dev e) = Some sb \<and> sect_ok s (i_dev e) (inode_blk sb (i_num e)) \<and>
     (\<forall>k \<le> unat (i_nr_sects e). sect_ok s (i_dev e) (fsect e + int k) \<and> fsect e + int k \<noteq> inode_blk sb (i_num e)) \<and>
     unat (i_size e) \<le> 512 * unat (i_nr_sects e)"

definition open_file :: "'a ostate_scheme \<Rightarrow> int \<Rightarrow> nat \<Rightarrow> nat \<Rightarrow> super_block \<Rightarrow> bool" where
  "open_file s fd d p sb \<longleftrightarrow> fd_desc s fd = Some d \<and> has_flag (fd_mode (f_desc_table s d)) O_RDWR \<and>
     fd_node (f_desc_table s d) = InodeNode p \<and> 0 \<le> fd_pos (f_desc_table s d) \<and> file_ok s sb (inode_table s p)"

lemma sint_of_int: "int_ok n \<Longrightarrow> sint (of_int n :: u32) = n"
  unfolding int_word_sint by (simp add: int_ok_def)

lemma sint_small: "unat w < 2 ^ 31 \<Longrightarrow> sint (w :: u32) = int (unat w)"
proof -
  assume "unat w < 2 ^ 31"
  then obtain n where n: "n = unat w" "n < 2 ^ 31" by blast
  then have "w = of_int (int n)" by simp
  then have "sint w = int n" using sint_of_int[of "int n"] n(2) by (simp add: int_ok_def)
  then show ?thesis using n(1) by simp
qed

lemma unat_min: "unat (min a b) = min (unat a) (unat b)"
  by (simp add: min_def word_le_nat_alt)

lemma sint_plus: "int_ok (sint w + n) \<Longrightarrow> sint ((w :: u32) + of_int n) = sint w + n"
  using sint_of_int[of "sint w + n"] by simp

lemma fsect_plus:
  assumes "file_ok s sb e" "k \<le> unat (i_nr_sects e)"
  shows "sint (i_start_sect e + of_int (int k)) = fsect e + int k"
proof -
  have "sect_ok s (i_dev e) (fsect e + int k)" using assms by (simp add: file_ok_def)
  then have "int_ok (sint (i_start_sect e) + int k)" by (simp add: sect_ok_def int_ok_def fsect_def split: option.splits)
  from sint_plus[OF this] show ?thesis by (simp add: fsect_def)
qed

lemma nr_sects_small: "file_ok s sb e \<Longrightarrow> unat (i_nr_sects e) < 2 ^ 22"
proof -
  assume ok: "file_ok s sb e"
  obtain n where n: "unat (i_nr_sects e) = n" by blast
  have "sect_ok s (i_dev e) (fsect e + int 0)" "sect_ok s (i_dev e) (fsect e + int n)"
    using ok unfolding file_ok_def n by blast+
  then have "n < 2 ^ 22" by (auto simp: sect_ok_def split: option.splits)
  then show ?thesis unfolding n .
qed

lemma sect_words:
  assumes "file_ok s sb e"
  shows "unat (i_nr_sects e * of_nat SECTOR_SIZE) = 512 * unat (i_nr_sects e)"
  using nr_sects_small[OF assms] by (simp add: unat_word_ariths)

text \<open>The end of what is read or written, and the number of sectors the loop goes through.\<close>

definition move_end :: "io_type \<Rightarrow> inode \<Rightarrow> nat \<Rightarrow> nat" where
  "move_end t e n = min n (case t of DEV_READ \<Rightarrow> unat (i_size e) | DEV_WRITE \<Rightarrow> 512 * unat (i_nr_sects e))"

lemma do_rdwt_loop:
  assumes "open_file s fd d p sb" "e = inode_table s p" "fd_pos (f_desc_table s d) = int pos" "int_ok (int (pos + len))"
    and "pos \<le> 512 * unat (i_nr_sects e)"
  shows "do_rdwt tty s t fd buf (int len) = do {
    (s, buf, bytes_rw) \<leftarrow> rdwt_loop s t (i_dev e) d buf (fsect e + int (pos div 512)) (pos mod 512) 0 (int len)
      (move_end t e (pos + len) div 512 + 1 - pos div 512);
    s \<leftarrow> (if of_int (fd_pos (f_desc_table s d)) > i_size (inode_table s p)
       then sync_inode (set_inode s p (\<lambda>e. e\<lparr>i_size := of_int (fd_pos (f_desc_table s d))\<rparr>)) p else Some s);
    Some (s, buf, int len, int bytes_rw) }"
proof -
  let ?lim = "case t of DEV_READ \<Rightarrow> i_size e | DEV_WRITE \<Rightarrow> i_nr_sects e * of_nat SECTOR_SIZE"
  have ok: "file_ok s sb e" using assms(1,2) by (simp add: open_file_def)
  have small: "512 * unat (i_nr_sects e) < 2 ^ 31" using nr_sects_small[OF ok] by simp
  have pl: "unat (of_int (int (pos + len)) :: u32) = pos + len"
    using assms(4) by (subst unat_of_int_u32) (simp_all add: int_ok_def del: of_nat_add)
  have lim: "unat ?lim = (case t of DEV_READ \<Rightarrow> unat (i_size e) | DEV_WRITE \<Rightarrow> 512 * unat (i_nr_sects e))"
    using sect_words[OF ok] by (simp split: io_type.split)
  have me: "unat (min (of_int (int (pos + len))) ?lim) = move_end t e (pos + len)"
    unfolding move_end_def unat_min pl lim ..
  have le: "move_end t e (pos + len) \<le> 512 * unat (i_nr_sects e)"
    using ok by (auto simp: move_end_def file_ok_def split: io_type.split)
  have se: "sint (min (of_int (int (pos + len))) ?lim) = int (move_end t e (pos + len))"
    using sint_small[of "min (of_int (int (pos + len))) ?lim"] le small unfolding me by linarith
  have d1: "pos div 512 \<le> unat (i_nr_sects e)" "move_end t e (pos + len) div 512 \<le> unat (i_nr_sects e)"
    using assms(5) le by simp_all
  have k: "int pos div int SECTOR_SIZE = int (pos div SECTOR_SIZE)" for pos by (simp add: zdiv_int)
  have n: "nat (fsect e + int (move_end t e (pos + len) div 512) - (fsect e + int (pos div 512)) + 1) =
      move_end t e (pos + len) div 512 + 1 - pos div 512" by simp
  have fd: "fd_desc s fd = Some d" "has_flag (fd_mode (f_desc_table s d)) O_RDWR" "fd_node (f_desc_table s d) = InodeNode p"
    "i_mode e AND I_TYPE_MASK \<noteq> I_CHAR_SPECIAL" using assms(1,2) ok by (simp_all add: open_file_def file_ok_def)
  have iok: "int_ok (int pos + int len)" using assms(4) by simp
  show ?thesis
    unfolding do_rdwt_def
    by (simp only: fd Option.bind_lunit Let_def node_inode_def ptr_node.case assms(2)[symmetric] assms(3) iok if_False if_True
        not_True_eq_False disj_not1 of_nat_less_0_iff of_nat_add[symmetric] se k fsect_plus[OF ok d1(1), folded sector_nat] fsect_plus[OF ok d1(2), folded sector_nat] n[folded sector_nat] nat_int assms(4) simp_thms sector_nat[symmetric])
qed

lemma file_bytes_shift: "file_bytes s dev (sect + int q) i = file_bytes s dev sect (512 * q + i)"
proof -
  have "(512 * q + i) div 512 = q + i div 512" by simp
  then show ?thesis by (simp add: file_bytes_def add.assoc)
qed

lemma load_file_shift:
  "load_list (file_bytes s dev (sect + int (pos div 512))) (pos mod 512) n = load_list (file_bytes s dev sect) pos n"
  by (rule nth_equalityI) (simp_all add: file_bytes_shift)

text \<open>How far a read of \<open>len\<close> bytes at \<open>pos\<close> goes: to the end of the sector in which the file ends.\<close>

definition read_bytes :: "nat \<Rightarrow> nat \<Rightarrow> nat \<Rightarrow> nat" where
  "read_bytes sz pos len = min len (512 * (min (pos + len) sz div 512 + 1) - pos)"

lemma do_rdwt_read:
  assumes f: "open_file s fd d p sb" "e = inode_table s p" "fd_pos (f_desc_table s d) = int pos" "int_ok (int (pos + len))"
    and pos: "pos \<le> unat (i_size e)" and m: "m = read_bytes (unat (i_size e)) pos len"
  shows "rdwt_loop s DEV_READ (i_dev e) d buf (fsect e + int (pos div 512)) (pos mod 512) 0 (int len)
      (move_end DEV_READ e (pos + len) div 512 + 1 - pos div 512) =
    Some (set_desc s d (advance (int m)), store_list buf 0 (load_list (file_bytes s (i_dev e) (fsect e)) pos m), m)"
proof -
  let ?pe = "min (pos + len) (unat (i_size e))"
  have ok: "file_ok s sb e" using f(1,2) by (simp add: open_file_def)
  have le: "?pe div 512 \<le> unat (i_nr_sects e)" using ok by (auto simp: file_ok_def min_def)
  have pd: "pos div 512 \<le> ?pe div 512" using pos by (simp add: div_le_mono)
  have s: "sect_ok s (i_dev e) (fsect e + int (pos div 512) + int k)" if "k < ?pe div 512 + 1 - pos div 512" for k
  proof -
    have "pos div 512 + k \<le> unat (i_nr_sects e)" using that le by simp
    then have "sect_ok s (i_dev e) (fsect e + int (pos div 512 + k))" using ok unfolding file_ok_def by blast
    then show ?thesis by (simp add: add.assoc)
  qed
  have "512 * (?pe div 512 + 1 - pos div 512) - pos mod 512 = 512 * (?pe div 512 + 1) - pos"
    using pd by (simp add: diff_mult_distrib2 minus_mult_div_eq_mod[symmetric])
  then have m': "min len (512 * (?pe div 512 + 1 - pos div 512) - pos mod 512) = m" by (simp add: m read_bytes_def)
  obtain n where n: "n = ?pe div 512 + 1 - pos div 512" by blast
  show ?thesis
    unfolding move_end_def io_type.case using rdwt_loop_read[of n s "i_dev e" "fsect e + int (pos div 512)" "pos mod 512"] s m'
    unfolding n[symmetric] by (simp add: load_file_shift)
qed

text \<open>What is left to do after the loop.\<close>

lemma grow_read:
  assumes "sz < 2 ^ 31" "pos \<le> sz"
  shows "pos + read_bytes sz pos len \<le> sz \<longleftrightarrow> pos + len \<le> sz" "pos + len \<le> sz \<Longrightarrow> read_bytes sz pos len = len"
    "pos + read_bytes sz pos len \<le> pos + len" "pos + read_bytes sz pos len \<le> 512 * (sz div 512 + 1)"
proof -
  have d: "n < 512 * (n div 512 + 1)" for n :: nat by simp
  show "pos + len \<le> sz \<Longrightarrow> read_bytes sz pos len = len" using d[of "pos + len"] by (auto simp: read_bytes_def min_def)
  then show "pos + read_bytes sz pos len \<le> sz \<longleftrightarrow> pos + len \<le> sz"
    using d[of sz] assms(2) by (auto simp: read_bytes_def min_def)
  show "pos + read_bytes sz pos len \<le> pos + len" by (simp add: read_bytes_def)
  show "pos + read_bytes sz pos len \<le> 512 * (sz div 512 + 1)" 
  proof -
    obtain q where q: "q = min (pos + len) sz div 512" by blast
    have "q \<le> sz div 512" unfolding q by (rule div_le_mono) simp
    moreover have "pos + read_bytes sz pos len \<le> pos + (512 * (q + 1) - pos)" by (simp add: read_bytes_def q)
    ultimately show ?thesis using d[of sz] assms(2) by (cases "pos \<le> 512 * (q + 1)") simp_all
  qed
qed

text \<open>C18. Reading inside an open file returns exactly its bytes from the position on, moves the position behind
  them, and changes nothing else; the result is the number of bytes asked for.\<close>

theorem orange_read_inside:
  assumes "open_file s fd d p sb" "e = inode_table s p" "fd_pos (f_desc_table s d) = int pos" "pos + len \<le> unat (i_size e)"
  shows "real_read tty s fd buf (int len) = Some (set_desc s d (advance (int len)),
    store_list buf 0 (load_list (file_bytes s (i_dev e) (fsect e)) pos len), int len)"
proof -
  have ok: "file_ok s sb e" using assms(1,2) by (simp add: open_file_def)
  have sz: "unat (i_size e) < 2 ^ 31" using nr_sects_small[OF ok] ok by (simp add: file_ok_def)
  have io: "int_ok (int (pos + len))" using assms(4) sz by (simp add: int_ok_def)
  have pos: "pos \<le> unat (i_size e)" "pos \<le> 512 * unat (i_nr_sects e)" using assms(4) ok by (simp_all add: file_ok_def)
  have rb: "read_bytes (unat (i_size e)) pos len = len" by (rule grow_read(2)[OF sz pos(1) assms(4)])
  have "unat (of_int (int (pos + len)) :: u32) = pos + len" using io by (subst unat_of_int_u32) (simp_all add: int_ok_def del: of_nat_add)
  then have "\<not> i_size e < of_int (int (pos + len))" using assms(4) by (simp add: word_less_nat_alt del: of_nat_add)
  moreover have "fd_pos (advance (int len) (f_desc_table s d)) = int (pos + len)" using assms(3) by (simp add: advance_def)
  ultimately show ?thesis
    unfolding real_read_def do_rdwt_loop[OF assms(1,2,3) io pos(2)] do_rdwt_read[OF assms(1,2,3) io pos(1) refl] rb
    by (simp add: assms(2)[symmetric] del: of_nat_add)
qed

lemma grown_size:
  assumes "n < 2 ^ 31"
  shows "unat (of_int (int n) :: u32) = n" "i_size e < of_int (int n) \<longleftrightarrow> unat (i_size e) < n"
proof -
  show "unat (of_int (int n) :: u32) = n" using assms by (subst unat_of_int_u32) simp_all
  then show "i_size e < of_int (int n) \<longleftrightarrow> unat (i_size e) < n" by (simp add: word_less_nat_alt)
qed

text \<open>The size of an open file is written back: only the sixteen bytes of its inode change, in its sector.\<close>

definition inode_place :: "inode \<Rightarrow> nat" where
  "inode_place e = nat ((i_num e - 1) mod 16) * 32"

lemma sync_size:
  assumes "file_ok s sb e" "e = inode_table s p"
  shows "\<exists>m. sync_inode (set_inode s p (\<lambda>e. e\<lparr>i_size := n\<rparr>)) p =
    Some (put_blk (set_inode s p (\<lambda>e. e\<lparr>i_size := n\<rparr>)) (i_dev e) (inode_blk sb (i_num e)) m) \<and>
    inode_at (put_blk s (i_dev e) (inode_blk sb (i_num e)) m) sb (i_dev e) (i_num e) =
      zero_inode\<lparr>i_mode := i_mode e, i_size := n, i_start_sect := i_start_sect e, i_nr_sects := i_nr_sects e\<rparr> \<and>
    (\<forall>j. j < inode_place e \<or> inode_place e + 16 \<le> j \<longrightarrow>
      blk (put_blk s (i_dev e) (inode_blk sb (i_num e)) m) (i_dev e) (inode_blk sb (i_num e)) j = blk s (i_dev e) (inode_blk sb (i_num e)) j)"
proof -
  let ?s = "set_inode s p (\<lambda>e. e\<lparr>i_size := n\<rparr>)"
  let ?m = "store_inode (blk s (i_dev e) (inode_blk sb (i_num e))) (nat ((i_num e - 1) mod 16) * 32) (e\<lparr>i_size := n\<rparr>)"
  from assms(1) have i: "1 \<le> i_num e" "i_num e < 2 ^ 31" "get_super_block s (i_dev e) = Some sb"
    "sect_ok s (i_dev e) (inode_blk sb (i_num e))" by (simp_all add: file_ok_def)
  have "sync_inode ?s p = Some (put_blk ?s (i_dev e) (inode_blk sb (i_num e)) ?m)"
    using sync_inode_blk[of ?s p sb] i by (simp add: assms(2)[symmetric])
  moreover have "inode_at (put_blk s (i_dev e) (inode_blk sb (i_num e)) ?m) sb (i_dev e) (i_num e) =
      zero_inode\<lparr>i_mode := i_mode e, i_size := n, i_start_sect := i_start_sect e, i_nr_sects := i_nr_sects e\<rparr>"
    by (subst inode_at_put(1)[OF i(4,1,2) refl]) simp
  moreover have "blk (put_blk s (i_dev e) (inode_blk sb (i_num e)) ?m) (i_dev e) (inode_blk sb (i_num e)) j = blk s (i_dev e) (inode_blk sb (i_num e)) j"
    if "j < inode_place e \<or> inode_place e + 16 \<le> j" for j
    using that unfolding blk_put_same store_inode_def inode_place_def by (auto simp: block_simps blk_def)
  ultimately show ?thesis by blast
qed

lemma file_ok_set_desc: "file_ok (set_desc s d f) sb e = file_ok s sb e" for s :: "'a ostate_scheme"
  by (simp add: file_ok_def)

lemma file_ok_with: "file_ok (with_sectors s f) sb e = file_ok s sb e"
  by (simp add: file_ok_def)

text \<open>C19. Reading past the end of a file does not stop there: the bytes up to the end of the sector in which the file
  ends are returned as well, the result is still the number asked for, and the file becomes longer, in memory and on
  the disk, by the bytes read behind its end.\<close>

theorem orange_read_past_end:
  assumes "open_file s fd d p sb" "e = inode_table s p" "fd_pos (f_desc_table s d) = int pos" "int_ok (int (pos + len))"
    and "pos \<le> unat (i_size e)" "unat (i_size e) < pos + len" "m = read_bytes (unat (i_size e)) pos len"
  shows "\<exists>s'. real_read tty s fd buf (int len) =
      Some (s', store_list buf 0 (load_list (file_bytes s (i_dev e) (fsect e)) pos m), int len) \<and>
    unat (i_size e) < pos + m \<and> unat (i_size (inode_table s' p)) = pos + m \<and>
    unat (i_size (inode_at s' sb (i_dev e) (i_num e))) = pos + m"
proof -
  have ok: "file_ok s sb e" using assms(1,2) by (simp add: open_file_def)
  have sz: "unat (i_size e) < 2 ^ 31" using nr_sects_small[OF ok] ok by (simp add: file_ok_def)
  have pos: "pos \<le> 512 * unat (i_nr_sects e)" using assms(5) ok by (simp add: file_ok_def)
  have gt: "unat (i_size e) < pos + m" using grow_read(1)[OF sz assms(5), of len] assms(6,7) by simp
  have lt: "pos + m < 2 ^ 31"
    using grow_read(3)[OF sz assms(5), of len] assms(4,7) by (simp add: int_ok_def)
  obtain z where z: "z = (of_int (int (pos + m)) :: u32)" by blast
  have zu: "unat z = pos + m" unfolding z by (rule grown_size(1)[OF lt])
  have zl: "i_size e < z" using gt by (simp add: word_less_nat_alt zu)
  let ?s = "set_desc s d (advance (int m))"
  have fp: "fd_pos (f_desc_table ?s d) = int (pos + m)" using assms(3) by (simp add: advance_def)
  have e: "e = inode_table ?s p" using assms(2) by simp
  have ok': "file_ok ?s sb e" using ok by (simp only: file_ok_set_desc)
  let ?i = "set_inode ?s p (\<lambda>e. e\<lparr>i_size := z\<rparr>)"
  from sync_size[OF ok' e, of z] obtain b where
    b: "sync_inode ?i p = Some (put_blk ?i (i_dev e) (inode_blk sb (i_num e)) b)"
    "i_size (inode_at (put_blk ?s (i_dev e) (inode_blk sb (i_num e)) b) sb (i_dev e) (i_num e)) = z"
    by auto
  let ?t = "put_blk ?i (i_dev e) (inode_blk sb (i_num e)) b"
  have r: "real_read tty s fd buf (int len) = Some (?t, store_list buf 0 (load_list (file_bytes s (i_dev e) (fsect e)) pos m), int len)"
    unfolding real_read_def do_rdwt_loop[OF assms(1-4) pos] do_rdwt_read[OF assms(1-5) assms(7)]
    by (simp only: Option.bind_lunit prod.case fp e[symmetric] z[symmetric] zl b(1) if_True)
  have "inode_at ?t sb (i_dev e) (i_num e) = inode_at (put_blk ?s (i_dev e) (inode_blk sb (i_num e)) b) sb (i_dev e) (i_num e)"
    unfolding put_set_inode inode_at_def set_inode_eqs ..
  then have "unat (i_size (inode_at ?t sb (i_dev e) (i_num e))) = pos + m" unfolding b(2) using b(2) zu by metis
  moreover have "unat (i_size (inode_table ?t p)) = pos + m" using zu by simp
  ultimately show ?thesis using gt r by blast
qed

lemma do_rdwt_write:
  assumes f: "open_file s fd d p sb" "e = inode_table s p" and fit: "pos + len \<le> 512 * unat (i_nr_sects e)"
  shows "\<exists>f. rdwt_loop s DEV_WRITE (i_dev e) d buf (fsect e + int (pos div 512)) (pos mod 512) 0 (int len)
      (move_end DEV_WRITE e (pos + len) div 512 + 1 - pos div 512) =
      Some (set_desc (with_sectors s f) d (advance (int len)), buf, len) \<and>
    (\<forall>j < 512 * unat (i_nr_sects e). file_bytes (with_sectors s f) (i_dev e) (fsect e) j =
      (if pos \<le> j \<and> j < pos + len then buf (j - pos) else file_bytes s (i_dev e) (fsect e) j)) \<and>
    (\<forall>l. (\<forall>k < unat (i_nr_sects e). l \<noteq> lba_of s (i_dev e) (fsect e + int k)) \<longrightarrow> f l = sectors (disk (hds s)) l)"
proof -
  let ?q = "pos div 512" and ?nr = "unat (i_nr_sects e)" and ?dev = "i_dev e"
  obtain n where n: "n = (pos + len) div 512 + 1 - ?q" by blast
  have ok: "file_ok s sb e" using f by (simp add: open_file_def)
  have le: "(pos + len) div 512 \<le> ?nr" using fit by simp
  have pd: "?q \<le> (pos + len) div 512" by (simp add: div_le_mono)
  have qn: "?q + k \<le> ?nr" if "k < n" for k using that le n by simp
  have sok: "sect_ok s ?dev (fsect e + int k)" if "k \<le> ?nr" for k using ok that unfolding file_ok_def by blast
  have s: "sect_ok s ?dev (fsect e + int ?q + int k)" if "k < n" for k
    using sok[OF qn[OF that]] by (simp add: add.assoc)
  have "512 * n - pos mod 512 = 512 * ((pos + len) div 512 + 1) - pos"
    using pd by (simp add: n diff_mult_distrib2 minus_mult_div_eq_mod[symmetric])
  moreover have "pos + len < 512 * ((pos + len) div 512 + 1)" by simp
  ultimately have m: "min len (512 * n - pos mod 512) = len" by linarith
  have me: "move_end DEV_WRITE e (pos + len) = pos + len" using fit by (simp add: move_end_def)
  from rdwt_loop_write[of n s ?dev "fsect e + int ?q" "pos mod 512" d buf 0 len] s obtain g where
    g: "rdwt_loop s DEV_WRITE ?dev d buf (fsect e + int ?q) (pos mod 512) 0 (int len) n =
      Some (set_desc (with_sectors s g) d (advance (int len)), buf, len)"
    and cont: "\<And>j. j < 512 * n \<Longrightarrow> file_bytes (with_sectors s g) ?dev (fsect e + int ?q) j =
      (if pos mod 512 \<le> j \<and> j < pos mod 512 + len then buf (j - pos mod 512) else file_bytes s ?dev (fsect e + int ?q) j)"
    and frame: "\<And>l. (\<forall>k < n. 512 * k < pos mod 512 + len \<longrightarrow> l \<noteq> lba_of s ?dev (fsect e + int ?q + int k)) \<Longrightarrow> g l = sectors (disk (hds s)) l"
    unfolding m by auto
  have "file_bytes (with_sectors s g) ?dev (fsect e) j =
      (if pos \<le> j \<and> j < pos + len then buf (j - pos) else file_bytes s ?dev (fsect e) j)" if j: "j < 512 * ?nr" for j
  proof (cases "?q \<le> j div 512 \<and> j div 512 < ?q + n")
    case True
    obtain i where i: "i = j - 512 * ?q" by blast
    have ge: "512 * ?q \<le> j" using True by (simp add: less_eq_div_iff_mult_less_eq)
    have "j < 512 * (?q + n)" using True by (simp add: div_less_iff_less_mult mult.commute)
    then have "i < 512 * n" "j = 512 * ?q + i" using ge by (simp_all add: i distrib_left)
    moreover have "pos = 512 * ?q + pos mod 512" by simp
    ultimately show ?thesis using cont[of i] unfolding file_bytes_shift by (smt (verit) add_diff_cancel_left add_le_cancel_left add_less_cancel_left add.assoc)
  next
    case False
    then have out: "\<not> (pos \<le> j \<and> j < pos + len)" using div_le_mono[of pos j 512] div_le_mono[of j "pos + len" 512] pd n by auto
    have "lba_of s ?dev (fsect e + int (j div 512)) \<noteq> lba_of s ?dev (fsect e + int ?q + int k)" if "k < n" for k
    proof -
      have "j div 512 \<noteq> ?q + k" using False that by auto
      moreover have "sect_ok s ?dev (fsect e + int (j div 512))" using j by (intro sok) (simp add: less_mult_imp_div_less less_imp_le)
      ultimately show ?thesis using lba_of_inject[OF _ s[OF that]] by (simp add: add.assoc)
    qed
    then have "g (lba_of s ?dev (fsect e + int (j div 512))) = sectors (disk (hds s)) (lba_of s ?dev (fsect e + int (j div 512)))"
      by (intro frame) blast
    then have "file_bytes (with_sectors s g) ?dev (fsect e) j = file_bytes s ?dev (fsect e) j"
      by (simp add: file_bytes_def blk_with) (simp add: blk_def)
    with out show ?thesis by auto
  qed
  moreover have "g l = sectors (disk (hds s)) l" if l: "\<forall>k < ?nr. l \<noteq> lba_of s ?dev (fsect e + int k)" for l
  proof (rule frame, intro allI impI)
    fix k assume k: "512 * k < pos mod 512 + len"
    have "512 * (?q + k) = ?q * 512 + 512 * k" by simp
    then have "512 * (?q + k) < pos + len" using k div_mult_mod_eq[of pos 512] by linarith
    then have "512 * (?q + k) < 512 * ?nr" using fit by (rule less_le_trans)
    then have "?q + k < ?nr" by (simp only: mult_less_cancel1)
    then show "l \<noteq> lba_of s ?dev (fsect e + int ?q + int k)" using l by (metis add.assoc of_nat_add)
  qed
  ultimately show ?thesis unfolding me n[symmetric] by (intro exI[of _ g] conjI allI impI g) blast+
qed

text \<open>C13. Writing to an open file within the sectors it has replaces exactly its bytes from the position on by those
  of the buffer and returns their number; the size becomes the end of what was written when that lies behind the old
  end, in memory and in the inode on the disk. Nothing else changes: on the disk only the sectors of the file and, in the sector of its inode, the
  sixteen bytes of that; in memory only the size in the inode and the position in the descriptor.\<close>

theorem orange_write_bytes:
  assumes "open_file s fd d p sb" "e = inode_table s p" "fd_pos (f_desc_table s d) = int pos"
    and fit: "pos + len \<le> 512 * unat (i_nr_sects e)"
  shows "\<exists>s'. real_write tty s fd buf (int len) = Some (s', int len) \<and>
    f_desc_table s' = (f_desc_table s)(d := (f_desc_table s d)\<lparr>fd_pos := int (pos + len)\<rparr>) \<and> filp s' = filp s \<and>
    (\<exists>z. inode_table s' = (inode_table s)(p := e\<lparr>i_size := z\<rparr>) \<and> unat z = max (unat (i_size e)) (pos + len) \<and>
      (unat (i_size e) < pos + len \<longrightarrow> inode_at s' sb (i_dev e) (i_num e) =
         zero_inode\<lparr>i_mode := i_mode e, i_size := z, i_start_sect := i_start_sect e, i_nr_sects := i_nr_sects e\<rparr>)) \<and>
    (\<forall>j < 512 * unat (i_nr_sects e). file_bytes s' (i_dev e) (fsect e) j =
      (if pos \<le> j \<and> j < pos + len then buf (j - pos) else file_bytes s (i_dev e) (fsect e) j)) \<and>
    (\<forall>j. j < inode_place e \<or> inode_place e + 16 \<le> j \<longrightarrow>
      blk s' (i_dev e) (inode_blk sb (i_num e)) j = blk s (i_dev e) (inode_blk sb (i_num e)) j) \<and>
    (\<forall>dev n. lba_of s dev n \<noteq> lba_of s (i_dev e) (inode_blk sb (i_num e)) \<and>
       (\<forall>k < unat (i_nr_sects e). lba_of s dev n \<noteq> lba_of s (i_dev e) (fsect e + int k)) \<longrightarrow> blk s' dev n = blk s dev n)"
proof -
  let ?ib = "inode_blk sb (i_num e)" and ?dev = "i_dev e"
  have ok: "file_ok s sb e" using assms(1,2) by (simp add: open_file_def)
  have lt: "pos + len < 2 ^ 31" using nr_sects_small[OF ok] fit by simp
  have io: "int_ok (int (pos + len))" using lt by (simp add: int_ok_def)
  have pos: "pos \<le> 512 * unat (i_nr_sects e)" using fit by simp
  from do_rdwt_write[OF assms(1,2,4), of buf] obtain g where
    g: "rdwt_loop s DEV_WRITE ?dev d buf (fsect e + int (pos div 512)) (pos mod 512) 0 (int len)
      (move_end DEV_WRITE e (pos + len) div 512 + 1 - pos div 512) = Some (set_desc (with_sectors s g) d (advance (int len)), buf, len)"
    and cont: "\<forall>j < 512 * unat (i_nr_sects e). file_bytes (with_sectors s g) ?dev (fsect e) j =
      (if pos \<le> j \<and> j < pos + len then buf (j - pos) else file_bytes s ?dev (fsect e) j)"
    and frame: "\<And>l. (\<forall>k < unat (i_nr_sects e). l \<noteq> lba_of s ?dev (fsect e + int k)) \<Longrightarrow> g l = sectors (disk (hds s)) l" by blast
  let ?s = "set_desc (with_sectors s g) d (advance (int len))"
  have fp: "fd_pos (f_desc_table ?s d) = int (pos + len)" using assms(3) by (simp add: advance_def)
  have fd: "f_desc_table ?s = (f_desc_table s)(d := (f_desc_table s d)\<lparr>fd_pos := int (pos + len)\<rparr>)" "filp ?s = filp s"
    using assms(3) by (simp_all add: advance_def) (simp add: set_desc_def with_sectors_def)
  have e: "e = inode_table ?s p" using assms(2) by simp
  have fr: "blk ?s dev n = blk s dev n" if "\<forall>k < unat (i_nr_sects e). lba_of s dev n \<noteq> lba_of s ?dev (fsect e + int k)" for dev n
    unfolding set_desc_eqs blk_with frame[OF that] by (simp add: blk_def)
  have apart: "lba_of s ?dev (fsect e + int k) \<noteq> lba_of s ?dev ?ib" if "k \<le> unat (i_nr_sects e)" for k
    using ok that lba_of_inject[of s ?dev "fsect e + int k" ?ib] unfolding file_ok_def by blast
  then have ibs: "blk ?s ?dev ?ib = blk s ?dev ?ib" by (intro fr) (metis less_imp_le)
  have fb: "file_bytes ?s ?dev (fsect e) = file_bytes (with_sectors s g) ?dev (fsect e)" by simp
  note call = do_rdwt_loop[OF assms(1-3) io pos, of tty DEV_WRITE buf]
  show ?thesis
  proof (cases "unat (i_size e) < pos + len")
    case False
    have "real_write tty s fd buf (int len) = Some (?s, int len)"
      unfolding real_write_def call g using False by (simp only: Option.bind_lunit prod.case fp e[symmetric] grown_size(2)[OF lt] if_False)
    moreover have "inode_table ?s = (inode_table s)(p := e\<lparr>i_size := i_size e\<rparr>)" using assms(2) by simp
    moreover have "unat (i_size e) = max (unat (i_size e)) (pos + len)" using False by simp
    moreover have "\<forall>j < 512 * unat (i_nr_sects e). file_bytes ?s ?dev (fsect e) j =
      (if pos \<le> j \<and> j < pos + len then buf (j - pos) else file_bytes s ?dev (fsect e) j)" unfolding fb by (rule cont)
    ultimately show ?thesis
      by (intro exI[of _ ?s] conjI exI[of _ "i_size e"] impI allI) (use fd fr ibs False in metis)+
  next
    case True
    obtain z where z: "z = (of_int (int (pos + len)) :: u32)" by blast
    have zu: "unat z = pos + len" unfolding z by (rule grown_size(1)[OF lt])
    have zl: "i_size e < z" using True by (simp add: word_less_nat_alt zu)
    have ok': "file_ok ?s sb e" using ok by (simp only: file_ok_set_desc file_ok_with)
    let ?i = "set_inode ?s p (\<lambda>e. e\<lparr>i_size := z\<rparr>)"
    from sync_size[OF ok' e, of z] obtain b where
      b: "sync_inode ?i p = Some (put_blk ?i ?dev ?ib b)"
      "inode_at (put_blk ?s ?dev ?ib b) sb ?dev (i_num e) =
        zero_inode\<lparr>i_mode := i_mode e, i_size := z, i_start_sect := i_start_sect e, i_nr_sects := i_nr_sects e\<rparr>"
      "\<forall>j. j < inode_place e \<or> inode_place e + 16 \<le> j \<longrightarrow> blk (put_blk ?s ?dev ?ib b) ?dev ?ib j = blk ?s ?dev ?ib j"
      by blast
    let ?t = "put_blk ?i ?dev ?ib b"
    have r: "real_write tty s fd buf (int len) = Some (?t, int len)"
      unfolding real_write_def call g by (simp only: Option.bind_lunit prod.case fp e[symmetric] z[symmetric] zl b(1) if_True)
    have bt: "blk ?t dev n = blk (put_blk ?s ?dev ?ib b) dev n" for dev n
      unfolding put_set_inode set_inode_eqs ..
    have at: "inode_at ?t sb ?dev (i_num e) =
        zero_inode\<lparr>i_mode := i_mode e, i_size := z, i_start_sect := i_start_sect e, i_nr_sects := i_nr_sects e\<rparr>"
      using b(2) unfolding inode_at_def bt .
    have keep: "blk ?t dev n = blk ?s dev n" if "lba_of s dev n \<noteq> lba_of s ?dev ?ib" for dev n
      unfolding bt by (rule blk_put_other) (use that in simp)
    have fbt: "file_bytes ?t ?dev (fsect e) j = file_bytes ?s ?dev (fsect e) j" if "j < 512 * unat (i_nr_sects e)" for j
      unfolding file_bytes_def by (subst keep) (use that apart in \<open>auto simp: less_mult_imp_div_less less_imp_le\<close>)
    have tab: "inode_table ?t = (inode_table s)(p := e\<lparr>i_size := z\<rparr>)" using assms(2) by simp
    have fdt: "f_desc_table ?t = (f_desc_table s)(d := (f_desc_table s d)\<lparr>fd_pos := int (pos + len)\<rparr>)" "filp ?t = filp s"
      using fd by (simp_all add: put_blk_def set_inode_def)
    have mx: "unat z = max (unat (i_size e)) (pos + len)" using zu True by simp
    have ibt: "\<forall>j. j < inode_place e \<or> inode_place e + 16 \<le> j \<longrightarrow> blk ?t ?dev ?ib j = blk s ?dev ?ib j"
      using b(3) unfolding bt ibs .
    have frt: "blk ?t dev n = blk s dev n" if "lba_of s dev n \<noteq> lba_of s ?dev ?ib \<and>
       (\<forall>k < unat (i_nr_sects e). lba_of s dev n \<noteq> lba_of s ?dev (fsect e + int k))" for dev n
      using keep[of dev n] fr[of dev n] that by simp
    have ct: "\<forall>j < 512 * unat (i_nr_sects e). file_bytes ?t ?dev (fsect e) j =
      (if pos \<le> j \<and> j < pos + len then buf (j - pos) else file_bytes s ?dev (fsect e) j)" using fbt cont unfolding fb by simp
    show ?thesis
      by (intro exI[of _ ?t] conjI exI[of _ z] allI impI) (use r fdt tab mx at frt ct ibt in blast)+
  qed
qed

subsection \<open>Seeking\<close>

text \<open>C20. A seek either fails with -1 and changes nothing, or it moves the position, and only that, to the place asked
  for, which is never before the start of the file nor behind its end.\<close>

theorem orange_lseek_bounds:
  assumes "real_lseek s fd off whence = Some (s', r)" "fd_desc s fd = Some d" "fd_node (f_desc_table s d) = InodeNode p"
  shows "r = - 1 \<and> s' = s \<or>
    0 \<le> r \<and> r \<le> sint (i_size (inode_table s p)) \<and> s' = set_desc s d (\<lambda>e. e\<lparr>fd_pos := r\<rparr>) \<and>
    (whence, r) \<in> {(SEEK_SET, off), (SEEK_CUR, fd_pos (f_desc_table s d) + off), (SEEK_END, sint (i_size (inode_table s p)) + off)}"
  using assms by (auto simp: real_lseek_def do_lseek_def node_inode_def Let_def split: if_splits)

subsection \<open>Searching the directory\<close>

fun first_from :: "(nat \<Rightarrow> bool) \<Rightarrow> nat \<Rightarrow> nat \<Rightarrow> nat option" where
  "first_from P a 0 = None"
| "first_from P a (Suc n) = (if P a then Some a else first_from P (a + 1) n)"

lemma first_from_append:
  "first_from P a (n + k) = (case first_from P a n of None \<Rightarrow> first_from P (a + n) k | Some x \<Rightarrow> Some x)"
  by (induction n arbitrary: a) (simp_all split: option.split)

lemma first_from_spec:
  "case first_from P a n of None \<Rightarrow> \<forall>i. a \<le> i \<and> i < a + n \<longrightarrow> \<not> P i
    | Some k \<Rightarrow> a \<le> k \<and> k < a + n \<and> P k \<and> (\<forall>i. a \<le> i \<and> i < k \<longrightarrow> \<not> P i)"
proof (induction n arbitrary: a)
  case (Suc n)
  have "a \<le> i \<longleftrightarrow> i = a \<or> a + 1 \<le> i" for i by auto
  then show ?case using Suc[of "a + 1"] by (auto split: option.splits)
qed auto

definition entry_name :: "'a ostate_scheme \<Rightarrow> inode \<Rightarrow> nat \<Rightarrow> u8 list" where
  "entry_name s dir k = load_list (blk s (i_dev dir) (fsect dir + int (k div 32))) (k mod 32 * 16 + 4) 12"

definition entry_inode :: "'a ostate_scheme \<Rightarrow> inode \<Rightarrow> nat \<Rightarrow> int" where
  "entry_inode s dir k = sint (load32 (blk s (i_dev dir) (fsect dir + int (k div 32))) (k mod 32 * 16))"

lemma memcmp_0: "memcmp m1 p1 m2 p2 n = 0 \<longleftrightarrow> load_list m1 p1 n = load_list m2 p2 n"
  by (induction m1 p1 m2 p2 n rule: memcmp.induct) (auto simp: load_list_Suc word_eq_iff_signed[symmetric])

lemma search_entries_first:
  assumes "m = 32 * i + j" "j + n = 32" "m \<le> nr"
  shows "search_entries (blk s (i_dev dir) (fsect dir + int i)) f (int nr) j m n =
    (case first_from (\<lambda>k. entry_name s dir k = load_list f 0 12) m (min n (nr + 1 - m)) of
       Some k \<Rightarrow> Inl (entry_inode s dir k) | None \<Rightarrow> Inr (m + min n (nr + 1 - m)))"
  using assms
proof (induction n arbitrary: j m)
  case (Suc n)
  have jm: "m div 32 = i" "m mod 32 = j" using Suc.prems by simp_all
  have mn: "min (Suc n) (nr + 1 - m) = Suc (min n (nr - m))" using Suc.prems(3) by simp
  have cmp: "memcmp f 0 (blk s (i_dev dir) (fsect dir + int i)) (j * DIR_ENTRY_SIZE + 4) MAX_FILENAME_LEN = 0 \<longleftrightarrow>
      entry_name s dir m = load_list f 0 12"
    by (auto simp: memcmp_0 entry_name_def jm DIR_ENTRY_SIZE_def MAX_FILENAME_LEN_def)
  show ?case
  proof (cases "entry_name s dir m = load_list f 0 12")
    case True
    then show ?thesis unfolding mn by (simp add: cmp[unfolded DIR_ENTRY_SIZE_def] entry_inode_def jm DIR_ENTRY_SIZE_def)
  next
    case False
    show ?thesis
    proof (cases "m < nr")
      case True
      have "search_entries (blk s (i_dev dir) (fsect dir + int i)) f (int nr) (j + 1) (m + 1) n =
        (case first_from (\<lambda>k. entry_name s dir k = load_list f 0 12) (m + 1) (min n (nr - m)) of
           Some k \<Rightarrow> Inl (entry_inode s dir k) | None \<Rightarrow> Inr (m + 1 + min n (nr - m)))"
      proof -
        have d: "nr + 1 - (m + 1) = nr - m" by simp
        show ?thesis using Suc.IH[of "m + 1" "j + 1"] Suc.prems True unfolding d by linarith
      qed
      then show ?thesis unfolding mn using False True by (simp add: cmp cong: option.case_cong)
    next
      case f: False
      with Suc.prems(3) have "nr - m = 0" "\<not> m < nr" by simp_all
      then show ?thesis unfolding mn using False by (simp add: cmp)
    qed
  qed
qed simp

lemma search_blocks_first:
  assumes "\<And>k. k < n \<Longrightarrow> sect_ok s (i_dev dir) (fsect dir + int (i + k))" "32 * i \<le> nr"
  shows "search_blocks s (i_dev dir) (fsect dir) f (int nr) i (32 * i) n =
    (case first_from (\<lambda>k. entry_name s dir k = load_list f 0 12) (32 * i) (min (32 * n) (nr + 1 - 32 * i)) of
       Some k \<Rightarrow> Some (entry_inode s dir k) | None \<Rightarrow> Some 0)"
  using assms
proof (induction n arbitrary: i)
  case (Suc n)
  let ?P = "\<lambda>k. entry_name s dir k = load_list f 0 12"
  have ok: "sect_ok s (i_dev dir) (fsect dir + int i)" using Suc.prems(1)[of 0] by simp
  have e: "search_entries (blk s (i_dev dir) (fsect dir + int i)) f (int nr) 0 (32 * i) 32 =
    (case first_from ?P (32 * i) (min 32 (nr + 1 - 32 * i)) of
       Some k \<Rightarrow> Inl (entry_inode s dir k) | None \<Rightarrow> Inr (32 * i + min 32 (nr + 1 - 32 * i)))"
    by (rule search_entries_first) (use Suc.prems(2) in simp_all)
  have b: "search_blocks s (i_dev dir) (fsect dir) f (int nr) i (32 * i) (Suc n) =
    (case first_from ?P (32 * i) (min 32 (nr + 1 - 32 * i)) of
       Some k \<Rightarrow> Some (entry_inode s dir k)
     | None \<Rightarrow> if 32 * i + min 32 (nr + 1 - 32 * i) > nr then Some 0
         else search_blocks s (i_dev dir) (fsect dir) f (int nr) (i + 1) (32 * i + min 32 (nr + 1 - 32 * i)) n)"
  proof -
    have d: "SECTOR_SIZE div DIR_ENTRY_SIZE = 32" by (simp add: DIR_ENTRY_SIZE_def)
    show ?thesis
      by (cases "first_from ?P (32 * i) (min 32 (nr + 1 - 32 * i))")
        (simp_all only: search_blocks.simps rd_sect_blk[OF ok] Option.bind_lunit d e option.case sum.case of_nat_less_iff)
  qed
  show ?case
  proof (cases "32 * (i + 1) \<le> nr")
    case False
    then have m: "min 32 (nr + 1 - 32 * i) = nr + 1 - 32 * i" "min (32 * Suc n) (nr + 1 - 32 * i) = nr + 1 - 32 * i"
      using Suc.prems(2) by simp_all
    show ?thesis unfolding b m using Suc.prems(2) by (simp split: option.split)
  next
    case True
    have m: "min 32 (nr + 1 - 32 * i) = 32" "min (32 * Suc n) (nr + 1 - 32 * i) = 32 + min (32 * n) (nr + 1 - 32 * (i + 1))"
      "\<not> nr < 32 * i + 32" "32 * i + 32 = 32 * (i + 1)" using True by simp_all
    have "search_blocks s (i_dev dir) (fsect dir) f (int nr) (i + 1) (32 * (i + 1)) n =
      (case first_from ?P (32 * (i + 1)) (min (32 * n) (nr + 1 - 32 * (i + 1))) of
         Some k \<Rightarrow> Some (entry_inode s dir k) | None \<Rightarrow> Some 0)"
      by (rule Suc.IH) (use Suc.prems(1)[of "Suc _"] True in simp_all)
    then show ?thesis unfolding b m first_from_append by (simp only: m split: option.split) auto
  qed
qed simp

lemma strip_loop_name:
  assumes "holds_str path i xs" "slash \<notin> set xs"
  shows "strip_loop f path i t n = (store_list f t (take n xs @ [0]), 0)"
  using assms
proof (induction n arbitrary: f i t xs)
  case 0
  then show ?case by (simp add: store_list_Cons fun_upd_def)
next
  case (Suc n)
  then show ?case by (cases xs) (auto simp: store_list_Cons fun_upd_def)
qed

text \<open>The name as a directory entry has it: twelve bytes, the rest of a shorter name zero.\<close>

definition entry_of :: "u8 list \<Rightarrow> u8 list" where
  "entry_of name = take 12 (name @ replicate 12 0)"

lemma strip_path_name:
  assumes "name \<noteq> []" "0 \<notin> set name" "slash \<notin> set name" "path = cstr name \<or> path = cstr (slash # name)"
  shows "\<exists>f. strip_path (\<lambda>_. 0) path = (f, 0) \<and> load_list f 0 12 = entry_of name \<and> f 0 \<noteq> 0"
proof -
  obtain i where i: "i = (if path 0 = slash then 1 else 0 :: nat)" "holds_str path i name"
  proof (cases "path = cstr name")
    case True
    have "hd name \<noteq> slash" using assms(1,3) by (cases name) auto
    then have "path 0 \<noteq> slash" using assms(1) by (simp add: True cstr_def hd_conv_nth)
    then show ?thesis using that[of 0] holds_str_cstr[OF assms(2)] True by simp
  next
    case False
    then have p: "path = cstr (slash # name)" using assms(4) by blast
    then have "path 0 = slash" by (simp add: cstr_def)
    moreover have "holds_str path 1 name"
      using holds_str_cstr[of "slash # name"] assms(2) by (simp add: p slash_def)
    ultimately show ?thesis using that[of 1] by simp
  qed
  let ?f = "store_list (\<lambda>_. 0) 0 (take 12 name @ [0])"
  have "strip_path (\<lambda>_. 0) path = (?f, 0)"
    unfolding strip_path_def i(1)[symmetric] strip_loop_name[OF i(2) assms(3)] by (simp add: MAX_FILENAME_LEN_def)
  moreover have "load_list ?f 0 12 = entry_of name"
    by (rule nth_equalityI) (auto simp: entry_of_def store_list_def nth_append)
  moreover have "?f 0 \<noteq> 0" using assms(1,2) by (cases name) (auto simp: store_list_def)
  ultimately show ?thesis by blast
qed

text \<open>C16. \<^verbatim>\<open>search_file\<close> finds the first entry of the root directory whose twelve bytes are the name, with or
  without a slash before it, and returns its inode number, or 0 when there is none. It looks at all entries the
  size of the directory covers and at the one behind them, if that lies in the last sector.\<close>

theorem search_file_finds:
  assumes "root_inode s = Some d" "dir = inode_table s d" "unat (i_size dir) < 2 ^ 31"
    and "name \<noteq> []" "0 \<notin> set name" "slash \<notin> set name" "path = cstr name \<or> path = cstr (slash # name)"
    and blks: "\<And>k. k < (unat (i_size dir) + 511) div 512 \<Longrightarrow> sect_ok s (i_dev dir) (fsect dir + int k)"
    and n: "n = min (32 * ((unat (i_size dir) + 511) div 512)) (unat (i_size dir) div 16 + 1)"
  shows "\<exists>r. search_file s path = Some r \<and>
    ((\<exists>k < n. entry_name s dir k = entry_of name \<and> (\<forall>i < k. entry_name s dir i \<noteq> entry_of name) \<and> r = entry_inode s dir k) \<or>
     (\<forall>k < n. entry_name s dir k \<noteq> entry_of name) \<and> r = 0)"
proof -
  from strip_path_name[OF assms(4-7)] obtain f where f: "strip_path (\<lambda>_. 0) path = (f, 0)" "load_list f 0 12 = entry_of name" "f 0 \<noteq> 0" by blast
  let ?sz = "unat (i_size dir)"
  have b: "sint ((i_size dir + of_nat SECTOR_SIZE - 1) div of_nat SECTOR_SIZE) = int ((?sz + 511) div 512)"
  proof -
    have "i_size dir + of_nat SECTOR_SIZE - 1 = i_size dir + 511" by simp
    moreover have "unat (i_size dir + 511) = ?sz + 511" using assms(3) by (subst unat_plus_no_wrap) simp_all
    ultimately have "unat ((i_size dir + of_nat SECTOR_SIZE - 1) div of_nat SECTOR_SIZE) = (?sz + 511) div 512" by (simp only: unat_div) simp
    then show ?thesis using assms(3) by (subst sint_small) (simp_all add: div_less_iff_less_mult)
  qed
  have e: "sint (i_size dir div of_nat DIR_ENTRY_SIZE) = int (?sz div 16)"
  proof -
    have "unat (i_size dir div of_nat DIR_ENTRY_SIZE) = ?sz div 16" by (simp add: unat_div DIR_ENTRY_SIZE_def)
    then show ?thesis using assms(3) by (subst sint_small) (simp_all add: div_less_iff_less_mult)
  qed
  have "search_file s path = search_blocks s (i_dev dir) (fsect dir) f (int (?sz div 16)) 0 0 ((?sz + 511) div 512)"
    unfolding search_file_def f(1) Let_def assms(1) using f(3) by (simp only: prod.case simp_thms if_False Option.bind_lunit assms(2)[symmetric] b e nat_int fsect_def)
  also have "\<dots> = (case first_from (\<lambda>k. entry_name s dir k = entry_of name) 0 n of Some k \<Rightarrow> Some (entry_inode s dir k) | None \<Rightarrow> Some 0)"
    using search_blocks_first[of "(?sz + 511) div 512" s dir 0 "?sz div 16" f] blks unfolding f(2) n by simp
  finally show ?thesis using first_from_spec[of 0 n "\<lambda>k. entry_name s dir k = entry_of name"] by (auto split: option.splits)
qed

subsection \<open>The properties on a small disk\<close>

lemma demo_root: "inode_table demo_os 0 = \<lparr>i_mode = I_DIRECTORY, i_size = 80, i_start_sect = 261, i_nr_sects = 2048, i_dev = 0x301, i_cnt = 1, i_num = 1\<rparr>"
  and demo_file: "inode_table demo_os 1 = \<lparr>i_mode = I_REGULAR, i_size = 700, i_start_sect = 2309, i_nr_sects = 2048, i_dev = 0x301, i_cnt = 1, i_num = 6\<rparr>"
  by (simp_all add: demo_os_def)

lemmas demo_files = demo_file demo_file[unfolded One_nat_def]

lemma demo_file_open: "open_file demo_os 0 0 1 (mkfs_super_block 0x301 0x1000)"
proof -
  have b: "inode_blk (mkfs_super_block 0x301 0x1000) 6 = 5" by code_simp
  have m: "I_REGULAR AND I_TYPE_MASK \<noteq> I_CHAR_SPECIAL" by (simp add: I_REGULAR_def I_TYPE_MASK_def I_CHAR_SPECIAL_def)
  have f: "fsect (inode_table demo_os 1) = 2309" by (simp add: demo_files fsect_def)
  have "file_ok demo_os (mkfs_super_block 0x301 0x1000) (inode_table demo_os 1)"
    unfolding file_ok_def f by (simp add: demo_files m b demo_os_sb demo_os_sect)
  then show ?thesis
    by (simp add: open_file_def demo_os_def fd_desc_def fd_slot_def NR_FILES_def zero_desc_def has_flag_def O_RDWR_def)
qed

lemma demo_pos: "fd_pos (f_desc_table demo_os 0) = int 100"
  by (simp add: demo_os_def zero_desc_def)

definition demo_tty :: "(unit ostate_scheme) tty_ops" where
  "demo_tty = \<lparr>op_tty_read = (\<lambda>s n buf len. Some (s, buf, 0)), op_tty_write = (\<lambda>s n buf len. Some s)\<rparr>"

theorem orange_read_inside_witness:
  "real_read demo_tty demo_os 0 (\<lambda>_. 1) (int 600) = Some (set_desc demo_os 0 (advance (int 600)),
    store_list (\<lambda>_. 1) 0 (load_list (file_bytes demo_os 0x301 2309) 100 600), int 600)"
  using orange_read_inside[OF demo_file_open refl demo_pos, of 600 demo_tty "\<lambda>_. 1"] by (simp add: demo_files fsect_def)

theorem orange_read_past_end_witness:
  "\<exists>s'. real_read demo_tty demo_os 0 (\<lambda>_. 1) (int 700) =
      Some (s', store_list (\<lambda>_. 1) 0 (load_list (file_bytes demo_os 0x301 2309) 100 700), int 700) \<and> unat (i_size (inode_table s' 1)) = 800"
  using orange_read_past_end[OF demo_file_open refl demo_pos, of 700 700 demo_tty "\<lambda>_. 1"]
  by (auto simp: demo_files fsect_def read_bytes_def int_ok_def)

theorem orange_write_bytes_witness:
  "\<exists>s'. real_write demo_tty demo_os 0 (\<lambda>_. 7) (int 1000) = Some (s', int 1000) \<and> unat (i_size (inode_table s' 1)) = 1100 \<and>
    file_bytes s' 0x301 2309 1099 = 7"
  using orange_write_bytes[OF demo_file_open refl demo_pos, of 1000 demo_tty "\<lambda>_. 7"]
  by (auto simp: demo_files fsect_def dest: spec[where x = 1099])

theorem orange_lseek_bounds_witness:
  "\<exists>s' r. real_lseek demo_os 0 5 SEEK_CUR = Some (s', r) \<and> 0 \<le> r \<and> r \<le> 700"
proof -
  have d: "fd_desc demo_os 0 = Some 0" "fd_node (f_desc_table demo_os 0) = InodeNode 1"
    using demo_file_open by (simp_all add: open_file_def)
  have r: "real_lseek demo_os 0 5 SEEK_CUR = Some (set_desc demo_os 0 (\<lambda>e. e\<lparr>fd_pos := 105\<rparr>), 105)"
    by (simp add: real_lseek_def do_lseek_def d node_inode_def demo_pos demo_files SEEK_CUR_def SEEK_SET_def int_ok_def Let_def)
  show ?thesis using orange_lseek_bounds[OF r d] r by (auto simp: demo_files)
qed

theorem search_file_finds_witness:
  "search_file demo_os (cstr (lit ''/x'')) = Some 0"
proof -
  have z: "load_list (blk demo_os 0x301 (261 + int (k div 32))) a 12 = replicate 12 0" for k a
    by (rule nth_equalityI) (simp_all add: blk_def demo_os_def demo_sys_def demo_disk_def)
  have "entry_name demo_os (inode_table demo_os 0) k = replicate 12 0" for k
    unfolding entry_name_def by (simp add: demo_root fsect_def z)
  moreover have "entry_of (lit ''x'') \<noteq> replicate 12 0" by code_simp
  moreover have "\<exists>r. search_file demo_os (cstr (lit ''/x'')) = Some r \<and>
    ((\<exists>k < 6. entry_name demo_os (inode_table demo_os 0) k = entry_of (lit ''x'') \<and>
        (\<forall>i < k. entry_name demo_os (inode_table demo_os 0) i \<noteq> entry_of (lit ''x'')) \<and> r = entry_inode demo_os (inode_table demo_os 0) k) \<or>
     (\<forall>k < 6. entry_name demo_os (inode_table demo_os 0) k \<noteq> entry_of (lit ''x'')) \<and> r = 0)"
    by (rule search_file_finds[of demo_os 0])
      (simp_all add: demo_root fsect_def lit_def slash_def demo_os_sect, simp add: demo_os_def)
  ultimately show ?thesis by simp
qed

end
