(* ===== verification/FatPath.thy ===== *)
theory FatPath
  imports CString
begin

text \<open>
  The helpers of the FAT32 file system on paths and names, \<^verbatim>\<open>kernel/assist.c\<close>. The current directory is the
  global \<^verbatim>\<open>cur_path\<close>, an argument here. A path has the parts \<^verbatim>\<open>V:\dir\name\<close>; the buffers that hold paths
  and names have 256 bytes, and a function that writes a name does not end it with a zero: it relies on a
  buffer of zeros. Writing outside a buffer, or reading in front of it, is \<open>None\<close>.
\<close>

definition BACKSLASH :: u8 where "BACKSLASH = 0x5C"
definition PATH_BUF :: nat where "PATH_BUF = 256"

subsection \<open>Copying into a buffer\<close>

fun copy_chars :: "bytes \<Rightarrow> nat \<Rightarrow> bytes \<Rightarrow> nat \<Rightarrow> nat \<Rightarrow> bytes option" where
  "copy_chars dst i src j 0 = Some dst"
| "copy_chars dst i src j (Suc n) =
     (if i < PATH_BUF then copy_chars (dst(i := src j)) (i + 1) src (j + 1) n else None)"

fun copy_back :: "bytes \<Rightarrow> bytes \<Rightarrow> nat \<Rightarrow> bytes option" where
  "copy_back dst src 0 = Some dst"
| "copy_back dst src (Suc i) = (if i < PATH_BUF then copy_back (dst(i := src i)) src i else None)"

text \<open>\<^verbatim>\<open>strlen\<close> of a string that must end inside its buffer.\<close>

definition strlen_buf :: "bytes \<Rightarrow> nat option" where
  "strlen_buf m = do { n \<leftarrow> strlen m; if n < PATH_BUF then Some n else None }"

text \<open>A backslash at index \<open>i\<close>, unless the character before, \<open>c\<close>, is one.\<close>

definition add_slash :: "bytes \<Rightarrow> nat \<Rightarrow> u8 \<Rightarrow> (bytes \<times> nat) option" where
  "add_slash dst i c =
     (if c \<noteq> BACKSLASH then (if i < PATH_BUF then Some (dst(i := BACKSLASH), i + 1) else None) else Some (dst, i))"

subsection \<open>Paths\<close>

definition MakeFullPath :: "bytes \<Rightarrow> bytes \<Rightarrow> bytes \<Rightarrow> bytes option" where
  "MakeFullPath parent name fullpath = do {
     len \<leftarrow> strlen parent;
     fullpath \<leftarrow> copy_chars fullpath 0 parent 0 len;
     if len = 0 then None else do {
       (fullpath, i) \<leftarrow> add_slash fullpath len (fullpath (len - 1));
       len \<leftarrow> strlen name;
       copy_chars fullpath i name 0 len
     }
   }"

fun drop_last :: "bytes \<Rightarrow> nat \<Rightarrow> bytes" where
  "drop_last cur 0 = cur"
| "drop_last cur (Suc i) = (if cur i \<noteq> BACKSLASH then drop_last (cur(i := 0)) i else cur(i := 0))"

fun drop_to_drive :: "bytes \<Rightarrow> nat \<Rightarrow> bytes \<times> nat" where
  "drop_to_drive cur 0 = (cur, 0)"
| "drop_to_drive cur (Suc i) = (if cur i \<noteq> 0x3A then drop_to_drive (cur(i := 0)) i else (cur, Suc i))"

definition ChangeCurrentPath :: "bytes \<Rightarrow> bytes \<Rightarrow> bytes option" where
  "ChangeCurrentPath cur_path addpath = do {
     len1 \<leftarrow> strlen_buf cur_path;
     up \<leftarrow> strcmp addpath (cstr (lit ''..''));
     root \<leftarrow> strcmp addpath (cstr [BACKSLASH]);
     if up = 0 then do {
       let cur_path = drop_last cur_path len1;
       len2 \<leftarrow> strlen cur_path;
       Some (if len2 \<le> 2 then cur_path(len2 := BACKSLASH) else cur_path)
     }
     else if root = 0 then let (cur_path, i) = drop_to_drive cur_path (Suc len1) in Some (cur_path(i := BACKSLASH))
     else if len1 = 0 then None
     else do {
       (cur_path, len1) \<leftarrow> add_slash cur_path len1 (cur_path (len1 - 1));
       len2 \<leftarrow> strlen addpath;
       copy_chars cur_path len1 addpath 0 len2
     }
   }"

text \<open>The place behind the last backslash among the first characters, 0 when there is none.\<close>

fun last_sep :: "bytes \<Rightarrow> nat \<Rightarrow> nat" where
  "last_sep p 0 = 0"
| "last_sep p (Suc i) = (if p i = BACKSLASH then Suc i else last_sep p i)"

definition GetNameFromPath :: "bytes \<Rightarrow> bytes \<Rightarrow> bytes option" where
  "GetNameFromPath path name = do {
     len \<leftarrow> strlen path;
     let i = last_sep path len;
     copy_chars name 0 path i (len - i)
   }"

definition GetParentFromPath :: "bytes \<Rightarrow> bytes \<Rightarrow> bytes option" where
  "GetParentFromPath fullpath parent = do {
     len \<leftarrow> strlen fullpath;
     let i = last_sep fullpath len;
     if i = 0 then None else copy_back parent fullpath (i - 1)
   }"

definition IsFullPath :: "bytes \<Rightarrow> bytes \<Rightarrow> bool" where
  "IsFullPath cur_path path \<longleftrightarrow> cur_path 0 = path 0 \<and> cur_path 1 = path 1"

definition ToFullPath :: "bytes \<Rightarrow> bytes \<Rightarrow> bytes \<Rightarrow> bytes option" where
  "ToFullPath cur_path path fullpath = do {
     fullpath \<leftarrow>
       (if IsFullPath cur_path path then do { n \<leftarrow> strlen path; copy_chars fullpath 0 path 0 (n + 1) }
        else do {
          len \<leftarrow> strlen cur_path;
          fullpath \<leftarrow> copy_chars fullpath 0 cur_path 0 len;
          if len = 0 then None else do {
            (fullpath, i) \<leftarrow> add_slash fullpath len (cur_path (len - 1));
            len \<leftarrow> strlen path;
            copy_chars fullpath i path 0 len
          }
        });
     len \<leftarrow> strlen_buf fullpath;
     if len = 0 then None
     else Some (if fullpath (len - 1) = BACKSLASH then fullpath(len - 1 := 0) else fullpath)
   }"

subsection \<open>Time\<close>

text \<open>The date and the time as two 16-bit words: always the same moment, as the code has no clock.\<close>

definition TimeToBytes :: "16 word \<times> 16 word" where
  "TimeToBytes = (let year = 2018; month = 12; day = 27; hour = 14; minute = 30; second = 24 in
     ((year - 1980) * 512 + month * 32 + day, hour * 2048 + minute * 32 + second div 2))"

subsection \<open>Names of directory records\<close>

definition to_upper :: "u8 \<Rightarrow> u8" where
  "to_upper c = (if 0x61 \<le> c \<and> c \<le> 0x7A then c - 32 else c)"

fun stem_chars :: "bytes \<Rightarrow> nat \<Rightarrow> nat \<Rightarrow> nat \<Rightarrow> bytes \<Rightarrow> bytes \<times> nat" where
  "stem_chars filename len i 0 name = (name, i)"
| "stem_chars filename len i (Suc n) name =
     (if i < len then
        if filename i = 0x2E then (name, i)
        else stem_chars filename len (i + 1) n (name(i := to_upper (filename i)))
      else (name, i))"

fun pad_spaces :: "bytes \<Rightarrow> nat \<Rightarrow> nat \<Rightarrow> bytes" where
  "pad_spaces m j 0 = m"
| "pad_spaces m j (Suc n) = pad_spaces (m(j := 0x20)) (j + 1) n"

fun ext_chars :: "bytes \<Rightarrow> nat \<Rightarrow> nat \<Rightarrow> bytes \<Rightarrow> nat \<Rightarrow> (bytes \<times> nat) option" where
  "ext_chars filename i 0 ext j = Some (ext, j)"
| "ext_chars filename i (Suc n) ext j =
     (if j < PATH_BUF then ext_chars filename (i + 1) n (ext(j := to_upper (filename i))) (j + 1) else None)"

definition FormatFileNameAndExt :: "bytes \<Rightarrow> bytes \<Rightarrow> bytes \<Rightarrow> (bytes \<times> bytes) option" where
  "FormatFileNameAndExt filename name ext = do {
     len \<leftarrow> strlen filename;
     let (name, i) = stem_chars filename len 0 8 name;
     let name = pad_spaces name i (8 - i);
     if i < len then do {
       (ext, j) \<leftarrow> ext_chars filename (i + 1) (len - (i + 1)) ext 0;
       Some (name, pad_spaces ext j (3 - j))
     } else Some (name, ext)
   }"

fun dir_chars :: "bytes \<Rightarrow> nat \<Rightarrow> nat \<Rightarrow> nat \<Rightarrow> bytes \<Rightarrow> bytes \<times> nat" where
  "dir_chars dirname len i 0 name = (name, i)"
| "dir_chars dirname len i (Suc n) name =
     (if i < len then dir_chars dirname len (i + 1) n (name(i := to_upper (dirname i))) else (name, i))"

definition FormatDirNameAndExt :: "bytes \<Rightarrow> bytes \<Rightarrow> bytes \<Rightarrow> (bytes \<times> bytes) option" where
  "FormatDirNameAndExt dirname name ext = do {
     len \<leftarrow> strlen dirname;
     let (name, i) = dir_chars dirname len 0 8 name;
     Some (pad_spaces name i (8 - i), pad_spaces ext 0 3)
   }"

end
