(* ===== verification/FatBase.thy ===== *)
theory FatBase
  imports OrangeFs FatPath
begin

text \<open>
  The lower half of the FAT32 file system, \<^verbatim>\<open>kernel/base.c\<close>: the file allocation table, directories and their
  records, and the place of a byte of a file on the disk.

  To the state of the Orange file system, whose disk and kernel memory it shares, come the globals of \<^verbatim>\<open>base.c\<close> and
  \<^verbatim>\<open>fat32.c\<close>. A buffer from \<^verbatim>\<open>sys_kmalloc\<close> is a block of its own, whose allocation may fail; the code then uses the address
  \<^verbatim>\<open>K_PHY2LIN(-1)\<close>, which is \<open>None\<close>. \<^verbatim>\<open>sys_free\<close> is given the buffer where it expects a record of an address and a
  size: it frees the range that the first eight bytes of the buffer happen to name. Memory that has never been
  set has the bytes of \<open>unset\<close>. The size of a buffer is that of a sector, \<^verbatim>\<open>Bytes_Per_Sector\<close>, while
  sectors are always moved in 512 bytes; access beyond it, and division by zero, is \<open>None\<close>.
\<close>

definition OK :: int where "OK = 1"
definition SYSERROR :: int where "SYSERROR = 2"
definition INSUFFICIENTSPACE :: int where "INSUFFICIENTSPACE = 4"
definition WRONGPATH :: int where "WRONGPATH = 5"
definition NAMEEXIST :: int where "NAMEEXIST = 6"
definition ACCESSDENIED :: int where "ACCESSDENIED = 7"
definition C_MODE :: u32 where "C_MODE = 1"
definition R_MODE :: u32 where "R_MODE = 5"
definition W_MODE :: u32 where "W_MODE = 6"
definition RW_MODE :: u32 where "RW_MODE = 2"
definition RECORD_SIZE :: nat where "RECORD_SIZE = 32"
definition FAT_END :: u32 where "FAT_END = 268435455"

record fat_file =
  ff_parent :: bytes
  ff_name :: bytes
  ff_start :: u32
  ff_off :: u32
  ff_size :: u32
  ff_flag :: u32

record fatstate = ostate +
  TotalSectors :: u32
  Bytes_Per_Sector :: "16 word"
  Sectors_Per_Cluster :: u8
  Reserved_Sector :: "16 word"
  Sectors_Per_FAT :: u32
  Position_Of_RootDir :: u32
  Position_Of_FAT1 :: u32
  Position_Of_FAT2 :: u32
  FATBuf :: bytes
  globalSectorIndex :: u32
  cur_path :: bytes
  fat_buf :: bytes
  f_desc_table_fat :: "fat_file block"
  unset :: bytes

abbreviation bps :: "'a fatstate_scheme \<Rightarrow> u32" where "bps s \<equiv> ucast (Bytes_Per_Sector s)"
abbreviation spc :: "'a fatstate_scheme \<Rightarrow> u32" where "spc s \<equiv> ucast (Sectors_Per_Cluster s)"
abbreviation rsv :: "'a fatstate_scheme \<Rightarrow> u32" where "rsv s \<equiv> ucast (Reserved_Sector s)"
abbreviation sector_size :: "'a fatstate_scheme \<Rightarrow> nat" where "sector_size s \<equiv> unat (Bytes_Per_Sector s)"

subsection \<open>Memory\<close>

definition kmalloc_buf :: "u32 \<Rightarrow> 'a fatstate_scheme \<Rightarrow> 'a fatstate_scheme option" where
  "kmalloc_buf n s = (let (m, b) = do_kmalloc (memman s) n in if b = - 1 then None else Some (s\<lparr>memman := m\<rparr>))"

definition free_buf :: "u32 \<Rightarrow> u32 \<Rightarrow> 'a fatstate_scheme \<Rightarrow> 'a fatstate_scheme" where
  "free_buf a n s = s\<lparr>memman := fst (do_free (memman s) a n)\<rparr>"

definition free_bytes :: "bytes \<Rightarrow> 'a fatstate_scheme \<Rightarrow> 'a fatstate_scheme" where
  "free_bytes buf s = free_buf (load32 buf 0) (load32 buf 4) s"

definition store16 :: "bytes \<Rightarrow> nat \<Rightarrow> 16 word \<Rightarrow> bytes" where
  "store16 m a w = store_list m a [ucast w, ucast (drop_bit 8 w)]"

subsection \<open>Sectors\<close>

definition rw_sector_sched_fat :: "io_type \<Rightarrow> int \<Rightarrow> int \<Rightarrow> int \<Rightarrow> bytes \<Rightarrow> 'a fatstate_scheme \<Rightarrow>
    ('a fatstate_scheme \<times> bytes) option" where
  "rw_sector_sched_fat t dev pos n buf s = do {
     (h, buf) \<leftarrow> hd_rdwt_sched ((hds s)\<lparr>kmem := memman s\<rparr>) (stack_addr s) (cur_pid s)
        \<lparr>io_type = t, device = MINOR dev, position = of_int pos, cnt = n\<rparr> buf;
     Some (s\<lparr>hds := h, memman := kmem h\<rparr>, buf)
   }"

definition ReadSector :: "bytes \<Rightarrow> nat \<Rightarrow> u32 \<Rightarrow> 'a fatstate_scheme \<Rightarrow> ('a fatstate_scheme \<times> bytes) option" where
  "ReadSector buf cap sectorIndex s =
     (if cap < SECTOR_SIZE then None
      else rw_sector_sched_fat DEV_READ (get_fs_dev s FAT32_TYPE) (sint (sectorIndex * of_nat SECTOR_SIZE))
        (int SECTOR_SIZE) buf s)"

definition WriteSector :: "bytes \<Rightarrow> nat \<Rightarrow> u32 \<Rightarrow> 'a fatstate_scheme \<Rightarrow> 'a fatstate_scheme option" where
  "WriteSector buf cap sectorIndex s =
     (if cap < SECTOR_SIZE then None
      else do {
        let s = (if sectorIndex = globalSectorIndex s then s\<lparr>FATBuf := store_list (FATBuf s) 0 (load_list buf 0 512)\<rparr> else s);
        (s, _) \<leftarrow> rw_sector_sched_fat DEV_WRITE (get_fs_dev s FAT32_TYPE) (sint (sectorIndex * of_nat SECTOR_SIZE))
          (int SECTOR_SIZE) buf s;
        Some s
      })"

text \<open>The four bytes at an offset in a sector buffer.\<close>

definition entry_at :: "bytes \<Rightarrow> nat \<Rightarrow> u32 \<Rightarrow> u32 option" where
  "entry_at buf cap off = (if unat off + 4 \<le> cap then Some (load32 buf (unat off)) else None)"

definition set_entry :: "bytes \<Rightarrow> nat \<Rightarrow> u32 \<Rightarrow> u32 \<Rightarrow> bytes option" where
  "set_entry buf cap off v = (if unat off + 4 \<le> cap then Some (store32 buf (unat off) v) else None)"

subsection \<open>The file allocation table\<close>

text \<open>The first sector of a cluster; the byte offset of the entry of a cluster in the table, its sector, and its place in the sector.\<close>

definition cluster_sector :: "'a fatstate_scheme \<Rightarrow> u32 \<Rightarrow> u32" where
  "cluster_sector s c = rsv s + 2 * Sectors_Per_FAT s + (c - 2) * spc s"

definition fat_sector :: "'a fatstate_scheme \<Rightarrow> u32 \<Rightarrow> u32" where
  "fat_sector s c = rsv s + (8 + (c - 2) * 4) div bps s"

definition fat_off :: "'a fatstate_scheme \<Rightarrow> u32 \<Rightarrow> u32" where
  "fat_off s c = (8 + (c - 2) * 4) mod bps s"

definition GetNextCluster :: "u32 \<Rightarrow> 'a fatstate_scheme \<Rightarrow> ('a fatstate_scheme \<times> u32) option" where
  "GetNextCluster clusterIndex s =
     (if Bytes_Per_Sector s = 0 then None
      else do {
        let sectorIndex = fat_sector s clusterIndex;
        s \<leftarrow> (if sectorIndex \<noteq> globalSectorIndex s then do {
                (s, b) \<leftarrow> ReadSector (FATBuf s) 1024 sectorIndex s;
                Some (s\<lparr>FATBuf := b, globalSectorIndex := sectorIndex\<rparr>)
              } else Some s);
        v \<leftarrow> entry_at (FATBuf s) 1024 (fat_off s clusterIndex);
        Some (s, v)
      })"

text \<open>The buffer holds the sector \<open>pre\<close>, if that is not 0; now it is to hold the sector \<open>i\<close>.\<close>

definition switch_sector :: "u32 \<Rightarrow> u32 \<Rightarrow> bytes \<Rightarrow> 'a fatstate_scheme \<Rightarrow> ('a fatstate_scheme \<times> bytes) option" where
  "switch_sector i pre buf s =
     (if i \<noteq> pre then do {
        s \<leftarrow> (if pre \<noteq> 0 then WriteSector buf (sector_size s) pre s else Some s);
        ReadSector buf (sector_size s) i s
      } else Some (s, buf))"

fun write_fat_loop :: "u32 block \<Rightarrow> nat \<Rightarrow> nat \<Rightarrow> u32 \<Rightarrow> bytes \<Rightarrow> 'a fatstate_scheme \<Rightarrow>
    ('a fatstate_scheme \<times> bytes \<times> u32) option" where
  "write_fat_loop clusters i 0 pre buf s = Some (s, buf, pre)"
| "write_fat_loop clusters i (Suc n) pre buf s =
     (if Bytes_Per_Sector s = 0 then None
      else do {
        let cur = fat_sector s (clusters i);
        (s, buf) \<leftarrow> switch_sector cur pre buf s;
        buf \<leftarrow> set_entry buf (sector_size s) (fat_off s (clusters i)) (if n > 0 then clusters (i + 1) else FAT_END);
        write_fat_loop clusters (i + 1) n cur buf s
      })"

definition WriteFAT :: "u32 \<Rightarrow> u32 block \<Rightarrow> 'a fatstate_scheme \<Rightarrow> 'a fatstate_scheme option" where
  "WriteFAT totalclusters clusters s = do {
     s \<leftarrow> kmalloc_buf (bps s) s;
     (s, buf, cur) \<leftarrow> write_fat_loop clusters 0 (unat totalclusters) 0 (unset s) s;
     s \<leftarrow> WriteSector buf (sector_size s) cur s;
     Some (free_bytes buf s)
   }"

partial_function (option) clear_chain :: "u32 \<Rightarrow> u32 \<Rightarrow> bytes \<Rightarrow> 'a fatstate_scheme \<Rightarrow>
    ('a fatstate_scheme \<times> bytes \<times> u32) option" where
  "clear_chain cur pre buf s =
     (if Bytes_Per_Sector s = 0 then None
      else do {
        let i = fat_sector s cur;
        let off = fat_off s cur;
        (s, buf) \<leftarrow> switch_sector i pre buf s;
        nx \<leftarrow> entry_at buf (sector_size s) off;
        buf \<leftarrow> set_entry buf (sector_size s) off 0;
        if nx \<noteq> FAT_END then clear_chain nx i buf s else Some (s, buf, i)
      })"

definition ClearFATs :: "u32 \<Rightarrow> 'a fatstate_scheme \<Rightarrow> 'a fatstate_scheme option" where
  "ClearFATs startClusterIndex s =
     (if startClusterIndex = 0 then Some s
      else do {
        s \<leftarrow> kmalloc_buf (bps s) s;
        (s, buf, i) \<leftarrow> clear_chain startClusterIndex 0 (unset s) s;
        s \<leftarrow> WriteSector buf (sector_size s) i s;
        Some (free_bytes buf s)
      })"

fun clear_sectors :: "u32 \<Rightarrow> u32 \<Rightarrow> nat \<Rightarrow> 'a fatstate_scheme \<Rightarrow> 'a fatstate_scheme option" where
  "clear_sectors i lim 0 s = Some s"
| "clear_sectors i lim (Suc n) s =
     (if i < lim then do { s \<leftarrow> WriteSector (\<lambda>_. 0) 512 i s; clear_sectors (i + 1) lim n s } else Some s)"

definition ClearClusters :: "u32 \<Rightarrow> 'a fatstate_scheme \<Rightarrow> 'a fatstate_scheme option" where
  "ClearClusters cluster s = (let first = cluster_sector s cluster in clear_sectors first (first + 8) 8 s)"

text \<open>The entries of one sector of the table, from an offset on: the cluster of the first one that is 0.\<close>

fun free_entry_from :: "bytes \<Rightarrow> nat \<Rightarrow> nat \<Rightarrow> u32 \<Rightarrow> nat \<Rightarrow> (u32 + u32) option" where
  "free_entry_from buf cap off c 0 = Some (Inr c)"
| "free_entry_from buf cap off c (Suc n) =
     (if off < cap then do {
        v \<leftarrow> entry_at buf cap (of_nat off);
        if v = 0 then Some (Inl c) else free_entry_from buf cap (off + 4) (c + 1) n
      } else Some (Inr c))"

fun dir_cluster_loop :: "bytes \<Rightarrow> u32 \<Rightarrow> u32 \<Rightarrow> nat \<Rightarrow> nat \<Rightarrow> u32 \<Rightarrow> 'a fatstate_scheme \<Rightarrow>
    ('a fatstate_scheme \<times> bytes \<times> u32 option) option" where
  "dir_cluster_loop buf cur lim off 0 c s = Some (s, buf, None)"
| "dir_cluster_loop buf cur lim off (Suc n) c s =
     (if cur < lim then do {
        (s, buf) \<leftarrow> ReadSector buf (sector_size s) cur s;
        r \<leftarrow> free_entry_from buf (sector_size s) off c (sector_size s);
        case r of Inl k \<Rightarrow> Some (s, buf, Some k) | Inr c \<Rightarrow> dir_cluster_loop buf (cur + 1) lim 0 n c s
      } else Some (s, buf, None))"

definition FindClusterForDir :: "'a fatstate_scheme \<Rightarrow> ('a fatstate_scheme \<times> int \<times> u32 option) option" where
  "FindClusterForDir s = do {
     s \<leftarrow> kmalloc_buf (bps s) s;
     (s, buf, r) \<leftarrow> dir_cluster_loop (unset s) (rsv s) (rsv s + Sectors_Per_FAT s) 8 (unat (Sectors_Per_FAT s)) 2 s;
     case r of
       Some c \<Rightarrow> do { s \<leftarrow> ClearClusters c (free_bytes buf s); Some (s, OK, Some c) }
     | None \<Rightarrow> Some (free_bytes buf s, INSUFFICIENTSPACE, None)
   }"

text \<open>The free entries of one sector are put into the array, until it has \<open>want\<close> clusters.\<close>

fun free_entries :: "bytes \<Rightarrow> nat \<Rightarrow> nat \<Rightarrow> u32 \<Rightarrow> nat \<Rightarrow> nat \<Rightarrow> u32 block \<Rightarrow> nat \<Rightarrow> (u32 \<times> u32 block \<times> nat \<times> bool) option" where
  "free_entries buf cap off c want index clusters 0 = Some (c, clusters, index, False)"
| "free_entries buf cap off c want index clusters (Suc n) =
     (if off < cap then do {
        v \<leftarrow> entry_at buf cap (of_nat off);
        let c = c + 1;
        if v = 0 then
          if index < want then
            let clusters = clusters(index := c); index = index + 1 in
            if index \<ge> want then Some (c, clusters, index, True)
            else free_entries buf cap (off + 4) c want index clusters n
          else None
        else free_entries buf cap (off + 4) c want index clusters n
      } else Some (c, clusters, index, False))"

partial_function (option) file_cluster_loop :: "nat \<Rightarrow> bytes \<Rightarrow> u32 \<Rightarrow> nat \<Rightarrow> u32 \<Rightarrow> nat \<Rightarrow> u32 block \<Rightarrow> 'a fatstate_scheme \<Rightarrow>
    ('a fatstate_scheme \<times> bytes \<times> u32 block \<times> bool) option" where
  "file_cluster_loop want buf cur off c index clusters s = do {
     (s, buf) \<leftarrow> ReadSector buf (sector_size s) cur s;
     (c, clusters, index, enough) \<leftarrow> free_entries buf (sector_size s) off c want index clusters (sector_size s);
     if enough then Some (s, buf, clusters, True)
     else if cur * bps s \<ge> Position_Of_FAT2 s then Some (s, buf, clusters, False)
     else file_cluster_loop want buf (cur + 1) 0 c index clusters s
   }"

fun clear_all :: "u32 block \<Rightarrow> nat \<Rightarrow> nat \<Rightarrow> 'a fatstate_scheme \<Rightarrow> 'a fatstate_scheme option" where
  "clear_all clusters j 0 s = Some s"
| "clear_all clusters j (Suc n) s = do { s \<leftarrow> ClearClusters (clusters j) s; clear_all clusters (j + 1) n s }"

definition FindClusterForFile :: "u32 \<Rightarrow> u32 block \<Rightarrow> 'a fatstate_scheme \<Rightarrow> ('a fatstate_scheme \<times> int \<times> u32 block) option" where
  "FindClusterForFile totalClusters clusters s = do {
     s \<leftarrow> kmalloc_buf (bps s) s;
     (s, buf, clusters, enough) \<leftarrow> file_cluster_loop (unat totalClusters) (unset s) (rsv s) 8 1 0 clusters s;
     let s = free_bytes buf s;
     if enough then do { s \<leftarrow> clear_all clusters 0 (unat totalClusters) s; Some (s, OK, clusters) }
     else Some (s, INSUFFICIENTSPACE, clusters)
   }"

subsection \<open>Where a byte of a file is\<close>

definition GetNextSector :: "fat_file \<Rightarrow> u32 \<Rightarrow> u32 \<Rightarrow> u32 \<Rightarrow> 'a fatstate_scheme \<Rightarrow> ('a fatstate_scheme \<times> u32 \<times> u32) option" where
  "GetNextSector pfile cur nx isLast s =
     (if Sectors_Per_Cluster s = 0 then None
      else do {
        let temp = cur - rsv s - 2 * Sectors_Per_FAT s;
        let curCluster = temp div spc s + 2;
        let off = ucast (ucast (temp mod spc s) :: u8);
        (s, nextCluster) \<leftarrow> GetNextCluster curCluster s;
        if nextCluster = FAT_END then
          let temp = ff_size pfile mod (spc s * bps s);
              lim = (if ff_flag pfile = R_MODE then
                        if temp = 0 then spc s else if temp mod bps s = 0 then temp div bps s else temp div bps s + 1
                      else spc s)
          in Some (if off < lim - 1 then (s, cluster_sector s curCluster + off + 1, if off = lim - 2 then 1 else 0)
                   else (s, nx, isLast))
        else do {
          let (nx, curCluster) = (if off < spc s - 1 then (cluster_sector s curCluster + off + 1, curCluster)
            else (cluster_sector s nextCluster, nextCluster));
          (s, nextCluster) \<leftarrow> GetNextCluster curCluster s;
          let temp = ff_size pfile mod (spc s * bps s);
          Some (s, nx, if nextCluster = FAT_END \<and> ff_flag pfile = R_MODE \<and> temp \<noteq> 0
            then (if temp div bps s + 1 = 1 then 1 else 0) else isLast)
        }
      })"

fun file_walk :: "fat_file \<Rightarrow> nat \<Rightarrow> u32 \<Rightarrow> u32 \<Rightarrow> u32 \<Rightarrow> 'a fatstate_scheme \<Rightarrow> ('a fatstate_scheme \<times> u32 \<times> u32) option" where
  "file_walk pfile 0 cur nx isLast s = Some (s, cur, isLast)"
| "file_walk pfile (Suc n) cur nx isLast s = do {
     (s, nx, isLast) \<leftarrow> GetNextSector pfile cur nx isLast s;
     file_walk pfile n nx nx isLast s
   }"

text \<open>The results are the sector, the offset in it, and the flag, which is left as it was when it is not set.\<close>

definition GetFileOffset :: "fat_file \<Rightarrow> u32 \<Rightarrow> 'a fatstate_scheme \<Rightarrow> ('a fatstate_scheme \<times> u32 \<times> u32 \<times> u32) option" where
  "GetFileOffset pfile isLast s =
     (if Bytes_Per_Sector s = 0 then None
      else do {
        let totalSectors = (if ff_size pfile mod bps s = 0 then ff_size pfile div bps s else ff_size pfile div bps s + 1);
        (s, cur, isLast) \<leftarrow> file_walk pfile (unat (ff_off pfile div bps s)) (cluster_sector s (ff_start pfile)) 0 isLast s;
        Some (s, cur, ff_off pfile mod bps s, if totalSectors = 1 then 1 else isLast)
      })"

definition NeedMoreCluster :: "fat_file \<Rightarrow> u32 \<Rightarrow> 'a fatstate_scheme \<Rightarrow> u32 option option" where
  "NeedMoreCluster pfile n s =
     (let bytes_per_cluster = spc s * bps s in
      if ff_off pfile = 0 then Some None
      else if bytes_per_cluster = 0 then None
      else
        let clusterNum = (if ff_off pfile mod bytes_per_cluster = 0 then ff_off pfile div bytes_per_cluster
              else ff_off pfile div bytes_per_cluster + 1);
            left = clusterNum * bytes_per_cluster - ff_off pfile
        in if n > left then
             Some (Some (if (n - left) mod bytes_per_cluster = 0 then (n - left) div bytes_per_cluster
               else (n - left) div bytes_per_cluster + 1))
           else Some None)"

definition unset_words :: "'a fatstate_scheme \<Rightarrow> u32 block" where
  "unset_words s = (\<lambda>k. load32 (unset s) (4 * k))"

text \<open>\<^verbatim>\<open>FindClusterForFile\<close> never returns 0, so the test for failure never holds.\<close>

definition AllotClustersForEmptyFile :: "fat_file \<Rightarrow> u32 \<Rightarrow> 'a fatstate_scheme \<Rightarrow> ('a fatstate_scheme \<times> int \<times> fat_file) option" where
  "AllotClustersForEmptyFile pfile sz s =
     (let bytes_per_cluster = spc s * bps s in
      if bytes_per_cluster = 0 then None
      else do {
        let n = (if sz mod bytes_per_cluster = 0 then sz div bytes_per_cluster else sz div bytes_per_cluster + 1);
        s \<leftarrow> kmalloc_buf (n * 4) s;
        (s, r, clusters) \<leftarrow> FindClusterForFile n (unset_words s) s;
        if r = 0 then Some (s, INSUFFICIENTSPACE, pfile)
        else do {
          let pfile = pfile\<lparr>ff_start := clusters 0\<rparr>;
          s \<leftarrow> WriteFAT n clusters s;
          Some (free_buf (clusters 0) (clusters 1) s, OK, pfile)
        }
      })"

partial_function (option) last_cluster :: "u32 \<Rightarrow> 'a fatstate_scheme \<Rightarrow> ('a fatstate_scheme \<times> u32) option" where
  "last_cluster cur s = do {
     (s, nx) \<leftarrow> GetNextCluster cur s;
     if nx = FAT_END then Some (s, cur) else last_cluster nx s
   }"

definition AddCluster :: "u32 \<Rightarrow> u32 \<Rightarrow> 'a fatstate_scheme \<Rightarrow> ('a fatstate_scheme \<times> int) option" where
  "AddCluster startClusterIndex num s = do {
     s \<leftarrow> kmalloc_buf ((num + 1) * 4) s;
     (s, r, found) \<leftarrow> FindClusterForFile num (\<lambda>k. unset_words s (k + 1)) s;
     if r \<noteq> OK then Some (s, r)
     else do {
       (s, lst) \<leftarrow> last_cluster startClusterIndex s;
       let clusters = (\<lambda>k. if k = 0 then lst else found (k - 1));
       s \<leftarrow> WriteFAT (num + 1) clusters s;
       Some (free_buf (clusters 0) (clusters 1) s, OK)
     }
   }"

subsection \<open>Directory records\<close>

text \<open>A record is a block of 32 bytes: name (8), extension (3), attributes at 11, a system byte at 12, the time of creation from 13
  to 17, the date of access at 18, the start cluster at 20 and 26, the time of modification at 22, and the length at 28.\<close>

definition record_at :: "bytes \<Rightarrow> nat \<Rightarrow> bytes" where
  "record_at buf off = (\<lambda>k. if k < RECORD_SIZE then buf (off + k) else 0)"

definition record_start :: "bytes \<Rightarrow> u32" where
  "record_start r = push_bit 16 (load16 r 20) + load16 r 26"

definition to_lower :: "u8 \<Rightarrow> u8" where
  "to_lower c = (if 0x41 \<le> c \<and> c \<le> 0x5A then c + 32 else c)"

fun stem_of_record :: "bytes \<Rightarrow> nat \<Rightarrow> nat \<Rightarrow> bytes \<Rightarrow> bytes \<times> nat" where
  "stem_of_record r i 0 fullname = (fullname, i)"
| "stem_of_record r i (Suc n) fullname =
     (if r i = 0x20 then (fullname, i) else stem_of_record r (i + 1) n (fullname(i := to_lower (r i))))"

text \<open>The loop that takes away blanks from the end; the index is unsigned, so it does not stop at 0 but goes on behind the buffer.\<close>

fun strip_blanks :: "bytes \<Rightarrow> nat \<Rightarrow> nat \<Rightarrow> bytes option" where
  "strip_blanks fullname point 0 = None"
| "strip_blanks fullname point (Suc j) =
     (if fullname j = 0x20 \<or> fullname j = 0x2E \<and> j = point then strip_blanks (fullname(j := 0)) point j
      else Some fullname)"

definition GetNameFromRecord :: "bytes \<Rightarrow> bytes \<Rightarrow> bytes option" where
  "GetNameFromRecord r fullname =
     (let (fullname, point) = stem_of_record r 0 8 fullname;
          fullname = fullname(point := 0x2E);
          fullname = store_list fullname (point + 1) (map to_lower (load_list r 8 3))
      in strip_blanks fullname point (point + 4))"

definition strcpy_field :: "bytes \<Rightarrow> nat \<Rightarrow> bytes \<Rightarrow> bytes option" where
  "strcpy_field r a src = do {
     n \<leftarrow> strlen src;
     if a + n + 1 \<le> RECORD_SIZE then Some (store_list r a (load_list src 0 (n + 1))) else None
   }"

definition CreateRecord :: "bytes \<Rightarrow> u8 \<Rightarrow> u32 \<Rightarrow> u32 \<Rightarrow> bytes \<Rightarrow> bytes option" where
  "CreateRecord filename t startCluster sz precord = do {
     (name, ext) \<leftarrow> (if t = 0x08 \<or> t = 0x10 then FormatDirNameAndExt filename (\<lambda>_. 0) (\<lambda>_. 0)
       else FormatFileNameAndExt filename (\<lambda>_. 0) (\<lambda>_. 0));
     let r = precord(12 := (if t = 0x08 \<or> t = 0x10 then 0x08 else 0x18));
     let (d, tm) = TimeToBytes;
     r \<leftarrow> strcpy_field r 0 name;
     r \<leftarrow> strcpy_field r 8 ext;
     let r = r(11 := t, 13 := 0);
     let r = store16 (store16 (store16 r 14 tm) 16 d) 18 d;
     let r = store16 r 20 (ucast (drop_bit 16 startCluster));
     let r = store16 (store16 r 22 tm) 24 d;
     let r = store16 r 26 (ucast (startCluster AND 0x0000FFFF));
     Some (store32 r 28 sz)
   }"

definition WriteRecord :: "bytes \<Rightarrow> u32 \<Rightarrow> u32 \<Rightarrow> 'a fatstate_scheme \<Rightarrow> 'a fatstate_scheme option" where
  "WriteRecord r sectorIndex off_in_sector s = do {
     s \<leftarrow> kmalloc_buf (bps s) s;
     (s, buf) \<leftarrow> ReadSector (unset s) (sector_size s) sectorIndex s;
     if unat off_in_sector + RECORD_SIZE \<le> sector_size s then do {
       let buf = store_list buf (unat off_in_sector) (load_list r 0 RECORD_SIZE);
       s \<leftarrow> WriteSector buf (sector_size s) sectorIndex s;
       Some (free_bytes buf s)
     } else None
   }"

text \<open>The records of one sector, from an offset on: the first that has the name (\<open>True\<close>) or ends the directory (\<open>False\<close>), if any.\<close>

fun scan_records :: "bytes \<Rightarrow> nat \<Rightarrow> bytes \<Rightarrow> nat \<Rightarrow> nat \<Rightarrow> ((bool \<times> nat) option) option" where
  "scan_records buf cap name off 0 = Some None"
| "scan_records buf cap name off (Suc n) =
     (if off < cap then
        if off + RECORD_SIZE \<le> cap then
          if buf off = 0 then Some (Some (False, off))
          else do {
            temp \<leftarrow> GetNameFromRecord (record_at buf off) (\<lambda>_. 0);
            r \<leftarrow> strcmp temp name;
            if r = 0 then Some (Some (True, off)) else scan_records buf cap name (off + RECORD_SIZE) n
          }
        else None
      else Some None)"

fun scan_sectors :: "bytes \<Rightarrow> u32 \<Rightarrow> u32 \<Rightarrow> nat \<Rightarrow> bytes \<Rightarrow> 'a fatstate_scheme \<Rightarrow>
    ('a fatstate_scheme \<times> bytes \<times> (bool \<times> u32 \<times> nat) option) option" where
  "scan_sectors name i lim 0 buf s = Some (s, buf, None)"
| "scan_sectors name i lim (Suc n) buf s =
     (if i < lim then do {
        (s, buf) \<leftarrow> ReadSector buf (sector_size s) i s;
        r \<leftarrow> scan_records buf (sector_size s) name 0 (sector_size s);
        case r of
          Some (found, off) \<Rightarrow> Some (s, buf, Some (found, i, off))
        | None \<Rightarrow> scan_sectors name (i + 1) lim n buf s
      } else Some (s, buf, None))"

text \<open>The cluster never changes: a directory whose eight sectors are full of other names is looked through forever.\<close>

partial_function (option) scan_dir :: "bytes \<Rightarrow> u32 \<Rightarrow> bytes \<Rightarrow> 'a fatstate_scheme \<Rightarrow>
    ('a fatstate_scheme \<times> bytes \<times> bool \<times> u32 \<times> nat) option" where
  "scan_dir name cluster buf s = do {
     let first = cluster_sector s cluster;
     (s, buf, r) \<leftarrow> scan_sectors name first (first + 8) 8 buf s;
     case r of Some p \<Rightarrow> Some (s, buf, p) | None \<Rightarrow> scan_dir name cluster buf s
   }"

text \<open>The result, the record with the name (or the one that ends the directory), and its sector and place, which are only
  set when the name has been found.\<close>

definition ReadRecord :: "u32 \<Rightarrow> bytes \<Rightarrow> 'a fatstate_scheme \<Rightarrow>
    ('a fatstate_scheme \<times> int \<times> bytes \<times> (u32 \<times> u32) option) option" where
  "ReadRecord parentCluster name s = do {
     s \<leftarrow> kmalloc_buf (bps s) s;
     (s, buf, found, i, off) \<leftarrow> scan_dir name parentCluster (unset s) s;
     Some (free_bytes buf s, if found then OK else WRONGPATH, record_at buf off, if found then Some (i, of_nat off) else None)
   }"

definition ClearRecord :: "u32 \<Rightarrow> bytes \<Rightarrow> 'a fatstate_scheme \<Rightarrow> ('a fatstate_scheme \<times> (int + u32)) option" where
  "ClearRecord parentCluster name s = do {
     (s, e, r, p) \<leftarrow> ReadRecord parentCluster name s;
     case p of
       None \<Rightarrow> Some (s, Inl e)
     | Some (i, off) \<Rightarrow> do { s \<leftarrow> WriteRecord (r(0 := 0xE5)) i off s; Some (s, Inr (record_start r)) }
   }"

fun path_walk :: "bytes \<Rightarrow> nat \<Rightarrow> nat \<Rightarrow> nat \<Rightarrow> bytes \<Rightarrow> nat \<Rightarrow> u32 \<Rightarrow> 'a fatstate_scheme \<Rightarrow>
    ('a fatstate_scheme \<times> (int + u32)) option" where
  "path_walk fullpath len i 0 name j parentCluster s = Some (s, Inr parentCluster)"
| "path_walk fullpath len i (Suc n) name j parentCluster s =
     (if fullpath i = BACKSLASH \<or> i = len - 1 then
        if j < PATH_BUF then do {
          (s, e, r, _) \<leftarrow> ReadRecord parentCluster (if i = len - 1 then name(j := fullpath i) else name) s;
          if e = OK then path_walk fullpath len (i + 1) n (\<lambda>_. 0) 0 (record_start r) s
          else Some (s, Inl e)
        } else None
      else if j < PATH_BUF then path_walk fullpath len (i + 1) n (name(j := fullpath i)) (j + 1) parentCluster s
      else None)"

fun first_sep :: "bytes \<Rightarrow> nat \<Rightarrow> nat \<Rightarrow> nat" where
  "first_sep p i 0 = i"
| "first_sep p i (Suc n) = (if p i = BACKSLASH then i else first_sep p (i + 1) n)"

definition PathToCluster :: "bytes \<Rightarrow> 'a fatstate_scheme \<Rightarrow> ('a fatstate_scheme \<times> (int + u32)) option" where
  "PathToCluster path s = do {
     fullpath \<leftarrow> ToFullPath (cur_path s) path (\<lambda>_. 0);
     len \<leftarrow> strlen_buf fullpath;
     let i = first_sep fullpath 0 len;
     if i \<ge> len then Some (s, Inr 2)
     else path_walk fullpath len (i + 1) (len - (i + 1)) (\<lambda>_. 0) 0 2 s
   }"

subsection \<open>A place for a record\<close>

text \<open>The inner loop that counts free records in a row; it looks through the same sector again when it comes to its end.\<close>

partial_function (option) space_run :: "u32 \<Rightarrow> u32 \<Rightarrow> u32 \<Rightarrow> bytes \<Rightarrow> nat \<Rightarrow> 'a fatstate_scheme \<Rightarrow>
    ('a fatstate_scheme \<times> bytes \<times> nat \<times> bool) option" where
  "space_run recordsnum i curnum buf off s =
     (let curnum = curnum + 1 in
      if curnum = recordsnum then Some (s, buf, off, True)
      else if off + RECORD_SIZE \<le> sector_size s then
        let first = buf off; off = off + RECORD_SIZE in
        if first \<noteq> 0 \<and> first \<noteq> 0xE5 then Some (s, buf, off, False)
        else if off \<ge> sector_size s then do {
          (s, buf) \<leftarrow> ReadSector buf (sector_size s) i s;
          space_run recordsnum i curnum buf 0 s
        }
        else space_run recordsnum i curnum buf off s
      else None)"

text \<open>\<open>fullname\<close> is not cleared between two records. The results are the state it returns with and the place.\<close>

partial_function (option) space_in_sector :: "bytes \<Rightarrow> u32 \<Rightarrow> u32 \<Rightarrow> bytes \<Rightarrow> bytes \<Rightarrow> nat \<Rightarrow> 'a fatstate_scheme \<Rightarrow>
    ('a fatstate_scheme \<times> bytes \<times> bytes \<times> (int \<times> nat) option) option" where
  "space_in_sector name recordsnum i buf fullname off s =
     (if off < sector_size s then
        if off + RECORD_SIZE \<le> sector_size s then
          if buf off = 0 \<or> buf off = 0xE5 then do {
            (s, buf, off, found) \<leftarrow> space_run recordsnum i 0 buf off s;
            if found then Some (s, buf, fullname, Some (OK, off))
            else space_in_sector name recordsnum i buf fullname (off + RECORD_SIZE) s
          }
          else if buf (off + 11) \<noteq> 0x08 then do {
            fullname \<leftarrow> GetNameFromRecord (record_at buf off) fullname;
            r \<leftarrow> strcmp name fullname;
            if r = 0 then Some (s, buf, fullname, Some (NAMEEXIST, off))
            else space_in_sector name recordsnum i buf fullname (off + RECORD_SIZE) s
          }
          else space_in_sector name recordsnum i buf fullname (off + RECORD_SIZE) s
        else None
      else Some (s, buf, fullname, None))"

fun space_in_cluster :: "bytes \<Rightarrow> u32 \<Rightarrow> u32 \<Rightarrow> u32 \<Rightarrow> nat \<Rightarrow> bytes \<Rightarrow> bytes \<Rightarrow> 'a fatstate_scheme \<Rightarrow>
    ('a fatstate_scheme \<times> bytes \<times> bytes \<times> (int \<times> u32 \<times> nat) option) option" where
  "space_in_cluster name recordsnum i lim 0 buf fullname s = Some (s, buf, fullname, None)"
| "space_in_cluster name recordsnum i lim (Suc n) buf fullname s =
     (if i < lim then do {
        (s, buf) \<leftarrow> ReadSector buf (sector_size s) i s;
        (s, buf, fullname, r) \<leftarrow> space_in_sector name recordsnum i buf fullname 0 s;
        case r of
          Some (e, off) \<Rightarrow> Some (s, buf, fullname, Some (e, i, off))
        | None \<Rightarrow> space_in_cluster name recordsnum (i + 1) lim n buf fullname s
      } else Some (s, buf, fullname, None))"

partial_function (option) space_in_dir :: "bytes \<Rightarrow> u32 \<Rightarrow> u32 \<Rightarrow> bytes \<Rightarrow> bytes \<Rightarrow> 'a fatstate_scheme \<Rightarrow>
    ('a fatstate_scheme \<times> bytes \<times> int \<times> u32 \<times> nat) option" where
  "space_in_dir name recordsnum cluster buf fullname s = do {
     let first = cluster_sector s cluster;
     (s, buf, fullname, r) \<leftarrow> space_in_cluster name recordsnum first (first + 8) 8 buf fullname s;
     case r of Some (e, i, off) \<Rightarrow> Some (s, buf, e, i, off) | None \<Rightarrow> space_in_dir name recordsnum cluster buf fullname s
   }"

text \<open>The place is only set when the result is \<^verbatim>\<open>OK\<close>; it is 0 before the call in every caller.\<close>

definition FindSpaceInDir :: "u32 \<Rightarrow> bytes \<Rightarrow> 'a fatstate_scheme \<Rightarrow> ('a fatstate_scheme \<times> int \<times> u32 \<times> u32) option" where
  "FindSpaceInDir parentClusterIndex name s = do {
     s \<leftarrow> kmalloc_buf (bps s) s;
     len \<leftarrow> strlen name;
     let recordsnum = of_nat (if len mod 29 = 0 then len div 29 else len div 29 + 1);
     (s, buf, e, i, off) \<leftarrow> space_in_dir name recordsnum parentClusterIndex (unset s) (\<lambda>_. 0) s;
     let s = free_bytes buf s;
     Some (if e = OK then (s, OK, i, of_nat off) else (s, e, 0, 0))
   }"

subsection \<open>Deleting a directory\<close>

text \<open>\<^verbatim>\<open>DeleteAllRecord\<close> and its loop call each other: a call is one or the other, and returns the buffer of the loop.\<close>

datatype del_call =
  DelDir u32
| DelLoop (del_cluster: u32) (del_off: u32) (del_pre: u32) (del_last: u32) (del_buf: bytes)

partial_function (option) delete_run :: "del_call \<Rightarrow> 'a fatstate_scheme \<Rightarrow> ('a fatstate_scheme \<times> bytes) option" where
  "delete_run c s = (case c of
     DelDir startCluster \<Rightarrow> do {
       let off = Position_Of_RootDir s + (startCluster - 2) * spc s * bps s + (if startCluster = 2 then 32 else 64);
       s \<leftarrow> kmalloc_buf (bps s) s;
       (s, buf) \<leftarrow> delete_run (DelLoop startCluster off 0 (cluster_sector s startCluster + spc s) (unset s)) s;
       s \<leftarrow> ClearFATs startCluster (free_bytes buf s);
       Some (s, buf)
     }
   | DelLoop cluster off pre lim buf \<Rightarrow>
       if Bytes_Per_Sector s = 0 then None
       else do {
         let cur = off div bps s;
         let a = unat (off mod bps s);
         (s, buf) \<leftarrow> switch_sector cur pre buf s;
         if a + RECORD_SIZE > sector_size s then None
         else if buf a = 0 then do { s \<leftarrow> WriteSector buf (sector_size s) cur s; Some (s, buf) }
         else do {
           let r = record_at buf a;
           (s, buf) \<leftarrow>
             (if buf a \<noteq> 0xE5 then do {
                let buf = buf(a := 0xE5);
                s \<leftarrow> (if r 11 = 0x10 then do { (s, _) \<leftarrow> delete_run (DelDir (record_start r)) s; Some s }
                  else ClearFATs (record_start r) s);
                Some (s, buf)
              } else Some (s, buf));
           if cur \<ge> lim then do {
             (s, nx) \<leftarrow> GetNextCluster cluster s;
             if nx = FAT_END then do { s \<leftarrow> WriteSector buf (sector_size s) cur s; Some (s, buf) }
             else delete_run (DelLoop nx (Position_Of_RootDir s + (nx - 2) * spc s * bps s) cur lim buf) s
           }
           else delete_run (DelLoop cluster (off + 32) cur lim buf) s
         }
       })"

definition DeleteAllRecord :: "u32 \<Rightarrow> 'a fatstate_scheme \<Rightarrow> 'a fatstate_scheme option" where
  "DeleteAllRecord startCluster s = do { (s, _) \<leftarrow> delete_run (DelDir startCluster) s; Some s }"

declare clear_chain.simps [code] and file_cluster_loop.simps [code] and last_cluster.simps [code] and scan_dir.simps [code]
  and space_run.simps [code] and space_in_sector.simps [code] and space_in_dir.simps [code] and delete_run.simps [code]

end
