(* ===== verification/FatFile.thy ===== *)
theory FatFile
  imports FatBase
begin

text \<open>
  The upper half of the FAT32 file system, \<^verbatim>\<open>kernel/fat32.c\<close>: opening, reading, writing, closing, creating and deleting
  files and directories, and the initialisation. Paths are blocks of bytes that end in a zero; an open file is an
  entry of \<^verbatim>\<open>f_desc_table_fat\<close>, given by its index. The system calls \<^verbatim>\<open>sys_*\<close> at the end of the file only fetch the
  arguments and report the result, or return 0.
\<close>

definition FSBUF_SIZE :: u32 where "FSBUF_SIZE = 0x100000"

definition upd_file :: "nat \<Rightarrow> (fat_file \<Rightarrow> fat_file) \<Rightarrow> 'a fatstate_scheme \<Rightarrow> 'a fatstate_scheme" where
  "upd_file k f s = s\<lparr>f_desc_table_fat := (f_desc_table_fat s)(k := f (f_desc_table_fat s k))\<rparr>"

text \<open>\<^verbatim>\<open>p_proc_current->task.filp[fd]->fd_node.fd_file\<close>: the descriptor and the file.\<close>

definition fat_fd :: "int \<Rightarrow> 'a fatstate_scheme \<Rightarrow> (nat \<times> nat) option" where
  "fat_fd fd s = do {
     slot \<leftarrow> fd_slot s fd;
     d \<leftarrow> slot;
     case fd_node (f_desc_table s d) of FileNode k \<Rightarrow> Some (d, k) | _ \<Rightarrow> None
   }"

text \<open>The full path, the parent and the name.\<close>

definition path_parts :: "bytes \<Rightarrow> 'a fatstate_scheme \<Rightarrow> (bytes \<times> bytes \<times> bytes) option" where
  "path_parts path s = do {
     fullpath \<leftarrow> ToFullPath (cur_path s) path (\<lambda>_. 0);
     parent \<leftarrow> GetParentFromPath fullpath (\<lambda>_. 0);
     name \<leftarrow> GetNameFromPath fullpath (\<lambda>_. 0);
     Some (fullpath, parent, name)
   }"

subsection \<open>Directories\<close>

datatype fat_tag = F_TAG | D_TAG

definition IsFile :: "bytes \<Rightarrow> 'a fatstate_scheme \<Rightarrow> ('a fatstate_scheme \<times> (int + fat_tag)) option" where
  "IsFile path s = do {
     (fullpath, parent, name) \<leftarrow> path_parts path s;
     (s, r) \<leftarrow> PathToCluster parent s;
     case r of
       Inl e \<Rightarrow> Some (s, Inl e)
     | Inr parentCluster \<Rightarrow> do {
         (s, e, r, _) \<leftarrow> ReadRecord parentCluster name s;
         Some (s, if e \<noteq> OK then Inl e else Inr (if r 11 = 0x10 then D_TAG else F_TAG))
       }
   }"

text \<open>The part that deleting a file and deleting a directory share: the record is cleared when it has the wanted tag.\<close>

definition delete_entry :: "fat_tag \<Rightarrow> bytes \<Rightarrow> 'a fatstate_scheme \<Rightarrow> ('a fatstate_scheme \<times> (int + u32)) option" where
  "delete_entry wanted path s = do {
     (fullpath, parent, name) \<leftarrow> path_parts path s;
     (s, r) \<leftarrow> IsFile fullpath s;
     case r of
       Inl e \<Rightarrow> Some (s, Inl e)
     | Inr t \<Rightarrow>
         if t \<noteq> wanted then Some (s, Inl WRONGPATH)
         else do {
           (s, r) \<leftarrow> PathToCluster parent s;
           case r of Inl e \<Rightarrow> Some (s, Inl e) | Inr parentCluster \<Rightarrow> ClearRecord parentCluster name s
         }
   }"

definition DeleteDir :: "bytes \<Rightarrow> 'a fatstate_scheme \<Rightarrow> ('a fatstate_scheme \<times> int) option" where
  "DeleteDir dirname s = do {
     (s, r) \<leftarrow> delete_entry D_TAG dirname s;
     case r of
       Inl e \<Rightarrow> Some (s, e)
     | Inr startCluster \<Rightarrow> do { s \<leftarrow> DeleteAllRecord startCluster s; Some (s, OK) }
   }"

definition DeleteFile :: "bytes \<Rightarrow> 'a fatstate_scheme \<Rightarrow> ('a fatstate_scheme \<times> int) option" where
  "DeleteFile filename s = do {
     (s, r) \<leftarrow> delete_entry F_TAG filename s;
     case r of
       Inl e \<Rightarrow> Some (s, e)
     | Inr startCluster \<Rightarrow> do {
         s \<leftarrow> (if startCluster \<noteq> 0 then ClearFATs startCluster s else Some s);
         Some (s, OK)
       }
   }"

definition CreateDir :: "bytes \<Rightarrow> 'a fatstate_scheme \<Rightarrow> ('a fatstate_scheme \<times> int) option" where
  "CreateDir dirname s = do {
     (fullname, parent, name) \<leftarrow> path_parts dirname s;
     (s, r) \<leftarrow> PathToCluster parent s;
     case r of
       Inl e \<Rightarrow> Some (s, e)
     | Inr parentCluster \<Rightarrow> do {
         (s, e, sectorIndex, off) \<leftarrow> FindSpaceInDir parentCluster name s;
         if e \<noteq> OK then Some (s, e)
         else do {
           (s, e, c) \<leftarrow> FindClusterForDir s;
           case c of
             None \<Rightarrow> Some (s, e)
           | Some startCluster \<Rightarrow> do {
               r \<leftarrow> CreateRecord name 0x10 startCluster 0 (unset s);
               s \<leftarrow> WriteRecord r sectorIndex off s;
               s \<leftarrow> WriteFAT 1 (\<lambda>_. startCluster) s;
               r \<leftarrow> CreateRecord (cstr (lit ''.'')) 0x10 startCluster 0 r;
               let i = cluster_sector s startCluster;
               s \<leftarrow> WriteRecord r i 0 s;
               r \<leftarrow> CreateRecord (cstr (lit ''..'')) 0x10 parentCluster 0 r;
               s \<leftarrow> WriteRecord r i 32 s;
               Some (s, OK)
             }
         }
       }
   }"

definition set_cur_path :: "bytes \<Rightarrow> 'a fatstate_scheme \<Rightarrow> 'a fatstate_scheme option" where
  "set_cur_path p s = do {
     n \<leftarrow> strlen p;
     c \<leftarrow> copy_chars (cur_path s) 0 p 0 (n + 1);
     Some (s\<lparr>cur_path := c\<rparr>)
   }"

definition OpenDir :: "bytes \<Rightarrow> 'a fatstate_scheme \<Rightarrow> ('a fatstate_scheme \<times> int) option" where
  "OpenDir dirname s = do {
     here \<leftarrow> strcmp dirname (cstr (lit ''.''));
     up \<leftarrow> strcmp dirname (cstr (lit ''..''));
     root \<leftarrow> strcmp dirname (cstr [BACKSLASH]);
     if here = 0 then Some (s, OK)
     else if up = 0 \<or> root = 0 then do {
       c \<leftarrow> ChangeCurrentPath (cur_path s) dirname;
       Some (s\<lparr>cur_path := c\<rparr>, OK)
     }
     else do {
       (fullpath, parent, name) \<leftarrow>
         (if IsFullPath (cur_path s) dirname then do {
            n \<leftarrow> strlen dirname;
            fullpath \<leftarrow> copy_chars (\<lambda>_. 0) 0 dirname 0 (n + 1);
            parent \<leftarrow> GetParentFromPath fullpath (\<lambda>_. 0);
            name \<leftarrow> GetNameFromPath fullpath (\<lambda>_. 0);
            Some (fullpath, parent, name)
          } else do {
            fullpath \<leftarrow> MakeFullPath (cur_path s) dirname (\<lambda>_. 0);
            n \<leftarrow> strlen (cur_path s);
            parent \<leftarrow> copy_chars (\<lambda>_. 0) 0 (cur_path s) 0 (n + 1);
            n \<leftarrow> strlen dirname;
            name \<leftarrow> copy_chars (\<lambda>_. 0) 0 dirname 0 (n + 1);
            Some (fullpath, parent, name)
          });
       if IsFullPath (cur_path s) dirname \<and> parent 0 = 0 then do {
         n \<leftarrow> strlen fullpath;
         s \<leftarrow> set_cur_path fullpath (s\<lparr>cur_path := (\<lambda>_. 0)\<rparr>);
         if n < PATH_BUF then Some (s\<lparr>cur_path := (cur_path s)(n := BACKSLASH)\<rparr>, OK) else None
       }
       else do {
         (s, r) \<leftarrow> PathToCluster parent s;
         case r of
           Inl e \<Rightarrow> Some (s, e)
         | Inr parentCluster \<Rightarrow> do {
             (s, e, r, _) \<leftarrow> ReadRecord parentCluster name s;
             if e \<noteq> OK then Some (s, e)
             else if r 11 = 0x10 then do { s \<leftarrow> set_cur_path fullpath s; Some (s, OK) }
             else Some (s, WRONGPATH)
           }
       }
     }
   }"

subsection \<open>Reading and writing\<close>

text \<open>The loop of \<^verbatim>\<open>ReadFile\<close>: \<open>got\<close> bytes are in the caller's buffer.\<close>

partial_function (option) read_file_loop :: "nat \<Rightarrow> int \<Rightarrow> int \<Rightarrow> u32 \<Rightarrow> u32 \<Rightarrow> u32 \<Rightarrow> u32 \<Rightarrow> bytes \<Rightarrow> bytes \<Rightarrow> 'a fatstate_scheme \<Rightarrow>
    ('a fatstate_scheme \<times> bytes \<times> bytes \<times> int) option" where
  "read_file_loop k len got cur nx off isLast sector buf s =
     (if Bytes_Per_Sector s = 0 then None
      else do {
        let pfile = f_desc_table_fat s k;
        let left = (if isLast \<noteq> 0 then
            (if ff_size pfile mod bps s = 0 then bps s - off else ff_size pfile mod bps s - off) else bps s - off);
        let short = left < of_int (len - got);
        let readsize = (if short then left else of_int (len - got));
        (s, sector) \<leftarrow> ReadSector sector (sector_size s) cur s;
        if unat off + unat readsize > sector_size s then None
        else do {
          let buf = store_list buf (nat got) (load_list sector (unat off) (unat readsize));
          let got = got + uint readsize;
          let s = upd_file k (ff_off_update (\<lambda>x. x + readsize)) s;
          if isLast \<noteq> 0 \<or> \<not> short then Some (s, sector, buf, got)
          else do {
            (s, nx, isLast) \<leftarrow> GetNextSector (f_desc_table_fat s k) cur nx isLast s;
            read_file_loop k len got nx nx 0 isLast sector buf s
          }
        }
      })"

definition ReadFile :: "int \<Rightarrow> bytes \<Rightarrow> int \<Rightarrow> 'a fatstate_scheme \<Rightarrow> ('a fatstate_scheme \<times> bytes \<times> int) option" where
  "ReadFile fd buf len s = do {
     (d, k) \<leftarrow> fat_fd fd s;
     let pfile = f_desc_table_fat s k;
     if ff_flag pfile \<noteq> R_MODE \<and> ff_flag pfile \<noteq> RW_MODE \<and> ff_flag pfile \<noteq> (RW_MODE OR C_MODE) then Some (s, buf, ACCESSDENIED)
     else if ff_off pfile \<ge> ff_size pfile then Some (s, buf, 0)
     else do {
       s \<leftarrow> kmalloc_buf (bps s) s;
       (s, cur, off, isLast) \<leftarrow> GetFileOffset pfile 0 s;
       (s, sector, buf, got) \<leftarrow> read_file_loop k len 0 cur 0 off isLast (unset s) buf s;
       Some (free_bytes sector s, buf, got)
     }
   }"

text \<open>The loop of \<^verbatim>\<open>WriteFile\<close> over the sectors that are filled to their end.\<close>

partial_function (option) write_file_loop :: "nat \<Rightarrow> bytes \<Rightarrow> u32 \<Rightarrow> u32 \<Rightarrow> u32 \<Rightarrow> u32 \<Rightarrow> u32 \<Rightarrow> u32 \<Rightarrow> u32 \<Rightarrow> bytes \<Rightarrow> 'a fatstate_scheme \<Rightarrow>
    ('a fatstate_scheme \<times> bytes \<times> u32 \<times> u32 \<times> u32) option" where
  "write_file_loop k buf len pos cur nx off left isLast sector s =
     (if left < len - pos then do {
        (s, sector) \<leftarrow> ReadSector sector (sector_size s) cur s;
        if unat off + unat left > sector_size s then None
        else do {
          let sector = store_list sector (unat off) (load_list buf (unat pos) (unat left));
          s \<leftarrow> WriteSector sector (sector_size s) cur s;
          let s = upd_file k (ff_off_update (\<lambda>x. x + left)) s;
          (s, nx, isLast) \<leftarrow> GetNextSector (f_desc_table_fat s k) cur nx isLast s;
          write_file_loop k buf len (pos + left) nx nx 0 (bps s) isLast sector s
        }
      } else Some (s, sector, cur, off, pos))"

definition WriteFile :: "int \<Rightarrow> bytes \<Rightarrow> int \<Rightarrow> 'a fatstate_scheme \<Rightarrow> ('a fatstate_scheme \<times> int) option" where
  "WriteFile fd buf n s = do {
     (d, k) \<leftarrow> fat_fd fd s;
     let pfile = f_desc_table_fat s k;
     let len = of_int n;
     if ff_flag pfile \<noteq> W_MODE \<and> ff_flag pfile \<noteq> RW_MODE \<and> ff_flag pfile \<noteq> (RW_MODE OR C_MODE) then Some (s, ACCESSDENIED)
     else do {
       s \<leftarrow> kmalloc_buf (bps s) s;
       (s, e) \<leftarrow>
         (if ff_start pfile = 0 then do {
            (s, e, pfile) \<leftarrow> AllotClustersForEmptyFile pfile len s;
            Some (upd_file k (\<lambda>_. pfile) s, e)
          } else do {
            more \<leftarrow> NeedMoreCluster pfile len s;
            case more of None \<Rightarrow> Some (s, OK) | Some num \<Rightarrow> AddCluster (ff_start pfile) num s
          });
       if e \<noteq> OK then Some (free_bytes (unset s) s, e)
       else do {
         (s, cur, off, isLast) \<leftarrow> GetFileOffset (f_desc_table_fat s k) 0 s;
         (s, sector, cur, off, pos) \<leftarrow> write_file_loop k buf len 0 cur 0 off (bps s - off) isLast (unset s) s;
         (s, sector) \<leftarrow> ReadSector sector (sector_size s) cur s;
         if unat off + unat (len - pos) > sector_size s then None
         else do {
           let sector = store_list sector (unat off) (load_list buf (unat pos) (unat (len - pos)));
           s \<leftarrow> WriteSector sector (sector_size s) cur s;
           Some (free_bytes sector (upd_file k (ff_off_update (\<lambda>x. x + (len - pos))) s), OK)
         }
       }
     }
   }"

subsection \<open>Opening, creating and closing\<close>

fun free_file_loop :: "'a fatstate_scheme \<Rightarrow> nat \<Rightarrow> nat \<Rightarrow> nat option" where
  "free_file_loop s i 0 = None"
| "free_file_loop s i (Suc n) = (if ff_flag (f_desc_table_fat s i) = 0 then Some i else free_file_loop s (i + 1) n)"

definition create_entry :: "bytes \<Rightarrow> u32 \<Rightarrow> u32 \<Rightarrow> 'a fatstate_scheme \<Rightarrow> 'a fatstate_scheme option" where
  "create_entry name sectorIndex off s = do {
     r \<leftarrow> CreateRecord name 0x20 0 0 (unset s);
     WriteRecord r sectorIndex off s
   }"

text \<open>The part of \<^verbatim>\<open>OpenFile\<close> that connects a descriptor. When every \<^verbatim>\<open>File\<close> is in use the code only
  reports it, and goes on behind the table.\<close>

definition connect_file :: "bytes \<Rightarrow> bytes \<Rightarrow> bytes \<Rightarrow> int \<Rightarrow> 'a fatstate_scheme \<Rightarrow> ('a fatstate_scheme \<times> int) option" where
  "connect_file parent name r mode s =
     (case free_fd_loop s 3 (NR_FILES - 3) of
        None \<Rightarrow> Some (s, - 1)
      | Some fd \<Rightarrow>
        (case free_desc_loop s 0 NR_FILE_DESC of
           None \<Rightarrow> Some (s, - 1)
         | Some i \<Rightarrow> do {
             let s = set_desc (s\<lparr>filp := (filp s)(fd := Some i)\<rparr>) i (\<lambda>e. e\<lparr>flag := 1\<rparr>);
             k \<leftarrow> free_file_loop s 0 NR_FILE_DESC;
             n \<leftarrow> strlen parent;
             pp \<leftarrow> copy_chars (\<lambda>_. 0) 0 parent 0 (n + 1);
             n \<leftarrow> strlen name;
             nm \<leftarrow> copy_chars (\<lambda>_. 0) 0 name 0 (n + 1);
             let s = upd_file k (\<lambda>_. \<lparr>ff_parent = pp, ff_name = nm, ff_start = record_start r, ff_off = 0,
               ff_size = load32 r 28, ff_flag = of_int mode\<rparr>) s;
             Some (set_desc s i (\<lambda>e. e\<lparr>fd_node := FileNode k\<rparr>), int fd)
           }))"

definition OpenFile :: "bytes \<Rightarrow> int \<Rightarrow> 'a fatstate_scheme \<Rightarrow> ('a fatstate_scheme \<times> int) option" where
  "OpenFile filename mode s = do {
     (fullpath, parent, name) \<leftarrow> path_parts filename s;
     (s, r) \<leftarrow> PathToCluster parent s;
     case r of
       Inl e \<Rightarrow> Some (s, - 1)
     | Inr parentCluster \<Rightarrow> do {
         (s, e, sectorIndex, off) \<leftarrow> FindSpaceInDir parentCluster name s;
         if mode AND O_CREAT = 0 \<and> e \<noteq> NAMEEXIST then Some (s, - 1)
         else do {
           s \<leftarrow> (if e = NAMEEXIST then Some s else create_entry name sectorIndex off s);
           (s, e, r, _) \<leftarrow> ReadRecord parentCluster name s;
           if e \<noteq> OK then Some (s, - 1) else connect_file parent name r mode s
         }
       }
   }"

definition CreateFile :: "bytes \<Rightarrow> 'a fatstate_scheme \<Rightarrow> ('a fatstate_scheme \<times> int) option" where
  "CreateFile filename s = do {
     fullpath \<leftarrow> ToFullPath (cur_path s) filename (\<lambda>_. 0);
     parent \<leftarrow> GetParentFromPath fullpath (\<lambda>_. 0);
     name \<leftarrow> GetNameFromPath filename (\<lambda>_. 0);
     (s, r) \<leftarrow> PathToCluster parent s;
     case r of
       Inl e \<Rightarrow> Some (s, e)
     | Inr parentCluster \<Rightarrow> do {
         (s, e, sectorIndex, off) \<leftarrow> FindSpaceInDir parentCluster name s;
         if e \<noteq> OK then Some (s, e)
         else do { s \<leftarrow> create_entry name sectorIndex off s; Some (s, OK) }
       }
   }"

text \<open>Cutting off the clusters behind the position. The current cluster is 0 here: the code computes the sector from
  the cluster instead of the cluster from the sector.\<close>

definition cut_file :: "nat \<Rightarrow> 'a fatstate_scheme \<Rightarrow> 'a fatstate_scheme option" where
  "cut_file k s =
     (if ff_off (f_desc_table_fat s k) < ff_size (f_desc_table_fat s k) then do {
        (s, _, _, isLast) \<leftarrow> GetFileOffset (f_desc_table_fat s k) 0 s;
        if isLast = 0 then
          if Sectors_Per_Cluster s = 0 then None
          else do {
            (s, nextCluster) \<leftarrow> GetNextCluster 0 s;
            if nextCluster \<noteq> FAT_END then do { s \<leftarrow> WriteFAT 1 (\<lambda>_. 0) s; ClearFATs nextCluster s } else Some s
          }
        else Some s
      } else Some s)"

text \<open>The results of \<^verbatim>\<open>PathToCluster\<close> and \<^verbatim>\<open>ReadRecord\<close> are not looked at: the cluster stays 0, the sector and the place as well.\<close>

definition CloseFile :: "int \<Rightarrow> 'a fatstate_scheme \<Rightarrow> ('a fatstate_scheme \<times> int) option" where
  "CloseFile fd s = do {
     (d, k) \<leftarrow> fat_fd fd s;
     let s = upd_file (nat fd) (ff_flag_update (\<lambda>_. 0)) s;
     let s = set_desc s d (\<lambda>e. e\<lparr>flag := 0\<rparr>);
     let s = s\<lparr>filp := (filp s)(nat fd := None)\<rparr>;
     if ff_flag (f_desc_table_fat s k) = R_MODE then Some (s, OK)
     else do {
       s \<leftarrow> cut_file k s;
       let pfile = f_desc_table_fat s k;
       (s, r) \<leftarrow> PathToCluster (ff_parent pfile) s;
       let parentCluster = (case r of Inl _ \<Rightarrow> 0 | Inr c \<Rightarrow> c);
       (s, _, r, p) \<leftarrow> ReadRecord parentCluster (ff_name pfile) s;
       let (sectorIndex, off) = (case p of None \<Rightarrow> (0, 0) | Some q \<Rightarrow> q);
       let r = store16 r 20 (ucast (drop_bit 16 (ff_start pfile)));
       let r = store16 r 26 (ucast (ff_start pfile AND 0x0000FFFF));
       let r = store32 r 28 (ff_off pfile);
       s \<leftarrow> WriteRecord r sectorIndex off s;
       Some (s, OK)
     }
   }"

subsection \<open>Making and loading a file system\<close>

definition rw_sector_fat :: "io_type \<Rightarrow> int \<Rightarrow> 64 word \<Rightarrow> int \<Rightarrow> bytes \<Rightarrow> 'a fatstate_scheme \<Rightarrow>
    ('a fatstate_scheme \<times> bytes) option" where
  "rw_sector_fat t dev pos n buf s = do {
     (d, buf) \<leftarrow> hd_rdwt (disk (hds s)) \<lparr>io_type = t, device = MINOR dev, position = pos, cnt = n\<rparr> buf;
     Some (s\<lparr>hds := (hds s)\<lparr>disk := d\<rparr>\<rparr>, buf)
   }"

definition wr_sect_fat :: "int \<Rightarrow> u32 \<Rightarrow> 'a fatstate_scheme \<Rightarrow> 'a fatstate_scheme option" where
  "wr_sect_fat dev sect_nr s = do {
     (s, _) \<leftarrow> rw_sector_fat DEV_WRITE dev (ucast (sect_nr * of_nat SECTOR_SIZE)) (int SECTOR_SIZE) (fat_buf s) s;
     Some s
   }"

definition load_disk :: "int \<Rightarrow> 'a fatstate_scheme \<Rightarrow> 'a fatstate_scheme option" where
  "load_disk dev s = do {
     (s, buf) \<leftarrow> rw_sector_fat DEV_READ dev (of_nat SECTOR_SIZE) (int SECTOR_SIZE) (fat_buf s) s;
     let s = s\<lparr>fat_buf := buf, Bytes_Per_Sector := ucast (load16 buf 11), Sectors_Per_Cluster := buf 13,
       Reserved_Sector := ucast (load16 buf 14), TotalSectors := load32 buf 32, Sectors_Per_FAT := load32 buf 36\<rparr>;
     let s = s\<lparr>Position_Of_RootDir := (rsv s + Sectors_Per_FAT s * 2) * bps s, Position_Of_FAT1 := rsv s * bps s,
       Position_Of_FAT2 := (rsv s + Sectors_Per_FAT s) * bps s\<rparr>;
     set_cur_path (cstr (lit ''V:'' @ [BACKSLASH])) s
   }"

text \<open>The boot sector. The bytes that are not written are those that were in the buffer before.\<close>

definition mkfs_boot_sector :: "u32 \<Rightarrow> u32 \<Rightarrow> bytes \<Rightarrow> bytes" where
  "mkfs_boot_sector totalSectors sectors_per_FAT buf =
     (let buf = store_list buf 0 [0xEB, 0x58, 0x90];
          buf = store32 (store32 buf 3 0x4F44534D) 7 0x302E3553;
          buf = store16 buf 11 512;
          buf = buf(13 := 8);
          buf = store16 buf 14 32;
          buf = buf(16 := 2, 21 := 0xF8);
          buf = store32 buf 32 totalSectors;
          buf = store32 buf 36 sectors_per_FAT;
          buf = store32 buf 44 2;
          buf = store_list buf 71 (lit ''NO NAME    '');
          buf = store_list buf 82 (lit ''FAT32   '')
      in store16 buf 510 0xAA55)"

definition mkfs_fat_sector :: "bytes \<Rightarrow> bytes" where
  "mkfs_fat_sector buf =
     (let buf = store_list buf 0 (replicate SECTOR_SIZE 0);
          buf = store32 (store32 buf 0 0x0FFFFFF8) 4 0xFFFFFFFF
      in store32 buf 8 0x0FFFFFFF)"

text \<open>The label \<^verbatim>\<open>MZY\<close> has no zero behind it: the bytes that follow are not set.\<close>

definition mkfs_fat :: "'a fatstate_scheme \<Rightarrow> 'a fatstate_scheme option" where
  "mkfs_fat s = do {
     let dev = get_fs_dev s FAT32_TYPE;
     geo \<leftarrow> hd_ioctl (disk (hds s)) (MINOR dev);
     let s = s\<lparr>TotalSectors := psize geo\<rparr>;
     let sectors_per_FAT = (TotalSectors s * 512 - 8192) div 525312 + 1;
     s \<leftarrow> wr_sect_fat dev 1 (s\<lparr>fat_buf := mkfs_boot_sector (TotalSectors s) sectors_per_FAT (fat_buf s)\<rparr>);
     s \<leftarrow> wr_sect_fat dev 32 (s\<lparr>fat_buf := mkfs_fat_sector (fat_buf s)\<rparr>);
     vLabel \<leftarrow> CreateRecord (store_list (unset s) 0 (lit ''MZY'')) 0x08 0 0 (unset s);
     let buf = store_list (fat_buf s) 0 (replicate SECTOR_SIZE 0);
     let buf = store_list buf 0 (load_list vLabel 0 RECORD_SIZE);
     wr_sect_fat dev (32 + 2 * sectors_per_FAT) (s\<lparr>fat_buf := buf\<rparr>)
   }"

definition init_fs_fat :: "'a fatstate_scheme \<Rightarrow> 'a fatstate_scheme option" where
  "init_fs_fat s = do {
     s \<leftarrow> kmalloc_buf FSBUF_SIZE s;
     let dev = get_fs_dev s FAT32_TYPE;
     s \<leftarrow> load_disk dev (s\<lparr>fat_buf := unset s\<rparr>);
     s \<leftarrow> (if TotalSectors s = 0 then do { s \<leftarrow> mkfs_fat s; load_disk dev s } else Some s);
     Some (s\<lparr>f_desc_table_fat := (\<lambda>k. if k < NR_FILE_DESC then (f_desc_table_fat s k)\<lparr>ff_flag := 0\<rparr>
       else f_desc_table_fat s k)\<rparr>)
   }"

text \<open>The operations that \<^verbatim>\<open>init_fileop_table\<close> gives to the virtual file system.\<close>

definition fat_ops :: "('a fatstate_scheme) file_op" where
  "fat_ops = no_op\<lparr>op_create := Some (\<lambda>s p. CreateFile (cstr p) s), op_delete := Some (\<lambda>s p. DeleteFile (cstr p) s),
     op_open := Some (\<lambda>s p mode. OpenFile (cstr p) mode s), op_close := Some (\<lambda>s fd. CloseFile fd s),
     op_write := Some (\<lambda>s fd buf n. WriteFile fd buf n s), op_read := Some (\<lambda>s fd buf n. ReadFile fd buf n s),
     op_opendir := Some (\<lambda>s p. OpenDir (cstr p) s), op_createdir := Some (\<lambda>s p. CreateDir (cstr p) s),
     op_deletedir := Some (\<lambda>s p. DeleteDir (cstr p) s)\<rparr>"

declare read_file_loop.simps [code] and write_file_loop.simps [code]

end
