(* ===== verification/FatDisk.thy ===== *)
theory FatDisk
  imports FatFile OrangeDisk
begin

text \<open>
  What the FAT32 file system does on its disk. A sector read or written through the queue leaves everything
  else as it was, and the memory manager with the same blocks; with that, the file allocation table is a map from clusters to
  entries, through the sector buffers and the cache \<^verbatim>\<open>FATBuf\<close>.
\<close>

subsection \<open>Sectors\<close>

abbreviation fat_dev :: "'a fatstate_scheme \<Rightarrow> int" where "fat_dev s \<equiv> get_fs_dev s FAT32_TYPE"

definition sec_ok :: "'a fatstate_scheme \<Rightarrow> u32 \<Rightarrow> bool" where
  "sec_ok s i \<longleftrightarrow> sect_ok s (fat_dev s) (int (unat i))"

definition fsec :: "'a fatstate_scheme \<Rightarrow> u32 \<Rightarrow> bytes" where
  "fsec s i = blk s (fat_dev s) (int (unat i))"

definition dev_ready :: "'a fatstate_scheme \<Rightarrow> bool" where
  "dev_ready s \<longleftrightarrow> rear (hdque (hds s)) = None \<and> memman_ok (memman s) \<and> snd (do_kmalloc (memman s) 512) \<noteq> - 1"

text \<open>The place of a sector on the disk.\<close>

definition fat_lba :: "'a fatstate_scheme \<Rightarrow> u32 \<Rightarrow> nat" where
  "fat_lba s i = lba_of s (fat_dev s) (int (unat i))"

lemma get_fs_dev_cong: "hd0 (disk (hds s')) = hd0 (disk (hds s)) \<Longrightarrow> get_fs_dev s' t = get_fs_dev s t"
  by (simp add: get_fs_dev_def)

lemma fat_lba_cong: "hd0 (disk (hds s')) = hd0 (disk (hds s)) \<Longrightarrow> fat_lba s' = fat_lba s"
  using get_fs_dev_cong[of s' s FAT32_TYPE] part_of_dev_cong[of "disk (hds s')" "disk (hds s)"]
  by (simp add: fat_lba_def lba_of_def fun_eq_iff)

text \<open>The two states differ only in the sectors of the device, the disk driver, the memory manager and the cache, and the blocks of
  the memory manager are the same.\<close>

definition calm :: "'a fatstate_scheme \<Rightarrow> 'a fatstate_scheme \<Rightarrow> bool" where
  "calm s s' \<longleftrightarrow>
     Bytes_Per_Sector s' = Bytes_Per_Sector s \<and> Sectors_Per_Cluster s' = Sectors_Per_Cluster s \<and>
     Reserved_Sector s' = Reserved_Sector s \<and> Sectors_Per_FAT s' = Sectors_Per_FAT s \<and>
     Position_Of_RootDir s' = Position_Of_RootDir s \<and> Position_Of_FAT2 s' = Position_Of_FAT2 s \<and>
     f_desc_table_fat s' = f_desc_table_fat s \<and> unset s' = unset s \<and> cur_path s' = cur_path s \<and>
     filp s' = filp s \<and> f_desc_table s' = f_desc_table s \<and>
     hd0 (disk (hds s')) = hd0 (disk (hds s)) \<and> rear (hdque (hds s')) = None \<and> blocks (memman s') = blocks (memman s) \<and>
     (\<forall>k. k \<notin> range (fat_lba s) \<longrightarrow> sectors (disk (hds s')) k = sectors (disk (hds s)) k)"

lemma calm_eqs:
  assumes "calm s s'"
  shows "Bytes_Per_Sector s' = Bytes_Per_Sector s" "Sectors_Per_Cluster s' = Sectors_Per_Cluster s"
    "Reserved_Sector s' = Reserved_Sector s" "Sectors_Per_FAT s' = Sectors_Per_FAT s" "Position_Of_RootDir s' = Position_Of_RootDir s"
    "Position_Of_FAT2 s' = Position_Of_FAT2 s" "f_desc_table_fat s' = f_desc_table_fat s" "unset s' = unset s" "cur_path s' = cur_path s"
    "hd0 (disk (hds s')) = hd0 (disk (hds s))" "rear (hdque (hds s')) = None" "blocks (memman s') = blocks (memman s)"
    "filp s' = filp s" "f_desc_table s' = f_desc_table s"
  using assms by (simp_all add: calm_def)

lemma calm_trans: "calm s s' \<Longrightarrow> calm s' s'' \<Longrightarrow> calm s s''"
  using fat_lba_cong[of s' s] by (simp add: calm_def)

lemma blocks_frees: "blocks m' = blocks m \<Longrightarrow> frees m' = frees m"
  by (metis length_blocks)

lemma memman_ok_cong: "blocks m' = blocks m \<Longrightarrow> memman_ok m' = memman_ok m"
  using blocks_frees[of m' m] by (simp add: memman_ok_def)

lemma do_kmalloc_cong:
  assumes "blocks m' = blocks m"
  shows "snd (do_kmalloc m' n) = snd (do_kmalloc m n)" "blocks (fst (do_kmalloc m' n)) = blocks (fst (do_kmalloc m n))"
  using assms by (simp_all add: do_kmalloc_def memman_kalloc_def alloc_loop_all)

lemma calm_ready: "calm s s' \<Longrightarrow> dev_ready s' = (memman_ok (memman s) \<and> snd (do_kmalloc (memman s) 512) \<noteq> - 1)"
  using memman_ok_cong[of "memman s'" "memman s"] do_kmalloc_cong(1)[of "memman s'" "memman s" 512]
  by (simp add: dev_ready_def calm_eqs)

lemma calm_places:
  assumes "calm s s'"
  shows "fat_dev s' = fat_dev s" "sec_ok s' i = sec_ok s i" "lba_of s' dev n = lba_of s dev n"
  using get_fs_dev_cong[OF calm_eqs(10)[OF assms]] part_of_dev_cong[OF calm_eqs(10)[OF assms]]
  by (simp_all add: sec_ok_def sect_ok_def lba_of_def)

lemma sector_byte:
  assumes "unat (i :: u32) < 2 ^ 22"
  shows "sint (i * of_nat SECTOR_SIZE) = int (unat i) * 512"
proof -
  have "i * of_nat SECTOR_SIZE = of_nat (unat i * 512)" by (simp add: SECTOR_SIZE_def)
  then have "sint (i * of_nat SECTOR_SIZE) = int (unat i * 512)"
    using u32_nat_sint[of "unat i * 512"] assms by (simp del: of_nat_mult)
  then show ?thesis by simp
qed

lemma sched_command:
  assumes "sec_ok s i" "dev_ready s"
  shows "\<exists>h b. hd_rdwt_sched ((hds s)\<lparr>kmem := memman s\<rparr>) a pid
      \<lparr>io_type = t, device = MINOR (fat_dev s), position = of_int (sint (i * of_nat SECTOR_SIZE)), cnt = int SECTOR_SIZE\<rparr> buf = Some (h, b) \<and>
    hd0 (disk h) = hd0 (disk (hds s)) \<and> rear (hdque h) = None \<and> blocks (kmem h) = blocks (memman s) \<and>
    (case t of DEV_READ \<Rightarrow> sectors (disk h) = sectors (disk (hds s)) \<and> b = (\<lambda>j. if j < 512 then fsec s i j else buf j)
     | DEV_WRITE \<Rightarrow> sectors (disk h) = put_sectors (sectors (disk (hds s))) (lba_of s (fat_dev s) (int (unat i))) 1 buf 0)"
proof -
  let ?n = "int (unat i)" and ?p = "\<lparr>io_type = t, device = MINOR (fat_dev s), position = of_int (int (unat i) * 512), cnt = 512\<rparr>"
  have ok: "sect_ok s (fat_dev s) ?n" using assms(1) by (simp add: sec_ok_def)
  then have "uint i < 2 ^ 22" by (auto simp: sect_ok_def split: option.splits)
  then have "nat (uint i) < nat (2 ^ 22)" by (subst nat_mono_iff) simp_all
  then have small: "unat i < 2 ^ 22" by simp
  obtain part where part: "part_of_dev (disk (hds s)) (MINOR (fat_dev s)) = Some part"
    and lba: "cmd_lba (rw_cmd (ucast (drop_bit 9 (of_int (?n * 512) :: 64 word)) + base part) 512 t) = lba_of s (fat_dev s) ?n"
    using sect_command[OF ok, of t] by auto
  let ?h = "(hds s)\<lparr>kmem := memman s\<rparr>"
  have ready: "rear (hdque ?h) = None" "memman_ok (kmem ?h)" "snd (do_kmalloc (kmem ?h) (of_int (cnt ?p))) \<noteq> - 1"
    using assms(2) by (simp_all add: dev_ready_def)
  have "\<exists>d buf' h. hd_rdwt (disk ?h) ?p buf = Some (d, buf') \<and> hd_rdwt_sched ?h a pid ?p buf = Some (h, buf') \<and> disk h = d \<and>
      rear (hdque h) = None \<and> \<not> sleeping h pid \<and> blocks (kmem h) = blocks (kmem ?h)"
    by (rule sched_direct[where n = 1 and part = part]) (use part ready in simp_all)
  then obtain d buf' h where h: "hd_rdwt (disk ?h) ?p buf = Some (d, buf')" "hd_rdwt_sched ?h a pid ?p buf = Some (h, buf')"
      "disk h = d" "rear (hdque h) = None" "blocks (kmem h) = blocks (kmem ?h)"
    by blast
  have "hd_rdwt (disk ?h) ?p buf = (case io_type ?p of
      DEV_READ \<Rightarrow> Some (disk ?h, get_sectors (sectors (disk ?h)) (lba_of s (fat_dev s) ?n) 1 buf 0)
    | DEV_WRITE \<Rightarrow> Some ((disk ?h)\<lparr>sectors := put_sectors (sectors (disk ?h)) (lba_of s (fat_dev s) ?n) 1 buf 0\<rparr>, buf))"
    by (rule hd_rdwt_sectors[where part = part]) (use part lba in simp_all)
  then have r: "Some (d, buf') = (case t of
      DEV_READ \<Rightarrow> Some (disk (hds s), get_sectors (sectors (disk (hds s))) (lba_of s (fat_dev s) ?n) 1 buf 0)
    | DEV_WRITE \<Rightarrow> Some ((disk (hds s))\<lparr>sectors := put_sectors (sectors (disk (hds s))) (lba_of s (fat_dev s) ?n) 1 buf 0\<rparr>, buf))"
    using h(1) by (cases t) auto
  have g: "get_sectors (sectors (disk (hds s))) (lba_of s (fat_dev s) ?n) 1 buf 0 = (\<lambda>j. if j < 512 then fsec s i j else buf j)"
    by (auto simp: get_sectors_def fsec_def blk_def fun_eq_iff)
  have e: "of_int (sint (i * of_nat SECTOR_SIZE)) = (of_int (?n * 512) :: 64 word)" "int SECTOR_SIZE = 512"
    using sector_byte[OF small] by (simp_all add: SECTOR_SIZE_def)
  have "hd0 (disk h) = hd0 (disk (hds s)) \<and> (case t of
      DEV_READ \<Rightarrow> sectors (disk h) = sectors (disk (hds s)) \<and> buf' = (\<lambda>j. if j < 512 then fsec s i j else buf j)
     | DEV_WRITE \<Rightarrow> sectors (disk h) = put_sectors (sectors (disk (hds s))) (lba_of s (fat_dev s) (int (unat i))) 1 buf 0)"
    using r h(3) unfolding g by (cases t) simp_all
  then show ?thesis unfolding e using h(2,4,5) by (intro exI[of _ h] exI[of _ buf']) simp
qed

lemma fsec_cong:
  assumes "hd0 (disk (hds s')) = hd0 (disk (hds s))" "sectors (disk (hds s')) = sectors (disk (hds s))"
  shows "fsec s' = fsec s"
  using assms get_fs_dev_cong[OF assms(1)] part_of_dev_cong[OF assms(1)] by (simp add: fsec_def blk_def lba_of_def fun_eq_iff)

lemma ReadSector_ok:
  assumes "sec_ok s i" "dev_ready s" "512 \<le> cap"
  obtains s' where "ReadSector buf cap i s = Some (s', \<lambda>j. if j < 512 then fsec s i j else buf j)" "calm s s'" "fsec s' = fsec s"
    "FATBuf s' = FATBuf s" "globalSectorIndex s' = globalSectorIndex s"
proof -
  obtain h b where h: "hd_rdwt_sched ((hds s)\<lparr>kmem := memman s\<rparr>) (stack_addr s) (cur_pid s)
      \<lparr>io_type = DEV_READ, device = MINOR (fat_dev s), position = of_int (sint (i * of_nat SECTOR_SIZE)), cnt = int SECTOR_SIZE\<rparr> buf = Some (h, b)"
    "hd0 (disk h) = hd0 (disk (hds s))" "rear (hdque h) = None" "blocks (kmem h) = blocks (memman s)"
    "sectors (disk h) = sectors (disk (hds s))" "b = (\<lambda>j. if j < 512 then fsec s i j else buf j)"
    using sched_command[OF assms(1,2), of "stack_addr s" "cur_pid s" DEV_READ buf] by auto
  let ?s = "s\<lparr>hds := h, memman := kmem h\<rparr>"
  have "ReadSector buf cap i s = Some (?s, b)"
    using assms(3) h(1) by (simp add: ReadSector_def rw_sector_sched_fat_def SECTOR_SIZE_def)
  moreover have "calm s ?s" using h(2-5) by (simp add: calm_def)
  moreover have "fsec ?s = fsec s" using h(2,5) by (intro fsec_cong) simp_all
  ultimately show ?thesis using that h(6) by simp
qed

text \<open>The sectors of the device after one has been written.\<close>

lemma fsec_put:
  assumes "hd0 (disk (hds s')) = hd0 (disk (hds s))"
    "sectors (disk (hds s')) = put_sectors (sectors (disk (hds s))) (lba_of s (fat_dev s) (int (unat i))) 1 buf 0"
  shows "fsec s' = (fsec s)(i := (\<lambda>j. if j < 512 then buf j else 0))"
proof (rule ext)
  fix k :: u32
  define L where "L k = lba_of s (fat_dev s) (int (unat k))" for k :: u32
  have l: "lba_of s' (fat_dev s') (int (unat k)) = L k"
    using get_fs_dev_cong[OF assms(1)] part_of_dev_cong[OF assms(1)] by (simp add: lba_of_def L_def)
  have "L k = L i \<longleftrightarrow> k = i" by (auto simp: L_def lba_of_def word_unat_eq_iff)
  moreover have "fsec s k = (\<lambda>j. if j < 512 then sectors (disk (hds s)) (L k) j else 0)"
    unfolding fsec_def blk_def L_def ..
  moreover have "fsec s' k = (\<lambda>j. if j < 512 then put_sectors (sectors (disk (hds s))) (L i) 1 buf 0 (L k) j else 0)"
    unfolding fsec_def blk_def l assms(2) L_def ..
  moreover have "put_sectors f (L i) 1 buf 0 = f(L i := (\<lambda>j. if j < 512 then buf j else f (L i) j))" for f
    by (auto simp: put_sectors_def fun_eq_iff le_less_Suc_eq)
  ultimately show "fsec s' k = ((fsec s)(i := (\<lambda>j. if j < 512 then buf j else 0))) k"
    by (simp del: One_nat_def cong: if_cong)
qed

text \<open>What the sectors of the device say about the whole disk.\<close>

lemma disk_frame:
  assumes "calm s s'" "\<forall>x. x \<notin> A \<longrightarrow> fsec s' x = fsec s x"
  shows "\<forall>k j. k \<notin> fat_lba s ` A \<and> j < 512 \<longrightarrow> sectors (disk (hds s')) k j = sectors (disk (hds s)) k j"
proof (intro allI impI)
  fix k j :: nat assume kj: "k \<notin> fat_lba s ` A \<and> j < 512"
  show "sectors (disk (hds s')) k j = sectors (disk (hds s)) k j"
  proof (cases "k \<in> range (fat_lba s)")
    case True
    then obtain i where i: "k = fat_lba s i" by blast
    then have "fsec s' i j = fsec s i j" using kj assms(2) by auto
    then show ?thesis using kj i calm_places(1,3)[OF assms(1)] by (simp add: fsec_def blk_def fat_lba_def)
  qed (use assms(1) in \<open>simp add: calm_def\<close>)
qed

text \<open>The cache holds its sector.\<close>

definition cache_ok :: "'a fatstate_scheme \<Rightarrow> bool" where
  "cache_ok s \<longleftrightarrow> globalSectorIndex s = - 1 \<or> (\<forall>j<512. FATBuf s j = fsec s (globalSectorIndex s) j)"

lemma not_sec_ok_minus_1: "\<not> sec_ok s (- 1)"
  by (auto simp: sec_ok_def sect_ok_def unsigned_minus_1_eq_mask mask_eq_exp_minus_1 split: option.splits)

lemma WriteSector_ok:
  assumes "sec_ok s i" "dev_ready s" "512 \<le> cap"
  obtains s' where "WriteSector buf cap i s = Some s'" "calm s s'" "fsec s' = (fsec s)(i := (\<lambda>j. if j < 512 then buf j else 0))"
    "cache_ok s \<longrightarrow> cache_ok s'"
proof -
  define s0 where "s0 = (if i = globalSectorIndex s then s\<lparr>FATBuf := store_list (FATBuf s) 0 (load_list buf 0 512)\<rparr> else s)"
  have e: "hds s0 = hds s" "memman s0 = memman s" "stack_addr s0 = stack_addr s" "cur_pid s0 = cur_pid s"
    "globalSectorIndex s0 = globalSectorIndex s"
    by (simp_all add: s0_def)
  obtain h b where h: "hd_rdwt_sched ((hds s)\<lparr>kmem := memman s\<rparr>) (stack_addr s) (cur_pid s)
      \<lparr>io_type = DEV_WRITE, device = MINOR (fat_dev s), position = of_int (sint (i * of_nat SECTOR_SIZE)), cnt = int SECTOR_SIZE\<rparr> buf = Some (h, b)"
    "hd0 (disk h) = hd0 (disk (hds s))" "rear (hdque h) = None" "blocks (kmem h) = blocks (memman s)"
    "sectors (disk h) = put_sectors (sectors (disk (hds s))) (lba_of s (fat_dev s) (int (unat i))) 1 buf 0"
    using sched_command[OF assms(1,2), of "stack_addr s" "cur_pid s" DEV_WRITE buf] by auto
  let ?s = "s0\<lparr>hds := h, memman := kmem h\<rparr>"
  have d: "get_fs_dev s0 FAT32_TYPE = fat_dev s" by (rule get_fs_dev_cong) (simp add: e)
  have "WriteSector buf cap i s = Some ?s"
    using assms(3) h(1) by (simp add: WriteSector_def s0_def[symmetric] Let_def rw_sector_sched_fat_def SECTOR_SIZE_def e d)
  moreover have "calm s ?s"
  proof -
    have "sectors (disk h) k = sectors (disk (hds s)) k" if "k \<notin> range (fat_lba s)" for k
    proof -
      have "k \<noteq> fat_lba s i" using that by blast
      then show ?thesis unfolding h(5) by (auto simp: put_sectors_def fat_lba_def fun_eq_iff le_less_Suc_eq)
    qed
    then show ?thesis using h(2-4) by (simp add: calm_def s0_def)
  qed
  moreover have f: "fsec ?s = (fsec s)(i := (\<lambda>j. if j < 512 then buf j else 0))" by (rule fsec_put) (use h(2,5) in simp_all)
  moreover have "cache_ok ?s" if "cache_ok s"
  proof (cases "i = globalSectorIndex s")
    case True
    then have "FATBuf ?s j = buf j" if "j < 512" for j using that by (simp add: s0_def store_list_def)
    then show ?thesis using True unfolding cache_ok_def f by (simp add: e)
  next
    case False
    then show ?thesis using that unfolding cache_ok_def f by (simp add: e s0_def)
  qed
  ultimately show ?thesis using that by blast
qed

subsection \<open>The table as a map\<close>

text \<open>The geometry: sectors of 512 bytes, and a table of whole sectors behind the reserved ones.\<close>

definition fat_ok :: "'a fatstate_scheme \<Rightarrow> bool" where
  "fat_ok s \<longleftrightarrow> Bytes_Per_Sector s = 512 \<and> Reserved_Sector s \<noteq> 0 \<and> unat (Reserved_Sector s) + unat (Sectors_Per_FAT s) < 2 ^ 22 \<and>
     (\<forall>i. unat (Reserved_Sector s) \<le> unat i \<and> unat i < unat (Reserved_Sector s) + unat (Sectors_Per_FAT s) \<longrightarrow> sec_ok s i)"

definition in_fat :: "'a fatstate_scheme \<Rightarrow> u32 \<Rightarrow> bool" where
  "in_fat s c \<longleftrightarrow> unat c div 128 < unat (Sectors_Per_FAT s)"

definition fat_table :: "'a fatstate_scheme \<Rightarrow> (u32 \<Rightarrow> bytes) \<Rightarrow> u32 \<Rightarrow> u32" where
  "fat_table s F c = (if in_fat s c then load32 (F (fat_sector s c)) (unat (fat_off s c)) else 0)"

lemma fat_ok_calm:
  assumes "calm s s'"
  shows "fat_ok s' = fat_ok s" "in_fat s' c = in_fat s c" "fat_table s' F = fat_table s F" "fat_sector s' c = fat_sector s c"
    "fat_off s' c = fat_off s c" "cluster_sector s' c = cluster_sector s c"
  using calm_eqs[OF assms] calm_places(2)[OF assms]
  by (simp_all add: fat_ok_def in_fat_def fat_table_def fat_sector_def fat_off_def cluster_sector_def fun_eq_iff)

lemma fat_place:
  assumes ok: "fat_ok s" and c: "in_fat s c"
  shows "unat (fat_sector s c) = unat (Reserved_Sector s) + unat c div 128" "unat (fat_off s c) = 4 * (unat c mod 128)"
    "sec_ok s (fat_sector s c)" "fat_sector s c \<noteq> 0" "unat (fat_off s c) + 4 \<le> 512"
proof -
  have b: "bps s = of_nat 512" and r: "unat (Reserved_Sector s) + unat (Sectors_Per_FAT s) < 2 ^ 22" "Reserved_Sector s \<noteq> 0"
    using ok by (simp_all add: fat_ok_def)
  have q: "unat c div 128 < 2 ^ 22" using c r by (simp add: in_fat_def)
  then have small: "4 * unat c < 2 ^ 31" by simp
  have e: "8 + (c - 2) * 4 = of_nat (4 * unat c)" by (simp add: algebra_simps)
  have "fat_off s c = of_nat (4 * unat c mod 512)"
    unfolding fat_off_def b e using small by (intro u32_nat_mod) simp_all
  then show off: "unat (fat_off s c) = 4 * (unat c mod 128)"
    using unat_nat_u32[of "4 * unat c mod 512"] small by (simp add: mult_mod_right del: of_nat_mult)
  then show "unat (fat_off s c) + 4 \<le> 512" using mod_less_divisor[of 128 "unat c"] by simp
  have "(8 + (c - 2) * 4) div bps s = of_nat (4 * unat c div 512)"
    unfolding b e using small by (intro u32_nat_div) simp_all
  moreover have "4 * unat c div 512 = unat c div 128" by simp
  ultimately have "fat_sector s c = of_nat (unat (Reserved_Sector s) + unat c div 128)" by (simp add: fat_sector_def)
  moreover have "unat (Reserved_Sector s) + unat c div 128 < 2 ^ 32" using c r by (simp add: in_fat_def)
  ultimately show sec: "unat (fat_sector s c) = unat (Reserved_Sector s) + unat c div 128"
    using unat_nat_u32 by (simp del: of_nat_add)
  then show "sec_ok s (fat_sector s c)" using ok c by (simp add: fat_ok_def in_fat_def)
  show "fat_sector s c \<noteq> 0" using sec r(2) by (auto simp: unat_eq_0)
qed

lemma fat_table_upd:
  assumes ok: "fat_ok s" and c: "in_fat s c"
  shows "fat_table s (F(fat_sector s c := store32 (F (fat_sector s c)) (unat (fat_off s c)) v)) = (fat_table s F)(c := v)"
proof (rule ext)
  fix d
  show "fat_table s (F(fat_sector s c := store32 (F (fat_sector s c)) (unat (fat_off s c)) v)) d = ((fat_table s F)(c := v)) d"
  proof (cases "d = c \<or> \<not> in_fat s d")
    case True
    then show ?thesis using c by (auto simp: fat_table_def block_simps)
  next
    case False
    then have d: "in_fat s d" and "unat d \<noteq> unat c" by (auto simp: word_unat_eq_iff)
    then have "unat d div 128 \<noteq> unat c div 128 \<or> unat d mod 128 \<noteq> unat c mod 128" by (metis div_mult_mod_eq)
    then have "fat_sector s d \<noteq> fat_sector s c \<or> unat (fat_off s c) + 4 \<le> unat (fat_off s d) \<or> unat (fat_off s d) + 4 \<le> unat (fat_off s c)"
      using fat_place[OF ok c] fat_place[OF ok d] by auto
    then show ?thesis using False by (auto simp: fat_table_def load32_store32_disjoint)
  qed
qed

subsection \<open>The buffer over the disk\<close>

text \<open>The sectors as they will be when the buffer, if it holds the sector \<open>pre\<close>, is written.\<close>

definition view :: "'a fatstate_scheme \<Rightarrow> u32 \<Rightarrow> bytes \<Rightarrow> u32 \<Rightarrow> bytes" where
  "view s pre buf = (if pre \<noteq> 0 then (fsec s)(pre := (\<lambda>j. if j < 512 then buf j else 0)) else fsec s)"

lemma fsec_512: "(\<lambda>j. if j < 512 then fsec s i j else 0) = fsec s i"
  by (auto simp: fsec_def blk_def fun_eq_iff)

lemma view_set:
  assumes "pre \<noteq> 0" "a + 4 \<le> 512"
  shows "view s pre (store32 buf a v) = (view s pre buf)(pre := store32 (view s pre buf pre) a v)"
  using assms by (auto simp: view_def store32_def store_list_def fun_eq_iff)

lemma switch_sector_ok:
  assumes ready: "dev_ready s" and size: "Bytes_Per_Sector s = 512" and i: "sec_ok s i" "i \<noteq> 0" and pre: "pre \<noteq> 0 \<Longrightarrow> sec_ok s pre"
  obtains s' buf' where "switch_sector i pre buf s = Some (s', buf')" "calm s s'" "view s' i buf' = view s pre buf"
    "cache_ok s \<longrightarrow> cache_ok s'"
proof -
  have self: "calm s s" using ready by (simp add: calm_def dev_ready_def)
  have cap: "512 \<le> sector_size s" by (simp add: size)
  show ?thesis
  proof (cases "i = pre")
    case True
    then show ?thesis using self by (intro that[of s buf]) (simp_all add: switch_sector_def)
  next
    case False
    obtain s1 where s1: "(if pre \<noteq> 0 then WriteSector buf (sector_size s) pre s else Some s) = Some s1" "calm s s1"
      "fsec s1 = view s pre buf" "cache_ok s \<longrightarrow> cache_ok s1"
    proof (cases "pre = 0")
      case True
      then show ?thesis using self by (intro that[of s]) (simp_all add: view_def)
    next
      case False
      obtain s1 where "WriteSector buf (sector_size s) pre s = Some s1" "calm s s1"
          "fsec s1 = (fsec s)(pre := (\<lambda>j. if j < 512 then buf j else 0))" "cache_ok s \<longrightarrow> cache_ok s1"
        by (rule WriteSector_ok[OF pre[OF False] ready cap, of buf])
      then show ?thesis using False by (intro that) (simp_all add: view_def)
    qed
    have r1: "dev_ready s1" "sec_ok s1 i" "512 \<le> sector_size s1"
      using calm_ready[OF s1(2)] ready i(1) calm_places(2)[OF s1(2)] calm_eqs(1)[OF s1(2)] cap by (simp_all add: dev_ready_def)
    obtain s2 where s2: "ReadSector buf (sector_size s1) i s1 = Some (s2, \<lambda>j. if j < 512 then fsec s1 i j else buf j)" "calm s1 s2"
        "fsec s2 = fsec s1" "FATBuf s2 = FATBuf s1" "globalSectorIndex s2 = globalSectorIndex s1"
      by (rule ReadSector_ok[OF r1(2,1,3), of buf])
    have "switch_sector i pre buf s = Some (s2, \<lambda>j. if j < 512 then fsec s1 i j else buf j)"
      using False s1(1) s2(1) by (simp add: switch_sector_def split: if_splits)
    moreover have "view s2 i (\<lambda>j. if j < 512 then fsec s1 i j else buf j) = view s pre buf"
    proof -
      have "view s2 i (\<lambda>j. if j < 512 then fsec s1 i j else buf j) = (fsec s1)(i := (\<lambda>j. if j < 512 then fsec s1 i j else 0))"
        using i(2) by (auto simp: view_def s2(3) fun_eq_iff)
      then show ?thesis unfolding fsec_512 using s1(3) by simp
    qed
    moreover have "cache_ok s2" if "cache_ok s" using mp[OF s1(4) that] by (simp add: cache_ok_def s2)
    ultimately show ?thesis using that calm_trans[OF s1(2) s2(2)] by blast
  qed
qed

text \<open>The last sector is written.\<close>

lemma write_view:
  assumes ready: "dev_ready s" and size: "Bytes_Per_Sector s = 512" and i: "sec_ok s i" "i \<noteq> 0"
  obtains s' where "WriteSector buf (sector_size s) i s = Some s'" "calm s s'" "fsec s' = view s i buf" "cache_ok s \<longrightarrow> cache_ok s'"
proof -
  have "512 \<le> sector_size s" by (simp add: size)
  from WriteSector_ok[OF i(1) ready this, of buf] obtain s' where "WriteSector buf (sector_size s) i s = Some s'" "calm s s'"
      "fsec s' = (fsec s)(i := (\<lambda>j. if j < 512 then buf j else 0))" "cache_ok s \<longrightarrow> cache_ok s'" .
  then show ?thesis using that i(2) by (simp add: view_def)
qed

subsection \<open>Chains of clusters\<close>

text \<open>The table after the clusters of a list have been linked, and what a chain is.\<close>

fun links :: "u32 list \<Rightarrow> (u32 \<Rightarrow> u32) \<Rightarrow> u32 \<Rightarrow> u32" where
  "links [] E = E"
| "links (c # cs) E = links cs (E(c := (case cs of [] \<Rightarrow> FAT_END | d # _ \<Rightarrow> d)))"

fun fat_chain :: "(u32 \<Rightarrow> u32) \<Rightarrow> u32 list \<Rightarrow> bool" where
  "fat_chain E [] \<longleftrightarrow> False"
| "fat_chain E [c] \<longleftrightarrow> E c = FAT_END"
| "fat_chain E (c # d # cs) \<longleftrightarrow> E c = d \<and> d \<noteq> FAT_END \<and> fat_chain E (d # cs)"

lemma links_out: "c \<notin> set cs \<Longrightarrow> links cs E c = E c"
  by (induction cs arbitrary: E) auto

lemma fat_chain_cong: "(\<And>c. c \<in> set cs \<Longrightarrow> E' c = E c) \<Longrightarrow> fat_chain E' cs = fat_chain E cs"
  by (induction cs rule: induct_list012) auto

lemma links_chain: "cs \<noteq> [] \<Longrightarrow> distinct cs \<Longrightarrow> FAT_END \<notin> set cs \<Longrightarrow> fat_chain (links cs E) cs"
proof (induction cs arbitrary: E rule: induct_list012)
  case (3 c d cs)
  have e: "links (c # d # cs) E = links (d # cs) (E(c := d))" by simp
  have "links (d # cs) (E(c := d)) c = d" using 3(4) by (subst links_out) auto
  moreover have "d \<noteq> FAT_END" using 3(5) by auto
  ultimately show ?case using 3(2)[of "E(c := d)"] 3(4,5) unfolding e by (simp del: links.simps fun_upd_apply)
qed (auto simp: links_out)

text \<open>The entry the buffer shows is that of the table; changing it changes the table there only.\<close>

lemma entry_view:
  assumes "fat_ok s" "in_fat s c"
  shows "fat_table s (view s' (fat_sector s c) buf) c = load32 buf (unat (fat_off s c))"
proof -
  have "load32 (\<lambda>j. if j < 512 then buf j else 0) (unat (fat_off s c)) = load32 buf (unat (fat_off s c))"
    by (rule load32_cong) (use fat_place(5)[OF assms] in simp)
  then show ?thesis using assms(2) fat_place(4)[OF assms] by (simp add: fat_table_def view_def)
qed

lemma fat_step:
  assumes ok: "fat_ok s" and ready: "dev_ready s" and c: "in_fat s c" and pre: "pre \<noteq> 0 \<Longrightarrow> sec_ok s pre"
  obtains s1 buf1 where "switch_sector (fat_sector s c) pre buf s = Some (s1, buf1)" "calm s s1"
    "Bytes_Per_Sector s1 = 512" "fat_ok s1" "dev_ready s1" "cache_ok s \<longrightarrow> cache_ok s1"
    "entry_at buf1 512 (fat_off s c) = Some (fat_table s (view s pre buf) c)"
    "\<forall>v. set_entry buf1 512 (fat_off s c) v = Some (store32 buf1 (unat (fat_off s c)) v)"
    "\<forall>v. fat_table s (view s1 (fat_sector s c) (store32 buf1 (unat (fat_off s c)) v)) = (fat_table s (view s pre buf))(c := v)"
    "\<forall>v x. x \<noteq> fat_sector s c \<longrightarrow> view s1 (fat_sector s c) (store32 buf1 (unat (fat_off s c)) v) x = view s pre buf x"
proof -
  have bps: "Bytes_Per_Sector s = 512" using ok by (simp add: fat_ok_def)
  note pl = fat_place[OF ok c]
  obtain s1 buf1 where s1: "switch_sector (fat_sector s c) pre buf s = Some (s1, buf1)" "calm s s1"
      "view s1 (fat_sector s c) buf1 = view s pre buf" "cache_ok s \<longrightarrow> cache_ok s1"
    by (rule switch_sector_ok[OF ready bps pl(3,4) pre, of buf])
  have vw: "view s1 (fat_sector s c) (store32 buf1 (unat (fat_off s c)) v) =
      (view s pre buf)(fat_sector s c := store32 (view s pre buf (fat_sector s c)) (unat (fat_off s c)) v)" for v
    unfolding view_set[OF pl(4,5)] s1(3) ..
  show ?thesis
  proof (rule that[OF s1(1,2)])
    show "Bytes_Per_Sector s1 = 512" "fat_ok s1" "dev_ready s1"
      using calm_eqs(1)[OF s1(2)] bps fat_ok_calm(1)[OF s1(2)] ok calm_ready[OF s1(2)] ready by (simp_all add: dev_ready_def)
    show "cache_ok s \<longrightarrow> cache_ok s1" by (rule s1(4))
    show "entry_at buf1 512 (fat_off s c) = Some (fat_table s (view s pre buf) c)"
      using pl(5) entry_view[OF ok c, of s1 buf1] by (simp add: entry_at_def s1(3))
    show "\<forall>v. set_entry buf1 512 (fat_off s c) v = Some (store32 buf1 (unat (fat_off s c)) v)"
      using pl(5) by (simp add: set_entry_def)
    show "\<forall>v. fat_table s (view s1 (fat_sector s c) (store32 buf1 (unat (fat_off s c)) v)) = (fat_table s (view s pre buf))(c := v)"
      unfolding vw using fat_table_upd[OF ok c] by blast
    show "\<forall>v x. x \<noteq> fat_sector s c \<longrightarrow> view s1 (fat_sector s c) (store32 buf1 (unat (fat_off s c)) v) x = view s pre buf x"
      unfolding vw by simp
  qed
qed

lemma write_fat_loop_ok:
  assumes "fat_ok s" "dev_ready s" "\<And>k. k < length cs \<Longrightarrow> clusters (i + k) = cs ! k" "\<And>c. c \<in> set cs \<Longrightarrow> in_fat s c"
    "pre \<noteq> 0 \<Longrightarrow> sec_ok s pre"
  shows "\<exists>s' buf' cur. write_fat_loop clusters i (length cs) pre buf s = Some (s', buf', cur) \<and> calm s s' \<and>
    fat_table s (view s' cur buf') = links cs (fat_table s (view s pre buf)) \<and>
    (\<forall>x. x \<notin> fat_sector s ` set cs \<longrightarrow> view s' cur buf' x = view s pre buf x) \<and>
    (cache_ok s \<longrightarrow> cache_ok s') \<and> (cur \<noteq> 0 \<longrightarrow> sec_ok s cur) \<and> (cs \<noteq> [] \<longrightarrow> cur \<noteq> 0)"
  using assms
proof (induction cs arbitrary: i pre buf s)
  case Nil
  have "calm s s" using Nil(2) by (simp add: calm_def dev_ready_def)
  then show ?case using Nil(5) by simp
next
  case (Cons c cs)
  have c: "clusters i = c" "in_fat s c" using Cons.prems(3)[of 0] Cons.prems(4) by simp_all
  have bps: "Bytes_Per_Sector s = 512" using Cons.prems(1) by (simp add: fat_ok_def)
  obtain s1 buf1 where s1: "switch_sector (fat_sector s c) pre buf s = Some (s1, buf1)" "calm s s1"
      "Bytes_Per_Sector s1 = 512" "fat_ok s1" "dev_ready s1" "cache_ok s \<longrightarrow> cache_ok s1"
      "entry_at buf1 512 (fat_off s c) = Some (fat_table s (view s pre buf) c)"
      "\<forall>v. set_entry buf1 512 (fat_off s c) v = Some (store32 buf1 (unat (fat_off s c)) v)"
      "\<forall>v. fat_table s (view s1 (fat_sector s c) (store32 buf1 (unat (fat_off s c)) v)) = (fat_table s (view s pre buf))(c := v)"
      "\<forall>v x. x \<noteq> fat_sector s c \<longrightarrow> view s1 (fat_sector s c) (store32 buf1 (unat (fat_off s c)) v) x = view s pre buf x"
    by (rule fat_step[OF Cons.prems(1,2) c(2) Cons.prems(5), of buf])
  define v where "v = (case cs of [] \<Rightarrow> FAT_END | d # _ \<Rightarrow> d)"
  have v: "(if length cs > 0 then clusters (i + 1) else FAT_END) = v"
    using Cons.prems(3)[of 1] by (cases cs) (simp_all add: v_def)
  let ?buf = "store32 buf1 (unat (fat_off s c)) v"
  have r1: "\<And>c'. c' \<in> set cs \<Longrightarrow> in_fat s1 c'" "fat_sector s c \<noteq> 0 \<Longrightarrow> sec_ok s1 (fat_sector s c)"
    using Cons.prems(4) fat_ok_calm(2)[OF s1(2)] calm_places(2)[OF s1(2)] fat_place(3)[OF Cons.prems(1) c(2)] by simp_all
  have cl: "clusters (i + 1 + k) = cs ! k" if "k < length cs" for k using Cons.prems(3)[of "Suc k"] that by simp
  obtain s' buf' cur where IH: "write_fat_loop clusters (i + 1) (length cs) (fat_sector s c) ?buf s1 = Some (s', buf', cur)" "calm s1 s'"
      "fat_table s1 (view s' cur buf') = links cs (fat_table s1 (view s1 (fat_sector s c) ?buf))"
      "\<forall>x. x \<notin> fat_sector s1 ` set cs \<longrightarrow> view s' cur buf' x = view s1 (fat_sector s c) ?buf x"
      "cache_ok s1 \<longrightarrow> cache_ok s'" "cur \<noteq> 0 \<longrightarrow> sec_ok s1 cur" "cs \<noteq> [] \<longrightarrow> cur \<noteq> 0"
    using Cons.IH[OF s1(4,5) cl r1, of ?buf] by blast
  have "write_fat_loop clusters i (Suc (length cs)) pre buf s = Some (s', buf', cur)"
    unfolding write_fat_loop.simps(2) c(1) v using s1(1,3) IH(1) s1(8) fat_ok_calm(5)[OF s1(2)] bps by simp
  moreover have "fat_table s (view s' cur buf') = links (c # cs) (fat_table s (view s pre buf))"
    using IH(3) unfolding fat_ok_calm(3)[OF s1(2)] s1(9)[rule_format] by (simp add: v_def)
  moreover have "\<forall>x. x \<notin> fat_sector s ` set (c # cs) \<longrightarrow> view s' cur buf' x = view s pre buf x"
    using IH(4) s1(10) unfolding fat_ok_calm(4)[OF s1(2)] by simp
  moreover have "cur \<noteq> 0" using IH(1,7) fat_place(4)[OF Cons.prems(1) c(2)] by (cases cs) simp_all
  ultimately show ?case
    unfolding length_Cons using calm_trans[OF s1(2) IH(2)] s1(6) IH(5,6) calm_places(2)[OF s1(2)] by blast
qed

lemma fat_chain_ends: "fat_chain E (c # cs) \<Longrightarrow> E c = (case cs of [] \<Rightarrow> FAT_END | d # _ \<Rightarrow> d) \<and> (cs \<noteq> [] \<longrightarrow> E c \<noteq> FAT_END \<and> fat_chain E cs)"
  by (cases cs) auto

text \<open>The loop of \<^verbatim>\<open>ClearFATs\<close> ends at the end of the chain, and has set the entries of its clusters to 0.\<close>

lemma clear_chain_ok:
  assumes "fat_ok s" "dev_ready s" "fat_chain (fat_table s (view s pre buf)) (c # cs)" "distinct (c # cs)"
    "\<And>c'. c' \<in> set (c # cs) \<Longrightarrow> in_fat s c'" "pre \<noteq> 0 \<Longrightarrow> sec_ok s pre"
  shows "\<exists>s' buf' cur. clear_chain c pre buf s = Some (s', buf', cur) \<and> calm s s' \<and>
    fat_table s (view s' cur buf') = (\<lambda>d. if d \<in> set (c # cs) then 0 else fat_table s (view s pre buf) d) \<and>
    (\<forall>x. x \<notin> fat_sector s ` set (c # cs) \<longrightarrow> view s' cur buf' x = view s pre buf x) \<and>
    (cache_ok s \<longrightarrow> cache_ok s') \<and> sec_ok s cur \<and> cur \<noteq> 0"
  using assms
proof (induction cs arbitrary: c pre buf s)
  case (Nil c)
  have c: "in_fat s c" and bps: "Bytes_Per_Sector s = 512" using Nil(1,5) by (simp_all add: fat_ok_def)
  obtain s1 buf1 where s1: "switch_sector (fat_sector s c) pre buf s = Some (s1, buf1)" "calm s s1"
      "Bytes_Per_Sector s1 = 512" "fat_ok s1" "dev_ready s1" "cache_ok s \<longrightarrow> cache_ok s1"
      "entry_at buf1 512 (fat_off s c) = Some (fat_table s (view s pre buf) c)"
      "\<forall>v. set_entry buf1 512 (fat_off s c) v = Some (store32 buf1 (unat (fat_off s c)) v)"
      "\<forall>v. fat_table s (view s1 (fat_sector s c) (store32 buf1 (unat (fat_off s c)) v)) = (fat_table s (view s pre buf))(c := v)"
      "\<forall>v x. x \<noteq> fat_sector s c \<longrightarrow> view s1 (fat_sector s c) (store32 buf1 (unat (fat_off s c)) v) x = view s pre buf x"
    by (rule fat_step[OF Nil(1,2) c Nil(6), of buf])
  have "clear_chain c pre buf s = Some (s1, store32 buf1 (unat (fat_off s c)) 0, fat_sector s c)"
    using Nil(3) s1(1,3,7,8) bps by (subst clear_chain.simps) (simp add: Let_def)
  moreover have "(fat_table s (view s pre buf))(c := 0) = (\<lambda>d. if d \<in> set [c] then 0 else fat_table s (view s pre buf) d)" by auto
  moreover have "\<forall>x. x \<notin> fat_sector s ` set [c] \<longrightarrow> view s1 (fat_sector s c) (store32 buf1 (unat (fat_off s c)) 0) x = view s pre buf x"
    using s1(10) by simp
  ultimately show ?case using s1(2,6,9) fat_place(3,4)[OF Nil(1) c]
    by (intro exI[of _ s1] exI[of _ "store32 buf1 (unat (fat_off s c)) 0"] exI[of _ "fat_sector s c"]) simp
next
  case (Cons d cs c)
  have c: "in_fat s c" and bps: "Bytes_Per_Sector s = 512" using Cons.prems(1,5) by (simp_all add: fat_ok_def)
  obtain s1 buf1 where s1: "switch_sector (fat_sector s c) pre buf s = Some (s1, buf1)" "calm s s1"
      "Bytes_Per_Sector s1 = 512" "fat_ok s1" "dev_ready s1" "cache_ok s \<longrightarrow> cache_ok s1"
      "entry_at buf1 512 (fat_off s c) = Some (fat_table s (view s pre buf) c)"
      "\<forall>v. set_entry buf1 512 (fat_off s c) v = Some (store32 buf1 (unat (fat_off s c)) v)"
      "\<forall>v. fat_table s (view s1 (fat_sector s c) (store32 buf1 (unat (fat_off s c)) v)) = (fat_table s (view s pre buf))(c := v)"
      "\<forall>v x. x \<noteq> fat_sector s c \<longrightarrow> view s1 (fat_sector s c) (store32 buf1 (unat (fat_off s c)) v) x = view s pre buf x"
    by (rule fat_step[OF Cons.prems(1,2) c Cons.prems(6), of buf])
  let ?E = "fat_table s (view s pre buf)" and ?buf = "store32 buf1 (unat (fat_off s c)) 0"
  have next_: "?E c = d" "d \<noteq> FAT_END" "fat_chain ?E (d # cs)" using Cons.prems(3) by simp_all
  have "fat_chain (?E(c := 0)) (d # cs) = fat_chain ?E (d # cs)" by (rule fat_chain_cong) (use Cons.prems(4) in auto)
  then have ch: "fat_chain (?E(c := 0)) (d # cs)" using next_(3) by blast
  have r1: "fat_chain (fat_table s1 (view s1 (fat_sector s c) ?buf)) (d # cs)" "distinct (d # cs)"
      "\<And>c'. c' \<in> set (d # cs) \<Longrightarrow> in_fat s1 c'" "fat_sector s c \<noteq> 0 \<Longrightarrow> sec_ok s1 (fat_sector s c)"
    using Cons.prems(4,5) ch fat_ok_calm(2,3)[OF s1(2)] s1(9) calm_places(2)[OF s1(2)] fat_place(3)[OF Cons.prems(1) c] by simp_all
  obtain s' buf' cur where IH: "clear_chain d (fat_sector s c) ?buf s1 = Some (s', buf', cur)" "calm s1 s'"
      "fat_table s1 (view s' cur buf') = (\<lambda>e. if e \<in> set (d # cs) then 0 else fat_table s1 (view s1 (fat_sector s c) ?buf) e)"
      "\<forall>x. x \<notin> fat_sector s1 ` set (d # cs) \<longrightarrow> view s' cur buf' x = view s1 (fat_sector s c) ?buf x"
      "cache_ok s1 \<longrightarrow> cache_ok s'" "sec_ok s1 cur" "cur \<noteq> 0"
    using Cons.IH[OF s1(4,5) r1] by blast
  have "clear_chain c pre buf s = Some (s', buf', cur)"
    using next_(1,2) s1(1,3,7,8) bps IH(1) by (subst clear_chain.simps) (simp add: Let_def)
  moreover have "fat_table s (view s' cur buf') = (\<lambda>e. if e \<in> set (c # d # cs) then 0 else ?E e)"
    using IH(3) unfolding fat_ok_calm(3)[OF s1(2)] s1(9)[rule_format] by (simp add: fun_eq_iff)
  moreover have "\<forall>x. x \<notin> fat_sector s ` set (c # d # cs) \<longrightarrow> view s' cur buf' x = view s pre buf x"
    using IH(4) s1(10) unfolding fat_ok_calm(4)[OF s1(2)] by simp
  ultimately show ?case
    using calm_trans[OF s1(2) IH(2)] s1(6) IH(5-7) calm_places(2)[OF s1(2)] by blast
qed

subsection \<open>The operations on the table\<close>

text \<open>A buffer has been allocated and another allocation is possible, which is what one request to the disk needs.\<close>

definition buf_ready :: "'a fatstate_scheme \<Rightarrow> bool" where
  "buf_ready s \<longleftrightarrow> (case kmalloc_buf (bps s) s of None \<Rightarrow> False | Some s0 \<Rightarrow> dev_ready s0)"

lemma kmalloc_buf_keeps: "kmalloc_buf n s = Some s0 \<Longrightarrow> \<exists>m. s0 = s\<lparr>memman := m\<rparr>"
  by (auto simp: kmalloc_buf_def split: prod.splits if_splits)

lemma buf_readyE:
  assumes "buf_ready s"
  obtains s0 where "kmalloc_buf (bps s) s = Some s0" "dev_ready s0" "fsec s0 = fsec s" "fat_ok s0 = fat_ok s" "in_fat s0 = in_fat s"
    "fat_table s0 = fat_table s" "fat_sector s0 = fat_sector s" "unset s0 = unset s" "cache_ok s0 = cache_ok s" "Bytes_Per_Sector s0 = Bytes_Per_Sector s"
    "fat_off s0 = fat_off s" "hds s0 = hds s"
    "f_desc_table_fat s0 = f_desc_table_fat s" "f_desc_table s0 = f_desc_table s" "filp s0 = filp s" "cur_path s0 = cur_path s"
proof -
  obtain s0 where s0: "kmalloc_buf (bps s) s = Some s0" "dev_ready s0" using assms by (auto simp: buf_ready_def split: option.splits)
  obtain m where m: "s0 = s\<lparr>memman := m\<rparr>" using kmalloc_buf_keeps[OF s0(1)] by blast
  have d: "get_fs_dev s0 t = get_fs_dev s t" for t by (simp add: m get_fs_dev_def)
  have f: "fsec s0 = fsec s" by (rule fsec_cong) (simp_all add: m)
  have o: "sec_ok s0 = sec_ok s" by (simp add: sec_ok_def sect_ok_def d fun_eq_iff) (simp add: m)
  show ?thesis
    by (rule that[OF s0 f]) (simp_all add: fat_ok_def cache_ok_def f o, simp_all add: in_fat_def fat_table_def fat_sector_def fat_off_def fun_eq_iff m)
qed

lemma free_bytes_keeps [simp]:
  "fsec (free_bytes buf s) = fsec s" "fat_table (free_bytes buf s) = fat_table s" "cache_ok (free_bytes buf s) = cache_ok s"
  "fat_ok (free_bytes buf s) = fat_ok s" "hds (free_bytes buf s) = hds s" "f_desc_table_fat (free_bytes buf s) = f_desc_table_fat s"
  "f_desc_table (free_bytes buf s) = f_desc_table s" "filp (free_bytes buf s) = filp s" "cur_path (free_bytes buf s) = cur_path s"
proof -
  have d: "get_fs_dev (free_bytes buf s) t = get_fs_dev s t" for t by (simp add: free_bytes_def free_buf_def get_fs_dev_def)
  show f: "fsec (free_bytes buf s) = fsec s" by (rule fsec_cong) (simp_all add: free_bytes_def free_buf_def)
  have o: "sec_ok (free_bytes buf s) = sec_ok s" by (simp add: sec_ok_def sect_ok_def d fun_eq_iff) (simp add: free_bytes_def free_buf_def)
  show "fat_table (free_bytes buf s) = fat_table s" "fat_ok (free_bytes buf s) = fat_ok s"
    by (simp_all add: fat_table_def in_fat_def fat_sector_def fat_off_def fat_ok_def o fun_eq_iff) (simp_all add: free_bytes_def free_buf_def)
  show "cache_ok (free_bytes buf s) = cache_ok s" unfolding cache_ok_def f by (simp add: free_bytes_def free_buf_def)
qed (simp_all add: free_bytes_def free_buf_def)

lemma view_0: "view s 0 buf = fsec s"
  by (simp add: view_def)

text \<open>
  C38. Linking clusters. \<^verbatim>\<open>WriteFAT\<close>, given different clusters of the table, returns; then the table leads from each of them to the next
  and from the last to the end mark: they are a chain. No other entry has changed, no byte of the disk outside the sectors that hold their
  entries, and no open file; the cache \<^verbatim>\<open>FATBuf\<close> still agrees with the disk. (The memory manager is not as before: the buffer stays
  allocated, and \<^verbatim>\<open>sys_free\<close> frees the range that the first bytes of the buffer name.)
\<close>

theorem write_fat_links:
  assumes "fat_ok s" "buf_ready s" "cs \<noteq> []" "length cs = unat n" "\<forall>k<length cs. clusters k = cs ! k"
    "distinct cs" "FAT_END \<notin> set cs" "\<forall>c\<in>set cs. in_fat s c"
  shows "\<exists>s'. WriteFAT n clusters s = Some s' \<and>
    fat_chain (fat_table s' (fsec s')) cs \<and>
    (\<forall>c. c \<notin> set cs \<longrightarrow> fat_table s' (fsec s') c = fat_table s (fsec s) c) \<and>
    (\<forall>k j. k \<notin> fat_lba s ` fat_sector s ` set cs \<and> j < 512 \<longrightarrow> sectors (disk (hds s')) k j = sectors (disk (hds s)) k j) \<and>
    (cache_ok s \<longrightarrow> cache_ok s') \<and> f_desc_table_fat s' = f_desc_table_fat s \<and> f_desc_table s' = f_desc_table s \<and>
    filp s' = filp s \<and> cur_path s' = cur_path s"
proof -
  obtain s0 where s0: "kmalloc_buf (bps s) s = Some s0" "dev_ready s0" "fsec s0 = fsec s" "fat_ok s0 = fat_ok s" "in_fat s0 = in_fat s"
    "fat_table s0 = fat_table s" "fat_sector s0 = fat_sector s" "unset s0 = unset s" "cache_ok s0 = cache_ok s"
    "hds s0 = hds s" "f_desc_table_fat s0 = f_desc_table_fat s" "f_desc_table s0 = f_desc_table s" "filp s0 = filp s" "cur_path s0 = cur_path s"
    by (rule buf_readyE[OF assms(2)])
  have pre: "fat_ok s0" "\<And>k. k < length cs \<Longrightarrow> clusters (0 + k) = cs ! k" "\<And>c. c \<in> set cs \<Longrightarrow> in_fat s0 c"
    using assms(1,5,8) s0(4,5) by simp_all
  obtain s1 buf cur where s1: "write_fat_loop clusters 0 (length cs) 0 (unset s) s0 = Some (s1, buf, cur)" "calm s0 s1"
      "fat_table s0 (view s1 cur buf) = links cs (fat_table s0 (fsec s0))"
      "\<forall>x. x \<notin> fat_sector s0 ` set cs \<longrightarrow> view s1 cur buf x = fsec s0 x" "cache_ok s0 \<longrightarrow> cache_ok s1" "sec_ok s0 cur" "cur \<noteq> 0"
    using write_fat_loop_ok[OF pre(1) s0(2) pre(2,3), of 0 "unset s"] assms(3) unfolding view_0 by auto
  have r1: "dev_ready s1" "Bytes_Per_Sector s1 = 512" "sec_ok s1 cur"
    using calm_ready[OF s1(2)] s0(2) pre(1) calm_eqs(1)[OF s1(2)] calm_places(2)[OF s1(2)] s1(6) by (simp_all add: dev_ready_def fat_ok_def)
  obtain s2 where s2: "WriteSector buf (sector_size s1) cur s1 = Some s2" "calm s1 s2" "fsec s2 = view s1 cur buf" "cache_ok s1 \<longrightarrow> cache_ok s2"
    by (rule write_view[OF r1 s1(7)])
  note keep = calm_trans[OF s1(2) s2(2)]
  have tab: "fat_table s2 (fsec s2) = links cs (fat_table s (fsec s))"
    using s1(3) unfolding s2(3) fat_ok_calm(3)[OF keep] s0(3,6) .
  have "WriteFAT n clusters s = Some (free_bytes buf s2)"
    using s0(1,8) s1(1) s2(1) assms(4) by (simp add: WriteFAT_def)
  moreover have "fat_chain (links cs (fat_table s (fsec s))) cs" by (rule links_chain[OF assms(3,6,7)])
  moreover have "\<forall>k j. k \<notin> fat_lba s ` fat_sector s ` set cs \<and> j < 512 \<longrightarrow> sectors (disk (hds s2)) k j = sectors (disk (hds s)) k j"
    using disk_frame[OF keep, of "fat_sector s ` set cs"] s1(4) fat_lba_cong[of s0 s] unfolding s2(3) s0(3,7,10) by simp
  moreover note calm_eqs(7,9,13,14)[OF keep, unfolded s0(11-14)]
  moreover have "cache_ok s \<longrightarrow> cache_ok s2" using s1(5) s2(4) s0(9) by blast
  ultimately show ?thesis by (intro exI[of _ "free_bytes buf s2"]) (simp add: tab links_out)
qed

text \<open>
  C39. Freeing clusters. \<^verbatim>\<open>ClearFATs\<close> on the first cluster of a chain returns; the entries of its clusters are then 0, which is what
  makes them free, and no other entry has changed, no byte of the disk outside the sectors that hold them, and no open file; the cache
  agrees with the disk.
\<close>

theorem clear_fats_frees:
  assumes "fat_ok s" "buf_ready s" "fat_chain (fat_table s (fsec s)) (c # cs)" "distinct (c # cs)" "\<forall>d\<in>set (c # cs). in_fat s d" "c \<noteq> 0"
  shows "\<exists>s'. ClearFATs c s = Some s' \<and>
    (\<forall>d. fat_table s' (fsec s') d = (if d \<in> set (c # cs) then 0 else fat_table s (fsec s) d)) \<and>
    (\<forall>k j. k \<notin> fat_lba s ` fat_sector s ` set (c # cs) \<and> j < 512 \<longrightarrow> sectors (disk (hds s')) k j = sectors (disk (hds s)) k j) \<and>
    (cache_ok s \<longrightarrow> cache_ok s') \<and> f_desc_table_fat s' = f_desc_table_fat s \<and> f_desc_table s' = f_desc_table s \<and>
    filp s' = filp s \<and> cur_path s' = cur_path s"
proof -
  obtain s0 where s0: "kmalloc_buf (bps s) s = Some s0" "dev_ready s0" "fsec s0 = fsec s" "fat_ok s0 = fat_ok s" "in_fat s0 = in_fat s"
    "fat_table s0 = fat_table s" "fat_sector s0 = fat_sector s" "unset s0 = unset s" "cache_ok s0 = cache_ok s"
    "hds s0 = hds s" "f_desc_table_fat s0 = f_desc_table_fat s" "f_desc_table s0 = f_desc_table s" "filp s0 = filp s" "cur_path s0 = cur_path s"
    by (rule buf_readyE[OF assms(2)])
  have pre: "fat_ok s0" "fat_chain (fat_table s0 (view s0 0 (unset s))) (c # cs)" "\<And>d. d \<in> set (c # cs) \<Longrightarrow> in_fat s0 d"
    using assms(1,3,5) s0(3-6) by (simp_all only: view_0)
  obtain s1 buf cur where s1: "clear_chain c 0 (unset s) s0 = Some (s1, buf, cur)" "calm s0 s1"
      "fat_table s0 (view s1 cur buf) = (\<lambda>d. if d \<in> set (c # cs) then 0 else fat_table s0 (fsec s0) d)"
      "\<forall>x. x \<notin> fat_sector s0 ` set (c # cs) \<longrightarrow> view s1 cur buf x = fsec s0 x" "cache_ok s0 \<longrightarrow> cache_ok s1" "sec_ok s0 cur" "cur \<noteq> 0"
    using clear_chain_ok[OF pre(1) s0(2) pre(2) assms(4) pre(3)] unfolding view_0 by blast
  have r1: "dev_ready s1" "Bytes_Per_Sector s1 = 512" "sec_ok s1 cur"
    using calm_ready[OF s1(2)] s0(2) pre(1) calm_eqs(1)[OF s1(2)] calm_places(2)[OF s1(2)] s1(6) by (simp_all add: dev_ready_def fat_ok_def)
  obtain s2 where s2: "WriteSector buf (sector_size s1) cur s1 = Some s2" "calm s1 s2" "fsec s2 = view s1 cur buf" "cache_ok s1 \<longrightarrow> cache_ok s2"
    by (rule write_view[OF r1 s1(7)])
  note keep = calm_trans[OF s1(2) s2(2)]
  have tab: "fat_table s2 (fsec s2) = (\<lambda>d. if d \<in> set (c # cs) then 0 else fat_table s (fsec s) d)"
    using s1(3) unfolding s2(3) fat_ok_calm(3)[OF keep] s0(3,6) .
  have "ClearFATs c s = Some (free_bytes buf s2)"
    using s0(1,8) s1(1) s2(1) assms(6) by (simp add: ClearFATs_def)
  moreover have "\<forall>k j. k \<notin> fat_lba s ` fat_sector s ` set (c # cs) \<and> j < 512 \<longrightarrow> sectors (disk (hds s2)) k j = sectors (disk (hds s)) k j"
    using disk_frame[OF keep, of "fat_sector s ` set (c # cs)"] s1(4) fat_lba_cong[of s0 s] unfolding s2(3) s0(3,7,10) by simp
  moreover note calm_eqs(7,9,13,14)[OF keep, unfolded s0(11-14)]
  moreover have "cache_ok s \<longrightarrow> cache_ok s2" using s1(5) s2(4) s0(9) by blast
  ultimately show ?thesis by (intro exI[of _ "free_bytes buf s2"]) (simp add: tab)
qed

text \<open>
  Following a chain. \<^verbatim>\<open>GetNextCluster\<close> returns the entry of the table on the disk, whichever sector the cache \<^verbatim>\<open>FATBuf\<close> holds, as long
  as that agrees with the disk; then it holds the sector of the entry and agrees again, and nothing of the disk has changed.
\<close>

lemma next_cluster_reads:
  assumes "fat_ok s" "dev_ready s" "cache_ok s" "in_fat s c"
  shows "\<exists>s'. GetNextCluster c s = Some (s', fat_table s (fsec s) c) \<and> fsec s' = fsec s \<and> cache_ok s' \<and>
    globalSectorIndex s' = fat_sector s c"
proof -
  have bps: "Bytes_Per_Sector s = 512" using assms(1) by (simp add: fat_ok_def)
  note pl = fat_place[OF assms(1,4)]
  have entry: "entry_at b 1024 (fat_off s c) = Some (fat_table s (fsec s) c)" if "\<forall>j<512. b j = fsec s (fat_sector s c) j" for b
  proof -
    have "load32 b (unat (fat_off s c)) = load32 (fsec s (fat_sector s c)) (unat (fat_off s c))"
      by (rule load32_cong) (use that pl(5) in simp)
    then show ?thesis using pl(5) assms(4) by (simp add: entry_at_def fat_table_def)
  qed
  show ?thesis
  proof (cases "fat_sector s c = globalSectorIndex s")
    case True
    then have "globalSectorIndex s \<noteq> - 1" using pl(3) not_sec_ok_minus_1[of s] by auto
    then have "\<forall>j<512. FATBuf s j = fsec s (fat_sector s c) j" using assms(3) True by (simp add: cache_ok_def)
    from entry[OF this] show ?thesis using True bps assms(3) by (intro exI[of _ s]) (simp add: GetNextCluster_def)
  next
    case False
    obtain s1 where s1: "ReadSector (FATBuf s) 1024 (fat_sector s c) s = Some (s1, \<lambda>j. if j < 512 then fsec s (fat_sector s c) j else FATBuf s j)"
        "calm s s1" "fsec s1 = fsec s" "FATBuf s1 = FATBuf s" "globalSectorIndex s1 = globalSectorIndex s"
      by (rule ReadSector_ok[OF pl(3) assms(2), of 1024 "FATBuf s"]) simp_all
    let ?b = "\<lambda>j. if j < 512 then fsec s (fat_sector s c) j else FATBuf s j"
    let ?s = "s1\<lparr>FATBuf := ?b, globalSectorIndex := fat_sector s c\<rparr>"
    have f: "fsec ?s = fsec s" unfolding s1(3)[symmetric] by (rule fsec_cong) simp_all
    have o: "fat_off ?s c = fat_off s c" using calm_eqs(1)[OF s1(2)] by (simp add: fat_off_def)
    have e: "entry_at ?b 1024 (fat_off s c) = Some (fat_table s (fsec s) c)" by (rule entry) simp
    have "GetNextCluster c s = Some (?s, fat_table s (fsec s) c)"
      using False s1(1) bps e o by (simp add: GetNextCluster_def Let_def)
    moreover have "cache_ok ?s" unfolding cache_ok_def f by simp
    ultimately show ?thesis using f by (intro exI[of _ ?s]) simp
  qed
qed

subsection \<open>An example\<close>

text \<open>A disk with clusters 2 and 3 in a chain.\<close>

definition demo_fat_hd :: hd_sys where
  "demo_fat_hd = demo_sys\<lparr>disk := \<lparr>hd0 = \<lparr>hd_open_cnt = 1, primary = (\<lambda>_. \<lparr>base = 0x800, psize = 0x1000, part_fs = of_int FAT32_TYPE\<rparr>),
     logical = (\<lambda>_. \<lparr>base = 0, psize = 0, part_fs = 0\<rparr>)\<rparr>,
     sectors = (\<lambda>i. if i = 0x820 then store32 (store32 (\<lambda>_. 0) 8 3) 12 FAT_END else (\<lambda>_. 0)), ident = (\<lambda>_. 0)\<rparr>\<rparr>"

definition demo_fat :: "unit fatstate_scheme" where
  "demo_fat = \<lparr>fat = (\<lambda>_. \<lparr>next_cluster = 0, rf_addr = 0\<rparr>), fat_below = \<lparr>next_cluster = 0, rf_addr = 0\<rparr>, page = (\<lambda>_ _. 0),
     cell = (\<lambda>_. 0), memman = kmem demo_sys, filp = (\<lambda>i. None), f_desc_table = (\<lambda>_. zero_desc), cwd = (\<lambda>_. 0), prev_byte = 0,
     hds = demo_fat_hd, inode_table = (\<lambda>_. zero_inode), sb_table = (\<lambda>_. mkfs_super_block 0x301 0x1000), root_inode = None,
     stack_addr = 0x500, cur_pid = 3,
     TotalSectors = 0x1000, Bytes_Per_Sector = 512, Sectors_Per_Cluster = 8, Reserved_Sector = 32, Sectors_Per_FAT = 4,
     Position_Of_RootDir = 20480, Position_Of_FAT1 = 16384, Position_Of_FAT2 = 18432, FATBuf = (\<lambda>_. 0), globalSectorIndex = 0,
     cur_path = (\<lambda>_. 0), fat_buf = (\<lambda>_. 0),
     f_desc_table_fat = (\<lambda>_. \<lparr>ff_parent = (\<lambda>_. 0), ff_name = (\<lambda>_. 0), ff_start = 0, ff_off = 0, ff_size = 0, ff_flag = 0\<rparr>),
     unset = (\<lambda>_. 0x55)\<rparr>"

lemma demo_fat_dev: "fat_dev demo_fat = 0x300"
  by code_simp

lemma demo_fat_part: "part_of_dev (disk (hds demo_fat)) (MINOR 0x300) = Some \<lparr>base = 0x800, psize = 0x1000, part_fs = of_int FAT32_TYPE\<rparr>"
  by (simp add: demo_fat_def demo_fat_hd_def MINOR_def part_of_dev_def DRV_OF_DEV_def MAX_PRIM_def NR_PRIM_PER_DRIVE_def signed_divide_int_def)

lemma demo_fat_sec:
  assumes "unat i < 2 ^ 22"
  shows "sec_ok demo_fat i"
proof -
  have "sect_ok demo_fat 0x300 (int n)" if "n < 2 ^ 22" for n using that by (simp add: sect_ok_def demo_fat_part)
  from this[OF assms] show ?thesis unfolding sec_ok_def demo_fat_dev .
qed

lemma demo_fat_ok: "fat_ok demo_fat"
  unfolding fat_ok_def using demo_fat_sec by (simp add: demo_fat_def)

lemma demo_fat_ready: "dev_ready demo_fat" "buf_ready demo_fat"
  by (simp_all add: buf_ready_def dev_ready_def kmalloc_buf_def demo_fat_def demo_fat_hd_def demo_sys_def one_block_def do_kmalloc_def memman_kalloc_def memman_consts memman_ok_def blocks_def b_hi_def)

lemma demo_fat_entry: "fat_table demo_fat (fsec demo_fat) 2 = 3" "fat_table demo_fat (fsec demo_fat) 3 = FAT_END"
  by code_simp+

theorem write_fat_links_witness:
  "\<exists>s'. WriteFAT 2 (\<lambda>k. if k = 0 then 5 else 200) demo_fat = Some s' \<and> fat_chain (fat_table s' (fsec s')) [5, 200] \<and>
    (\<forall>c. c \<notin> set [5, 200] \<longrightarrow> fat_table s' (fsec s') c = fat_table demo_fat (fsec demo_fat) c) \<and>
    (\<forall>k j. k \<notin> fat_lba demo_fat ` fat_sector demo_fat ` set [5, 200] \<and> j < 512 \<longrightarrow> sectors (disk (hds s')) k j = sectors (disk (hds demo_fat)) k j) \<and>
    (cache_ok demo_fat \<longrightarrow> cache_ok s') \<and> f_desc_table_fat s' = f_desc_table_fat demo_fat \<and> f_desc_table s' = f_desc_table demo_fat \<and>
    filp s' = filp demo_fat \<and> cur_path s' = cur_path demo_fat"
proof (rule write_fat_links[OF demo_fat_ok demo_fat_ready(2)])
  show "\<forall>k<length [5, 200]. (if k = 0 then 5 else 200 :: u32) = [5, 200] ! k" by (auto simp: less_Suc_eq)
  show "\<forall>c\<in>set [5, 200]. in_fat demo_fat c" by (simp add: in_fat_def demo_fat_def)
qed (simp_all add: FAT_END_def)

theorem clear_fats_frees_witness:
  "\<exists>s'. ClearFATs 2 demo_fat = Some s' \<and>
    (\<forall>d. fat_table s' (fsec s') d = (if d \<in> set [2, 3] then 0 else fat_table demo_fat (fsec demo_fat) d)) \<and>
    (\<forall>k j. k \<notin> fat_lba demo_fat ` fat_sector demo_fat ` set [2, 3] \<and> j < 512 \<longrightarrow> sectors (disk (hds s')) k j = sectors (disk (hds demo_fat)) k j) \<and>
    (cache_ok demo_fat \<longrightarrow> cache_ok s') \<and> f_desc_table_fat s' = f_desc_table_fat demo_fat \<and> f_desc_table s' = f_desc_table demo_fat \<and>
    filp s' = filp demo_fat \<and> cur_path s' = cur_path demo_fat"
  by (rule clear_fats_frees[OF demo_fat_ok demo_fat_ready(2)])
    (simp_all add: demo_fat_entry, simp_all add: in_fat_def demo_fat_def FAT_END_def)

lemma next_cluster_reads_witness:
  "\<exists>s'. GetNextCluster 2 demo_fat = Some (s', fat_table demo_fat (fsec demo_fat) 2) \<and> fsec s' = fsec demo_fat \<and> cache_ok s' \<and>
    globalSectorIndex s' = fat_sector demo_fat 2"
proof (rule next_cluster_reads[OF demo_fat_ok demo_fat_ready(1)])
  have "fsec demo_fat 0 = (\<lambda>_. 0)" unfolding fsec_def blk_def lba_of_def demo_fat_dev demo_fat_part by (auto simp: demo_fat_def demo_fat_hd_def)
  then show "cache_ok demo_fat" by (simp add: cache_ok_def, simp add: demo_fat_def)
  show "in_fat demo_fat 2" by (simp add: in_fat_def demo_fat_def)
qed

end
