(* ===== verification/FatNames.thy ===== *)
theory FatNames
  imports FatBase
begin

text \<open>
  The names of the FAT32 file system: what the helpers make of a path, and what is left of a name after it has been put into a
  directory record and read back.
\<close>

subsection \<open>The loops\<close>

lemma copy_chars_eq: "i + n \<le> PATH_BUF \<Longrightarrow> copy_chars dst i src j n = Some (store_list dst i (load_list src j n))"
  by (induction n arbitrary: dst i j) (auto simp: load_list_Suc store_list_Cons)

lemma copy_back_eq: "n \<le> PATH_BUF \<Longrightarrow> copy_back dst src n = Some (store_list dst 0 (load_list src 0 n))"
proof (induction n arbitrary: dst)
  case (Suc n)
  have "store_list (dst(n := src n)) 0 (load_list src 0 n) = store_list dst 0 (load_list src 0 (Suc n))"
    by (auto simp: store_list_def fun_eq_iff less_Suc_eq)
  then show ?case using Suc by simp
qed simp

lemma pad_spaces_eq: "pad_spaces m j n = store_list m j (replicate n 0x20)"
  by (induction n arbitrary: m j) (auto simp: store_list_Cons)

lemma load_cstr: "load_list (cstr (xs @ ys)) (length xs) (length ys) = ys"
  by (rule nth_equalityI) (auto simp: cstr_def)

lemma load_cstr_0: "load_list (cstr xs) 0 (length xs) = xs"
  using load_cstr[of "[]" xs] by simp

lemma store_cstr: "store_list (cstr xs) (length xs) ys = cstr (xs @ ys)"
  by (rule ext) (auto simp: store_list_def cstr_def nth_append)

lemma store_zeros: "store_list (\<lambda>_. 0) 0 xs = cstr xs"
  by (rule ext) (auto simp: store_list_def cstr_def)

lemma last_sep_append:
  "BACKSLASH \<notin> set ys \<Longrightarrow> n \<le> length ys \<Longrightarrow> last_sep (cstr (xs @ ys)) (length xs + n) = last_sep (cstr (xs @ ys)) (length xs)"
proof (induction n)
  case (Suc n)
  then have "cstr (xs @ ys) (length xs + n) \<in> set ys" by (simp add: cstr_def nth_append)
  then have "cstr (xs @ ys) (length xs + n) \<noteq> BACKSLASH" using Suc.prems by auto
  then show ?case using Suc by simp
qed simp

lemma last_sep_path:
  assumes "BACKSLASH \<notin> set name"
  shows "last_sep (cstr (dir @ BACKSLASH # name)) (length (dir @ BACKSLASH # name)) = Suc (length dir)"
proof -
  have "cstr (dir @ BACKSLASH # name) (length dir) = BACKSLASH" by (simp add: cstr_def nth_append)
  then have "last_sep (cstr ((dir @ [BACKSLASH]) @ name)) (length (dir @ [BACKSLASH])) = Suc (length dir)" by simp
  then show ?thesis using last_sep_append[OF assms, of "length name" "dir @ [BACKSLASH]"] by simp
qed

subsection \<open>Paths\<close>

lemma BACKSLASH_nz [simp]: "BACKSLASH \<noteq> 0" "0 \<noteq> BACKSLASH"
  by (simp_all add: BACKSLASH_def)

text \<open>A path that is a string inside its buffer.\<close>

definition path_str :: "u8 list \<Rightarrow> bool" where
  "path_str xs \<longleftrightarrow> 0 \<notin> set xs \<and> length xs < PATH_BUF"

text \<open>
  The parts of a path. The path that \<^verbatim>\<open>MakeFullPath\<close> makes of a directory and a name has that name, by
  \<^verbatim>\<open>GetNameFromPath\<close>, and that directory, by \<^verbatim>\<open>GetParentFromPath\<close>, when the name has no backslash and the
  directory does not end in one.
\<close>

lemma path_parts_read_back:
  assumes "path_str (dir @ BACKSLASH # name)" "dir \<noteq> []" "List.last dir \<noteq> BACKSLASH" "BACKSLASH \<notin> set name"
  shows "MakeFullPath (cstr dir) (cstr name) (\<lambda>_. 0) = Some (cstr (dir @ BACKSLASH # name)) \<and>
    GetNameFromPath (cstr (dir @ BACKSLASH # name)) (\<lambda>_. 0) = Some (cstr name) \<and>
    GetParentFromPath (cstr (dir @ BACKSLASH # name)) (\<lambda>_. 0) = Some (cstr dir)"
proof -
  have z: "0 \<notin> set dir" "0 \<notin> set name" "0 \<notin> set (dir @ BACKSLASH # name)" and len: "length dir + 1 + length name < PATH_BUF"
    using assms(1) by (simp_all add: path_str_def)
  have "cstr dir (length dir - 1) \<noteq> BACKSLASH" using assms(2,3) by (simp add: cstr_def last_conv_nth)
  moreover have "(cstr dir)(length dir := BACKSLASH) = cstr (dir @ [BACKSLASH])"
    using store_cstr[of dir "[BACKSLASH]"] by (simp add: store_list_Cons)
  ultimately have slash: "add_slash (cstr dir) (length dir) (cstr dir (length dir - 1)) = Some (cstr (dir @ [BACKSLASH]), Suc (length dir))"
    using len by (simp add: add_slash_def)
  have dir: "copy_chars (\<lambda>_. 0) 0 (cstr dir) 0 (length dir) = Some (cstr dir)"
    using len by (simp add: copy_chars_eq load_cstr_0 store_zeros)
  have name: "copy_chars (cstr (dir @ [BACKSLASH])) (Suc (length dir)) (cstr name) 0 (length name) = Some (cstr (dir @ BACKSLASH # name))"
    using len store_cstr[of "dir @ [BACKSLASH]" name] by (simp add: copy_chars_eq load_cstr_0)
  have "MakeFullPath (cstr dir) (cstr name) (\<lambda>_. 0) = Some (cstr (dir @ BACKSLASH # name))"
    using z assms(2) by (simp add: MakeFullPath_def dir slash[unfolded One_nat_def] name)
  moreover have "GetNameFromPath (cstr (dir @ BACKSLASH # name)) (\<lambda>_. 0) = Some (cstr name)"
  proof -
    have "load_list (cstr (dir @ BACKSLASH # name)) (Suc (length dir)) (length name) = name"
      using load_cstr[of "dir @ [BACKSLASH]" name] by simp
    then show ?thesis using last_sep_path[OF assms(4), of dir] strlen_cstr[OF z(3)] len
      by (simp add: GetNameFromPath_def Let_def copy_chars_eq store_zeros)
  qed
  moreover have "GetParentFromPath (cstr (dir @ BACKSLASH # name)) (\<lambda>_. 0) = Some (cstr dir)"
  proof -
    have "load_list (cstr (dir @ BACKSLASH # name)) 0 (length dir) = dir"
      by (rule nth_equalityI) (simp_all add: cstr_def nth_append)
    then show ?thesis using last_sep_path[OF assms(4), of dir] strlen_cstr[OF z(3)] len
      by (simp add: GetParentFromPath_def Let_def copy_back_eq store_zeros)
  qed
  ultimately show ?thesis by blast
qed

lemma path_parts_read_back_witness:
  "GetParentFromPath (cstr [0x43, 0x3A, BACKSLASH, 0x61, BACKSLASH, 0x62, 0x2E, 0x63]) (\<lambda>_. 0) = Some (cstr [0x43, 0x3A, BACKSLASH, 0x61])"
  using path_parts_read_back[of "[0x43, 0x3A, BACKSLASH, 0x61]" "[0x62, 0x2E, 0x63]"]
  by (simp add: path_str_def PATH_BUF_def BACKSLASH_def)

text \<open>
  Going into a directory and back. From a directory that is more than a drive, \<^verbatim>\<open>ChangeCurrentPath\<close> with a name
  appends it behind a backslash, and with \<^verbatim>\<open>..\<close> it then takes it away again.
\<close>

lemma change_dir_and_back:
  assumes "path_str (dir @ BACKSLASH # name)" "2 < length dir" "List.last dir \<noteq> BACKSLASH" "BACKSLASH \<notin> set name" "name \<noteq> lit ''..''"
  shows "ChangeCurrentPath (cstr dir) (cstr name) = Some (cstr (dir @ BACKSLASH # name)) \<and>
    ChangeCurrentPath (cstr (dir @ BACKSLASH # name)) (cstr (lit ''..'')) = Some (cstr dir)"
proof -
  have z: "0 \<notin> set dir" "0 \<notin> set name" "0 \<notin> set (dir @ BACKSLASH # name)" and len: "length dir + 1 + length name < PATH_BUF"
    using assms(1) by (simp_all add: path_str_def)
  have ne: "dir \<noteq> []" using assms(2) by auto
  have cmp: "\<exists>r. strcmp (cstr xs) (cstr ys) = Some r \<and> (r = 0 \<longleftrightarrow> xs = ys)" if "0 \<notin> set xs" "0 \<notin> set ys" for xs ys
    using strcmp_holds[OF holds_str_cstr[OF that(1)] holds_str_cstr[OF that(2)]] lex_cmp_zero_iff[of xs ys] that by simp
  have dots: "0 \<notin> set (lit ''..'')" "BACKSLASH \<notin> set (lit ''..'')" by (simp_all add: lit_def BACKSLASH_def)
  have "cstr dir (length dir - 1) \<noteq> BACKSLASH" using ne assms(3) by (simp add: cstr_def last_conv_nth)
  moreover have "(cstr dir)(length dir := BACKSLASH) = cstr (dir @ [BACKSLASH])"
    using store_cstr[of dir "[BACKSLASH]"] by (simp add: store_list_Cons)
  ultimately have slash: "add_slash (cstr dir) (length dir) (cstr dir (length dir - 1)) = Some (cstr (dir @ [BACKSLASH]), Suc (length dir))"
    using len by (simp add: add_slash_def)
  have nm: "copy_chars (cstr (dir @ [BACKSLASH])) (Suc (length dir)) (cstr name) 0 (length name) = Some (cstr (dir @ BACKSLASH # name))"
    using len store_cstr[of "dir @ [BACKSLASH]" name] by (simp add: copy_chars_eq load_cstr_0)
  obtain r1 r2 where r: "strcmp (cstr name) (cstr (lit ''..'')) = Some r1" "r1 \<noteq> 0" "strcmp (cstr name) (cstr [BACKSLASH]) = Some r2" "r2 \<noteq> 0"
    using cmp[OF z(2) dots(1)] cmp[OF z(2), of "[BACKSLASH]"] assms(4,5) by auto
  have "ChangeCurrentPath (cstr dir) (cstr name) = Some (cstr (dir @ BACKSLASH # name))"
    using z len ne r by (simp add: ChangeCurrentPath_def strlen_buf_def slash[unfolded One_nat_def] nm)
  moreover have "ChangeCurrentPath (cstr (dir @ BACKSLASH # name)) (cstr (lit ''..'')) = Some (cstr dir)"
  proof -
    have "drop_last (cstr (dir @ BACKSLASH # take n name)) (length dir + 1 + n) = cstr dir" if "n \<le> length name" for n
      using that
    proof (induction n)
      case 0
      have "cstr (dir @ [BACKSLASH]) (length dir) = BACKSLASH" by (simp add: cstr_def nth_append)
      moreover have "(cstr (dir @ [BACKSLASH]))(length dir := 0) = cstr dir" by (auto simp: cstr_def fun_eq_iff nth_append)
      ultimately show ?case by simp
    next
      case (Suc n)
      let ?c = "cstr (dir @ BACKSLASH # take (Suc n) name)" and ?i = "length dir + 1 + n"
      have "?c ?i = name ! n" using Suc.prems by (simp add: cstr_def nth_append)
      then have "?c ?i \<noteq> BACKSLASH" using assms(4) Suc.prems by (metis Suc_le_lessD nth_mem)
      moreover have "?c(?i := 0) = cstr (dir @ BACKSLASH # take n name)"
        using Suc.prems by (auto simp: cstr_def fun_eq_iff nth_append nth_Cons' min_def)
      ultimately show ?case using Suc by simp
    qed
    from this[of "length name"] have "drop_last (cstr (dir @ BACKSLASH # name)) (length (dir @ BACKSLASH # name)) = cstr dir" by simp
    moreover obtain q1 q2 where "strcmp (cstr (lit ''..'')) (cstr (lit ''..'')) = Some 0" "strcmp (cstr (lit ''..'')) (cstr [BACKSLASH]) = Some q2"
      using cmp[OF dots(1) dots(1)] cmp[OF dots(1), of "[BACKSLASH]"] by auto
    ultimately show ?thesis using strlen_cstr[OF z(3)] z(1) len assms(2) by (simp add: ChangeCurrentPath_def strlen_buf_def Let_def)
  qed
  ultimately show ?thesis by blast
qed

lemma change_dir_and_back_witness:
  "ChangeCurrentPath (cstr [0x43, 0x3A, BACKSLASH, 0x61, BACKSLASH, 0x62]) (cstr (lit ''..'')) = Some (cstr [0x43, 0x3A, BACKSLASH, 0x61])"
  using change_dir_and_back[of "[0x43, 0x3A, BACKSLASH, 0x61]" "[0x62]"]
  by (simp add: path_str_def PATH_BUF_def BACKSLASH_def lit_def)

subsection \<open>Directory records\<close>

lemma stem_chars_eq:
  assumes "\<forall>k<m. f (i + k) \<noteq> 0x2E" "m \<le> n" "i + m \<le> len" "m = n \<or> i + m = len \<or> f (i + m) = 0x2E"
  shows "stem_chars f len i n name = (store_list name i (map to_upper (load_list f i m)), i + m)"
  using assms
proof (induction m arbitrary: i n name)
  case 0
  then show ?case by (cases n) auto
next
  case (Suc m)
  then obtain n' where n: "n = Suc n'" by (cases n) auto
  have "stem_chars f len (Suc i) n' (name(i := to_upper (f i))) =
      (store_list (name(i := to_upper (f i))) (Suc i) (map to_upper (load_list f (Suc i) m)), Suc i + m)"
    by (rule Suc.IH) (use Suc.prems n in \<open>auto dest: spec[where x = "Suc _"]\<close>)
  moreover have "f i \<noteq> 0x2E" "i < len" using Suc.prems by (auto dest: spec[where x = 0])
  ultimately show ?case by (simp add: n load_list_Suc store_list_Cons)
qed

lemma dir_chars_eq:
  assumes "m \<le> n" "i + m \<le> len" "m = n \<or> i + m = len"
  shows "dir_chars f len i n name = (store_list name i (map to_upper (load_list f i m)), i + m)"
  using assms
proof (induction m arbitrary: i n name)
  case 0
  then show ?case by (cases n) auto
next
  case (Suc m)
  then obtain n' where n: "n = Suc n'" by (cases n) auto
  then show ?case using Suc by (simp add: load_list_Suc store_list_Cons fun_upd_def)
qed

lemma ext_chars_eq: "j + n \<le> PATH_BUF \<Longrightarrow> ext_chars f i n ext j = Some (store_list ext j (map to_upper (load_list f i n)), j + n)"
  by (induction n arbitrary: i j ext) (auto simp: load_list_Suc store_list_Cons)

definition blanks :: "nat \<Rightarrow> u8 list \<Rightarrow> u8 list" where
  "blanks n xs = xs @ replicate (n - length xs) 0x20"

lemma pad_cstr: "pad_spaces (cstr xs) (length xs) (n - length xs) = cstr (blanks n xs)"
  by (simp add: pad_spaces_eq blanks_def store_cstr)

lemma format_file:
  assumes "0 \<notin> set stem" "0x2E \<notin> set stem" "length stem \<le> 8" "0 \<notin> set ext" "length ext \<le> 3"
  shows "FormatFileNameAndExt (cstr (stem @ 0x2E # ext)) (\<lambda>_. 0) (\<lambda>_. 0) =
    Some (cstr (blanks 8 (map to_upper stem)), cstr (blanks 3 (map to_upper ext)))"
proof -
  let ?f = "cstr (stem @ 0x2E # ext)"
  have len: "strlen ?f = Some (Suc (length stem + length ext))" using assms(1,4) strlen_cstr[of "stem @ 0x2E # ext"] by simp
  have "load_list ?f 0 (length stem) = stem" by (rule nth_equalityI) (simp_all add: cstr_def nth_append)
  moreover have "?f k \<noteq> 0x2E" if "k < length stem" for k
    using assms(2) that by (auto simp: cstr_def nth_append dest: nth_mem)
  moreover have "?f (length stem) = 0x2E" by (simp add: cstr_def nth_append)
  ultimately have stem: "stem_chars ?f (Suc (length stem + length ext)) 0 8 (\<lambda>_. 0) = (cstr (map to_upper stem), length stem)"
    using stem_chars_eq[of "length stem" ?f 0 8 "Suc (length stem + length ext)" "\<lambda>_. 0"] assms(3) by (simp add: store_zeros)
  have "load_list ?f (length stem + 1) (length ext) = ext" using load_cstr[of "stem @ [0x2E]" ext] by simp
  then have "ext_chars ?f (length stem + 1) (length ext) (\<lambda>_. 0) 0 = Some (cstr (map to_upper ext), length ext)"
    using assms(5) by (simp add: ext_chars_eq store_zeros PATH_BUF_def)
  then show ?thesis
    using pad_cstr[of "map to_upper stem" 8] pad_cstr[of "map to_upper ext" 3] by (simp add: FormatFileNameAndExt_def len stem)
qed

lemma format_plain:
  assumes "0 \<notin> set stem" "0x2E \<notin> set stem" "length stem \<le> 8"
  shows "FormatFileNameAndExt (cstr stem) (\<lambda>_. 0) (\<lambda>_. 0) = Some (cstr (blanks 8 (map to_upper stem)), cstr [])"
proof -
  have "cstr stem k \<noteq> 0x2E" if "k < length stem" for k
    using assms(2) that by (auto simp: cstr_def dest: nth_mem)
  then have stem: "stem_chars (cstr stem) (length stem) 0 8 (\<lambda>_. 0) = (cstr (map to_upper stem), length stem)"
    using stem_chars_eq[of "length stem" "cstr stem" 0 8 "length stem" "\<lambda>_. 0"] assms(3) by (simp add: store_zeros load_cstr_0)
  show ?thesis using pad_cstr[of "map to_upper stem" 8] assms(1)
    by (simp add: FormatFileNameAndExt_def stem) (simp add: cstr_def)
qed

lemma format_dir:
  assumes "0 \<notin> set stem" "length stem \<le> 8"
  shows "FormatDirNameAndExt (cstr stem) (\<lambda>_. 0) (\<lambda>_. 0) = Some (cstr (blanks 8 (map to_upper stem)), cstr (blanks 3 []))"
proof -
  have stem: "dir_chars (cstr stem) (length stem) 0 8 (\<lambda>_. 0) = (cstr (map to_upper stem), length stem)"
    using dir_chars_eq[of "length stem" 8 0 "length stem" "cstr stem" "\<lambda>_. 0"] assms(2) by (simp add: store_zeros load_cstr_0)
  have "pad_spaces (\<lambda>_. 0) 0 3 = cstr (blanks 3 [])" by (simp add: pad_spaces_eq blanks_def store_zeros)
  then show ?thesis using pad_cstr[of "map to_upper stem" 8] assms(1) by (simp add: FormatDirNameAndExt_def stem)
qed

lemma strcpy_field_cstr:
  assumes "0 \<notin> set xs" "a + length xs < RECORD_SIZE"
  shows "strcpy_field r a (cstr xs) = Some (store_list r a (xs @ [0]))"
proof -
  have "load_list (cstr xs) 0 (length xs + 1) = xs @ [0]" by (rule nth_equalityI) (auto simp: cstr_def nth_append less_Suc_eq)
  then show ?thesis using assms by (simp add: strcpy_field_def)
qed

lemma load16_store16: "load16 (store16 m a w) a = ucast w"
proof -
  have "load16 (store16 m a w) a = ucast (ucast w :: u8) OR push_bit 8 (ucast (ucast (drop_bit 8 w) :: u8))"
    by (simp add: load16_def store16_def store_list_def)
  also have "\<dots> = ucast w" by (rule bit_word_eqI) (auto simp: bit_simps dest: bit_imp_le_length)
  finally show ?thesis .
qed

lemma halves: "push_bit 16 (ucast (ucast (drop_bit 16 c) :: 16 word)) + ucast (ucast (c AND 0x0000FFFF) :: 16 word) = (c :: u32)"
proof -
  have m: "(0xFFFF :: u32) = mask 16" by (simp add: mask_eq_exp_minus_1)
  let ?h = "push_bit 16 (ucast (ucast (drop_bit 16 c) :: 16 word)) :: u32" and ?l = "ucast (ucast (c AND 0xFFFF) :: 16 word) :: u32"
  have "?h AND ?l = 0" unfolding m by (rule bit_word_eqI) (auto simp: bit_simps)
  then have "?h + ?l = ?h OR ?l" by (simp add: disjunctive_add_eq_or)
  also have "\<dots> = c" unfolding m by (rule bit_word_eqI) (auto simp: bit_simps)
  finally show ?thesis by simp
qed

lemma CreateRecord_fields:
  assumes "(if t = 0x08 \<or> t = 0x10 then FormatDirNameAndExt f (\<lambda>_. 0) (\<lambda>_. 0) else FormatFileNameAndExt f (\<lambda>_. 0) (\<lambda>_. 0)) = Some (cstr nm, cstr ex)"
    and "length nm = 8" "0 \<notin> set nm" "length ex \<le> 3" "0 \<notin> set ex"
  shows "\<exists>r. CreateRecord f t start sz pr = Some r \<and> load_list r 0 8 = nm \<and> load_list r 8 (length ex) = ex \<and>
    (length ex < 3 \<longrightarrow> r (8 + length ex) = 0) \<and> r 11 = t \<and> record_start r = start \<and> load32 r 28 = sz"
proof -
  obtain d tm where tb: "TimeToBytes = (d, tm)" by fastforce
  let ?p = "pr(12 := (if t = 0x08 \<or> t = 0x10 then 0x08 else 0x18))"
  let ?r1 = "store_list (store_list ?p 0 (nm @ [0])) 8 (ex @ [0])"
  let ?r2 = "store16 (store16 (store16 (?r1(11 := t, 13 := 0)) 14 tm) 16 d) 18 d"
  let ?r3 = "store16 ?r2 20 (ucast (drop_bit 16 start))"
  let ?r4 = "store16 (store16 ?r3 22 tm) 24 d"
  let ?r = "store32 (store16 ?r4 26 (ucast (start AND 0x0000FFFF))) 28 sz"
  have c: "strcpy_field ?p 0 (cstr nm) = Some (store_list ?p 0 (nm @ [0]))" "strcpy_field m 8 (cstr ex) = Some (store_list m 8 (ex @ [0]))" for m
    using assms(2-5) by (simp_all add: strcpy_field_cstr RECORD_SIZE_def)
  have "CreateRecord f t start sz pr = Some ?r"
    unfolding CreateRecord_def assms(1) by (simp add: tb c Let_def del: fun_upd_apply)
  moreover have out: "?r k = ?r1 k" if "k < 11" for k using that by (simp add: store16_def block_simps)
  have "load_list ?r 0 8 = nm"
    by (rule nth_equalityI) (use assms(2) out in \<open>simp_all add: block_simps nth_append\<close>)
  moreover have "load_list ?r 8 (length ex) = ex"
    by (rule nth_equalityI) (use assms(4) out in \<open>simp_all add: block_simps nth_append\<close>)
  moreover have "?r (8 + length ex) = 0" if "length ex < 3" using that out[of "8 + length ex"] by (simp add: block_simps nth_append)
  moreover have "?r 11 = t" by (simp add: store16_def block_simps)
  moreover have "record_start ?r = start"
  proof -
    have "load16 ?r 20 = load16 ?r3 20" by (simp add: load16_def store16_def block_simps)
    moreover have "load16 ?r 26 = load16 (store16 ?r4 26 (ucast (start AND 0x0000FFFF))) 26" by (simp add: load16_def store16_def block_simps)
    ultimately show ?thesis unfolding record_start_def load16_store16 by (simp only: halves)
  qed
  moreover have "load32 ?r 28 = sz" by (simp add: block_simps)
  ultimately show ?thesis by blast
qed

text \<open>Reading a name back.\<close>

lemma unat_to_upper: "unat (to_upper c) = (if 97 \<le> unat c \<and> unat c \<le> 122 then unat c - 32 else unat c)"
  by (auto simp: to_upper_def word_le_nat_alt unat_sub)

lemma unat_to_lower: "unat (to_lower c) = (if 65 \<le> unat c \<and> unat c \<le> 90 then unat c + 32 else unat c)"
  by (auto simp: to_lower_def word_le_nat_alt unat_word_ariths)

lemma to_upper_chars: "to_upper c = 0 \<longleftrightarrow> c = 0" "to_upper c = 0x20 \<longleftrightarrow> c = 0x20" "to_lower (to_upper c) = to_lower c"
  by (auto simp: word_unat_eq_iff unat_to_upper unat_to_lower)

lemma to_lower_chars: "to_lower c = 0x20 \<longleftrightarrow> c = 0x20" "to_lower c = 0x2E \<longleftrightarrow> c = 0x2E" "to_lower c = 0 \<longleftrightarrow> c = 0"
  by (auto simp: word_unat_eq_iff unat_to_lower)

lemma stem_of_record_eq:
  assumes "\<forall>k<m. r (i + k) \<noteq> 0x20" "m \<le> n" "m = n \<or> r (i + m) = 0x20"
  shows "stem_of_record r i n full = (store_list full i (map to_lower (load_list r i m)), i + m)"
  using assms
proof (induction m arbitrary: i n full)
  case 0
  then show ?case by (cases n) auto
next
  case (Suc m)
  then obtain n' where n: "n = Suc n'" by (cases n) auto
  have "stem_of_record r (Suc i) n' (full(i := to_lower (r i))) =
      (store_list (full(i := to_lower (r i))) (Suc i) (map to_lower (load_list r (Suc i) m)), Suc i + m)"
    by (rule Suc.IH) (use Suc.prems n in \<open>auto dest: spec[where x = "Suc _"]\<close>)
  moreover have "r i \<noteq> 0x20" using Suc.prems(1) by (auto dest: spec[where x = 0])
  ultimately show ?case by (simp add: n load_list_Suc store_list_Cons)
qed

lemma stem_back:
  assumes "load_list r 0 8 = blanks 8 (map to_upper stem)" "length stem \<le> 8" "0x20 \<notin> set stem"
  shows "stem_of_record r 0 8 (\<lambda>_. 0) = (cstr (map to_lower stem), length stem)"
proof -
  have r: "r k = blanks 8 (map to_upper stem) ! k" if "k < 8" for k
    using that assms(1) nth_load_list[of k 8 r 0] by simp
  have "r k \<noteq> 0x20" if "k < length stem" for k
    using r[of k] that assms(2,3) by (auto simp: blanks_def nth_append to_upper_chars dest: nth_mem)
  moreover have "length stem = 8 \<or> r (length stem) = 0x20"
    using r[of "length stem"] assms(2) by (cases "length stem = 8") (auto simp: blanks_def nth_append)
  moreover have "map to_lower (load_list r 0 (length stem)) = map to_lower stem"
    by (rule nth_equalityI) (use r assms(2) in \<open>simp_all add: blanks_def nth_append to_upper_chars\<close>)
  ultimately show ?thesis using stem_of_record_eq[of "length stem" r 0 8 "\<lambda>_. 0"] assms(2) by (simp add: store_zeros)
qed

lemma strip_blanks_end: "strip_blanks (cstr (zs @ replicate n 0x20)) p (length zs + n) = strip_blanks (cstr zs) p (length zs)"
proof (induction n)
  case (Suc n)
  have "(cstr (zs @ replicate (Suc n) 0x20))(length zs + n := 0) = cstr (zs @ replicate n 0x20)"
    by (auto simp: cstr_def fun_eq_iff nth_append nth_Cons' less_Suc_eq)
  moreover have "cstr (zs @ replicate (Suc n) 0x20) (length zs + n) = 0x20" by (simp add: cstr_def nth_append del: replicate_Suc)
  ultimately show ?case using Suc by (simp del: replicate_Suc)
qed simp

lemma strip_blanks_stop:
  assumes "zs \<noteq> []" "List.last zs \<noteq> 0x20" "List.last zs \<noteq> 0x2E \<or> length zs \<noteq> Suc p"
  shows "strip_blanks (cstr zs) p (length zs) = Some (cstr zs)"
proof -
  obtain n where n: "length zs = Suc n" using assms(1) by (cases zs) auto
  have "cstr zs n = List.last zs" using assms(1) n by (simp add: cstr_def last_conv_nth)
  then show ?thesis using assms n by auto
qed

lemma strip_stops:
  assumes "f (Suc p) = 0"
  shows "\<exists>full. strip_blanks f p (Suc (Suc (Suc (Suc p)))) = Some full \<and> (\<forall>k\<le>Suc p. full k = f k)"
  using assms by (cases "f (Suc (Suc (Suc p))) = 0x20"; cases "f (Suc (Suc p)) = 0x20") simp_all

lemma name_back:
  assumes "load_list r 0 8 = blanks 8 (map to_upper stem)" "length stem \<le> 8" "0x20 \<notin> set stem"
  shows "GetNameFromRecord r (\<lambda>_. 0) =
    strip_blanks (cstr (map to_lower stem @ 0x2E # map to_lower (load_list r 8 3))) (length stem) (length stem + 4)"
proof -
  have "(cstr (map to_lower stem))(length stem := 0x2E) = cstr (map to_lower stem @ [0x2E])"
    using store_cstr[of "map to_lower stem" "[0x2E]"] by (simp add: store_list_Cons)
  moreover have "store_list (cstr (map to_lower stem @ [0x2E])) (Suc (length stem)) (map to_lower (load_list r 8 3)) =
      cstr (map to_lower stem @ 0x2E # map to_lower (load_list r 8 3))"
    using store_cstr[of "map to_lower stem @ [0x2E]"] by simp
  ultimately show ?thesis by (simp add: GetNameFromRecord_def stem_back[OF assms])
qed

text \<open>The characters a name may have here: not the end mark and no blank.\<close>

definition name_chars :: "u8 list \<Rightarrow> bool" where
  "name_chars xs \<longleftrightarrow> xs \<noteq> [] \<and> 0 \<notin> set xs \<and> 0x20 \<notin> set xs"

lemma blanks_facts: "length xs \<le> n \<Longrightarrow> length (blanks n xs) = n" "0 \<notin> set xs \<Longrightarrow> 0 \<notin> set (blanks n xs)"
  by (auto simp: blanks_def)

lemma upper_nz: "0 \<notin> set xs \<Longrightarrow> 0 \<notin> set (map to_upper xs)"
  using to_upper_chars(1) by force

text \<open>
  C40. Names in directory records. The record that \<^verbatim>\<open>CreateRecord\<close> makes for a file with a stem of up to eight characters and an
  extension of one to three holds its name: \<^verbatim>\<open>GetNameFromRecord\<close> returns it in small letters. It also holds the first cluster, put
  together again by \<^verbatim>\<open>ReadRecord\<close>'s callers from its two halves, the size and the type. The same goes for the name of a directory,
  which has no extension.
\<close>

theorem record_name_read_back:
  assumes "name_chars stem" "length stem \<le> 8" "0x2E \<notin> set stem" "name_chars ext" "length ext \<le> 3" "t \<noteq> 0x08" "t \<noteq> 0x10"
  shows "(\<exists>r. CreateRecord (cstr (stem @ 0x2E # ext)) t start sz pr = Some r \<and>
      GetNameFromRecord r (\<lambda>_. 0) = Some (cstr (map to_lower (stem @ 0x2E # ext))) \<and>
      record_start r = start \<and> load32 r 28 = sz \<and> r 11 = t) \<and>
    (\<exists>r. CreateRecord (cstr stem) 0x10 start sz pr = Some r \<and> GetNameFromRecord r (\<lambda>_. 0) = Some (cstr (map to_lower stem)) \<and>
      record_start r = start \<and> load32 r 28 = sz \<and> r 11 = 0x10)"
proof -
  have st: "stem \<noteq> []" "0 \<notin> set stem" "0x20 \<notin> set stem" and ex: "ext \<noteq> []" "0 \<notin> set ext" "0x20 \<notin> set ext"
    using assms(1,4) by (simp_all add: name_chars_def)
  let ?nm = "blanks 8 (map to_upper stem)"
  have nm: "length ?nm = 8" "0 \<notin> set ?nm" using blanks_facts assms(2) upper_nz[OF st(2)] by simp_all
  have e3: "length (blanks 3 (map to_upper ext)) = 3" "0 \<notin> set (blanks 3 (map to_upper ext))"
    using blanks_facts assms(5) upper_nz[OF ex(2)] by simp_all
  obtain r where r: "CreateRecord (cstr (stem @ 0x2E # ext)) t start sz pr = Some r" "load_list r 0 8 = ?nm"
      "load_list r 8 3 = blanks 3 (map to_upper ext)" "r 11 = t" "record_start r = start" "load32 r 28 = sz"
    using CreateRecord_fields[of t "cstr (stem @ 0x2E # ext)" ?nm "blanks 3 (map to_upper ext)" start sz pr]
      format_file[OF st(2) assms(3,2) ex(2) assms(5)] assms(6,7) nm e3 by auto
  have low: "map to_lower (blanks 3 (map to_upper ext)) = map to_lower ext @ replicate (3 - length ext) 0x20"
  proof -
    have "to_lower 0x20 = 0x20" by (simp add: to_lower_def)
    then show ?thesis by (simp add: blanks_def to_upper_chars)
  qed
  let ?z = "map to_lower (stem @ 0x2E # ext)"
  have dot: "to_lower 0x2E = 0x2E" by (simp add: to_lower_def)
  have "length stem + 4 = length ?z + (3 - length ext)" using assms(5) by simp
  moreover have "map to_lower stem @ 0x2E # map to_lower (load_list r 8 3) = ?z @ replicate (3 - length ext) 0x20"
    by (simp add: r(3) low dot)
  ultimately have "GetNameFromRecord r (\<lambda>_. 0) = strip_blanks (cstr ?z) (length stem) (length ?z)"
    unfolding name_back[OF r(2) assms(2) st(3)] by (simp only: strip_blanks_end)
  moreover have "List.last ?z = to_lower (List.last ext)" using ex(1) by (simp add: last_map)
  moreover have "List.last ext \<noteq> 0x20" using ex(1,3) last_in_set by metis
  ultimately have fl: "GetNameFromRecord r (\<lambda>_. 0) = Some (cstr ?z)"
    using strip_blanks_stop[of ?z "length stem"] ex(1) by (simp add: to_lower_chars)
  obtain q where q: "CreateRecord (cstr stem) 0x10 start sz pr = Some q" "load_list q 0 8 = ?nm" "load_list q 8 3 = blanks 3 []"
      "q 11 = 0x10" "record_start q = start" "load32 q 28 = sz"
    using CreateRecord_fields[of "0x10" "cstr stem" ?nm "blanks 3 []" start sz pr] format_dir[OF st(2) assms(2)] nm
    by (auto simp: blanks_def)
  let ?y = "map to_lower stem"
  have "?y @ 0x2E # map to_lower (load_list q 8 3) = (?y @ [0x2E]) @ replicate 3 0x20" by (simp add: q(3) blanks_def to_lower_def)
  then have "GetNameFromRecord q (\<lambda>_. 0) = strip_blanks (cstr ((?y @ [0x2E]) @ replicate 3 0x20)) (length stem) (length (?y @ [0x2E]) + 3)"
    unfolding name_back[OF q(2) assms(2) st(3)] by (simp add: add.commute)
  also have "\<dots> = strip_blanks (cstr (?y @ [0x2E])) (length stem) (length (?y @ [0x2E]))" by (rule strip_blanks_end)
  also have "\<dots> = strip_blanks (cstr ?y) (length stem) (length ?y)"
  proof -
    have "(cstr (?y @ [0x2E]))(length stem := 0) = cstr ?y" by (auto simp: cstr_def fun_eq_iff nth_append)
    moreover have "cstr (?y @ [0x2E]) (length stem) = 0x2E" by (simp add: cstr_def nth_append)
    ultimately show ?thesis by simp
  qed
  also have "\<dots> = Some (cstr ?y)"
  proof (rule strip_blanks_stop)
    have "List.last stem \<noteq> 0x20" using st(1,3) last_in_set by metis
    then show "List.last ?y \<noteq> 0x20" using st(1) by (simp add: last_map to_lower_chars)
  qed (use st(1) in simp_all)
  finally show ?thesis using r q fl by blast
qed

theorem record_name_read_back_witness:
  "\<exists>r. CreateRecord (cstr [0x61, 0x42, 0x2E, 0x63]) 0x20 0x12345 7 (\<lambda>_. 0x55) = Some r \<and>
    GetNameFromRecord r (\<lambda>_. 0) = Some (cstr [0x61, 0x62, 0x2E, 0x63]) \<and> record_start r = 0x12345 \<and> load32 r 28 = 7"
  using record_name_read_back[of "[0x61, 0x42]" "[0x63]" "0x20" "0x12345" 7 "\<lambda>_. 0x55"]
  by (auto simp: name_chars_def to_lower_def)

text \<open>
  A file whose name has no extension is not found again: what \<^verbatim>\<open>GetNameFromRecord\<close> reads back from its record is the name
  followed by a dot. \<^verbatim>\<open>FormatFileNameAndExt\<close> leaves the extension empty instead of blank, and only blanks are taken away.
\<close>

lemma plain_name_gets_dot:
  assumes "name_chars stem" "length stem \<le> 8" "0x2E \<notin> set stem" "t \<noteq> 0x08" "t \<noteq> 0x10"
  shows "\<exists>r full. CreateRecord (cstr stem) t start sz pr = Some r \<and> GetNameFromRecord r (\<lambda>_. 0) = Some full \<and>
    holds_str full 0 (map to_lower stem @ [0x2E])"
proof -
  have st: "stem \<noteq> []" "0 \<notin> set stem" "0x20 \<notin> set stem" using assms(1) by (simp_all add: name_chars_def)
  let ?nm = "blanks 8 (map to_upper stem)"
  have nm: "length ?nm = 8" "0 \<notin> set ?nm" using blanks_facts assms(2) upper_nz[OF st(2)] by simp_all
  obtain r where r: "CreateRecord (cstr stem) t start sz pr = Some r" "load_list r 0 8 = ?nm" "r 8 = 0"
    using CreateRecord_fields[of t "cstr stem" ?nm "[]" start sz pr] format_plain[OF st(2) assms(3,2)] assms(4,5) nm by auto
  obtain x y where e: "map to_lower (load_list r 8 3) = [0, x, y]"
    using r(3) by (simp add: load_list_Suc numeral_3_eq_3 to_lower_chars)
  let ?y = "map to_lower stem @ [0x2E]" and ?n = "length stem"
  let ?f = "cstr (?y @ [0, x, y])"
  have g: "GetNameFromRecord r (\<lambda>_. 0) = strip_blanks ?f ?n (Suc (Suc (Suc (Suc ?n))))"
  proof -
    have "map to_lower stem @ 0x2E # [0, x, y] = ?y @ [0, x, y]" "?n + 4 = Suc (Suc (Suc (Suc ?n)))" by simp_all
    then show ?thesis unfolding name_back[OF r(2) assms(2) st(3)] e by (simp only:)
  qed
  have held: "holds_str full 0 ?y" if "\<forall>k\<le>Suc ?n. full k = ?f k" for full
  proof -
    have "0 \<notin> set ?y" using st(2) to_lower_chars(3) by force
    moreover have "load_list full 0 (length ?y) = ?y"
      by (rule nth_equalityI) (use that in \<open>auto simp: cstr_def nth_append\<close>)
    moreover have "full (Suc ?n) = 0" using that by (simp add: cstr_def nth_append)
    ultimately show ?thesis by (simp add: holds_str_def)
  qed
  have at: "?f (Suc ?n) = 0" by (simp add: cstr_def nth_append)
  have "\<exists>full. strip_blanks ?f ?n (Suc (Suc (Suc (Suc ?n)))) = Some full \<and> (\<forall>k\<le>Suc ?n. full k = ?f k)" by (rule strip_stops[of ?f ?n, OF at])
  then show ?thesis using r(1) g held by metis
qed

lemma plain_name_gets_dot_witness:
  "\<exists>r full. CreateRecord (cstr [0x41, 0x62]) 0x20 3 0 (\<lambda>_. 0x20) = Some r \<and> GetNameFromRecord r (\<lambda>_. 0) = Some full \<and>
    holds_str full 0 [0x61, 0x62, 0x2E]"
  using plain_name_gets_dot[of "[0x41, 0x62]" "0x20" 3 0 "\<lambda>_. 0x20"] by (simp add: name_chars_def to_lower_def)

end
