(* ===== verification/Process.thy ===== *)
theory Process
  imports Prelude
begin

text \<open>
  Processes and scheduling: the process control block of \<^verbatim>\<open>include/proc.h\<close>, the scheduler, the
  allocation of control blocks, yield, sleep and wakeup of \<^verbatim>\<open>kernel/proc.c\<close>, the clock interrupt
  of \<^verbatim>\<open>kernel/clock.c\<close>, and the switch of \<^verbatim>\<open>kernel/kernel.asm\<close> as far as it changes the variables of
  the C code.

  A control block is the record \<open>PROCESS\<close>; the table is a function on indices, of which the first
  \<open>NR_PCBS\<close> exist. A pointer to a control block is its index, a pointer that the code stores in
  a control block is the 32-bit address; the addresses of \<^verbatim>\<open>proc_table\<close> and \<^verbatim>\<open>ticks\<close>, which the
  linker chooses, are components of the state that no operation changes. A saved register is
  found by its byte offset in the stack frame, as the code does it.
\<close>

subsection \<open>The process control block\<close>

type_synonym u16 = "16 word"

datatype proc_stat = IDLE | READY | SLEEPING | KILLED

record DESCRIPTOR =
  limit_low :: u16
  base_low :: u16
  base_mid :: u8
  attr1 :: u8
  limit_high_attr2 :: u8
  base_high :: u8

record LIN_MEMMAP =
  text_lin_base :: u32
  text_lin_limit :: u32
  data_lin_base :: u32
  data_lin_limit :: u32
  vpage_lin_base :: u32
  vpage_lin_limit :: u32
  heap_lin_base :: u32
  heap_lin_limit :: u32
  stack_lin_base :: u32
  stack_lin_limit :: u32
  arg_lin_base :: u32
  arg_lin_limit :: u32
  kernel_lin_base :: u32
  kernel_lin_limit :: u32
  stack_child_limit :: u32

datatype proc_type = TYPE_PROCESS | TYPE_THREAD

record TREE_INFO =
  p_type :: proc_type
  real_ppid :: int
  ppid :: int
  child_p_num :: int
  child_process :: "nat \<Rightarrow> int"
  child_t_num :: int
  child_thread :: "nat \<Rightarrow> int"
  text_hold :: int
  data_hold :: int

record PROCESS =
  regs :: "nat \<Rightarrow> u32"
  ldt_sel :: u16
  ldts :: "nat \<Rightarrow> DESCRIPTOR"
  esp_save_int :: u32
  esp_save_syscall :: u32
  esp_save_context :: u32
  channel :: u32
  memmap :: LIN_MEMMAP
  info :: TREE_INFO
  ticks :: int
  priority :: int
  pid :: u32
  p_name :: bytes
  stat :: proc_stat
  cr3 :: u32
  filp :: "nat \<Rightarrow> u32"
  p_cwd :: bytes
  kstack :: "nat \<Rightarrow> u32"

definition NR_PCBS :: nat where "NR_PCBS = 12"
definition NR_K_PCBS :: nat where "NR_K_PCBS = 4"
definition NR_TASKS :: nat where "NR_TASKS = 2"
definition NR_CHILD_MAX :: nat where "NR_CHILD_MAX = NR_PCBS - NR_K_PCBS - 1"

text \<open>The variables of the kernel that concern processes (\<^verbatim>\<open>kernel/global.c\<close>).\<close>

record kproc =
  kernel_initial :: bool
  g_ticks :: u32
  u_proc_sum :: int
  p_proc_current :: nat
  p_proc_next :: nat
  cr3_ready :: u32
  proc_table :: "nat \<Rightarrow> PROCESS"
  addr_table :: u32
  addr_ticks :: u32

abbreviation proc_cur :: "'a kproc_scheme \<Rightarrow> PROCESS" where
  "proc_cur s \<equiv> proc_table s (p_proc_current s)"

definition upd_proc :: "nat \<Rightarrow> (PROCESS \<Rightarrow> PROCESS) \<Rightarrow> 'a kproc_scheme \<Rightarrow> 'a kproc_scheme" where
  "upd_proc p f s = s\<lparr>proc_table := (proc_table s)(p := f (proc_table s p))\<rparr>"

subsection \<open>The scheduler\<close>

text \<open>One pass of the \<^verbatim>\<open>for\<close> loop from index \<open>p\<close> on: the greatest count of ticks so far and the
  process it was found at (the value of \<^verbatim>\<open>p_proc_next\<close>).\<close>

function sched_scan :: "(nat \<Rightarrow> PROCESS) \<Rightarrow> nat \<Rightarrow> int \<times> nat \<Rightarrow> int \<times> nat" where
  "sched_scan tab p (greatest_ticks, nxt) =
     (if p < NR_PCBS then
        if stat (tab p) = READY \<and> ticks (tab p) > greatest_ticks
        then sched_scan tab (p + 1) (ticks (tab p), p)
        else sched_scan tab (p + 1) (greatest_ticks, nxt)
      else (greatest_ticks, nxt))"
  by pat_completeness auto
termination by (relation "measure (\<lambda>(_, p, _). NR_PCBS - p)") auto

declare sched_scan.simps [simp del]

definition refill :: "(nat \<Rightarrow> PROCESS) \<Rightarrow> nat \<Rightarrow> PROCESS" where
  "refill tab = (\<lambda>p. if p < NR_PCBS then (tab p)\<lparr>ticks := priority (tab p)\<rparr> else tab p)"

partial_function (option) sched_loop ::
  "(nat \<Rightarrow> PROCESS) \<Rightarrow> nat \<Rightarrow> ((nat \<Rightarrow> PROCESS) \<times> nat) option" where
  "sched_loop tab nxt =
     (let (greatest_ticks, nxt') = sched_scan tab 0 (0, nxt) in
      if greatest_ticks \<noteq> 0 then Some (tab, nxt') else sched_loop (refill tab) nxt')"

declare sched_loop.simps [code]

definition schedule :: "'a kproc_scheme \<Rightarrow> 'a kproc_scheme option" where
  "schedule s =
     (if stat (proc_cur s) = READY \<and> ticks (proc_cur s) > 0
      then Some (s\<lparr>p_proc_next := p_proc_current s\<rparr>)
      else case sched_loop (proc_table s) (p_proc_next s) of
        None \<Rightarrow> None
      | Some (tab, nxt) \<Rightarrow> Some (s\<lparr>proc_table := tab, p_proc_next := nxt\<rparr>))"

text \<open>\<^verbatim>\<open>sched\<close> and \<^verbatim>\<open>renew_env\<close> of \<^verbatim>\<open>kernel.asm\<close> with \<^verbatim>\<open>switch_pde\<close>: save the context, schedule, and go on
  with the chosen process.\<close>

definition switch_pde :: "'a kproc_scheme \<Rightarrow> 'a kproc_scheme" where
  "switch_pde s = s\<lparr>cr3_ready := cr3 (proc_cur s)\<rparr>"

definition sched :: "'a kproc_scheme \<Rightarrow> 'a kproc_scheme option" where
  "sched s = do {
     s \<leftarrow> schedule s;
     Some (switch_pde (s\<lparr>p_proc_current := p_proc_next s\<rparr>))
   }"

subsection \<open>Allocating control blocks\<close>

function alloc_PCB_loop :: "'a kproc_scheme \<Rightarrow> nat \<Rightarrow> nat option" where
  "alloc_PCB_loop s i =
     (if i < NR_PCBS then
        if stat (proc_table s i) = IDLE then Some i else alloc_PCB_loop s (i + 1)
      else None)"
  by pat_completeness auto
termination by (relation "measure (\<lambda>(_, i). NR_PCBS - i)") auto

declare alloc_PCB_loop.simps [simp del]

definition alloc_PCB :: "'a kproc_scheme \<Rightarrow> nat option" where
  "alloc_PCB s = alloc_PCB_loop s NR_K_PCBS"

definition free_PCB :: "nat \<Rightarrow> 'a kproc_scheme \<Rightarrow> 'a kproc_scheme" where
  "free_PCB p = upd_proc p (stat_update (\<lambda>_. IDLE))"

subsection \<open>Yield, sleep and wakeup\<close>

definition sys_yield :: "'a kproc_scheme \<Rightarrow> 'a kproc_scheme option" where
  "sys_yield s = sched (upd_proc (p_proc_current s) (ticks_update (\<lambda>_. 0)) s)"

text \<open>\<^verbatim>\<open>sys_sleep\<close> gives up the processor inside its loop. \<open>sys_sleep\<close> is the part before the loop,
  whose result is the local \<^verbatim>\<open>ticks0\<close>; \<open>sys_sleep_loop\<close> is one round: \<open>Inl\<close> the state after \<^verbatim>\<open>sched\<close>
  (the process continues with the next round when it is chosen again), or \<open>Inr\<close> the state when
  the loop is left.\<close>

definition sys_sleep :: "'a kproc_scheme \<Rightarrow> 'a kproc_scheme \<times> u32" where
  "sys_sleep s =
     (upd_proc (p_proc_current s) (channel_update (\<lambda>_. addr_ticks s)) s, g_ticks s)"

definition sys_sleep_loop ::
  "u32 \<Rightarrow> int \<Rightarrow> 'a kproc_scheme \<Rightarrow> ('a kproc_scheme + 'a kproc_scheme) option" where
  "sys_sleep_loop ticks0 n s =
     (if sint (g_ticks s - ticks0) < n
      then map_option Inl (sched (upd_proc (p_proc_current s) (stat_update (\<lambda>_. SLEEPING)) s))
      else Some (Inr s))"

definition wake :: "u32 \<Rightarrow> PROCESS \<Rightarrow> PROCESS" where
  "wake ch p = (if stat p = SLEEPING \<and> channel p = ch then p\<lparr>stat := READY\<rparr> else p)"

definition sys_wakeup :: "u32 \<Rightarrow> 'a kproc_scheme \<Rightarrow> 'a kproc_scheme" where
  "sys_wakeup ch s =
     s\<lparr>proc_table := (\<lambda>p. if p < NR_PCBS then wake ch (proc_table s p) else proc_table s p)\<rparr>"

definition clock_handler :: "'a kproc_scheme \<Rightarrow> 'a kproc_scheme" where
  "clock_handler s =
     (let s = s\<lparr>g_ticks := g_ticks s + 1\<rparr> in
      if kernel_initial s then s
      else sys_wakeup (addr_ticks s) (upd_proc (p_proc_current s) (ticks_update (\<lambda>t. t - 1)) s))"

definition sys_get_ticks :: "'a kproc_scheme \<Rightarrow> u32" where
  "sys_get_ticks s = g_ticks s"

definition sys_get_pid :: "'a kproc_scheme \<Rightarrow> u32" where
  "sys_get_pid s = pid (proc_cur s)"

text \<open>The last step of \<^verbatim>\<open>exception_handler\<close>: the process that caused the exception is never run again.\<close>

definition exception_kill :: "'a kproc_scheme \<Rightarrow> 'a kproc_scheme" where
  "exception_kill s = upd_proc (p_proc_current s) (stat_update (\<lambda>_. KILLED)) s"

subsection \<open>Segment addresses\<close>

definition INDEX_LDT_RW :: nat where "INDEX_LDT_RW = 1"

definition ldt_seg_linear :: "PROCESS \<Rightarrow> nat \<Rightarrow> u32" where
  "ldt_seg_linear p idx =
     (let d = ldts p idx in
      push_bit 24 (ucast (base_high d)) OR push_bit 16 (ucast (base_mid d)) OR ucast (base_low d))"

definition va2la :: "nat \<Rightarrow> u32 \<Rightarrow> 'a kproc_scheme \<Rightarrow> u32" where
  "va2la p va s =
     (if kernel_initial s then va else ldt_seg_linear (proc_table s p) INDEX_LDT_RW + va)"

subsection \<open>What the scheduler chooses\<close>

definition ready :: "(nat \<Rightarrow> PROCESS) \<Rightarrow> nat \<Rightarrow> bool" where
  "ready tab p \<longleftrightarrow> p < NR_PCBS \<and> stat (tab p) = READY"

text \<open>The first of the ready processes with the most ticks left, if these are positive.\<close>

definition best :: "(nat \<Rightarrow> PROCESS) \<Rightarrow> nat \<Rightarrow> bool" where
  "best tab p \<longleftrightarrow> ready tab p \<and> ticks (tab p) > 0 \<and>
     (\<forall>q. ready tab q \<longrightarrow> ticks (tab q) \<le> ticks (tab p)) \<and>
     (\<forall>q<p. ready tab q \<longrightarrow> ticks (tab q) < ticks (tab p))"

lemma sched_scan_bounds:
  "fst (sched_scan tab p (g, n)) \<ge> g \<and>
   (\<forall>q. p \<le> q \<and> ready tab q \<longrightarrow> ticks (tab q) \<le> fst (sched_scan tab p (g, n)))"
proof (induction tab p "(g, n)" arbitrary: g n rule: sched_scan.induct)
  case (1 tab p g n)
  show ?case
  proof (cases "p < NR_PCBS")
    case False
    then show ?thesis by (auto simp: sched_scan.simps ready_def)
  next
    case in_range: True
    show ?thesis
    proof (cases "stat (tab p) = READY \<and> ticks (tab p) > g")
      case True
      note IH = "1.hyps"(1)[OF in_range True]
      have "sched_scan tab p (g, n) = sched_scan tab (p + 1) (ticks (tab p), p)"
        using True in_range by (subst sched_scan.simps) simp
      with IH True show ?thesis
        by (auto simp: le_eq_less_or_eq[of p] Suc_le_eq)
    next
      case False
      note IH = "1.hyps"(2)[OF in_range False]
      have "sched_scan tab p (g, n) = sched_scan tab (p + 1) (g, n)"
        using False in_range by (subst sched_scan.simps) auto
      with IH False show ?thesis
        by (auto simp: le_eq_less_or_eq[of p] Suc_le_eq ready_def not_less intro: order_trans)
    qed
  qed
qed

lemma sched_scan_found:
  assumes "sched_scan tab p (g, n) = (g', n')"
  shows "(g' = g \<and> n' = n) \<or>
     (g' > g \<and> p \<le> n' \<and> ready tab n' \<and> ticks (tab n') = g' \<and>
      (\<forall>q. p \<le> q \<and> q < n' \<and> ready tab q \<longrightarrow> ticks (tab q) < g'))"
  using assms
proof (induction tab p "(g, n)" arbitrary: g n rule: sched_scan.induct)
  case (1 tab p g n)
  show ?case
  proof (cases "p < NR_PCBS")
    case False
    with "1.prems" show ?thesis by (simp add: sched_scan.simps)
  next
    case in_range: True
    show ?thesis
    proof (cases "stat (tab p) = READY \<and> ticks (tab p) > g")
      case True
      have "sched_scan tab (p + 1) (ticks (tab p), p) = (g', n')"
        using True in_range "1.prems" by (subst (asm) sched_scan.simps) simp
      from "1.hyps"(1)[OF in_range True this] show ?thesis
        using True in_range by (auto simp: ready_def le_eq_less_or_eq[of p] Suc_le_eq)
    next
      case False
      have "sched_scan tab (p + 1) (g, n) = (g', n')"
        using False in_range "1.prems" by (subst (asm) sched_scan.simps) (auto split: if_splits)
      from "1.hyps"(2)[OF in_range False this] show ?thesis
        using False by (auto simp: ready_def le_eq_less_or_eq[of p] Suc_le_eq)
    qed
  qed
qed

lemma sched_scan_zero:
  "fst (sched_scan tab 0 (0, n)) = 0 \<longleftrightarrow> (\<forall>q. ready tab q \<longrightarrow> ticks (tab q) \<le> 0)"
proof -
  obtain g' n' where e: "sched_scan tab 0 (0, n) = (g', n')" by fastforce
  show ?thesis
    using sched_scan_found[OF e] sched_scan_bounds[where p=0 and g=0 and n=n and tab=tab]
    by (force simp: e)
qed

lemma sched_scan_best:
  assumes "sched_scan tab 0 (0, n) = (g', n')" "g' \<noteq> 0"
  shows "best tab n'"
  using sched_scan_found[OF assms(1)] sched_scan_bounds[where p=0 and g=0 and n=n and tab=tab] assms
  by (auto simp: best_def)

lemma sched_scan_same:
  assumes "fst (sched_scan tab 0 (0, n)) = 0"
  shows "sched_scan tab 0 (0, n) = (0, n)"
  using sched_scan_found[of tab 0 0 n "fst (sched_scan tab 0 (0, n))" "snd (sched_scan tab 0 (0, n))"] assms
  by (auto simp: prod_eq_iff)

lemma best_unique: "best tab p \<Longrightarrow> best tab q \<Longrightarrow> p = q"
  unfolding best_def by (meson less_irrefl linorder_neqE_nat not_less order_less_le_trans)

lemma ready_refill [simp]: "ready (refill tab) p = ready tab p"
  by (auto simp: ready_def refill_def)

lemma ticks_refill: "p < NR_PCBS \<Longrightarrow> ticks (refill tab p) = priority (tab p)"
  by (simp add: refill_def)

lemma refill_refill [simp]: "refill (refill tab) = refill tab"
  by (rule ext) (simp add: refill_def)

lemma sched_loop_now:
  assumes "ready tab q" "ticks (tab q) > 0"
  obtains p where "sched_loop tab n = Some (tab, p)" "best tab p"
proof -
  obtain g' n' where e: "sched_scan tab 0 (0, n) = (g', n')" by fastforce
  have "g' \<noteq> 0" using sched_scan_zero[of tab n] assms e by fastforce
  with e show ?thesis
    by (intro that[of n']) (simp_all add: sched_loop.simps sched_scan_best)
qed

lemma sched_loop_refill:
  assumes "\<forall>q. ready tab q \<longrightarrow> ticks (tab q) \<le> 0"
  shows "sched_loop tab n = sched_loop (refill tab) n"
proof -
  have "fst (sched_scan tab 0 (0, n)) = 0" using assms sched_scan_zero by blast
  then show ?thesis by (subst sched_loop.simps) (simp add: sched_scan_same)
qed

text \<open>When no ready process has a positive priority the loop does not end.\<close>

lemma sched_loop_stuck:
  assumes "\<forall>q. ready tab q \<longrightarrow> ticks (tab q) \<le> 0 \<and> priority (tab q) \<le> 0"
  shows "sched_loop tab n = None"
proof -
  have "\<not> (\<forall>q. ready tab q \<longrightarrow> ticks (tab q) \<le> 0 \<and> priority (tab q) \<le> 0)"
    if "sched_loop tab n = Some r" for r
  proof (rule sched_loop.raw_induct[where P = "\<lambda>tab n r.
      \<not> (\<forall>q. ready tab q \<longrightarrow> ticks (tab q) \<le> 0 \<and> priority (tab q) \<le> 0)", OF _ that], rule notI)
    fix loop :: "(nat \<Rightarrow> PROCESS) \<Rightarrow> nat \<Rightarrow> ((nat \<Rightarrow> PROCESS) \<times> nat) option"
      and tab :: "nat \<Rightarrow> PROCESS" and n r
    assume IH: "\<And>tab n r. loop tab n = Some r \<Longrightarrow>
        \<not> (\<forall>q. ready tab q \<longrightarrow> ticks (tab q) \<le> 0 \<and> priority (tab q) \<le> 0)"
      and eq: "(let (greatest_ticks, nxt') = sched_scan tab 0 (0, n) in
          if greatest_ticks \<noteq> 0 then Some (tab, nxt') else loop (refill tab) nxt') = Some r"
      and stuck: "\<forall>q. ready tab q \<longrightarrow> ticks (tab q) \<le> 0 \<and> priority (tab q) \<le> 0"
    from stuck have "fst (sched_scan tab 0 (0, n)) = 0" using sched_scan_zero by blast
    with eq have l: "loop (refill tab) n = Some r" by (simp add: sched_scan_same)
    have "\<forall>q. ready (refill tab) q \<longrightarrow> ticks (refill tab q) \<le> 0 \<and> priority (refill tab q) \<le> 0"
      using stuck by (auto simp: refill_def ready_def)
    then show False using IH[OF l] by blast
  qed
  then show ?thesis using assms by (cases "sched_loop tab n") blast+
qed

text \<open>The four ways \<^verbatim>\<open>schedule\<close> ends.\<close>

lemma schedule_same:
  "stat (proc_cur s) = READY \<Longrightarrow> ticks (proc_cur s) > 0 \<Longrightarrow>
   schedule s = Some (s\<lparr>p_proc_next := p_proc_current s\<rparr>)"
  by (simp add: schedule_def)

lemma schedule_best:
  assumes "\<not> (stat (proc_cur s) = READY \<and> ticks (proc_cur s) > 0)"
    and "ready (proc_table s) q" "ticks (proc_table s q) > 0"
  obtains p where "best (proc_table s) p" "schedule s = Some (s\<lparr>p_proc_next := p\<rparr>)"
proof -
  obtain p where "sched_loop (proc_table s) (p_proc_next s) = Some (proc_table s, p)" "best (proc_table s) p"
    by (rule sched_loop_now[OF assms(2,3)])
  with assms(1) show ?thesis by (intro that[of p]) (auto simp: schedule_def)
qed

lemma schedule_refill:
  assumes "p_proc_current s < NR_PCBS"
    and "\<forall>q. ready (proc_table s) q \<longrightarrow> ticks (proc_table s q) \<le> 0"
    and "ready (proc_table s) q" "priority (proc_table s q) > 0"
  obtains p where "best (refill (proc_table s)) p"
    "schedule s = Some (s\<lparr>proc_table := refill (proc_table s), p_proc_next := p\<rparr>)"
proof -
  have "ready (refill (proc_table s)) q" "ticks (refill (proc_table s) q) > 0"
    using assms(3,4) by (simp_all add: ticks_refill) (simp add: ticks_refill ready_def)
  then obtain p where p: "sched_loop (refill (proc_table s)) (p_proc_next s) = Some (refill (proc_table s), p)"
    "best (refill (proc_table s)) p"
    by (rule sched_loop_now)
  have "\<not> (stat (proc_cur s) = READY \<and> ticks (proc_cur s) > 0)"
    using assms(1,2) by (auto simp: ready_def not_less)
  with p show ?thesis
    by (intro that[of p]) (auto simp: schedule_def sched_loop_refill[OF assms(2)])
qed

lemma schedule_stuck:
  assumes "p_proc_current s < NR_PCBS"
    and "\<forall>q. ready (proc_table s) q \<longrightarrow> ticks (proc_table s q) \<le> 0 \<and> priority (proc_table s q) \<le> 0"
  shows "schedule s = None"
  using assms sched_loop_stuck[OF assms(2)] by (auto simp: schedule_def ready_def not_less)

text \<open>Every case of \<^verbatim>\<open>schedule\<close>, as a relation between the state before and after.\<close>

definition chooses :: "'a kproc_scheme \<Rightarrow> 'a kproc_scheme \<Rightarrow> bool" where
  "chooses s s' \<longleftrightarrow>
     (if ready (proc_table s) (p_proc_current s) \<and> ticks (proc_cur s) > 0
      then s' = s\<lparr>p_proc_next := p_proc_current s\<rparr>
      else if \<exists>q<NR_PCBS. ready (proc_table s) q \<and> ticks (proc_table s q) > 0
      then \<exists>p<NR_PCBS. best (proc_table s) p \<and> s' = s\<lparr>p_proc_next := p\<rparr>
      else \<exists>p<NR_PCBS. best (refill (proc_table s)) p \<and>
             s' = s\<lparr>proc_table := refill (proc_table s), p_proc_next := p\<rparr>)"

lemma best_in_range: "best tab p \<Longrightarrow> p < NR_PCBS"
  by (simp add: best_def ready_def)

lemma schedule_cases:
  assumes cur: "p_proc_current s < NR_PCBS"
  shows "case schedule s of
     None \<Rightarrow> \<forall>q. ready (proc_table s) q \<longrightarrow> ticks (proc_table s q) \<le> 0 \<and> priority (proc_table s q) \<le> 0
   | Some s' \<Rightarrow> chooses s s' \<and>
       (\<exists>q. ready (proc_table s) q \<and> (ticks (proc_table s q) > 0 \<or> priority (proc_table s q) > 0))"
proof -
  let ?T = "proc_table s"
  consider (same) "ready ?T (p_proc_current s)" "ticks (proc_cur s) > 0"
    | (now) q where "\<not> (ready ?T (p_proc_current s) \<and> ticks (proc_cur s) > 0)" "ready ?T q" "ticks (?T q) > 0"
    | (again) q where "\<forall>q. ready ?T q \<longrightarrow> ticks (?T q) \<le> 0" "ready ?T q" "priority (?T q) > 0"
    | (stuck) "\<forall>q. ready ?T q \<longrightarrow> ticks (?T q) \<le> 0 \<and> priority (?T q) \<le> 0"
    by (meson not_less)
  then show ?thesis
  proof cases
    case same
    then show ?thesis by (auto simp: ready_def schedule_same chooses_def)
  next
    case now
    then have "\<not> (stat (proc_cur s) = READY \<and> ticks (proc_cur s) > 0)"
      using cur by (simp add: ready_def)
    from schedule_best[OF this now(2,3)] obtain p
      where p: "best ?T p" "schedule s = Some (s\<lparr>p_proc_next := p\<rparr>)" .
    moreover have "\<exists>q<NR_PCBS. ready ?T q \<and> ticks (?T q) > 0"
      using now(2,3) by (auto simp: ready_def)
    ultimately show ?thesis using now best_in_range by (auto simp: chooses_def)
  next
    case again
    from schedule_refill[OF cur again] obtain p
      where "best (refill ?T) p" "schedule s = Some (s\<lparr>proc_table := refill ?T, p_proc_next := p\<rparr>)" .
    then show ?thesis using again best_in_range cur
      by (fastforce simp: chooses_def not_less)
  next
    case stuck
    then show ?thesis using schedule_stuck[OF cur] by simp
  qed
qed

text \<open>
  C10. \<^verbatim>\<open>schedule\<close> ends exactly when some ready process has ticks left or a positive priority (its
  loop runs forever otherwise). A ready current process with ticks left goes on; otherwise
  the first of the ready processes with the most ticks is chosen, after all counts have been reset
  to the priorities when no ready process had a tick left.
\<close>

theorem schedule_chooses:
  assumes "p_proc_current s < NR_PCBS"
  shows "(schedule s \<noteq> None \<longleftrightarrow>
      (\<exists>q. ready (proc_table s) q \<and> (ticks (proc_table s q) > 0 \<or> priority (proc_table s q) > 0))) \<and>
    (\<forall>s'. schedule s = Some s' \<longrightarrow> chooses s s')"
  using schedule_cases[OF assms] by (auto simp: not_less split: option.splits)

text \<open>A small system for the examples: process 0 is ready with two ticks, process 1 is ready and has used up its ticks.\<close>

definition demo_PCB :: PROCESS where
  "demo_PCB = \<lparr>regs = (\<lambda>_. 0), ldt_sel = 0, ldts = (\<lambda>_. \<lparr>limit_low = 0, base_low = 0, base_mid = 0, attr1 = 0,
       limit_high_attr2 = 0, base_high = 0\<rparr>),
     esp_save_int = 0, esp_save_syscall = 0, esp_save_context = 0, channel = 0,
     memmap = \<lparr>text_lin_base = 0, text_lin_limit = 0, data_lin_base = 0, data_lin_limit = 0, vpage_lin_base = 0,
       vpage_lin_limit = 0, heap_lin_base = 0, heap_lin_limit = 0, stack_lin_base = 0, stack_lin_limit = 0,
       arg_lin_base = 0, arg_lin_limit = 0, kernel_lin_base = 0, kernel_lin_limit = 0, stack_child_limit = 0\<rparr>,
     info = \<lparr>p_type = TYPE_PROCESS, real_ppid = -1, ppid = -1, child_p_num = 0, child_process = (\<lambda>_. 0),
       child_t_num = 0, child_thread = (\<lambda>_. 0), text_hold = 1, data_hold = 1\<rparr>,
     ticks = 0, priority = 0, pid = 0, p_name = (\<lambda>_. 0), stat = IDLE, cr3 = 0, filp = (\<lambda>_. 0), p_cwd = (\<lambda>_. 0),
     kstack = (\<lambda>_. 0)\<rparr>"

definition demo_table :: "nat \<Rightarrow> PROCESS" where
  "demo_table = (\<lambda>p. demo_PCB\<lparr>pid := of_nat p\<rparr>)
     (0 := demo_PCB\<lparr>stat := READY, ticks := 2, priority := 3\<rparr>,
      1 := demo_PCB\<lparr>pid := 1, stat := READY, priority := 3\<rparr>)"

definition demo_kproc :: kproc where
  "demo_kproc = \<lparr>kernel_initial = False, g_ticks = 0, u_proc_sum = 0, p_proc_current = 1, p_proc_next = 1,
     cr3_ready = 0, proc_table = demo_table, addr_table = 0xC0040000, addr_ticks = 0xC0030000\<rparr>"

theorem schedule_chooses_witness:
  "\<exists>s'. schedule demo_kproc = Some s' \<and> p_proc_next s' = 0"
proof -
  have c: "p_proc_current demo_kproc < NR_PCBS" by (simp add: demo_kproc_def NR_PCBS_def)
  have r0: "ready (proc_table demo_kproc) 0" "ticks (proc_table demo_kproc 0) = 2"
    by (simp_all add: ready_def demo_kproc_def demo_table_def NR_PCBS_def)
  have cur: "ticks (proc_cur demo_kproc) = 0" by (simp add: demo_kproc_def demo_table_def demo_PCB_def)
  have only: "q = 0" if "ready (proc_table demo_kproc) q" "0 < ticks (proc_table demo_kproc q)" for q
    using that by (auto simp: demo_kproc_def demo_table_def demo_PCB_def split: if_splits)
  from schedule_chooses[OF c] r0 obtain s' where s': "schedule demo_kproc = Some s'" "chooses demo_kproc s'" by force
  moreover have "\<exists>q<NR_PCBS. ready (proc_table demo_kproc) q \<and> 0 < ticks (proc_table demo_kproc q)"
    using r0 by (auto simp: NR_PCBS_def intro!: exI[of _ 0])
  ultimately obtain p where "best (proc_table demo_kproc) p" "s' = demo_kproc\<lparr>p_proc_next := p\<rparr>"
    by (auto simp: chooses_def cur)
  then show ?thesis using only s' by (auto simp: best_def)
qed

end
