(* ===== verification/SpinLock.thy ===== *)
theory SpinLock
  imports Prelude
begin

text \<open>
  The spin lock of \<^verbatim>\<open>kernel/spinlock.c\<close>. The instruction \<^verbatim>\<open>lock cmpxchg\<close> is one atomic step on the
  lock word. \<open>acquire\<close> is the loop of one processor while no other touches the lock; processors
  that use the lock at the same time are a step relation whose steps are the accesses to the
  lock word, in any order.
\<close>

record spinlock =
  locked :: u32
  lk_name :: "u8 list"
  cpu :: u32

definition cmpxchg :: "u32 \<Rightarrow> u32 \<Rightarrow> u32 \<Rightarrow> u32 \<times> u32" where
  "cmpxchg oldval newval m = (m, if m = oldval then newval else m)"

definition initlock :: "u8 list \<Rightarrow> spinlock \<Rightarrow> spinlock" where
  "initlock name l = l\<lparr>lk_name := name, locked := 0, cpu := 0xffffffff\<rparr>"

text \<open>One round of the loop of \<^verbatim>\<open>acquire\<close>: whether it is left, and the lock.\<close>

definition acquire_try :: "spinlock \<Rightarrow> bool \<times> spinlock" where
  "acquire_try l = (let (result, m) = cmpxchg 0 1 (locked l) in (result \<noteq> 1, l\<lparr>locked := m\<rparr>))"

partial_function (option) acquire :: "spinlock \<Rightarrow> spinlock option" where
  "acquire l = (let (done, l') = acquire_try l in if done then Some l' else acquire l')"

declare acquire.simps [code]

definition release :: "spinlock \<Rightarrow> spinlock" where
  "release l = l\<lparr>locked := 0\<rparr>"

lemma acquire_try_simps:
  "locked l = 0 \<Longrightarrow> acquire_try l = (True, l\<lparr>locked := 1\<rparr>)"
  "locked l = 1 \<Longrightarrow> acquire_try l = (False, l)"
  "locked (snd (acquire_try l)) = 0 \<longleftrightarrow> False"
  by (auto simp: acquire_try_def cmpxchg_def)

lemma acquire_free: "locked l = 0 \<Longrightarrow> acquire l = Some (l\<lparr>locked := 1\<rparr>)"
  by (simp add: acquire.simps acquire_try_simps)

lemma acquire_held: "locked l = 1 \<Longrightarrow> acquire l = None"
proof -
  assume held: "locked l = 1"
  have "locked l \<noteq> 1" if "acquire l = Some r" for r
  proof (rule acquire.raw_induct[where P = "\<lambda>l r. locked l \<noteq> 1", OF _ that], rule notI)
    fix loop :: "spinlock \<Rightarrow> spinlock option" and l r
    assume IH: "\<And>l r. loop l = Some r \<Longrightarrow> locked l \<noteq> 1"
      and eq: "(let (done, l') = acquire_try l in if done then Some l' else loop l') = Some r"
      and l: "locked l = 1"
    then have "loop l = Some r" by (simp add: acquire_try_simps)
    with IH l show False by blast
  qed
  with held show ?thesis by (cases "acquire l") auto
qed

subsection \<open>Processors that share a lock\<close>

datatype lock_pc = Outside | Acquiring | Holding

type_synonym lock_state = "spinlock \<times> (nat \<Rightarrow> lock_pc)"

inductive lock_step :: "lock_state \<Rightarrow> lock_state \<Rightarrow> bool" where
  call: "pc c = Outside \<Longrightarrow> lock_step (l, pc) (l, pc(c := Acquiring))"
| spin: "pc c = Acquiring \<Longrightarrow> acquire_try l = (False, l') \<Longrightarrow> lock_step (l, pc) (l', pc)"
| enter: "pc c = Acquiring \<Longrightarrow> acquire_try l = (True, l') \<Longrightarrow> lock_step (l, pc) (l', pc(c := Holding))"
| leave: "pc c = Holding \<Longrightarrow> lock_step (l, pc) (release l, pc(c := Outside))"

inductive_cases lock_stepE: "lock_step (l, pc) s'"

definition lock_inv :: "lock_state \<Rightarrow> bool" where
  "lock_inv s = (case s of (l, pc) \<Rightarrow>
     (locked l = 0 \<and> (\<forall>c. pc c \<noteq> Holding)) \<or>
     (locked l = 1 \<and> (\<exists>c. pc c = Holding \<and> (\<forall>d. pc d = Holding \<longrightarrow> d = c))))"

lemma lock_inv_cases:
  assumes "lock_inv (l, pc)"
  obtains (free) "locked l = 0" "\<forall>c. pc c \<noteq> Holding"
  | (held) c where "locked l = 1" "pc c = Holding" "\<forall>d. pc d = Holding \<longrightarrow> d = c"
  using assms by (auto simp: lock_inv_def)

lemma lock_inv_free: "locked l = 0 \<Longrightarrow> (\<And>c. pc c \<noteq> Holding) \<Longrightarrow> lock_inv (l, pc)"
  by (simp add: lock_inv_def)

lemma lock_inv_held:
  "locked l = 1 \<Longrightarrow> pc c = Holding \<Longrightarrow> (\<And>d. pc d = Holding \<Longrightarrow> d = c) \<Longrightarrow> lock_inv (l, pc)"
  by (auto simp: lock_inv_def)

lemma lock_step_inv: "lock_step s s' \<Longrightarrow> lock_inv s \<Longrightarrow> lock_inv s'"
proof (induction rule: lock_step.induct)
  case (call pc c l)
  from call.prems show ?case
  proof (cases rule: lock_inv_cases)
    case free
    then show ?thesis by (intro lock_inv_free) simp_all
  next
    case (held d)
    from held(2) call.hyps have "d \<noteq> c" by auto
    then have "(pc(c := Acquiring)) d = Holding" using held(2) by simp
    moreover have "(pc(c := Acquiring)) e = Holding \<Longrightarrow> pc e = Holding" for e
      by (simp split: if_splits)
    ultimately show ?thesis using held by (blast intro: lock_inv_held)
  qed
next
  case (spin pc c l l')
  from spin.prems show ?case
  proof (cases rule: lock_inv_cases)
    case free
    with spin.hyps show ?thesis by (simp add: acquire_try_simps)
  next
    case held
    then have "l' = l" using spin.hyps by (simp only: acquire_try_simps prod.inject)
    with spin.prems show ?thesis by (simp only:)
  qed
next
  case (enter pc c l l')
  from enter.prems show ?case
  proof (cases rule: lock_inv_cases)
    case free
    with enter.hyps have "l' = l\<lparr>locked := 1\<rparr>" by (simp add: acquire_try_simps)
    then have "locked l' = 1" by simp
    moreover have "(pc(c := Holding)) c = Holding" by simp
    moreover have "(pc(c := Holding)) e = Holding \<Longrightarrow> e = c \<or> pc e = Holding" for e
      by (simp split: if_splits)
    ultimately show ?thesis using free by (blast intro: lock_inv_held)
  next
    case held
    then have False using enter.hyps(2) by (simp only: acquire_try_simps prod.inject simp_thms)
    then show ?thesis ..
  qed
next
  case (leave pc c l)
  from leave.prems show ?case
  proof (cases rule: lock_inv_cases)
    case free
    with leave.hyps show ?thesis by simp
  next
    case (held d)
    with leave.hyps have "\<forall>e. pc e = Holding \<longrightarrow> e = c" by blast
    moreover have "(pc(c := Outside)) e = Holding \<Longrightarrow> pc e = Holding \<and> e \<noteq> c" for e
      by (simp split: if_splits)
    moreover have "locked (release l) = 0" by (simp add: release_def)
    ultimately show ?thesis by (blast intro: lock_inv_free)
  qed
qed

lemma lock_reach_inv: "lock_step\<^sup>*\<^sup>* s s' \<Longrightarrow> lock_inv s \<Longrightarrow> lock_inv s'"
  by (induction rule: rtranclp_induct) (auto intro: lock_step_inv)

lemma lock_init_inv: "lock_inv (initlock name l, \<lambda>_. Outside)"
  by (simp add: lock_inv_def initlock_def)

text \<open>
  C11. However many processors use a lock after \<^verbatim>\<open>initlock\<close>, in whatever order their accesses come:
  never do two of them hold it, and when none holds it the next processor that
  tries, tries with success.
\<close>

theorem lock_excludes:
  assumes "lock_step\<^sup>*\<^sup>* (initlock name l0, \<lambda>_. Outside) (l, pc)"
  shows "(pc c = Holding \<and> pc d = Holding \<longrightarrow> c = d) \<and>
    (fst (acquire_try l) \<longleftrightarrow> (\<forall>c. pc c \<noteq> Holding)) \<and>
    (acquire l \<noteq> None \<longleftrightarrow> (\<forall>c. pc c \<noteq> Holding))"
  using lock_reach_inv[OF assms lock_init_inv]
  by (cases rule: lock_inv_cases) (auto simp: acquire_try_simps acquire_free acquire_held)

theorem lock_excludes_witness:
  "let l0 = \<lparr>locked = 7, lk_name = [], cpu = 0\<rparr>; l = (initlock [] l0)\<lparr>locked := 1\<rparr>;
     pc = (\<lambda>_. Outside)(0 := Acquiring, 0 := Holding, 1 := Acquiring) in
   \<not> fst (acquire_try l) \<and> acquire l = None"
proof -
  define l0 where "l0 = \<lparr>locked = 7, lk_name = [], cpu = 0\<rparr>"
  define s0 where "s0 = initlock [] l0"
  let ?o = "\<lambda>_ :: nat. Outside"
  have "acquire_try s0 = (True, s0\<lparr>locked := 1\<rparr>)"
    by (rule acquire_try_simps) (simp add: s0_def initlock_def)
  then have e: "lock_step (s0, ?o(0 := Acquiring)) (s0\<lparr>locked := 1\<rparr>, ?o(0 := Acquiring, 0 := Holding))"
    by (intro lock_step.enter[where pc = "?o(0 := Acquiring)" and c = 0]) simp_all
  have "lock_step (s0, ?o) (s0, ?o(0 := Acquiring))"
    by (rule lock_step.call[where pc = ?o and c = 0]) simp
  then have "lock_step\<^sup>*\<^sup>* (s0, ?o) (s0\<lparr>locked := 1\<rparr>, ?o(0 := Acquiring, 0 := Holding))"
    using e by (rule rtranclp.rtrancl_into_rtrancl[OF r_into_rtranclp])
  moreover have "lock_step (s0\<lparr>locked := 1\<rparr>, ?o(0 := Acquiring, 0 := Holding))
      (s0\<lparr>locked := 1\<rparr>, ?o(0 := Acquiring, 0 := Holding, 1 := Acquiring))"
    by (rule lock_step.call[where c = 1]) simp
  ultimately have "lock_step\<^sup>*\<^sup>* (s0, ?o) (s0\<lparr>locked := 1\<rparr>, ?o(0 := Acquiring, 0 := Holding, 1 := Acquiring))"
    by (rule rtranclp.rtrancl_into_rtrancl)
  then have "fst (acquire_try (s0\<lparr>locked := 1\<rparr>)) = (\<forall>c. (?o(0 := Acquiring, 0 := Holding, 1 := Acquiring)) c \<noteq> Holding) \<and>
      (acquire (s0\<lparr>locked := 1\<rparr>) \<noteq> None) = (\<forall>c. (?o(0 := Acquiring, 0 := Holding, 1 := Acquiring)) c \<noteq> Holding)"
    unfolding s0_def by (blast dest: lock_excludes)
  moreover have "(?o(0 := Acquiring, 0 := Holding, 1 := Acquiring)) 0 = Holding" by simp
  ultimately show ?thesis unfolding Let_def l0_def[symmetric] s0_def[symmetric] by blast
qed

end
