(* ===== verification/Paging.thy ===== *)
theory Paging
  imports MemMan Process
begin

text \<open>
  Paging, \<^verbatim>\<open>kernel/pagetbl.c\<close>, and the system calls of \<^verbatim>\<open>kernel/syscallc.c\<close> that hand out memory.

  The state is the one of the processes with the physical memory \<open>phys\<close>, in which the page
  directories and page tables lie, the table of free memory \<open>mman\<close> and the two variables of the
  page fault handler. The code reaches physical memory at the linear address \<open>K_PHY2LIN\<close>;
  \<open>kload32\<close> and \<open>kstore32\<close> are such accesses, and go wrong outside of the \<open>KernelSize\<close> bytes
  that every page directory maps there (this is what \<open>init_page_pte\<close> is shown to do). \<open>mmu\<close> is the
  translation that the processor makes with a page directory (80386 Programmer's Reference Manual, 5.2); flushing
  its cache (\<^verbatim>\<open>refresh_page_cache\<close>) changes no state of the model.
\<close>

record kmem = kproc +
  phys :: bytes
  mman :: MEMMAN
  cr2_save :: u32
  cr2_count :: nat

definition KernelLinBase :: u32 where "KernelLinBase = 0xC0000000"
definition KernelSize :: u32 where "KernelSize = 0x8000000"
definition num_4K :: u32 where "num_4K = 0x1000"
definition PG_P :: u32 where "PG_P = 1"
definition PG_RWR :: u32 where "PG_RWR = 0"
definition PG_RWW :: u32 where "PG_RWW = 2"
definition PG_USS :: u32 where "PG_USS = 0"
definition PG_USU :: u32 where "PG_USU = 4"

text \<open>Accesses through the kernel's window to physical memory.\<close>

definition in_window :: "u32 \<Rightarrow> nat \<Rightarrow> bool" where
  "in_window a n \<longleftrightarrow> unat (K_LIN2PHY a) + n \<le> unat KernelSize"

definition kload32 :: "u32 \<Rightarrow> 'a kmem_scheme \<Rightarrow> u32 option" where
  "kload32 a s = (if in_window a 4 then Some (load32 (phys s) (unat (K_LIN2PHY a))) else None)"

definition kstore32 :: "u32 \<Rightarrow> u32 \<Rightarrow> 'a kmem_scheme \<Rightarrow> 'a kmem_scheme option" where
  "kstore32 a w s =
     (if in_window a 4 then Some (s\<lparr>phys := store32 (phys s) (unat (K_LIN2PHY a)) w\<rparr>) else None)"

definition kmemset :: "u32 \<Rightarrow> u8 \<Rightarrow> nat \<Rightarrow> 'a kmem_scheme \<Rightarrow> 'a kmem_scheme option" where
  "kmemset a b n s =
     (if in_window a n
      then Some (s\<lparr>phys := store_list (phys s) (unat (K_LIN2PHY a)) (replicate n b)\<rparr>) else None)"

text \<open>The two page allocators, on this state.\<close>

definition kmalloc_page :: "'a kmem_scheme \<Rightarrow> 'a kmem_scheme \<times> u32" where
  "kmalloc_page s = (case do_kmalloc_4k (mman s) of (m, a) \<Rightarrow> (s\<lparr>mman := m\<rparr>, a))"

definition malloc_page :: "'a kmem_scheme \<Rightarrow> 'a kmem_scheme \<times> u32" where
  "malloc_page s = (case do_malloc_4k (mman s) of (m, a) \<Rightarrow> (s\<lparr>mman := m\<rparr>, a))"

subsection \<open>Page directories and page tables\<close>

definition get_pde_index :: "u32 \<Rightarrow> u32" where
  "get_pde_index AddrLin = drop_bit 22 AddrLin"

definition get_pte_index :: "u32 \<Rightarrow> u32" where
  "get_pte_index AddrLin = drop_bit 12 (AddrLin AND 0x003FFFFF)"

definition get_pde_phy_addr :: "u32 \<Rightarrow> 'a kmem_scheme \<Rightarrow> u32 option" where
  "get_pde_phy_addr p s =
     (if unat p < NR_PCBS then
        if cr3 (proc_table s (unat p)) = 0 then Some (- 1)
        else Some (cr3 (proc_table s (unat p)) AND 0xFFFFF000)
      else None)"

definition get_pte_phy_addr :: "u32 \<Rightarrow> u32 \<Rightarrow> 'a kmem_scheme \<Rightarrow> u32 option" where
  "get_pte_phy_addr p AddrLin s = do {
     PageDirPhyAddr \<leftarrow> get_pde_phy_addr p s;
     e \<leftarrow> kload32 (K_PHY2LIN PageDirPhyAddr + 4 * get_pde_index AddrLin) s;
     Some (e AND 0xFFFFF000)
   }"

definition get_page_phy_addr :: "u32 \<Rightarrow> u32 \<Rightarrow> 'a kmem_scheme \<Rightarrow> u32 option" where
  "get_page_phy_addr p AddrLin s = do {
     PageTblPhyAddr \<leftarrow> get_pte_phy_addr p AddrLin s;
     e \<leftarrow> kload32 (K_PHY2LIN PageTblPhyAddr + 4 * get_pte_index AddrLin) s;
     Some (e AND 0xFFFFF000)
   }"

definition pte_exist :: "u32 \<Rightarrow> u32 \<Rightarrow> 'a kmem_scheme \<Rightarrow> bool option" where
  "pte_exist PageDirPhyAddr AddrLin s = do {
     e \<leftarrow> kload32 (K_PHY2LIN PageDirPhyAddr + 4 * get_pde_index AddrLin) s;
     Some (1 AND e \<noteq> 0)
   }"

definition phy_exist :: "u32 \<Rightarrow> u32 \<Rightarrow> 'a kmem_scheme \<Rightarrow> bool option" where
  "phy_exist PageTblPhyAddr AddrLin s = do {
     e \<leftarrow> kload32 (K_PHY2LIN PageTblPhyAddr + 4 * get_pte_index AddrLin) s;
     Some (1 AND e \<noteq> 0)
   }"

definition write_page_pde :: "u32 \<Rightarrow> u32 \<Rightarrow> u32 \<Rightarrow> u32 \<Rightarrow> 'a kmem_scheme \<Rightarrow> 'a kmem_scheme option" where
  "write_page_pde PageDirPhyAddr AddrLin TblPhyAddr Attribute s =
     kstore32 (K_PHY2LIN PageDirPhyAddr + 4 * get_pde_index AddrLin) ((TblPhyAddr AND 0xFFFFF000) OR Attribute) s"

definition write_page_pte :: "u32 \<Rightarrow> u32 \<Rightarrow> u32 \<Rightarrow> u32 \<Rightarrow> 'a kmem_scheme \<Rightarrow> 'a kmem_scheme option" where
  "write_page_pte TblPhyAddr AddrLin PhyAddr Attribute s =
     kstore32 (K_PHY2LIN TblPhyAddr + 4 * get_pte_index AddrLin) ((PhyAddr AND 0xFFFFF000) OR Attribute) s"

subsection \<open>Mapping a page\<close>

text \<open>The page table of an address: a new one, filled with zeroes and entered in the directory, when
  there is none. \<open>Inl\<close> is the return with an error. (The comparison \<^verbatim>\<open>pte_addr_phy < 0\<close> of an
  unsigned number never holds.)\<close>

definition mapping_table ::
  "u32 \<Rightarrow> u32 \<Rightarrow> u32 \<Rightarrow> 'a kmem_scheme \<Rightarrow> ('a kmem_scheme \<times> (int + u32)) option" where
  "mapping_table AddrLin p pde_Attribute s = do {
     pde_addr_phy \<leftarrow> get_pde_phy_addr p s;
     e \<leftarrow> pte_exist pde_addr_phy AddrLin s;
     if \<not> e then
       let (s, pte_addr_phy) = kmalloc_page s in do {
         s \<leftarrow> kmemset (K_PHY2LIN pte_addr_phy) 0 (unat num_4K) s;
         if pte_addr_phy AND 0x3FF \<noteq> 0 then Some (s, Inl (- 1))
         else do {
           s \<leftarrow> write_page_pde pde_addr_phy AddrLin pte_addr_phy pde_Attribute s;
           Some (s, Inr pte_addr_phy)
         }
       }
     else do {
       pte_addr_phy \<leftarrow> get_pte_phy_addr p AddrLin s;
       Some (s, Inr pte_addr_phy)
     }
   }"

text \<open>The page to be mapped: the given one, or a new one from the kernel's or the users' pool. \<open>None\<close>
  inside the result says that the address is mapped already.\<close>

definition mapping_page ::
  "u32 \<Rightarrow> u32 \<Rightarrow> u32 \<Rightarrow> 'a kmem_scheme \<Rightarrow> ('a kmem_scheme \<times> u32 option) option" where
  "mapping_page AddrLin phy_addr pte_addr_phy s =
     (if MAX_UNSIGNED_INT = phy_addr then do {
        e \<leftarrow> phy_exist pte_addr_phy AddrLin s;
        if \<not> e then
          let (s, a) = (if AddrLin \<ge> K_PHY2LIN 0 then kmalloc_page s else malloc_page s) in
          Some (s, Some a)
        else Some (s, None)
      }
      else Some (s, Some phy_addr))"

definition lin_mapping_phy ::
  "u32 \<Rightarrow> u32 \<Rightarrow> u32 \<Rightarrow> u32 \<Rightarrow> u32 \<Rightarrow> 'a kmem_scheme \<Rightarrow> ('a kmem_scheme \<times> int) option" where
  "lin_mapping_phy AddrLin phy_addr p pde_Attribute pte_Attribute s = do {
     (s, r) \<leftarrow> mapping_table AddrLin p pde_Attribute s;
     case r of
       Inl err \<Rightarrow> Some (s, err)
     | Inr pte_addr_phy \<Rightarrow> do {
         (s, r) \<leftarrow> mapping_page AddrLin phy_addr pte_addr_phy s;
         case r of
           None \<Rightarrow> Some (s, 0)
         | Some phy_addr \<Rightarrow>
             if phy_addr AND 0x3FF \<noteq> 0 then Some (s, - 1)
             else do {
               s \<leftarrow> write_page_pte pte_addr_phy AddrLin phy_addr pte_Attribute s;
               Some (s, 0)
             }
       }
   }"

subsection \<open>The page directory of a process\<close>

text \<open>The \<^verbatim>\<open>for\<close> loop that maps the kernel: \<open>n\<close> rounds, from \<open>AddrLin\<close> and \<open>phy_addr\<close> on.\<close>

fun init_page_loop :: "u32 \<Rightarrow> u32 \<Rightarrow> u32 \<Rightarrow> nat \<Rightarrow> 'a kmem_scheme \<Rightarrow> ('a kmem_scheme \<times> int) option" where
  "init_page_loop p AddrLin phy_addr 0 s = Some (s, 0)"
| "init_page_loop p AddrLin phy_addr (Suc n) s = do {
     (s, err_temp) \<leftarrow> lin_mapping_phy AddrLin phy_addr p
       (PG_P OR PG_USU OR PG_RWW) (PG_P OR PG_USS OR PG_RWW) s;
     if err_temp \<noteq> 0 then Some (s, - 1)
     else init_page_loop p (AddrLin + num_4K) (phy_addr + num_4K) n s
   }"

definition init_page_pte :: "u32 \<Rightarrow> 'a kmem_scheme \<Rightarrow> ('a kmem_scheme \<times> int) option" where
  "init_page_pte p s =
     (let (s, pde_addr_phy_temp) = kmalloc_page s in do {
        s \<leftarrow> kmemset (K_PHY2LIN pde_addr_phy_temp) 0 (unat num_4K) s;
        if pde_addr_phy_temp AND 0x3FF \<noteq> 0 then Some (s, - 1)
        else if unat p < NR_PCBS then
          init_page_loop p KernelLinBase 0 (unat KernelSize div unat num_4K)
            (upd_proc (unat p) (cr3_update (\<lambda>_. pde_addr_phy_temp)) s)
        else None
      })"

text \<open>\<open>clear_kernel_pagepte_low\<close> removes the mapping of the low addresses from the page directory
  the loader made.\<close>

definition PageTblNumAddr :: u32 where "PageTblNumAddr = 0x500"
definition KernelPageTblAddr :: u32 where "KernelPageTblAddr = 0x200000"

definition clear_kernel_pagepte_low :: "'a kmem_scheme \<Rightarrow> 'a kmem_scheme option" where
  "clear_kernel_pagepte_low s =
     (let page_num = load32 (phys s) (unat PageTblNumAddr) in do {
        s \<leftarrow> kmemset (K_PHY2LIN KernelPageTblAddr) 0 (unat (4 * page_num)) s;
        kmemset (K_PHY2LIN (KernelPageTblAddr + 0x1000)) 0 (unat (4096 * page_num)) s
      })"

subsection \<open>Page faults\<close>

definition set_present :: "u32 \<Rightarrow> 'a kmem_scheme \<Rightarrow> 'a kmem_scheme option" where
  "set_present a s = do { e \<leftarrow> kload32 a s; kstore32 a (e OR PG_P) s }"

text \<open>\<open>cr2\<close> is the address that could not be translated. The machine is halted (\<open>None\<close>) when the kernel
  is being initialised, and when the same address faults the sixth time in a row.\<close>

definition page_fault_handler :: "u32 \<Rightarrow> 'a kmem_scheme \<Rightarrow> 'a kmem_scheme option" where
  "page_fault_handler cr2 s =
     (if kernel_initial s then None
      else do {
        pde_addr_phy_temp \<leftarrow> get_pde_phy_addr (pid (proc_cur s)) s;
        pte_addr_phy_temp \<leftarrow> get_pte_phy_addr (pid (proc_cur s)) cr2 s;
        s \<leftarrow> (if cr2 = cr2_save s then
               if cr2_count s + 1 = 5 then None else Some (s\<lparr>cr2_count := cr2_count s + 1\<rparr>)
             else Some (s\<lparr>cr2_save := cr2, cr2_count := 0\<rparr>));
        e \<leftarrow> pte_exist pde_addr_phy_temp cr2 s;
        if \<not> e then set_present (K_PHY2LIN pde_addr_phy_temp + 4 * get_pde_index cr2) s
        else set_present (K_PHY2LIN pte_addr_phy_temp + 4 * get_pte_index cr2) s
      })"

subsection \<open>Allocating linear memory\<close>

text \<open>The heap limits of a thread are pointers to those of its process: the byte offsets of
  \<^verbatim>\<open>memmap.heap_lin_base\<close> and \<^verbatim>\<open>memmap.heap_lin_limit\<close> in a control block, and the control block whose
  limit lies at an address.\<close>

definition INIT_STACK_SIZE :: nat where "INIT_STACK_SIZE = 1024 * 8"

definition addr_heap_base :: "nat \<Rightarrow> 'a kproc_scheme \<Rightarrow> u32" where
  "addr_heap_base p s = addr_table s + of_nat (p * INIT_STACK_SIZE + 132)"

definition addr_heap_limit :: "nat \<Rightarrow> 'a kproc_scheme \<Rightarrow> u32" where
  "addr_heap_limit p s = addr_table s + of_nat (p * INIT_STACK_SIZE + 136)"

definition heap_limit_at :: "u32 \<Rightarrow> 'a kproc_scheme \<Rightarrow> nat option" where
  "heap_limit_at a s = List.find (\<lambda>p. addr_heap_limit p s = a) [0..<NR_PCBS]"

definition grow_heap :: "u32 \<Rightarrow> PROCESS \<Rightarrow> PROCESS" where
  "grow_heap sz p = p\<lparr>memmap := (memmap p)\<lparr>heap_lin_limit := heap_lin_limit (memmap p) + sz\<rparr>\<rparr>"

definition vmalloc :: "u32 \<Rightarrow> 'a kproc_scheme \<Rightarrow> ('a kproc_scheme \<times> u32) option" where
  "vmalloc sz s =
     (case p_type (info (proc_cur s)) of
        TYPE_PROCESS \<Rightarrow>
          Some (upd_proc (p_proc_current s) (grow_heap sz) s, heap_lin_limit (memmap (proc_cur s)))
      | TYPE_THREAD \<Rightarrow> do {
          q \<leftarrow> heap_limit_at (heap_lin_limit (memmap (proc_cur s))) s;
          Some (upd_proc q (grow_heap sz) s, heap_lin_limit (memmap (proc_table s q)))
        })"

text \<open>The loop of \<^verbatim>\<open>sys_malloc\<close> maps word after word; it stops at \<open>vir_addr + size\<close>, compared as signed
  numbers. The results of \<open>lin_mapping_phy\<close> are ignored.\<close>

partial_function (option) malloc_loop ::
  "u32 \<Rightarrow> u32 \<Rightarrow> u32 \<Rightarrow> 'a kmem_scheme \<Rightarrow> 'a kmem_scheme option" where
  "malloc_loop AddrLin limit_addr stride s =
     (if AddrLin <s limit_addr then do {
        (s, _) \<leftarrow> lin_mapping_phy AddrLin MAX_UNSIGNED_INT (pid (proc_cur s))
          (PG_P OR PG_USU OR PG_RWW) (PG_P OR PG_USU OR PG_RWW) s;
        malloc_loop (AddrLin + stride) limit_addr stride s
      } else Some s)"

declare malloc_loop.simps [code]

definition sys_malloc :: "u32 \<Rightarrow> 'a kmem_scheme \<Rightarrow> ('a kmem_scheme \<times> u32) option" where
  "sys_malloc sz s = do {
     (s, vir_addr) \<leftarrow> vmalloc sz s;
     s \<leftarrow> malloc_loop vir_addr (vir_addr + sz) 4 s;
     Some (s, vir_addr)
   }"

definition sys_malloc_4k :: "'a kmem_scheme \<Rightarrow> ('a kmem_scheme \<times> u32) option" where
  "sys_malloc_4k s = do {
     (s, vir_addr) \<leftarrow> vmalloc num_4K s;
     s \<leftarrow> malloc_loop vir_addr (vir_addr + num_4K) num_4K s;
     Some (s, vir_addr)
   }"

definition sys_free_4k :: "u32 \<Rightarrow> 'a kmem_scheme \<Rightarrow> ('a kmem_scheme \<times> u32) option" where
  "sys_free_4k AddrLin s = do {
     phy_addr \<leftarrow> get_page_phy_addr (pid (proc_cur s)) AddrLin s;
     (s, _) \<leftarrow> lin_mapping_phy AddrLin phy_addr (pid (proc_cur s))
       (PG_P OR PG_USU OR PG_RWW) (0 OR PG_USU OR PG_RWW) s;
     case do_free_4k (mman s) phy_addr of (m, r) \<Rightarrow> Some (s\<lparr>mman := m\<rparr>, r)
   }"

text \<open>\<^verbatim>\<open>sys_kmalloc\<close>, \<^verbatim>\<open>sys_kmalloc_4k\<close> and \<^verbatim>\<open>sys_free\<close>; the last gets a pointer to a \<^verbatim>\<open>struct memfree\<close>, here
  its two fields.\<close>

definition sys_kmalloc :: "u32 \<Rightarrow> 'a kmem_scheme \<Rightarrow> 'a kmem_scheme \<times> u32" where
  "sys_kmalloc sz s = (case do_kmalloc (mman s) sz of (m, a) \<Rightarrow> (s\<lparr>mman := m\<rparr>, a))"

definition sys_kmalloc_4k :: "'a kmem_scheme \<Rightarrow> 'a kmem_scheme \<times> u32" where
  "sys_kmalloc_4k s = kmalloc_page s"

definition sys_free :: "u32 \<times> u32 \<Rightarrow> 'a kmem_scheme \<Rightarrow> 'a kmem_scheme \<times> u32" where
  "sys_free memarg s = (case do_free (mman s) (fst memarg) (snd memarg) of (m, r) \<Rightarrow> (s\<lparr>mman := m\<rparr>, r))"

end
