(* ===== verification/PagingLaws.thy ===== *)
theory PagingLaws
  imports Paging
begin

text \<open>
  What the operations of \<open>Paging\<close> do to the address spaces. An address space is a page directory; \<open>mmu\<close>
  is its translation of linear addresses. The invariant \<open>paging_ok\<close> says of a set of page directories
  that they and their page tables are whole pages below \<open>KernelSize\<close>, all different from each
  other, and not free memory.
\<close>

subsection \<open>Indices and pages\<close>

definition frame :: "u32 \<Rightarrow> u32" where
  "frame a = a AND 0xFFFFF000"

definition present :: "u32 \<Rightarrow> bool" where
  "present e \<longleftrightarrow> 1 AND e \<noteq> 0"

lemma unat_pde_index: "unat (get_pde_index a) = unat a div 2 ^ 22"
  unfolding get_pde_index_def unat_drop_bit_eq by (rule drop_bit_eq_div)

lemma unat_and_mask: "unat ((a :: u32) AND mask n) = unat a mod 2 ^ n"
  unfolding take_bit_eq_mask[symmetric] unsigned_take_bit_eq by (rule take_bit_eq_mod)

lemma unat_pte_index: "unat (get_pte_index a) = unat a mod 2 ^ 22 div 2 ^ 12"
proof -
  have "(0x003FFFFF :: u32) = mask 22" by (simp add: mask_eq_exp_minus_1)
  then have "unat (get_pte_index a) = drop_bit 12 (unat a mod 2 ^ 22)"
    by (simp only: get_pte_index_def unat_drop_bit_eq unat_and_mask)
  then show ?thesis by (simp only: drop_bit_eq_div)
qed

lemma pde_index_less: "unat (get_pde_index a) < 1024"
  using unat_lt_u32[of a] by (simp add: unat_pde_index less_mult_imp_div_less)

lemma pte_index_less: "unat (get_pte_index a) < 1024"
  by (simp add: unat_pte_index less_mult_imp_div_less)

lemma offset_mask: "(0xFFF :: u32) = mask 12"
  by (simp add: mask_eq_exp_minus_1)

lemma frame_mask: "frame a = a AND NOT (mask 12)"
proof -
  have "(0xFFFFF000 :: u32) = NOT (mask 12)"
    by (simp add: mask_eq_exp_minus_1)
  then show ?thesis by (simp only: frame_def)
qed

lemma unat_offset: "unat (a AND 0xFFF :: u32) = unat a mod 4096"
  by (simp add: offset_mask unat_and_mask del: mask_numeral)

lemma frame_plus_offset: "frame a OR (a AND 0xFFF) = a"
  unfolding frame_mask offset_mask by (rule bit_word_eqI) (auto simp: bit_simps)

lemma frame_or_add: "frame a OR (b AND 0xFFF) = frame a + (b AND 0xFFF)"
proof -
  have "frame a AND (b AND 0xFFF) = 0"
    unfolding frame_mask offset_mask by (rule bit_word_eqI) (auto simp: bit_simps)
  then show ?thesis by (rule disjunctive_add_eq_or[symmetric])
qed

lemma unat_frame: "unat (frame a) = unat a div 4096 * 4096"
proof -
  have "frame a = a - (a AND 0xFFF)"
    by (metis frame_or_add frame_plus_offset add_diff_cancel_right')
  then have "unat (frame a) = unat a - unat a mod 4096"
    by (simp only: unat_offset unat_minus_no_wrap mod_less_eq_dividend)
  then show ?thesis by (simp add: minus_mod_eq_div_mult)
qed

lemma frame_eq_iff: "frame a = frame b \<longleftrightarrow> unat a div 4096 = unat b div 4096"
  by (simp add: word_unat_eq_iff unat_frame)

lemma frame_frame [simp]: "frame (frame a) = frame a"
  by (simp add: frame_eq_iff unat_frame)

lemma index_eq_iff:
  "get_pde_index a = get_pde_index b \<and> get_pte_index a = get_pte_index b \<longleftrightarrow> frame a = frame b"
proof -
  have q: "n div 2 ^ 22 = n div 4096 div 1024" "n mod 2 ^ 22 div 2 ^ 12 = n div 4096 mod 1024" for n :: nat
    using mod_mult2_eq[of n 4096 1024] by (simp_all add: div_mult2_eq[symmetric])
  have "unat a div 4096 = unat b div 4096 \<longleftrightarrow>
      unat a div 4096 div 1024 = unat b div 4096 div 1024 \<and> unat a div 4096 mod 1024 = unat b div 4096 mod 1024"
    by (metis div_mod_decomp)
  then show ?thesis
    by (simp only: frame_eq_iff[of a b] word_unat_eq_iff[of "get_pde_index a"]
        word_unat_eq_iff[of "get_pte_index a"] unat_pde_index unat_pte_index q)
qed

lemma frame_or_attr: "attr AND 0xFFFFF000 = 0 \<Longrightarrow> frame (frame a OR attr) = frame a"
proof -
  assume "attr AND 0xFFFFF000 = 0"
  then have "frame attr = 0" by (simp add: frame_def)
  moreover have "frame (frame a OR attr) = frame a OR frame attr"
    unfolding frame_mask by (rule bit_word_eqI) (auto simp: bit_simps)
  ultimately show ?thesis by simp
qed

lemma present_or_attr: "present (frame a OR attr) = present attr"
proof -
  have "1 AND (frame a OR attr) = 1 AND attr"
    unfolding frame_mask by (rule bit_word_eqI) (auto simp: bit_simps)
  then show ?thesis by (simp add: present_def)
qed

subsection \<open>Entries of tables\<close>

text \<open>Directories and page tables are pages of the kernel's pool. Entry \<open>i\<close> of the table \<open>t\<close>.\<close>

definition table_page :: "u32 \<Rightarrow> bool" where
  "table_page t \<longleftrightarrow> frame t = t \<and> unat MEMSTART \<le> unat t \<and> unat t + 4096 \<le> unat KWALL"

definition page_bytes :: "u32 \<Rightarrow> nat set" where
  "page_bytes t = {unat t..<unat t + 4096}"

definition entry :: "bytes \<Rightarrow> u32 \<Rightarrow> u32 \<Rightarrow> u32" where
  "entry m t i = load32 m (unat t + 4 * unat i)"

definition put_entry :: "bytes \<Rightarrow> u32 \<Rightarrow> u32 \<Rightarrow> u32 \<Rightarrow> bytes" where
  "put_entry m t i w = store32 m (unat t + 4 * unat i) w"

definition zero_page :: "bytes \<Rightarrow> u32 \<Rightarrow> bytes" where
  "zero_page m t = store_list m (unat t) (replicate 4096 0)"

definition index_ok :: "u32 \<Rightarrow> bool" where
  "index_ok i \<longleftrightarrow> unat i < 1024"

lemma index_ok_get [simp]: "index_ok (get_pde_index a)" "index_ok (get_pte_index a)"
  using pde_index_less pte_index_less by (auto simp: index_ok_def)

lemma frames_apart:
  assumes "frame t = t" "frame u = u" "t \<noteq> u"
  shows "unat t + 4096 \<le> unat u \<or> unat u + 4096 \<le> unat t"
proof -
  have "unat t = unat t div 4096 * 4096" "unat u = unat u div 4096 * 4096"
    using assms(1,2) unat_frame by metis+
  then obtain i j where ij: "unat t = i * 4096" "unat u = j * 4096" by blast
  moreover have "i \<noteq> j" using assms(3) ij by (auto simp: word_unat_eq_iff)
  ultimately have "i < j \<or> j < i" by arith
  then show ?thesis unfolding ij by arith
qed

lemma page_bytes_disjoint:
  "frame t = t \<Longrightarrow> frame u = u \<Longrightarrow> t \<noteq> u \<Longrightarrow> page_bytes t \<inter> page_bytes u = {}"
  using frames_apart[of t u] by (auto simp: page_bytes_def)

lemma entry_put:
  assumes "frame t = t" "frame u = u" "index_ok i" "index_ok j"
  shows "entry (put_entry m t i w) u j = (if u = t \<and> j = i then w else entry m u j)"
proof (cases "u = t")
  case True
  show ?thesis
  proof (cases "j = i")
    case False
    then have "unat j \<noteq> unat i" by (simp add: word_unat_eq_iff)
    then have "unat t + 4 * unat i + 4 \<le> unat u + 4 * unat j \<or> unat u + 4 * unat j + 4 \<le> unat t + 4 * unat i"
      unfolding True by arith
    then show ?thesis using False by (simp add: entry_def put_entry_def block_simps)
  qed (use True in \<open>simp add: entry_def put_entry_def block_simps\<close>)
next
  case False
  have "unat t + 4 * unat i + 4 \<le> unat u + 4 * unat j \<or> unat u + 4 * unat j + 4 \<le> unat t + 4 * unat i"
    using frames_apart[OF assms(1,2)] False assms(3,4) by (auto simp: index_ok_def)
  then show ?thesis using False by (simp add: entry_def put_entry_def block_simps)
qed

lemma put_entry_out:
  "index_ok i \<Longrightarrow> k \<notin> page_bytes t \<Longrightarrow> put_entry m t i w k = m k"
  unfolding put_entry_def by (rule store32_out) (auto simp: index_ok_def page_bytes_def)

lemma zero_page_out: "k \<notin> page_bytes t \<Longrightarrow> zero_page m t k = m k"
  unfolding zero_page_def by (rule store_list_out) (auto simp: page_bytes_def)

lemma zero_page_in: "k \<in> page_bytes t \<Longrightarrow> zero_page m t k = 0"
  unfolding zero_page_def by (subst store_list_in) (auto simp: page_bytes_def)

lemma entry_zero:
  assumes "frame t = t" "frame u = u" "index_ok j"
  shows "entry (zero_page m t) u j = (if u = t then 0 else entry m u j)"
proof (cases "u = t")
  case True
  have "load32 (zero_page m t) (unat t + 4 * unat j) = load32 (\<lambda>_. 0) (unat t + 4 * unat j)"
    by (rule load32_cong, subst zero_page_in) (use assms(3) in \<open>auto simp: page_bytes_def index_ok_def\<close>)
  with True show ?thesis by (simp add: entry_def)
next
  case False
  have "unat t + 4096 \<le> unat u + 4 * unat j \<or> unat u + 4 * unat j + 4 \<le> unat t"
    using frames_apart[OF assms(1,2)] False assms(3) by (auto simp: index_ok_def)
  with False show ?thesis by (simp add: entry_def zero_page_def block_simps)
qed

text \<open>The code's accesses are accesses to entries.\<close>

lemma entry_window:
  assumes "table_page t" "index_ok i"
  shows "unat (K_LIN2PHY (K_PHY2LIN t + 4 * i)) = unat t + 4 * unat i"
    and "in_window (K_PHY2LIN t + 4 * i) 4"
proof -
  have "unat t + 4 * unat i < 0x600000"
    using assms by (simp add: table_page_def index_ok_def KWALL_def)
  then have "unat (4 * i) = 4 * unat i" "unat (t + 4 * i) = unat t + 4 * unat i"
    by (simp_all add: unat_word_ariths)
  moreover have "K_LIN2PHY (K_PHY2LIN t + 4 * i) = t + 4 * i"
    by (simp add: K_LIN2PHY_def K_PHY2LIN_def)
  ultimately show "unat (K_LIN2PHY (K_PHY2LIN t + 4 * i)) = unat t + 4 * unat i" by simp
  then show "in_window (K_PHY2LIN t + 4 * i) 4"
    using \<open>unat t + 4 * unat i < 0x600000\<close> by (simp add: in_window_def KernelSize_def)
qed

lemma kload32_entry:
  "table_page t \<Longrightarrow> index_ok i \<Longrightarrow> kload32 (K_PHY2LIN t + 4 * i) s = Some (entry (phys s) t i)"
  by (simp add: kload32_def entry_window entry_def)

lemma kstore32_entry:
  "table_page t \<Longrightarrow> index_ok i \<Longrightarrow>
   kstore32 (K_PHY2LIN t + 4 * i) w s = Some (s\<lparr>phys := put_entry (phys s) t i w\<rparr>)"
  by (simp add: kstore32_def entry_window put_entry_def)

lemma kmemset_page:
  "table_page t \<Longrightarrow> kmemset (K_PHY2LIN t) 0 (unat num_4K) s = Some (s\<lparr>phys := zero_page (phys s) t\<rparr>)"
  by (simp add: kmemset_def in_window_def table_page_def zero_page_def num_4K_def KernelSize_def KWALL_def)

subsection \<open>Address spaces\<close>

definition mmu :: "bytes \<Rightarrow> u32 \<Rightarrow> u32 \<Rightarrow> u32 option" where
  "mmu m d a =
     (let e = entry m d (get_pde_index a) in
      if present e then
        let p = entry m (frame e) (get_pte_index a) in
        if present p then Some (frame p OR (a AND 0xFFF)) else None
      else None)"

definition paging_ok :: "bytes \<Rightarrow> u32 set \<Rightarrow> nat set \<Rightarrow> bool" where
  "paging_ok m D av \<longleftrightarrow>
     (\<forall>d \<in> D. table_page d \<and> page_bytes d \<inter> av = {}) \<and>
     (\<forall>d \<in> D. \<forall>i. index_ok i \<and> present (entry m d i) \<longrightarrow>
        table_page (frame (entry m d i)) \<and> frame (entry m d i) \<notin> D \<and>
        page_bytes (frame (entry m d i)) \<inter> av = {}) \<and>
     (\<forall>d \<in> D. \<forall>e \<in> D. \<forall>i j. index_ok i \<and> index_ok j \<and> present (entry m d i) \<and> present (entry m e j) \<and>
        frame (entry m d i) = frame (entry m e j) \<longrightarrow> d = e \<and> i = j)"

definition table_bytes :: "bytes \<Rightarrow> u32 set \<Rightarrow> nat set" where
  "table_bytes m D = (\<Union>d \<in> D. page_bytes d \<union>
     (\<Union>i \<in> {i. index_ok i \<and> present (entry m d i)}. page_bytes (frame (entry m d i))))"

lemma paging_dir:
  assumes "paging_ok m D av" "d \<in> D"
  shows "table_page d" "page_bytes d \<inter> av = {}"
  using assms unfolding paging_ok_def by blast+

lemma paging_table:
  assumes "paging_ok m D av" "d \<in> D" "index_ok i" "present (entry m d i)"
  shows "table_page (frame (entry m d i))" "frame (entry m d i) \<notin> D"
    "page_bytes (frame (entry m d i)) \<inter> av = {}"
  using assms unfolding paging_ok_def by blast+

lemma paging_distinct:
  assumes "paging_ok m D av" "d \<in> D" "e \<in> D" "index_ok i" "index_ok j"
    "present (entry m d i)" "present (entry m e j)" "frame (entry m d i) = frame (entry m e j)"
  shows "d = e \<and> i = j"
  using assms unfolding paging_ok_def by blast

lemma paging_okI:
  assumes "\<And>d. d \<in> D \<Longrightarrow> table_page d" "\<And>d. d \<in> D \<Longrightarrow> page_bytes d \<inter> av = {}"
    and "\<And>d i. d \<in> D \<Longrightarrow> index_ok i \<Longrightarrow> present (entry m d i) \<Longrightarrow> table_page (frame (entry m d i)) \<and>
      frame (entry m d i) \<notin> D \<and> page_bytes (frame (entry m d i)) \<inter> av = {}"
    and "\<And>d e i j. d \<in> D \<Longrightarrow> e \<in> D \<Longrightarrow> index_ok i \<Longrightarrow> index_ok j \<Longrightarrow> present (entry m d i) \<Longrightarrow>
      present (entry m e j) \<Longrightarrow> frame (entry m d i) = frame (entry m e j) \<Longrightarrow> d = e \<and> i = j"
  shows "paging_ok m D av"
  using assms unfolding paging_ok_def by blast

lemma table_page_frame: "table_page t \<Longrightarrow> frame t = t"
  by (simp add: table_page_def)

text \<open>Writing an entry of a page table changes the translation of one page only.\<close>

lemma put_pte:
  fixes w :: u32
  assumes ok: "paging_ok m D av" and d: "d \<in> D" and i: "index_ok i" "index_ok j"
    and e: "present (entry m d i)"
  defines "m' \<equiv> put_entry m (frame (entry m d i)) j w"
  shows "paging_ok m' D av" "table_bytes m' D = table_bytes m D"
    "\<And>e k. e \<in> D \<Longrightarrow> index_ok k \<Longrightarrow> entry m' e k = entry m e k"
    "\<And>e a. e \<in> D \<Longrightarrow> mmu m' e a =
       (if e = d \<and> get_pde_index a = i \<and> get_pte_index a = j
        then (if present w then Some (frame w OR (a AND 0xFFF)) else None) else mmu m e a)"
proof -
  let ?t = "frame (entry m d i)"
  note t = paging_table[OF ok d i(1) e]
  have dir: "entry m' e k = entry m e k" if "e \<in> D" "index_ok k" for e k
    unfolding m'_def using that t(2) paging_dir(1)[OF ok that(1)] i
    by (subst entry_put) (auto simp: table_page_frame)
  then show "\<And>e k. e \<in> D \<Longrightarrow> index_ok k \<Longrightarrow> entry m' e k = entry m e k" .
  show "paging_ok m' D av"
  proof (rule paging_okI)
    show "e \<in> D \<Longrightarrow> table_page e" "e \<in> D \<Longrightarrow> page_bytes e \<inter> av = {}" for e
      using paging_dir[OF ok] by blast+
    show "table_page (frame (entry m' e k)) \<and> frame (entry m' e k) \<notin> D \<and>
        page_bytes (frame (entry m' e k)) \<inter> av = {}"
      if "e \<in> D" "index_ok k" "present (entry m' e k)" for e k
      using paging_table[OF ok that(1,2)] that by (simp add: dir)
    show "e = f \<and> k = l" if "e \<in> D" "f \<in> D" "index_ok k" "index_ok l" "present (entry m' e k)"
      "present (entry m' f l)" "frame (entry m' e k) = frame (entry m' f l)" for e f k l
      using paging_distinct[OF ok that(1-4)] that by (simp add: dir)
  qed
  show "table_bytes m' D = table_bytes m D"
    unfolding table_bytes_def by (auto simp: dir)
  fix f a
  assume f: "f \<in> D"
  show "mmu m' f a = (if f = d \<and> get_pde_index a = i \<and> get_pte_index a = j
        then (if present w then Some (frame w OR (a AND 0xFFF)) else None) else mmu m f a)"
  proof (cases "present (entry m f (get_pde_index a))")
    case True
    have "entry m' (frame (entry m f (get_pde_index a))) (get_pte_index a) =
        (if frame (entry m f (get_pde_index a)) = ?t \<and> get_pte_index a = j then w
         else entry m (frame (entry m f (get_pde_index a))) (get_pte_index a))"
      unfolding m'_def using i by (subst entry_put) auto
    moreover have "frame (entry m f (get_pde_index a)) = ?t \<longleftrightarrow> f = d \<and> get_pde_index a = i"
      using paging_distinct[OF ok f d, of "get_pde_index a" i] True e i by auto
    ultimately show ?thesis using True f by (auto simp: mmu_def dir)
  next
    case False
    then show ?thesis using f e by (auto simp: mmu_def dir)
  qed
qed

text \<open>A new page table, all zero, entered where the directory had no table.\<close>

lemma page_self [simp]: "unat t \<in> page_bytes t"
  by (simp add: page_bytes_def)

lemma page_in_nonempty: "page_bytes t \<subseteq> A \<Longrightarrow> page_bytes t \<inter> A \<noteq> {}"
  using page_self by blast

lemma new_table:
  fixes w :: u32
  assumes ok: "paging_ok m D av" and d: "d \<in> D" and i: "index_ok i"
    and e: "\<not> present (entry m d i)" and t: "table_page t" "page_bytes t \<subseteq> av"
    and w: "present w" "frame w = t" and av': "av' \<subseteq> av - page_bytes t"
  defines "m' \<equiv> put_entry (zero_page m t) d i w"
  shows "paging_ok m' D av'" "table_bytes m' D = table_bytes m D \<union> page_bytes t"
    "\<And>f k. f \<in> D \<Longrightarrow> index_ok k \<Longrightarrow> entry m' f k = (if f = d \<and> k = i then w else entry m f k)"
    "\<And>f a. f \<in> D \<Longrightarrow> mmu m' f a = mmu m f a"
    "\<And>j. index_ok j \<Longrightarrow> entry m' t j = 0"
    "\<And>k. k \<notin> table_bytes m' D \<Longrightarrow> m' k = m k"
proof -
  have tf: "frame t = t" using t(1) by (rule table_page_frame)
  have df: "frame f = f" if "f \<in> D" for f using paging_dir(1)[OF ok that] by (rule table_page_frame)
  have tD: "f \<noteq> t" if "f \<in> D" for f
    using paging_dir(2)[OF ok that] page_in_nonempty[OF t(2)] by blast
  have tT: "frame (entry m f k) \<noteq> t" if "f \<in> D" "index_ok k" "present (entry m f k)" for f k
    using paging_table(3)[OF ok that] page_in_nonempty[OF t(2)] by blast
  have all: "entry m' u k = (if u = d \<and> k = i then w else if u = t then 0 else entry m u k)"
    if "frame u = u" "index_ok k" for u k
    unfolding m'_def using that df[OF d] tf i by (simp add: entry_put entry_zero)
  then show dir: "entry m' f k = (if f = d \<and> k = i then w else entry m f k)" if "f \<in> D" "index_ok k" for f k
    using that df tD by simp
  show "entry m' t j = 0" if "index_ok j" for j using all[OF tf that] tD[OF d] by auto
  have dir_old: "frame (entry m' f k) \<noteq> t \<and> entry m' f k = entry m f k"
    if "f \<in> D" "index_ok k" "present (entry m' f k)" "\<not> (f = d \<and> k = i)" for f k
    using that tT[OF that(1,2)] by (auto simp: dir)
  show "paging_ok m' D av'"
  proof (rule paging_okI)
    show "f \<in> D \<Longrightarrow> table_page f" "f \<in> D \<Longrightarrow> page_bytes f \<inter> av' = {}" for f
      using paging_dir[OF ok] av' by blast+
    fix f k assume f: "f \<in> D" "index_ok k" "present (entry m' f k)"
    show "table_page (frame (entry m' f k)) \<and> frame (entry m' f k) \<notin> D \<and> page_bytes (frame (entry m' f k)) \<inter> av' = {}"
    proof (cases "f = d \<and> k = i")
      case True
      then show ?thesis using f w t av' tD by (auto simp: dir)
    next
      case False
      then show ?thesis using dir_old[OF f False] paging_table[OF ok f(1,2)] f av' by auto
    qed
    fix g l assume g: "g \<in> D" "index_ok l" "present (entry m' g l)" "frame (entry m' f k) = frame (entry m' g l)"
    show "f = g \<and> k = l"
    proof (cases "f = d \<and> k = i"; cases "g = d \<and> l = i")
      assume "\<not> (f = d \<and> k = i)" "\<not> (g = d \<and> l = i)"
      then show ?thesis
        using dir_old[OF f] dir_old[OF g(1-3)] paging_distinct[OF ok f(1) g(1) f(2) g(2)] f g by auto
    next
      assume a: "f = d \<and> k = i" "\<not> (g = d \<and> l = i)"
      then have "frame (entry m' f k) = t" using f w by (simp add: dir)
      then show ?thesis using dir_old[OF g(1-3) a(2)] g(4) by argo
    next
      assume a: "\<not> (f = d \<and> k = i)" "g = d \<and> l = i"
      then have "frame (entry m' g l) = t" using g w by (simp add: dir)
      then show ?thesis using dir_old[OF f a(1)] g(4) by argo
    qed simp
  qed
  have "x \<in> table_bytes m' D \<longleftrightarrow> x \<in> table_bytes m D \<or> x \<in> page_bytes t" for x
  proof
    assume "x \<in> table_bytes m' D"
    then consider f where "f \<in> D" "x \<in> page_bytes f"
      | f k where "f \<in> D" "index_ok k" "present (entry m' f k)" "x \<in> page_bytes (frame (entry m' f k))"
      unfolding table_bytes_def by blast
    then show "x \<in> table_bytes m D \<or> x \<in> page_bytes t"
    proof cases
      case 1 then show ?thesis unfolding table_bytes_def by blast
    next
      case 2
      show ?thesis
      proof (cases "f = d \<and> k = i")
        case True then show ?thesis using 2 w by (simp add: dir)
      next
        case False
        then have "entry m' f k = entry m f k" using dir_old 2 by blast
        then show ?thesis using 2 unfolding table_bytes_def by (auto intro!: bexI[of _ f] exI[of _ k])
      qed
    qed
  next
    assume "x \<in> table_bytes m D \<or> x \<in> page_bytes t"
    then consider f where "f \<in> D" "x \<in> page_bytes f"
      | f k where "f \<in> D" "index_ok k" "present (entry m f k)" "x \<in> page_bytes (frame (entry m f k))"
      | "x \<in> page_bytes t"
      unfolding table_bytes_def by blast
    then show "x \<in> table_bytes m' D"
    proof cases
      case 1 then show ?thesis unfolding table_bytes_def by blast
    next
      case 2
      then have "entry m' f k = entry m f k" using e by (auto simp: dir)
      then show ?thesis using 2 unfolding table_bytes_def by (auto intro!: bexI[of _ f] exI[of _ k])
    next
      case 3
      moreover have "entry m' d i = w" using d i by (simp add: dir)
      ultimately show ?thesis using w d i unfolding table_bytes_def by (auto intro!: bexI[of _ d] exI[of _ i])
    qed
  qed
  then show tb: "table_bytes m' D = table_bytes m D \<union> page_bytes t" by blast
  show "m' k = m k" if "k \<notin> table_bytes m' D" for k
  proof -
    have "k \<notin> page_bytes d" "k \<notin> page_bytes t"
      using that d unfolding tb by (auto simp: table_bytes_def)
    then show ?thesis unfolding m'_def using i by (simp add: put_entry_out zero_page_out)
  qed
  show "mmu m' f a = mmu m f a" if f: "f \<in> D" for f a
  proof (cases "f = d \<and> get_pde_index a = i")
    case True
    then have "entry m' t (get_pte_index a) = 0" using all[OF tf, of "get_pte_index a"] tD[OF d] by auto
    moreover have "entry m' d i = w" using dir[OF d i] by simp
    ultimately show ?thesis using True e w by (simp add: mmu_def Let_def) (simp add: present_def)
  next
    case False
    then have same: "entry m' f (get_pde_index a) = entry m f (get_pde_index a)" using f by (auto simp: dir)
    show ?thesis
    proof (cases "present (entry m f (get_pde_index a))")
      case True
      let ?u = "frame (entry m f (get_pde_index a))"
      have "?u \<noteq> d" using paging_table(2)[OF ok f index_ok_get(1) True] d by auto
      moreover have "?u \<noteq> t" using tT[OF f index_ok_get(1) True] .
      ultimately have "entry m' ?u (get_pte_index a) = entry m ?u (get_pte_index a)"
        by (subst all) auto
      then show ?thesis using same by (simp add: mmu_def Let_def)
    next
      case False
      then show ?thesis using same by (simp add: mmu_def)
    qed
  qed
qed

subsection \<open>Pages from the pools\<close>

definition mm_ok :: "MEMMAN \<Rightarrow> bool" where
  "mm_ok man \<longleftrightarrow> memman_ok man \<and>
     (\<forall>b \<in> set (blocks man). MEMSTART \<le> fi_addr b \<and> fi_addr b < KWALL \<or> UWALL \<le> fi_addr b \<and> fi_addr b < MEMEND
        \<longrightarrow> frame (fi_addr b) = fi_addr b)"

lemma frame_iff_mod: "frame a = a \<longleftrightarrow> unat a mod 4096 = 0"
proof -
  have "frame a = a \<longleftrightarrow> unat a div 4096 * 4096 = unat a" by (simp only: word_unat_eq_iff unat_frame)
  then show ?thesis using div_mult_mod_eq[of "unat a" 4096] by arith
qed

lemma frame_next: "frame a = a \<Longrightarrow> frame (a + 0x1000) = a + 0x1000"
proof -
  assume "frame a = a"
  then have "unat a mod 4096 = 0" by (simp only: frame_iff_mod)
  then obtain q where q: "unat a = 4096 * q" by (metis mod_0_imp_dvd dvdE)
  have "unat (a + 0x1000) = (unat a + 4096) mod 4294967296"
    by (simp add: unat_word_ariths)
  also have "unat a + 4096 = 4096 * (q + 1)" by (simp add: q)
  also have "(4294967296 :: nat) = 4096 * 1048576" by simp
  also have "4096 * (q + 1) mod (4096 * 1048576) = 4096 * ((q + 1) mod 1048576)"
    by (rule mult_mod_right[symmetric])
  finally show ?thesis by (simp only: frame_iff_mod mod_mult_self1_is_0)
qed

lemma alloc_page:
  assumes ok: "mm_ok m" and r: "alloc_loop lo hi m 0x1000 0 (frees m) = (m', a)"
    and pool: "lo = MEMSTART \<and> hi = KWALL \<or> lo = UWALL \<and> hi = MEMEND"
  shows "mm_ok m'" "a = - 1 \<Longrightarrow> m' = m"
    "a \<noteq> - 1 \<Longrightarrow> frame a = a \<and> unat lo \<le> unat a \<and> unat a + 4096 < unat hi \<and>
       page_bytes a \<subseteq> avail m \<and> avail m' = avail m - page_bytes a"
proof -
  have mok: "memman_ok m" using ok by (simp add: mm_ok_def)
  have hi: "hi \<le> 0x80000000" using pool by (auto simp: memman_consts)
  show same: "m' = m" if "a = - 1"
    using alloc_loop_fail[where lo = lo and hi = hi and man = m and sz = "0x1000" and i = 0 and n = "frees m"] hi mok r that by simp
  have bl: "alloc_blocks lo hi 0x1000 (blocks m) = (blocks m', a)"
    using alloc_loop_all[where lo = lo and hi = hi and man = m and sz = "0x1000"] r by (simp add: prod_eq_iff)
  have range: "addr_range a 0x1000 = page_bytes a" by (simp add: addr_range_def page_bytes_def)
  have fr: "frame a = a" and new: "mm_ok m'" if a: "a \<noteq> - 1"
  proof -
    obtain us b vs where bs: "blocks m = us @ b # vs" and f: "fits lo hi 0x1000 b"
      and bs': "blocks m' = us @ rest 0x1000 b @ vs" and ab: "a = fi_addr b"
      using bl a by (cases rule: alloc_blocks_cases[where bs = "blocks m" and lo = lo and hi = hi and sz = "0x1000"]) auto
    have "unat a + 4096 < unat hi" "lo \<le> a" using alloc_loop_spec[OF mok r a] by simp_all
    then have "lo \<le> a \<and> a < hi" by (simp add: word_less_nat_alt)
    then show fr: "frame a = a" using ok pool ab bs by (auto simp: mm_ok_def)
    have "frame (fi_addr c) = fi_addr c" if "c \<in> set (rest 0x1000 b)" for c
      using that fr ab by (auto simp: rest_def frame_next split: if_splits)
    then show "mm_ok m'"
      using ok alloc_loop_spec(1)[OF mok r a] bs bs' by (auto simp: mm_ok_def)
  qed
  show "mm_ok m'" using new same ok by (cases "a = - 1") auto
  show "frame a = a \<and> unat lo \<le> unat a \<and> unat a + 4096 < unat hi \<and>
       page_bytes a \<subseteq> avail m \<and> avail m' = avail m - page_bytes a" if a: "a \<noteq> - 1"
    using alloc_loop_spec[OF mok r a] fr[OF a] range by (simp add: word_le_nat_alt)
qed

lemmas alloc_table = alloc_page[where lo = MEMSTART and hi = KWALL, folded memman_kalloc_4k_def, simplified]
lemmas alloc_user = alloc_page[where lo = UWALL and hi = MEMEND, folded memman_alloc_4k_def, simplified]

lemma paging_tables_apart:
  assumes "paging_ok m D av"
  shows "table_bytes m D \<inter> av = {}"
  using paging_dir(2)[OF assms] paging_table(3)[OF assms] unfolding table_bytes_def by blast

subsection \<open>Mapping a page\<close>

definition mem_inv :: "u32 set \<Rightarrow> 'a kmem_scheme \<Rightarrow> bool" where
  "mem_inv D s \<longleftrightarrow> mm_ok (mman s) \<and> paging_ok (phys s) D (avail (mman s))"

text \<open>Only the physical memory of page tables and the table of free memory have changed; no address
  has become free, and what has become a page table was free and is so no longer.\<close>

definition tables_changed :: "u32 set \<Rightarrow> 'a kmem_scheme \<Rightarrow> 'a kmem_scheme \<Rightarrow> bool" where
  "tables_changed D s s' \<longleftrightarrow>
     (\<exists>m g. s' = s\<lparr>phys := m, mman := g\<rparr>) \<and> avail (mman s') \<subseteq> avail (mman s) \<and>
     table_bytes (phys s) D \<subseteq> table_bytes (phys s') D \<and>
     table_bytes (phys s') D \<subseteq> table_bytes (phys s) D \<union> (avail (mman s) - avail (mman s')) \<and>
     (\<forall>k. k \<notin> table_bytes (phys s') D \<longrightarrow> phys s' k = phys s k)"

lemma tables_changed_refl [simp]: "tables_changed D s s"
proof -
  have "s = s\<lparr>phys := phys s, mman := mman s\<rparr>" by simp
  then show ?thesis unfolding tables_changed_def by blast
qed

lemma tables_changed_trans:
  assumes "tables_changed D s s'" "tables_changed D s' s''"
  shows "tables_changed D s s''"
proof -
  obtain m g m' g' where "s' = s\<lparr>phys := m, mman := g\<rparr>" "s'' = s'\<lparr>phys := m', mman := g'\<rparr>"
    using assms unfolding tables_changed_def by blast
  then have "s'' = s\<lparr>phys := m', mman := g'\<rparr>" by simp
  moreover have a: "avail (mman s'') \<subseteq> avail (mman s')" "avail (mman s') \<subseteq> avail (mman s)"
    "table_bytes (phys s) D \<subseteq> table_bytes (phys s') D" "table_bytes (phys s') D \<subseteq> table_bytes (phys s'') D"
    "table_bytes (phys s') D \<subseteq> table_bytes (phys s) D \<union> (avail (mman s) - avail (mman s'))"
    "table_bytes (phys s'') D \<subseteq> table_bytes (phys s') D \<union> (avail (mman s') - avail (mman s''))"
    "\<forall>k. k \<notin> table_bytes (phys s') D \<longrightarrow> phys s' k = phys s k" "\<forall>k. k \<notin> table_bytes (phys s'') D \<longrightarrow> phys s'' k = phys s' k"
    using assms unfolding tables_changed_def by simp_all
  moreover have "table_bytes (phys s'') D \<subseteq> table_bytes (phys s) D \<union> (avail (mman s) - avail (mman s''))"
    using a(1,2,5,6) by auto
  moreover have "\<forall>k. k \<notin> table_bytes (phys s'') D \<longrightarrow> phys s'' k = phys s k" using a(4,7,8) by (metis subsetD)
  ultimately show ?thesis unfolding tables_changed_def by (metis order_trans)
qed

lemma tables_changedD:
  assumes "tables_changed D s s'"
  shows "proc_table s' = proc_table s" "p_proc_current s' = p_proc_current s" "kernel_initial s' = kernel_initial s"
    "u_proc_sum s' = u_proc_sum s" "p_proc_next s' = p_proc_next s" "addr_table s' = addr_table s"
    "g_ticks s' = g_ticks s" "get_pde_phy_addr p s' = get_pde_phy_addr p s"
    "avail (mman s') \<subseteq> avail (mman s)" "k \<notin> table_bytes (phys s') D \<Longrightarrow> phys s' k = phys s k"
    "table_bytes (phys s) D \<subseteq> table_bytes (phys s') D"
    "table_bytes (phys s') D \<subseteq> table_bytes (phys s) D \<union> (avail (mman s) - avail (mman s'))"
  using assms by (auto simp: tables_changed_def get_pde_phy_addr_def)

lemma kmalloc_page_cases:
  assumes "mem_inv D s" "kmalloc_page s = (s', a)"
  shows "s' = s\<lparr>mman := mman s'\<rparr>" "mm_ok (mman s')" "a = - 1 \<Longrightarrow> mman s' = mman s"
    "a \<noteq> - 1 \<Longrightarrow> table_page a \<and> page_bytes a \<subseteq> avail (mman s) \<and> avail (mman s') = avail (mman s) - page_bytes a"
proof -
  obtain m where m: "memman_kalloc_4k (mman s) = (m, a)" "s' = s\<lparr>mman := m\<rparr>"
    using assms(2) by (auto simp: kmalloc_page_def do_kmalloc_4k_def split: prod.splits)
  have ok: "mm_ok (mman s)" using assms(1) by (simp add: mem_inv_def)
  show "s' = s\<lparr>mman := mman s'\<rparr>" "mm_ok (mman s')" "a = - 1 \<Longrightarrow> mman s' = mman s"
    "a \<noteq> - 1 \<Longrightarrow> table_page a \<and> page_bytes a \<subseteq> avail (mman s) \<and> avail (mman s') = avail (mman s) - page_bytes a"
    using alloc_table[OF ok m(1)] m(2) by (auto simp: table_page_def)
qed

lemma not_window_minus_one: "\<not> in_window (K_PHY2LIN (- 1)) n"
  by (simp add: in_window_def KernelSize_def minus_one_u32)

lemma kmemset_page_Some:
  assumes "mem_inv D s" "kmalloc_page s = (s1, a)" "kmemset (K_PHY2LIN a) 0 (unat num_4K) s1 = Some s2"
  shows "a \<noteq> - 1" "table_page a" "a AND 0x3FF = 0" "s2 = s\<lparr>mman := mman s1, phys := zero_page (phys s) a\<rparr>"
    "page_bytes a \<subseteq> avail (mman s)" "avail (mman s1) = avail (mman s) - page_bytes a" "mm_ok (mman s1)"
proof -
  show a: "a \<noteq> - 1"
    using assms(3) by (auto simp: kmemset_def not_window_minus_one split: if_splits)
  note k = kmalloc_page_cases[OF assms(1,2)]
  show t: "table_page a" "page_bytes a \<subseteq> avail (mman s)" "avail (mman s1) = avail (mman s) - page_bytes a"
    "mm_ok (mman s1)"
    using k a by auto
  have "frame a AND 0x3FF = 0"
  proof -
    have m: "(0x3FF :: u32) = mask 10" by (simp add: mask_eq_exp_minus_1)
    show ?thesis
      unfolding frame_mask m by (rule bit_word_eqI) (auto simp: bit_simps)
  qed
  then show "a AND 0x3FF = 0" using t(1) by (simp add: table_page_def)
  show "s2 = s\<lparr>mman := mman s1, phys := zero_page (phys s) a\<rparr>"
    using assms(3) k(1) kmemset_page[OF t(1), of s1] by (metis kmem.select_convs(1) kmem.surjective kmem.update_convs(2) option.inject)
qed

text \<open>The page table of an address.\<close>

lemma mapping_table_spec:
  fixes s s' :: "'a kmem_scheme"
  assumes inv: "mem_inv D s" and d: "get_pde_phy_addr p s = Some d" "d \<in> D"
    and attr: "present attr" "frame attr = 0" and r: "mapping_table a p attr s = Some (s', r)"
  obtains t where "r = Inr t" "mem_inv D s'" "tables_changed D s s'"
    "present (entry (phys s') d (get_pde_index a))" "frame (entry (phys s') d (get_pde_index a)) = t"
    "\<And>e b. e \<in> D \<Longrightarrow> mmu (phys s') e b = mmu (phys s) e b"
    "\<And>e k. e \<in> D \<Longrightarrow> index_ok k \<Longrightarrow> present (entry (phys s) e k) \<Longrightarrow> s' = s \<or> entry (phys s') e k = entry (phys s) e k"
    "mmu (phys s) d a \<noteq> None \<Longrightarrow> s' = s"
proof -
  have ok: "paging_ok (phys s) D (avail (mman s))" using inv by (simp add: mem_inv_def)
  have td: "table_page d" using paging_dir(1)[OF ok d(2)] .
  let ?i = "get_pde_index a"
  have ex: "pte_exist d a s = Some (present (entry (phys s) d ?i))"
    by (simp add: pte_exist_def kload32_entry[OF td] present_def)
  show thesis
  proof (cases "present (entry (phys s) d ?i)")
    case True
    then have "s' = s" "r = Inr (frame (entry (phys s) d ?i))"
      using r by (auto simp: mapping_table_def d(1) ex get_pte_phy_addr_def kload32_entry[OF td] frame_def)
    with True inv show thesis by (intro that) auto
  next
    case False
    obtain s1 t where k: "kmalloc_page s = (s1, t)" by fastforce
    obtain s2 where s2: "kmemset (K_PHY2LIN t) 0 (unat num_4K) s1 = Some s2"
      using r False by (auto simp: mapping_table_def d(1) ex k split: bind_splits)
    note z = kmemset_page_Some[OF inv k s2]
    have ft: "frame t = t" using z(2) by (rule table_page_frame)
    define w where "w = t OR attr"
    have w: "present w" "frame w = t"
      using attr present_or_attr[of t attr] frame_or_attr[of attr t] ft by (simp_all add: w_def frame_def)
    have "s' = s2\<lparr>phys := put_entry (phys s2) d ?i w\<rparr>" "r = Inr t"
      using r False ft by (auto simp: mapping_table_def d(1) ex k s2 z(3) write_page_pde_def kstore32_entry[OF td]
          w_def frame_def)
    then have s': "s' = s\<lparr>mman := mman s1, phys := put_entry (zero_page (phys s) t) d ?i w\<rparr>" and rt: "r = Inr t"
      using z(4) by simp_all
    have nt': "paging_ok (phys s') D (avail (mman s'))"
      "table_bytes (phys s') D = table_bytes (phys s) D \<union> page_bytes t"
      "\<And>f k. f \<in> D \<Longrightarrow> index_ok k \<Longrightarrow> entry (phys s') f k = (if f = d \<and> k = ?i then w else entry (phys s) f k)"
      "\<And>f b. f \<in> D \<Longrightarrow> mmu (phys s') f b = mmu (phys s) f b"
      "\<And>k. k \<notin> table_bytes (phys s') D \<Longrightarrow> phys s' k = phys s k"
      using new_table[OF ok d(2) index_ok_get(1) False z(2,5) w, where av' = "avail (mman s1)"] z(6)
      by (auto simp: s')
    show thesis
    proof (rule that[of t])
      show "mem_inv D s'" using nt'(1) z(7) by (simp add: mem_inv_def s')
      show "tables_changed D s s'"
      proof (unfold tables_changed_def, intro conjI exI)
        show "s' = s\<lparr>phys := phys s', mman := mman s'\<rparr>" by (simp add: s')
        show "avail (mman s') \<subseteq> avail (mman s)" using z(6) by (auto simp: s')
        show "table_bytes (phys s) D \<subseteq> table_bytes (phys s') D" using nt'(2) by blast
        show "table_bytes (phys s') D \<subseteq> table_bytes (phys s) D \<union> (avail (mman s) - avail (mman s'))"
          using nt'(2) z(5,6) by (auto simp: s')
        show "\<forall>k. k \<notin> table_bytes (phys s') D \<longrightarrow> phys s' k = phys s k" using nt'(5) by blast
      qed
      show "present (entry (phys s') d ?i)" "frame (entry (phys s') d ?i) = t"
        using w d(2) by (simp_all add: nt'(3))
      show "mmu (phys s') e b = mmu (phys s) e b" if "e \<in> D" for e b using nt'(4) that .
      show "s' = s \<or> entry (phys s') e k = entry (phys s) e k"
        if "e \<in> D" "index_ok k" "present (entry (phys s) e k)" for e k
        using nt'(3)[OF that(1,2)] that(3) False by auto
      show "mmu (phys s) d a \<noteq> None \<Longrightarrow> s' = s" using False by (simp add: mmu_def)
    qed (rule rt)
  qed
qed

text \<open>Everything \<open>lin_mapping_phy\<close> may do to the translation of the address it is asked to map.\<close>

definition maps_to ::
  "u32 set \<Rightarrow> u32 \<Rightarrow> u32 \<Rightarrow> u32 \<Rightarrow> u32 \<Rightarrow> 'a kmem_scheme \<Rightarrow> 'a kmem_scheme \<Rightarrow> int \<Rightarrow> bool" where
  "maps_to D d a pa attr s s' r \<longleftrightarrow>
     (let to = (\<lambda>f. if present attr then Some (f OR (a AND 0xFFF)) else None) in
      if pa \<noteq> MAX_UNSIGNED_INT then
        if pa AND 0x3FF = 0 then r = 0 \<and> mmu (phys s') d a = to (frame pa)
        else r = - 1 \<and> mmu (phys s') d a = mmu (phys s) d a
      else if mmu (phys s) d a \<noteq> None then r = 0 \<and> s' = s
      else r = 0 \<and> (\<exists>f. mmu (phys s') d a = to f \<and> frame f = f \<and>
             page_bytes f \<subseteq> avail (mman s) \<and> page_bytes f \<inter> (avail (mman s') \<union> table_bytes (phys s') D) = {} \<and>
             (if a \<ge> K_PHY2LIN 0 then table_page f else unat UWALL \<le> unat f \<and> unat f + 4096 < unat MEMEND)) \<or>
           r = - 1 \<and> mmu (phys s') d a = None)"

lemma malloc_page_cases:
  assumes "mem_inv D s" "malloc_page s = (s', a)"
  shows "s' = s\<lparr>mman := mman s'\<rparr>" "mm_ok (mman s')" "a = - 1 \<Longrightarrow> mman s' = mman s"
    "a \<noteq> - 1 \<Longrightarrow> frame a = a \<and> unat UWALL \<le> unat a \<and> unat a + 4096 < unat MEMEND \<and>
       page_bytes a \<subseteq> avail (mman s) \<and> avail (mman s') = avail (mman s) - page_bytes a"
proof -
  obtain m where m: "memman_alloc_4k (mman s) = (m, a)" "s' = s\<lparr>mman := m\<rparr>"
    using assms(2) by (auto simp: malloc_page_def do_malloc_4k_def split: prod.splits)
  have ok: "mm_ok (mman s)" using assms(1) by (simp add: mem_inv_def)
  show "s' = s\<lparr>mman := mman s'\<rparr>" "mm_ok (mman s')" "a = - 1 \<Longrightarrow> mman s' = mman s"
    "a \<noteq> - 1 \<Longrightarrow> frame a = a \<and> unat UWALL \<le> unat a \<and> unat a + 4096 < unat MEMEND \<and>
       page_bytes a \<subseteq> avail (mman s) \<and> avail (mman s') = avail (mman s) - page_bytes a"
    using alloc_user[OF ok m(1)] m(2) by auto
qed

lemma paging_ok_less: "paging_ok m D av \<Longrightarrow> av' \<subseteq> av \<Longrightarrow> paging_ok m D av'"
  unfolding paging_ok_def by blast

lemma tables_changed_mman:
  "avail m \<subseteq> avail (mman s) \<Longrightarrow> tables_changed D s (s\<lparr>mman := m\<rparr>)"
proof -
  assume "avail m \<subseteq> avail (mman s)"
  moreover have "s\<lparr>mman := m\<rparr> = s\<lparr>phys := phys s, mman := m\<rparr>" by simp
  ultimately show ?thesis unfolding tables_changed_def by (intro conjI exI[of _ "phys s"] exI[of _ m]) simp_all
qed

text \<open>The choice of the page: what \<open>mapping_page\<close> returns.\<close>

lemma mapping_page_spec:
  assumes inv: "mem_inv D s" and t: "table_page t" and r: "mapping_page a pa t s = Some (s', r)"
  shows "mem_inv D s' \<and> tables_changed D s s' \<and> phys s' = phys s \<and>
    (if pa \<noteq> MAX_UNSIGNED_INT then s' = s \<and> r = Some pa
     else if present (entry (phys s) t (get_pte_index a)) then s' = s \<and> r = None
     else r = Some (- 1) \<or> (\<exists>f. r = Some f \<and> frame f = f \<and> page_bytes f \<subseteq> avail (mman s) \<and>
            page_bytes f \<inter> avail (mman s') = {} \<and>
            (if a \<ge> K_PHY2LIN 0 then table_page f else unat UWALL \<le> unat f \<and> unat f + 4096 < unat MEMEND)))"
proof -
  have ex: "phy_exist t a s = Some (present (entry (phys s) t (get_pte_index a)))"
    by (simp add: phy_exist_def kload32_entry[OF t] present_def)
  show ?thesis
  proof (cases "pa = MAX_UNSIGNED_INT \<and> \<not> present (entry (phys s) t (get_pte_index a))")
    case False
    then show ?thesis using r inv by (auto simp: mapping_page_def ex)
  next
    case True
    define al where "al = (if a \<ge> K_PHY2LIN 0 then kmalloc_page s else malloc_page s)"
    obtain b where al: "al = (s', b)" "r = Some b"
      using r True by (auto simp: mapping_page_def ex al_def split: prod.splits)
    have c: "s' = s\<lparr>mman := mman s'\<rparr>" "mm_ok (mman s')" "b = - 1 \<Longrightarrow> mman s' = mman s"
      "b \<noteq> - 1 \<Longrightarrow> frame b = b \<and> page_bytes b \<subseteq> avail (mman s) \<and> avail (mman s') = avail (mman s) - page_bytes b \<and>
         (if a \<ge> K_PHY2LIN 0 then table_page b else unat UWALL \<le> unat b \<and> unat b + 4096 < unat MEMEND)"
      using al(1) kmalloc_page_cases[OF inv, of s' b] malloc_page_cases[OF inv, of s' b]
      by (auto simp: al_def table_page_frame split: if_splits)
    have sub: "avail (mman s') \<subseteq> avail (mman s)" using c by (cases "b = - 1") auto
    have "tables_changed D s s'" using tables_changed_mman[OF sub] c(1) by metis
    moreover have "phys s' = phys s" using c(1) by (metis kmem.simps(1) kmem.surjective kmem.update_convs(2))
    moreover from this have "mem_inv D s'"
      using inv c(2) sub paging_ok_less unfolding mem_inv_def by metis
    ultimately show ?thesis using True c(4) al(2) by (cases "b = - 1") auto
  qed
qed

lemma lin_mapping_spec:
  fixes s s' :: "'a kmem_scheme"
  assumes inv: "mem_inv D s" and d: "get_pde_phy_addr p s = Some d" "d \<in> D"
    and pattr: "present pattr" "frame pattr = 0" and attr: "frame attr = 0"
    and r: "lin_mapping_phy a pa p pattr attr s = Some (s', r)"
  shows "mem_inv D s'" "tables_changed D s s'" "maps_to D d a pa attr s s' r"
    "\<And>e b. e \<in> D \<Longrightarrow> e \<noteq> d \<or> frame b \<noteq> frame a \<Longrightarrow> mmu (phys s') e b = mmu (phys s) e b"
proof -
  obtain s1 q where mt: "mapping_table a p pattr s = Some (s1, q)"
    using r by (auto simp: lin_mapping_phy_def split: bind_splits)
  obtain t where q: "q = Inr t" and inv1: "mem_inv D s1" and tc1: "tables_changed D s s1"
    and pd: "present (entry (phys s1) d (get_pde_index a))" "frame (entry (phys s1) d (get_pde_index a)) = t"
    and mm1: "\<And>e b. e \<in> D \<Longrightarrow> mmu (phys s1) e b = mmu (phys s) e b"
    and kept: "mmu (phys s) d a \<noteq> None \<Longrightarrow> s1 = s"
    using mapping_table_spec[OF inv d pattr mt] by metis
  have ok1: "paging_ok (phys s1) D (avail (mman s1))" using inv1 by (simp add: mem_inv_def)
  have tt: "table_page t" using paging_table(1)[OF ok1 d(2) index_ok_get(1) pd(1)] pd(2) by simp
  have pte: "present (entry (phys s1) t (get_pte_index a)) \<longleftrightarrow> mmu (phys s) d a \<noteq> None"
    using mm1[OF d(2), of a] pd by (auto simp: mmu_def Let_def split: if_splits)
  obtain s2 u where mp: "mapping_page a pa t s1 = Some (s2, u)"
    using r by (auto simp: lin_mapping_phy_def mt q split: bind_splits)
  note sp = mapping_page_spec[OF inv1 tt mp, unfolded pte]
  have inv2: "mem_inv D s2" and tc2: "tables_changed D s1 s2" and ph2: "phys s2 = phys s1" using sp by blast+
  have ok2: "paging_ok (phys s2) D (avail (mman s2))" using inv2 by (simp add: mem_inv_def)
  have av: "avail (mman s1) \<subseteq> avail (mman s)" using tables_changedD(9)[OF tc1] .
  show "mem_inv D s'" "tables_changed D s s'" "maps_to D d a pa attr s s' r"
    "\<And>e b. e \<in> D \<Longrightarrow> e \<noteq> d \<or> frame b \<noteq> frame a \<Longrightarrow> mmu (phys s') e b = mmu (phys s) e b"
  proof -
    consider (kept) "u = None" | (bad) b where "u = Some b" "b AND 0x3FF \<noteq> 0"
      | (good) b where "u = Some b" "b AND 0x3FF = 0" by (cases u) auto
    then have "mem_inv D s' \<and> tables_changed D s s' \<and> maps_to D d a pa attr s s' r \<and>
      (\<forall>e b. e \<in> D \<and> (e \<noteq> d \<or> frame b \<noteq> frame a) \<longrightarrow> mmu (phys s') e b = mmu (phys s) e b)"
    proof cases
      case kept
      then have "s' = s2" "r = 0" using r by (auto simp: lin_mapping_phy_def mt q mp)
      moreover have "pa = MAX_UNSIGNED_INT" "mmu (phys s) d a \<noteq> None" "s2 = s1"
        using sp kept by (auto split: if_splits)
      moreover from this have "s1 = s" using \<open>mmu (phys s) d a \<noteq> None \<Longrightarrow> s1 = s\<close> by blast
      ultimately show ?thesis using inv by (auto simp: maps_to_def)
    next
      case bad
      then have s': "s' = s2" "r = - 1" using r by (auto simp: lin_mapping_phy_def mt q mp)
      have m: "mmu (phys s') e b = mmu (phys s) e b" if "e \<in> D" for e b
        using mm1[OF that] s' ph2 by simp
      have "maps_to D d a pa attr s s' r"
        using sp bad s' m[OF d(2)] by (auto simp: maps_to_def split: if_splits)
      then show ?thesis using s' inv2 tables_changed_trans[OF tc1 tc2] m by blast
    next
      case good
      define w where "w = (b AND 0xFFFFF000) OR attr"
      have "s' = s2\<lparr>phys := put_entry (phys s1) t (get_pte_index a) w\<rparr>" "r = 0"
        using r good by (auto simp: lin_mapping_phy_def mt q mp write_page_pte_def kstore32_entry[OF tt] w_def ph2)
      note s' = this
      have w: "present w = present attr" "frame w = frame b"
        using present_or_attr[of b attr] frame_or_attr[of attr b] attr by (simp_all add: w_def frame_def)
      note pp = put_pte[OF ok2 d(2) index_ok_get(1)[of a] index_ok_get(2)[of a] pd(1)[folded ph2], where w = w,
          unfolded ph2, unfolded pd(2)]
      have m: "mmu (phys s') e c = (if e = d \<and> frame c = frame a
          then (if present attr then Some (frame b OR (c AND 0xFFF)) else None) else mmu (phys s) e c)"
        if "e \<in> D" for e c
        using pp(4)[OF that, of c] mm1[OF that, of c] w index_eq_iff[of c a] by (simp add: s')
      have phys': "phys s' = put_entry (phys s1) t (get_pte_index a) w" "mman s' = mman s2"
        using s' by simp_all
      have inv': "mem_inv D s'" using pp(1) inv2 by (simp add: mem_inv_def phys')
      have tb: "page_bytes t \<subseteq> table_bytes (phys s1) D"
        using pd d(2) unfolding table_bytes_def by (auto intro!: bexI[of _ d] exI[of _ "get_pde_index a"])
      have "tables_changed D s2 s'"
      proof (unfold tables_changed_def, intro conjI exI allI impI)
        show "s' = s2\<lparr>phys := phys s', mman := mman s'\<rparr>" by (simp add: s')
        show "avail (mman s') \<subseteq> avail (mman s2)" by (simp add: phys')
        show "table_bytes (phys s2) D \<subseteq> table_bytes (phys s') D" using pp(2) by (simp add: phys' ph2)
        show "table_bytes (phys s') D \<subseteq> table_bytes (phys s2) D \<union> (avail (mman s2) - avail (mman s'))"
          using pp(2) by (simp add: phys' ph2)
        show "phys s' k = phys s2 k" if "k \<notin> table_bytes (phys s') D" for k
        proof -
          have "k \<notin> page_bytes t" using that tb pp(2) by (auto simp: phys')
          then show ?thesis by (simp add: phys' ph2 put_entry_out)
        qed
      qed
      then have tc: "tables_changed D s s'" using tc1 tc2 tables_changed_trans by blast
      have "maps_to D d a pa attr s s' r"
      proof (cases "pa = MAX_UNSIGNED_INT")
        case False
        then have "b = pa" using sp good by auto
        then show ?thesis using False good m[OF d(2), of a] s'(2) by (simp add: maps_to_def)
      next
        case True
        then have nm: "mmu (phys s) d a = None" using sp good by (auto split: if_splits)
        have "b \<noteq> - 1" using good by auto
        then have f: "frame b = b" "page_bytes b \<subseteq> avail (mman s1)" "page_bytes b \<inter> avail (mman s2) = {}"
          "if a \<ge> K_PHY2LIN 0 then table_page b else unat UWALL \<le> unat b \<and> unat b + 4096 < unat MEMEND"
          using sp True nm good by auto
        have "page_bytes b \<inter> table_bytes (phys s1) D = {}" using paging_tables_apart[OF ok1] f(2) by blast
        then have ft: "page_bytes b \<inter> table_bytes (phys s') D = {}" using pp(2) by (simp add: phys')
        have "mmu (phys s') d a = (if present attr then Some (b OR (a AND 0xFFF)) else None)"
          using m[OF d(2), of a] f(1) by simp
        then show ?thesis unfolding maps_to_def Let_def using True nm f ft av s'(2)
          by (auto simp: phys' intro!: exI[of _ b])
      qed
      then show ?thesis using inv' tc m by auto
    qed
    then show "mem_inv D s'" "tables_changed D s s'" "maps_to D d a pa attr s s' r"
      "\<And>e b. e \<in> D \<Longrightarrow> e \<noteq> d \<or> frame b \<noteq> frame a \<Longrightarrow> mmu (phys s') e b = mmu (phys s) e b"
      by blast+
  qed
qed

lemma frame_or_offset [simp]: "frame (frame x OR (b AND 0xFFF)) = frame x"
  unfolding frame_mask offset_mask by (rule bit_word_eqI) (auto simp: bit_simps)

lemma mmu_same_page:
  assumes "frame b = frame a"
  shows "mmu m d b = map_option (\<lambda>x. frame x OR (b AND 0xFFF)) (mmu m d a)"
  using assms index_eq_iff[of b a] by (simp add: mmu_def Let_def)

text \<open>
  C9. When \<^verbatim>\<open>lin_mapping_phy\<close> comes back it has mapped the page of the linear address to the page given, or,
  when it was to choose one, to a page that was free, is free no longer and is no page table, unless the address
  was mapped already. A page table it has added lies in memory that was free and is so no longer; the other
  bytes outside the tables there were are as before, and so is the translation of every other page in every address space.
  The page directories and tables are still pages of their own that are not free.
\<close>

theorem lin_mapping_maps:
  assumes "mem_inv D s" "get_pde_phy_addr p s = Some d" "d \<in> D"
    "present pattr" "frame pattr = 0" "frame attr = 0"
    "lin_mapping_phy a pa p pattr attr s = Some (s', r)"
  shows "maps_to D d a pa attr s s' r \<and> mem_inv D s' \<and> tables_changed D s s' \<and>
    (\<forall>k. k \<notin> table_bytes (phys s) D \<and> (k \<notin> avail (mman s) \<or> k \<in> avail (mman s')) \<longrightarrow> phys s' k = phys s k) \<and>
    (\<forall>e \<in> D. \<forall>b. e \<noteq> d \<or> frame b \<noteq> frame a \<longrightarrow> mmu (phys s') e b = mmu (phys s) e b)"
proof -
  note sp = lin_mapping_spec[OF assms]
  have "\<forall>k. k \<notin> table_bytes (phys s) D \<and> (k \<notin> avail (mman s) \<or> k \<in> avail (mman s')) \<longrightarrow> phys s' k = phys s k"
    using tables_changedD(10,12)[OF sp(2)] by blast
  then show ?thesis using sp by blast
qed

subsection \<open>A new page directory\<close>

lemma new_dir:
  assumes ok: "paging_ok m D av" and t: "table_page t" "page_bytes t \<subseteq> av"
  shows "paging_ok (zero_page m t) (insert t D) (av - page_bytes t)" "t \<notin> D"
    "mmu (zero_page m t) t a = None"
    "e \<in> D \<Longrightarrow> mmu (zero_page m t) e a = mmu m e a"
    "table_bytes (zero_page m t) (insert t D) = table_bytes m D \<union> page_bytes t"
proof -
  have tf: "frame t = t" using t(1) by (rule table_page_frame)
  have tD: "f \<noteq> t" if "f \<in> D" for f
    using paging_dir(2)[OF ok that] page_in_nonempty[OF t(2)] by blast
  then show "t \<notin> D" by blast
  have tT: "frame (entry m f k) \<noteq> t" if "f \<in> D" "index_ok k" "present (entry m f k)" for f k
    using paging_table(3)[OF ok that] page_in_nonempty[OF t(2)] by blast
  have z: "entry (zero_page m t) t k = 0" if "index_ok k" for k using that tf by (simp add: entry_zero)
  have o: "entry (zero_page m t) f k = entry m f k" if "f \<in> D" "index_ok k" for f k
    using that tD paging_dir(1)[OF ok that(1)] tf by (simp add: entry_zero table_page_frame)
  have np: "\<not> present 0" by (simp add: present_def)
  show "paging_ok (zero_page m t) (insert t D) (av - page_bytes t)"
  proof (rule paging_okI)
    show "table_page d" "page_bytes d \<inter> (av - page_bytes t) = {}" if "d \<in> insert t D" for d
      using that t(1) paging_dir[OF ok] by auto
    fix d i assume d: "d \<in> insert t D" "index_ok i" "present (entry (zero_page m t) d i)"
    then have dD: "d \<in> D" using z np by auto
    then show "table_page (frame (entry (zero_page m t) d i)) \<and> frame (entry (zero_page m t) d i) \<notin> insert t D \<and>
        page_bytes (frame (entry (zero_page m t) d i)) \<inter> (av - page_bytes t) = {}"
      using d o paging_table[OF ok dD d(2)] tT by auto
    fix e j assume e: "e \<in> insert t D" "index_ok j" "present (entry (zero_page m t) e j)"
      "frame (entry (zero_page m t) d i) = frame (entry (zero_page m t) e j)"
    then have eD: "e \<in> D" using z np by auto
    then show "d = e \<and> i = j" using d e o paging_distinct[OF ok dD eD d(2) e(2)] dD by auto
  qed
  show "mmu (zero_page m t) t a = None" by (simp add: mmu_def z np)
  show "mmu (zero_page m t) e a = mmu m e a" if e: "e \<in> D"
  proof (cases "present (entry m e (get_pde_index a))")
    case True
    have "entry (zero_page m t) (frame (entry m e (get_pde_index a))) (get_pte_index a) =
        entry m (frame (entry m e (get_pde_index a))) (get_pte_index a)"
      using tT[OF e _ True] tf by (simp add: entry_zero)
    then show ?thesis using True by (simp add: mmu_def o[OF e] Let_def)
  next
    case False
    then show ?thesis by (simp add: mmu_def o[OF e])
  qed
  have "(\<Union>i\<in>{i. index_ok i \<and> present (entry (zero_page m t) t i)}. page_bytes (frame (entry (zero_page m t) t i))) = {}"
    using z np by auto
  moreover have "{i. index_ok i \<and> present (entry (zero_page m t) e i)} = {i. index_ok i \<and> present (entry m e i)}" if "e \<in> D" for e
    using o[OF that] by auto
  ultimately show "table_bytes (zero_page m t) (insert t D) = table_bytes m D \<union> page_bytes t"
    unfolding table_bytes_def by (auto simp: o)
qed

lemma frame_plus_page: "frame a = a \<Longrightarrow> unat a + 4096 < 2 ^ 32 \<Longrightarrow> frame (a + num_4K) = a + num_4K \<and> unat (a + num_4K) = unat a + 4096"
  using frame_next[of a] unat_plus_no_wrap[of a "0x1000"] by (simp add: num_4K_def)

lemma frame_low_bits: "frame a = a \<Longrightarrow> a AND 0x3FF = 0"
proof -
  assume a: "frame a = a"
  have m: "(0x3FF :: u32) = mask 10" by (simp add: mask_eq_exp_minus_1)
  have "frame a AND 0x3FF = 0"
    unfolding frame_mask m by (rule bit_word_eqI) (auto simp: bit_simps)
  then show ?thesis by (simp add: a)
qed

lemma same_page_iff:
  assumes "frame a = a" shows "frame b = frame a \<longleftrightarrow> unat a \<le> unat b \<and> unat b < unat a + 4096"
proof -
  obtain q where q: "unat a = 4096 * q" using assms by (metis frame_iff_mod mod_0_imp_dvd dvdE)
  have "frame b = frame a \<longleftrightarrow> unat b div 4096 = q" by (simp add: frame_eq_iff q)
  also have "\<dots> \<longleftrightarrow> unat a \<le> unat b \<and> unat b < unat a + 4096"
    unfolding q by auto
  finally show ?thesis .
qed

lemma init_attrs: "present (PG_P OR PG_USU OR PG_RWW)" "frame (PG_P OR PG_USU OR PG_RWW) = 0"
  "present (PG_P OR PG_USS OR PG_RWW)" "frame (PG_P OR PG_USS OR PG_RWW) = 0"
  by (simp_all add: present_def frame_def PG_P_def PG_USU_def PG_RWW_def PG_USS_def)

text \<open>The offset of \<open>b\<close> from a page-aligned \<open>a\<close> of the same page.\<close>

lemma offset_from_page:
  assumes "frame a = a" "frame c = c" "frame b = frame a"
  shows "frame c OR (b AND 0xFFF) = b - a + c"
proof -
  have "b = a + (b AND 0xFFF)"
    using frame_or_add[of b b] frame_plus_offset[of b] assms by simp
  then have "b - a = b AND 0xFFF" by (metis add_diff_cancel_left')
  then show ?thesis using frame_or_add[of c b] assms(2) by (simp add: add.commute)
qed

lemma init_page_loop_spec:
  fixes s :: "'a kmem_scheme"
  assumes "mem_inv D s" "get_pde_phy_addr p s = Some d" "d \<in> D"
    and "frame A = A" "frame P = P" "unat A + 4096 * n < 2 ^ 32" "unat P + 4096 * n < 2 ^ 32"
    and "init_page_loop p A P n s = Some (s', r)"
  shows "r = 0 \<and> mem_inv D s' \<and> tables_changed D s s' \<and>
    (\<forall>b. mmu (phys s') d b = (if unat A \<le> unat b \<and> unat b < unat A + 4096 * n then Some (b - A + P)
       else mmu (phys s) d b)) \<and>
    (\<forall>e \<in> D. e \<noteq> d \<longrightarrow> (\<forall>b. mmu (phys s') e b = mmu (phys s) e b))"
  using assms
proof (induction n arbitrary: A P s)
  case 0
  then show ?case by auto
next
  case (Suc n)
  obtain s1 r1 where l: "lin_mapping_phy A P p (PG_P OR PG_USU OR PG_RWW) (PG_P OR PG_USS OR PG_RWW) s = Some (s1, r1)"
    using Suc.prems(8) by (auto split: bind_splits)
  note sp = lin_mapping_spec[OF Suc.prems(1-3) init_attrs(1,2,4) l]
  have PM: "P \<noteq> MAX_UNSIGNED_INT" using Suc.prems(7) by (auto simp: dest: arg_cong[of _ _ unat])
  have r1: "r1 = 0" "mmu (phys s1) d A = Some (P OR (A AND 0xFFF))"
    using sp(3) PM frame_low_bits[OF Suc.prems(5)] Suc.prems(5) init_attrs(3) by (auto simp: maps_to_def)
  have m1: "mmu (phys s1) d b = Some (b - A + P)" if "frame b = frame A" for b
    using mmu_same_page[OF that, of "phys s1" d] r1(2) offset_from_page[OF Suc.prems(4,5) that]
      frame_or_offset[of P A] Suc.prems(5) by simp
  have A': "frame (A + num_4K) = A + num_4K" "unat (A + num_4K) = unat A + 4096"
    using frame_plus_page[OF Suc.prems(4)] Suc.prems(6) by auto
  have P': "frame (P + num_4K) = P + num_4K" "unat (P + num_4K) = unat P + 4096"
    using frame_plus_page[OF Suc.prems(5)] Suc.prems(7) by auto
  have l2: "init_page_loop p (A + num_4K) (P + num_4K) n s1 = Some (s', r)"
    using Suc.prems(8) by (simp add: l r1)
  note tc = tables_changedD[OF sp(2)]
  have ih: "r = 0 \<and> mem_inv D s' \<and> tables_changed D s1 s' \<and>
    (\<forall>b. mmu (phys s') d b = (if unat (A + num_4K) \<le> unat b \<and> unat b < unat (A + num_4K) + 4096 * n
       then Some (b - (A + num_4K) + (P + num_4K)) else mmu (phys s1) d b)) \<and>
    (\<forall>e \<in> D. e \<noteq> d \<longrightarrow> (\<forall>b. mmu (phys s') e b = mmu (phys s1) e b))"
    by (rule Suc.IH[OF sp(1) _ Suc.prems(3) A'(1) P'(1) _ _ l2])
      (use tc(8) Suc.prems(2,6,7) A'(2) P'(2) in simp_all)
  have "mmu (phys s') d b = (if unat A \<le> unat b \<and> unat b < unat A + 4096 * Suc n then Some (b - A + P)
       else mmu (phys s) d b)" for b
  proof (cases "frame b = frame A")
    case True
    then show ?thesis using ih m1[OF True] same_page_iff[OF Suc.prems(4), of b] A'(2) by auto
  next
    case False
    then have "\<not> (unat A \<le> unat b \<and> unat b < unat A + 4096)" using same_page_iff[OF Suc.prems(4), of b] by blast
    then show ?thesis using ih sp(4)[OF Suc.prems(3), of b] False A'(2) by auto
  qed
  moreover have "mmu (phys s') e b = mmu (phys s) e b" if "e \<in> D" "e \<noteq> d" for e b
    using ih sp(4)[OF that(1), of b] that by auto
  ultimately show ?case using ih tables_changed_trans[OF sp(2)] by blast
qed

lemma init_page_pte_spec:
  fixes s s' :: "'a kmem_scheme"
  assumes inv: "mem_inv D s" and p: "unat p < NR_PCBS" and r: "init_page_pte p s = Some (s', r)"
  shows "r = 0 \<and> (\<exists>d. d \<notin> D \<and> get_pde_phy_addr p s' = Some d \<and> mem_inv (insert d D) s' \<and>
      table_bytes (phys s) D \<subseteq> table_bytes (phys s') (insert d D) \<and>
      (\<forall>b. mmu (phys s') d b =
         (if KernelLinBase \<le> b \<and> b < KernelLinBase + KernelSize then Some (K_LIN2PHY b) else None)) \<and>
      (\<forall>e \<in> D. \<forall>b. mmu (phys s') e b = mmu (phys s) e b) \<and>
      (\<forall>k. k \<notin> table_bytes (phys s') (insert d D) \<longrightarrow> phys s' k = phys s k) \<and>
      avail (mman s') \<subseteq> avail (mman s) \<and>
      table_bytes (phys s') (insert d D) \<subseteq> table_bytes (phys s) D \<union> avail (mman s) \<and>
      (\<exists>m g. s' = s\<lparr>proc_table := (proc_table s)(unat p := (proc_table s (unat p))\<lparr>cr3 := d\<rparr>), phys := m, mman := g\<rparr>))"
proof -
  obtain s1 t where k: "kmalloc_page s = (s1, t)" by fastforce
  obtain s2 where z: "kmemset (K_PHY2LIN t) 0 (unat num_4K) s1 = Some s2"
    using r by (auto simp: init_page_pte_def k split: bind_splits)
  note m = kmemset_page_Some[OF inv k z]
  have ok: "paging_ok (phys s) D (avail (mman s))" using inv by (simp add: mem_inv_def)
  note nd = new_dir[OF ok m(2,5)]
  let ?s = "upd_proc (unat p) (cr3_update (\<lambda>_. t)) s2"
  have loop: "init_page_loop p KernelLinBase 0 32768 ?s = Some (s', r)"
    using r p m(3) z by (simp add: init_page_pte_def k KernelSize_def num_4K_def)
  have tf: "frame t = t" "t \<noteq> 0" using m(2) by (auto simp: table_page_def MEMSTART_def)
  have ph: "phys ?s = zero_page (phys s) t" "mman ?s = mman s1" by (simp_all add: upd_proc_def m(4))
  have inv': "mem_inv (insert t D) ?s" using nd(1) m(6,7) by (simp add: mem_inv_def ph)
  have d: "get_pde_phy_addr p ?s = Some t"
    using p tf by (simp add: get_pde_phy_addr_def upd_proc_def frame_def)
  have K: "unat KernelLinBase = 3221225472" "frame KernelLinBase = KernelLinBase" "frame 0 = 0"
    by (simp_all add: KernelLinBase_def frame_def)
  note sp = init_page_loop_spec[OF inv' d insertI1 K(2,3) _ _ loop, unfolded K(1), simplified]
  have win: "KernelLinBase \<le> b \<and> b < KernelLinBase + KernelSize \<longleftrightarrow> 3221225472 \<le> unat b \<and> unat b < 3355443200" for b
    by (simp add: KernelLinBase_def KernelSize_def word_le_nat_alt word_less_nat_alt)
  have "mmu (phys s') t b = (if KernelLinBase \<le> b \<and> b < KernelLinBase + KernelSize then Some (K_LIN2PHY b) else None)" for b
    using sp nd(3)[of b] unfolding win by (simp add: ph KernelLinBase_def K_LIN2PHY_def)
  moreover have "mmu (phys s') e b = mmu (phys s) e b" if "e \<in> D" for e b
    using sp nd(2) nd(4)[OF that, of b] that by (auto simp: ph)
  moreover have tc: "tables_changed (insert t D) ?s s'" and "r = 0" "mem_inv (insert t D) s'" using sp by blast+
  moreover have "get_pde_phy_addr p s' = Some t" using tables_changedD(8)[OF tc] d by simp
  moreover have tb: "table_bytes (zero_page (phys s) t) (insert t D) \<subseteq> table_bytes (phys s') (insert t D)"
    using tables_changedD(11)[OF tc] by (simp add: ph)
  moreover have "phys s' k = phys s k" if "k \<notin> table_bytes (phys s') (insert t D)" for k
  proof -
    have "k \<notin> page_bytes t" using that tb nd(5) by blast
    then show ?thesis using tables_changedD(10)[OF tc that] by (simp add: ph zero_page_out)
  qed
  moreover have "\<exists>m g. s' = s\<lparr>proc_table := (proc_table s)(unat p := (proc_table s (unat p))\<lparr>cr3 := t\<rparr>), phys := m, mman := g\<rparr>"
    using tc unfolding tables_changed_def by (auto simp: upd_proc_def m(4))
  moreover have "avail (mman s') \<subseteq> avail (mman s)"
    using tables_changedD(9)[OF tc] m(6) by (auto simp: ph)
  moreover have "table_bytes (phys s') (insert t D) \<subseteq> table_bytes (phys s) D \<union> avail (mman s)"
    using tables_changedD(12)[OF tc] nd(5) m(5,6) by (auto simp: ph)
  ultimately show ?thesis using nd(2,5) by blast
qed

text \<open>The pages an allocator of the range from \<open>lo\<close> to \<open>hi\<close> can take from the free blocks, and a memory with at least \<open>k\<close> pages
  for page tables and \<open>n\<close> for processes.\<close>

definition page_count :: "u32 \<Rightarrow> u32 \<Rightarrow> FREEINFO \<Rightarrow> nat" where
  "page_count lo hi b =
     (if lo \<le> fi_addr b then min (unat (fi_size b) div 4096) ((unat hi - 1 - unat (fi_addr b)) div 4096) else 0)"

definition pages :: "u32 \<Rightarrow> u32 \<Rightarrow> MEMMAN \<Rightarrow> nat" where
  "pages lo hi man = sum_list (map (page_count lo hi) (blocks man))"

definition pools :: "nat \<Rightarrow> nat \<Rightarrow> MEMMAN \<Rightarrow> bool" where
  "pools k n man \<longleftrightarrow> k \<le> pages MEMSTART KWALL man \<and> n \<le> pages UWALL MEMEND man"

text \<open>A block gives a page when it has one left, and then has one less.\<close>

lemma block_fits:
  assumes "0 < fi_size b" "b_hi b < 2 ^ 32" "hi \<le> 0x80000000"
  shows "fits lo hi 0x1000 b \<longleftrightarrow> 0 < page_count lo hi b"
proof -
  have "0x1000 \<le> fi_size b \<longleftrightarrow> 4096 \<le> unat (fi_size b)" by (simp add: word_le_nat_alt)
  moreover have "fi_addr b + 0x1000 < hi \<longleftrightarrow> unat (fi_addr b) + 4096 < unat hi" if "4096 \<le> unat (fi_size b)"
    using unat_plus_no_wrap[of "fi_addr b" "0x1000"] that assms(2) by (simp add: word_less_nat_alt b_hi_def)
  ultimately show ?thesis by (auto simp: fits_def page_count_def div_greater_zero_iff)
qed

lemma rest_count:
  assumes "0 < fi_size b" "b_hi b < 2 ^ 32" "fits lo hi 0x1000 b"
  shows "sum_list (map (page_count lo hi) (rest 0x1000 b)) = page_count lo hi b - 1"
proof -
  have le: "4096 \<le> unat (fi_size b)" "lo \<le> fi_addr b" using assms(3) by (simp_all add: fits_def word_le_nat_alt)
  have a: "unat (fi_addr b + 0x1000) = unat (fi_addr b) + 4096"
    using unat_plus_no_wrap[of "fi_addr b" "0x1000"] le assms(2) by (simp add: b_hi_def)
  have s: "unat (fi_size b - 0x1000) = unat (fi_size b) - 4096"
    using unat_minus_no_wrap[of "0x1000" "fi_size b"] le by simp
  have lo: "lo \<le> fi_addr b + 0x1000" using le(2) a by (simp add: word_le_nat_alt)
  have d: "(n - 4096) div 4096 = n div 4096 - 1" for n :: nat by (cases "n < 4096") (simp_all add: le_div_geq)
  define x where "x = unat hi - 1 - unat (fi_addr b)"
  have "page_count lo hi \<lparr>fi_addr = fi_addr b + 0x1000, fi_size = fi_size b - 0x1000\<rparr> =
      min ((unat (fi_size b) - 4096) div 4096) ((x - 4096) div 4096)"
    using lo by (simp add: page_count_def a s x_def)
  also have "\<dots> = page_count lo hi b - 1" unfolding d using le(2) by (simp add: page_count_def x_def min_def)
  finally have "page_count lo hi \<lparr>fi_addr = fi_addr b + 0x1000, fi_size = fi_size b - 0x1000\<rparr> = page_count lo hi b - 1" .
  moreover have "page_count lo hi b \<le> 1" if "fi_size b = 0x1000" using that by (simp add: page_count_def)
  ultimately show ?thesis by (auto simp: rest_def)
qed

lemma other_count:
  assumes "0 < fi_size b" "b_hi b < 2 ^ 32" "fits lo hi 0x1000 b" "hi \<le> lp \<or> hp \<le> lo"
  shows "page_count lp hp b = 0" "sum_list (map (page_count lp hp) (rest 0x1000 b)) = 0"
proof -
  have le: "4096 \<le> unat (fi_size b)" "unat lo \<le> unat (fi_addr b)" using assms(3) by (simp_all add: fits_def word_le_nat_alt)
  have a: "unat (fi_addr b + 0x1000) = unat (fi_addr b) + 4096"
    using unat_plus_no_wrap[of "fi_addr b" "0x1000"] le assms(2) by (simp add: b_hi_def)
  have hi: "unat (fi_addr b) + 4096 < unat hi" using assms(3) a by (simp add: fits_def word_less_nat_alt)
  have "unat hi \<le> unat lp \<or> unat hp \<le> unat lo" using assms(4) by (simp add: word_le_nat_alt)
  then show "page_count lp hp b = 0" "sum_list (map (page_count lp hp) (rest 0x1000 b)) = 0"
    using le hi a by (auto simp: page_count_def rest_def word_le_nat_alt)
qed

lemma pages_alloc:
  assumes ok: "memman_ok man" and hi: "hi \<le> 0x80000000" and some: "0 < pages lo hi man"
    and r: "alloc_loop lo hi man 0x1000 0 (frees man) = (man', t)"
  shows "t \<noteq> - 1" "pages lo hi man' = pages lo hi man - 1"
    "hi \<le> lp \<or> hp \<le> lo \<Longrightarrow> pages lp hp man' = pages lp hp man"
proof -
  have bok: "blocks_ok (blocks man)" using ok by (simp add: memman_ok_def)
  have bl: "alloc_blocks lo hi 0x1000 (blocks man) = (blocks man', t)"
    using alloc_loop_all[where lo = lo and hi = hi and man = man and sz = "0x1000"] r by (simp add: prod_eq_iff)
  have b_ok: "0 < fi_size b \<and> b_hi b < 2 ^ 32" if "b \<in> set (blocks man)" for b
    using bok split_list[OF that] by (auto simp: blocks_ok_append)
  have "\<exists>b\<in>set (blocks man). page_count lo hi b \<noteq> 0"
  proof (rule ccontr)
    assume "\<not> ?thesis"
    then have "map (page_count lo hi) (blocks man) = map (\<lambda>_. 0) (blocks man)" by simp
    then show False using some unfolding pages_def by (simp only: map_replicate_const sum_list_replicate)
  qed
  then obtain b where "b \<in> set (blocks man)" "0 < page_count lo hi b" by auto
  then have "\<exists>b\<in>set (blocks man). fits lo hi 0x1000 b" using block_fits[OF _ _ hi] b_ok by blast
  then show t: "t \<noteq> - 1" using alloc_blocks_fails_iff[OF bok hi, of lo "0x1000"] bl by simp
  obtain us b vs where bs: "blocks man = us @ b # vs" and f: "fits lo hi 0x1000 b" and bs': "blocks man' = us @ rest 0x1000 b @ vs"
    using bl t by (cases rule: alloc_blocks_cases[where bs = "blocks man" and lo = lo and hi = hi and sz = "0x1000"]) auto
  have b: "0 < fi_size b" "b_hi b < 2 ^ 32" using b_ok bs by auto
  have "0 < page_count lo hi b" using block_fits[OF b hi] f by blast
  then show "pages lo hi man' = pages lo hi man - 1" using rest_count[OF b f] by (simp add: pages_def bs bs')
  show "pages lp hp man' = pages lp hp man" if "hi \<le> lp \<or> hp \<le> lo"
    using other_count[OF b f that] by (simp add: pages_def bs bs')
qed

lemma pools_kalloc:
  assumes "mm_ok man" "pools (Suc k) n man" "do_kmalloc_4k man = (man', t)"
  shows "t \<noteq> - 1 \<and> pools k n man'"
proof -
  have w: "memman_ok man" "KWALL \<le> 0x80000000" "KWALL \<le> UWALL" "0 < pages MEMSTART KWALL man"
    using assms(1,2) by (simp_all add: mm_ok_def KWALL_def UWALL_def pools_def)
  have "alloc_loop MEMSTART KWALL man 0x1000 0 (frees man) = (man', t)"
    using assms(3) by (simp add: do_kmalloc_4k_def memman_kalloc_4k_def)
  note P = pages_alloc[OF w(1,2,4) this]
  show ?thesis using P(1,2) P(3)[OF disjI1[OF w(3)], of MEMEND] assms(2) by (auto simp: pools_def)
qed

lemma pools_alloc:
  assumes "mm_ok man" "pools k (Suc n) man" "do_malloc_4k man = (man', t)"
  shows "t \<noteq> - 1 \<and> pools k n man'"
proof -
  have w: "memman_ok man" "MEMEND \<le> 0x80000000" "KWALL \<le> UWALL" "0 < pages UWALL MEMEND man"
    using assms(1,2) by (simp_all add: mm_ok_def KWALL_def UWALL_def MEMEND_def pools_def)
  have "alloc_loop UWALL MEMEND man 0x1000 0 (frees man) = (man', t)"
    using assms(3) by (simp add: do_malloc_4k_def memman_alloc_4k_def)
  note P = pages_alloc[OF w(1,2,4) this]
  show ?thesis using P(1,2) P(3)[OF disjI2[OF w(3)], of MEMSTART] assms(2) by (auto simp: pools_def)
qed

text \<open>The memory the kernel boots with, on a machine of 32M: 511 pages for page tables and 4095 for processes.\<close>

lemma boot_pools:
  assumes "MemInfo 0 = 1" "MemInfo 1 = MEMEND" "init man MemInfo = Some man'"
  shows "mm_ok man'" "pages MEMSTART KWALL man' = 511" "pages UWALL MEMEND man' = 4095"
proof -
  have "memman_ok man'" and b: "blocks man' = [\<lparr>fi_addr = MEMSTART, fi_size = 0x1FF000\<rparr>, \<lparr>fi_addr = KWALL, fi_size = 0x1FF000\<rparr>,
      \<lparr>fi_addr = WALL, fi_size = 0x7FF000\<rparr>, \<lparr>fi_addr = UWALL, fi_size = MEMEND - UWALL\<rparr>]"
    using init_pools[OF assms(1,2), of man] assms(3) by (auto simp: UWALL_def MEMEND_def)
  then show "mm_ok man'" by (simp add: mm_ok_def memman_consts frame_def)
  show "pages MEMSTART KWALL man' = 511" "pages UWALL MEMEND man' = 4095"
    by (simp_all add: pages_def b page_count_def memman_consts)
qed

lemma mapping_table_succeeds:
  fixes s :: "'a kmem_scheme"
  assumes inv: "mem_inv D s" and d: "get_pde_phy_addr p s = Some d" "d \<in> D"
    and pattr: "present pattr" "frame pattr = 0"
    and k: "pools k n (mman s)" "present (entry (phys s) d (get_pde_index a)) \<or> 1 < k"
  obtains s1 t where "mapping_table a p pattr s = Some (s1, Inr t)"
    "pools (if present (entry (phys s) d (get_pde_index a)) then k else k - 1) n (mman s1)"
    "mem_inv D s1" "table_page t" "present (entry (phys s1) d (get_pde_index a))"
    "frame (entry (phys s1) d (get_pde_index a)) = t" "mmu (phys s1) d a = mmu (phys s) d a"
proof -
  let ?i = "get_pde_index a"
  have ok: "paging_ok (phys s) D (avail (mman s))" using inv by (simp add: mem_inv_def)
  have td: "table_page d" using paging_dir(1)[OF ok d(2)] .
  have ex: "pte_exist d a s = Some (present (entry (phys s) d ?i))"
    by (simp add: pte_exist_def kload32_entry[OF td] present_def)
  obtain s1 t where mt: "mapping_table a p pattr s = Some (s1, Inr t)"
    and k1: "pools (if present (entry (phys s) d ?i) then k else k - 1) n (mman s1)"
  proof (cases "present (entry (phys s) d ?i)")
    case True
    then have "mapping_table a p pattr s = Some (s, Inr (frame (entry (phys s) d ?i)))"
      by (simp add: mapping_table_def d(1) ex get_pte_phy_addr_def kload32_entry[OF td] frame_def)
    then show thesis using that k True by simp
  next
    case False
    then obtain k' where k': "k = Suc k'" "0 < k'" using k(2) by (cases k) auto
    obtain m t where m: "do_kmalloc_4k (mman s) = (m, t)" by fastforce
    then have km: "kmalloc_page s = (s\<lparr>mman := m\<rparr>, t)" by (simp add: kmalloc_page_def)
    have t: "t \<noteq> - 1" "pools k' n m" using pools_kalloc[of "mman s" k' n m t] inv k(1) k' m by (auto simp: mem_inv_def)
    then have tt: "table_page t" using kmalloc_page_cases(4)[OF inv km] by auto
    have low: "t AND 0x3FF = 0" using frame_low_bits[of t] tt by (simp add: table_page_def)
    have "mapping_table a p pattr s = Some (s\<lparr>mman := m, phys := put_entry (zero_page (phys s) t) d ?i ((t AND 0xFFFFF000) OR pattr)\<rparr>, Inr t)"
      using False low
      by (simp add: mapping_table_def d(1) ex km kmemset_page[OF tt] write_page_pde_def kstore32_entry[OF td])
    then show thesis using that[of _ t] t False k' by simp
  qed
  obtain u where u: "Inr t = (Inr u :: int + u32)" "mem_inv D s1" "present (entry (phys s1) d ?i)"
    "frame (entry (phys s1) d ?i) = u" "\<And>e b. e \<in> D \<Longrightarrow> mmu (phys s1) e b = mmu (phys s) e b"
    by (rule mapping_table_spec[OF inv d pattr mt]) (rule that)
  have ok1: "paging_ok (phys s1) D (avail (mman s1))" using u(2) by (simp add: mem_inv_def)
  have "table_page t" using paging_table(1)[OF ok1 d(2) index_ok_get(1) u(3)] u(1,4) by simp
  then show thesis using that[OF mt k1 u(2)] u d(2) by simp
qed

text \<open>The last step, after the table and the page have been found.\<close>

lemma mapping_present:
  assumes "mem_inv D s1" "d \<in> D" "present (entry (phys s1) d (get_pde_index a))"
    "frame (entry (phys s1) d (get_pde_index a)) = t"
  shows "present (entry (put_entry (phys s1) t (get_pte_index a) w) d (get_pde_index a))"
proof -
  have ok1: "paging_ok (phys s1) D (avail (mman s1))" using assms(1) by (simp add: mem_inv_def)
  show ?thesis
    using put_pte(3)[OF ok1 assms(2) index_ok_get(1) index_ok_get(2) assms(3) assms(2) index_ok_get(1)] assms(3,4) by simp
qed

lemma lin_mapping_given:
  fixes s :: "'a kmem_scheme"
  assumes inv: "mem_inv D s" and d: "get_pde_phy_addr p s = Some d" "d \<in> D"
    and pattr: "present pattr" "frame pattr = 0" and pa: "pa \<noteq> MAX_UNSIGNED_INT" "pa AND 0x3FF = 0"
    and k: "pools k n (mman s)" "present (entry (phys s) d (get_pde_index a)) \<or> 1 < k"
  obtains s' where "lin_mapping_phy a pa p pattr attr s = Some (s', 0)"
    "pools (if present (entry (phys s) d (get_pde_index a)) then k else k - 1) n (mman s')"
    "present (entry (phys s') d (get_pde_index a))"
proof -
  obtain s1 t where m: "mapping_table a p pattr s = Some (s1, Inr t)"
    "pools (if present (entry (phys s) d (get_pde_index a)) then k else k - 1) n (mman s1)"
    "mem_inv D s1" "table_page t" "present (entry (phys s1) d (get_pde_index a))"
    "frame (entry (phys s1) d (get_pde_index a)) = t" "mmu (phys s1) d a = mmu (phys s) d a"
    by (rule mapping_table_succeeds[OF inv d pattr k]) (rule that)
  let ?s = "s1\<lparr>phys := put_entry (phys s1) t (get_pte_index a) ((pa AND 0xFFFFF000) OR attr)\<rparr>"
  have "lin_mapping_phy a pa p pattr attr s = Some (?s, 0)"
    using pa by (simp add: lin_mapping_phy_def m(1) mapping_page_def write_page_pte_def kstore32_entry[OF m(4)])
  then show thesis using that[of ?s] m(2) mapping_present[OF m(3) d(2) m(5,6)] by simp
qed

lemma lin_mapping_fresh:
  fixes s :: "'a kmem_scheme"
  assumes inv: "mem_inv D s" and d: "get_pde_phy_addr p s = Some d" "d \<in> D"
    and pattr: "present pattr" "frame pattr = 0" and a: "\<not> a \<ge> K_PHY2LIN 0" "mmu (phys s) d a = None"
    and k: "pools k (Suc n) (mman s)" "present (entry (phys s) d (get_pde_index a)) \<or> 1 < k" "0 < n"
  obtains s' where "lin_mapping_phy a MAX_UNSIGNED_INT p pattr attr s = Some (s', 0)"
    "pools (if present (entry (phys s) d (get_pde_index a)) then k else k - 1) n (mman s')"
    "present (entry (phys s') d (get_pde_index a))"
proof -
  obtain s1 t where m: "mapping_table a p pattr s = Some (s1, Inr t)"
    "pools (if present (entry (phys s) d (get_pde_index a)) then k else k - 1) (Suc n) (mman s1)"
    "mem_inv D s1" "table_page t" "present (entry (phys s1) d (get_pde_index a))"
    "frame (entry (phys s1) d (get_pde_index a)) = t" "mmu (phys s1) d a = mmu (phys s) d a"
    by (rule mapping_table_succeeds[OF inv d pattr k(1,2)]) (rule that)
  have "\<not> present (entry (phys s1) t (get_pte_index a))"
    using m(5,6,7) a(2) by (auto simp: mmu_def Let_def split: if_splits)
  then have ex: "phy_exist t a s1 = Some False"
    by (simp add: phy_exist_def kload32_entry[OF m(4)] present_def)
  obtain g f where g: "do_malloc_4k (mman s1) = (g, f)" by fastforce
  then have f: "f \<noteq> - 1" "pools (if present (entry (phys s) d (get_pde_index a)) then k else k - 1) n g"
    using pools_alloc[OF _ m(2) g] m(3) by (simp_all add: mem_inv_def)
  have mp: "malloc_page s1 = (s1\<lparr>mman := g\<rparr>, f)" by (simp add: malloc_page_def g)
  have low: "f AND 0x3FF = 0"
    using malloc_page_cases(4)[OF m(3) mp f(1)] frame_low_bits by blast
  let ?s = "s1\<lparr>mman := g, phys := put_entry (phys s1) t (get_pte_index a) ((f AND 0xFFFFF000) OR attr)\<rparr>"
  have "lin_mapping_phy a MAX_UNSIGNED_INT p pattr attr s = Some (?s, 0)"
    using a(1) low by (simp add: lin_mapping_phy_def m(1) mapping_page_def ex mp write_page_pte_def kstore32_entry[OF m(4)])
  then show thesis using that[of ?s] f(2) mapping_present[OF m(3) d(2) m(5,6)] by simp
qed

text \<open>The tables the loop still needs: one for each directory entry it comes to, less the one it stands on.\<close>

lemma init_page_loop_succeeds:
  fixes s :: "'a kmem_scheme"
  assumes "mem_inv D s" "get_pde_phy_addr p s = Some d" "d \<in> D"
    and "frame A = A" "frame P = P" "unat A + 4096 * n < 2 ^ 32" "unat P + 4096 * n < 2 ^ 32"
    and "pools (Suc k) q (mman s)"
    and "(unat A + 4096 * n) div 4194304 + (if present (entry (phys s) d (get_pde_index A)) then 0 else 1)
         \<le> unat A div 4194304 + k"
  shows "\<exists>s' k'. init_page_loop p A P n s = Some (s', 0) \<and> pools k' q (mman s') \<and>
    Suc k + unat A div 4194304
      \<le> k' + (unat A + 4096 * n) div 4194304 + (if present (entry (phys s) d (get_pde_index A)) then 0 else 1)"
  using assms
proof (induction n arbitrary: A P s k)
  case 0
  then show ?case by (intro exI[of _ s] exI[of _ "Suc k"]) simp
next
  case (Suc n)
  let ?pr = "present (entry (phys s) d (get_pde_index A))"
  have PM: "P \<noteq> MAX_UNSIGNED_INT" using Suc.prems(7) by auto
  have mono: "unat A div 4194304 \<le> (unat A + 4096 * Suc n) div 4194304" by (rule div_le_mono) simp
  then have k0: "?pr \<or> 1 < Suc k" using Suc.prems(9) by (cases ?pr) auto
  obtain s1 where l: "lin_mapping_phy A P p (PG_P OR PG_USU OR PG_RWW) (PG_P OR PG_USS OR PG_RWW) s = Some (s1, 0)"
    and "pools (if ?pr then Suc k else Suc k - 1) q (mman s1)" and e1: "present (entry (phys s1) d (get_pde_index A))"
    using lin_mapping_given[OF Suc.prems(1-3) init_attrs(1,2) PM frame_low_bits[OF Suc.prems(5)] Suc.prems(8) k0] .
  then have k1: "pools (Suc (if ?pr then k else k - 1)) q (mman s1)" using k0 by (cases k) (auto split: if_splits)
  note sp = lin_mapping_spec[OF Suc.prems(1-3) init_attrs(1,2,4) l]
  have A': "frame (A + num_4K) = A + num_4K" "unat (A + num_4K) = unat A + 4096"
    using frame_plus_page[OF Suc.prems(4)] Suc.prems(6) by auto
  have P': "frame (P + num_4K) = P + num_4K" "unat (P + num_4K) = unat P + 4096"
    using frame_plus_page[OF Suc.prems(5)] Suc.prems(7) by auto
  have d1: "get_pde_phy_addr p s1 = Some d" using tables_changedD(8)[OF sp(2)] Suc.prems(2) by simp
  have ranges: "unat (A + num_4K) + 4096 * n < 2 ^ 32" "unat (P + num_4K) + 4096 * n < 2 ^ 32"
    using Suc.prems(6,7) A'(2) P'(2) by simp_all
  let ?k = "if ?pr then k else k - 1" and ?pr' = "present (entry (phys s1) d (get_pde_index (A + num_4K)))"
  have e: "(unat (A + num_4K) + 4096 * n) div 4194304 = (unat A + 4096 * Suc n) div 4194304"
    using A'(2) by (simp add: add.assoc)
  have p': "(if ?pr' then 0 else 1) \<le> (1 :: nat)" by simp
  consider (same) "unat (A + num_4K) div 4194304 = unat A div 4194304" ?pr'
    | (new) "unat (A + num_4K) div 4194304 \<ge> Suc (unat A div 4194304)"
  proof (cases "unat (A + num_4K) div 4194304 = unat A div 4194304")
    case True
    then have "get_pde_index (A + num_4K) = get_pde_index A"
      by (simp add: word_unat_eq_iff unat_pde_index)
    then show thesis using same True e1 by simp
  next
    case False
    then show thesis using new div_le_mono[of "unat A" "unat (A + num_4K)" 4194304] A'(2) by simp
  qed
  note cs = this
  have need: "(unat (A + num_4K) + 4096 * n) div 4194304 + (if ?pr' then 0 else 1) \<le> unat (A + num_4K) div 4194304 + ?k"
    by (cases rule: cs) (use Suc.prems(9) k0 e p' in \<open>auto split: if_splits\<close>)
  from Suc.IH[OF sp(1) d1 Suc.prems(3) A'(1) P'(1) ranges k1 need]
  obtain s' k' where s': "init_page_loop p (A + num_4K) (P + num_4K) n s1 = Some (s', 0)" "pools k' q (mman s')"
    "Suc ?k + unat (A + num_4K) div 4194304 \<le> k' + (unat (A + num_4K) + 4096 * n) div 4194304 + (if ?pr' then 0 else 1)"
    by blast
  have "Suc k + unat A div 4194304 \<le> k' + (unat A + 4096 * Suc n) div 4194304 + (if ?pr then 0 else 1)"
    by (cases rule: cs) (use s'(3) k0 e p' in \<open>auto split: if_splits\<close>)
  then show ?case using s' l by (intro exI[of _ s'] exI[of _ k']) simp
qed

lemma init_page_pte_succeeds:
  fixes s :: "'a kmem_scheme"
  assumes inv: "mem_inv D s" and p: "unat p < NR_PCBS" and k: "pools (Suc (Suc k)) q (mman s)" "33 \<le> k"
  obtains s' k' where "init_page_pte p s = Some (s', 0)" "pools k' q (mman s')" "Suc k \<le> k' + 33"
proof -
  obtain m t where m: "do_kmalloc_4k (mman s) = (m, t)" by fastforce
  then have km: "kmalloc_page s = (s\<lparr>mman := m\<rparr>, t)" by (simp add: kmalloc_page_def)
  have t: "t \<noteq> - 1" "pools (Suc k) q m" using pools_kalloc[OF _ k(1) m] inv by (simp_all add: mem_inv_def)
  then have tt: "table_page t" using kmalloc_page_cases(4)[OF inv km] by auto
  have z: "kmemset (K_PHY2LIN t) 0 4096 (s\<lparr>mman := m\<rparr>) = Some (s\<lparr>mman := m, phys := zero_page (phys s) t\<rparr>)"
    using kmemset_page[OF tt, of "s\<lparr>mman := m\<rparr>"] by (simp add: num_4K_def)
  have ok: "paging_ok (phys s) D (avail (mman s))" using inv by (simp add: mem_inv_def)
  let ?s = "upd_proc (unat p) (cr3_update (\<lambda>_. t)) (s\<lparr>mman := m, phys := zero_page (phys s) t\<rparr>)"
  have pb: "page_bytes t \<subseteq> avail (mman s)" "avail m = avail (mman s) - page_bytes t" "mm_ok m"
    using kmalloc_page_cases[OF inv km] t(1) by auto
  have inv': "mem_inv (insert t D) ?s"
    using new_dir(1)[OF ok tt pb(1)] pb(2,3) by (simp add: mem_inv_def upd_proc_def)
  have tf: "frame t = t" "t \<noteq> 0" using tt by (auto simp: table_page_def MEMSTART_def)
  have d: "get_pde_phy_addr p ?s = Some t"
    using p tf by (simp add: get_pde_phy_addr_def upd_proc_def frame_def)
  have K: "unat KernelLinBase = 3221225472" "frame KernelLinBase = KernelLinBase" "frame 0 = 0"
    by (simp_all add: KernelLinBase_def frame_def)
  obtain s' k' where l: "init_page_loop p KernelLinBase 0 32768 ?s = Some (s', 0)" "pools k' q (mman s')"
    "Suc k + unat KernelLinBase div 4194304 \<le> k' + (unat KernelLinBase + 4096 * 32768) div 4194304
       + (if present (entry (phys ?s) t (get_pde_index KernelLinBase)) then 0 else 1)"
  proof -
    have need: "(unat KernelLinBase + 4096 * 32768) div 4194304
        + (if present (entry (phys ?s) t (get_pde_index KernelLinBase)) then 0 else 1) \<le> unat KernelLinBase div 4194304 + k"
      using k(2) K(1) by simp
    have "pools (Suc k) q (mman ?s)" using t by (simp add: upd_proc_def)
    from init_page_loop_succeeds[OF inv' d insertI1 K(2,3) _ _ this need] show thesis using that K(1) by auto
  qed
  have "init_page_pte p s = Some (s', 0)"
    using p z frame_low_bits[OF tf(1)] l(1) by (simp add: init_page_pte_def km num_4K_def KernelSize_def)
  moreover have "Suc k \<le> k' + 33" using l(3) K(1) by (auto split: if_splits)
  ultimately show thesis using that l(2) by blast
qed

text \<open>
  C12. \<^verbatim>\<open>init_page_pte\<close> gives a process a new page directory that maps exactly the kernel's linear addresses, each to the
  physical address \<^verbatim>\<open>K_LIN2PHY\<close> of it, and leaves all other address spaces and all memory in use as they are; it
  succeeds when thirty-five pages are free in the pool of page tables, in whichever blocks and whatever else is free: the memory
  as it is after boot has 511 (\<open>boot_pools\<close>).
\<close>

theorem init_page_maps_kernel:
  assumes "mem_inv D s" "unat p < NR_PCBS"
  shows "(35 \<le> pages MEMSTART KWALL (mman s) \<longrightarrow> (\<exists>s'. init_page_pte p s = Some (s', 0))) \<and>
    (\<forall>s' r. init_page_pte p s = Some (s', r) \<longrightarrow> r = 0 \<and>
      (\<exists>d. d \<notin> D \<and> get_pde_phy_addr p s' = Some d \<and> mem_inv (insert d D) s' \<and>
        (\<forall>b. mmu (phys s') d b =
           (if KernelLinBase \<le> b \<and> b < KernelLinBase + KernelSize then Some (K_LIN2PHY b) else None)) \<and>
        (\<forall>e \<in> D. \<forall>b. mmu (phys s') e b = mmu (phys s) e b) \<and>
        (\<forall>k. k \<notin> table_bytes (phys s) D \<and> k \<notin> avail (mman s) \<longrightarrow> phys s' k = phys s k)))"
proof (intro conjI impI allI)
  assume "35 \<le> pages MEMSTART KWALL (mman s)"
  then have "pools (Suc (Suc 33)) 0 (mman s)" "33 \<le> (33 :: nat)" by (simp_all add: pools_def)
  from init_page_pte_succeeds[OF assms this] show "\<exists>s'. init_page_pte p s = Some (s', 0)" by blast
next
  fix s' r assume "init_page_pte p s = Some (s', r)"
  note sp = init_page_pte_spec[OF assms this]
  then show "r = 0" by blast
  obtain d where d: "d \<notin> D" "get_pde_phy_addr p s' = Some d" "mem_inv (insert d D) s'"
    "\<forall>b. mmu (phys s') d b = (if KernelLinBase \<le> b \<and> b < KernelLinBase + KernelSize then Some (K_LIN2PHY b) else None)"
    "\<forall>e \<in> D. \<forall>b. mmu (phys s') e b = mmu (phys s) e b"
    "\<forall>k. k \<notin> table_bytes (phys s') (insert d D) \<longrightarrow> phys s' k = phys s k"
    "table_bytes (phys s') (insert d D) \<subseteq> table_bytes (phys s) D \<union> avail (mman s)"
    using sp by blast
  have "\<forall>k. k \<notin> table_bytes (phys s) D \<and> k \<notin> avail (mman s) \<longrightarrow> phys s' k = phys s k" using d(6,7) by blast
  then show "\<exists>d. d \<notin> D \<and> get_pde_phy_addr p s' = Some d \<and> mem_inv (insert d D) s' \<and>
        (\<forall>b. mmu (phys s') d b =
           (if KernelLinBase \<le> b \<and> b < KernelLinBase + KernelSize then Some (K_LIN2PHY b) else None)) \<and>
        (\<forall>e \<in> D. \<forall>b. mmu (phys s') e b = mmu (phys s) e b) \<and>
        (\<forall>k. k \<notin> table_bytes (phys s) D \<and> k \<notin> avail (mman s) \<longrightarrow> phys s' k = phys s k)"
    using d(1-5) by blast
qed

subsection \<open>Example\<close>

text \<open>Process 1 has an empty page directory in the first page of the pool of page tables; all other memory is free, in the four blocks
  that \<^verbatim>\<open>init\<close> makes of 32M.\<close>

definition demo_kmem :: kmem where
  "demo_kmem = kproc.extend (demo_kproc\<lparr>proc_table := demo_table(1 := (demo_table 1)\<lparr>cr3 := 0x400000\<rparr>)\<rparr>)
     \<lparr>phys = (\<lambda>_. 0),
      mman = \<lparr>frees = 4, maxfrees = 4, lostsize = 0, losts = 0,
        free = (\<lambda>_. \<lparr>fi_addr = 0x401000, fi_size = 0x1FE000\<rparr>)(1 := \<lparr>fi_addr = KWALL, fi_size = 0x1FF000\<rparr>,
          2 := \<lparr>fi_addr = WALL, fi_size = 0x7FF000\<rparr>, 3 := \<lparr>fi_addr = UWALL, fi_size = 0x1000000\<rparr>)\<rparr>,
      cr2_save = 0, cr2_count = 0\<rparr>"

lemma demo_kmem_simps [simp]:
  "phys demo_kmem = (\<lambda>_. 0)"
  "blocks (mman demo_kmem) = [\<lparr>fi_addr = 0x401000, fi_size = 0x1FE000\<rparr>, \<lparr>fi_addr = KWALL, fi_size = 0x1FF000\<rparr>,
     \<lparr>fi_addr = WALL, fi_size = 0x7FF000\<rparr>, \<lparr>fi_addr = UWALL, fi_size = 0x1000000\<rparr>]"
  "frees (mman demo_kmem) = 4" "get_pde_phy_addr 1 demo_kmem = Some 0x400000"
  by (simp_all add: demo_kmem_def kproc.defs kmem.defs blocks_def get_pde_phy_addr_def NR_PCBS_def upt_rec)

lemma demo_pool: "pools 256 256 (mman demo_kmem)"
  by (simp add: pools_def pages_def page_count_def memman_consts)

lemma demo_inv: "mem_inv {0x400000} demo_kmem"
proof -
  have av: "avail (mman demo_kmem) = {0x401000..<0x5FF000} \<union> {0x600000..<0x7FF000} \<union> {0x800000..<0xFFF000} \<union> {0x1000000..<0x2000000}"
    by (simp add: avail_def b_lo_def b_hi_def memman_consts Un_assoc)
  have mm: "mm_ok (mman demo_kmem)"
    by (simp add: mm_ok_def memman_ok_def b_lo_def b_hi_def MEMMAN_FREES_def frame_def memman_consts)
  have "entry (phys demo_kmem) d i = 0" for d i by (simp add: entry_def)
  then have "paging_ok (phys demo_kmem) {0x400000} (avail (mman demo_kmem))"
    unfolding av by (intro paging_okI)
      (auto simp: table_page_def frame_def MEMSTART_def KWALL_def page_bytes_def present_def)
  with mm show ?thesis by (simp add: mem_inv_def)
qed

theorem lin_mapping_maps_witness:
  "\<exists>s'. lin_mapping_phy 0x48001234 0x1000000 1 7 7 demo_kmem = Some (s', 0) \<and>
     mmu (phys s') 0x400000 0x48001234 = Some 0x1000234"
proof -
  have at: "present 7" "frame 7 = 0" by (simp_all add: present_def frame_def)
  obtain s' where l: "lin_mapping_phy 0x48001234 0x1000000 1 7 7 demo_kmem = Some (s', 0)"
    using lin_mapping_given[OF demo_inv demo_kmem_simps(4) insertI1 at, of "0x1000000" 256 256 "0x48001234" 7] demo_pool
    by (auto simp: MAX_UNSIGNED_INT_def)
  have "maps_to {0x400000} 0x400000 0x48001234 0x1000000 7 demo_kmem s' 0"
    using lin_mapping_maps[OF demo_inv demo_kmem_simps(4) insertI1 at at(2) l] by blast
  then show ?thesis using l at by (simp add: maps_to_def MAX_UNSIGNED_INT_def frame_def)
qed

theorem init_page_maps_kernel_witness:
  "\<exists>s' d. init_page_pte 0 demo_kmem = Some (s', 0) \<and> get_pde_phy_addr 0 s' = Some d \<and>
     mmu (phys s') d 0xC0001234 = Some 0x1234 \<and> mmu (phys s') d 0x1234 = None"
proof -
  have p: "unat (0 :: u32) < NR_PCBS" by (simp add: NR_PCBS_def)
  note t = init_page_maps_kernel[OF demo_inv p]
  then obtain s' where i: "init_page_pte 0 demo_kmem = Some (s', 0)" using demo_pool by (auto simp: pools_def)
  with t obtain d where d: "get_pde_phy_addr 0 s' = Some d" "\<forall>b. mmu (phys s') d b =
      (if KernelLinBase \<le> b \<and> b < KernelLinBase + KernelSize then Some (K_LIN2PHY b) else None)" by blast
  then have "mmu (phys s') d 0xC0001234 = Some 0x1234" "mmu (phys s') d 0x1234 = None"
    by (simp_all add: KernelLinBase_def KernelSize_def K_LIN2PHY_def)
  with i d show ?thesis by blast
qed

end
