(* ===== verification/Fork.thy ===== *)
theory Fork
  imports PagingLaws
begin

text \<open>
  Making processes and threads, \<^verbatim>\<open>kernel/fork.c\<close> and \<^verbatim>\<open>kernel/pthread.c\<close>.

  The code reads and writes a saved register in two places, the frame \<open>regs\<close> at the start of the control block and the
  bottom of the kernel stack behind it, by the byte offsets of \<^verbatim>\<open>include/proc.h\<close>; here \<open>kstack\<close> is
  the kernel stack by byte offset from the start of the control block. Memory in the address space
  of the running process is reached through \<open>mmu\<close> and its page directory; an access to a page that
  is not mapped ends the model (\<open>None\<close>), as it ends in the page fault handler.
\<close>

subsection \<open>Saved registers\<close>

definition GSREG :: nat where "GSREG = 0"
definition FSREG :: nat where "FSREG = 1 * 4"
definition ESREG :: nat where "ESREG = 2 * 4"
definition DSREG :: nat where "DSREG = 3 * 4"
definition EAXREG :: nat where "EAXREG = 11 * 4"
definition EIPREG :: nat where "EIPREG = 13 * 4"
definition CSREG :: nat where "CSREG = 14 * 4"
definition EFLAGSREG :: nat where "EFLAGSREG = 15 * 4"
definition ESPREG :: nat where "ESPREG = 16 * 4"
definition SSREG :: nat where "SSREG = 17 * 4"
definition P_STACKTOP :: nat where "P_STACKTOP = 18 * 4"

definition frame_base :: nat where "frame_base = INIT_STACK_SIZE - P_STACKTOP"

lemmas reg_offsets = GSREG_def FSREG_def ESREG_def DSREG_def EAXREG_def EIPREG_def CSREG_def EFLAGSREG_def ESPREG_def
  SSREG_def P_STACKTOP_def INIT_STACK_SIZE_def frame_base_def

text \<open>\<^verbatim>\<open>*((u32*)(p_reg + r - P_STACKTOP)) = w\<close>, and the two writes of a register that the code makes.\<close>

definition set_kreg :: "nat \<Rightarrow> u32 \<Rightarrow> PROCESS \<Rightarrow> PROCESS" where
  "set_kreg r w p = p\<lparr>kstack := (kstack p)(frame_base + r := w)\<rparr>"

definition set_reg :: "nat \<Rightarrow> u32 \<Rightarrow> PROCESS \<Rightarrow> PROCESS" where
  "set_reg r w p = set_kreg r w (p\<lparr>regs := (regs p)(r := w)\<rparr>)"

text \<open>The copy of the eighteen registers from another kernel stack, or from the frame.\<close>

definition copy_frame :: "(nat \<Rightarrow> u32) \<Rightarrow> PROCESS \<Rightarrow> PROCESS" where
  "copy_frame f p = p\<lparr>kstack := (\<lambda>k. if frame_base \<le> k \<and> k < INIT_STACK_SIZE then f k else kstack p k)\<rparr>"

definition set_name :: "u8 list \<Rightarrow> PROCESS \<Rightarrow> PROCESS" where
  "set_name xs p = p\<lparr>p_name := store_list (p_name p) 0 (xs @ [0])\<rparr>"

definition name_fork :: "u8 list" where "name_fork = [0x66, 0x6f, 0x72, 0x6b]"
definition name_pthread :: "u8 list" where "name_pthread = [0x70, 0x74, 0x68, 0x72, 0x65, 0x61, 0x64]"

subsection \<open>Fork\<close>

definition fork_pcb_cpy :: "nat \<Rightarrow> 'a kproc_scheme \<Rightarrow> 'a kproc_scheme" where
  "fork_pcb_cpy c s =
     (let child = proc_table s c; par = proc_cur s;
          eflags = kstack child (frame_base + EFLAGSREG);
          t = par\<lparr>kstack := kstack child\<rparr>;
          t = t\<lparr>stat := IDLE, esp_save_int := esp_save_int child, esp_save_context := esp_save_context child\<rparr>;
          t = copy_frame (kstack par) t;
          t = t\<lparr>pid := pid child\<rparr>;
          t = set_kreg EFLAGSREG eflags t
      in upd_proc c (\<lambda>_. t\<lparr>ldt_sel := ldt_sel child, cr3 := cr3 child\<rparr>) s)"

definition SharePageBase :: u32 where "SharePageBase = 0x47FFF000"

definition user_rw :: u32 where "user_rw = PG_P OR PG_USU OR PG_RWW"
definition user_ro :: u32 where "user_ro = PG_P OR PG_USU OR PG_RWR"

definition cur_dir :: "'a kmem_scheme \<Rightarrow> u32" where
  "cur_dir s = cr3 (proc_cur s) AND 0xFFFFF000"

text \<open>\<^verbatim>\<open>memcpy\<close> of a whole page from \<open>src\<close> to \<open>dst\<close>, both addresses of the running process.\<close>

definition memcpy_page :: "u32 \<Rightarrow> u32 \<Rightarrow> 'a kmem_scheme \<Rightarrow> 'a kmem_scheme option" where
  "memcpy_page dst src s = do {
     d \<leftarrow> mmu (phys s) (cur_dir s) dst;
     f \<leftarrow> mmu (phys s) (cur_dir s) src;
     Some (s\<lparr>phys := store_list (phys s) (unat d) (load_list (phys s) (unat f) 4096)\<rparr>)
   }"

text \<open>The bodies of the loops of \<^verbatim>\<open>fork_mem_cpy\<close>: code is shared, everything else is copied through the
  shared page.\<close>

definition share_page :: "u32 \<Rightarrow> u32 \<Rightarrow> u32 \<Rightarrow> 'a kmem_scheme \<Rightarrow> 'a kmem_scheme option" where
  "share_page parent child addr_lin s = do {
     f \<leftarrow> get_page_phy_addr parent addr_lin s;
     (s, _) \<leftarrow> lin_mapping_phy addr_lin f child user_rw user_ro s;
     Some s
   }"

definition copy_page :: "u32 \<Rightarrow> u32 \<Rightarrow> u32 \<Rightarrow> 'a kmem_scheme \<Rightarrow> 'a kmem_scheme option" where
  "copy_page parent child addr_lin s = do {
     (s, _) \<leftarrow> lin_mapping_phy SharePageBase 0 parent user_rw 0 s;
     (s, _) \<leftarrow> lin_mapping_phy SharePageBase MAX_UNSIGNED_INT parent user_rw user_rw s;
     s \<leftarrow> memcpy_page SharePageBase (addr_lin AND 0xFFFFF000) s;
     f \<leftarrow> get_page_phy_addr parent SharePageBase s;
     (s, _) \<leftarrow> lin_mapping_phy addr_lin f child user_rw user_rw s;
     Some s
   }"

partial_function (option) pages_up ::
  "(u32 \<Rightarrow> 'a kmem_scheme \<Rightarrow> 'a kmem_scheme option) \<Rightarrow> u32 \<Rightarrow> u32 \<Rightarrow> 'a kmem_scheme \<Rightarrow> 'a kmem_scheme option" where
  "pages_up body addr_lin limit_addr s =
     (if addr_lin < limit_addr then do {
        s \<leftarrow> body addr_lin s;
        pages_up body (addr_lin + num_4K) limit_addr s
      } else Some s)"

partial_function (option) pages_down ::
  "(u32 \<Rightarrow> 'a kmem_scheme \<Rightarrow> 'a kmem_scheme option) \<Rightarrow> u32 \<Rightarrow> u32 \<Rightarrow> 'a kmem_scheme \<Rightarrow> 'a kmem_scheme option" where
  "pages_down body addr_lin limit_addr s =
     (if addr_lin > limit_addr then do {
        s \<leftarrow> body addr_lin s;
        pages_down body (addr_lin - num_4K) limit_addr s
      } else Some s)"

declare pages_up.simps [code] pages_down.simps [code]

definition fork_mem_cpy :: "u32 \<Rightarrow> u32 \<Rightarrow> 'a kmem_scheme \<Rightarrow> 'a kmem_scheme option" where
  "fork_mem_cpy parent child s =
     (let m = memmap (proc_cur s) in do {
        s \<leftarrow> pages_up (share_page parent child) (text_lin_base m) (text_lin_limit m) s;
        s \<leftarrow> pages_up (copy_page parent child) (data_lin_base m) (data_lin_limit m) s;
        s \<leftarrow> pages_up (copy_page parent child) (vpage_lin_base m) (vpage_lin_limit m) s;
        s \<leftarrow> pages_up (copy_page parent child) (heap_lin_base m) (heap_lin_limit m) s;
        s \<leftarrow> pages_down (copy_page parent child) (stack_lin_base m) (stack_lin_limit m) s;
        pages_up (copy_page parent child) (arg_lin_base m) (arg_lin_limit m) s
      })"

text \<open>A number is appended to one of the two arrays of children; outside the array it would
  overwrite what follows.\<close>

definition add_child_process :: "u32 \<Rightarrow> PROCESS \<Rightarrow> PROCESS option" where
  "add_child_process c p =
     (let n = child_p_num (info p) + 1 in
      if 1 \<le> n \<and> n \<le> int NR_CHILD_MAX
      then Some (p\<lparr>info := (info p)\<lparr>child_p_num := n,
             child_process := (child_process (info p))(nat (n - 1) := sint c)\<rparr>\<rparr>)
      else None)"

definition add_child_thread :: "u32 \<Rightarrow> PROCESS \<Rightarrow> PROCESS option" where
  "add_child_thread c p =
     (let n = child_t_num (info p) + 1 in
      if 1 \<le> n \<and> n \<le> int NR_CHILD_MAX
      then Some (p\<lparr>info := (info p)\<lparr>child_t_num := n,
             child_thread := (child_thread (info p))(nat (n - 1) := sint c)\<rparr>\<rparr>)
      else None)"

definition fork_update_info :: "nat \<Rightarrow> 'a kproc_scheme \<Rightarrow> 'a kproc_scheme option" where
  "fork_update_info c s = do {
     par \<leftarrow> add_child_process (pid (proc_table s c)) (proc_cur s);
     let s = upd_proc (p_proc_current s) (\<lambda>_. par) s;
     let par = proc_cur s;
     Some (upd_proc c (\<lambda>t. t\<lparr>info := (info t)\<lparr>p_type := p_type (info par), real_ppid := sint (pid par),
       ppid := sint (pid par), child_p_num := 0, child_t_num := 0, text_hold := 0, data_hold := 1\<rparr>\<rparr>) s)
   }"

definition sys_fork :: "'a kmem_scheme \<Rightarrow> ('a kmem_scheme \<times> u32) option" where
  "sys_fork s =
     (case alloc_PCB s of
        None \<Rightarrow> Some (s, - 1)
      | Some c \<Rightarrow> do {
          (s, _) \<leftarrow> init_page_pte (pid (proc_table s c)) s;
          let s = fork_pcb_cpy c s;
          s \<leftarrow> fork_mem_cpy (pid (proc_cur s)) (pid (proc_table s c)) s;
          s \<leftarrow> fork_update_info c s;
          let s = upd_proc c (set_reg EAXREG 0 \<circ> set_name name_fork) s;
          let s = s\<lparr>u_proc_sum := u_proc_sum s + 1\<rparr>;
          let s = upd_proc c (stat_update (\<lambda>_. READY)) s;
          Some (s, pid (proc_table s c))
        })"

subsection \<open>Threads\<close>

definition pthread_pcb_cpy :: "nat \<Rightarrow> nat \<Rightarrow> 'a kproc_scheme \<Rightarrow> 'a kproc_scheme" where
  "pthread_pcb_cpy c p s =
     (let child = proc_table s c; par = proc_table s p;
          eflags = kstack child (frame_base + EFLAGSREG);
          t = par\<lparr>kstack := kstack child\<rparr>;
          t = t\<lparr>stat := IDLE, esp_save_int := esp_save_int child, esp_save_context := esp_save_context child\<rparr>;
          t = copy_frame (kstack par) t;
          t = t\<lparr>pid := pid child\<rparr>;
          t = set_kreg EFLAGSREG eflags t
      in upd_proc c (\<lambda>_. t\<lparr>ldt_sel := ldt_sel child\<rparr>) s)"

definition map_stack_page :: "u32 \<Rightarrow> u32 \<Rightarrow> 'a kmem_scheme \<Rightarrow> 'a kmem_scheme option" where
  "map_stack_page p addr_lin s = do {
     (s, _) \<leftarrow> lin_mapping_phy addr_lin MAX_UNSIGNED_INT p user_rw user_rw s;
     Some s
   }"

text \<open>The limits of the new stack: sixteen kilobytes above the last one in the parent's stack area.\<close>

definition pthread_stack_limits :: "nat \<Rightarrow> nat \<Rightarrow> 'a kproc_scheme \<Rightarrow> 'a kproc_scheme" where
  "pthread_stack_limits c p s =
     (let lim = stack_child_limit (memmap (proc_table s p));
          s = upd_proc c (\<lambda>t. t\<lparr>memmap := (memmap t)\<lparr>stack_lin_limit := lim\<rparr>\<rparr>) s;
          s = upd_proc p (\<lambda>t. t\<lparr>memmap := (memmap t)\<lparr>stack_child_limit := stack_child_limit (memmap t) + 0x4000\<rparr>\<rparr>) s;
          top = stack_child_limit (memmap (proc_table s p)) - 4
      in upd_proc c (\<lambda>t. t\<lparr>memmap := (memmap t)\<lparr>stack_lin_base := top\<rparr>\<rparr>) s)"

definition pthread_stack_init :: "nat \<Rightarrow> nat \<Rightarrow> 'a kmem_scheme \<Rightarrow> 'a kmem_scheme option" where
  "pthread_stack_init c p s =
     (let s = pthread_stack_limits c p s in do {
        s \<leftarrow> pages_down (map_stack_page (pid (proc_table s c))) (stack_lin_base (memmap (proc_table s c)))
               (stack_lin_limit (memmap (proc_table s c))) s;
        Some (upd_proc c (\<lambda>t. set_reg ESPREG (stack_lin_base (memmap t)) t) s)
      })"

definition pthread_heap_init :: "nat \<Rightarrow> nat \<Rightarrow> 'a kproc_scheme \<Rightarrow> 'a kproc_scheme" where
  "pthread_heap_init c p s =
     upd_proc c (\<lambda>t. t\<lparr>memmap := (memmap t)\<lparr>heap_lin_base := addr_heap_base p s,
       heap_lin_limit := addr_heap_limit p s\<rparr>\<rparr>) s"

text \<open>A thread is entered with its process and with the thread that made it.\<close>

definition pthread_info_process :: "nat \<Rightarrow> nat \<Rightarrow> 'a kproc_scheme \<Rightarrow> 'a kproc_scheme option" where
  "pthread_info_process c p s =
     (if p \<noteq> p_proc_current s then do {
        par \<leftarrow> add_child_thread (pid (proc_table s c)) (proc_table s p);
        Some (upd_proc p (\<lambda>_. par) s)
      } else Some s)"

definition pthread_info_thread :: "nat \<Rightarrow> nat \<Rightarrow> 'a kproc_scheme \<Rightarrow> 'a kproc_scheme option" where
  "pthread_info_thread c p s = do {
     cur \<leftarrow> add_child_thread (pid (proc_table s c)) (proc_cur s);
     let s = upd_proc (p_proc_current s) (\<lambda>_. cur) s;
     Some (upd_proc c (\<lambda>t. t\<lparr>info := (info t)\<lparr>p_type := TYPE_THREAD, real_ppid := sint (pid (proc_cur s)),
       ppid := sint (pid (proc_table s p)), child_p_num := 0, child_t_num := 0, text_hold := 0, data_hold := 0\<rparr>\<rparr>) s)
   }"

definition pthread_update_info :: "nat \<Rightarrow> nat \<Rightarrow> 'a kproc_scheme \<Rightarrow> 'a kproc_scheme option" where
  "pthread_update_info c p s = do { s \<leftarrow> pthread_info_process c p s; pthread_info_thread c p s }"

text \<open>The parent of a new thread: the process itself, or the process of the thread.\<close>

definition thread_parent :: "'a kproc_scheme \<Rightarrow> nat option" where
  "thread_parent s =
     (if p_type (info (proc_cur s)) = TYPE_THREAD then
        let q = ppid (info (proc_cur s)) in
        if 0 \<le> q \<and> q < int NR_PCBS then Some (nat q) else None
      else Some (p_proc_current s))"

definition sys_pthread :: "u32 \<Rightarrow> 'a kmem_scheme \<Rightarrow> ('a kmem_scheme \<times> u32) option" where
  "sys_pthread start s =
     (case alloc_PCB s of
        None \<Rightarrow> Some (s, - 1)
      | Some c \<Rightarrow> do {
          p \<leftarrow> thread_parent s;
          let s = pthread_pcb_cpy c p s;
          s \<leftarrow> pthread_stack_init c p s;
          let s = pthread_heap_init c p s;
          let s = upd_proc c (set_reg EIPREG start) s;
          s \<leftarrow> pthread_update_info c p s;
          let s = upd_proc c (set_reg EAXREG 0 \<circ> set_name name_pthread) s;
          let s = s\<lparr>u_proc_sum := u_proc_sum s + 1\<rparr>;
          let s = upd_proc c (stat_update (\<lambda>_. READY)) s;
          Some (s, pid (proc_table s c))
        })"

end
