(* ===== verification/ForkLaws.thy ===== *)
theory ForkLaws
  imports Fork
begin

text \<open>
  What \<^verbatim>\<open>sys_fork\<close> does to memory: the child gets an address space of its own, in which the code pages are those of
  the parent and every other page is a copy on a page that was free.
\<close>

subsection \<open>Memory outside of the tables\<close>

lemma entry_cong: "(\<And>k. k \<in> page_bytes t \<Longrightarrow> m' k = m k) \<Longrightarrow> index_ok i \<Longrightarrow> entry m' t i = entry m t i"
  unfolding entry_def by (rule load32_cong) (auto simp: page_bytes_def index_ok_def)

lemma phys_outside:
  assumes same: "\<And>k. k \<in> table_bytes m D \<Longrightarrow> m' k = m k"
  shows "d \<in> D \<Longrightarrow> index_ok i \<Longrightarrow> entry m' d i = entry m d i"
    "d \<in> D \<Longrightarrow> mmu m' d a = mmu m d a" "paging_ok m D av \<Longrightarrow> paging_ok m' D av"
    "table_bytes m' D = table_bytes m D"
proof -
  have dir: "entry m' d i = entry m d i" if "d \<in> D" "index_ok i" for d i
    by (rule entry_cong[OF _ that(2)], rule same) (use that in \<open>auto simp: table_bytes_def\<close>)
  then show "d \<in> D \<Longrightarrow> index_ok i \<Longrightarrow> entry m' d i = entry m d i" .
  show "table_bytes m' D = table_bytes m D" unfolding table_bytes_def by (auto simp: dir)
  have tab: "entry m' (frame (entry m d i)) j = entry m (frame (entry m d i)) j"
    if "d \<in> D" "index_ok i" "index_ok j" "present (entry m d i)" for d i j
    by (rule entry_cong[OF _ that(3)], rule same) (use that in \<open>auto simp: table_bytes_def\<close>)
  show "d \<in> D \<Longrightarrow> mmu m' d a = mmu m d a"
    by (cases "present (entry m d (get_pde_index a))") (auto simp: mmu_def Let_def dir tab)
  show "paging_ok m' D av" if "paging_ok m D av"
  proof (rule paging_okI)
    show "e \<in> D \<Longrightarrow> table_page e" "e \<in> D \<Longrightarrow> page_bytes e \<inter> av = {}" for e
      using paging_dir[OF that] by blast+
    show "table_page (frame (entry m' e k)) \<and> frame (entry m' e k) \<notin> D \<and>
        page_bytes (frame (entry m' e k)) \<inter> av = {}"
      if "e \<in> D" "index_ok k" "present (entry m' e k)" for e k
      using paging_table[OF \<open>paging_ok m D av\<close> that(1,2)] that by (simp add: dir)
    show "e = f \<and> k = l" if "e \<in> D" "f \<in> D" "index_ok k" "index_ok l" "present (entry m' e k)"
      "present (entry m' f l)" "frame (entry m' e k) = frame (entry m' f l)" for e f k l
      using paging_distinct[OF \<open>paging_ok m D av\<close> that(1-4)] that by (simp add: dir)
  qed
qed

text \<open>Pages of the users' pool are no tables.\<close>

lemma table_bytes_below:
  assumes "paging_ok m D av" "k \<in> table_bytes m D" shows "k < unat KWALL"
proof -
  have t: "k < unat KWALL" if "table_page t" "k \<in> page_bytes t" for t
    using that by (auto simp: table_page_def page_bytes_def)
  from assms(2) consider d where "d \<in> D" "k \<in> page_bytes d"
    | d i where "d \<in> D" "index_ok i" "present (entry m d i)" "k \<in> page_bytes (frame (entry m d i))"
    unfolding table_bytes_def by blast
  then show ?thesis using t paging_dir(1)[OF assms(1)] paging_table(1)[OF assms(1)] by cases blast+
qed

definition user_page :: "u32 \<Rightarrow> bool" where
  "user_page f \<longleftrightarrow> frame f = f \<and> unat UWALL \<le> unat f \<and> unat f + 4096 < unat MEMEND"

lemma user_page_no_table:
  "paging_ok m D av \<Longrightarrow> user_page f \<Longrightarrow> k \<in> page_bytes f \<Longrightarrow> k \<notin> table_bytes m D"
  using table_bytes_below[of m D av k] by (auto simp: user_page_def page_bytes_def UWALL_def KWALL_def)

subsection \<open>The loops over pages\<close>

fun run_pages :: "(u32 \<Rightarrow> 'a kmem_scheme \<Rightarrow> 'a kmem_scheme option) \<Rightarrow> u32 list \<Rightarrow> 'a kmem_scheme \<Rightarrow> 'a kmem_scheme option" where
  "run_pages body [] s = Some s"
| "run_pages body (a # as) s = do { s \<leftarrow> body a s; run_pages body as s }"

lemma run_pages_append:
  "run_pages body (as @ bs) s = do { s \<leftarrow> run_pages body as s; run_pages body bs s }"
  by (induction as arbitrary: s) (auto split: bind_splits)

definition up_list :: "u32 \<Rightarrow> u32 \<Rightarrow> u32 list" where
  "up_list a lim = map (\<lambda>k. a + num_4K * of_nat k) [0..<(unat lim - unat a + 4095) div 4096]"

definition down_list :: "u32 \<Rightarrow> u32 \<Rightarrow> u32 list" where
  "down_list a lim = map (\<lambda>k. a - num_4K * of_nat k) [0..<(unat a - unat lim + 4095) div 4096]"

lemma up_list_step:
  assumes "unat lim \<le> 2 ^ 32 - 4096"
  shows "up_list a lim = (if a < lim then a # up_list (a + num_4K) lim else [])"
proof (cases "a < lim")
  case True
  then have lt: "unat a < unat lim" by (simp add: word_less_nat_alt)
  then have u: "unat (a + num_4K) = unat a + 4096"
    using assms unat_plus_no_wrap[of a num_4K] by (simp add: num_4K_def)
  obtain n where n: "(unat lim - unat a + 4095) div 4096 = Suc n" "(unat lim - unat (a + num_4K) + 4095) div 4096 = n"
  proof (cases "unat lim \<le> unat a + 4096")
    case True
    then have "(unat lim - unat a + 4095) div 4096 = 1" using lt by (intro div_nat_eqI) auto
    then show thesis using that[of 0] True u by simp
  next
    case False
    then have "unat lim - unat a + 4095 = (unat lim - unat (a + num_4K) + 4095) + 4096" using u by simp
    have "(unat lim - unat a + 4095) div 4096 = Suc ((unat lim - unat (a + num_4K) + 4095) div 4096)"
      unfolding \<open>unat lim - unat a + 4095 = _\<close> by simp
    then show thesis using that by blast
  qed
  have "up_list a lim = a # map (\<lambda>k. a + num_4K * of_nat (Suc k)) [0..<n]"
    unfolding up_list_def n(1) by (simp add: upt_conv_Cons map_Suc_upt[symmetric] comp_def del: upt_Suc of_nat_Suc)
  moreover have "a + num_4K * of_nat (Suc k) = (a + num_4K) + num_4K * of_nat k" for k
    by (simp add: algebra_simps)
  ultimately show ?thesis using True n(2) by (simp add: up_list_def)
qed (simp add: up_list_def word_less_nat_alt not_less)

lemma pages_up_run:
  assumes "unat lim \<le> 2 ^ 32 - 4096"
  shows "pages_up body a lim s = run_pages body (up_list a lim) s"
proof (induction "unat lim - unat a" arbitrary: a s rule: less_induct)
  case less
  show ?case
  proof (cases "a < lim")
    case True
    then have "unat (a + num_4K) = unat a + 4096"
      using assms unat_plus_no_wrap[of a num_4K] by (simp add: num_4K_def word_less_nat_alt)
    then have "unat lim - unat (a + num_4K) < unat lim - unat a" using True by (simp add: word_less_nat_alt)
    from less[OF this] show ?thesis
      using True by (subst pages_up.simps) (simp add: up_list_step[OF assms] cong: Option.bind_cong)
  next
    case False
    then show ?thesis by (subst pages_up.simps) (simp add: up_list_step[OF assms])
  qed
qed

lemma down_list_step:
  assumes "4096 \<le> unat lim"
  shows "down_list a lim = (if a > lim then a # down_list (a - num_4K) lim else [])"
proof (cases "lim < a")
  case True
  then have lt: "unat lim < unat a" by (simp add: word_less_nat_alt)
  then have u: "unat (a - num_4K) = unat a - 4096"
    using assms unat_minus_no_wrap[of num_4K a] by (simp add: num_4K_def)
  obtain n where n: "(unat a - unat lim + 4095) div 4096 = Suc n" "(unat (a - num_4K) - unat lim + 4095) div 4096 = n"
  proof (cases "unat a \<le> unat lim + 4096")
    case True
    then have "(unat a - unat lim + 4095) div 4096 = 1" using lt by (intro div_nat_eqI) auto
    then show thesis using that[of 0] True u by simp
  next
    case False
    then have "unat a - unat lim + 4095 = (unat (a - num_4K) - unat lim + 4095) + 4096" using u by simp
    have "(unat a - unat lim + 4095) div 4096 = Suc ((unat (a - num_4K) - unat lim + 4095) div 4096)"
      unfolding \<open>unat a - unat lim + 4095 = _\<close> by simp
    then show thesis using that by blast
  qed
  have "down_list a lim = a # map (\<lambda>k. a - num_4K * of_nat (Suc k)) [0..<n]"
    unfolding down_list_def n(1) by (simp add: upt_conv_Cons map_Suc_upt[symmetric] comp_def del: upt_Suc of_nat_Suc)
  moreover have "a - num_4K * of_nat (Suc k) = (a - num_4K) - num_4K * of_nat k" for k
    by (simp add: algebra_simps)
  ultimately show ?thesis using True n(2) by (simp add: down_list_def)
qed (simp add: down_list_def word_less_nat_alt not_less)

lemma pages_down_run:
  assumes "4096 \<le> unat lim"
  shows "pages_down body a lim s = run_pages body (down_list a lim) s"
proof (induction "unat a - unat lim" arbitrary: a s rule: less_induct)
  case less
  show ?case
  proof (cases "lim < a")
    case True
    then have "unat (a - num_4K) = unat a - 4096"
      using assms unat_minus_no_wrap[of num_4K a] by (simp add: num_4K_def word_less_nat_alt)
    then have "unat (a - num_4K) - unat lim < unat a - unat lim" using True by (simp add: word_less_nat_alt)
    from less[OF this] show ?thesis
      using True by (subst pages_down.simps) (simp add: down_list_step[OF assms] cong: Option.bind_cong)
  next
    case False
    then show ?thesis by (subst pages_down.simps) (simp add: down_list_step[OF assms])
  qed
qed

text \<open>The pages \<^verbatim>\<open>fork_mem_cpy\<close> comes to: the code, and everything else in the order of its loops.\<close>

definition text_pages :: "LIN_MEMMAP \<Rightarrow> u32 list" where
  "text_pages m = up_list (text_lin_base m) (text_lin_limit m)"

definition data_pages :: "LIN_MEMMAP \<Rightarrow> u32 list" where
  "data_pages m = up_list (data_lin_base m) (data_lin_limit m) @ up_list (vpage_lin_base m) (vpage_lin_limit m) @
     up_list (heap_lin_base m) (heap_lin_limit m) @ down_list (stack_lin_base m) (stack_lin_limit m) @
     up_list (arg_lin_base m) (arg_lin_limit m)"

definition memmap_ok :: "LIN_MEMMAP \<Rightarrow> bool" where
  "memmap_ok m \<longleftrightarrow>
     list_all (\<lambda>lim. lim \<le> KernelLinBase) [text_lin_limit m, data_lin_limit m, vpage_lin_limit m, heap_lin_limit m,
       arg_lin_limit m] \<and> stack_lin_base m < KernelLinBase \<and> num_4K \<le> stack_lin_limit m"

lemma fork_mem_cpy_run:
  assumes "memmap_ok (memmap (proc_cur s))"
  shows "fork_mem_cpy parent child s = do {
     s' \<leftarrow> run_pages (share_page parent child) (text_pages (memmap (proc_cur s))) s;
     run_pages (copy_page parent child) (data_pages (memmap (proc_cur s))) s' }"
proof -
  have up: "pages_up body a lim = run_pages body (up_list a lim)" if "lim \<le> KernelLinBase"
    for body :: "u32 \<Rightarrow> 'a kmem_scheme \<Rightarrow> 'a kmem_scheme option" and a lim
    by (rule ext, rule pages_up_run) (use that in \<open>simp add: KernelLinBase_def word_le_nat_alt\<close>)
  have dn: "pages_down body a lim = run_pages body (down_list a lim)" if "num_4K \<le> lim"
    for body :: "u32 \<Rightarrow> 'a kmem_scheme \<Rightarrow> 'a kmem_scheme option" and a lim
    by (rule ext, rule pages_down_run) (use that in \<open>simp add: num_4K_def word_le_nat_alt\<close>)
  show ?thesis
    using assms by (simp add: fork_mem_cpy_def Let_def memmap_ok_def up dn text_pages_def data_pages_def run_pages_append)
qed

subsection \<open>One page\<close>

lemma get_page_of_mmu:
  assumes "mem_inv D s" "get_pde_phy_addr p s = Some d" "d \<in> D" "mmu (phys s) d a = Some x"
  shows "get_page_phy_addr p a s = Some (frame x)"
proof -
  have ok: "paging_ok (phys s) D (avail (mman s))" using assms(1) by (simp add: mem_inv_def)
  let ?e = "entry (phys s) d (get_pde_index a)"
  have e: "present ?e" "frame (entry (phys s) (frame ?e) (get_pte_index a)) = frame x"
    using assms(4) by (auto simp: mmu_def Let_def split: if_splits)
  have td: "table_page d" using paging_dir(1)[OF ok assms(3)] .
  have tt: "table_page (frame ?e)" using paging_table(1)[OF ok assms(3) index_ok_get(1) e(1)] .
  have "get_pte_phy_addr p a s = Some (frame ?e)"
    using assms(2) by (simp add: get_pte_phy_addr_def kload32_entry[OF td] frame_def)
  then show ?thesis using e(2) by (simp add: get_page_phy_addr_def kload32_entry[OF tt] frame_def[symmetric])
qed

text \<open>Two states that differ in memory only.\<close>

definition only_memory :: "'a kmem_scheme \<Rightarrow> 'a kmem_scheme \<Rightarrow> bool" where
  "only_memory s s' \<longleftrightarrow> (\<exists>m g. s' = s\<lparr>phys := m, mman := g\<rparr>)"

lemma only_memory_refl [simp]: "only_memory s s"
  unfolding only_memory_def by (metis kmem.surjective kmem.update_convs(1,2))

lemma only_memory_trans: "only_memory s t \<Longrightarrow> only_memory t u \<Longrightarrow> only_memory s u"
  by (auto simp: only_memory_def) blast

lemma only_memory_upd: "only_memory s (s\<lparr>phys := m\<rparr>)"
  unfolding only_memory_def by (metis kmem.surjective kmem.update_convs(1,2))

lemma only_memory_tables: "tables_changed D s s' \<Longrightarrow> only_memory s s'"
  by (simp add: tables_changed_def only_memory_def)

lemma only_memoryD:
  assumes "only_memory s s'"
  shows "proc_table s' = proc_table s" "p_proc_current s' = p_proc_current s" "cur_dir s' = cur_dir s"
    "get_pde_phy_addr p s' = get_pde_phy_addr p s" "u_proc_sum s' = u_proc_sum s"
    "kernel_initial s' = kernel_initial s" "g_ticks s' = g_ticks s" "p_proc_next s' = p_proc_next s"
    "addr_table s' = addr_table s" "addr_ticks s' = addr_ticks s"
  using assms by (auto simp: only_memory_def cur_dir_def get_pde_phy_addr_def)

lemma user_attrs: "present user_rw" "frame user_rw = 0" "present user_ro" "frame user_ro = 0"
  "\<not> present 0" "frame 0 = 0"
  by (simp_all add: user_rw_def user_ro_def present_def frame_def PG_P_def PG_USU_def PG_RWW_def PG_RWR_def)

lemma share_facts: "frame SharePageBase = SharePageBase" "\<not> SharePageBase \<ge> K_PHY2LIN 0" "SharePageBase AND 0xFFF = 0"
  by (simp_all add: SharePageBase_def frame_def K_PHY2LIN_def)

lemma user_page_facts: "user_page f \<Longrightarrow> f \<noteq> MAX_UNSIGNED_INT \<and> f AND 0x3FF = 0 \<and> frame f = f"
  using frame_low_bits by (auto simp: user_page_def MEMEND_def)

lemma share_page_effect:
  fixes s s' :: "'a kmem_scheme"
  assumes inv: "mem_inv D s" and par: "get_pde_phy_addr pp s = Some d" "d \<in> D"
    and chd: "get_pde_phy_addr cp s = Some dc" "dc \<in> D"
    and x: "mmu (phys s) d a = Some x" "frame x \<noteq> MAX_UNSIGNED_INT"
    and r: "share_page pp cp a s = Some s'"
  shows "mem_inv D s'" "tables_changed D s s'" "mmu (phys s') dc a = Some (frame x OR (a AND 0xFFF))"
    "\<And>e b. e \<in> D \<Longrightarrow> e \<noteq> dc \<or> frame b \<noteq> frame a \<Longrightarrow> mmu (phys s') e b = mmu (phys s) e b"
proof -
  obtain r' where l: "lin_mapping_phy a (frame x) cp user_rw user_ro s = Some (s', r')"
    using r get_page_of_mmu[OF inv par x(1)] by (auto simp: share_page_def split: bind_splits)
  note sp = lin_mapping_spec[OF inv chd user_attrs(1,2,4) l]
  show "mem_inv D s'" "tables_changed D s s'"
    "\<And>e b. e \<in> D \<Longrightarrow> e \<noteq> dc \<or> frame b \<noteq> frame a \<Longrightarrow> mmu (phys s') e b = mmu (phys s) e b"
    using sp by blast+
  show "mmu (phys s') dc a = Some (frame x OR (a AND 0xFFF))"
    using sp(3) x(2) frame_low_bits[of "frame x"] user_attrs(3) by (simp add: maps_to_def)
qed

lemma copy_page_effect:
  fixes s s' :: "'a kmem_scheme"
  assumes inv: "mem_inv D s" and par: "get_pde_phy_addr pp s = Some d" "d \<in> D" "cur_dir s = d"
    and chd: "get_pde_phy_addr cp s = Some dc" "dc \<in> D" "dc \<noteq> d"
    and x: "mmu (phys s) d a = Some x" "user_page (frame x)" and a: "frame a \<noteq> frame SharePageBase"
    and r: "copy_page pp cp a s = Some s'"
  obtains f where "user_page f" "page_bytes f \<subseteq> avail (mman s)" "page_bytes f \<inter> avail (mman s') = {}"
    "mem_inv D s'" "only_memory s s'" "avail (mman s') \<subseteq> avail (mman s)"
    "mmu (phys s') dc a = Some (f OR (a AND 0xFFF))" "mmu (phys s') d SharePageBase = Some f"
    "load_list (phys s') (unat f) 4096 = load_list (phys s) (unat (frame x)) 4096"
    "\<And>e b. e \<in> D \<Longrightarrow> e \<noteq> d \<or> frame b \<noteq> frame SharePageBase \<Longrightarrow> e \<noteq> dc \<or> frame b \<noteq> frame a \<Longrightarrow>
       mmu (phys s') e b = mmu (phys s) e b"
    "\<And>k. k \<notin> table_bytes (phys s') D \<Longrightarrow> k \<notin> page_bytes f \<Longrightarrow> phys s' k = phys s k"
    "table_bytes (phys s) D \<subseteq> table_bytes (phys s') D"
    "table_bytes (phys s') D \<subseteq> table_bytes (phys s) D \<union> avail (mman s)"
proof -
  have clean: "frame b = b \<Longrightarrow> b OR (c AND 0) = b" for b c :: u32 by simp
  obtain s1 r1 where l1: "lin_mapping_phy SharePageBase 0 pp user_rw 0 s = Some (s1, r1)"
    using r by (auto simp: copy_page_def split: bind_splits)
  note sp1 = lin_mapping_spec[OF inv par(1,2) user_attrs(1,2,6) l1]
  note tc1 = tables_changedD[OF sp1(2)]
  have n1: "mmu (phys s1) d SharePageBase = None"
    using sp1(3) user_attrs(5) by (simp add: maps_to_def MAX_UNSIGNED_INT_def)
  have par1: "get_pde_phy_addr pp s1 = Some d" using tc1(8) par(1) by simp
  obtain s2 r2 where l2: "lin_mapping_phy SharePageBase MAX_UNSIGNED_INT pp user_rw user_rw s1 = Some (s2, r2)"
    using r l1 by (auto simp: copy_page_def split: bind_splits)
  note sp2 = lin_mapping_spec[OF sp1(1) par1 par(2) user_attrs(1,2,2) l2]
  note tc2 = tables_changedD[OF sp2(2)]
  have cd2: "cur_dir s2 = d" using par(3) tc1 tc2 by (simp add: cur_dir_def)
  obtain s3 where c3: "memcpy_page SharePageBase (a AND 0xFFFFF000) s2 = Some s3"
    using r l1 l2 by (auto simp: copy_page_def split: bind_splits)
  then have "mmu (phys s2) d SharePageBase \<noteq> None" by (auto simp: memcpy_page_def cd2 split: bind_splits)
  then obtain f where f: "mmu (phys s2) d SharePageBase = Some f" "frame f = f"
    "page_bytes f \<subseteq> avail (mman s1)" "page_bytes f \<inter> avail (mman s2) = {}" "user_page f"
    using sp2(3) n1 user_attrs(1) share_facts by (auto simp: maps_to_def user_page_def)
  have src: "mmu (phys s2) d (frame a) = Some (frame x)"
  proof -
    have "mmu (phys s2) d a = Some x"
      using sp2(4)[OF par(2), of a] sp1(4)[OF par(2), of a] a x(1) by simp
    then show ?thesis using mmu_same_page[of "frame a" a "phys s2" d]
      by (simp add: frame_def and.assoc)
  qed
  define g where "g = frame x"
  have s3: "s3 = s2\<lparr>phys := store_list (phys s2) (unat f) (load_list (phys s2) (unat g) 4096)\<rparr>"
    using c3 src by (simp add: memcpy_page_def cd2 f(1) frame_def[symmetric] g_def)
  have ok2: "paging_ok (phys s2) D (avail (mman s2))" using sp2(1) by (simp add: mem_inv_def)
  have out3: "phys s3 k = phys s2 k" if "k \<notin> page_bytes f" for k
    unfolding s3 using that by (auto simp: page_bytes_def intro: store_list_out)
  have tab3: "phys s3 k = phys s2 k" if "k \<in> table_bytes (phys s2) D" for k
    using out3 user_page_no_table[OF ok2 f(5)] that by blast
  have po2: "mmu (phys s3) e b = mmu (phys s2) e b" if "e \<in> D" for e b
    using phys_outside(2)[of "phys s2" D "phys s3" e b] tab3 that by blast
  have po3: "paging_ok (phys s3) D av" if "paging_ok (phys s2) D av" for av
    using phys_outside(3)[of "phys s2" D "phys s3" av] tab3 that by blast
  have po4: "table_bytes (phys s3) D = table_bytes (phys s2) D"
    using phys_outside(4)[of "phys s2" D "phys s3"] tab3 by blast
  have inv3: "mem_inv D s3" using sp2(1) po3 by (simp add: mem_inv_def s3)
  have fields3: "get_pde_phy_addr p s3 = get_pde_phy_addr p s2" for p by (simp add: s3 get_pde_phy_addr_def)
  have sh3: "mmu (phys s3) d SharePageBase = Some f" using po2[OF par(2)] f(1) by simp
  have pg: "get_page_phy_addr pp SharePageBase s3 = Some f"
    using get_page_of_mmu[OF inv3 _ par(2) sh3] par1 tc2(8) f(2) by (simp add: fields3)
  obtain r4 where l4: "lin_mapping_phy a f cp user_rw user_rw s3 = Some (s', r4)"
    using r l1 l2 c3 pg by (auto simp: copy_page_def split: bind_splits)
  have chd3: "get_pde_phy_addr cp s3 = Some dc" using chd(1) tc1(8) tc2(8) by (simp add: fields3)
  note sp4 = lin_mapping_spec[OF inv3 chd3 chd(2) user_attrs(1,2,2) l4]
  note tc4 = tables_changedD[OF sp4(2)]
  have ok4: "paging_ok (phys s') D (avail (mman s'))" using sp4(1) by (simp add: mem_inv_def)
  show thesis
  proof (rule that[of f])
    show "user_page f" by (rule f(5))
    show "page_bytes f \<subseteq> avail (mman s)" using f(3) tc1(9) by blast
    show "page_bytes f \<inter> avail (mman s') = {}" using f(4) tc4(9) by (auto simp: s3)
    show "mem_inv D s'" by (rule sp4(1))
    show "only_memory s s'"
    proof -
      have "only_memory s2 s3" unfolding s3 by (rule only_memory_upd)
      then have "only_memory s2 s'" using only_memory_tables[OF sp4(2)] by (rule only_memory_trans)
      with only_memory_trans[OF only_memory_tables[OF sp1(2)] only_memory_tables[OF sp2(2)]]
      show ?thesis by (rule only_memory_trans)
    qed
    show "avail (mman s') \<subseteq> avail (mman s)" using tc1(9) tc2(9) tc4(9) by (auto simp: s3)
    show "mmu (phys s') dc a = Some (f OR (a AND 0xFFF))"
      using sp4(3) user_page_facts[OF f(5)] user_attrs(1) by (simp add: maps_to_def)
    show "mmu (phys s') d SharePageBase = Some f" using sp4(4)[OF par(2), of SharePageBase] chd(3) sh3 by simp
    show tb: "table_bytes (phys s) D \<subseteq> table_bytes (phys s') D"
      by (rule subset_trans[OF tc1(11) subset_trans[OF tc2(11)]]) (use tc4(11) po4 in simp)
    show "table_bytes (phys s') D \<subseteq> table_bytes (phys s) D \<union> avail (mman s)"
    proof
      fix k assume "k \<in> table_bytes (phys s') D"
      then have "k \<in> table_bytes (phys s2) D \<or> k \<in> avail (mman s3)" using tc4(12) unfolding po4 by blast
      then have "k \<in> table_bytes (phys s2) D \<or> k \<in> avail (mman s2)" by (simp add: s3)
      then have "k \<in> table_bytes (phys s1) D \<or> k \<in> avail (mman s1)" using tc2(9,12) by blast
      then show "k \<in> table_bytes (phys s) D \<union> avail (mman s)" using tc1(9,12) by blast
    qed
    show "mmu (phys s') e b = mmu (phys s) e b"
      if "e \<in> D" "e \<noteq> d \<or> frame b \<noteq> frame SharePageBase" "e \<noteq> dc \<or> frame b \<noteq> frame a" for e b
      using sp4(4)[OF that(1,3)] po2[OF that(1), of b] sp2(4)[OF that(1,2)] sp1(4)[OF that(1,2)] by simp
    have ph2: "phys s2 k = phys s k" if "k \<notin> table_bytes (phys s') D" for k
    proof -
      have k4: "k \<notin> table_bytes (phys s3) D" using that tc4(11) by blast
      then have k2: "k \<notin> table_bytes (phys s2) D" using po4 by simp
      then have "k \<notin> table_bytes (phys s1) D" using tc2(11) by blast
      then show ?thesis using tc1(10) tc2(10)[OF k2] by simp
    qed
    show "phys s' k = phys s k" if "k \<notin> table_bytes (phys s') D" "k \<notin> page_bytes f" for k
      using tc4(10)[OF that(1)] out3[OF that(2)] ph2[OF that(1)] by simp
    show "load_list (phys s') (unat f) 4096 = load_list (phys s) (unat (frame x)) 4096"
    proof (rule nth_equalityI)
      fix i assume "i < length (load_list (phys s') (unat f) 4096)"
      then have i: "i < 4096" by simp
      have "unat f + i \<in> page_bytes f" using i by (simp add: page_bytes_def)
      then have "phys s' (unat f + i) = phys s3 (unat f + i)"
        using tc4(10) user_page_no_table[OF ok4 f(5)] by blast
      also have "\<dots> = phys s2 (unat g + i)" unfolding s3 using i by (simp add: store_list_in)
      also have "\<dots> = phys s (unat g + i)"
        by (rule ph2, rule user_page_no_table[OF ok4 x(2)]) (use i in \<open>simp add: g_def page_bytes_def\<close>)
      finally show "load_list (phys s') (unat f) 4096 ! i = load_list (phys s) (unat (frame x)) 4096 ! i"
        using i by (simp add: g_def)
    qed simp
  qed
qed

subsection \<open>All pages\<close>

text \<open>The page of \<open>a\<close> is, in the address space \<open>dc\<close> after, a copy of what it was in \<open>d\<close> before, on a page that
  was free and is free no longer.\<close>

definition copied :: "u32 \<Rightarrow> u32 \<Rightarrow> 'a kmem_scheme \<Rightarrow> 'a kmem_scheme \<Rightarrow> u32 \<Rightarrow> bool" where
  "copied d dc s s' a \<longleftrightarrow> (\<exists>x f. mmu (phys s) d a = Some x \<and> mmu (phys s') dc a = Some (f OR (a AND 0xFFF)) \<and>
     user_page f \<and> page_bytes f \<subseteq> avail (mman s) \<and> page_bytes f \<inter> avail (mman s') = {} \<and>
     load_list (phys s') (unat f) 4096 = load_list (phys s) (unat (frame x)) 4096)"

text \<open>A page of the parent that can be copied: mapped to a page of the users' pool that is not free.\<close>

definition own_page :: "u32 \<Rightarrow> 'a kmem_scheme \<Rightarrow> u32 \<Rightarrow> bool" where
  "own_page d s a \<longleftrightarrow> (\<exists>x. mmu (phys s) d a = Some x \<and> user_page (frame x) \<and> page_bytes (frame x) \<inter> avail (mman s) = {})"

lemma load_list_same: "(\<And>k. a \<le> k \<Longrightarrow> k < a + n \<Longrightarrow> m' k = m k) \<Longrightarrow> load_list m' a n = load_list m a n"
  by (rule nth_equalityI) auto

lemma run_copy_pages:
  fixes s s' :: "'a kmem_scheme"
  assumes "mem_inv D s" "get_pde_phy_addr pp s = Some d" "d \<in> D" "cur_dir s = d"
    and "get_pde_phy_addr cp s = Some dc" "dc \<in> D" "dc \<noteq> d"
    and "\<And>a. a \<in> set as \<Longrightarrow> own_page d s a \<and> frame a \<noteq> frame SharePageBase" "distinct (map frame as)"
    and "run_pages (copy_page pp cp) as s = Some s'"
  shows "mem_inv D s' \<and> only_memory s s' \<and> avail (mman s') \<subseteq> avail (mman s) \<and>
    table_bytes (phys s) D \<subseteq> table_bytes (phys s') D \<and> table_bytes (phys s') D \<subseteq> table_bytes (phys s) D \<union> avail (mman s) \<and>
    (\<forall>a \<in> set as. copied d dc s s' a) \<and>
    (\<forall>e \<in> D. \<forall>b. (e \<noteq> d \<or> frame b \<noteq> frame SharePageBase) \<and> (e \<noteq> dc \<or> frame b \<notin> frame ` set as) \<longrightarrow>
       mmu (phys s') e b = mmu (phys s) e b) \<and>
    (\<forall>k. k \<notin> table_bytes (phys s') D \<and> k \<notin> avail (mman s) \<longrightarrow> phys s' k = phys s k)"
  using assms
proof (induction as arbitrary: s)
  case Nil
  then show ?case by simp
next
  case (Cons a as)
  obtain s1 where c: "copy_page pp cp a s = Some s1" and r: "run_pages (copy_page pp cp) as s1 = Some s'"
    using Cons.prems(10) by (auto split: bind_splits)
  obtain x where x: "mmu (phys s) d a = Some x" "user_page (frame x)" "page_bytes (frame x) \<inter> avail (mman s) = {}"
    using Cons.prems(8)[of a] by (auto simp: own_page_def)
  have sh: "frame a \<noteq> frame SharePageBase" using Cons.prems(8)[of a] by simp
  obtain f where f: "user_page f" "page_bytes f \<subseteq> avail (mman s)" "page_bytes f \<inter> avail (mman s1) = {}"
    and inv1: "mem_inv D s1" and om: "only_memory s s1" and av1: "avail (mman s1) \<subseteq> avail (mman s)"
    and fa: "mmu (phys s1) dc a = Some (f OR (a AND 0xFFF))" and "mmu (phys s1) d SharePageBase = Some f"
    and lf: "load_list (phys s1) (unat f) 4096 = load_list (phys s) (unat (frame x)) 4096"
    and mm: "\<And>e b. e \<in> D \<Longrightarrow> e \<noteq> d \<or> frame b \<noteq> frame SharePageBase \<Longrightarrow> e \<noteq> dc \<or> frame b \<noteq> frame a \<Longrightarrow>
       mmu (phys s1) e b = mmu (phys s) e b"
    and ph: "\<And>k. k \<notin> table_bytes (phys s1) D \<Longrightarrow> k \<notin> page_bytes f \<Longrightarrow> phys s1 k = phys s k"
    and tb: "table_bytes (phys s) D \<subseteq> table_bytes (phys s1) D"
    and nt: "table_bytes (phys s1) D \<subseteq> table_bytes (phys s) D \<union> avail (mman s)"
    by (rule copy_page_effect[OF Cons.prems(1-7) x(1,2) sh c]) (rule that)
  note o = only_memoryD[OF om]
  have ok1: "paging_ok (phys s1) D (avail (mman s1))" using inv1 by (simp add: mem_inv_def)
  have src: "load_list (phys s1) (unat (frame y)) 4096 = load_list (phys s) (unat (frame y)) 4096"
    if "user_page (frame y)" "page_bytes (frame y) \<inter> avail (mman s) = {}" for y
  proof (rule load_list_same)
    fix k assume "unat (frame y) \<le> k" "k < unat (frame y) + 4096"
    then have k: "k \<in> page_bytes (frame y)" by (simp add: page_bytes_def)
    then have "k \<notin> page_bytes f" using that(2) f(2) by blast
    then show "phys s1 k = phys s k" using ph user_page_no_table[OF ok1 that(1) k] by blast
  qed
  have own: "own_page d s1 b \<and> frame b \<noteq> frame SharePageBase" if b: "b \<in> set as" for b
  proof -
    obtain y where y: "mmu (phys s) d b = Some y" "user_page (frame y)" "page_bytes (frame y) \<inter> avail (mman s) = {}"
      and nb: "frame b \<noteq> frame SharePageBase"
      using Cons.prems(8)[of b] b by (auto simp: own_page_def)
    then have "mmu (phys s1) d b = Some y" using mm[of d b] Cons.prems(3,7) by simp
    then show ?thesis using y nb av1 by (auto simp: own_page_def)
  qed
  have ih: "mem_inv D s' \<and> only_memory s1 s' \<and> avail (mman s') \<subseteq> avail (mman s1) \<and>
    table_bytes (phys s1) D \<subseteq> table_bytes (phys s') D \<and> table_bytes (phys s') D \<subseteq> table_bytes (phys s1) D \<union> avail (mman s1) \<and>
    (\<forall>a \<in> set as. copied d dc s1 s' a) \<and>
    (\<forall>e \<in> D. \<forall>b. (e \<noteq> d \<or> frame b \<noteq> frame SharePageBase) \<and> (e \<noteq> dc \<or> frame b \<notin> frame ` set as) \<longrightarrow>
       mmu (phys s') e b = mmu (phys s1) e b) \<and>
    (\<forall>k. k \<notin> table_bytes (phys s') D \<and> k \<notin> avail (mman s1) \<longrightarrow> phys s' k = phys s1 k)"
    by (rule Cons.IH[OF inv1 _ Cons.prems(3) _ _ Cons.prems(6,7) _ _ r])
      (use Cons.prems(2,4,5,9) own o in auto)
  have ok': "paging_ok (phys s') D (avail (mman s'))" using ih by (simp add: mem_inv_def)
  have na: "frame a \<notin> frame ` set as" using Cons.prems(9) by auto
  have "copied d dc s s' a"
  proof -
    have "load_list (phys s') (unat f) 4096 = load_list (phys s1) (unat f) 4096"
    proof (rule load_list_same)
      fix k assume "unat f \<le> k" "k < unat f + 4096"
      then have k: "k \<in> page_bytes f" by (simp add: page_bytes_def)
      then show "phys s' k = phys s1 k" using ih user_page_no_table[OF ok' f(1) k] f(3) by blast
    qed
    moreover have "mmu (phys s') dc a = Some (f OR (a AND 0xFFF))"
      using ih fa na Cons.prems(6,7) sh by auto
    moreover have "page_bytes f \<inter> avail (mman s') = {}" using ih f(3) by blast
    ultimately show ?thesis unfolding copied_def
      by (intro exI[of _ x] exI[of _ f] conjI) (use f x(1) lf in simp_all)
  qed
  moreover have "copied d dc s s' b" if b: "b \<in> set as" for b
  proof -
    obtain y where y: "mmu (phys s) d b = Some y" "user_page (frame y)" "page_bytes (frame y) \<inter> avail (mman s) = {}"
      and nb: "frame b \<noteq> frame SharePageBase"
      using Cons.prems(8)[of b] b by (auto simp: own_page_def)
    have "mmu (phys s1) d b = Some y" using mm[of d b] Cons.prems(3,7) y nb by simp
    moreover have "copied d dc s1 s' b" using ih b by blast
    ultimately obtain g where g: "mmu (phys s') dc b = Some (g OR (b AND 0xFFF))" "user_page g"
      "page_bytes g \<subseteq> avail (mman s1)" "page_bytes g \<inter> avail (mman s') = {}"
      "load_list (phys s') (unat g) 4096 = load_list (phys s1) (unat (frame y)) 4096"
      by (auto simp: copied_def)
    show ?thesis unfolding copied_def
      by (intro exI[of _ y] exI[of _ g] conjI) (use g y av1 src[OF y(2,3)] in auto)
  qed
  moreover have "mmu (phys s') e b = mmu (phys s) e b"
    if "e \<in> D" "e \<noteq> d \<or> frame b \<noteq> frame SharePageBase" "e \<noteq> dc \<or> frame b \<notin> frame ` set (a # as)" for e b
  proof -
    have "mmu (phys s') e b = mmu (phys s1) e b" using ih that by auto
    also have "\<dots> = mmu (phys s) e b" by (rule mm) (use that in auto)
    finally show ?thesis .
  qed
  moreover have "phys s' k = phys s k" if "k \<notin> table_bytes (phys s') D" "k \<notin> avail (mman s)" for k
  proof -
    have "k \<notin> table_bytes (phys s1) D" "k \<notin> avail (mman s1)" "k \<notin> page_bytes f" using that ih av1 f(2) by blast+
    then show ?thesis using ih that(1) ph by simp
  qed
  moreover have "only_memory s s'" using om ih only_memory_trans by blast
  moreover have "avail (mman s') \<subseteq> avail (mman s)" "table_bytes (phys s) D \<subseteq> table_bytes (phys s') D"
    "table_bytes (phys s') D \<subseteq> table_bytes (phys s) D \<union> avail (mman s)"
    using ih av1 tb nt by blast+
  ultimately show ?case using ih by simp
qed

lemma run_share_pages:
  fixes s s' :: "'a kmem_scheme"
  assumes "mem_inv D s" "get_pde_phy_addr pp s = Some d" "d \<in> D"
    and "get_pde_phy_addr cp s = Some dc" "dc \<in> D" "dc \<noteq> d"
    and "\<And>a. a \<in> set as \<Longrightarrow> own_page d s a" "distinct (map frame as)"
    and "run_pages (share_page pp cp) as s = Some s'"
  shows "mem_inv D s' \<and> tables_changed D s s' \<and>
    (\<forall>a \<in> set as. mmu (phys s') dc a = mmu (phys s) d a) \<and>
    (\<forall>e \<in> D. \<forall>b. e \<noteq> dc \<or> frame b \<notin> frame ` set as \<longrightarrow> mmu (phys s') e b = mmu (phys s) e b)"
  using assms
proof (induction as arbitrary: s)
  case Nil
  then show ?case by simp
next
  case (Cons a as)
  obtain s1 where c: "share_page pp cp a s = Some s1" and r: "run_pages (share_page pp cp) as s1 = Some s'"
    using Cons.prems(9) by (auto split: bind_splits)
  obtain x where x: "mmu (phys s) d a = Some x" "user_page (frame x)"
    using Cons.prems(7)[of a] by (auto simp: own_page_def)
  then have "frame x \<noteq> MAX_UNSIGNED_INT" using user_page_facts by blast
  note e = share_page_effect[OF Cons.prems(1-5) x(1) this c]
  note tc = tables_changedD[OF e(2)]
  have own: "own_page d s1 b" if "b \<in> set as" for b
  proof -
    have "own_page d s b" using Cons.prems(7) that by simp
    moreover have "mmu (phys s1) d b = mmu (phys s) d b" using e(4)[OF Cons.prems(3)] Cons.prems(6) by simp
    ultimately show ?thesis using tc(9) unfolding own_page_def by fastforce
  qed
  have ih: "mem_inv D s' \<and> tables_changed D s1 s' \<and>
    (\<forall>a \<in> set as. mmu (phys s') dc a = mmu (phys s1) d a) \<and>
    (\<forall>e \<in> D. \<forall>b. e \<noteq> dc \<or> frame b \<notin> frame ` set as \<longrightarrow> mmu (phys s') e b = mmu (phys s1) e b)"
    by (rule Cons.IH[OF e(1) _ Cons.prems(3) _ Cons.prems(5,6) _ _ r])
      (use Cons.prems(2,4,8) own tc(8) in auto)
  have na: "frame a \<notin> frame ` set as" using Cons.prems(8) by auto
  have "mmu (phys s) d a = Some (frame x OR (a AND 0xFFF))"
    using mmu_same_page[OF refl, of "phys s" d a] x(1) by simp
  then have "mmu (phys s') dc a = mmu (phys s) d a" using ih na Cons.prems(5) e(3) by simp
  moreover have "mmu (phys s') dc b = mmu (phys s) d b" if "b \<in> set as" for b
    using ih that e(4)[OF Cons.prems(3), of b] Cons.prems(6) by simp
  moreover have "mmu (phys s') f b = mmu (phys s) f b" if "f \<in> D" "f \<noteq> dc \<or> frame b \<notin> frame ` set (a # as)" for f b
    using ih that e(4)[OF that(1), of b] by auto
  ultimately show ?case using ih tables_changed_trans[OF e(2)] by auto
qed

subsection \<open>The whole of \<^verbatim>\<open>sys_fork\<close>\<close>

lemma alloc_PCB_loop_Some:
  "alloc_PCB_loop s i = Some c \<Longrightarrow> i \<le> c \<and> c < NR_PCBS \<and> stat (proc_table s c) = IDLE"
proof (induction s i rule: alloc_PCB_loop.induct)
  case (1 s i)
  from "1.prems" show ?case
    by (subst (asm) alloc_PCB_loop.simps) (use "1.IH" in \<open>force split: if_splits\<close>)
qed

lemma alloc_PCB_Some:
  "alloc_PCB s = Some c \<Longrightarrow> NR_K_PCBS \<le> c \<and> c < NR_PCBS \<and> stat (proc_table s c) = IDLE"
  unfolding alloc_PCB_def by (rule alloc_PCB_loop_Some)

definition pids_ok :: "'a kproc_scheme \<Rightarrow> bool" where
  "pids_ok s \<longleftrightarrow> (\<forall>q < NR_PCBS. pid (proc_table s q) = of_nat q)"

lemma unat_pid: "q < NR_PCBS \<Longrightarrow> unat (of_nat q :: u32) = q"
  by (simp add: unat_of_nat NR_PCBS_def)

lemma copied_earlier:
  assumes c: "copied d dc t s' a" and own: "own_page d s a" and inv: "mem_inv D t"
    and mm: "mmu (phys t) d a = mmu (phys s) d a" and av: "avail (mman t) \<subseteq> avail (mman s)"
    and ph: "\<And>k. k \<notin> table_bytes (phys t) D \<Longrightarrow> phys t k = phys s k"
  shows "copied d dc s s' a"
proof -
  obtain x where x: "mmu (phys s) d a = Some x" "user_page (frame x)" using own by (auto simp: own_page_def)
  obtain f where f: "mmu (phys s') dc a = Some (f OR (a AND 0xFFF))" "user_page f" "page_bytes f \<subseteq> avail (mman t)"
    "page_bytes f \<inter> avail (mman s') = {}" "load_list (phys s') (unat f) 4096 = load_list (phys t) (unat (frame x)) 4096"
    using c x mm by (auto simp: copied_def)
  have "paging_ok (phys t) D (avail (mman t))" using inv by (simp add: mem_inv_def)
  then have "load_list (phys t) (unat (frame x)) 4096 = load_list (phys s) (unat (frame x)) 4096"
    by (intro load_list_same ph user_page_no_table[OF _ x(2)]) (auto simp: page_bytes_def)
  then show ?thesis unfolding copied_def
    by (intro exI[of _ x] exI[of _ f] conjI) (use x f av in auto)
qed

lemma fork_pcb_cpy_simps [simp]:
  "phys (fork_pcb_cpy c s) = phys s" "mman (fork_pcb_cpy c s) = mman s"
  "p_proc_current (fork_pcb_cpy c s) = p_proc_current s"
  "q \<noteq> c \<Longrightarrow> proc_table (fork_pcb_cpy c s) q = proc_table s q"
  "pid (proc_table (fork_pcb_cpy c s) c) = pid (proc_table s c)"
  "cr3 (proc_table (fork_pcb_cpy c s) c) = cr3 (proc_table s c)"
  "priority (proc_table (fork_pcb_cpy c s) c) = priority (proc_cur s)"
  "ticks (proc_table (fork_pcb_cpy c s) c) = ticks (proc_cur s)"
  "stat (proc_table (fork_pcb_cpy c s) c) = IDLE"
  by (simp_all add: fork_pcb_cpy_def upd_proc_def Let_def set_kreg_def copy_frame_def)

lemma get_pde_cong:
  "cr3 (proc_table s' (unat p)) = cr3 (proc_table s (unat p)) \<Longrightarrow> get_pde_phy_addr p s' = get_pde_phy_addr p s"
  by (simp add: get_pde_phy_addr_def)

lemma fork_pcb_cpy_dir [simp]: "get_pde_phy_addr p (fork_pcb_cpy c s) = get_pde_phy_addr p s"
  by (rule get_pde_cong, cases "unat p = c") simp_all

text \<open>The end of \<^verbatim>\<open>sys_fork\<close>, after the memory has been copied.\<close>

definition fork_end :: "nat \<Rightarrow> 'a kmem_scheme \<Rightarrow> ('a kmem_scheme \<times> u32) option" where
  "fork_end c s = do {
     s \<leftarrow> fork_update_info c s;
     let s = upd_proc c (set_reg EAXREG 0 \<circ> set_name name_fork) s;
     let s = s\<lparr>u_proc_sum := u_proc_sum s + 1\<rparr>;
     let s = upd_proc c (stat_update (\<lambda>_. READY)) s;
     Some (s, pid (proc_table s c))
   }"

lemma fork_end_simps:
  assumes "fork_end c s = Some (s', r)"
  shows "phys s' = phys s" "mman s' = mman s" "r = pid (proc_table s c)"
    "\<And>q. cr3 (proc_table s' q) = cr3 (proc_table s q)"
  using assms
  by (auto simp: fork_end_def fork_update_info_def add_child_process_def upd_proc_def Let_def set_reg_def set_kreg_def
      set_name_def split: bind_splits if_splits)

lemma sys_fork_unfold:
  assumes "alloc_PCB s = Some c"
  shows "sys_fork s = do {
     (s1, _) \<leftarrow> init_page_pte (pid (proc_table s c)) s;
     s3 \<leftarrow> fork_mem_cpy (pid (proc_cur s1)) (pid (proc_table (fork_pcb_cpy c s1) c)) (fork_pcb_cpy c s1);
     fork_end c s3 }"
proof -
  have "proc_cur (fork_pcb_cpy c t) = proc_cur t \<or> p_proc_current t = c" for t :: "'a kmem_scheme"
    by (cases "p_proc_current t = c") simp_all
  then have "pid (proc_cur (fork_pcb_cpy c t)) = pid (proc_cur t)" for t :: "'a kmem_scheme"
    by (metis fork_pcb_cpy_simps(3,5))
  then show ?thesis using assms by (simp add: sys_fork_def fork_end_def Let_def)
qed

lemma fork_spec:
  fixes s s' :: "'a kmem_scheme"
  defines "m \<equiv> memmap (proc_cur s)"
  assumes inv: "mem_inv D s" and pids: "pids_ok s" and cur: "p_proc_current s < NR_PCBS" "stat (proc_cur s) \<noteq> IDLE"
    and d: "get_pde_phy_addr (pid (proc_cur s)) s = Some d" "d \<in> D" and m: "memmap_ok m"
    and own: "\<And>a. a \<in> set (text_pages m @ data_pages m) \<Longrightarrow> own_page d s a \<and> frame a \<noteq> frame SharePageBase"
    and dist: "distinct (map frame (text_pages m @ data_pages m))"
    and c: "alloc_PCB s = Some c" and r: "sys_fork s = Some (s', r)"
  shows "r = of_nat c \<and> (\<exists>dc. dc \<notin> D \<and> get_pde_phy_addr r s' = Some dc \<and> mem_inv (insert dc D) s' \<and>
    (\<forall>a \<in> set (text_pages m). mmu (phys s') dc a = mmu (phys s) d a) \<and>
    (\<forall>a \<in> set (data_pages m). copied d dc s s' a) \<and>
    (\<forall>b. frame b \<notin> frame ` set (text_pages m @ data_pages m) \<longrightarrow> mmu (phys s') dc b =
       (if KernelLinBase \<le> b \<and> b < KernelLinBase + KernelSize then Some (K_LIN2PHY b) else None)) \<and>
    (\<forall>e \<in> D. \<forall>b. e \<noteq> d \<or> frame b \<noteq> frame SharePageBase \<longrightarrow> mmu (phys s') e b = mmu (phys s) e b) \<and>
    (\<forall>k. k \<notin> table_bytes (phys s) D \<and> k \<notin> avail (mman s) \<longrightarrow> phys s' k = phys s k))"
proof -
  have cc: "c < NR_PCBS" "c \<noteq> p_proc_current s" using alloc_PCB_Some[OF c] cur by auto
  have pc: "unat (pid (proc_table s c)) = c" "pid (proc_table s c) = of_nat c"
    "unat (pid (proc_cur s)) = p_proc_current s"
    using pids cc cur by (simp_all add: pids_ok_def unat_pid)
  obtain s1 r1 where i: "init_page_pte (pid (proc_table s c)) s = Some (s1, r1)"
    using r by (auto simp: sys_fork_unfold[OF c] split: bind_splits)
  have cp: "unat (pid (proc_table s c)) < NR_PCBS" using pc cc by simp
  obtain dc where dc: "dc \<notin> D" "get_pde_phy_addr (pid (proc_table s c)) s1 = Some dc" "mem_inv (insert dc D) s1"
    "\<forall>b. mmu (phys s1) dc b = (if KernelLinBase \<le> b \<and> b < KernelLinBase + KernelSize then Some (K_LIN2PHY b) else None)"
    "\<forall>e \<in> D. \<forall>b. mmu (phys s1) e b = mmu (phys s) e b"
    "\<forall>k. k \<notin> table_bytes (phys s1) (insert dc D) \<longrightarrow> phys s1 k = phys s k" "avail (mman s1) \<subseteq> avail (mman s)"
    "table_bytes (phys s1) (insert dc D) \<subseteq> table_bytes (phys s) D \<union> avail (mman s)"
    and upd: "\<exists>m g. s1 = s\<lparr>proc_table := (proc_table s)(c := (proc_table s c)\<lparr>cr3 := dc\<rparr>), phys := m, mman := g\<rparr>"
    using init_page_pte_spec[OF inv cp i] pc by auto
  have s1: "p_proc_current s1 = p_proc_current s" "proc_cur s1 = proc_cur s" "pid (proc_table s1 c) = pid (proc_table s c)"
    using upd cc by auto
  define s2 where "s2 = fork_pcb_cpy c s1"
  have s2: "phys s2 = phys s1" "mman s2 = mman s1" "proc_cur s2 = proc_cur s" "pid (proc_table s2 c) = pid (proc_table s c)"
    using s1 cc by (simp_all add: s2_def)
  obtain s4 where mc: "fork_mem_cpy (pid (proc_cur s)) (pid (proc_table s c)) s2 = Some s4"
    and fe: "fork_end c s4 = Some (s', r)"
    using r s1 s2 by (auto simp: sys_fork_unfold[OF c] i s2_def split: bind_splits)
  obtain s3 where sh: "run_pages (share_page (pid (proc_cur s)) (pid (proc_table s c))) (text_pages m) s2 = Some s3"
    and cy: "run_pages (copy_page (pid (proc_cur s)) (pid (proc_table s c))) (data_pages m) s3 = Some s4"
    using mc m fork_mem_cpy_run[of s2] by (auto simp: m_def s2 split: bind_splits)
  have inv2: "mem_inv (insert dc D) s2" using dc(3) by (simp add: mem_inv_def s2)
  have d2: "get_pde_phy_addr (pid (proc_cur s)) s2 = Some d"
  proof -
    have "get_pde_phy_addr (pid (proc_cur s)) s1 = get_pde_phy_addr (pid (proc_cur s)) s"
      using upd cc by (intro get_pde_cong) (auto simp: pc)
    then show ?thesis using d by (simp add: s2_def)
  qed
  have dc2: "get_pde_phy_addr (pid (proc_table s c)) s2 = Some dc" using dc(2) by (simp add: s2_def)
  have dD: "d \<in> insert dc D" "dc \<in> insert dc D" "dc \<noteq> d" using d(2) dc(1) by auto
  have own2: "own_page d s2 a \<and> frame a \<noteq> frame SharePageBase" if a: "a \<in> set (text_pages m @ data_pages m)" for a
  proof -
    obtain x where "mmu (phys s) d a = Some x" "user_page (frame x)" "page_bytes (frame x) \<inter> avail (mman s) = {}"
      using own[OF a] by (auto simp: own_page_def)
    then show ?thesis using own[OF a] dc(5,7) d(2) unfolding own_page_def s2 by fastforce
  qed
  have dist': "distinct (map frame (text_pages m))" "distinct (map frame (data_pages m))"
    "frame ` set (text_pages m) \<inter> frame ` set (data_pages m) = {}" using dist by auto
  have S: "mem_inv (insert dc D) s3 \<and> tables_changed (insert dc D) s2 s3 \<and>
    (\<forall>a \<in> set (text_pages m). mmu (phys s3) dc a = mmu (phys s2) d a) \<and>
    (\<forall>e \<in> insert dc D. \<forall>b. e \<noteq> dc \<or> frame b \<notin> frame ` set (text_pages m) \<longrightarrow> mmu (phys s3) e b = mmu (phys s2) e b)"
    by (rule run_share_pages[OF inv2 d2 dD(1) dc2 dD(2,3) _ dist'(1) sh]) (use own2 in auto)
  note tc = tables_changedD[OF conjunct1[OF conjunct2[OF S]]]
  have mm3: "mmu (phys s3) e b = mmu (phys s) e b" if "e \<in> D" for e b
    using S dc(1,5) that by (auto simp: s2)
  have av3: "avail (mman s3) \<subseteq> avail (mman s)" using tc(9) dc(7) by (simp add: s2)
  have ph3: "phys s3 k = phys s k" if "k \<notin> table_bytes (phys s3) (insert dc D)" for k
    using that tc(10,11) dc(6) by (auto simp: s2)
  have own3: "own_page d s3 a" if "a \<in> set (data_pages m)" for a
    using own[of a] that mm3[OF d(2)] av3 unfolding own_page_def by fastforce
  have cd3: "cur_dir s3 = d"
  proof -
    have "table_page d" using paging_dir(1) inv d(2) unfolding mem_inv_def by blast
    then have "d \<noteq> - 1" by (auto simp: table_page_def KWALL_def minus_one_u32)
    then show ?thesis
      using d(1) tc(1,2) s2(3) cur pc(3) by (auto simp: cur_dir_def get_pde_phy_addr_def split: if_splits)
  qed
  have C: "mem_inv (insert dc D) s4 \<and> only_memory s3 s4 \<and> avail (mman s4) \<subseteq> avail (mman s3) \<and>
    table_bytes (phys s3) (insert dc D) \<subseteq> table_bytes (phys s4) (insert dc D) \<and>
    table_bytes (phys s4) (insert dc D) \<subseteq> table_bytes (phys s3) (insert dc D) \<union> avail (mman s3) \<and>
    (\<forall>a \<in> set (data_pages m). copied d dc s3 s4 a) \<and>
    (\<forall>e \<in> insert dc D. \<forall>b. (e \<noteq> d \<or> frame b \<noteq> frame SharePageBase) \<and> (e \<noteq> dc \<or> frame b \<notin> frame ` set (data_pages m)) \<longrightarrow>
       mmu (phys s4) e b = mmu (phys s3) e b) \<and>
    (\<forall>k. k \<notin> table_bytes (phys s4) (insert dc D) \<and> k \<notin> avail (mman s3) \<longrightarrow> phys s4 k = phys s3 k)"
    by (rule run_copy_pages[OF conjunct1[OF S] _ dD(1) cd3 _ dD(2,3) _ dist'(2) cy])
      (use own own3 d2 dc2 tc(8) in auto)
  note fin = fork_end_simps[OF fe]
  have rc: "r = of_nat c"
    using fin(3) only_memoryD(1)[of s3 s4] C tc(1) s2(4) pc(2) by simp
  have "get_pde_phy_addr r s' = Some dc"
  proof -
    have "get_pde_phy_addr r s' = get_pde_phy_addr r s4" by (rule get_pde_cong) (rule fin(4))
    also have "\<dots> = get_pde_phy_addr r s2" using only_memoryD(4)[of s3 s4] C tc(8) by simp
    finally show ?thesis using dc2 rc pc by simp
  qed
  moreover have "mem_inv (insert dc D) s'" using C by (simp add: mem_inv_def fin)
  moreover have "mmu (phys s') dc a = mmu (phys s) d a" if "a \<in> set (text_pages m)" for a
  proof -
    have "frame a \<notin> frame ` set (data_pages m)" using that dist'(3) by blast
    then have "mmu (phys s4) dc a = mmu (phys s3) dc a" using C dD by simp
    also have "\<dots> = mmu (phys s) d a" using S that dc(5) d(2) by (simp add: s2)
    finally show ?thesis by (simp add: fin)
  qed
  moreover have "copied d dc s s' a" if "a \<in> set (data_pages m)" for a
  proof -
    have "copied d dc s3 s' a" using C that by (simp add: copied_def fin)
    moreover have "own_page d s a" using own[of a] that by simp
    ultimately show ?thesis using conjunct1[OF S] mm3[OF d(2)] av3 ph3 by (rule copied_earlier)
  qed
  moreover have "mmu (phys s') dc b = (if KernelLinBase \<le> b \<and> b < KernelLinBase + KernelSize then Some (K_LIN2PHY b) else None)"
    if "frame b \<notin> frame ` set (text_pages m @ data_pages m)" for b
    using C S that dc(4) dD by (auto simp: fin s2 image_Un)
  moreover have "mmu (phys s') e b = mmu (phys s) e b" if "e \<in> D" "e \<noteq> d \<or> frame b \<noteq> frame SharePageBase" for e b
  proof -
    have "e \<noteq> dc" using that(1) dc(1) by auto
    then show ?thesis using C mm3[OF that(1)] that by (auto simp: fin)
  qed
  moreover have "phys s' k = phys s k" if "k \<notin> table_bytes (phys s) D" "k \<notin> avail (mman s)" for k
  proof -
    have "k \<notin> table_bytes (phys s1) (insert dc D)" using that dc(8) by blast
    then have "k \<notin> table_bytes (phys s3) (insert dc D)" using that tc(12) dc(7) by (auto simp: s2)
    then have "k \<notin> table_bytes (phys s4) (insert dc D)" "k \<notin> avail (mman s3)" "k \<notin> table_bytes (phys s3) (insert dc D)"
      using that C av3 by auto
    then show ?thesis using C ph3 by (simp add: fin)
  qed
  ultimately show ?thesis using rc dc(1) by blast
qed

subsection \<open>When \<^verbatim>\<open>sys_fork\<close> succeeds\<close>

lemma lin_mapping_given_less:
  fixes s :: "'a kmem_scheme"
  assumes "mem_inv D s" "get_pde_phy_addr p s = Some d" "d \<in> D" "pa \<noteq> MAX_UNSIGNED_INT" "pa AND 0x3FF = 0"
    and "pools k n (mman s)" "1 < k"
  obtains s' k' where "lin_mapping_phy a pa p user_rw attr s = Some (s', 0)" "pools k' n (mman s')" "k \<le> k' + 1"
    "present (entry (phys s') d (get_pde_index a))"
proof (rule lin_mapping_given[OF assms(1-3) user_attrs(1,2) assms(4-6)])
  show "present (entry (phys s) d (get_pde_index a)) \<or> 1 < k" using assms(7) by simp
  fix s' assume "lin_mapping_phy a pa p user_rw attr s = Some (s', 0)"
    "pools (if present (entry (phys s) d (get_pde_index a)) then k else k - 1) n (mman s')"
    "present (entry (phys s') d (get_pde_index a))"
  moreover have "k \<le> (if present (entry (phys s) d (get_pde_index a)) then k else k - 1) + 1" by auto
  ultimately show thesis by (intro that)
qed

lemma share_page_succeeds:
  fixes s :: "'a kmem_scheme"
  assumes inv: "mem_inv D s" and par: "get_pde_phy_addr pp s = Some d" "d \<in> D"
    and chd: "get_pde_phy_addr cp s = Some dc" "dc \<in> D"
    and x: "mmu (phys s) d a = Some x" "frame x \<noteq> MAX_UNSIGNED_INT" and k: "pools k n (mman s)" "1 < k"
  obtains s' k' where "share_page pp cp a s = Some s'" "pools k' n (mman s')" "k \<le> k' + 1"
proof -
  obtain s' k' where "lin_mapping_phy a (frame x) cp user_rw user_ro s = Some (s', 0)" "pools k' n (mman s')" "k \<le> k' + 1"
    by (rule lin_mapping_given_less[OF inv chd x(2) frame_low_bits[OF frame_frame] k]) (rule that)
  then show thesis
    using that[of s' k'] get_page_of_mmu[OF inv par x(1)] by (simp add: share_page_def)
qed

lemma copy_page_succeeds:
  fixes s :: "'a kmem_scheme"
  assumes inv: "mem_inv D s" and par: "get_pde_phy_addr pp s = Some d" "d \<in> D" "cur_dir s = d"
    and chd: "get_pde_phy_addr cp s = Some dc" "dc \<in> D" "dc \<noteq> d"
    and x: "mmu (phys s) d a = Some x" "user_page (frame x)" and a: "frame a \<noteq> frame SharePageBase"
    and k: "pools k n (mman s)" "2 < k" "1 < n"
  obtains s' k' n' where "copy_page pp cp a s = Some s'" "pools k' n' (mman s')" "k \<le> k' + 2" "n \<le> n' + 1"
proof -
  obtain n1 where n1: "n = Suc n1" "0 < n1" using k(3) by (cases n) auto
  have z: "(0 :: u32) \<noteq> MAX_UNSIGNED_INT" "(0 :: u32) AND 0x3FF = 0" by (simp_all add: MAX_UNSIGNED_INT_def)
  have gt: "1 < k" using k(2) by simp
  obtain s1 k1 where l1: "lin_mapping_phy SharePageBase 0 pp user_rw 0 s = Some (s1, 0)" "pools k1 n (mman s1)"
    and l1_k: "k \<le> k1 + 1" and l1_p: "present (entry (phys s1) d (get_pde_index SharePageBase))"
    by (rule lin_mapping_given_less[OF inv par(1,2) z k(1) gt]) (rule that)
  note sp1 = lin_mapping_spec[OF inv par(1,2) user_attrs(1,2,6) l1(1)]
  note tc1 = tables_changedD[OF sp1(2)]
  have n: "mmu (phys s1) d SharePageBase = None"
    using sp1(3) user_attrs(5) by (simp add: maps_to_def MAX_UNSIGNED_INT_def)
  have par1: "get_pde_phy_addr pp s1 = Some d" using tc1(8) par(1) by simp
  obtain s2 where l2: "lin_mapping_phy SharePageBase MAX_UNSIGNED_INT pp user_rw user_rw s1 = Some (s2, 0)"
    "pools k1 n1 (mman s2)"
    using lin_mapping_fresh[OF sp1(1) par1 par(2) user_attrs(1,2) share_facts(2) n, of k1 n1 user_rw] l1(2) l1_p n1 by auto
  note sp2 = lin_mapping_spec[OF sp1(1) par1 par(2) user_attrs(1,2,2) l2(1)]
  note tc2 = tables_changedD[OF sp2(2)]
  have cd2: "cur_dir s2 = d" using par(3) tc1 tc2 by (simp add: cur_dir_def)
  obtain f where f: "mmu (phys s2) d SharePageBase = Some f" "frame f = f" "user_page f"
    using sp2(3) n user_attrs(1) share_facts by (auto simp: maps_to_def user_page_def)
  have src: "mmu (phys s2) d (frame a) = Some (frame x)"
  proof -
    have "mmu (phys s2) d a = Some x"
      using sp2(4)[OF par(2), of a] sp1(4)[OF par(2), of a] a x(1) by simp
    then show ?thesis using mmu_same_page[of "frame a" a "phys s2" d]
      by (simp add: frame_def and.assoc)
  qed
  define s3 where "s3 = s2\<lparr>phys := store_list (phys s2) (unat f) (load_list (phys s2) (unat (frame x)) 4096)\<rparr>"
  have c3: "memcpy_page SharePageBase (a AND 0xFFFFF000) s2 = Some s3"
    using src by (simp add: memcpy_page_def cd2 f(1) frame_def[symmetric] s3_def)
  have ok2: "paging_ok (phys s2) D (avail (mman s2))" using sp2(1) by (simp add: mem_inv_def)
  have tab3: "phys s3 k = phys s2 k" if "k \<in> table_bytes (phys s2) D" for k
  proof -
    have "k \<notin> page_bytes f" using user_page_no_table[OF ok2 f(3), of k] that by blast
    then show ?thesis by (auto simp: s3_def page_bytes_def intro: store_list_out)
  qed
  have inv3: "mem_inv D s3"
    using sp2(1) phys_outside(3)[of "phys s2" D "phys s3" "avail (mman s2)"] tab3 by (simp add: mem_inv_def s3_def)
  have dirs3: "get_pde_phy_addr p s3 = get_pde_phy_addr p s" for p
  proof -
    have "get_pde_phy_addr p s3 = get_pde_phy_addr p s2" by (rule get_pde_cong) (simp add: s3_def)
    then show ?thesis using tc1(8) tc2(8) by simp
  qed
  have "mmu (phys s3) d SharePageBase = Some f"
    using phys_outside(2)[of "phys s2" D "phys s3" d SharePageBase] tab3 par(2) f(1) by simp
  then have pg: "get_page_phy_addr pp SharePageBase s3 = Some f"
    using get_page_of_mmu[OF inv3 _ par(2)] par(1) dirs3 f(2) by simp
  have k1: "1 < k1" "pools k1 n1 (mman s3)" using l1_k k(2) l2(2) by (simp_all add: s3_def)
  have f2: "f \<noteq> MAX_UNSIGNED_INT" "f AND 0x3FF = 0" and chd3: "get_pde_phy_addr cp s3 = Some dc"
    using user_page_facts[OF f(3)] chd(1) dirs3 by simp_all
  obtain s' k' where l4: "lin_mapping_phy a f cp user_rw user_rw s3 = Some (s', 0)" "pools k' n1 (mman s')" "k1 \<le> k' + 1"
    by (rule lin_mapping_given_less[OF inv3 chd3 chd(2) f2 k1(2,1)]) (rule that)
  have "copy_page pp cp a s = Some s'" using l1(1) l2(1) c3 pg l4(1) by (simp add: copy_page_def)
  then show thesis using that l4(2,3) l1_k n1(1) by (intro that[of s' k' n1]) auto
qed

lemma run_share_succeeds:
  fixes s :: "'a kmem_scheme"
  assumes "mem_inv D s" "get_pde_phy_addr pp s = Some d" "d \<in> D"
    and "get_pde_phy_addr cp s = Some dc" "dc \<in> D" "dc \<noteq> d"
    and "\<And>a. a \<in> set as \<Longrightarrow> own_page d s a" and "pools k n (mman s)" "length as < k"
  shows "\<exists>s' k'. run_pages (share_page pp cp) as s = Some s' \<and> pools k' n (mman s') \<and> k \<le> k' + length as"
  using assms
proof (induction as arbitrary: s k)
  case Nil
  then show ?case by auto
next
  case (Cons a as)
  obtain x where x: "mmu (phys s) d a = Some x" "user_page (frame x)"
    using Cons.prems(7)[of a] by (auto simp: own_page_def)
  then have fx: "frame x \<noteq> MAX_UNSIGNED_INT" using user_page_facts by blast
  have k: "1 < k" using Cons.prems(9) by simp
  obtain s1 k1 where c: "share_page pp cp a s = Some s1" "pools k1 n (mman s1)" "k \<le> k1 + 1"
    by (rule share_page_succeeds[OF Cons.prems(1-5) x(1) fx Cons.prems(8) k]) (rule that)
  note e = share_page_effect[OF Cons.prems(1-5) x(1) fx c(1)]
  note tc = tables_changedD[OF e(2)]
  have own: "own_page d s1 b" if "b \<in> set as" for b
  proof -
    have "own_page d s b" using Cons.prems(7) that by simp
    moreover have "mmu (phys s1) d b = mmu (phys s) d b" using e(4)[OF Cons.prems(3)] Cons.prems(6) by simp
    ultimately show ?thesis using tc(9) unfolding own_page_def by fastforce
  qed
  have "\<exists>s' k'. run_pages (share_page pp cp) as s1 = Some s' \<and> pools k' n (mman s') \<and> k1 \<le> k' + length as"
    by (rule Cons.IH[OF e(1) _ Cons.prems(3) _ Cons.prems(5,6) _ c(2)])
      (use Cons.prems(2,4,9) own tc(8) c(3) in auto)
  then show ?case using c by fastforce
qed

lemma run_copy_succeeds:
  fixes s :: "'a kmem_scheme"
  assumes "mem_inv D s" "get_pde_phy_addr pp s = Some d" "d \<in> D" "cur_dir s = d"
    and "get_pde_phy_addr cp s = Some dc" "dc \<in> D" "dc \<noteq> d"
    and "\<And>a. a \<in> set as \<Longrightarrow> own_page d s a \<and> frame a \<noteq> frame SharePageBase"
    and "pools k n (mman s)" "2 * length as < k" "length as < n"
  shows "\<exists>s'. run_pages (copy_page pp cp) as s = Some s'"
  using assms
proof (induction as arbitrary: s k n)
  case Nil
  then show ?case by simp
next
  case (Cons a as)
  obtain x where x: "mmu (phys s) d a = Some x" "user_page (frame x)" "page_bytes (frame x) \<inter> avail (mman s) = {}"
    using Cons.prems(8)[of a] by (auto simp: own_page_def)
  have sh: "frame a \<noteq> frame SharePageBase" using Cons.prems(8)[of a] by simp
  have k: "2 < k" "1 < n" using Cons.prems(10,11) by auto
  obtain s1 k1 n1 where c: "copy_page pp cp a s = Some s1" "pools k1 n1 (mman s1)" "k \<le> k1 + 2" "n \<le> n1 + 1"
    by (rule copy_page_succeeds[OF Cons.prems(1-7) x(1,2) sh Cons.prems(9) k]) (rule that)
  obtain f where e: "mem_inv D s1" "only_memory s s1" "avail (mman s1) \<subseteq> avail (mman s)"
    "\<And>e b. e \<in> D \<Longrightarrow> e \<noteq> d \<or> frame b \<noteq> frame SharePageBase \<Longrightarrow> e \<noteq> dc \<or> frame b \<noteq> frame a \<Longrightarrow>
       mmu (phys s1) e b = mmu (phys s) e b"
    by (rule copy_page_effect[OF Cons.prems(1-7) x(1,2) sh c(1)]) (rule that)
  note o = only_memoryD[OF e(2)]
  have own: "own_page d s1 b \<and> frame b \<noteq> frame SharePageBase" if b: "b \<in> set as" for b
  proof -
    obtain y where y: "mmu (phys s) d b = Some y" "user_page (frame y)" "page_bytes (frame y) \<inter> avail (mman s) = {}"
      and nb: "frame b \<noteq> frame SharePageBase"
      using Cons.prems(8)[of b] b by (auto simp: own_page_def)
    then have "mmu (phys s1) d b = Some y" using e(4)[of d b] Cons.prems(3,7) by simp
    then show ?thesis using y nb e(3) by (auto simp: own_page_def)
  qed
  have "\<exists>s'. run_pages (copy_page pp cp) as s1 = Some s'"
    by (rule Cons.IH[OF e(1) _ Cons.prems(3) _ _ Cons.prems(6,7) _ c(2)])
      (use Cons.prems(2,4,5,10,11) own o c(3,4) in auto)
  then show ?case using c(1) by simp
qed

lemma fork_end_succeeds:
  assumes "0 \<le> child_p_num (info (proc_cur s))" "child_p_num (info (proc_cur s)) < int NR_CHILD_MAX"
  shows "fork_end c s \<noteq> None"
  using assms by (auto simp: fork_end_def fork_update_info_def add_child_process_def Let_def)

text \<open>Thirty-four pages for the directory and the tables of the kernel, one page table at most for each page of
  code, two for each other page, and a page of the users' pool for each copy.\<close>

lemma fork_succeeds:
  fixes s :: "'a kmem_scheme"
  defines "m \<equiv> memmap (proc_cur s)"
  assumes inv: "mem_inv D s" and pids: "pids_ok s" and cur: "p_proc_current s < NR_PCBS" "stat (proc_cur s) \<noteq> IDLE"
    and d: "get_pde_phy_addr (pid (proc_cur s)) s = Some d" "d \<in> D" and m: "memmap_ok m"
    and own: "\<And>a. a \<in> set (text_pages m @ data_pages m) \<Longrightarrow> own_page d s a \<and> frame a \<noteq> frame SharePageBase"
    and dist: "distinct (map frame (text_pages m @ data_pages m))"
    and c: "alloc_PCB s = Some c"
    and ch: "0 \<le> child_p_num (info (proc_cur s))" "child_p_num (info (proc_cur s)) < int NR_CHILD_MAX"
    and k: "pools k n (mman s)" "35 + length (text_pages m) + 2 * length (data_pages m) < k" "length (data_pages m) < n"
  shows "\<exists>s'. sys_fork s = Some (s', of_nat c)"
proof -
  have cc: "c < NR_PCBS" "c \<noteq> p_proc_current s" using alloc_PCB_Some[OF c] cur by auto
  have pc: "unat (pid (proc_table s c)) = c" "pid (proc_table s c) = of_nat c"
    "unat (pid (proc_cur s)) = p_proc_current s"
    using pids cc cur by (simp_all add: pids_ok_def unat_pid)
  have cp: "unat (pid (proc_table s c)) < NR_PCBS" using pc cc by simp
  have sk: "Suc (Suc (k - 2)) = k" "33 \<le> k - 2" using k(2) by arith+
  obtain s1 k1 where i: "init_page_pte (pid (proc_table s c)) s = Some (s1, 0)" "pools k1 n (mman s1)" "k \<le> k1 + 34"
  proof (rule init_page_pte_succeeds[OF inv cp, of "k - 2" n])
    show "pools (Suc (Suc (k - 2))) n (mman s)" using k(1) sk by simp
  qed (use sk that in auto)
  obtain dc where dc: "dc \<notin> D" "get_pde_phy_addr (pid (proc_table s c)) s1 = Some dc" "mem_inv (insert dc D) s1"
    "\<forall>e \<in> D. \<forall>b. mmu (phys s1) e b = mmu (phys s) e b" "avail (mman s1) \<subseteq> avail (mman s)"
    and upd: "\<exists>m g. s1 = s\<lparr>proc_table := (proc_table s)(c := (proc_table s c)\<lparr>cr3 := dc\<rparr>), phys := m, mman := g\<rparr>"
    using init_page_pte_spec[OF inv cp i(1)] pc by auto
  have s1: "p_proc_current s1 = p_proc_current s" "proc_cur s1 = proc_cur s" "pid (proc_table s1 c) = pid (proc_table s c)"
    using upd cc by auto
  define s2 where "s2 = fork_pcb_cpy c s1"
  have s2: "phys s2 = phys s1" "mman s2 = mman s1" "proc_cur s2 = proc_cur s" "pid (proc_table s2 c) = pid (proc_table s c)"
    using s1 cc by (simp_all add: s2_def)
  have inv2: "mem_inv (insert dc D) s2" using dc(3) by (simp add: mem_inv_def s2)
  have d2: "get_pde_phy_addr (pid (proc_cur s)) s2 = Some d"
  proof -
    have "get_pde_phy_addr (pid (proc_cur s)) s1 = get_pde_phy_addr (pid (proc_cur s)) s"
      using upd cc by (intro get_pde_cong) (auto simp: pc)
    then show ?thesis using d by (simp add: s2_def)
  qed
  have dc2: "get_pde_phy_addr (pid (proc_table s c)) s2 = Some dc" using dc(2) by (simp add: s2_def)
  have dD: "d \<in> insert dc D" "dc \<in> insert dc D" "dc \<noteq> d" using d(2) dc(1) by auto
  have own2: "own_page d s2 a \<and> frame a \<noteq> frame SharePageBase" if a: "a \<in> set (text_pages m @ data_pages m)" for a
  proof -
    obtain x where "mmu (phys s) d a = Some x" "user_page (frame x)" "page_bytes (frame x) \<inter> avail (mman s) = {}"
      using own[OF a] by (auto simp: own_page_def)
    then show ?thesis using own[OF a] dc(4,5) d(2) unfolding own_page_def s2 by fastforce
  qed
  obtain s3 k3 where sh: "run_pages (share_page (pid (proc_cur s)) (pid (proc_table s c))) (text_pages m) s2 = Some s3"
    "pools k3 n (mman s3)" "k1 \<le> k3 + length (text_pages m)"
    using run_share_succeeds[OF inv2 d2 dD(1) dc2 dD(2,3), of "text_pages m" k1 n] own2 i(2,3) k(2) by (auto simp: s2)
  have S: "mem_inv (insert dc D) s3 \<and> tables_changed (insert dc D) s2 s3 \<and>
    (\<forall>a \<in> set (text_pages m). mmu (phys s3) dc a = mmu (phys s2) d a) \<and>
    (\<forall>e \<in> insert dc D. \<forall>b. e \<noteq> dc \<or> frame b \<notin> frame ` set (text_pages m) \<longrightarrow> mmu (phys s3) e b = mmu (phys s2) e b)"
    by (rule run_share_pages[OF inv2 d2 dD(1) dc2 dD(2,3) _ _ sh(1)]) (use own2 dist in auto)
  note tc = tables_changedD[OF conjunct1[OF conjunct2[OF S]]]
  have own3: "own_page d s3 a \<and> frame a \<noteq> frame SharePageBase" if a: "a \<in> set (data_pages m)" for a
  proof -
    obtain x where "mmu (phys s2) d a = Some x" "user_page (frame x)" "page_bytes (frame x) \<inter> avail (mman s2) = {}"
      using own2[of a] a by (auto simp: own_page_def)
    then show ?thesis using own2[of a] a S dD tc(9) unfolding own_page_def by fastforce
  qed
  have cd3: "cur_dir s3 = d"
  proof -
    have "table_page d" using paging_dir(1) inv d(2) unfolding mem_inv_def by blast
    then have "d \<noteq> - 1" by (auto simp: table_page_def KWALL_def minus_one_u32)
    then show ?thesis
      using d(1) tc(1,2) s2(3) cur pc(3) by (auto simp: cur_dir_def get_pde_phy_addr_def split: if_splits)
  qed
  have "\<exists>s4. run_pages (copy_page (pid (proc_cur s)) (pid (proc_table s c))) (data_pages m) s3 = Some s4"
    by (rule run_copy_succeeds[OF conjunct1[OF S] _ dD(1) cd3 _ dD(2,3) own3 sh(2)])
      (use d2 dc2 tc(8) k(2,3) i(3) sh(3) in auto)
  then obtain s4 where cy: "run_pages (copy_page (pid (proc_cur s)) (pid (proc_table s c))) (data_pages m) s3 = Some s4" ..
  have mc: "fork_mem_cpy (pid (proc_cur s)) (pid (proc_table s c)) s2 = Some s4"
    using fork_mem_cpy_run[of s2] m sh(1) cy by (simp add: m_def s2)
  have C: "only_memory s3 s4"
    using run_copy_pages[OF conjunct1[OF S] _ dD(1) cd3 _ dD(2,3) own3 _ cy] d2 dc2 tc(8) dist by auto
  have "proc_table s4 = proc_table s2" "p_proc_current s4 = p_proc_current s2"
    using only_memoryD(1,2)[OF C] tc(1,2) by simp_all
  then have p4: "proc_cur s4 = proc_cur s" "pid (proc_table s4 c) = of_nat c" using s2(3,4) pc(2) by simp_all
  obtain s' r where fe: "fork_end c s4 = Some (s', r)"
    using fork_end_succeeds[of s4 c] ch p4(1) by auto
  then have "r = of_nat c" using fork_end_simps(3)[OF fe] p4(2) by simp
  then show ?thesis using i(1) mc fe s1 s2 by (auto simp: sys_fork_unfold[OF c] s2_def[symmetric])
qed

text \<open>What a process must be for its fork to work: its pages are mapped to pages of the users' pool of its own, no two of
  them are the same page, and none is the shared page.\<close>

definition can_fork :: "u32 set \<Rightarrow> u32 \<Rightarrow> 'a kmem_scheme \<Rightarrow> bool" where
  "can_fork D d s \<longleftrightarrow>
     (let m = memmap (proc_cur s); as = text_pages m @ data_pages m in
      mem_inv D s \<and> pids_ok s \<and> p_proc_current s < NR_PCBS \<and> stat (proc_cur s) \<noteq> IDLE \<and>
      get_pde_phy_addr (pid (proc_cur s)) s = Some d \<and> d \<in> D \<and> memmap_ok m \<and>
      (\<forall>a \<in> set as. own_page d s a \<and> frame a \<noteq> frame SharePageBase) \<and> distinct (map frame as))"

text \<open>
  C3. \<^verbatim>\<open>sys_fork\<close> gives the child a page directory of its own. Each code page of the parent is mapped
  in it to the same memory, each data, heap, stack and argument page to a page that was free and
  now has the same content; no other user address is mapped. The translations of all other
  processes, those of the parent except for its shared page, and all memory that was in
  use outside the page tables there were stay as they are. It succeeds when enough memory is free.
\<close>

theorem fork_copies_memory:
  fixes s :: "'a kmem_scheme"
  assumes "can_fork D d s" "alloc_PCB s = Some c"
  shows "(\<forall>k n. pools k n (mman s) \<and> 35 + length (text_pages (memmap (proc_cur s))) + 2 * length (data_pages (memmap (proc_cur s))) < k \<and>
      length (data_pages (memmap (proc_cur s))) < n \<and> 0 \<le> child_p_num (info (proc_cur s)) \<and>
      child_p_num (info (proc_cur s)) < int NR_CHILD_MAX \<longrightarrow> (\<exists>s'. sys_fork s = Some (s', of_nat c))) \<and>
    (\<forall>s' r. sys_fork s = Some (s', r) \<longrightarrow>
      r = of_nat c \<and> (\<exists>dc. dc \<notin> D \<and> get_pde_phy_addr r s' = Some dc \<and> mem_inv (insert dc D) s' \<and>
        (\<forall>a \<in> set (text_pages (memmap (proc_cur s))). mmu (phys s') dc a = mmu (phys s) d a) \<and>
        (\<forall>a \<in> set (data_pages (memmap (proc_cur s))). copied d dc s s' a) \<and>
        (\<forall>b. frame b \<notin> frame ` set (text_pages (memmap (proc_cur s)) @ data_pages (memmap (proc_cur s))) \<longrightarrow>
           mmu (phys s') dc b = (if KernelLinBase \<le> b \<and> b < KernelLinBase + KernelSize then Some (K_LIN2PHY b) else None)) \<and>
        (\<forall>e \<in> D. \<forall>b. e \<noteq> d \<or> frame b \<noteq> frame SharePageBase \<longrightarrow> mmu (phys s') e b = mmu (phys s) e b) \<and>
        (\<forall>k. k \<notin> table_bytes (phys s) D \<and> k \<notin> avail (mman s) \<longrightarrow> phys s' k = phys s k)))"
proof -
  let ?m = "memmap (proc_cur s)"
  have h: "mem_inv D s" "pids_ok s" "p_proc_current s < NR_PCBS" "stat (proc_cur s) \<noteq> IDLE"
    "get_pde_phy_addr (pid (proc_cur s)) s = Some d" "d \<in> D" "memmap_ok ?m"
    and own: "\<And>a. a \<in> set (text_pages ?m @ data_pages ?m) \<Longrightarrow> own_page d s a \<and> frame a \<noteq> frame SharePageBase"
    and dist: "distinct (map frame (text_pages ?m @ data_pages ?m))"
    using assms(1) unfolding can_fork_def Let_def by blast+
  show ?thesis
    by (intro conjI[OF allI[OF allI[OF impI]] allI[OF allI[OF impI]]])
      (elim conjE, rule fork_succeeds[OF h own dist assms(2)], assumption+,
       rule fork_spec[OF h own dist assms(2)], assumption+)
qed

text \<open>A process with one page of data.\<close>

definition demo_fork :: kmem where
  "demo_fork = upd_proc 1 (\<lambda>p. p\<lparr>memmap := (memmap p)\<lparr>data_lin_base := 0x20000000, data_lin_limit := 0x20000004,
     stack_lin_base := 0x1000, stack_lin_limit := 0x1000\<rparr>\<rparr>) demo_kmem"

lemma demo_fork_simps:
  "phys demo_fork = phys demo_kmem" "mman demo_fork = mman demo_kmem" "p_proc_current demo_fork = 1"
  "get_pde_phy_addr 1 demo_fork = Some 0x400000" "pid (proc_cur demo_fork) = 1" "stat (proc_cur demo_fork) = READY"
  "pids_ok demo_fork" "alloc_PCB demo_fork = Some 4" "child_p_num (info (proc_cur demo_fork)) = 0"
  "text_pages (memmap (proc_cur demo_fork)) = []" "data_pages (memmap (proc_cur demo_fork)) = [0x20000000]"
  "memmap_ok (memmap (proc_cur demo_fork))"
proof -
  have c: "p_proc_current demo_fork = 1"
    by (simp add: demo_fork_def demo_kmem_def upd_proc_def kproc.defs kmem.defs demo_kproc_def)
  have t: "proc_table demo_fork = demo_table(1 := (demo_table 1)\<lparr>cr3 := 0x400000, memmap := (memmap (demo_table 1))\<lparr>
      data_lin_base := 0x20000000, data_lin_limit := 0x20000004, stack_lin_base := 0x1000, stack_lin_limit := 0x1000\<rparr>\<rparr>)"
    by (simp add: demo_fork_def demo_kmem_def upd_proc_def kproc.defs kmem.defs)
  show "phys demo_fork = phys demo_kmem" "mman demo_fork = mman demo_kmem"
    by (simp_all add: demo_fork_def upd_proc_def)
  show "p_proc_current demo_fork = 1" by (rule c)
  show "get_pde_phy_addr 1 demo_fork = Some 0x400000"
    by (simp add: get_pde_phy_addr_def t NR_PCBS_def)
  show "pid (proc_cur demo_fork) = 1" "stat (proc_cur demo_fork) = READY" "child_p_num (info (proc_cur demo_fork)) = 0"
    by (simp_all add: c t demo_table_def demo_PCB_def)
  show "pids_ok demo_fork" by (auto simp: pids_ok_def t demo_table_def demo_PCB_def)
  show "alloc_PCB demo_fork = Some 4"
    by (simp add: alloc_PCB_def NR_K_PCBS_def alloc_PCB_loop.simps NR_PCBS_def t demo_table_def demo_PCB_def)
  show "text_pages (memmap (proc_cur demo_fork)) = []" "data_pages (memmap (proc_cur demo_fork)) = [0x20000000]"
    "memmap_ok (memmap (proc_cur demo_fork))"
    by (simp_all add: c t demo_table_def demo_PCB_def text_pages_def data_pages_def up_list_def down_list_def memmap_ok_def
        KernelLinBase_def num_4K_def)
qed

theorem fork_copies_memory_witness:
  "\<exists>s s' dc f. lin_mapping_phy 0x20000000 MAX_UNSIGNED_INT 1 user_rw user_rw demo_fork = Some (s, 0) \<and>
     sys_fork s = Some (s', 4) \<and> get_pde_phy_addr 4 s' = Some dc \<and> dc \<noteq> 0x400000 \<and>
     mmu (phys s') dc 0x20000123 = Some (f OR 0x123) \<and> mmu (phys s) 0x400000 0x20000123 \<noteq> Some (f OR 0x123)"
proof -
  let ?a = "0x20000000 :: u32" and ?D = "{0x400000 :: u32}"
  have inv: "mem_inv ?D demo_fork" using demo_inv by (simp add: mem_inv_def demo_fork_simps)
  have "entry (\<lambda>_. 0) d i = 0" for d i by (simp add: entry_def)
  then have none: "mmu (phys demo_fork) 0x400000 ?a = None"
    using user_attrs(5) by (simp add: demo_fork_simps mmu_def Let_def)
  have po: "pools 256 (Suc 255) (mman demo_fork)" using demo_pool by (simp add: demo_fork_simps)
  have ua: "\<not> ?a \<ge> K_PHY2LIN 0" by (simp add: K_PHY2LIN_def)
  obtain s where l: "lin_mapping_phy ?a MAX_UNSIGNED_INT 1 user_rw user_rw demo_fork = Some (s, 0)"
    and ps: "pools (if present (entry (phys demo_fork) 0x400000 (get_pde_index ?a)) then 256 else 256 - 1) 255 (mman s)"
    by (rule lin_mapping_fresh[where attr = user_rw, OF inv demo_fork_simps(4) insertI1 user_attrs(1,2) ua none po]) auto
  note sp = lin_mapping_spec[OF inv demo_fork_simps(4) insertI1 user_attrs(1,2,2) l]
  note tc = tables_changedD[OF sp(2)]
  obtain g where g: "mmu (phys s) 0x400000 ?a = Some g" "frame g = g" "user_page g"
    "page_bytes g \<inter> avail (mman s) = {}"
    using sp(3) none user_attrs(1) ua by (auto simp: maps_to_def user_page_def)
  have cur: "proc_cur s = proc_cur demo_fork" using tc(1,2) by simp
  have can: "can_fork ?D 0x400000 s"
    unfolding can_fork_def Let_def cur demo_fork_simps(5,6,10,11)
  proof (intro conjI)
    show "mem_inv ?D s" by (rule sp(1))
    show "pids_ok s" using demo_fork_simps(7) tc(1) by (simp add: pids_ok_def)
    show "p_proc_current s < NR_PCBS" using tc(2) demo_fork_simps(3) by (simp add: NR_PCBS_def)
    show "get_pde_phy_addr 1 s = Some 0x400000" using tc(8) demo_fork_simps(4) by simp
    show "\<forall>a\<in>set ([] @ [?a]). own_page 0x400000 s a \<and> frame a \<noteq> frame SharePageBase"
      using g by (simp add: own_page_def share_facts) (simp add: frame_def SharePageBase_def)
    show "memmap_ok (memmap (proc_cur demo_fork))" by (rule demo_fork_simps(12))
  qed simp_all
  have al: "alloc_PCB s = Some 4"
  proof -
    have "alloc_PCB_loop s i = alloc_PCB_loop demo_fork i" for i
    proof (induction demo_fork i rule: alloc_PCB_loop.induct)
      case (1 i)
      then show ?case
        by (subst alloc_PCB_loop.simps, subst (2) alloc_PCB_loop.simps) (simp add: tc(1))
    qed
    then show ?thesis using demo_fork_simps(8) by (simp add: alloc_PCB_def)
  qed
  note t = fork_copies_memory[OF can al, unfolded cur demo_fork_simps(9-11)]
  have "\<exists>k n. pools k n (mman s) \<and> 37 < k \<and> 1 < n" 
    by (intro exI[of _ "if present (entry (phys demo_fork) 0x400000 (get_pde_index ?a)) then 256 else 256 - 1"]
        exI[of _ 255]) (use ps in auto)
  then obtain s' where f: "sys_fork s = Some (s', of_nat 4)"
    using conjunct1[OF t] by (auto simp: NR_CHILD_MAX_def NR_PCBS_def NR_K_PCBS_def)
  obtain dc where dc: "dc \<notin> ?D" "get_pde_phy_addr (of_nat 4) s' = Some dc" "copied 0x400000 dc s s' ?a"
    using conjunct2[OF t] f by fastforce
  obtain h where h: "mmu (phys s') dc ?a = Some (h OR (?a AND 0xFFF))" "user_page h" "page_bytes h \<subseteq> avail (mman s)"
    using dc(3) by (auto simp: copied_def)
  have fr: "frame 0x20000123 = frame ?a" by (simp add: frame_def)
  have hf: "frame h = h" using h(2) by (simp add: user_page_def)
  have m1: "mmu (phys s') dc 0x20000123 = Some (h OR 0x123)"
    using mmu_same_page[OF fr, of "phys s'" dc] h(1) hf by simp
  have m2: "mmu (phys s) 0x400000 0x20000123 = Some (g OR 0x123)"
    using mmu_same_page[OF fr, of "phys s" "0x400000"] g(1,2) by simp
  have "h \<noteq> g" using h(3) g(4) page_in_nonempty by blast
  have "g OR 0x123 \<noteq> h OR 0x123"
  proof
    assume "g OR 0x123 = h OR 0x123"
    then show False
      using \<open>h \<noteq> g\<close> frame_or_offset[of g "0x123"] frame_or_offset[of h "0x123"] unfolding g(2) hf by simp
  qed
  then show ?thesis using l f dc(1,2) m1 m2 by (intro exI[of _ s] exI[of _ s'] exI[of _ dc] exI[of _ h]) simp
qed

end
