(* ===== verification/Sched.thy ===== *)
theory Sched
  imports ForkLaws
begin

text \<open>
  The processes over time. An \<open>event\<close> is what may happen between two switches: a clock interrupt, the end of a system call or
  of another interrupt (both end in \<^verbatim>\<open>sched\<close>, see \<^verbatim>\<open>kernel.asm\<close>), a process that yields,
  blocks, is killed, forks or starts a thread, or a wakeup from an interrupt handler. \<open>run\<close> makes
  a list of events happen. A \<open>Tick\<close> is a clock interrupt that comes outside of other interrupts: nested in one it would
  return without \<^verbatim>\<open>sched\<close>. The theory shows that no process waits forever.
\<close>

datatype event = Tick | Return | Yield | Block u32 | Wake u32 | Kill | Fork | Thread u32

fun step :: "event \<Rightarrow> 'a kmem_scheme \<Rightarrow> 'a kmem_scheme option" where
  "step Tick s = sched (clock_handler s)"
| "step Return s = sched s"
| "step Yield s = sys_yield s"
| "step (Block ch) s = sched (upd_proc (p_proc_current s) (\<lambda>p. p\<lparr>stat := SLEEPING, channel := ch\<rparr>) s)"
| "step (Wake ch) s = Some (sys_wakeup ch s)"
| "step Kill s = sched (exception_kill s)"
| "step Fork s = map_option fst (sys_fork s)"
| "step (Thread start) s = map_option fst (sys_pthread start s)"

fun run :: "event list \<Rightarrow> 'a kmem_scheme \<Rightarrow> 'a kmem_scheme option" where
  "run [] s = Some s"
| "run (e # es) s = (case step e s of None \<Rightarrow> None | Some s \<Rightarrow> run es s)"

subsection \<open>What the scheduler sees\<close>

text \<open>Of a process: its state, ticks and priority, and whether the kernel is still starting (the clock then counts
  no ticks of processes).\<close>

definition view :: "'a kproc_scheme \<Rightarrow> nat \<Rightarrow> bool \<times> proc_stat \<times> int \<times> int" where
  "view s q = (kernel_initial s, stat (proc_table s q), ticks (proc_table s q), priority (proc_table s q))"

text \<open>A new process or thread: a control block that was not in use becomes ready, with the ticks and the priority
  of another.\<close>

definition spawns :: "'a kproc_scheme \<Rightarrow> 'a kproc_scheme \<Rightarrow> bool" where
  "spawns s s' \<longleftrightarrow> p_proc_current s' = p_proc_current s \<and>
     ((\<forall>q. view s' q = view s q) \<or>
      (\<exists>c par. c < NR_PCBS \<and> par < NR_PCBS \<and> stat (proc_table s c) = IDLE \<and>
         view s' c = (kernel_initial s, READY, ticks (proc_table s par), priority (proc_table s par)) \<and>
         (\<forall>q. q \<noteq> c \<longrightarrow> view s' q = view s q)))"

text \<open>Everything that works on memory leaves the control blocks alone.\<close>

lemma only_memory_mman: "only_memory s (s\<lparr>mman := m\<rparr>)"
  unfolding only_memory_def by (metis kmem.surjective kmem.update_convs(1,2))

lemma kmalloc_page_memory: "kmalloc_page s = (s', a) \<Longrightarrow> only_memory s s'"
  by (auto simp: kmalloc_page_def only_memory_mman split: prod.splits)

lemma malloc_page_memory: "malloc_page s = (s', a) \<Longrightarrow> only_memory s s'"
  by (auto simp: malloc_page_def only_memory_mman split: prod.splits)

lemma kmemset_memory: "kmemset a b n s = Some s' \<Longrightarrow> only_memory s s'"
  by (auto simp: kmemset_def only_memory_upd split: if_splits)

lemma kstore32_memory: "kstore32 a w s = Some s' \<Longrightarrow> only_memory s s'"
  by (auto simp: kstore32_def only_memory_upd split: if_splits)

lemma mapping_table_memory: "mapping_table a p attr s = Some (s', r) \<Longrightarrow> only_memory s s'"
  by (auto simp: mapping_table_def write_page_pde_def Let_def split: bind_splits prod.splits if_splits
      dest!: kmalloc_page_memory kmemset_memory kstore32_memory intro: only_memory_trans)

lemma mapping_page_memory: "mapping_page a pa t s = Some (s', r) \<Longrightarrow> only_memory s s'"
  by (auto simp: mapping_page_def split: bind_splits prod.splits if_splits
      dest!: kmalloc_page_memory malloc_page_memory)

lemma lin_mapping_memory: "lin_mapping_phy a pa p pattr attr s = Some (s', r) \<Longrightarrow> only_memory s s'"
  by (auto simp: lin_mapping_phy_def write_page_pte_def split: bind_splits prod.splits if_splits sum.splits option.splits
      dest!: mapping_table_memory mapping_page_memory kstore32_memory intro: only_memory_trans)

lemma init_page_loop_memory: "init_page_loop p a b n s = Some (s', r) \<Longrightarrow> only_memory s s'"
  by (induction n arbitrary: a b s)
    (auto split: bind_splits prod.splits if_splits dest!: lin_mapping_memory intro: only_memory_trans)

lemma pages_up_memory:
  assumes body: "\<And>a s s'. body a s = Some s' \<Longrightarrow> only_memory s s'" and r: "pages_up body a lim s = Some s'"
  shows "only_memory s s'"
proof -
  have "(\<forall>a s s'. body a s = Some s' \<longrightarrow> only_memory s s') \<longrightarrow> only_memory s s'"
    by (rule pages_up.raw_induct[where P = "\<lambda>body a lim s s'.
          (\<forall>a s s'. body a s = Some s' \<longrightarrow> only_memory s s') \<longrightarrow> only_memory s s'", OF _ r])
      (auto split: if_splits bind_splits, meson only_memory_trans)
  with body show ?thesis by blast
qed

lemma pages_down_memory:
  assumes body: "\<And>a s s'. body a s = Some s' \<Longrightarrow> only_memory s s'" and r: "pages_down body a lim s = Some s'"
  shows "only_memory s s'"
proof -
  have "(\<forall>a s s'. body a s = Some s' \<longrightarrow> only_memory s s') \<longrightarrow> only_memory s s'"
    by (rule pages_down.raw_induct[where P = "\<lambda>body a lim s s'.
          (\<forall>a s s'. body a s = Some s' \<longrightarrow> only_memory s s') \<longrightarrow> only_memory s s'", OF _ r])
      (auto split: if_splits bind_splits, meson only_memory_trans)
  with body show ?thesis by blast
qed

lemma memcpy_page_memory: "memcpy_page d a s = Some s' \<Longrightarrow> only_memory s s'"
  by (auto simp: memcpy_page_def only_memory_upd split: bind_splits)

lemma share_page_memory: "share_page p c a s = Some s' \<Longrightarrow> only_memory s s'"
  by (auto simp: share_page_def split: bind_splits dest: lin_mapping_memory)

lemma copy_page_memory: "copy_page p c a s = Some s' \<Longrightarrow> only_memory s s'"
  by (auto simp: copy_page_def split: bind_splits dest!: lin_mapping_memory memcpy_page_memory)
    (meson only_memory_trans)

lemma map_stack_memory: "map_stack_page p a s = Some s' \<Longrightarrow> only_memory s s'"
  by (auto simp: map_stack_page_def split: bind_splits dest: lin_mapping_memory)

lemma up_share_memory: "pages_up (share_page p c) a lim s = Some s' \<Longrightarrow> only_memory s s'"
  by (erule pages_up_memory[rotated]) (rule share_page_memory)

lemma up_copy_memory: "pages_up (copy_page p c) a lim s = Some s' \<Longrightarrow> only_memory s s'"
  by (erule pages_up_memory[rotated]) (rule copy_page_memory)

lemma down_copy_memory: "pages_down (copy_page p c) a lim s = Some s' \<Longrightarrow> only_memory s s'"
  by (erule pages_down_memory[rotated]) (rule copy_page_memory)

lemma down_stack_memory: "pages_down (map_stack_page p) a lim s = Some s' \<Longrightarrow> only_memory s s'"
  by (erule pages_down_memory[rotated]) (rule map_stack_memory)

lemma fork_mem_cpy_memory: "fork_mem_cpy p c s = Some s' \<Longrightarrow> only_memory s s'"
  by (auto simp: fork_mem_cpy_def Let_def split: bind_splits
      dest!: up_share_memory up_copy_memory down_copy_memory)
    (meson only_memory_trans)

lemma view_memory: "only_memory s s' \<Longrightarrow> view s' q = view s q"
  by (simp add: view_def only_memoryD)

lemma init_page_pte_view:
  assumes "init_page_pte p s = Some (s', r)"
  shows "view s' q = view s q" "p_proc_current s' = p_proc_current s" "pid (proc_table s' q) = pid (proc_table s q)"
proof -
  obtain s1 a where k: "kmalloc_page s = (s1, a)" by fastforce
  obtain s2 where z: "kmemset (K_PHY2LIN a) 0 (unat num_4K) s1 = Some s2"
    using assms by (auto simp: init_page_pte_def k split: bind_splits)
  have m: "only_memory s s2" using only_memory_trans[OF kmalloc_page_memory[OF k] kmemset_memory[OF z]] .
  consider "s' = s2"
    | n where "init_page_loop p KernelLinBase 0 n (upd_proc (unat p) (cr3_update (\<lambda>_. a)) s2) = Some (s', r)"
    using assms by (auto simp: init_page_pte_def k z split: if_splits)
  then show "view s' q = view s q" "p_proc_current s' = p_proc_current s" "pid (proc_table s' q) = pid (proc_table s q)"
  proof (atomize(full), cases)
    case 1
    then show "view s' q = view s q \<and> p_proc_current s' = p_proc_current s \<and> pid (proc_table s' q) = pid (proc_table s q)"
      using m by (simp add: view_memory only_memoryD)
  next
    case 2
    from init_page_loop_memory[OF this]
    show "view s' q = view s q \<and> p_proc_current s' = p_proc_current s \<and> pid (proc_table s' q) = pid (proc_table s q)"
      using only_memoryD[OF m] by (simp add: view_def only_memoryD) (simp add: upd_proc_def)
  qed
qed

lemma fork_end_view:
  assumes "fork_end c s = Some (s', r)" "c \<noteq> p_proc_current s"
  shows "p_proc_current s' = p_proc_current s" "q \<noteq> c \<Longrightarrow> view s' q = view s q"
    "view s' c = (kernel_initial s, READY, ticks (proc_table s c), priority (proc_table s c))"
  using assms
  by (auto simp: fork_end_def fork_update_info_def add_child_process_def upd_proc_def Let_def set_reg_def set_kreg_def
      set_name_def view_def split: bind_splits if_splits)

lemma fork_pcb_cpy_initial: "kernel_initial (fork_pcb_cpy c s) = kernel_initial s"
  by (simp add: fork_pcb_cpy_def upd_proc_def Let_def)

lemma sys_fork_spawns:
  assumes "sys_fork s = Some (s', r)" "p_proc_current s < NR_PCBS" "stat (proc_cur s) \<noteq> IDLE"
  shows "spawns s s'"
proof (cases "alloc_PCB s")
  case None
  then show ?thesis using assms(1) by (auto simp: sys_fork_def spawns_def)
next
  case (Some c)
  have c: "c < NR_PCBS" "stat (proc_table s c) = IDLE" "c \<noteq> p_proc_current s"
    using alloc_PCB_Some[OF Some] assms(3) by auto
  obtain s1 r1 s3 where i: "init_page_pte (pid (proc_table s c)) s = Some (s1, r1)"
    and f: "fork_mem_cpy (pid (proc_cur s1)) (pid (proc_table (fork_pcb_cpy c s1) c)) (fork_pcb_cpy c s1) = Some s3"
    and e: "fork_end c s3 = Some (s', r)"
    using assms(1) by (auto simp: sys_fork_unfold[OF Some] split: bind_splits)
  note v1 = init_page_pte_view[OF i]
  note m = fork_mem_cpy_memory[OF f]
  have cur: "p_proc_current s3 = p_proc_current s" using only_memoryD(2)[OF m] v1(2) by simp
  have v2: "view (fork_pcb_cpy c s1) q = view s q" if "q \<noteq> c" for q
    using v1(1)[of q] that by (simp add: view_def fork_pcb_cpy_initial)
  have vc: "ticks (proc_table (fork_pcb_cpy c s1) c) = ticks (proc_cur s)"
    "priority (proc_table (fork_pcb_cpy c s1) c) = priority (proc_cur s)"
    using v1(1)[of "p_proc_current s"] v1(2) by (simp_all add: view_def)
  have ini: "kernel_initial s3 = kernel_initial s"
    using v1(1)[of c] only_memoryD[OF m] view_memory[OF m, of c] by (simp add: view_def fork_pcb_cpy_initial)
  note fe = fork_end_view[OF e]
  have "view s' q = view s q" if "q \<noteq> c" for q
    using fe(2)[OF _ that] cur c(3) view_memory[OF m] v2[OF that] by simp
  moreover have "view s' c = (kernel_initial s, READY, ticks (proc_cur s), priority (proc_cur s))"
    using fe(3) cur c(3) vc ini only_memoryD(1)[OF m] by simp
  moreover have "p_proc_current s' = p_proc_current s" using fe(1) cur c(3) by simp
  ultimately show ?thesis unfolding spawns_def using c assms(2) by blast
qed

lemma pthread_stack_init_view:
  assumes "pthread_stack_init c p s = Some s'"
  shows "view s' q = view s q" "p_proc_current s' = p_proc_current s"
proof -
  let ?s = "pthread_stack_limits c p s"
  obtain s2 where d: "pages_down (map_stack_page (pid (proc_table ?s c))) (stack_lin_base (memmap (proc_table ?s c)))
      (stack_lin_limit (memmap (proc_table ?s c))) ?s = Some s2"
    and e: "s' = upd_proc c (\<lambda>t. set_reg ESPREG (stack_lin_base (memmap t)) t) s2"
    using assms by (auto simp: pthread_stack_init_def Let_def split: bind_splits)
  note m = down_stack_memory[OF d]
  have "view ?s q = view s q" "p_proc_current ?s = p_proc_current s"
    by (simp_all add: pthread_stack_limits_def Let_def view_def upd_proc_def)
  moreover have "view s' q = view s2 q" "p_proc_current s' = p_proc_current s2"
    by (auto simp: e view_def upd_proc_def set_reg_def set_kreg_def)
  ultimately show "view s' q = view s q" "p_proc_current s' = p_proc_current s"
    using view_memory[OF m, of q] only_memoryD(2)[OF m] by simp_all
qed

text \<open>The end of \<^verbatim>\<open>sys_pthread\<close>.\<close>

definition pthread_end :: "nat \<Rightarrow> nat \<Rightarrow> u32 \<Rightarrow> 'a kmem_scheme \<Rightarrow> ('a kmem_scheme \<times> u32) option" where
  "pthread_end c p start s = do {
     let s = pthread_heap_init c p s;
     let s = upd_proc c (set_reg EIPREG start) s;
     s \<leftarrow> pthread_update_info c p s;
     let s = upd_proc c (set_reg EAXREG 0 \<circ> set_name name_pthread) s;
     let s = s\<lparr>u_proc_sum := u_proc_sum s + 1\<rparr>;
     let s = upd_proc c (stat_update (\<lambda>_. READY)) s;
     Some (s, pid (proc_table s c))
   }"

lemma view_upd:
  assumes "stat (f (proc_table s p)) = stat (proc_table s p)" "ticks (f (proc_table s p)) = ticks (proc_table s p)"
    "priority (f (proc_table s p)) = priority (proc_table s p)"
  shows "view (upd_proc p f s) q = view s q" "p_proc_current (upd_proc p f s) = p_proc_current s"
  using assms by (auto simp: view_def upd_proc_def)

lemma add_child_thread_same:
  "add_child_thread x t = Some u \<Longrightarrow> stat u = stat t \<and> ticks u = ticks t \<and> priority u = priority t"
  by (auto simp: add_child_thread_def Let_def split: if_splits)

lemma pthread_info_process_view:
  assumes "pthread_info_process c p s = Some s'"
  shows "view s' q = view s q" "p_proc_current s' = p_proc_current s"
  using assms add_child_thread_same
  by (fastforce simp: pthread_info_process_def view_upd split: bind_splits if_splits)+

lemma pthread_info_thread_view:
  assumes "pthread_info_thread c p s = Some s'"
  shows "view s' q = view s q" "p_proc_current s' = p_proc_current s"
proof -
  obtain cur where c: "add_child_thread (pid (proc_table s c)) (proc_cur s) = Some cur"
    using assms by (auto simp: pthread_info_thread_def split: bind_splits)
  let ?s = "upd_proc (p_proc_current s) (\<lambda>_. cur) s"
  have "view ?s q = view s q" "p_proc_current ?s = p_proc_current s"
    using add_child_thread_same[OF c] by (simp_all add: view_upd)
  then show "view s' q = view s q" "p_proc_current s' = p_proc_current s"
    using assms by (auto simp: pthread_info_thread_def c Let_def view_upd)
qed

lemma pthread_update_info_view:
  assumes "pthread_update_info c p s = Some s'"
  shows "view s' q = view s q" "p_proc_current s' = p_proc_current s"
proof -
  obtain s1 where s1: "pthread_info_process c p s = Some s1" and s2: "pthread_info_thread c p s1 = Some s'"
    using assms by (auto simp: pthread_update_info_def split: bind_splits)
  show "view s' q = view s q" "p_proc_current s' = p_proc_current s"
    using pthread_info_process_view[OF s1] pthread_info_thread_view[OF s2] by simp_all
qed

lemma pthread_end_view:
  assumes "pthread_end c p start s = Some (s', r)" "c \<noteq> p_proc_current s"
  shows "p_proc_current s' = p_proc_current s" "q \<noteq> c \<Longrightarrow> view s' q = view s q"
    "view s' c = (kernel_initial s, READY, ticks (proc_table s c), priority (proc_table s c))"
proof -
  let ?s = "upd_proc c (set_reg EIPREG start) (pthread_heap_init c p s)"
  have v: "view ?s q = view s q" "p_proc_current ?s = p_proc_current s" for q
    by (simp_all add: view_def upd_proc_def pthread_heap_init_def set_reg_def set_kreg_def)
  obtain s1 where u: "pthread_update_info c p ?s = Some s1"
    and e: "s' = upd_proc c (stat_update (\<lambda>_. READY)) ((upd_proc c (set_reg EAXREG 0 \<circ> set_name name_pthread) s1)
        \<lparr>u_proc_sum := u_proc_sum (upd_proc c (set_reg EAXREG 0 \<circ> set_name name_pthread) s1) + 1\<rparr>)"
    using assms(1) by (auto simp: pthread_end_def Let_def split: bind_splits)
  note w = pthread_update_info_view[OF u]
  show "p_proc_current s' = p_proc_current s" using w(2) v(2) by (simp add: e upd_proc_def)
  show "q \<noteq> c \<Longrightarrow> view s' q = view s q"
    using w(1)[of q] v(1)[of q] by (simp add: e upd_proc_def view_def)
  show "view s' c = (kernel_initial s, READY, ticks (proc_table s c), priority (proc_table s c))"
    using w(1)[of c] v(1)[of c] by (simp add: e upd_proc_def view_def set_reg_def set_kreg_def set_name_def)
qed

lemma pthread_pcb_cpy_view:
  "kernel_initial (pthread_pcb_cpy c p s) = kernel_initial s"
  "q \<noteq> c \<Longrightarrow> view (pthread_pcb_cpy c p s) q = view s q"
  "ticks (proc_table (pthread_pcb_cpy c p s) c) = ticks (proc_table s p)"
  "priority (proc_table (pthread_pcb_cpy c p s) c) = priority (proc_table s p)"
  "p_proc_current (pthread_pcb_cpy c p s) = p_proc_current s"
  by (simp_all add: pthread_pcb_cpy_def upd_proc_def Let_def set_kreg_def copy_frame_def view_def)

lemma sys_pthread_spawns:
  assumes "sys_pthread start s = Some (s', r)" "p_proc_current s < NR_PCBS" "stat (proc_cur s) \<noteq> IDLE"
  shows "spawns s s'"
proof (cases "alloc_PCB s")
  case None
  then show ?thesis using assms(1) by (auto simp: sys_pthread_def spawns_def)
next
  case (Some c)
  have c: "c < NR_PCBS" "stat (proc_table s c) = IDLE" "c \<noteq> p_proc_current s"
    using alloc_PCB_Some[OF Some] assms(3) by auto
  obtain p s1 where p: "thread_parent s = Some p" and s1: "pthread_stack_init c p (pthread_pcb_cpy c p s) = Some s1"
    and e: "pthread_end c p start s1 = Some (s', r)"
    using assms(1) by (auto simp: sys_pthread_def Some pthread_end_def Let_def split: bind_splits)
  have "p < NR_PCBS" using p assms(2) by (auto simp: thread_parent_def Let_def split: if_splits)
  note v1 = pthread_stack_init_view[OF s1]
  have cur: "p_proc_current s1 = p_proc_current s" using v1(2) pthread_pcb_cpy_view(5)[of c p s] by simp
  note pe = pthread_end_view[OF e]
  have "view s' q = view s q" if "q \<noteq> c" for q
    using pe(2)[OF _ that] cur c(3) v1(1)[of q] pthread_pcb_cpy_view(2)[OF that] by simp
  moreover have "view s' c = (kernel_initial s, READY, ticks (proc_table s p), priority (proc_table s p))"
    using pe(3) cur c(3) v1(1)[of c] pthread_pcb_cpy_view(1,3,4)[of c p s] by (simp add: view_def)
  moreover have "p_proc_current s' = p_proc_current s" using pe(1) cur c(3) by simp
  ultimately show ?thesis unfolding spawns_def using c \<open>p < NR_PCBS\<close> by blast
qed


subsection \<open>No process waits forever\<close>

text \<open>Process \<open>p\<close> is ready with a positive priority, and no process has more than \<open>M\<close> ticks or a greater priority.\<close>

definition waiting :: "int \<Rightarrow> nat \<Rightarrow> 'a kproc_scheme \<Rightarrow> bool" where
  "waiting M p s \<longleftrightarrow> \<not> kernel_initial s \<and> p_proc_current s < NR_PCBS \<and>
     (\<forall>q<NR_PCBS. ticks (proc_table s q) \<le> M \<and> priority (proc_table s q) \<le> M) \<and>
     ready (proc_table s) p \<and> priority (proc_table s p) > 0"

text \<open>After \<^verbatim>\<open>sched\<close> the running process is moreover ready and has ticks left.\<close>

definition waiting_run :: "int \<Rightarrow> nat \<Rightarrow> 'a kproc_scheme \<Rightarrow> bool" where
  "waiting_run M p s \<longleftrightarrow> waiting M p s \<and> stat (proc_cur s) = READY \<and> ticks (proc_cur s) > 0"

text \<open>How many ticks may pass before \<open>p\<close> runs: those the processes have left, where a control block that is not in use may
  still get \<open>M\<close>, and, if \<open>p\<close> has none left, those that the next reset gives to all.\<close>

definition load :: "int \<Rightarrow> 'a kproc_scheme \<Rightarrow> nat \<Rightarrow> int" where
  "load M s q = (if stat (proc_table s q) = IDLE then M else max 0 (ticks (proc_table s q)))"

definition debt :: "int \<Rightarrow> nat \<Rightarrow> 'a kproc_scheme \<Rightarrow> int" where
  "debt M p s = (\<Sum>q<NR_PCBS. load M s q) + (if ticks (proc_table s p) > 0 then 0 else int NR_PCBS * M + 1)"

lemma waiting_M: "waiting M p s \<Longrightarrow> M > 0"
  by (force simp: waiting_def ready_def)

lemma load_bounds: "waiting M p s \<Longrightarrow> q < NR_PCBS \<Longrightarrow> 0 \<le> load M s q \<and> load M s q \<le> M"
  using waiting_M by (fastforce simp: load_def waiting_def)

lemma loads_bounds:
  assumes "waiting M p s"
  shows "0 \<le> (\<Sum>q<NR_PCBS. load M s q)" "(\<Sum>q<NR_PCBS. load M s q) \<le> int NR_PCBS * M"
proof -
  show "0 \<le> (\<Sum>q<NR_PCBS. load M s q)" by (rule sum_nonneg) (use load_bounds[OF assms] in simp)
  have "(\<Sum>q<NR_PCBS. load M s q) \<le> of_nat (card {..<NR_PCBS}) * M"
    by (rule sum_bounded_above) (use load_bounds[OF assms] in simp)
  then show "(\<Sum>q<NR_PCBS. load M s q) \<le> int NR_PCBS * M" by simp
qed

lemma debt_nonneg: "waiting M p s \<Longrightarrow> 0 \<le> debt M p s"
  using loads_bounds(1)[of M p s] waiting_M[of M p s] by (simp add: debt_def)

lemma debt_le: "waiting M p s \<Longrightarrow> debt M p s \<le> 2 * int NR_PCBS * M + 1"
proof -
  assume w: "waiting M p s"
  have "0 \<le> int NR_PCBS * M" using waiting_M[OF w] by simp
  then show ?thesis using loads_bounds(2)[OF w] by (simp add: debt_def algebra_simps)
qed

lemma debt_mono:
  assumes "\<And>q. q < NR_PCBS \<Longrightarrow> load M s' q \<le> load M s q" "ticks (proc_table s' p) = ticks (proc_table s p)"
  shows "debt M p s' \<le> debt M p s"
proof -
  have "(\<Sum>q<NR_PCBS. load M s' q) \<le> (\<Sum>q<NR_PCBS. load M s q)"
    by (rule sum_mono) (use assms(1) in simp)
  then show ?thesis using assms(2) by (simp add: debt_def)
qed

lemma debt_less:
  assumes "\<And>q. q < NR_PCBS \<Longrightarrow> load M s' q \<le> load M s q" "ticks (proc_table s' p) = ticks (proc_table s p)"
    and "c < NR_PCBS" "load M s' c < load M s c"
  shows "debt M p s' < debt M p s"
proof -
  have "(\<Sum>q<NR_PCBS. load M s' q) < (\<Sum>q<NR_PCBS. load M s q)"
    by (rule sum_strict_mono_ex1) (use assms in auto)
  then show ?thesis using assms(2) by (simp add: debt_def)
qed

lemma view_load: "view s' q = view s q \<Longrightarrow> load M s' q = load M s q"
  by (simp add: load_def view_def)

lemma debt_view:
  assumes v: "\<And>q. view s' q = view s q"
  shows "debt M p s' = debt M p s"
proof -
  have "load M s' = load M s" by (rule ext) (rule view_load, rule v)
  moreover have "ticks (proc_table s' p) = ticks (proc_table s p)" using v[of p] by (simp add: view_def)
  ultimately show ?thesis by (simp add: debt_def)
qed

lemma waiting_view:
  "(\<And>q. view s' q = view s q) \<Longrightarrow> p_proc_current s' = p_proc_current s \<Longrightarrow> waiting M p s' = waiting M p s"
  by (simp add: waiting_def view_def ready_def)

lemma switch_view:
  "view (switch_pde (s\<lparr>p_proc_current := n\<rparr>)) q = view s q" "p_proc_current (switch_pde (s\<lparr>p_proc_current := n\<rparr>)) = n"
  by (simp_all add: switch_pde_def view_def)

lemma waiting_refill:
  assumes "waiting M p s"
  shows "waiting M p (s\<lparr>proc_table := refill (proc_table s)\<rparr>)"
  using assms by (auto simp: waiting_def refill_def ready_def)

text \<open>A reset of all ticks happens only when no ready process has any left, so \<open>p\<close> gets some.\<close>

lemma debt_refill:
  assumes w: "waiting M p s" and none: "ticks (proc_table s p) \<le> 0"
  shows "debt M p (s\<lparr>proc_table := refill (proc_table s)\<rparr>) < debt M p s"
proof -
  let ?s = "s\<lparr>proc_table := refill (proc_table s)\<rparr>"
  have "ticks (proc_table ?s p) > 0" using w by (simp add: waiting_def refill_def ready_def)
  then have "debt M p ?s \<le> int NR_PCBS * M" using loads_bounds(2)[OF waiting_refill[OF w]] by (simp add: debt_def)
  also have "\<dots> < debt M p s" using none loads_bounds(1)[OF w] by (simp add: debt_def)
  finally show ?thesis .
qed

lemma sched_waiting:
  assumes w: "waiting M p s"
  shows "\<exists>s'. sched s = Some s' \<and> waiting_run M p s' \<and> debt M p s' \<le> debt M p s"
proof -
  have "ready (proc_table s) p" "priority (proc_table s p) > 0" and c: "p_proc_current s < NR_PCBS"
    using w by (auto simp: waiting_def)
  then obtain s1 where s1: "schedule s = Some s1" "chooses s s1"
    using schedule_cases[OF c] by (fastforce simp: not_less split: option.splits)
  define s' where "s' = switch_pde (s1\<lparr>p_proc_current := p_proc_next s1\<rparr>)"
  have s': "sched s = Some s'" by (simp add: sched_def s1 s'_def)
  consider (old) n where "n < NR_PCBS" "ready (proc_table s) n" "ticks (proc_table s n) > 0" "s1 = s\<lparr>p_proc_next := n\<rparr>"
    | (new) n where "n < NR_PCBS" "best (refill (proc_table s)) n" "ticks (proc_table s p) \<le> 0"
        "s1 = s\<lparr>proc_table := refill (proc_table s), p_proc_next := n\<rparr>"
  proof -
    have "ready (proc_table s) p" using w by (simp add: waiting_def)
    then have p: "ticks (proc_table s p) \<le> 0" if "\<not> (\<exists>q<NR_PCBS. ready (proc_table s) q \<and> ticks (proc_table s q) > 0)"
      using that by (auto simp: ready_def not_less)
    show thesis
    proof (cases "ready (proc_table s) (p_proc_current s) \<and> ticks (proc_cur s) > 0")
      case True
      then show thesis using s1(2) c by (intro old[of "p_proc_current s"]) (simp_all add: chooses_def)
    next
      case False
      show thesis
      proof (cases "\<exists>q<NR_PCBS. ready (proc_table s) q \<and> ticks (proc_table s q) > 0")
        case True
        with False s1(2) obtain n where "n < NR_PCBS" "best (proc_table s) n" "s1 = s\<lparr>p_proc_next := n\<rparr>"
          by (simp only: chooses_def if_False if_True) blast
        then show thesis by (intro old[of n]) (simp_all add: best_def)
      next
        case none: False
        with False s1(2) obtain n where "n < NR_PCBS" "best (refill (proc_table s)) n"
          "s1 = s\<lparr>proc_table := refill (proc_table s), p_proc_next := n\<rparr>"
          by (simp only: chooses_def if_False) blast
        then show thesis using p[OF none] by (intro new[of n])
      qed
    qed
  qed
  then show ?thesis
  proof cases
    case old
    have v: "view s' q = view s q" for q by (simp add: s'_def switch_view old(4)) (simp add: view_def)
    have n: "p_proc_current s' = n" by (simp add: s'_def switch_view old(4))
    have "waiting M p s'" using w old(1) n v by (simp add: waiting_def view_def ready_def)
    moreover have "stat (proc_cur s') = READY" "ticks (proc_cur s') > 0"
      using v[of n] old(2,3) n by (auto simp: view_def ready_def)
    ultimately show ?thesis using s' debt_view[OF v, of M p] by (simp add: waiting_run_def)
  next
    case new
    let ?r = "s\<lparr>proc_table := refill (proc_table s)\<rparr>"
    have v: "view s' q = view ?r q" for q by (simp add: s'_def switch_view new(4)) (simp add: view_def)
    have n: "p_proc_current s' = n" by (simp add: s'_def switch_view new(4))
    have "waiting M p s'" using waiting_refill[OF w] new(1) n v by (simp add: waiting_def view_def ready_def)
    moreover have "stat (proc_cur s') = READY" "ticks (proc_cur s') > 0"
      using v[of n] new(2) n by (auto simp: view_def best_def ready_def)
    ultimately show ?thesis using s' debt_view[OF v, of M p] debt_refill[OF w new(3)]
      by (simp add: waiting_run_def)
  qed
qed


subsection \<open>One event\<close>

definition is_spawn :: "event \<Rightarrow> bool" where
  "is_spawn e = (case e of Fork \<Rightarrow> True | Thread _ \<Rightarrow> True | _ \<Rightarrow> False)"

text \<open>After \<open>n\<close> of the events \<open>p\<close> runs, or the \<open>n\<close>-th has stopped outside the memory.\<close>

definition served :: "nat \<Rightarrow> nat \<Rightarrow> event list \<Rightarrow> 'a kmem_scheme \<Rightarrow> bool" where
  "served p n es s = (case run (take n es) s of
     Some s' \<Rightarrow> p_proc_current s' = p
   | None \<Rightarrow> 0 < n \<and> is_spawn (es ! (n - 1)))"

text \<open>A change of the running process only, which does not raise its ticks.\<close>

lemma waiting_upd:
  assumes w: "waiting_run M p s" and np: "p_proc_current s \<noteq> p"
    and t: "ticks (f (proc_cur s)) \<le> ticks (proc_cur s)" and pr: "priority (f (proc_cur s)) = priority (proc_cur s)"
    and st: "stat (f (proc_cur s)) \<noteq> IDLE"
  shows "waiting M p (upd_proc (p_proc_current s) f s)" "debt M p (upd_proc (p_proc_current s) f s) \<le> debt M p s"
    "ticks (f (proc_cur s)) < ticks (proc_cur s) \<Longrightarrow> debt M p (upd_proc (p_proc_current s) f s) < debt M p s"
proof -
  let ?s = "upd_proc (p_proc_current s) f s"
  have tm: "ticks (proc_cur s) \<le> M" using w by (simp add: waiting_run_def waiting_def)
  show "waiting M p ?s"
    using w np t pr tm by (auto simp: waiting_run_def waiting_def ready_def upd_proc_def)
  have l: "load M ?s q \<le> load M s q" for q
    using w t st by (auto simp: load_def upd_proc_def waiting_run_def)
  have p: "ticks (proc_table ?s p) = ticks (proc_table s p)" using np by (simp add: upd_proc_def)
  show "debt M p ?s \<le> debt M p s" by (rule debt_mono[OF l p])
  assume "ticks (f (proc_cur s)) < ticks (proc_cur s)"
  then have "load M ?s (p_proc_current s) < load M s (p_proc_current s)"
    using w t st by (auto simp: load_def upd_proc_def waiting_run_def)
  then show "debt M p ?s < debt M p s"
    using w by (intro debt_less[OF l p, of "p_proc_current s"]) (simp_all add: waiting_run_def waiting_def)
qed

lemma sys_wakeup_same [simp]:
  "kernel_initial (sys_wakeup ch s) = kernel_initial s" "p_proc_current (sys_wakeup ch s) = p_proc_current s"
  "ticks (proc_table (sys_wakeup ch s) q) = ticks (proc_table s q)"
  "priority (proc_table (sys_wakeup ch s) q) = priority (proc_table s q)"
  "stat (proc_table (sys_wakeup ch s) q) = IDLE \<longleftrightarrow> stat (proc_table s q) = IDLE"
  "stat (proc_table s q) = READY \<Longrightarrow> stat (proc_table (sys_wakeup ch s) q) = READY"
  by (auto simp: sys_wakeup_def wake_def)

lemma sys_wakeup_waiting:
  "waiting M p s \<Longrightarrow> waiting M p (sys_wakeup ch s)" "debt M p (sys_wakeup ch s) = debt M p s"
  "waiting_run M p s \<Longrightarrow> waiting_run M p (sys_wakeup ch s)"
  by (simp_all add: waiting_def waiting_run_def ready_def debt_def load_def cong: if_cong)

text \<open>A new process or thread starts with at most \<open>M\<close> ticks, which its control block counted for already.\<close>

lemma spawns_waiting:
  assumes sp: "spawns s s'" and w: "waiting_run M p s"
  shows "waiting_run M p s' \<and> debt M p s' \<le> debt M p s"
proof -
  have cur: "p_proc_current s' = p_proc_current s" using sp by (simp add: spawns_def)
  consider (same) "\<And>q. view s' q = view s q"
    | (new) c par where "c < NR_PCBS" "par < NR_PCBS" "stat (proc_table s c) = IDLE"
        "view s' c = (kernel_initial s, READY, ticks (proc_table s par), priority (proc_table s par))"
        "\<And>q. q \<noteq> c \<Longrightarrow> view s' q = view s q"
    using sp unfolding spawns_def by blast
  then show ?thesis
  proof cases
    case same
    then show ?thesis using w cur waiting_view[OF same cur, of M p] debt_view[OF same, of M p] same[of "p_proc_current s"]
      by (simp add: waiting_run_def view_def)
  next
    case new
    have rd: "stat (proc_cur s) = READY" "stat (proc_table s p) = READY"
      using w by (simp_all add: waiting_run_def waiting_def ready_def)
    then have ne: "p_proc_current s \<noteq> c" "p \<noteq> c" using new(3) by auto
    have b: "ticks (proc_table s' q) \<le> M \<and> priority (proc_table s' q) \<le> M" if "q < NR_PCBS" for q
      using new(2,4) new(5)[of q] w that by (cases "q = c") (simp_all add: waiting_run_def waiting_def view_def)
    have w': "waiting_run M p s'"
      using w b cur new(5)[OF ne(1)] new(5)[OF ne(2)] by (simp add: waiting_run_def waiting_def view_def ready_def)
    have "load M s' q \<le> load M s q" if "q < NR_PCBS" for q
      using view_load[OF new(5), of q M] load_bounds[of M p s' q] w' new(3) that
      by (cases "q = c") (simp_all add: waiting_run_def load_def)
    moreover have "ticks (proc_table s' p) = ticks (proc_table s p)" using new(5)[OF ne(2)] by (simp add: view_def)
    ultimately have "debt M p s' \<le> debt M p s" by (rule debt_mono)
    with w' show ?thesis ..
  qed
qed

lemma clock_waiting:
  assumes w: "waiting_run M p s" and np: "p_proc_current s \<noteq> p"
  shows "waiting M p (clock_handler s) \<and> debt M p (clock_handler s) < debt M p s"
proof -
  let ?s = "s\<lparr>g_ticks := g_ticks s + 1\<rparr>"
  have v: "view ?s q = view s q" for q by (simp add: view_def)
  have w': "waiting_run M p ?s" using w waiting_view[OF v, of M p] by (simp add: waiting_run_def)
  have "clock_handler s = sys_wakeup (addr_ticks ?s) (upd_proc (p_proc_current ?s) (ticks_update (\<lambda>t. t - 1)) ?s)"
    using w by (simp add: clock_handler_def waiting_run_def waiting_def)
  moreover have "waiting M p (upd_proc (p_proc_current ?s) (ticks_update (\<lambda>t. t - 1)) ?s)"
    "debt M p (upd_proc (p_proc_current ?s) (ticks_update (\<lambda>t. t - 1)) ?s) < debt M p ?s"
    using waiting_upd(1,3)[OF w', of "ticks_update (\<lambda>t. t - 1)"] np w by (simp_all add: waiting_run_def)
  ultimately show ?thesis using debt_view[OF v, of M p] by (simp add: sys_wakeup_waiting)
qed


lemma step_spawns:
  assumes "step e s = Some s'" "is_spawn e" "p_proc_current s < NR_PCBS" "stat (proc_cur s) \<noteq> IDLE"
  shows "spawns s s'"
  using assms sys_fork_spawns[of s s'] sys_pthread_spawns[of _ s s']
  by (cases e) (auto simp: is_spawn_def)

text \<open>Each event that does not stop outside the memory keeps \<open>p\<close> waiting or runs it; each clock tick brings it nearer.\<close>

lemma step_waiting:
  assumes w: "waiting_run M p s" and np: "p_proc_current s \<noteq> p"
  shows "case step e s of
     None \<Rightarrow> is_spawn e
   | Some s' \<Rightarrow> waiting_run M p s' \<and> debt M p s' + (if e = Tick then 1 else 0) \<le> debt M p s"
proof -
  have r: "stat (proc_cur s) = READY" "p_proc_current s < NR_PCBS" "ticks (proc_cur s) > 0" "waiting M p s"
    using w by (auto simp: waiting_run_def waiting_def)
  have go: "case sched t of None \<Rightarrow> is_spawn e
      | Some s' \<Rightarrow> waiting_run M p s' \<and> debt M p s' + (if e = Tick then 1 else 0) \<le> debt M p s"
    if "waiting M p t" "debt M p t + (if e = Tick then 1 else 0) \<le> debt M p s" for t
    using sched_waiting[OF that(1)] that(2) by auto
  show ?thesis
  proof (cases "is_spawn e")
    case True
    then have "e \<noteq> Tick" by (auto simp: is_spawn_def)
    with True show ?thesis using spawns_waiting[OF step_spawns[OF _ True r(2)] w] r(1)
      by (auto split: option.splits)
  next
    case False
    show ?thesis
    proof (cases e)
      case Tick
      then show ?thesis using clock_waiting[OF w np] go[of "clock_handler s"] by simp
    next
      case Return
      then show ?thesis using go[of s] r(4) by simp
    next
      case Yield
      then show ?thesis using waiting_upd(1,2)[OF w np, of "ticks_update (\<lambda>_. 0)"] r
          go[of "upd_proc (p_proc_current s) (ticks_update (\<lambda>_. 0)) s"] by (simp add: sys_yield_def)
    next
      case (Block ch)
      let ?f = "\<lambda>p. p\<lparr>stat := SLEEPING, channel := ch\<rparr>"
      show ?thesis using Block waiting_upd(1,2)[OF w np, of ?f] r go[of "upd_proc (p_proc_current s) ?f s"] by simp
    next
      case (Wake ch)
      then show ?thesis using sys_wakeup_waiting(2,3) w by (simp add: sys_wakeup_waiting)
    next
      case Kill
      then show ?thesis using waiting_upd(1,2)[OF w np, of "stat_update (\<lambda>_. KILLED)"] r
          go[of "upd_proc (p_proc_current s) (stat_update (\<lambda>_. KILLED)) s"] by (simp add: exception_kill_def)
    qed (use False in \<open>simp_all add: is_spawn_def\<close>)
  qed
qed

lemma served_step:
  assumes "step e s = Some s1" "served p n es s1"
  shows "served p (Suc n) (e # es) s"
  using assms by (cases n) (auto simp: served_def split: option.splits)

lemma served_soon:
  assumes "waiting_run M p s" "debt M p s < int (length (filter (\<lambda>e. e = Tick) es))"
  shows "\<exists>n\<le>length es. served p n es s"
  using assms
proof (induction es arbitrary: s)
  case Nil
  then show ?case using debt_nonneg[of M p s] by (simp add: waiting_run_def)
next
  case (Cons e es)
  show ?case
  proof (cases "p_proc_current s = p")
    case True
    then have "served p 0 (e # es) s" by (simp add: served_def)
    then show ?thesis by blast
  next
    case np: False
    note st = step_waiting[OF Cons.prems(1) np, of e]
    show ?thesis
    proof (cases "step e s")
      case None
      with st have "served p 1 (e # es) s" by (simp add: served_def is_spawn_def)
      then show ?thesis by (intro exI[of _ 1]) simp
    next
      case (Some s1)
      with st have "waiting_run M p s1" "debt M p s1 + (if e = Tick then 1 else 0) \<le> debt M p s" by simp_all
      with Cons.prems(2) have "\<exists>n\<le>length es. served p n es s1"
        by (intro Cons.IH) (auto split: if_splits)
      then show ?thesis using served_step[OF Some] by fastforce
    qed
  qed
qed

text \<open>
  C4. No ready process waits forever. Let \<open>p\<close> be ready with a positive priority, and let the running process be ready
  with ticks left, when no process has more than \<open>M\<close> ticks or a greater priority. Then, whatever the processes do, \<open>p\<close>
  runs before the clock has ticked \<open>24 * M + 2\<close> times (unless a \<^verbatim>\<open>fork\<close> or \<^verbatim>\<open>pthread\<close> on the way
  works on memory that does not exist).
\<close>

theorem ready_process_runs:
  assumes "waiting_run M p s" "int (length (filter (\<lambda>e. e = Tick) es)) \<ge> 2 * int NR_PCBS * M + 2"
  shows "\<exists>n\<le>length es. served p n es s"
  using debt_le[of M p s] assms by (intro served_soon[OF assms(1)]) (simp add: waiting_run_def)

definition demo_waiting :: kmem where
  "demo_waiting = demo_kmem\<lparr>p_proc_current := 0\<rparr>"

lemma demo_waiting_run: "waiting_run 3 1 demo_waiting"
  by (auto simp: waiting_run_def waiting_def demo_waiting_def demo_kmem_def kproc.defs demo_kproc_def demo_table_def
      demo_PCB_def ready_def NR_PCBS_def)

theorem ready_process_runs_witness:
  "\<exists>n\<le>74. served 1 n (replicate 74 Tick) demo_waiting"
  using ready_process_runs[OF demo_waiting_run, of "replicate 74 Tick"] by (simp add: NR_PCBS_def)

end
