(* ===== verification/Console.thy ===== *)
theory Console
  imports Prelude
begin

text \<open>
  The consoles of \<^verbatim>\<open>kernel/console.c\<close>: three consoles share the video memory, each with its own cursor and its own
  window of 25 lines. \<open>vmem\<close> is the video memory, \<open>crtc\<close> are the registers of the display controller.
  A pointer to a console or terminal is its index in the table.

  \<^verbatim>\<open>w_copy\<close> copies at the address \<^verbatim>\<open>V_MEM_BASE\<close> itself, where the code elsewhere goes through \<^verbatim>\<open>K_PHY2LIN\<close>. What
  the running process has at these linear addresses is \<open>umem\<close>.
\<close>

subsection \<open>Data\<close>

record CONSOLE =
  crtc_start :: u32
  orig :: u32
  con_size :: u32
  cursor :: u32
  is_full :: int
  current_line :: u32

record TTY =
  ibuf :: "u32 block"
  ibuf_head :: int
  ibuf_tail :: int
  ibuf_read :: int
  ibuf_cnt :: int
  ibuf_read_cnt :: int
  status :: u32
  mouse_left_button :: int
  mouse_mid_button :: int
  mouse_X :: int
  mouse_Y :: int
  console :: nat

definition NR_CONSOLES :: nat where "NR_CONSOLES = 3"
definition V_MEM_BASE :: u32 where "V_MEM_BASE = 0xB8000"
definition V_MEM_SIZE :: u32 where "V_MEM_SIZE = 0x8000"
definition SCR_WIDTH :: u32 where "SCR_WIDTH = 80"
definition SCR_SIZE :: u32 where "SCR_SIZE = 80 * 25"
definition SCR_UP :: int where "SCR_UP = 1"
definition SCR_DN :: int where "SCR_DN = -1"
definition DEFAULT_CHAR_COLOR :: u8 where "DEFAULT_CHAR_COLOR = push_bit 4 0 OR 7"
definition START_ADDR_H :: u8 where "START_ADDR_H = 0xC"
definition START_ADDR_L :: u8 where "START_ADDR_L = 0xD"
definition CURSOR_H :: u8 where "CURSOR_H = 0xE"
definition CURSOR_L :: u8 where "CURSOR_L = 0xF"

record screens =
  console_table :: "nat \<Rightarrow> CONSOLE"
  tty_table :: "nat \<Rightarrow> TTY"
  current_console :: nat
  disp_pos :: u32
  vmem :: bytes
  umem :: bytes
  crtc :: "u8 \<Rightarrow> u8"

definition upd_con :: "nat \<Rightarrow> (CONSOLE \<Rightarrow> CONSOLE) \<Rightarrow> 'a screens_scheme \<Rightarrow> 'a screens_scheme" where
  "upd_con c f s = s\<lparr>console_table := (console_table s)(c := f (console_table s c))\<rparr>"

subsection \<open>The display controller and the video memory\<close>

definition out_crtc :: "u8 \<Rightarrow> u32 \<Rightarrow> 'a screens_scheme \<Rightarrow> 'a screens_scheme" where
  "out_crtc r v s = s\<lparr>crtc := (crtc s)(r := ucast v)\<rparr>"

definition set_cursor :: "u32 \<Rightarrow> 'a screens_scheme \<Rightarrow> 'a screens_scheme" where
  "set_cursor pos s = out_crtc CURSOR_L (pos AND 0xFF) (out_crtc CURSOR_H (drop_bit 8 pos AND 0xFF) s)"

definition set_video_start_addr :: "u32 \<Rightarrow> 'a screens_scheme \<Rightarrow> 'a screens_scheme" where
  "set_video_start_addr a s = out_crtc START_ADDR_L (a AND 0xFF) (out_crtc START_ADDR_H (drop_bit 8 a AND 0xFF) s)"

definition is_current_console :: "nat \<Rightarrow> 'a screens_scheme \<Rightarrow> bool" where
  "is_current_console c s \<longleftrightarrow> c = current_console s"

definition flush :: "nat \<Rightarrow> 'a screens_scheme \<Rightarrow> 'a screens_scheme" where
  "flush c s =
     (if is_current_console c s
      then set_video_start_addr (crtc_start (console_table s c)) (set_cursor (cursor (console_table s c)) s)
      else s)"

text \<open>\<^verbatim>\<open>write_char\<close> of \<^verbatim>\<open>lib/kliba.asm\<close>.\<close>

definition write_char :: "u8 \<Rightarrow> 'a screens_scheme \<Rightarrow> 'a screens_scheme option" where
  "write_char ch s =
     (if unat (disp_pos s) + 2 \<le> unat V_MEM_SIZE
      then Some (s\<lparr>vmem := store_list (vmem s) (unat (disp_pos s)) [ch, 0x0F]\<rparr>)
      else None)"

fun clear_loop :: "nat \<Rightarrow> nat \<Rightarrow> bytes \<Rightarrow> bytes" where
  "clear_loop pch 0 m = m"
| "clear_loop pch (Suc len) m = clear_loop (pch + 2) len (m(pch := 0x20, pch + 1 := DEFAULT_CHAR_COLOR))"

definition clear_screen :: "u32 \<Rightarrow> nat \<Rightarrow> 'a screens_scheme \<Rightarrow> 'a screens_scheme option" where
  "clear_screen pos len s =
     (if unat pos * 2 + len * 2 \<le> unat V_MEM_SIZE
      then Some (s\<lparr>vmem := clear_loop (unat pos * 2) len (vmem s)\<rparr>) else None)"

definition w_copy :: "u32 \<Rightarrow> u32 \<Rightarrow> u32 \<Rightarrow> 'a screens_scheme \<Rightarrow> 'a screens_scheme" where
  "w_copy dst src sz s =
     s\<lparr>umem := store_list (umem s) (unat (V_MEM_BASE + push_bit 1 dst))
        (load_list (umem s) (unat (V_MEM_BASE + push_bit 1 src)) (unat (push_bit 1 sz)))\<rparr>"

subsection \<open>Scrolling\<close>

definition scroll_down :: "CONSOLE \<Rightarrow> u32 \<Rightarrow> u32 \<Rightarrow> CONSOLE" where
  "scroll_down con oldest scr_top =
     (if is_full con = 0 \<and> sint scr_top > 0 then con\<lparr>crtc_start := crtc_start con - SCR_WIDTH\<rparr>
      else if is_full con \<noteq> 0 \<and> scr_top \<noteq> oldest then
        if cursor con - orig con \<ge> con_size con - SCR_SIZE then
          if crtc_start con \<noteq> orig con then con\<lparr>crtc_start := crtc_start con - SCR_WIDTH\<rparr> else con
        else if crtc_start con = orig con then con\<lparr>crtc_start := orig con + (con_size con - SCR_SIZE)\<rparr>
        else con\<lparr>crtc_start := crtc_start con - SCR_WIDTH\<rparr>
      else con)"

definition scroll_up :: "CONSOLE \<Rightarrow> u32 \<Rightarrow> u32 \<Rightarrow> CONSOLE" where
  "scroll_up con newest scr_top =
     (if is_full con = 0 \<and> sint newest \<ge> sint (scr_top + SCR_SIZE)
      then con\<lparr>crtc_start := crtc_start con + SCR_WIDTH\<rparr>
      else if is_full con \<noteq> 0 \<and> scr_top + SCR_SIZE - SCR_WIDTH \<noteq> newest then
        if scr_top + SCR_SIZE = con_size con then con\<lparr>crtc_start := orig con\<rparr>
        else con\<lparr>crtc_start := crtc_start con + SCR_WIDTH\<rparr>
      else con)"

definition scroll_screen :: "nat \<Rightarrow> int \<Rightarrow> 'a screens_scheme \<Rightarrow> 'a screens_scheme option" where
  "scroll_screen c dir s =
     (let con = console_table s c;
          newest = (cursor con - orig con) div SCR_WIDTH * SCR_WIDTH;
          scr_top = crtc_start con - orig con
      in if is_full con \<noteq> 0 \<and> con_size con = 0 then None
         else
           let oldest = (if is_full con \<noteq> 0 then (newest + SCR_WIDTH) mod con_size con else 0);
               con = (if dir = SCR_DN then scroll_down con oldest scr_top
                      else if dir = SCR_UP then scroll_up con newest scr_top else con)
           in Some (flush c (upd_con c (\<lambda>_. con) s)))"

subsection \<open>Printing a character\<close>

definition print_char :: "nat \<Rightarrow> u8 \<Rightarrow> 'a screens_scheme \<Rightarrow> 'a screens_scheme option" where
  "print_char c ch s =
     (let con = console_table s c; cursor_y = (cursor con - orig con) div SCR_WIDTH in
      if ch = 0x0A then Some (upd_con c (cursor_update (\<lambda>_. orig con + SCR_WIDTH * (cursor_y + 1))) s)
      else if ch = 0x08 then
        if cursor con > orig con then
          let s = upd_con c (cursor_update (\<lambda>x. x - 1)) s;
              s = s\<lparr>disp_pos := cursor (console_table s c) * 2\<rparr>
          in write_char 0x20 s
        else Some s
      else do {
        s \<leftarrow> write_char ch (s\<lparr>disp_pos := cursor con * 2\<rparr>);
        Some (upd_con c (cursor_update (\<lambda>x. x + 1)) s)
      })"

definition wrap_console :: "nat \<Rightarrow> 'a screens_scheme \<Rightarrow> 'a screens_scheme option" where
  "wrap_console c s =
     (let con = console_table s c in
      if cursor con - orig con \<ge> con_size con then
        let cursor_x = (cursor con - orig con) mod SCR_WIDTH;
            cursor_y = (cursor con - orig con) div SCR_WIDTH;
            cp_orig = orig con + (cursor_y + 1) * SCR_WIDTH - SCR_SIZE;
            s = w_copy (orig con) cp_orig (SCR_SIZE - SCR_WIDTH) s;
            con = con\<lparr>crtc_start := orig con, cursor := orig con + (SCR_SIZE - SCR_WIDTH) + cursor_x\<rparr>
        in do {
          s \<leftarrow> clear_screen (cursor con) (unat SCR_WIDTH) (upd_con c (\<lambda>_. con) s);
          Some (if is_full con = 0 then upd_con c (is_full_update (\<lambda>_. 1)) s else s)
        }
      else Some s)"

text \<open>The loop that moves the window until it holds the cursor.\<close>

partial_function (option) scroll_loop :: "nat \<Rightarrow> 'a screens_scheme \<Rightarrow> 'a screens_scheme option" where
  "scroll_loop c s =
     (let con = console_table s c in
      if cursor con \<ge> crtc_start con + SCR_SIZE \<or> cursor con < crtc_start con then do {
        s \<leftarrow> scroll_screen c SCR_UP s;
        s \<leftarrow> clear_screen (cursor (console_table s c)) (unat SCR_WIDTH) s;
        scroll_loop c s
      } else Some s)"

declare scroll_loop.simps [code]

definition out_char :: "nat \<Rightarrow> u8 \<Rightarrow> 'a screens_scheme \<Rightarrow> 'a screens_scheme option" where
  "out_char c ch s = do {
     s \<leftarrow> print_char c ch s;
     s \<leftarrow> wrap_console c s;
     s \<leftarrow> scroll_loop c s;
     Some (flush c s)
   }"

fun out_chars :: "nat \<Rightarrow> u8 list \<Rightarrow> 'a screens_scheme \<Rightarrow> 'a screens_scheme option" where
  "out_chars c [] s = Some s"
| "out_chars c (ch # chs) s = do { s \<leftarrow> out_char c ch s; out_chars c chs s }"

subsection \<open>Starting and choosing consoles\<close>

definition select_console :: "int \<Rightarrow> 'a screens_scheme \<Rightarrow> 'a screens_scheme" where
  "select_console nr s =
     (if nr < 0 \<or> nr \<ge> int NR_CONSOLES then s else flush (nat nr) (s\<lparr>current_console := nat nr\<rparr>))"

definition size_per_con :: u32 where
  "size_per_con = (V_MEM_SIZE div 2) div of_nat NR_CONSOLES div 80 * 80"

text \<open>The characters of \<^verbatim>\<open>"[TTY #?]\n"\<close> with the number of the terminal in place of the question mark.\<close>

definition prompt :: "nat \<Rightarrow> u8 list" where
  "prompt nr = [0x5B, 0x54, 0x54, 0x59, 0x20, 0x23, of_nat nr + 0x30, 0x5D, 0x0A]"

definition init_screen :: "nat \<Rightarrow> 'a screens_scheme \<Rightarrow> 'a screens_scheme option" where
  "init_screen nr_tty s =
     (let s = s\<lparr>tty_table := (tty_table s)(nr_tty := (tty_table s nr_tty)\<lparr>console := nr_tty\<rparr>)\<rparr>;
          s = upd_con nr_tty (\<lambda>con. con\<lparr>orig := of_nat nr_tty * size_per_con, con_size := size_per_con div SCR_WIDTH * SCR_WIDTH,
                cursor := of_nat nr_tty * size_per_con, crtc_start := of_nat nr_tty * size_per_con,
                is_full := 0, current_line := 0\<rparr>) s;
          s = (if nr_tty = 0 then upd_con nr_tty (cursor_update (\<lambda>_. disp_pos s div 2)) s else s)
      in do {
        s \<leftarrow> out_chars nr_tty (prompt nr_tty) s;
        Some (set_cursor (cursor (console_table s nr_tty)) s)
      })"

end
