(* ===== verification/ConsoleLaws.thy ===== *)
theory ConsoleLaws
  imports Console
begin

text \<open>
  What printing does: the cursor of a console stays in its window and the window in the console's part of the video
  memory, nothing outside this part changes, and printing returns except in one case.

  Positions are counted here in natural numbers: \<open>con_at c k x s\<close> says that the window of console \<open>c\<close> starts at its
  line \<open>k\<close> and that its cursor is at its character \<open>x\<close>.
\<close>

subsection \<open>Positions as numbers\<close>

definition con_at :: "nat \<Rightarrow> nat \<Rightarrow> nat \<Rightarrow> 'a screens_scheme \<Rightarrow> bool" where
  "con_at c k x s \<longleftrightarrow> c < 3 \<and> k \<le> 43 \<and> x \<le> 5440 \<and> orig (console_table s c) = of_nat (5440 * c) \<and>
     con_size (console_table s c) = of_nat 5440 \<and> crtc_start (console_table s c) = of_nat (5440 * c + 80 * k) \<and>
     cursor (console_table s c) = of_nat (5440 * c + x)"

lemma con_atD:
  assumes "con_at c k x s"
  shows "c < 3" "k \<le> 43" "x \<le> 5440" "orig (console_table s c) = of_nat (5440 * c)"
    "con_size (console_table s c) = of_nat 5440" "crtc_start (console_table s c) = of_nat (5440 * c + 80 * k)"
    "cursor (console_table s c) = of_nat (5440 * c + x)"
    "cursor (console_table s c) - orig (console_table s c) = of_nat x"
    "crtc_start (console_table s c) - orig (console_table s c) = of_nat (80 * k)"
  using assms by (simp_all add: con_at_def)

lemma con_at_small:
  assumes "con_at c k x s" shows "5440 * c + x \<le> 16320" "5440 * c + 80 * k \<le> 14320" "5440 * c \<le> 10880"
  using con_atD(1-3)[OF assms] by simp_all

subsection \<open>What may change\<close>

definition own_only :: "nat \<Rightarrow> 'a screens_scheme \<Rightarrow> 'a screens_scheme \<Rightarrow> bool" where
  "own_only c s s' \<longleftrightarrow> (\<forall>p. p < 10880 * c \<or> 10880 * (c + 1) \<le> p \<longrightarrow> vmem s' p = vmem s p) \<and>
     (\<forall>d. d \<noteq> c \<longrightarrow> console_table s' d = console_table s d) \<and>
     current_line (console_table s' c) = current_line (console_table s c) \<and>
     tty_table s' = tty_table s \<and> current_console s' = current_console s \<and>
     (c \<noteq> current_console s \<longrightarrow> crtc s' = crtc s) \<and> screens.more s' = screens.more s"

lemma own_only_refl: "own_only c s s"
  by (simp add: own_only_def)

lemma own_only_trans: "own_only c s t \<Longrightarrow> own_only c t u \<Longrightarrow> own_only c s u"
  by (simp add: own_only_def)

lemma own_only_upd_con: "(\<And>x. current_line (f x) = current_line x) \<Longrightarrow> own_only c s (upd_con c f s)"
  by (simp add: own_only_def upd_con_def)

lemma own_only_flush: "own_only c s (flush c s)"
  by (auto simp: own_only_def flush_def is_current_console_def set_video_start_addr_def set_cursor_def out_crtc_def)

lemma flush_simps [simp]:
  "console_table (flush c s) = console_table s" "vmem (flush c s) = vmem s" "umem (flush c s) = umem s"
  by (auto simp: flush_def set_video_start_addr_def set_cursor_def out_crtc_def)

lemma con_at_flush [simp]: "con_at c k x (flush d s) = con_at c k x s"
  by (simp add: con_at_def)

lemma upd_con_simps [simp]:
  "console_table (upd_con c f s) c = f (console_table s c)" "vmem (upd_con c f s) = vmem s" "umem (upd_con c f s) = umem s"
  by (simp_all add: upd_con_def)

lemma clear_loop_out: "p < a \<or> a + 2 * n \<le> p \<Longrightarrow> clear_loop a n m p = m p"
  by (induction n arbitrary: a m) auto

lemma clear_screen_own:
  assumes "c < 3" "y + n \<le> 5440"
  shows "\<exists>s'. clear_screen (of_nat (5440 * c + y)) n s = Some s' \<and> own_only c s s' \<and>
     console_table s' = console_table s \<and> umem s' = umem s"
proof -
  have u: "unat (of_nat (5440 * c + y) :: u32) = 5440 * c + y" using assms by (intro unat_nat_u32) simp
  have "own_only c s (s\<lparr>vmem := clear_loop ((5440 * c + y) * 2) n (vmem s)\<rparr>)"
    using assms by (auto simp: own_only_def intro!: clear_loop_out)
  then show ?thesis using assms unfolding clear_screen_def u V_MEM_SIZE_def by simp
qed

subsection \<open>One character\<close>

definition moved :: "u8 \<Rightarrow> nat \<Rightarrow> nat" where
  "moved ch x = (if ch = 0x0A then 80 * (x div 80 + 1) else if ch = 0x08 then x - 1 else x + 1)"

lemma write_char_own:
  assumes "c < 3" "x < 5440" "disp_pos s = of_nat (5440 * c + x) * 2"
  shows "\<exists>s'. write_char ch s = Some s' \<and> own_only c s s' \<and> console_table s' = console_table s \<and> umem s' = umem s"
proof -
  have "disp_pos s = of_nat (2 * (5440 * c + x))" using assms(3) by simp
  then have u: "unat (disp_pos s) = 2 * (5440 * c + x)" using assms(1,2) by (simp only:) (intro unat_nat_u32, simp)
  have "own_only c s (s\<lparr>vmem := store_list (vmem s) (2 * (5440 * c + x)) [ch, 0x0F]\<rparr>)"
    using assms(1,2) by (auto simp: own_only_def intro!: store_list_out)
  then show ?thesis using assms(1,2) unfolding write_char_def u V_MEM_SIZE_def by simp
qed

lemma print_char_own:
  assumes a: "con_at c k x s" and x: "x < 5440"
  shows "\<exists>s'. print_char c ch s = Some s' \<and> con_at c k (moved ch x) s' \<and> own_only c s s' \<and> umem s' = umem s \<and>
     is_full (console_table s' c) = is_full (console_table s c)"
proof -
  note d = con_atD[OF a]
  have y: "(of_nat x :: u32) div SCR_WIDTH = of_nat (x div 80)"
    using u32_nat_div[of x 80] x by (simp add: SCR_WIDTH_def)
  have W: "SCR_WIDTH = of_nat 80" by (simp add: SCR_WIDTH_def)
  have line: "80 * (x div 80 + 1) \<le> 5440" using x by simp
  consider (nl) "ch = 0x0A" | (bs) "ch = 0x08" "x > 0" | (bs0) "ch = 0x08" "x = 0" | (other) "ch \<noteq> 0x0A" "ch \<noteq> 0x08" by auto
  then show ?thesis
  proof cases
    case nl
    have e: "5440 * of_nat c + SCR_WIDTH * (of_nat (x div 80) + 1) = (of_nat (5440 * c + 80 * (x div 80 + 1)) :: u32)"
      by (simp add: SCR_WIDTH_def)
    show ?thesis using nl line e
      by (auto simp: print_char_def Let_def d y moved_def con_at_def algebra_simps intro!: own_only_upd_con)
  next
    case bs
    have gt: "cursor (console_table s c) > orig (console_table s c)"
      using bs con_at_small[OF a] by (simp add: d(4,7) u32_nat_less del: of_nat_add of_nat_mult)
    let ?s = "(upd_con c (cursor_update (\<lambda>x. x - 1)) s)\<lparr>disp_pos := (cursor (console_table s c) - 1) * 2\<rparr>"
    have m: "(of_nat (5440 * c + x) :: u32) - 1 = of_nat (5440 * c + (x - 1))" using bs(2) by (simp add: of_nat_diff)
    have "\<exists>s'. write_char 0x20 ?s = Some s' \<and> own_only c ?s s' \<and> console_table s' = console_table ?s \<and> umem s' = umem ?s"
      using d(1) x bs(2) m by (intro write_char_own[where x = "x - 1"]) (simp_all add: d(7))
    then obtain s' where s': "write_char 0x20 ?s = Some s'" "own_only c ?s s'" "console_table s' = console_table ?s"
      "umem s' = umem ?s" by blast
    have "own_only c s ?s" by (simp add: own_only_def upd_con_def)
    moreover have "con_at c k (x - 1) s'" using d(1-7) x m by (simp add: con_at_def s'(3))
    ultimately show ?thesis using bs gt s' own_only_trans[of c s ?s s']
      by (auto simp: print_char_def Let_def moved_def)
  next
    case bs0
    then show ?thesis using a d by (simp add: print_char_def moved_def own_only_refl)
  next
    case other
    let ?s = "s\<lparr>disp_pos := cursor (console_table s c) * 2\<rparr>"
    have "\<exists>s'. write_char ch ?s = Some s' \<and> own_only c ?s s' \<and> console_table s' = console_table ?s \<and> umem s' = umem ?s"
      using d(1) x by (intro write_char_own[where x = x]) (simp_all add: d(7))
    then obtain s' where s': "write_char ch ?s = Some s'" "own_only c ?s s'" "console_table s' = console_table ?s"
      "umem s' = umem ?s" by blast
    have cl: "current_line (cursor_update (\<lambda>x. x + 1) t) = current_line t" for t :: CONSOLE by simp
    have "own_only c s ?s" by (simp add: own_only_def)
    then have "own_only c s (upd_con c (cursor_update (\<lambda>x. x + 1)) s')"
      using s'(2) by (blast intro: own_only_trans own_only_upd_con[OF cl])
    moreover have "con_at c k (x + 1) (upd_con c (cursor_update (\<lambda>x. x + 1)) s')"
      using d(1-7) x by (simp add: con_at_def s'(3))
    ultimately show ?thesis using other s' by (simp add: print_char_def Let_def moved_def)
  qed
qed


lemma wrap_console_own:
  assumes a: "con_at c k x s" and full: "x = 5440"
  shows "\<exists>s'. wrap_console c s = Some s' \<and> con_at c 0 1920 s' \<and> own_only c s s' \<and> is_full (console_table s' c) \<noteq> 0"
proof -
  note d = con_atD[OF a]
  let ?con = "console_table s c"
  let ?x = "cursor ?con - orig ?con"
  let ?new = "?con\<lparr>crtc_start := orig ?con, cursor := orig ?con + (SCR_SIZE - SCR_WIDTH) + ?x mod SCR_WIDTH\<rparr>"
  define s1 where "s1 = upd_con c (\<lambda>_. ?new)
    (w_copy (orig ?con) (orig ?con + (?x div SCR_WIDTH + 1) * SCR_WIDTH - SCR_SIZE) (SCR_SIZE - SCR_WIDTH) s)"
  have cur: "cursor ?new = of_nat (5440 * c + 1920)"
    unfolding d(8) by (simp add: d(4) SCR_SIZE_def SCR_WIDTH_def full)
  have o1: "own_only c s s1" by (simp add: own_only_def s1_def upd_con_def w_copy_def)
  have c1: "console_table s1 c = ?new" by (simp add: s1_def)
  have w: "unat SCR_WIDTH = 80" by (simp add: SCR_WIDTH_def)
  obtain s2 where s2: "clear_screen (cursor ?new) (unat SCR_WIDTH) s1 = Some s2" "own_only c s1 s2"
    "console_table s2 = console_table s1"
    using clear_screen_own[of c 1920 80 s1] d(1) unfolding cur w by auto
  let ?s = "if is_full ?new = 0 then upd_con c (is_full_update (\<lambda>_. 1)) s2 else s2"
  have ge: "con_size ?con \<le> ?x" unfolding d(8) by (simp add: d(5) full)
  have "wrap_console c s = Some ?s"
    unfolding wrap_console_def Let_def using ge s2(1) by (simp only: if_True s1_def Option.bind.bind_lunit)
  moreover have "con_at c 0 1920 ?s" using d(1,4,5) cur by (simp add: con_at_def s2(3) c1)
  moreover have "own_only c s2 ?s" by (simp add: own_only_def upd_con_def)
  moreover have "is_full (console_table ?s c) \<noteq> 0" by (simp add: s2(3) c1)
  ultimately show ?thesis using o1 s2(2) own_only_trans by blast
qed

lemma wrap_console_same:
  assumes "con_at c k x s" "x < 5440"
  shows "wrap_console c s = Some s"
proof -
  have "\<not> con_size (console_table s c) \<le> cursor (console_table s c) - orig (console_table s c)"
    using u32_nat_le[of 5440 x] assms(2) unfolding con_atD(5,8)[OF assms(1)] by simp
  then show ?thesis unfolding wrap_console_def Let_def by simp
qed

subsection \<open>Moving the window\<close>

definition next_top :: "bool \<Rightarrow> nat \<Rightarrow> nat \<Rightarrow> nat" where
  "next_top full k y = (if \<not> full then if k + 25 \<le> y then k + 1 else k
     else if k + 24 \<noteq> y then if k = 43 then 0 else k + 1 else k)"

lemma scroll_up_top:
  assumes a: "con_at c k x s" and t: "t = next_top (is_full (console_table s c) \<noteq> 0) k (x div 80)"
  shows "scroll_up (console_table s c) (of_nat (80 * (x div 80))) (of_nat (80 * k)) =
    (console_table s c)\<lparr>crtc_start := of_nat (5440 * c + 80 * t)\<rparr>"
proof -
  note d = con_atD[OF a]
  have x: "80 * (x div 80) \<le> 5440" using d(3) by simp
  have size: "SCR_SIZE = of_nat 2000" and width: "SCR_WIDTH = of_nat 80" by (simp_all add: SCR_SIZE_def SCR_WIDTH_def)
  have i: "sint (of_nat (80 * k) + SCR_SIZE :: u32) = int (80 * k + 2000)"
    using u32_nat_sint[of "80 * k + 2000"] d(2) by (simp add: size)
  have j: "sint (of_nat (80 * (x div 80)) :: u32) = int (80 * (x div 80))"
    using u32_nat_sint[of "80 * (x div 80)"] x by (simp del: of_nat_mult)
  have e: "of_nat (80 * k) + SCR_SIZE - SCR_WIDTH = (of_nat (80 * (x div 80)) :: u32) \<longleftrightarrow> k + 24 = x div 80"
  proof -
    have "of_nat (80 * k) + SCR_SIZE - SCR_WIDTH = (of_nat (80 * k + 1920) :: u32)" by (simp add: size width)
    then show ?thesis using u32_nat_eq[of "80 * k + 1920" "80 * (x div 80)"] d(2) x
      by (auto simp del: of_nat_add of_nat_mult)
  qed
  have f: "of_nat (80 * k) + SCR_SIZE = con_size (console_table s c) \<longleftrightarrow> k = 43"
    using u32_nat_eq[of "80 * k + 2000" 5440] d(2) by (simp add: size d(5))
  have g: "crtc_start (console_table s c) + SCR_WIDTH = of_nat (5440 * c + 80 * (k + 1))" by (simp add: d(6) width)
  show ?thesis
    unfolding scroll_up_def i j e f g t next_top_def by (auto simp: d(4) simp del: of_nat_add of_nat_mult)
      (rule CONSOLE.equality; simp add: d(6))+
qed

lemma scroll_screen_up:
  assumes a: "con_at c k x s" and t: "t = next_top (is_full (console_table s c) \<noteq> 0) k (x div 80)" and x: "x < 5440"
  shows "\<exists>s'. scroll_screen c SCR_UP s = Some s' \<and> con_at c t x s' \<and> own_only c s s' \<and> umem s' = umem s \<and>
    is_full (console_table s' c) = is_full (console_table s c)"
proof -
  note d = con_atD[OF a]
  let ?con = "(console_table s c)\<lparr>crtc_start := of_nat (5440 * c + 80 * t)\<rparr>"
  let ?s = "flush c (upd_con c (\<lambda>_. ?con) s)"
  have n: "(of_nat x :: u32) div SCR_WIDTH * SCR_WIDTH = of_nat (80 * (x div 80))"
    using u32_nat_div[of x 80] d(3) by (simp add: SCR_WIDTH_def)
  have "scroll_screen c SCR_UP s = Some ?s"
    unfolding scroll_screen_def Let_def d(8,9) n scroll_up_top[OF a t] by (simp add: d(5) SCR_UP_def SCR_DN_def)
  moreover have "t \<le> 43" using d(2) x t by (auto simp: next_top_def)
  moreover have "own_only c s (upd_con c (\<lambda>_. ?con) s)" by (simp add: own_only_def upd_con_def)
  then have "own_only c s ?s" using own_only_trans own_only_flush by blast
  ultimately show ?thesis using d(1-7) by (auto simp: con_at_def)
qed

lemma in_window:
  assumes "con_at c k x s"
  shows "(cursor (console_table s c) \<ge> crtc_start (console_table s c) + SCR_SIZE \<or>
    cursor (console_table s c) < crtc_start (console_table s c)) \<longleftrightarrow> \<not> (k \<le> x div 80 \<and> x div 80 < k + 25)"
proof -
  note d = con_atD[OF assms]
  have s: "crtc_start (console_table s c) + SCR_SIZE = of_nat (5440 * c + 80 * k + 2000)" by (simp add: d(6) SCR_SIZE_def)
  show ?thesis unfolding s unfolding d(6,7) using con_at_small[OF assms] d(2)
    by (auto simp: u32_nat_le u32_nat_less simp del: of_nat_add of_nat_mult)
qed

lemma scroll_loop_in:
  "con_at c k x s \<Longrightarrow> k \<le> x div 80 \<Longrightarrow> x div 80 < k + 25 \<Longrightarrow> scroll_loop c s = Some s"
  using in_window[of c k x s] by (subst scroll_loop.simps) (simp add: Let_def)

lemma scroll_loop_out:
  assumes a: "con_at c k x s" and out: "\<not> (k \<le> x div 80 \<and> x div 80 < k + 25)" and x: "x \<le> 5360"
    and t: "t = next_top (is_full (console_table s c) \<noteq> 0) k (x div 80)"
  obtains s' where "scroll_loop c s = scroll_loop c s'" "con_at c t x s'" "own_only c s s'" "umem s' = umem s"
    "is_full (console_table s' c) = is_full (console_table s c)"
proof -
  obtain s1 where s1: "scroll_screen c SCR_UP s = Some s1" "con_at c t x s1" "own_only c s s1" "umem s1 = umem s"
    "is_full (console_table s1 c) = is_full (console_table s c)"
    using scroll_screen_up[OF a t] x by auto
  have w: "unat SCR_WIDTH = 80" by (simp add: SCR_WIDTH_def)
  obtain s2 where s2: "clear_screen (of_nat (5440 * c + x)) 80 s1 = Some s2" "own_only c s1 s2"
    "console_table s2 = console_table s1" "umem s2 = umem s1"
    using clear_screen_own[of c x 80 s1] con_atD(1)[OF a] x by auto
  have "scroll_loop c s = scroll_loop c s2"
    using in_window[OF a] out by (subst scroll_loop.simps) (simp add: Let_def s1(1) con_atD(7)[OF s1(2)] w s2(1) del: of_nat_add of_nat_mult)
  moreover have "con_at c t x s2" using s1(2) by (simp add: con_at_def s2(3))
  ultimately show ?thesis using s1 s2 own_only_trans by (intro that[of s2]) auto
qed


lemma scroll_loop_up:
  assumes "con_at c k x s" "k + 25 \<le> x div 80" "x \<le> 5360"
  shows "\<exists>s'. scroll_loop c s = Some s' \<and> con_at c (x div 80 - 24) x s' \<and> own_only c s s' \<and> umem s' = umem s \<and>
    is_full (console_table s' c) = is_full (console_table s c)"
  using assms
proof (induction "x div 80 - 24 - k" arbitrary: k s)
  case 0
  then show ?case by simp
next
  case (Suc n)
  have nt: "next_top (is_full (console_table s c) \<noteq> 0) k (x div 80) = k + 1"
    using Suc.prems(2,3) by (auto simp: next_top_def)
  obtain s1 where s1: "scroll_loop c s = scroll_loop c s1" "con_at c (k + 1) x s1" "own_only c s s1" "umem s1 = umem s"
    "is_full (console_table s1 c) = is_full (console_table s c)"
    using scroll_loop_out[OF Suc.prems(1) _ Suc.prems(3) refl] Suc.prems(2) unfolding nt by (metis linorder_not_less)
  show ?case
  proof (cases "k + 1 + 25 \<le> x div 80")
    case True
    obtain s2 where "scroll_loop c s1 = Some s2" "con_at c (x div 80 - 24) x s2" "own_only c s1 s2" "umem s2 = umem s1"
      "is_full (console_table s2 c) = is_full (console_table s1 c)"
    proof -
      have "n = x div 80 - 24 - (k + 1)" using Suc.hyps(2) by simp
      from Suc.hyps(1)[OF this s1(2) True Suc.prems(3)] show thesis using that by blast
    qed
    then show ?thesis using s1 own_only_trans by metis
  next
    case False
    then have "x div 80 - 24 = k + 1" using Suc.prems(2) by simp
    then show ?thesis using scroll_loop_in[OF s1(2)] False s1 Suc.prems(2) by auto
  qed
qed

text \<open>Below a window of a full console the window goes on to the end and starts again at the top.\<close>

lemma scroll_loop_down:
  assumes "con_at c k x s" "x div 80 < k" "x \<le> 5360" "is_full (console_table s c) \<noteq> 0"
  shows "\<exists>s' t. scroll_loop c s = Some s' \<and> con_at c t x s' \<and> t \<le> x div 80 \<and> x div 80 < t + 25 \<and> own_only c s s' \<and>
    umem s' = umem s"
  using assms
proof (induction "43 - k" arbitrary: k s)
  case 0
  then have k: "k = 43" using con_atD(2)[OF 0(2)] by simp
  then have nt: "next_top (is_full (console_table s c) \<noteq> 0) k (x div 80) = 0"
    using 0 by (auto simp: next_top_def)
  obtain s1 where s1: "scroll_loop c s = scroll_loop c s1" "con_at c 0 x s1" "own_only c s s1" "umem s1 = umem s"
    using scroll_loop_out[OF 0(2) _ 0(4) refl] 0(3) unfolding nt by (metis linorder_not_less)
  show ?case
  proof (cases "x div 80 < 25")
    case True
    then show ?thesis using scroll_loop_in[OF s1(2)] s1 by auto
  next
    case False
    obtain s2 where "scroll_loop c s1 = Some s2" "con_at c (x div 80 - 24) x s2" "own_only c s1 s2" "umem s2 = umem s1"
      using scroll_loop_up[OF s1(2) _ 0(4)] False by auto
    then show ?thesis using s1 False own_only_trans by (intro exI[of _ s2] exI[of _ "x div 80 - 24"]) auto
  qed
next
  case (Suc n)
  have nt: "next_top (is_full (console_table s c) \<noteq> 0) k (x div 80) = k + 1"
    using Suc by (auto simp: next_top_def)
  obtain s1 where s1: "scroll_loop c s = scroll_loop c s1" "con_at c (k + 1) x s1" "own_only c s s1" "umem s1 = umem s"
    "is_full (console_table s1 c) = is_full (console_table s c)"
    using scroll_loop_out[OF Suc.prems(1) _ Suc.prems(3) refl] Suc.prems(2) unfolding nt by (metis linorder_not_less)
  obtain s2 t where "scroll_loop c s1 = Some s2" "con_at c t x s2" "t \<le> x div 80" "x div 80 < t + 25" "own_only c s1 s2"
    "umem s2 = umem s1"
    using Suc.hyps(1)[OF _ s1(2)] Suc.hyps(2) Suc.prems s1(5) by (metis add_leE diff_Suc_eq_diff_pred diff_Suc_1 Suc_eq_plus1 diff_diff_left less_Suc_eq)
  then show ?case using s1 own_only_trans by metis
qed

text \<open>Below the window of a console that is not full the loop does not end.\<close>

lemma scroll_loop_stuck:
  assumes "con_at c k x s" "x div 80 < k" "x \<le> 5360" "is_full (console_table s c) = 0"
  shows "scroll_loop c s = None"
proof -
  have "\<not> (con_at c k x s \<and> is_full (console_table s c) = 0)" if "scroll_loop c s = Some r" for s r :: "'a screens_scheme"
  proof (rule scroll_loop.raw_induct[where P = "\<lambda>d s r. d = c \<longrightarrow> \<not> (con_at c k x s \<and> is_full (console_table s c) = 0)",
        OF _ that, THEN mp, OF _ refl], intro impI notI, elim conjE)
    fix loop d and s r :: "'a screens_scheme"
    assume IH: "\<And>d s r. loop d s = Some r \<Longrightarrow> d = c \<longrightarrow> \<not> (con_at c k x s \<and> is_full (console_table s c) = 0)"
      and eq: "(let con = console_table s d in
          if cursor con \<ge> crtc_start con + SCR_SIZE \<or> cursor con < crtc_start con then do {
            s \<leftarrow> scroll_screen d SCR_UP s;
            s \<leftarrow> clear_screen (cursor (console_table s d)) (unat SCR_WIDTH) s;
            loop d s
          } else Some s) = Some r"
      and d: "d = c" and a: "con_at c k x s" and f: "is_full (console_table s c) = 0"
    have nt: "k = next_top (is_full (console_table s c) \<noteq> 0) k (x div 80)" using f assms(2) by (simp add: next_top_def)
    obtain s1 where s1: "scroll_screen c SCR_UP s = Some s1" "con_at c k x s1"
      "is_full (console_table s1 c) = is_full (console_table s c)"
      using scroll_screen_up[OF a nt] assms(3) by auto
    obtain s2 where s2: "clear_screen (cursor (console_table s1 c)) (unat SCR_WIDTH) s1 = Some s2"
      "console_table s2 = console_table s1"
      using clear_screen_own[of c x 80 s1] con_atD(1)[OF a] assms(3) unfolding con_atD(7)[OF s1(2)]
      by (auto simp: SCR_WIDTH_def)
    have "loop c s2 = Some r" using eq in_window[OF a] assms(2) unfolding d by (simp add: Let_def s1(1) s2(1))
    moreover have "con_at c k x s2" using s1(2) by (simp add: con_at_def s2(2))
    ultimately show False using IH f s1(3) s2(2) by metis
  qed
  then show ?thesis using assms by (cases "scroll_loop c s") blast+
qed


subsection \<open>Printing\<close>

text \<open>The fields of a console as \<^verbatim>\<open>init_screen\<close> and printing leave them.\<close>

definition con_ok :: "nat \<Rightarrow> 'a screens_scheme \<Rightarrow> bool" where
  "con_ok c s \<longleftrightarrow> (let con = console_table s c in
     c < NR_CONSOLES \<and> orig con = of_nat c * size_per_con \<and> con_size con = size_per_con \<and>
     crtc_start con \<ge> orig con \<and> (crtc_start con - orig con) mod SCR_WIDTH = 0 \<and>
     crtc_start con - orig con \<le> size_per_con - SCR_SIZE \<and>
     cursor con \<ge> crtc_start con \<and> cursor con - crtc_start con < SCR_SIZE)"

lemma size_per_con_value: "size_per_con = of_nat 5440"
  by (simp add: size_per_con_def V_MEM_SIZE_def NR_CONSOLES_def)

lemma con_ok_at:
  "con_ok c s \<longleftrightarrow> (\<exists>k x. con_at c k x s \<and> k \<le> x div 80 \<and> x div 80 < k + 25)"
proof
  assume ok: "con_ok c s"
  let ?con = "console_table s c"
  define a where "a = unat (crtc_start ?con - orig ?con)"
  define b where "b = unat (cursor ?con - crtc_start ?con)"
  have o: "c < NR_CONSOLES" "orig ?con = of_nat c * size_per_con" "con_size ?con = size_per_con"
    "(crtc_start ?con - orig ?con) mod SCR_WIDTH = 0" "crtc_start ?con - orig ?con \<le> size_per_con - SCR_SIZE"
    "cursor ?con - crtc_start ?con < SCR_SIZE"
    using ok unfolding con_ok_def Let_def by blast+
  have c: "c < 3" "orig ?con = of_nat (5440 * c)" "con_size ?con = of_nat 5440"
    using o(1-3) by (simp_all add: NR_CONSOLES_def size_per_con_value)
  have "unat ((crtc_start ?con - orig ?con) mod SCR_WIDTH) = 0" using o(4) by simp
  then have m: "a mod 80 = 0" by (simp add: a_def unat_mod SCR_WIDTH_def)
  then obtain q where q: "a = 80 * q" by (metis mod_0_imp_dvd dvdE)
  have s: "size_per_con - SCR_SIZE = of_nat 3440" by (simp add: size_per_con_value SCR_SIZE_def)
  have al: "a \<le> 3440" using o(5) unfolding s by (simp add: a_def word_le_nat_alt)
  have bl: "b < 2000" using o(6) by (simp add: b_def word_less_nat_alt SCR_SIZE_def)
  have start: "crtc_start ?con = of_nat (5440 * c + a)"
    using c(2) by (simp add: a_def)
  moreover have "cursor ?con = of_nat (5440 * c + (a + b))" using start by (simp add: b_def)
  moreover have "a = 80 * (a div 80)" using q by simp
  ultimately have "con_at c (a div 80) (a + b) s" using c al bl by (simp add: con_at_def)
  moreover have "a div 80 \<le> (a + b) div 80" by (simp add: div_le_mono)
  moreover have "(a + b) div 80 < a div 80 + 25" using q bl by simp
  ultimately show "\<exists>k x. con_at c k x s \<and> k \<le> x div 80 \<and> x div 80 < k + 25" by blast
next
  assume "\<exists>k x. con_at c k x s \<and> k \<le> x div 80 \<and> x div 80 < k + 25"
  then obtain k x where a: "con_at c k x s" and w: "k \<le> x div 80" "x div 80 < k + 25" by blast
  note d = con_atD[OF a]
  have x: "80 * k \<le> x" "x < 80 * k + 2000" using w by simp_all
  have s: "size_per_con - SCR_SIZE = of_nat 3440" by (simp add: size_per_con_value SCR_SIZE_def)
  have diff: "cursor (console_table s c) - crtc_start (console_table s c) = of_nat (x - 80 * k)"
    unfolding d(6,7) using x(1) by (simp add: of_nat_diff)
  have "(of_nat (80 * k) :: u32) mod SCR_WIDTH = 0"
    using u32_nat_mod[of "80 * k" 80] d(2) by (simp add: SCR_WIDTH_def)
  moreover have "crtc_start (console_table s c) \<ge> orig (console_table s c)"
    unfolding d(4,6) using con_at_small[OF a] by (simp add: u32_nat_le del: of_nat_add of_nat_mult)
  moreover have "cursor (console_table s c) \<ge> crtc_start (console_table s c)"
    unfolding d(6,7) using con_at_small[OF a] x by (simp add: u32_nat_le del: of_nat_add of_nat_mult)
  moreover have "(of_nat (80 * k) :: u32) \<le> of_nat 3440" using u32_nat_le[of "80 * k" 3440] d(2) by (simp del: of_nat_mult)
  moreover have "(of_nat (x - 80 * k) :: u32) < SCR_SIZE"
    using u32_nat_less[of "x - 80 * k" 2000] x by (simp add: SCR_SIZE_def)
  ultimately show "con_ok c s"
    unfolding con_ok_def Let_def d(9) diff s using d(1,4,5) by (simp add: NR_CONSOLES_def size_per_con_value)
qed

text \<open>How many characters of its window the cursor has passed.\<close>

definition room :: "nat \<Rightarrow> 'a screens_scheme \<Rightarrow> nat" where
  "room c s = unat (cursor (console_table s c) - crtc_start (console_table s c))"

lemma room_at: "con_at c k x s \<Longrightarrow> k \<le> x div 80 \<Longrightarrow> room c s = x - 80 * k"
proof -
  assume a: "con_at c k x s" and w: "k \<le> x div 80"
  have "80 * k \<le> x" using w by simp
  then have "cursor (console_table s c) - crtc_start (console_table s c) = of_nat (x - 80 * k)"
    unfolding con_atD(6,7)[OF a] by (simp add: of_nat_diff)
  then show ?thesis using con_atD(3)[OF a] by (simp add: room_def unat_nat_u32)
qed

lemma own_only_full: "own_only c s s' \<Longrightarrow> c \<noteq> d \<Longrightarrow> con_ok d s' = con_ok d s"
  by (simp add: con_ok_def own_only_def)

lemma out_char_cases:
  assumes a: "con_at c k x s" and w: "k \<le> x div 80" "x div 80 < k + 25"
  shows "case out_char c ch s of
      None \<Rightarrow> ch = 0x08 \<and> x = 80 * k \<and> k > 0 \<and> is_full (console_table s c) = 0
    | Some s' \<Rightarrow> \<not> (ch = 0x08 \<and> x = 80 * k \<and> k > 0 \<and> is_full (console_table s c) = 0) \<and> con_ok c s' \<and> own_only c s s' \<and>
        (80 * k < x \<longrightarrow> min (x - 80 * k - 1) 1920 \<le> room c s')"
proof -
  have x: "x < 5440" using con_atD(2)[OF a] w by simp
  obtain s1 where s1: "print_char c ch s = Some s1" "con_at c k (moved ch x) s1" "own_only c s s1"
    "is_full (console_table s1 c) = is_full (console_table s c)"
    using print_char_own[OF a x] by blast
  let ?y = "moved ch x div 80"
  have fin: "con_ok c (flush c t) \<and> own_only c s (flush c t) \<and> room c (flush c t) = z - 80 * m"
    if "con_at c m z t" "m \<le> z div 80" "z div 80 < m + 25" "own_only c s t" for m z t
    using that con_ok_at[of c "flush c t"] room_at[of c m z "flush c t"] own_only_trans own_only_flush con_at_flush by metis
  have oc: "out_char c ch s = do { s \<leftarrow> wrap_console c s1; s \<leftarrow> scroll_loop c s; Some (flush c s) }"
    by (simp add: out_char_def s1(1))
  consider (full) "moved ch x = 5440" | (inside) "moved ch x < 5440" "k \<le> ?y" "?y < k + 25"
    | (down) "moved ch x = 80 * (k + 25)" "k < 43" | (up) "ch = 0x08" "x = 80 * k" "k > 0"
  proof -
    have x1: "80 * k \<le> x" "x < 80 * (k + 25)" using w by simp_all
    consider (nl) "ch = 0x0A" | (bs) "ch = 0x08" | (other) "moved ch x = x + 1" by (metis moved_def)
    then show thesis
    proof cases
      case nl
      then have m: "moved ch x = 80 * (x div 80 + 1)" "?y = x div 80 + 1" by (simp_all add: moved_def)
      consider "x div 80 + 1 = 68" | "x div 80 + 1 < 68" "x div 80 + 1 < k + 25" | "x div 80 + 1 < 68" "x div 80 + 1 = k + 25"
        using x w by linarith
      then show thesis using m w full inside down by cases simp_all
    next
      case bs
      then have m: "moved ch x = x - 1" by (simp add: moved_def)
      show thesis
      proof (cases "x = 80 * k \<and> k > 0")
        case True
        then show thesis using up bs by blast
      next
        case False
        then have "80 * k \<le> x - 1" using x1 by auto
        then have "k \<le> (x - 1) div 80" "(x - 1) div 80 < k + 25" using x1 by simp_all
        then show thesis using inside m x by simp
      qed
    next
      case other
      consider "x + 1 = 5440" | "x + 1 < 5440" "x + 1 < 80 * (k + 25)" | "x + 1 < 5440" "x + 1 = 80 * (k + 25)"
        using x x1 by linarith
      then show thesis
      proof cases
        case 2
        have "k \<le> (x + 1) div 80" "(x + 1) div 80 < k + 25" using x1 2 by simp_all
        then show thesis using inside other 2 by simp
      qed (use other full down in simp_all)
    qed
  qed
  then show ?thesis
  proof cases
    case full
    obtain s2 where s2: "wrap_console c s1 = Some s2" "con_at c 0 1920 s2" "own_only c s1 s2"
      using wrap_console_own[OF s1(2) full] by blast
    have "scroll_loop c s2 = Some s2" using scroll_loop_in[OF s2(2)] by simp
    moreover have "ch \<noteq> 0x08" using full x by (auto simp: moved_def)
    ultimately show ?thesis using fin[OF s2(2)] own_only_trans[OF s1(3) s2(3)] by (simp add: oc s2(1))
  next
    case inside
    have "\<not> (ch = 0x08 \<and> x = 80 * k \<and> k > 0)" "80 * k < x \<longrightarrow> x - 80 * k - 1 \<le> moved ch x - 80 * k"
      using inside(2) by (auto simp: moved_def)
    then show ?thesis using scroll_loop_in[OF s1(2) inside(2,3)] fin[OF s1(2) inside(2,3) s1(3)]
      by (auto simp: oc wrap_console_same[OF s1(2) inside(1)])
  next
    case down
    then have y: "?y = k + 25" "moved ch x < 5440" "moved ch x \<le> 5360" by simp_all
    obtain s2 where s2: "scroll_loop c s1 = Some s2" "con_at c (k + 1) (moved ch x) s2" "own_only c s1 s2"
      using scroll_loop_up[OF s1(2) _ y(3)] y(1) by auto
    have "ch \<noteq> 0x08 \<or> x \<noteq> 80 * k" using down by (auto simp: moved_def)
    then show ?thesis using fin[OF s2(2)] y down own_only_trans[OF s1(3) s2(3)]
      by (auto simp: oc wrap_console_same[OF s1(2) y(2)] s2(1))
  next
    case up
    then have y: "?y < k" "moved ch x < 5440" "moved ch x \<le> 5360" using con_atD(2)[OF a] by (auto simp: moved_def)
    show ?thesis
    proof (cases "is_full (console_table s c) = 0")
      case True
      then have "out_char c ch s = None"
        using scroll_loop_stuck[OF s1(2) y(1,3)] s1(4) by (simp add: oc wrap_console_same[OF s1(2) y(2)])
      then show ?thesis using True up by simp
    next
      case False
      obtain s2 t where s2: "scroll_loop c s1 = Some s2" "con_at c t (moved ch x) s2" "t \<le> ?y" "?y < t + 25" "own_only c s1 s2"
        using scroll_loop_down[OF s1(2) y(1,3)] False s1(4) by auto
      show ?thesis using fin[OF s2(2,3,4)] own_only_trans[OF s1(3) s2(5)] False up(2)
        by (simp add: oc wrap_console_same[OF s1(2) y(2)] s2(1))
    qed
  qed
qed


text \<open>Text without backspace.\<close>

lemma out_chars_ok:
  "con_ok c s \<Longrightarrow> 0x08 \<notin> set chs \<Longrightarrow> \<exists>s'. out_chars c chs s = Some s' \<and> con_ok c s' \<and> own_only c s s'"
proof (induction chs arbitrary: s)
  case Nil
  then show ?case by (simp add: own_only_refl)
next
  case (Cons ch chs)
  obtain k x where a: "con_at c k x s" "k \<le> x div 80" "x div 80 < k + 25" using Cons.prems(1) con_ok_at by blast
  obtain s1 where s1: "out_char c ch s = Some s1" "con_ok c s1" "own_only c s s1"
    using out_char_cases[OF a, of ch] Cons.prems(2) by (auto split: option.splits)
  then show ?case using Cons.IH[OF s1(2)] Cons.prems(2) own_only_trans by fastforce
qed

text \<open>\<^verbatim>\<open>init_screen\<close> leaves a console in order; the first one goes on where the kernel has printed before.\<close>

lemma init_screen_ok:
  assumes c: "c < NR_CONSOLES" and pos: "c = 0 \<longrightarrow> disp_pos s div 2 < SCR_SIZE"
  shows "\<exists>s'. init_screen c s = Some s' \<and> con_ok c s' \<and> (\<forall>d. c \<noteq> d \<longrightarrow> con_ok d s' = con_ok d s)"
proof -
  define s1 where "s1 = (let s = s\<lparr>tty_table := (tty_table s)(c := (tty_table s c)\<lparr>console := c\<rparr>)\<rparr>;
          s = upd_con c (\<lambda>con. con\<lparr>orig := of_nat c * size_per_con, con_size := size_per_con div SCR_WIDTH * SCR_WIDTH,
                cursor := of_nat c * size_per_con, crtc_start := of_nat c * size_per_con,
                is_full := 0, current_line := 0\<rparr>) s
      in if c = 0 then upd_con c (cursor_update (\<lambda>_. disp_pos s div 2)) s else s)"
  have sz: "size_per_con div SCR_WIDTH * SCR_WIDTH = size_per_con" by (simp add: size_per_con_value SCR_WIDTH_def)
  have "con_ok c s1" using c pos
    by (auto simp: s1_def Let_def con_ok_def sz upd_con_def) (simp_all add: size_per_con_value SCR_SIZE_def)
  moreover have "0x08 \<notin> set (prompt c)" using c by (auto simp: prompt_def NR_CONSOLES_def less_Suc_eq numeral_3_eq_3)
  ultimately obtain s2 where s2: "out_chars c (prompt c) s1 = Some s2" "con_ok c s2" "own_only c s1 s2"
    using out_chars_ok by blast
  have i: "init_screen c s = Some (set_cursor (cursor (console_table s2 c)) s2)"
    using s2(1) by (simp add: init_screen_def s1_def Let_def)
  have "con_ok d s1 = con_ok d s" if "c \<noteq> d" for d using that by (auto simp: con_ok_def s1_def upd_con_def Let_def)
  moreover have "con_ok d (set_cursor x s2) = con_ok d s2" for d x by (simp add: con_ok_def set_cursor_def out_crtc_def)
  ultimately show ?thesis using i s2(2) own_only_full[OF s2(3)] by simp
qed

text \<open>
  C27. A console whose cursor is in its window and whose window is in its part of the video memory stays so when
  \<^verbatim>\<open>out_char\<close> prints a character to it, and printing changes no memory of another console, no other console, and the
  registers of the display only for the console on display. \<^verbatim>\<open>out_char\<close> always returns except for a backspace at the top left
  corner of a window that is not at the start of a console that has never been full: then the loop that moves
  the window runs forever.
\<close>

theorem out_char_keeps_console:
  assumes "con_ok c s"
  shows "(out_char c ch s = None \<longleftrightarrow> ch = 0x08 \<and> cursor (console_table s c) = crtc_start (console_table s c) \<and>
      crtc_start (console_table s c) \<noteq> orig (console_table s c) \<and> is_full (console_table s c) = 0) \<and>
    (\<forall>s'. out_char c ch s = Some s' \<longrightarrow> con_ok c s' \<and> own_only c s s')"
proof -
  obtain k x where a: "con_at c k x s" and w: "k \<le> x div 80" "x div 80 < k + 25" using assms con_ok_at by blast
  note d = con_atD[OF a]
  have "cursor (console_table s c) = crtc_start (console_table s c) \<longleftrightarrow> x = 80 * k"
    unfolding d(6,7) using con_at_small[OF a] by (auto simp: u32_nat_eq simp del: of_nat_add of_nat_mult)
  moreover have "crtc_start (console_table s c) \<noteq> orig (console_table s c) \<longleftrightarrow> k > 0"
    unfolding d(4,6) using con_at_small[OF a] by (auto simp: u32_nat_eq simp del: of_nat_add of_nat_mult)
  ultimately show ?thesis using out_char_cases[OF a w, of ch] by (auto split: option.splits)
qed


text \<open>Console 1 with its window one line down and the cursor at the start of the window.\<close>

definition demo_screens :: screens where
  "demo_screens = \<lparr>console_table = (\<lambda>_. \<lparr>crtc_start = 5520, orig = 5440, con_size = 5440, cursor = 5520, is_full = 0, current_line = 0\<rparr>),
     tty_table = (\<lambda>_. \<lparr>ibuf = (\<lambda>_. 0), ibuf_head = 0, ibuf_tail = 0, ibuf_read = 0, ibuf_cnt = 0, ibuf_read_cnt = 0, status = 1,
       mouse_left_button = 0, mouse_mid_button = 0, mouse_X = 0, mouse_Y = 0, console = 1\<rparr>),
     current_console = 1, disp_pos = 0, vmem = (\<lambda>_. 0), umem = (\<lambda>_. 0), crtc = (\<lambda>_. 0)\<rparr>"

theorem out_char_keeps_console_witness:
  "out_char 1 0x08 demo_screens = None \<and> (\<exists>s'. out_char 1 0x41 demo_screens = Some s' \<and> con_ok 1 s')"
proof -
  have ok: "con_ok 1 demo_screens"
    by (simp add: con_ok_def Let_def demo_screens_def NR_CONSOLES_def size_per_con_value SCR_WIDTH_def SCR_SIZE_def)
  have "out_char 1 0x08 demo_screens = None"
    using out_char_keeps_console[OF ok, of "0x08"] by (simp add: demo_screens_def)
  moreover obtain s' where "out_char 1 0x41 demo_screens = Some s'"
    using out_char_keeps_console[OF ok, of "0x41"] by (auto simp: not_None_eq)
  ultimately show ?thesis using out_char_keeps_console[OF ok, of "0x41"] by blast
qed

end
