(* ===== verification/Tty.thy ===== *)
theory Tty
  imports ConsoleLaws
begin

text \<open>
  The terminals of \<^verbatim>\<open>kernel/tty.c\<close>. A terminal keeps the keys typed in a ring of 256 words, with three places in it: where
  the next key goes (\<open>ibuf_head\<close>), what is shown next (\<open>ibuf_tail\<close>, \<open>ibuf_cnt\<close> keys are not shown yet) and
  what a process reads next (\<open>ibuf_read\<close>, \<open>ibuf_read_cnt\<close> keys are not read yet). They are pointers in the code, indices
  here; an access outside the ring is \<open>None\<close>.
\<close>

definition TTY_IN_BYTES :: int where "TTY_IN_BYTES = 256"
definition TTY_STATE_WAIT_ENTER :: u32 where "TTY_STATE_WAIT_ENTER = 4"
definition TTY_STATE_DISPLAY :: u32 where "TTY_STATE_DISPLAY = 1"
definition MOUSE_UPDOWN_BOUND :: int where "MOUSE_UPDOWN_BOUND = 15"

definition FLAG_EXT :: u32 where "FLAG_EXT = 0x0100"
definition MASK_RAW :: u32 where "MASK_RAW = 0x01FF"
definition ENTER :: u32 where "ENTER = 0x03 + FLAG_EXT"
definition BACKSPACE :: u32 where "BACKSPACE = 0x04 + FLAG_EXT"
definition UP :: u32 where "UP = 0x25 + FLAG_EXT"
definition DOWN :: u32 where "DOWN = 0x26 + FLAG_EXT"
definition F1 :: u32 where "F1 = 0x11 + FLAG_EXT"
definition F12 :: u32 where "F12 = 0x1C + FLAG_EXT"

definition upd_tty :: "nat \<Rightarrow> (TTY \<Rightarrow> TTY) \<Rightarrow> 'a screens_scheme \<Rightarrow> 'a screens_scheme" where
  "upd_tty t f s = s\<lparr>tty_table := (tty_table s)(t := f (tty_table s t))\<rparr>"

definition in_ring :: "int \<Rightarrow> bool" where
  "in_ring p \<longleftrightarrow> 0 \<le> p \<and> p < TTY_IN_BYTES"

text \<open>\<^verbatim>\<open>p++\<close> and the jump back to the start.\<close>

definition ring_next :: "int \<Rightarrow> int" where
  "ring_next p = (if p + 1 = TTY_IN_BYTES then 0 else p + 1)"

subsection \<open>Keys\<close>

definition put_key :: "nat \<Rightarrow> u32 \<Rightarrow> 'a screens_scheme \<Rightarrow> 'a screens_scheme option" where
  "put_key t key s =
     (let y = tty_table s t in
      if ibuf_cnt y < TTY_IN_BYTES then
        if in_ring (ibuf_head y) then
          Some (upd_tty t (\<lambda>y. y\<lparr>ibuf := (ibuf y)(nat (ibuf_head y) := key), ibuf_head := ring_next (ibuf_head y),
            ibuf_cnt := ibuf_cnt y + 1, ibuf_read_cnt := ibuf_read_cnt y + 1\<rparr>) s)
        else None
      else Some s)"

text \<open>Move the display of the terminal's console to line \<^verbatim>\<open>current_line + real_line\<close>.\<close>

definition show_line :: "nat \<Rightarrow> u32 \<Rightarrow> 'a screens_scheme \<Rightarrow> 'a screens_scheme" where
  "show_line t real_line s =
     (let a = 80 * (current_line (console_table s (console (tty_table s t))) + real_line)
      in out_crtc START_ADDR_L (a AND 0xFF) (out_crtc START_ADDR_H (drop_bit 8 a AND 0xFF) s))"

definition upd_line :: "nat \<Rightarrow> (u32 \<Rightarrow> u32) \<Rightarrow> 'a screens_scheme \<Rightarrow> 'a screens_scheme" where
  "upd_line t f s = upd_con (console (tty_table s t)) (current_line_update f) s"

definition in_process :: "nat \<Rightarrow> u32 \<Rightarrow> 'a screens_scheme \<Rightarrow> 'a screens_scheme option" where
  "in_process t key s =
     (let con = console_table s (console (tty_table s t)); real_line = orig con div SCR_WIDTH in
      if key AND FLAG_EXT = 0 then put_key t key s
      else let raw_code = key AND MASK_RAW in
        if raw_code = ENTER then do {
          s \<leftarrow> put_key t 0x0A s;
          Some (upd_tty t (status_update (\<lambda>x. x AND 3)) s)
        }
        else if raw_code = BACKSPACE then put_key t 0x08 s
        else if raw_code = UP then
          Some (if current_line con < 43 then show_line t real_line (upd_line t (\<lambda>n. n + 1) s) else s)
        else if raw_code = DOWN then
          Some (if current_line con > 0 then show_line t real_line (upd_line t (\<lambda>n. n - 1) s) else s)
        else if F1 \<le> raw_code \<and> raw_code \<le> F12 then Some (select_console (uint (raw_code - F1)) s)
        else Some s)"

subsection \<open>The terminal task\<close>

definition init_tty :: "nat \<Rightarrow> 'a screens_scheme \<Rightarrow> 'a screens_scheme option" where
  "init_tty t s =
     init_screen t (upd_tty t (\<lambda>y. y\<lparr>ibuf_read_cnt := 0, ibuf_cnt := 0, status := TTY_STATE_DISPLAY,
       ibuf_read := 0, ibuf_head := 0, ibuf_tail := 0, console := t,
       mouse_left_button := 0, mouse_mid_button := 0, mouse_X := 0, mouse_Y := 0\<rparr>) s)"

definition task_tty_init :: "'a screens_scheme \<Rightarrow> 'a screens_scheme option" where
  "task_tty_init s = do {
     s \<leftarrow> init_tty 0 s;
     s \<leftarrow> init_tty 1 s;
     s \<leftarrow> init_tty 2 s;
     let s = select_console 0 s;
     Some (set_cursor (disp_pos s div 2) s)
   }"

definition tty_mouse :: "nat \<Rightarrow> 'a screens_scheme \<Rightarrow> 'a screens_scheme" where
  "tty_mouse t s =
     (let y = tty_table s t; con = console_table s (console y) in
      if is_current_console (console y) s then
        let real_line = orig con div SCR_WIDTH;
            still = upd_tty t (mouse_Y_update (\<lambda>_. 0));
            s = (if mouse_left_button y \<noteq> 0 then
                   if mouse_Y y > MOUSE_UPDOWN_BOUND then
                     if current_line con < 43
                     then still (show_line t real_line (upd_line t (\<lambda>n. n + 1) s)) else s
                   else if mouse_Y y < - MOUSE_UPDOWN_BOUND then
                     if current_line con > 0
                     then still (show_line t real_line (upd_line t (\<lambda>n. n - 1) s)) else s
                   else s
                 else s)
        in if mouse_mid_button y \<noteq> 0 then still (show_line t real_line (upd_line t (\<lambda>_. 0) s)) else s
      else s)"

text \<open>The backspace: the two places go back over it and the character before.\<close>

definition erase_key :: "TTY \<Rightarrow> TTY" where
  "erase_key y =
     (let y = y\<lparr>ibuf_read_cnt := ibuf_read_cnt y - 2\<rparr> in
      if ibuf_head y = 0 then y\<lparr>ibuf_head := 256 - 2, ibuf_tail := 256 - 2\<rparr>
      else y\<lparr>ibuf_head := ibuf_head y - 1 - 1, ibuf_tail := ibuf_tail y - 1 - 1\<rparr>)"

definition tty_dev_write :: "nat \<Rightarrow> 'a screens_scheme \<Rightarrow> 'a screens_scheme option" where
  "tty_dev_write t s =
     (let y = tty_table s t in
      if ibuf_cnt y \<noteq> 0 then
        if in_ring (ibuf_tail y) then
          let ch = ucast (ibuf y (nat (ibuf_tail y))) :: u8;
              s = upd_tty t (\<lambda>y. y\<lparr>ibuf_tail := ring_next (ibuf_tail y), ibuf_cnt := ibuf_cnt y - 1\<rparr>) s
          in if ch = 0x08 then
               if ibuf_read_cnt y = 1
               then Some (upd_tty t (\<lambda>y. y\<lparr>ibuf_read_cnt := ibuf_read_cnt y - 1, ibuf_head := ibuf_head y - 1,
                 ibuf_tail := ibuf_tail y - 1\<rparr>) s)
               else out_char (console y) ch (upd_tty t erase_key s)
             else out_char (console y) ch s
        else None
      else Some s)"

subsection \<open>Reading and writing a terminal\<close>

fun tty_write :: "nat \<Rightarrow> u8 list \<Rightarrow> 'a screens_scheme \<Rightarrow> 'a screens_scheme option" where
  "tty_write t [] s = Some s"
| "tty_write t (ch # buf) s = do { s \<leftarrow> out_char (console (tty_table s t)) ch s; tty_write t buf s }"

text \<open>\<^verbatim>\<open>tty_read\<close> in two parts: the first sets the flag it then waits for, the second takes the keys. \<open>n\<close> is the number of bytes
  still asked for.\<close>

definition tty_read_begin :: "nat \<Rightarrow> 'a screens_scheme \<Rightarrow> 'a screens_scheme" where
  "tty_read_begin t s =
     (if ibuf_read_cnt (tty_table s t) = 0 then upd_tty t (status_update (\<lambda>x. x OR TTY_STATE_WAIT_ENTER)) s else s)"

definition tty_read_waits :: "nat \<Rightarrow> 'a screens_scheme \<Rightarrow> bool" where
  "tty_read_waits t s \<longleftrightarrow> status (tty_table s t) AND TTY_STATE_WAIT_ENTER \<noteq> 0"

fun tty_read_loop :: "nat \<Rightarrow> nat \<Rightarrow> 'a screens_scheme \<Rightarrow> ('a screens_scheme \<times> u8 list) option" where
  "tty_read_loop t 0 s = Some (s, [])"
| "tty_read_loop t (Suc n) s =
     (let y = tty_table s t in
      if ibuf_read_cnt y \<noteq> 0 then
        if in_ring (ibuf_read y) then do {
          (s', chs) \<leftarrow> tty_read_loop t n (upd_tty t (\<lambda>y. y\<lparr>ibuf_read := ring_next (ibuf_read y),
            ibuf_read_cnt := ibuf_read_cnt y - 1\<rparr>) s);
          Some (s', ucast (ibuf y (nat (ibuf_read y))) # chs)
        } else None
      else Some (s, []))"

definition tty_read :: "nat \<Rightarrow> int \<Rightarrow> 'a screens_scheme \<Rightarrow> ('a screens_scheme \<times> u8 list) option" where
  "tty_read t n s =
     (let s = tty_read_begin t s in if tty_read_waits t s then None else tty_read_loop t (nat n) s)"

end
