(* ===== verification/TtyLaws.thy ===== *)
theory TtyLaws
  imports Tty
begin

text \<open>
  What a process reads from a terminal: the keys typed, as a line in which a backspace takes back the character before.
\<close>

subsection \<open>Editing a line\<close>

definition char_of_key :: "u32 \<Rightarrow> u8 option" where
  "char_of_key key =
     (if key AND FLAG_EXT = 0 then Some (ucast key)
      else if key AND MASK_RAW = ENTER then Some 0x0A
      else if key AND MASK_RAW = BACKSPACE then Some 0x08
      else None)"

definition edit :: "u8 list \<Rightarrow> u32 \<Rightarrow> u8 list" where
  "edit xs key = (case char_of_key key of None \<Rightarrow> xs | Some c \<Rightarrow> if c = 0x08 then butlast xs else xs @ [c])"

text \<open>Each key is shown before the next one comes.\<close>

fun type_keys :: "nat \<Rightarrow> u32 list \<Rightarrow> 'a screens_scheme \<Rightarrow> 'a screens_scheme option" where
  "type_keys t [] s = Some s"
| "type_keys t (key # keys) s = do { s \<leftarrow> in_process t key s; s \<leftarrow> tty_dev_write t s; type_keys t keys s }"

text \<open>The terminal has the line \<open>xs\<close> from index \<open>r\<close> of its ring on, all of it shown.\<close>

definition typed :: "nat \<Rightarrow> nat \<Rightarrow> u8 list \<Rightarrow> 'a screens_scheme \<Rightarrow> bool" where
  "typed t r xs s \<longleftrightarrow> (let y = tty_table s t; n = int r + int (length xs) in
     r + length xs < 256 \<and> ibuf_read y = int r \<and> ibuf_read_cnt y = int (length xs) \<and> ibuf_head y = n \<and> ibuf_tail y = n \<and>
     ibuf_cnt y = 0 \<and> (\<forall>i<length xs. ucast (ibuf y (r + i)) = xs ! i) \<and> con_ok (console y) s)"

lemma typedD:
  assumes "typed t r xs s"
  shows "r + length xs < 256" "ibuf_read (tty_table s t) = int r" "ibuf_read_cnt (tty_table s t) = int (length xs)"
    "ibuf_head (tty_table s t) = int (r + length xs)" "ibuf_tail (tty_table s t) = int (r + length xs)"
    "ibuf_cnt (tty_table s t) = 0" "i < length xs \<Longrightarrow> ucast (ibuf (tty_table s t) (r + i)) = xs ! i"
    "con_ok (console (tty_table s t)) s"
  using assms by (simp_all add: typed_def Let_def)

lemma typed_cong:
  "tty_table s' t = (tty_table s t)\<lparr>status := u\<rparr> \<Longrightarrow> con_ok (console (tty_table s t)) s' \<Longrightarrow> typed t r xs s \<Longrightarrow> typed t r xs s'"
  by (simp add: typed_def Let_def)

lemma con_ok_cong: "console_table s' c = console_table s c \<Longrightarrow> con_ok c s' = con_ok c s"
  by (simp add: con_ok_def)

lemma room_cong: "console_table s' c = console_table s c \<Longrightarrow> room c s' = room c s"
  by (simp add: room_def)

lemma upd_tty_simps [simp]:
  "tty_table (upd_tty t f s) t = f (tty_table s t)" "console_table (upd_tty t f s) = console_table s"
  by (simp_all add: upd_tty_def)

text \<open>Printing to a console that has room above the cursor.\<close>

lemma out_char_room:
  assumes "con_ok c s" "room c s > 0"
  shows "\<exists>s'. out_char c ch s = Some s' \<and> con_ok c s' \<and> tty_table s' = tty_table s \<and> min (room c s - 1) 1920 \<le> room c s'"
proof -
  obtain k x where a: "con_at c k x s" and w: "k \<le> x div 80" "x div 80 < k + 25" using assms(1) con_ok_at by blast
  have r: "room c s = x - 80 * k" using room_at[OF a w(1)] .
  then show ?thesis using out_char_cases[OF a w, of ch] assms(2) by (auto simp: own_only_def split: option.splits)
qed

lemma put_key_typed:
  assumes ty: "typed t r xs s" and fits: "r + length xs + 1 < 256"
  shows "put_key t key s = Some (upd_tty t (\<lambda>y. y\<lparr>ibuf := (ibuf y)(r + length xs := key), ibuf_head := int (r + length xs + 1),
    ibuf_cnt := 1, ibuf_read_cnt := int (length xs) + 1\<rparr>) s)"
proof -
  note d = typedD[OF ty]
  have "nat (int r + int (length xs)) = r + length xs" by simp
  then show ?thesis using fits
    by (simp add: put_key_def Let_def d(3,4,6) TTY_IN_BYTES_def in_ring_def ring_next_def upd_tty_def ac_simps)
qed

lemma type_char:
  assumes ty: "typed t r xs s" and fits: "r + length xs + 1 < 256" and rm: "room (console (tty_table s t)) s > 0"
    and st: "\<forall>y. f y = y\<lparr>status := g y\<rparr>"
  shows "\<exists>s1 s'. put_key t key s = Some s1 \<and> tty_dev_write t (upd_tty t f s1) = Some s' \<and>
    typed t r (if ucast key = (0x08 :: u8) then butlast xs else xs @ [ucast key]) s' \<and>
    status (tty_table s' t) = g (tty_table s1 t) \<and> status (tty_table s1 t) = status (tty_table s t) \<and>
    console (tty_table s' t) = console (tty_table s t) \<and>
    min (room (console (tty_table s t)) s - 1) 1920 \<le> room (console (tty_table s t)) s'"
proof -
  note d = typedD[OF ty]
  let ?n = "length xs" and ?c = "console (tty_table s t)"
  define s1 where "s1 = upd_tty t (\<lambda>y. y\<lparr>ibuf := (ibuf y)(r + ?n := key), ibuf_head := int (r + ?n + 1),
    ibuf_cnt := 1, ibuf_read_cnt := int ?n + 1\<rparr>) s"
  have put: "put_key t key s = Some s1" using put_key_typed[OF ty fits] by (simp add: s1_def)
  define s2 where "s2 = upd_tty t (\<lambda>y. y\<lparr>ibuf_tail := int (r + ?n + 1), ibuf_cnt := 0\<rparr>) (upd_tty t f s1)"
  have y2: "tty_table s2 t = (tty_table s t)\<lparr>ibuf := (ibuf (tty_table s t))(r + ?n := key), ibuf_head := int (r + ?n + 1),
    ibuf_cnt := 0, ibuf_read_cnt := int ?n + 1, ibuf_tail := int (r + ?n + 1), status := g (tty_table s1 t)\<rparr>"
    using st by (simp add: s2_def s1_def)
  have con2: "console_table s2 = console_table s" by (simp add: s2_def s1_def)
  have ok2: "con_ok ?c s2" "room ?c s2 = room ?c s" using d(8) con_ok_cong room_cong con2 by metis+
  have y1: "ibuf_cnt (tty_table (upd_tty t f s1) t) = 1" "ibuf_tail (tty_table (upd_tty t f s1) t) = int (r + ?n)"
    "ibuf (tty_table (upd_tty t f s1) t) (r + ?n) = key" "ibuf_read_cnt (tty_table (upd_tty t f s1) t) = int ?n + 1"
    "console (tty_table (upd_tty t f s1) t) = ?c"
    using st by (simp_all add: s1_def d(5))
  have n: "nat (int r + int ?n) = r + ?n" by simp
  have w: "tty_dev_write t (upd_tty t f s1) = (if ucast key = (0x08 :: u8) then
      if xs = [] then Some (upd_tty t (\<lambda>y. y\<lparr>ibuf_read_cnt := ibuf_read_cnt y - 1, ibuf_head := ibuf_head y - 1,
        ibuf_tail := ibuf_tail y - 1\<rparr>) s2)
      else out_char ?c 0x08 (upd_tty t erase_key s2) else out_char ?c (ucast key) s2)"
    using fits by (simp add: tty_dev_write_def Let_def y1 n in_ring_def ring_next_def TTY_IN_BYTES_def)
      (simp add: s2_def upd_tty_def y1 d(5) s1_def st n ac_simps)
  have s1st: "status (tty_table s1 t) = status (tty_table s t)" by (simp add: s1_def)
  consider (first) "ucast key = (0x08 :: u8)" "xs = []" | (erase) "ucast key = (0x08 :: u8)" "xs \<noteq> []"
    | (char) "ucast key \<noteq> (0x08 :: u8)" by blast
  then show ?thesis
  proof cases
    case first
    let ?s = "upd_tty t (\<lambda>y. y\<lparr>ibuf_read_cnt := ibuf_read_cnt y - 1, ibuf_head := ibuf_head y - 1, ibuf_tail := ibuf_tail y - 1\<rparr>) s2"
    have "con_ok ?c ?s" "room ?c ?s = room ?c s" using ok2 con_ok_cong[of ?s ?c s2] room_cong[of ?s ?c s2] by simp_all
    then have "typed t r [] ?s" using first d by (simp add: typed_def Let_def y2)
    then show ?thesis using put w first s1st \<open>room ?c ?s = room ?c s\<close> by (simp add: y2)
  next
    case erase
    let ?s = "upd_tty t erase_key s2"
    have "con_ok ?c ?s" "room ?c ?s > 0" "room ?c ?s = room ?c s"
      using ok2 rm con_ok_cong[of ?s ?c s2] room_cong[of ?s ?c s2] by simp_all
    from out_char_room[OF this(1,2), of "0x08"] this(3) obtain s' where s': "out_char ?c 0x08 ?s = Some s'" "con_ok ?c s'"
      "tty_table s' = tty_table ?s" "min (room ?c s - 1) 1920 \<le> room ?c s'" by auto
    obtain ys ch where xs: "xs = ys @ [ch]" using erase(2) by (metis append_butlast_last_id)
    have "typed t r (butlast xs) s'"
      using d s'(2) by (auto simp: typed_def Let_def s'(3) y2 erase_key_def nth_append xs split: if_splits)
    then show ?thesis using put w erase s' s1st by (simp add: y2 erase_key_def Let_def)
  next
    case char
    from out_char_room[OF ok2(1), of "ucast key"] ok2(2) rm obtain s' where s': "out_char ?c (ucast key) s2 = Some s'" "con_ok ?c s'"
      "tty_table s' = tty_table s2" "min (room ?c s - 1) 1920 \<le> room ?c s'" by auto
    have "typed t r (xs @ [ucast key]) s'"
      using d s'(2) fits by (auto simp: typed_def Let_def s'(3) y2 nth_append less_Suc_eq)
    then show ?thesis using put w char s' s1st by (simp add: y2)
  qed
qed


text \<open>One key of any kind.\<close>

lemma select_console_same [simp]:
  "tty_table (select_console n s) = tty_table s" "console_table (select_console n s) = console_table s"
  by (auto simp: select_console_def flush_def set_video_start_addr_def set_cursor_def out_crtc_def)

lemma show_line_same [simp]:
  "tty_table (show_line t r s) = tty_table s" "console_table (show_line t r s) = console_table s"
  by (simp_all add: show_line_def Let_def out_crtc_def)

lemma upd_line_ok:
  "tty_table (upd_line t f s) = tty_table s" "con_ok c (upd_line t f s) = con_ok c s" "room c (upd_line t f s) = room c s"
  by (cases "c = console (tty_table s t)"; simp add: upd_line_def upd_con_def con_ok_def room_def Let_def)+

text \<open>Keys that are no characters.\<close>

lemma other_key:
  assumes "char_of_key key = None"
  shows "\<exists>s'. in_process t key s = Some s' \<and> tty_table s' = tty_table s \<and> (\<forall>c. con_ok c s' = con_ok c s) \<and>
    (\<forall>c. room c s' = room c s)"
proof -
  have k: "key AND FLAG_EXT \<noteq> 0" "key AND MASK_RAW \<noteq> ENTER" "key AND MASK_RAW \<noteq> BACKSPACE"
    using assms by (auto simp: char_of_key_def split: if_splits)
  have "con_ok c (show_line t r s) = con_ok c s" "room c (show_line t r s) = room c s"
    "con_ok c (select_console n s) = con_ok c s" "room c (select_console n s) = room c s" for c r n and s :: "'a screens_scheme"
    by (rule con_ok_cong room_cong, simp)+
  then show ?thesis using k by (auto simp: in_process_def Let_def upd_line_ok)
qed

lemma type_key:
  assumes ty: "typed t r xs s" and fits: "r + length xs + 1 < 256" and rm: "room (console (tty_table s t)) s > m" "m < 1920"
  shows "\<exists>s1 s'. in_process t key s = Some s1 \<and> tty_dev_write t s1 = Some s' \<and> typed t r (edit xs key) s' \<and>
    (status (tty_table s t) AND TTY_STATE_WAIT_ENTER = 0 \<longrightarrow> status (tty_table s' t) AND TTY_STATE_WAIT_ENTER = 0) \<and>
    (char_of_key key = Some 0x0A \<and> key AND FLAG_EXT \<noteq> 0 \<longrightarrow> status (tty_table s' t) AND TTY_STATE_WAIT_ENTER = 0) \<and>
    console (tty_table s' t) = console (tty_table s t) \<and> m \<le> room (console (tty_table s t)) s'"
proof -
  have m: "m \<le> room (console (tty_table s t)) s'"
    if "min (room (console (tty_table s t)) s - 1) 1920 \<le> room (console (tty_table s t)) s'" for s'
    using that rm by simp
  have rm0: "room (console (tty_table s t)) s > 0" using rm by simp
  have id: "upd_tty t (\<lambda>y. y\<lparr>status := status y\<rparr>) s = s" for s :: "'a screens_scheme" by (simp add: upd_tty_def)
  note plain = type_char[OF ty fits rm0, of "\<lambda>y. y" "status"]
  consider (char) "key AND FLAG_EXT = 0" | (enter) "key AND FLAG_EXT \<noteq> 0" "key AND MASK_RAW = ENTER"
    | (bksp) "key AND FLAG_EXT \<noteq> 0" "key AND MASK_RAW = BACKSPACE" "key AND MASK_RAW \<noteq> ENTER"
    | (other) "char_of_key key = None" "key AND FLAG_EXT \<noteq> 0"
    by (metis char_of_key_def)
  then show ?thesis
  proof cases
    case char
    obtain s1 s' where "put_key t key s = Some s1" "tty_dev_write t (upd_tty t (\<lambda>y. y) s1) = Some s'"
      "typed t r (if ucast key = (0x08 :: u8) then butlast xs else xs @ [ucast key]) s'"
      "status (tty_table s' t) = status (tty_table s t)" "console (tty_table s' t) = console (tty_table s t)"
      "min (room (console (tty_table s t)) s - 1) 1920 \<le> room (console (tty_table s t)) s'"
      using plain[of key] by auto
    then show ?thesis using char m[of s'] by (simp add: in_process_def Let_def edit_def char_of_key_def upd_tty_def)
  next
    case enter
    obtain s1 s' where "put_key t 0x0A s = Some s1" "tty_dev_write t (upd_tty t (status_update (\<lambda>x. x AND 3)) s1) = Some s'"
      "typed t r (xs @ [0x0A]) s'"
      "status (tty_table s' t) = status (tty_table s t) AND 3" "console (tty_table s' t) = console (tty_table s t)"
      "min (room (console (tty_table s t)) s - 1) 1920 \<le> room (console (tty_table s t)) s'"
      using type_char[OF ty fits rm0, of "status_update (\<lambda>x. x AND 3)" "\<lambda>y. status y AND 3" "0x0A"] by auto
    then show ?thesis using enter m[of s']
      by (simp add: in_process_def Let_def edit_def char_of_key_def TTY_STATE_WAIT_ENTER_def and.assoc)
  next
    case bksp
    obtain s1 s' where "put_key t 0x08 s = Some s1" "tty_dev_write t (upd_tty t (\<lambda>y. y) s1) = Some s'"
      "typed t r (butlast xs) s'"
      "status (tty_table s' t) = status (tty_table s t)" "console (tty_table s' t) = console (tty_table s t)"
      "min (room (console (tty_table s t)) s - 1) 1920 \<le> room (console (tty_table s t)) s'"
      using plain[of "0x08"] by auto
    then show ?thesis using bksp m[of s']
      by (simp add: in_process_def Let_def edit_def char_of_key_def upd_tty_def)
  next
    case other
    obtain s1 where s1: "in_process t key s = Some s1" "tty_table s1 = tty_table s" "\<forall>c. con_ok c s1 = con_ok c s" "\<forall>c. room c s1 = room c s"
      using other_key[OF other(1)] by blast
    have "tty_dev_write t s1 = Some s1" by (simp add: tty_dev_write_def Let_def s1(2) typedD(6)[OF ty])
    moreover have "typed t r xs s1" using ty by (simp add: typed_def s1(2,3))
    ultimately show ?thesis using s1 other rm by (simp add: edit_def)
  qed
qed


subsection \<open>Typing and reading\<close>

lemma length_edit: "length (edit xs key) \<le> length xs + 1"
  by (auto simp: edit_def split: option.splits)

lemma ENTER_key: "key AND MASK_RAW = ENTER \<Longrightarrow> key AND FLAG_EXT \<noteq> 0 \<and> char_of_key key = Some 0x0A"
proof -
  assume k: "key AND MASK_RAW = ENTER"
  have "key AND FLAG_EXT = (key AND MASK_RAW) AND FLAG_EXT" by (simp add: MASK_RAW_def FLAG_EXT_def and.assoc)
  also have "\<dots> \<noteq> 0" unfolding k by (simp add: ENTER_def FLAG_EXT_def)
  finally show ?thesis using k by (simp add: char_of_key_def)
qed

lemma type_keys_typed:
  assumes "typed t r xs s" "r + length xs + length ks < 256" "length ks \<le> room (console (tty_table s t)) s"
  shows "\<exists>s'. type_keys t ks s = Some s' \<and> typed t r (foldl edit xs ks) s' \<and>
    (status (tty_table s t) AND TTY_STATE_WAIT_ENTER = 0 \<or> (\<exists>key\<in>set ks. key AND MASK_RAW = ENTER) \<longrightarrow>
     status (tty_table s' t) AND TTY_STATE_WAIT_ENTER = 0)"
  using assms
proof (induction ks arbitrary: xs s)
  case Nil
  then show ?case by simp
next
  case (Cons key ks)
  have "r + length xs + 1 < 256" "length ks < room (console (tty_table s t)) s" "length ks < 1920" using Cons.prems by simp_all
  from type_key[OF Cons.prems(1) this, of key] obtain s1 s2 where s2: "in_process t key s = Some s1" "tty_dev_write t s1 = Some s2"
    "typed t r (edit xs key) s2" "console (tty_table s2 t) = console (tty_table s t)"
    "length ks \<le> room (console (tty_table s t)) s2"
    "status (tty_table s t) AND TTY_STATE_WAIT_ENTER = 0 \<or> key AND MASK_RAW = ENTER \<longrightarrow>
     status (tty_table s2 t) AND TTY_STATE_WAIT_ENTER = 0"
    using ENTER_key[of key] by blast
  have "r + length (edit xs key) + length ks < 256" using length_edit[of xs key] Cons.prems(2) by simp
  from Cons.IH[OF s2(3) this] s2(4,5) obtain s' where s': "type_keys t ks s2 = Some s'" "typed t r (foldl edit (edit xs key) ks) s'"
    "status (tty_table s2 t) AND TTY_STATE_WAIT_ENTER = 0 \<or> (\<exists>key\<in>set ks. key AND MASK_RAW = ENTER) \<longrightarrow>
     status (tty_table s' t) AND TTY_STATE_WAIT_ENTER = 0" by auto
  then show ?case using s2(1,2,6) by (intro exI[of _ s']) auto
qed

lemma tty_read_loop_line:
  assumes "r + length xs < 256" "ibuf_read (tty_table s t) = int r" "ibuf_read_cnt (tty_table s t) = int (length xs)"
    "\<forall>i<length xs. ucast (ibuf (tty_table s t) (r + i)) = xs ! i"
  shows "\<exists>s'. tty_read_loop t n s = Some (s', take n xs)"
  using assms
proof (induction n arbitrary: r xs s)
  case (Suc n)
  show ?case
  proof (cases xs)
    case Nil
    then show ?thesis using Suc.prems(3) by (simp add: Let_def)
  next
    case (Cons x xs')
    let ?s = "upd_tty t (\<lambda>y. y\<lparr>ibuf_read := ring_next (ibuf_read y), ibuf_read_cnt := ibuf_read_cnt y - 1\<rparr>) s"
    have "\<exists>s'. tty_read_loop t n ?s = Some (s', take n xs')"
    proof (rule Suc.IH[of "r + 1"])
      show "\<forall>i<length xs'. ucast (ibuf (tty_table ?s t) (r + 1 + i)) = xs' ! i"
        using Suc.prems(4) Cons by (auto dest: spec[of _ "Suc i" for i])
    qed (use Suc.prems(1-3) Cons in \<open>auto simp: ring_next_def TTY_IN_BYTES_def\<close>)
    moreover have "ucast (ibuf (tty_table s t) r) = x" using Suc.prems(4) Cons by (auto dest: spec[of _ 0])
    ultimately show ?thesis using Suc.prems(1-3) Cons by (auto simp: Let_def in_ring_def TTY_IN_BYTES_def)
  qed
qed simp

text \<open>
  C26. A process reads from a terminal what was typed, as a line that backspaces edit. Let the terminal have no keys left to
  be read. When then fewer keys are typed than its ring has places up to its end, each shown before the next,
  and the console has room above the cursor, typing never fails; \<^verbatim>\<open>tty_read\<close> returns, if it does not wait
  for a line or one of the keys was Enter, the first bytes of the line: the characters in order, Enter as a newline, where
  each backspace has removed the last character of the line so far.
\<close>

theorem typed_line_is_read:
  assumes "typed t r [] s" "r + length ks < 256" "length ks \<le> room (console (tty_table s t)) s"
    and "status (tty_table s t) AND TTY_STATE_WAIT_ENTER = 0 \<or> (\<exists>key\<in>set ks. key AND MASK_RAW = ENTER)"
    and "foldl edit [] ks \<noteq> []"
  shows "\<exists>s' s''. type_keys t ks s = Some s' \<and> tty_read t n s' = Some (s'', take (nat n) (foldl edit [] ks))"
proof -
  obtain s' where s': "type_keys t ks s = Some s'" "typed t r (foldl edit [] ks) s'"
    "status (tty_table s' t) AND TTY_STATE_WAIT_ENTER = 0"
    using type_keys_typed[OF assms(1)] assms(2-4) by auto
  note d = typedD[OF s'(2)]
  have "tty_read_begin t s' = s'" using assms(5) by (simp add: tty_read_begin_def d(3))
  then have "tty_read t n s' = tty_read_loop t (nat n) s'" by (simp add: tty_read_def tty_read_waits_def s'(3))
  then show ?thesis using s'(1) tty_read_loop_line[OF d(1-3)] d(7) by auto
qed

text \<open>Terminal 1 waits for a line; three lines below the top of its window ``a'', ``b'', backspace and Enter are typed.\<close>

definition demo_typing :: screens where
  "demo_typing = demo_screens\<lparr>
     console_table := (\<lambda>_. \<lparr>crtc_start = 5440, orig = 5440, con_size = 5440, cursor = 5680, is_full = 0, current_line = 0\<rparr>),
     tty_table := (\<lambda>_. (tty_table demo_screens 1)\<lparr>status := 5\<rparr>)\<rparr>"

theorem typed_line_is_read_witness:
  "\<exists>s' s''. type_keys 1 [0x61, 0x62, BACKSPACE, ENTER] demo_typing = Some s' \<and> tty_read 1 80 s' = Some (s'', [0x61, 0x0A])"
proof -
  have "con_ok 1 demo_typing"
    by (simp add: con_ok_def Let_def demo_typing_def NR_CONSOLES_def size_per_con_value SCR_WIDTH_def SCR_SIZE_def)
  then have ty: "typed 1 0 [] demo_typing" by (simp add: typed_def demo_typing_def demo_screens_def)
  have line: "foldl edit [] [0x61, 0x62, BACKSPACE, ENTER] = [0x61, 0x0A]"
    by (simp add: edit_def char_of_key_def FLAG_EXT_def MASK_RAW_def BACKSPACE_def ENTER_def)
  have wait: "ENTER AND MASK_RAW = ENTER" by (simp add: ENTER_def MASK_RAW_def FLAG_EXT_def)
  have rm: "room (console (tty_table demo_typing 1)) demo_typing = 240" by (simp add: room_def demo_typing_def)
  have "\<exists>s' s''. type_keys 1 [0x61, 0x62, BACKSPACE, ENTER] demo_typing = Some s' \<and>
    tty_read 1 80 s' = Some (s'', take (nat 80) (foldl edit [] [0x61, 0x62, BACKSPACE, ENTER]))"
    by (rule typed_line_is_read[OF ty]) (use rm line wait in auto)
  then show ?thesis unfolding line by (simp del: type_keys.simps)
qed

text \<open>At the end of the ring a backspace goes wrong: when it was stored in the first place, or in the second while there is
  something to erase, the place for the next key ends up in front of the ring, and the next key is written there.\<close>

lemma backspace_leaves_ring:
  assumes y: "ibuf_head (tty_table s t) = 0" "ibuf_tail (tty_table s t) = 0" "ibuf_cnt (tty_table s t) = 0"
    "ibuf_read_cnt (tty_table s t) > 0" and con: "con_ok (console (tty_table s t)) s" "room (console (tty_table s t)) s > 0"
  shows "\<exists>s'. type_keys t [BACKSPACE] s = Some s' \<and> ibuf_head (tty_table s' t) = - 1 \<and> in_process t ENTER s' = None"
proof -
  define s1 where "s1 = upd_tty t (\<lambda>y. y\<lparr>ibuf := (ibuf y)(0 := 8), ibuf_head := 1, ibuf_cnt := 1,
    ibuf_read_cnt := ibuf_read_cnt y + 1\<rparr>) s"
  define s2 where "s2 = upd_tty t erase_key (upd_tty t (\<lambda>y. y\<lparr>ibuf_tail := 1, ibuf_cnt := 0\<rparr>) s1)"
  have k: "in_process t BACKSPACE s = Some s1"
    using y by (simp add: in_process_def Let_def BACKSPACE_def ENTER_def FLAG_EXT_def MASK_RAW_def put_key_def in_ring_def
        TTY_IN_BYTES_def ring_next_def s1_def upd_tty_def)
  have w: "tty_dev_write t s1 = out_char (console (tty_table s t)) 0x08 s2"
    using y by (simp add: tty_dev_write_def Let_def s1_def s2_def in_ring_def TTY_IN_BYTES_def ring_next_def upd_tty_def)
  have "console_table s2 = console_table s" by (simp add: s1_def s2_def)
  then have "con_ok (console (tty_table s t)) s2" "room (console (tty_table s t)) s2 > 0"
    using con con_ok_cong room_cong by metis+
  from out_char_room[OF this, of "0x08"] obtain s' where s': "out_char (console (tty_table s t)) 0x08 s2 = Some s'"
    "tty_table s' = tty_table s2" by blast
  have h: "ibuf_head (tty_table s' t) = - 1" "ibuf_cnt (tty_table s' t) = 0"
    by (simp_all add: s'(2) s2_def s1_def erase_key_def Let_def)
  then have "in_process t ENTER s' = None"
    by (simp add: in_process_def Let_def ENTER_def FLAG_EXT_def MASK_RAW_def put_key_def in_ring_def TTY_IN_BYTES_def)
  then show ?thesis using k w s'(1) h(1) by simp
qed

end
