(* ===== verification/Keymap.thy ===== *)
theory Keymap
  imports Tty
begin

text \<open>
  The key codes of \<^verbatim>\<open>include/keyboard.h\<close> and the table \<^verbatim>\<open>keymap\<close> of \<^verbatim>\<open>include/keymap.h\<close>: three codes for each scan
  code, without shift, with shift, and after the byte \<^verbatim>\<open>E0\<close>. The names \<^verbatim>\<open>END\<close>, \<^verbatim>\<open>LEFT\<close> and
  \<^verbatim>\<open>RIGHT\<close> have a suffix here.
\<close>

definition MAP_COLS :: nat where "MAP_COLS = 3"
definition FLAG_SHIFT_L :: u32 where "FLAG_SHIFT_L = 0x0200"
definition FLAG_SHIFT_R :: u32 where "FLAG_SHIFT_R = 0x0400"
definition FLAG_CTRL_L :: u32 where "FLAG_CTRL_L = 0x0800"
definition FLAG_CTRL_R :: u32 where "FLAG_CTRL_R = 0x1000"
definition FLAG_ALT_L :: u32 where "FLAG_ALT_L = 0x2000"
definition FLAG_ALT_R :: u32 where "FLAG_ALT_R = 0x4000"
definition FLAG_PAD :: u32 where "FLAG_PAD = 0x8000"

definition ESC :: u32 where "ESC = 0x01 + FLAG_EXT"
definition TAB :: u32 where "TAB = 0x02 + FLAG_EXT"
definition GUI_L :: u32 where "GUI_L = 0x05 + FLAG_EXT"
definition GUI_R :: u32 where "GUI_R = 0x06 + FLAG_EXT"
definition APPS :: u32 where "APPS = 0x07 + FLAG_EXT"
definition SHIFT_L :: u32 where "SHIFT_L = 0x08 + FLAG_EXT"
definition SHIFT_R :: u32 where "SHIFT_R = 0x09 + FLAG_EXT"
definition CTRL_L :: u32 where "CTRL_L = 0x0A + FLAG_EXT"
definition CTRL_R :: u32 where "CTRL_R = 0x0B + FLAG_EXT"
definition ALT_L :: u32 where "ALT_L = 0x0C + FLAG_EXT"
definition ALT_R :: u32 where "ALT_R = 0x0D + FLAG_EXT"
definition CAPS_LOCK :: u32 where "CAPS_LOCK = 0x0E + FLAG_EXT"
definition NUM_LOCK :: u32 where "NUM_LOCK = 0x0F + FLAG_EXT"
definition SCROLL_LOCK :: u32 where "SCROLL_LOCK = 0x10 + FLAG_EXT"
definition F2 :: u32 where "F2 = 0x12 + FLAG_EXT"
definition F3 :: u32 where "F3 = 0x13 + FLAG_EXT"
definition F4 :: u32 where "F4 = 0x14 + FLAG_EXT"
definition F5 :: u32 where "F5 = 0x15 + FLAG_EXT"
definition F6 :: u32 where "F6 = 0x16 + FLAG_EXT"
definition F7 :: u32 where "F7 = 0x17 + FLAG_EXT"
definition F8 :: u32 where "F8 = 0x18 + FLAG_EXT"
definition F9 :: u32 where "F9 = 0x19 + FLAG_EXT"
definition F10 :: u32 where "F10 = 0x1A + FLAG_EXT"
definition F11 :: u32 where "F11 = 0x1B + FLAG_EXT"
definition PRINTSCREEN :: u32 where "PRINTSCREEN = 0x1D + FLAG_EXT"
definition PAUSEBREAK :: u32 where "PAUSEBREAK = 0x1E + FLAG_EXT"
definition INSERT :: u32 where "INSERT = 0x1F + FLAG_EXT"
definition DELETE :: u32 where "DELETE = 0x20 + FLAG_EXT"
definition HOME :: u32 where "HOME = 0x21 + FLAG_EXT"
definition END_KEY :: u32 where "END_KEY = 0x22 + FLAG_EXT"
definition PAGEUP :: u32 where "PAGEUP = 0x23 + FLAG_EXT"
definition PAGEDOWN :: u32 where "PAGEDOWN = 0x24 + FLAG_EXT"
definition LEFT_KEY :: u32 where "LEFT_KEY = 0x27 + FLAG_EXT"
definition RIGHT_KEY :: u32 where "RIGHT_KEY = 0x28 + FLAG_EXT"
definition PAD_SLASH :: u32 where "PAD_SLASH = 0x2C + FLAG_EXT"
definition PAD_STAR :: u32 where "PAD_STAR = 0x2D + FLAG_EXT"
definition PAD_MINUS :: u32 where "PAD_MINUS = 0x2E + FLAG_EXT"
definition PAD_PLUS :: u32 where "PAD_PLUS = 0x2F + FLAG_EXT"
definition PAD_ENTER :: u32 where "PAD_ENTER = 0x30 + FLAG_EXT"
definition PAD_DOT :: u32 where "PAD_DOT = 0x31 + FLAG_EXT"
definition PAD_0 :: u32 where "PAD_0 = 0x32 + FLAG_EXT"
definition PAD_1 :: u32 where "PAD_1 = 0x33 + FLAG_EXT"
definition PAD_2 :: u32 where "PAD_2 = 0x34 + FLAG_EXT"
definition PAD_3 :: u32 where "PAD_3 = 0x35 + FLAG_EXT"
definition PAD_4 :: u32 where "PAD_4 = 0x36 + FLAG_EXT"
definition PAD_5 :: u32 where "PAD_5 = 0x37 + FLAG_EXT"
definition PAD_6 :: u32 where "PAD_6 = 0x38 + FLAG_EXT"
definition PAD_7 :: u32 where "PAD_7 = 0x39 + FLAG_EXT"
definition PAD_8 :: u32 where "PAD_8 = 0x3A + FLAG_EXT"
definition PAD_9 :: u32 where "PAD_9 = 0x3B + FLAG_EXT"
definition PAD_PAGEDOWN :: u32 where "PAD_PAGEDOWN = PAD_3"
definition PAD_INS :: u32 where "PAD_INS = PAD_0"
definition PAD_UP :: u32 where "PAD_UP = PAD_8"
definition PAD_HOME :: u32 where "PAD_HOME = PAD_7"
definition PAD_MID :: u32 where "PAD_MID = PAD_5"
definition PAD_DOWN :: u32 where "PAD_DOWN = PAD_2"
definition PAD_END :: u32 where "PAD_END = PAD_1"
definition PAD_LEFT :: u32 where "PAD_LEFT = PAD_4"
definition PAD_PAGEUP :: u32 where "PAD_PAGEUP = PAD_9"
definition PAD_RIGHT :: u32 where "PAD_RIGHT = PAD_6"

definition keymap :: "u32 list" where
  "keymap = [
  0, 0, 0,
  ESC, ESC, 0,
  0x31, 0x21, 0,
  0x32, 0x40, 0,
  0x33, 0x23, 0,
  0x34, 0x24, 0,
  0x35, 0x25, 0,
  0x36, 0x5E, 0,
  0x37, 0x26, 0,
  0x38, 0x2A, 0,
  0x39, 0x28, 0,
  0x30, 0x29, 0,
  0x2D, 0x5F, 0,
  0x3D, 0x2B, 0,
  BACKSPACE, BACKSPACE, 0,
  TAB, TAB, 0,
  0x71, 0x51, 0,
  0x77, 0x57, 0,
  0x65, 0x45, 0,
  0x72, 0x52, 0,
  0x74, 0x54, 0,
  0x79, 0x59, 0,
  0x75, 0x55, 0,
  0x69, 0x49, 0,
  0x6F, 0x4F, 0,
  0x70, 0x50, 0,
  0x5B, 0x7B, 0,
  0x5D, 0x7D, 0,
  ENTER, ENTER, PAD_ENTER,
  CTRL_L, CTRL_L, CTRL_R,
  0x61, 0x41, 0,
  0x73, 0x53, 0,
  0x64, 0x44, 0,
  0x66, 0x46, 0,
  0x67, 0x47, 0,
  0x68, 0x48, 0,
  0x6A, 0x4A, 0,
  0x6B, 0x4B, 0,
  0x6C, 0x4C, 0,
  0x3B, 0x3A, 0,
  0x27, 0x22, 0,
  0x60, 0x7E, 0,
  SHIFT_L, SHIFT_L, 0,
  0x5C, 0x7C, 0,
  0x7A, 0x5A, 0,
  0x78, 0x58, 0,
  0x63, 0x43, 0,
  0x76, 0x56, 0,
  0x62, 0x42, 0,
  0x6E, 0x4E, 0,
  0x6D, 0x4D, 0,
  0x2C, 0x3C, 0,
  0x2E, 0x3E, 0,
  0x2F, 0x3F, PAD_SLASH,
  SHIFT_R, SHIFT_R, 0,
  0x2A, 0x2A, 0,
  ALT_L, ALT_L, ALT_R,
  0x20, 0x20, 0,
  CAPS_LOCK, CAPS_LOCK, 0,
  F1, F1, 0,
  F2, F2, 0,
  F3, F3, 0,
  F4, F4, 0,
  F5, F5, 0,
  F6, F6, 0,
  F7, F7, 0,
  F8, F8, 0,
  F9, F9, 0,
  F10, F10, 0,
  NUM_LOCK, NUM_LOCK, 0,
  SCROLL_LOCK, SCROLL_LOCK, 0,
  PAD_HOME, 0x37, HOME,
  PAD_UP, 0x38, UP,
  PAD_PAGEUP, 0x39, PAGEUP,
  PAD_MINUS, 0x2D, 0,
  PAD_LEFT, 0x34, LEFT_KEY,
  PAD_MID, 0x35, 0,
  PAD_RIGHT, 0x36, RIGHT_KEY,
  PAD_PLUS, 0x2B, 0,
  PAD_END, 0x31, END_KEY,
  PAD_DOWN, 0x32, DOWN,
  PAD_PAGEDOWN, 0x33, PAGEDOWN,
  PAD_INS, 0x30, INSERT,
  PAD_DOT, 0x2E, DELETE,
  0, 0, 0,
  0, 0, 0,
  0, 0, 0,
  F11, F11, 0,
  F12, F12, 0,
  0, 0, 0,
  0, 0, 0,
  0, 0, GUI_L,
  0, 0, GUI_R,
  0, 0, APPS,
  0, 0, 0,
  0, 0, 0,
  0, 0, 0,
  0, 0, 0,
  0, 0, 0,
  0, 0, 0,
  0, 0, 0,
  0, 0, 0,
  0, 0, 0,
  0, 0, 0,
  0, 0, 0,
  0, 0, 0,
  0, 0, 0,
  0, 0, 0,
  0, 0, 0,
  0, 0, 0,
  0, 0, 0,
  0, 0, 0,
  0, 0, 0,
  0, 0, 0,
  0, 0, 0,
  0, 0, 0,
  0, 0, 0,
  0, 0, 0,
  0, 0, 0,
  0, 0, 0,
  0, 0, 0,
  0, 0, 0,
  0, 0, 0,
  0, 0, 0,
  0, 0, 0,
  0, 0, 0,
  0, 0, 0,
  0, 0, 0]"

end
