(* ===== verification/Keyboard.thy ===== *)
theory Keyboard
  imports Keymap
begin

text \<open>
  The keyboard, \<^verbatim>\<open>kernel/keyboard.c\<close>: the ring of scan codes that the interrupt handler fills, the mouse, and
  \<^verbatim>\<open>keyboard_read\<close>, which turns the scan codes into keys. The flags that are 0 or 1 in the code are Booleans; pointers
  into the ring are indices. \<^verbatim>\<open>get_byte_from_kb_buf\<close> waits when the ring is empty; as the operations here run without
  an interrupt in between, this is \<open>None\<close>.
\<close>

definition KB_IN_BYTES :: nat where "KB_IN_BYTES = 320"
definition MOUSE_IN_BYTES :: nat where "MOUSE_IN_BYTES = 3"
definition FLAG_BREAK :: u8 where "FLAG_BREAK = 0x80"

record kbd = screens +
  p_head :: nat
  p_tail :: nat
  kb_count :: int
  kb_buf :: bytes
  mouse_count :: nat
  mouse_buf :: bytes
  mouse_inited :: bool
  code_with_E0 :: bool
  shift_l :: bool
  shift_r :: bool
  alt_l :: bool
  alt_r :: bool
  ctrl_l :: bool
  ctrl_r :: bool
  caps_lock :: bool
  num_lock :: bool
  scroll_lock :: bool
  column :: nat

subsection \<open>Interrupts\<close>

definition kb_next :: "nat \<Rightarrow> nat" where
  "kb_next p = (if p + 1 = KB_IN_BYTES then 0 else p + 1)"

definition kb_handler :: "u8 \<Rightarrow> 'a kbd_scheme \<Rightarrow> 'a kbd_scheme" where
  "kb_handler scan_code s =
     (if kb_count s < int KB_IN_BYTES
      then s\<lparr>kb_buf := (kb_buf s)(p_head s := scan_code), p_head := kb_next (p_head s), kb_count := kb_count s + 1\<rparr>
      else s)"

definition move_mouse :: "bytes \<Rightarrow> TTY \<Rightarrow> TTY" where
  "move_mouse buf y =
     (let y = y\<lparr>mouse_left_button := uint (buf 0 AND 0x01),
            mouse_mid_button := (if buf 0 AND 0b100 = 0b100 then 1 else 0)\<rparr>
      in if mouse_left_button y \<noteq> 0 then
           y\<lparr>mouse_Y := (if buf 0 AND 0x20 = 0x20 then mouse_Y y - 1 else mouse_Y y + 1),
             mouse_X := (if buf 0 AND 0x10 = 0x10 then mouse_X y - 1 else mouse_X y + 1)\<rparr>
         else y)"

definition mouse_handler :: "u8 \<Rightarrow> 'a kbd_scheme \<Rightarrow> 'a kbd_scheme option" where
  "mouse_handler scan_code s =
     (if \<not> mouse_inited s then Some (s\<lparr>mouse_inited := True\<rparr>)
      else if mouse_count s < MOUSE_IN_BYTES then
        let s = s\<lparr>mouse_buf := (mouse_buf s)(mouse_count s := scan_code), mouse_count := mouse_count s + 1\<rparr> in
        if mouse_count s = 3 then
          Some (s\<lparr>tty_table := (\<lambda>t. if t < NR_CONSOLES \<and> console (tty_table s t) = current_console s
              then move_mouse (mouse_buf s) (tty_table s t) else tty_table s t), mouse_count := 0\<rparr>)
        else Some s
      else None)"

definition init_mouse :: "'a kbd_scheme \<Rightarrow> 'a kbd_scheme" where
  "init_mouse s = s\<lparr>mouse_count := 0\<rparr>"

definition init_kb :: "'a kbd_scheme \<Rightarrow> 'a kbd_scheme" where
  "init_kb s = init_mouse (s\<lparr>kb_count := 0, p_head := 0, p_tail := 0, shift_l := False, shift_r := False,
     alt_l := False, alt_r := False, ctrl_l := False, ctrl_r := False, caps_lock := False, num_lock := True,
     scroll_lock := False, column := 0\<rparr>)"

subsection \<open>Scan codes\<close>

definition get_byte_from_kb_buf :: "'a kbd_scheme \<Rightarrow> ('a kbd_scheme \<times> u8) option" where
  "get_byte_from_kb_buf s =
     (if kb_count s \<le> 0 then None
      else Some (s\<lparr>p_tail := kb_next (p_tail s), kb_count := kb_count s - 1\<rparr>, kb_buf s (p_tail s)))"

fun pause_loop :: "u8 list \<Rightarrow> 'a kbd_scheme \<Rightarrow> ('a kbd_scheme \<times> bool) option" where
  "pause_loop [] s = Some (s, True)"
| "pause_loop (b # bs) s = do {
     (s, c) \<leftarrow> get_byte_from_kb_buf s;
     if c \<noteq> b then Some (s, False) else pause_loop bs s
   }"

text \<open>The two keys whose codes have several bytes. The results are the last scan code, the key and whether it was
  pressed; a variable not set yet is \<open>None\<close>.\<close>

definition read_print :: "u8 \<Rightarrow> bool \<Rightarrow> u32 \<Rightarrow> bool option \<Rightarrow> 'a kbd_scheme \<Rightarrow>
    ('a kbd_scheme \<times> u8 \<times> u32 \<times> bool option) option" where
  "read_print third pressed key made s = do {
     let s = s\<lparr>code_with_E0 := False\<rparr>;
     (s, scan_code) \<leftarrow> get_byte_from_kb_buf s;
     if scan_code = 0xE0 then do {
       let s = s\<lparr>code_with_E0 := True\<rparr>;
       (s, scan_code) \<leftarrow> get_byte_from_kb_buf s;
       if scan_code = third then Some (s, scan_code, PRINTSCREEN, Some pressed)
       else Some (s, scan_code, key, made)
     } else Some (s, scan_code, key, made)
   }"

definition read_code :: "u32 \<Rightarrow> bool option \<Rightarrow> 'a kbd_scheme \<Rightarrow> ('a kbd_scheme \<times> u8 \<times> u32 \<times> bool option) option" where
  "read_code key made s = do {
     let s = s\<lparr>code_with_E0 := False\<rparr>;
     (s, scan_code) \<leftarrow> get_byte_from_kb_buf s;
     if scan_code = 0xE1 then do {
       (s, is_pausebreak) \<leftarrow> pause_loop [0x1D, 0x45, 0xE1, 0x9D, 0xC5] s;
       Some (s, scan_code, (if is_pausebreak then PAUSEBREAK else key), made)
     }
     else if scan_code = 0xE0 then do {
       let s = s\<lparr>code_with_E0 := True\<rparr>;
       (s, scan_code) \<leftarrow> get_byte_from_kb_buf s;
       if scan_code = 0x2A then read_print 0x37 True key made s
       else if scan_code = 0xB7 then read_print 0xAA False key made s
       else Some (s, scan_code, key, made)
     }
     else Some (s, scan_code, key, made)
   }"

subsection \<open>Keys\<close>

definition toggle_keys :: "u32 \<Rightarrow> bool \<Rightarrow> 'a kbd_scheme \<Rightarrow> 'a kbd_scheme" where
  "toggle_keys key made s =
     (if key = SHIFT_L then s\<lparr>shift_l := made\<rparr>
      else if key = SHIFT_R then s\<lparr>shift_r := made\<rparr>
      else if key = CTRL_L then s\<lparr>ctrl_l := made\<rparr>
      else if key = CTRL_R then s\<lparr>ctrl_r := made\<rparr>
      else if key = ALT_L then s\<lparr>alt_l := made\<rparr>
      else if key = ALT_R then s\<lparr>alt_l := made\<rparr>
      else if key = CAPS_LOCK then (if made then s\<lparr>caps_lock := \<not> caps_lock s\<rparr> else s)
      else if key = NUM_LOCK then (if made then s\<lparr>num_lock := \<not> num_lock s\<rparr> else s)
      else if key = SCROLL_LOCK then (if made then s\<lparr>scroll_lock := \<not> scroll_lock s\<rparr> else s)
      else s)"

definition decode_key :: "u8 \<Rightarrow> 'a kbd_scheme \<Rightarrow> 'a kbd_scheme \<times> u32 \<times> bool" where
  "decode_key scan_code s =
     (let made = (scan_code AND FLAG_BREAK = 0);
          row = unat (scan_code AND 0x7F) * MAP_COLS;
          s = s\<lparr>column := 0\<rparr>;
          caps = (shift_l s \<or> shift_r s);
          caps = (if caps_lock s \<and> keymap ! row \<ge> 0x61 \<and> keymap ! row \<le> 0x7A then \<not> caps else caps);
          s = (if caps then s\<lparr>column := 1\<rparr> else s);
          s = (if code_with_E0 s then s\<lparr>column := 2\<rparr> else s);
          key = keymap ! (row + column s)
      in (toggle_keys key made s, key, made))"

definition is_pad :: "u32 \<Rightarrow> bool" where
  "is_pad key \<longleftrightarrow> PAD_SLASH \<le> key \<and> key \<le> PAD_9"

definition pad_key :: "bool \<Rightarrow> u32 \<Rightarrow> u32" where
  "pad_key num key =
     (if key = PAD_SLASH then 0x2F
      else if key = PAD_STAR then 0x2A
      else if key = PAD_MINUS then 0x2D
      else if key = PAD_PLUS then 0x2B
      else if key = PAD_ENTER then ENTER
      else if num then
        if key \<ge> PAD_0 \<and> key \<le> PAD_9 then key - PAD_0 + 0x30
        else if key = PAD_DOT then 0x2E else key
      else if key = PAD_HOME then HOME
      else if key = PAD_END then END_KEY
      else if key = PAD_PAGEUP then PAGEUP
      else if key = PAD_PAGEDOWN then PAGEDOWN
      else if key = PAD_INS then INSERT
      else if key = PAD_UP then UP
      else if key = PAD_DOWN then DOWN
      else if key = PAD_LEFT then LEFT_KEY
      else if key = PAD_RIGHT then RIGHT_KEY
      else if key = PAD_DOT then DELETE
      else key)"

definition add_flags :: "bool \<Rightarrow> 'a kbd_scheme \<Rightarrow> u32 \<Rightarrow> u32" where
  "add_flags pad s key =
     (key OR (if shift_l s then FLAG_SHIFT_L else 0) OR (if shift_r s then FLAG_SHIFT_R else 0)
          OR (if ctrl_l s then FLAG_CTRL_L else 0) OR (if ctrl_r s then FLAG_CTRL_R else 0)
          OR (if alt_l s then FLAG_ALT_L else 0) OR (if alt_r s then FLAG_ALT_R else 0)
          OR (if pad then FLAG_PAD else 0))"

text \<open>The rest of a round, after the scan codes of one key have been read. The result is the key, which the next round starts with.\<close>

definition handle_make :: "nat \<Rightarrow> u32 \<Rightarrow> 'a kbd_scheme \<Rightarrow> ('a kbd_scheme \<times> u32) option" where
  "handle_make t key s =
     (let pad = is_pad key;
          key = add_flags pad s (if pad then pad_key (num_lock s) key else key)
      in do { s \<leftarrow> in_process t key s; Some (s, key) })"

definition handle_key :: "nat \<Rightarrow> u8 \<Rightarrow> u32 \<Rightarrow> bool option \<Rightarrow> 'a kbd_scheme \<Rightarrow> ('a kbd_scheme \<times> u32 \<times> bool) option" where
  "handle_key t scan_code key made s =
     (let (s, key, made) = (if key \<noteq> PAUSEBREAK \<and> key \<noteq> PRINTSCREEN
            then let (s, key, m) = decode_key scan_code s in (s, key, Some m) else (s, key, made))
      in case made of
           None \<Rightarrow> None
         | Some True \<Rightarrow> do { (s, key) \<leftarrow> handle_make t key s; Some (s, key, True) }
         | Some False \<Rightarrow> Some (s, key, False))"

partial_function (option) keyboard_loop :: "nat \<Rightarrow> u32 \<Rightarrow> bool option \<Rightarrow> 'a kbd_scheme \<Rightarrow> 'a kbd_scheme option" where
  "keyboard_loop t key made s =
     (if kb_count s > 0 then do {
        (s, scan_code, key, made) \<leftarrow> read_code key made s;
        (s, key, made) \<leftarrow> handle_key t scan_code key made s;
        keyboard_loop t key (Some made) s
      } else Some s)"

declare keyboard_loop.simps [code]

definition keyboard_read :: "nat \<Rightarrow> 'a kbd_scheme \<Rightarrow> 'a kbd_scheme option" where
  "keyboard_read t s = keyboard_loop t 0 None s"

subsection \<open>The terminal task\<close>

definition tty_dev_read :: "nat \<Rightarrow> 'a kbd_scheme \<Rightarrow> 'a kbd_scheme option" where
  "tty_dev_read t s = (if is_current_console (console (tty_table s t)) s then keyboard_read t s else Some s)"

text \<open>The body of the loop of \<^verbatim>\<open>task_tty\<close> for one terminal, repeated while keys are left to be shown.\<close>

partial_function (option) tty_round :: "nat \<Rightarrow> 'a kbd_scheme \<Rightarrow> 'a kbd_scheme option" where
  "tty_round t s = do {
     let s = tty_mouse t s;
     s \<leftarrow> tty_dev_read t s;
     s \<leftarrow> tty_dev_write t s;
     if ibuf_cnt (tty_table s t) \<noteq> 0 then tty_round t s else Some s
   }"

declare tty_round.simps [code]

end
