(* ===== verification/KeyboardLaws.thy ===== *)
theory KeyboardLaws
  imports Keyboard TtyLaws
begin

text \<open>
  From the scan codes of the keyboard to the characters in a terminal: the ring of scan codes is a bounded queue, and
  a text typed on the keyboard arrives in the ring of the terminal.
\<close>

subsection \<open>A bounded queue\<close>

fun puts :: "('a \<Rightarrow> 's \<Rightarrow> 's) \<Rightarrow> 'a list \<Rightarrow> 's \<Rightarrow> 's" where
  "puts put [] s = s"
| "puts put (x # xs) s = puts put xs (put x s)"

fun gets :: "('s \<Rightarrow> ('s \<times> 'a) option) \<Rightarrow> nat \<Rightarrow> 's \<Rightarrow> ('s \<times> 'a list) option" where
  "gets get 0 s = Some (s, [])"
| "gets get (Suc n) s = do { (s, x) \<leftarrow> get s; (s, xs) \<leftarrow> gets get n s; Some (s, x # xs) }"

locale bounded_fifo =
  fixes put :: "'a \<Rightarrow> 's \<Rightarrow> 's" and get :: "'s \<Rightarrow> ('s \<times> 'a) option" and holds :: "'s \<Rightarrow> 'a list \<Rightarrow> bool" and capacity :: nat
  assumes put_holds: "holds s xs \<Longrightarrow> length xs < capacity \<Longrightarrow> holds (put x s) (xs @ [x])"
    and put_full: "holds s xs \<Longrightarrow> length xs = capacity \<Longrightarrow> put x s = s"
    and get_first: "holds s (x # xs) \<Longrightarrow> \<exists>s'. get s = Some (s', x) \<and> holds s' xs"
    and holds_length: "holds s xs \<Longrightarrow> length xs \<le> capacity"
begin

lemma puts_holds: "holds s xs \<Longrightarrow> holds (puts put ys s) (take capacity (xs @ ys))"
proof (induction ys arbitrary: xs s)
  case Nil
  then show ?case using holds_length[OF Nil] by simp
next
  case (Cons y ys)
  show ?case
  proof (cases "length xs < capacity")
    case True
    then show ?thesis using Cons.IH[OF put_holds[OF Cons.prems True]] by simp
  next
    case False
    then have l: "length xs = capacity" using holds_length[OF Cons.prems] by simp
    then show ?thesis using Cons.IH[OF Cons.prems] put_full[OF Cons.prems l] by simp
  qed
qed

lemma gets_holds: "holds s (xs @ ys) \<Longrightarrow> \<exists>s'. gets get (length xs) s = Some (s', xs) \<and> holds s' ys"
proof (induction xs arbitrary: s)
  case (Cons x xs)
  then obtain s1 where "get s = Some (s1, x)" "holds s1 (xs @ ys)" using get_first[of s x "xs @ ys"] by auto
  then show ?case using Cons.IH[of s1] by auto
qed simp

end

definition kb_holds :: "'a kbd_scheme \<Rightarrow> u8 list \<Rightarrow> bool" where
  "kb_holds s cs \<longleftrightarrow> p_tail s < KB_IN_BYTES \<and> length cs \<le> KB_IN_BYTES \<and> kb_count s = int (length cs) \<and>
     p_head s = (p_tail s + length cs) mod KB_IN_BYTES \<and> (\<forall>i<length cs. kb_buf s ((p_tail s + i) mod KB_IN_BYTES) = cs ! i)"

lemma kb_next_mod: "p < KB_IN_BYTES \<Longrightarrow> kb_next p = (p + 1) mod KB_IN_BYTES"
  by (auto simp: kb_next_def)

lemma ring_apart: "i < n \<Longrightarrow> j < n \<Longrightarrow> i \<noteq> j \<Longrightarrow> (p + i) mod n \<noteq> (p + j) mod (n :: nat)"
proof -
  have less: "(p + i) mod n \<noteq> (p + j) mod n" if "i < j" "j < n" for i j
  proof
    assume "(p + i) mod n = (p + j) mod n"
    then have "n dvd j - i" using that mod_eq_dvd_iff_nat[of "p + i" "p + j" n] by simp
    then show False using that nat_dvd_not_less[of "j - i" n] by simp
  qed
  show "i < n \<Longrightarrow> j < n \<Longrightarrow> i \<noteq> j \<Longrightarrow> (p + i) mod n \<noteq> (p + j) mod n"
    using less[of i j] less[of j i] by (cases "i < j") auto
qed

interpretation kb: bounded_fifo kb_handler get_byte_from_kb_buf kb_holds KB_IN_BYTES
proof
  fix s :: "'a kbd_scheme" and cs c
  assume h: "kb_holds s cs" and l: "length cs < KB_IN_BYTES"
  have hd: "p_head s < KB_IN_BYTES" using h by (simp add: kb_holds_def KB_IN_BYTES_def)
  have "kb_next (p_head s) = (p_tail s + length (cs @ [c])) mod KB_IN_BYTES"
    unfolding kb_next_mod[OF hd] using h by (simp add: kb_holds_def mod_Suc_eq)
  moreover have "(p_tail s + i) mod KB_IN_BYTES \<noteq> p_head s" if "i < length cs" for i
    using h l that ring_apart[of i KB_IN_BYTES "length cs" "p_tail s"] by (simp add: kb_holds_def)
  ultimately show "kb_holds (kb_handler c s) (cs @ [c])"
    using h l by (auto simp: kb_holds_def kb_handler_def nth_append less_Suc_eq)
next
  fix s :: "'a kbd_scheme" and cs c
  assume h: "kb_holds s (c # cs)"
  have t: "p_tail s < KB_IN_BYTES" using h by (simp add: kb_holds_def)
  have "kb_buf s ((p_tail s + 0) mod KB_IN_BYTES) = (c # cs) ! 0" using h unfolding kb_holds_def by blast
  then have "kb_buf s (p_tail s) = c" using t by simp
  moreover have "kb_buf s ((p_tail s + 1 + i) mod KB_IN_BYTES) = cs ! i" if "i < length cs" for i
    using h that unfolding kb_holds_def by (auto dest!: spec[of _ "Suc i"])
  ultimately show "\<exists>s'. get_byte_from_kb_buf s = Some (s', c) \<and> kb_holds s' cs"
    using h t by (auto simp: get_byte_from_kb_buf_def kb_holds_def kb_next_mod mod_add_left_eq add.assoc)
qed (auto simp: kb_holds_def kb_handler_def)


subsection \<open>Scan codes of a text\<close>

text \<open>The row of a character in one column of the keymap, and the scan codes sent when it is typed: the key alone, or with the left
  shift key held.\<close>

fun find_row :: "u32 \<Rightarrow> nat \<Rightarrow> nat \<Rightarrow> nat \<Rightarrow> nat option" where
  "find_row key col i 0 = None"
| "find_row key col i (Suc n) = (if keymap ! (i * MAP_COLS + col) = key then Some i else find_row key col (i + 1) n)"

definition scan_codes :: "u8 \<Rightarrow> u8 list option" where
  "scan_codes c = (case find_row (ucast c) 0 1 0x5F of
     Some i \<Rightarrow> Some [of_nat i, of_nat i OR FLAG_BREAK]
   | None \<Rightarrow> (case find_row (ucast c) 1 1 0x5F of
       Some i \<Rightarrow> Some [0x2A, of_nat i, of_nat i OR FLAG_BREAK, 0xAA]
     | None \<Rightarrow> None))"

fun text_codes :: "u8 list \<Rightarrow> u8 list option" where
  "text_codes [] = Some []"
| "text_codes (c # cs) = do { a \<leftarrow> scan_codes c; b \<leftarrow> text_codes cs; Some (a @ b) }"

lemma find_row_Some:
  "find_row key col i n = Some j \<Longrightarrow> i \<le> j \<and> j < i + n \<and> keymap ! (j * MAP_COLS + col) = key"
  by (induction n arbitrary: i) (fastforce split: if_splits)+

subsection \<open>One scan code\<close>

definition quiet :: "bool \<Rightarrow> 'a kbd_scheme \<Rightarrow> bool" where
  "quiet sh s \<longleftrightarrow> shift_l s = sh \<and> \<not> shift_r s \<and> \<not> ctrl_l s \<and> \<not> ctrl_r s \<and> \<not> alt_l s \<and> \<not> alt_r s \<and> \<not> caps_lock s"

text \<open>The terminal has the keys of \<open>xs\<close> from index \<open>h\<close> of its ring on, and shows none of them yet.\<close>

definition pending :: "nat \<Rightarrow> nat \<Rightarrow> u8 list \<Rightarrow> 'a screens_scheme \<Rightarrow> bool" where
  "pending t h xs s \<longleftrightarrow> h + length xs < 256 \<and> ibuf_head (tty_table s t) = int (h + length xs) \<and>
     ibuf_cnt (tty_table s t) = int (length xs) \<and> (\<forall>i<length xs. ucast (ibuf (tty_table s t) (h + i)) = xs ! i)"

definition arriving :: "nat \<Rightarrow> nat \<Rightarrow> bool \<Rightarrow> u8 list \<Rightarrow> u8 list \<Rightarrow> 'a kbd_scheme \<Rightarrow> bool" where
  "arriving t h sh cs xs s \<longleftrightarrow> kb_holds s cs \<and> quiet sh s \<and> pending t h xs s"

definition plain_key :: "u32 \<Rightarrow> bool" where
  "plain_key key \<longleftrightarrow> key \<noteq> PAUSEBREAK \<and> key \<noteq> PRINTSCREEN"

lemma round_eq:
  assumes a: "arriving t h sh (c # cs) xs s" and c: "c \<noteq> 0xE0" "c \<noteq> 0xE1" and k: "plain_key k"
  obtains s1 where "arriving t h sh cs xs s1"
    "keyboard_loop t k m s = (let key = keymap ! (unat (c AND 0x7F) * MAP_COLS + (if sh then 1 else 0));
        made = (c AND FLAG_BREAK = 0); s2 = toggle_keys key made s1
      in if made then case handle_make t key s2 of None \<Rightarrow> None | Some (s3, key') \<Rightarrow> keyboard_loop t key' (Some True) s3
         else keyboard_loop t key (Some False) s2)"
proof -
  have h: "kb_holds s (c # cs)" and q: "quiet sh s" and p: "pending t h xs s" using a by (simp_all add: arriving_def)
  have "kb_holds (s\<lparr>code_with_E0 := False\<rparr>) (c # cs)" using h by (simp add: kb_holds_def)
  from kb.get_first[OF this] obtain s0 where s0: "get_byte_from_kb_buf (s\<lparr>code_with_E0 := False\<rparr>) = Some (s0, c)" "kb_holds s0 cs"
    by blast
  have e: "s0 = s\<lparr>code_with_E0 := False, p_tail := p_tail s0, kb_count := kb_count s0\<rparr>"
    using s0(1) by (auto simp: get_byte_from_kb_buf_def split: if_splits)
  let ?s1 = "s0\<lparr>column := (if sh then 1 else 0)\<rparr>"
  have "kb_holds ?s1 cs" using s0(2) by (simp add: kb_holds_def)
  moreover have "quiet sh ?s1" using q by (subst e) (simp add: quiet_def)
  moreover have "pending t h xs ?s1" using p by (subst e) (simp add: pending_def)
  ultimately have a1: "arriving t h sh cs xs ?s1" by (simp add: arriving_def)
  have r: "read_code k m s = Some (s0, c, k, m)" using c by (simp add: read_code_def Let_def s0(1))
  have q0: "shift_l s0 = sh" "\<not> shift_r s0" "\<not> caps_lock s0" "\<not> code_with_E0 s0"
    using q by (subst e, simp add: quiet_def)+
  have d: "decode_key c s0 = (let key = keymap ! (unat (c AND 0x7F) * MAP_COLS + (if sh then 1 else 0));
      made = (c AND FLAG_BREAK = 0) in (toggle_keys key made ?s1, key, made))"
    using q0 by (simp add: decode_key_def Let_def)
  have "kb_count s > 0" using h by (simp add: kb_holds_def)
  then have "keyboard_loop t k m s = (let key = keymap ! (unat (c AND 0x7F) * MAP_COLS + (if sh then 1 else 0));
        made = (c AND FLAG_BREAK = 0); s2 = toggle_keys key made ?s1
      in if made then case handle_make t key s2 of None \<Rightarrow> None | Some (s3, key') \<Rightarrow> keyboard_loop t key' (Some True) s3
         else keyboard_loop t key (Some False) s2)"
    using k by (subst keyboard_loop.simps) (simp add: r handle_key_def d Let_def plain_key_def split: option.splits prod.splits)
  with a1 show ?thesis by (rule that)
qed

lemma u8_flag: "(ucast (c :: u8) :: u32) AND FLAG_EXT = 0" "((ucast (c :: u8) :: u32) OR FLAG_SHIFT_L) AND FLAG_EXT = 0"
proof -
  have e: "FLAG_EXT = 2 ^ 8" "FLAG_SHIFT_L = 2 ^ 9" by (simp_all add: FLAG_EXT_def FLAG_SHIFT_L_def)
  have "\<not> bit (ucast c :: u32) 8" "\<not> bit ((ucast c :: u32) OR 2 ^ 9) 8" using bit_imp_le_length[of c 8] by (auto simp: bit_simps)
  then show "(ucast c :: u32) AND FLAG_EXT = 0" "((ucast c :: u32) OR FLAG_SHIFT_L) AND FLAG_EXT = 0"
    unfolding e by (simp_all only: and_exp_eq_0_iff_not_bit not_False_eq_True)
qed

lemma u8_key: "(ucast (c :: u8) :: u32) \<le> 0xFF"
proof -
  have "unat c < 256" using unsigned_less[of c, where ?'a = nat] by simp
  then show ?thesis by (simp add: word_le_nat_alt unsigned_ucast_eq take_bit_word_eq_self take_bit_nat_eq_self)
qed

lemma char_no_toggle [simp]: "toggle_keys (ucast (c :: u8)) made s = s"
proof -
  have "(ucast c :: u32) \<noteq> key" if "0xFF < key" for key using u8_key[of c] that by auto
  then show ?thesis
    by (simp add: toggle_keys_def SHIFT_L_def SHIFT_R_def CTRL_L_def CTRL_R_def ALT_L_def ALT_R_def CAPS_LOCK_def
        NUM_LOCK_def SCROLL_LOCK_def FLAG_EXT_def)
qed


lemma code_facts:
  assumes "1 \<le> i" "i < 0x60"
  shows "(of_nat i :: u8) \<noteq> 0xE0" "(of_nat i :: u8) \<noteq> 0xE1" "unat ((of_nat i :: u8) AND 0x7F) = i"
    "(of_nat i :: u8) AND FLAG_BREAK = 0" "of_nat i OR FLAG_BREAK \<noteq> 0xE0" "of_nat i OR FLAG_BREAK \<noteq> 0xE1"
    "unat ((of_nat i OR FLAG_BREAK) AND 0x7F) = i" "(of_nat i OR FLAG_BREAK) AND FLAG_BREAK \<noteq> 0"
proof -
  have "list_all (\<lambda>i. let c = of_nat i :: u8; b = c OR FLAG_BREAK in c \<noteq> 0xE0 \<and> c \<noteq> 0xE1 \<and> unat (c AND 0x7F) = i \<and>
      c AND FLAG_BREAK = 0 \<and> b \<noteq> 0xE0 \<and> b \<noteq> 0xE1 \<and> unat (b AND 0x7F) = i \<and> b AND FLAG_BREAK \<noteq> 0) [1..<0x60]"
    by code_simp
  moreover have "i \<in> set [1..<0x60]" using assms by simp
  ultimately show "(of_nat i :: u8) \<noteq> 0xE0" "(of_nat i :: u8) \<noteq> 0xE1" "unat ((of_nat i :: u8) AND 0x7F) = i"
    "(of_nat i :: u8) AND FLAG_BREAK = 0" "of_nat i OR FLAG_BREAK \<noteq> 0xE0" "of_nat i OR FLAG_BREAK \<noteq> 0xE1"
    "unat ((of_nat i OR FLAG_BREAK) AND 0x7F) = i" "(of_nat i OR FLAG_BREAK) AND FLAG_BREAK \<noteq> 0"
    unfolding list_all_iff Let_def by blast+
qed

lemma plain_no_ext: "key AND FLAG_EXT = 0 \<Longrightarrow> plain_key key"
  by (auto simp: plain_key_def PAUSEBREAK_def PRINTSCREEN_def FLAG_EXT_def)

lemma upd_tty_arriving:
  assumes "kb_holds s cs" "quiet sh s"
  shows "kb_holds (upd_tty t f s) cs" "quiet sh (upd_tty t f s)"
  using assms by (simp_all add: kb_holds_def quiet_def upd_tty_def)

lemma put_key_pending:
  assumes p: "pending t h xs s" and fits: "h + length xs + 1 < 256"
  obtains f where "put_key t key s = Some (upd_tty t f s)" "pending t h (xs @ [ucast key]) (upd_tty t f s)"
proof -
  let ?f = "\<lambda>y. y\<lparr>ibuf := (ibuf y)(h + length xs := key), ibuf_head := int (h + length xs + 1),
    ibuf_cnt := int (length xs + 1), ibuf_read_cnt := ibuf_read_cnt y + 1\<rparr>"
  have n: "nat (int h + int (length xs)) = h + length xs" by simp
  have y: "ibuf_head (tty_table s t) = int h + int (length xs)" "ibuf_cnt (tty_table s t) = int (length xs)"
    using p by (simp_all add: pending_def)
  have "put_key t key s = Some (upd_tty t ?f s)"
    using fits by (simp add: put_key_def Let_def y n TTY_IN_BYTES_def in_ring_def ring_next_def upd_tty_def ac_simps)
  moreover have "pending t h (xs @ [ucast key]) (upd_tty t ?f s)"
    using p fits by (auto simp: pending_def nth_append less_Suc_eq)
  ultimately show ?thesis by (rule that)
qed

lemma key_char: "ucast ((ucast (c :: u8) :: u32)) = c" "ucast ((ucast (c :: u8) :: u32) OR FLAG_SHIFT_L) = c"
proof -
  show c: "ucast ((ucast c :: u32)) = c" by (rule bit_word_eqI) (simp add: bit_simps)
  have "FLAG_SHIFT_L = 2 ^ 9" by (simp add: FLAG_SHIFT_L_def)
  moreover have "ucast ((ucast c :: u32) OR 2 ^ 9) = c"
  proof -
    have z: "(ucast (2 ^ 9 :: u32) :: u8) = 0" by simp
    show ?thesis unfolding unsigned_or_eq c z by simp
  qed
  ultimately show "ucast ((ucast c :: u32) OR FLAG_SHIFT_L) = c" by simp
qed

lemma char_pressed:
  assumes a: "arriving t h sh (of_nat i # cs) xs s" and i: "1 \<le> i" "i < 0x60" and k: "plain_key k"
    and row: "keymap ! (i * MAP_COLS + (if sh then 1 else 0)) = ucast (ch :: u8)" and fits: "h + length xs + 1 < 256"
  obtains k' s' where "keyboard_loop t k m s = keyboard_loop t k' (Some True) s'" "plain_key k'"
    "arriving t h sh cs (xs @ [ch]) s'"
proof -
  note c = code_facts[OF i]
  obtain s1 where s1: "arriving t h sh cs xs s1"
    and l: "keyboard_loop t k m s = (let key = keymap ! (unat ((of_nat i :: u8) AND 0x7F) * MAP_COLS + (if sh then 1 else 0));
        made = ((of_nat i :: u8) AND FLAG_BREAK = 0); s2 = toggle_keys key made s1
      in if made then case handle_make t key s2 of None \<Rightarrow> None | Some (s3, key') \<Rightarrow> keyboard_loop t key' (Some True) s3
         else keyboard_loop t key (Some False) s2)"
    using round_eq[OF a c(1,2) k] by blast
  define key where "key = (if sh then ucast ch OR FLAG_SHIFT_L else ucast ch :: u32)"
  have "\<not> is_pad (ucast ch)" using u8_key[of ch] by (auto simp: is_pad_def PAD_SLASH_def FLAG_EXT_def word_le_nat_alt)
  moreover have "add_flags False s1 (ucast ch) = key" using s1 by (auto simp: add_flags_def key_def arriving_def quiet_def)
  moreover have ext: "key AND FLAG_EXT = 0" using u8_flag[of ch] by (simp add: key_def)
  moreover obtain f where f: "put_key t key s1 = Some (upd_tty t f s1)" "pending t h (xs @ [ucast key]) (upd_tty t f s1)"
    using put_key_pending[OF _ fits, of t s1 key] s1 by (auto simp: arriving_def)
  ultimately have "handle_make t (ucast ch) s1 = Some (upd_tty t f s1, key)"
    by (simp add: handle_make_def Let_def in_process_def)
  then have "keyboard_loop t k m s = keyboard_loop t key (Some True) (upd_tty t f s1)"
    unfolding l c(3) row by (simp add: c(4) Let_def)
  moreover have "ucast key = ch" by (simp add: key_def key_char)
  ultimately show ?thesis using plain_no_ext[OF ext] f(2) s1 upd_tty_arriving[of s1 cs sh t f]
    by (intro that[of key "upd_tty t f s1"]) (simp_all add: arriving_def)
qed

lemma char_released:
  assumes a: "arriving t h sh ((of_nat i OR FLAG_BREAK) # cs) xs s" and i: "1 \<le> i" "i < 0x60" and k: "plain_key k"
    and row: "keymap ! (i * MAP_COLS + (if sh then 1 else 0)) = ucast (ch :: u8)"
  obtains k' s' where "keyboard_loop t k m s = keyboard_loop t k' (Some False) s'" "plain_key k'"
    "arriving t h sh cs xs s'"
proof -
  note c = code_facts[OF i]
  obtain s1 where s1: "arriving t h sh cs xs s1"
    and l: "keyboard_loop t k m s = (let key = keymap ! (unat ((of_nat i OR FLAG_BREAK) AND 0x7F) * MAP_COLS + (if sh then 1 else 0));
        made = ((of_nat i OR FLAG_BREAK) AND FLAG_BREAK = 0); s2 = toggle_keys key made s1
      in if made then case handle_make t key s2 of None \<Rightarrow> None | Some (s3, key') \<Rightarrow> keyboard_loop t key' (Some True) s3
         else keyboard_loop t key (Some False) s2)"
    using round_eq[OF a c(5,6) k] by blast
  have "keyboard_loop t k m s = keyboard_loop t (ucast ch) (Some False) s1"
    unfolding l c(7) row Let_def using c(8) by simp
  then show ?thesis using plain_no_ext[OF u8_flag(1)] s1 by (rule that)
qed

lemma shift_rows: "keymap ! (0x2A * MAP_COLS) = SHIFT_L" "keymap ! (0x2A * MAP_COLS + 1) = SHIFT_L"
  by code_simp+

lemma shift_code:
  assumes a: "arriving t h sh (c # cs) xs s" and k: "plain_key k" and c: "c = (if made then 0x2A else 0xAA)"
  obtains k' s' where "keyboard_loop t k m s = keyboard_loop t k' (Some made) s'" "plain_key k'"
    "arriving t h made cs xs s'"
proof -
  have n: "c \<noteq> 0xE0" "c \<noteq> 0xE1" and r: "unat (c AND 0x7F) = 0x2A" and m: "(c AND FLAG_BREAK = 0) = made"
    by (simp_all add: c FLAG_BREAK_def)
  have row: "keymap ! (0x2A * MAP_COLS + (if sh then 1 else 0)) = SHIFT_L"
    using shift_rows by simp
  obtain s1 where s1: "arriving t h sh cs xs s1"
    and l: "keyboard_loop t k m s = (let key = keymap ! (unat (c AND 0x7F) * MAP_COLS + (if sh then 1 else 0));
        made = (c AND FLAG_BREAK = 0); s2 = toggle_keys key made s1
      in if made then case handle_make t key s2 of None \<Rightarrow> None | Some (s3, key') \<Rightarrow> keyboard_loop t key' (Some True) s3
         else keyboard_loop t key (Some False) s2)"
    using round_eq[OF a n k] by blast
  let ?s2 = "s1\<lparr>shift_l := made\<rparr>"
  have s2: "arriving t h made cs xs ?s2" using s1 by (simp add: arriving_def kb_holds_def quiet_def pending_def)
  have tog: "toggle_keys SHIFT_L made s1 = ?s2" by (simp add: toggle_keys_def)
  let ?key = "if made then SHIFT_L OR FLAG_SHIFT_L else SHIFT_L"
  have p: "plain_key ?key"
    by (simp add: plain_key_def SHIFT_L_def FLAG_SHIFT_L_def PAUSEBREAK_def PRINTSCREEN_def FLAG_EXT_def)
  have "handle_make t SHIFT_L ?s2 = Some (?s2, ?key)" if "made"
    using that s2 by (simp add: handle_make_def Let_def add_flags_def is_pad_def arriving_def quiet_def in_process_def
        PAD_SLASH_def PAD_9_def SHIFT_L_def FLAG_SHIFT_L_def FLAG_EXT_def MASK_RAW_def ENTER_def BACKSPACE_def UP_def DOWN_def F1_def F12_def)
  then have "keyboard_loop t k m s = keyboard_loop t ?key (Some made) ?s2"
    unfolding l m r row Let_def tog by simp
  then show ?thesis using p s2 by (rule that)
qed

subsection \<open>A text\<close>

lemma char_typed:
  assumes a: "arriving t h False (codes @ cs) xs s" and sc: "scan_codes ch = Some codes" and k: "plain_key k"
    and fits: "h + length xs + 1 < 256"
  obtains k' m' s' where "keyboard_loop t k m s = keyboard_loop t k' m' s'" "plain_key k'"
    "arriving t h False cs (xs @ [ch]) s'"
proof (cases "find_row (ucast ch) 0 1 0x5F")
  case (Some i)
  then have codes: "codes = [of_nat i, of_nat i OR FLAG_BREAK]" and i: "1 \<le> i" "i < 0x60"
    and row: "keymap ! (i * MAP_COLS + (if False then 1 else 0)) = ucast ch"
    using sc find_row_Some[OF Some] by (simp_all add: scan_codes_def)
  obtain k1 s1 where 1: "keyboard_loop t k m s = keyboard_loop t k1 (Some True) s1" "plain_key k1"
      "arriving t h False ((of_nat i OR FLAG_BREAK) # cs) (xs @ [ch]) s1"
    using char_pressed[OF _ i k row fits, where cs = "(of_nat i OR FLAG_BREAK) # cs" and s = s and m = m] a codes by auto
  show ?thesis using char_released[OF 1(3) i 1(2) row, of "Some True"] 1(1) that by metis
next
  case None
  then obtain i where f: "find_row (ucast ch) 1 1 0x5F = Some i" and codes: "codes = [0x2A, of_nat i, of_nat i OR FLAG_BREAK, 0xAA]"
    using sc by (auto simp: scan_codes_def split: option.splits)
  have i: "1 \<le> i" "i < 0x60" and row: "keymap ! (i * MAP_COLS + (if True then 1 else 0)) = ucast ch"
    using find_row_Some[OF f] by simp_all
  obtain k1 s1 where 1: "keyboard_loop t k m s = keyboard_loop t k1 (Some True) s1" "plain_key k1"
      "arriving t h True (of_nat i # (of_nat i OR FLAG_BREAK) # 0xAA # cs) xs s1"
    using shift_code[OF _ k, where t = t and h = h and sh = False and c = "0x2A" and xs = xs and s = s and made = True and m = m] a codes
    by auto
  obtain k2 s2 where 2: "keyboard_loop t k1 (Some True) s1 = keyboard_loop t k2 (Some True) s2" "plain_key k2"
      "arriving t h True ((of_nat i OR FLAG_BREAK) # 0xAA # cs) (xs @ [ch]) s2"
    using char_pressed[OF 1(3) i 1(2) row fits] by blast
  obtain k3 s3 where 3: "keyboard_loop t k2 (Some True) s2 = keyboard_loop t k3 (Some False) s3" "plain_key k3"
      "arriving t h True (0xAA # cs) (xs @ [ch]) s3"
    using char_released[OF 2(3) i 2(2) row] by blast
  obtain k4 s4 where 4: "keyboard_loop t k3 (Some False) s3 = keyboard_loop t k4 (Some False) s4" "plain_key k4"
      "arriving t h False cs (xs @ [ch]) s4"
    using shift_code[OF 3(3,2), where made = False] by auto
  show ?thesis using 1(1) 2(1) 3(1) 4 that by metis
qed

lemma text_typed:
  assumes "arriving t h False cs xs s" "text_codes txs = Some cs" "plain_key k" "h + length xs + length txs < 256"
  shows "\<exists>s'. keyboard_loop t k m s = Some s' \<and> arriving t h False [] (xs @ txs) s'"
  using assms
proof (induction txs arbitrary: cs xs s k m)
  case Nil
  then show ?case by (subst keyboard_loop.simps) (simp add: arriving_def kb_holds_def)
next
  case (Cons c txs)
  then obtain a b where a: "scan_codes c = Some a" and b: "text_codes txs = Some b" and cs: "cs = a @ b"
    by (auto split: bind_splits)
  have fits: "h + length xs + 1 < 256" using Cons.prems(4) by simp
  obtain k' m' s' where n: "keyboard_loop t k m s = keyboard_loop t k' m' s'" "plain_key k'" "arriving t h False b (xs @ [c]) s'"
    using char_typed[OF Cons.prems(1)[unfolded cs] a Cons.prems(3) fits] by metis
  show ?case using Cons.IH[OF n(3) b n(2)] Cons.prems(4) n(1) by simp
qed

lemma kb_handler_frame: "quiet sh (kb_handler c s) = quiet sh s" "pending t h xs (kb_handler c s) = pending t h xs s"
  by (simp_all add: kb_handler_def quiet_def pending_def)

lemma puts_frame: "quiet sh (puts kb_handler cs s) = quiet sh s" "pending t h xs (puts kb_handler cs s) = pending t h xs s"
  by (induction cs arbitrary: s) (simp_all add: kb_handler_frame)

text \<open>
  C25. A text typed on the keyboard arrives in the terminal: when every character of the text is on the keyboard, the
  scan codes of its keys (pressed and released, with the left shift key held for the upper ones) are put into the ring of the
  interrupt handler, where they fit, and \<^verbatim>\<open>keyboard_read\<close> is called, it returns with the ring of scan codes empty, all shift keys
  up again, and exactly the characters of the text in the ring of the terminal.
\<close>

theorem typed_text_arrives:
  assumes "kb_holds s []" "quiet False s" "pending t h [] s" "text_codes txs = Some cs" "length cs \<le> KB_IN_BYTES"
    and "h + length txs < 256"
  shows "\<exists>s'. keyboard_read t (puts kb_handler cs s) = Some s' \<and> kb_holds s' [] \<and> quiet False s' \<and> pending t h txs s'"
proof -
  have "kb_holds (puts kb_handler cs s) cs" using kb.puts_holds[OF assms(1), of cs] assms(5) by simp
  then have "arriving t h False cs [] (puts kb_handler cs s)" using assms(2,3) by (simp add: arriving_def puts_frame)
  moreover have "plain_key 0" by (simp add: plain_key_def PAUSEBREAK_def PRINTSCREEN_def FLAG_EXT_def)
  ultimately show ?thesis using text_typed[where t = t and h = h and cs = cs and xs = "[]" and txs = txs and k = 0 and m = None] assms(4,6)
    by (simp add: keyboard_read_def arriving_def)
qed

text \<open>"Hi", typed on a keyboard whose ring starts at its last place.\<close>

definition demo_kbd :: kbd where
  "demo_kbd = screens.extend demo_screens (kbd.fields 319 319 0 (\<lambda>_. 0) 0 (\<lambda>_. 0) True
     False False False False False False False False True False 0)"

fun find_drop :: "u32 \<Rightarrow> nat \<Rightarrow> u32 list \<Rightarrow> nat \<Rightarrow> nat \<Rightarrow> nat option" where
  "find_drop key col ks i 0 = None"
| "find_drop key col ks i (Suc n) = (if ks ! col = key then Some i else find_drop key col (drop MAP_COLS ks) (i + 1) n)"

lemma find_row_drop: "(i + n) * MAP_COLS \<le> length keymap \<Longrightarrow> find_row key col i n = find_drop key col (drop (i * MAP_COLS) keymap) i n"
  by (induction n arbitrary: i) (simp_all add: nth_drop drop_drop algebra_simps)

lemma hi_codes: "text_codes [0x48, 0x69] = Some [0x2A, 0x23, 0xA3, 0xAA, 0x17, 0x97]"
proof -
  have "(1 + 0x5F) * MAP_COLS \<le> length keymap" by code_simp
  note row = find_row_drop[OF this]
  have word: "ucast (72 :: u8) = (72 :: u32)" "ucast (105 :: u8) = (105 :: u32)" by simp_all
  have "find_drop 0x48 0 (drop (1 * MAP_COLS) keymap) 1 0x5F = None" by code_simp
  moreover have "find_drop 0x48 1 (drop (1 * MAP_COLS) keymap) 1 0x5F = Some 0x23" by code_simp
  moreover have "find_drop 0x69 0 (drop (1 * MAP_COLS) keymap) 1 0x5F = Some 0x17" by code_simp
  ultimately have "scan_codes 0x48 = Some [0x2A, 0x23, 0xA3, 0xAA]" "scan_codes 0x69 = Some [0x17, 0x97]"
    unfolding scan_codes_def word row by (simp_all add: FLAG_BREAK_def)
  then show ?thesis by simp
qed

theorem typed_text_arrives_witness:
  "\<exists>s'. keyboard_read 1 (puts kb_handler [0x2A, 0x23, 0xA3, 0xAA, 0x17, 0x97] demo_kbd) = Some s' \<and>
     pending 1 0 [0x48, 0x69] s'"
proof -
  have "kb_holds demo_kbd []" "quiet False demo_kbd"
    by (simp_all add: kb_holds_def quiet_def demo_kbd_def screens.defs kbd.defs KB_IN_BYTES_def)
  moreover have "pending 1 0 [] demo_kbd"
    by (simp add: pending_def demo_kbd_def demo_screens_def screens.defs kbd.defs)
  moreover have "text_codes [0x48, 0x69] = Some [0x2A, 0x23, 0xA3, 0xAA, 0x17, 0x97]" by (rule hi_codes)
  moreover have "length [0x2A, 0x23, 0xA3, 0xAA, 0x17, 0x97 :: u8] \<le> KB_IN_BYTES" "0 + length [0x48, 0x69 :: u8] < 256"
    by (simp_all add: KB_IN_BYTES_def)
  ultimately obtain s' where "keyboard_read 1 (puts kb_handler [0x2A, 0x23, 0xA3, 0xAA, 0x17, 0x97] demo_kbd) = Some s'"
    "pending 1 0 [0x48, 0x69] s'"
    using typed_text_arrives[of demo_kbd 1 0 "[0x48, 0x69]" "[0x2A, 0x23, 0xA3, 0xAA, 0x17, 0x97]"] by metis
  then show ?thesis by blast
qed

end
