(* ===== verification/Spec2Isabelle.thy ===== *)
theory Spec2Isabelle
  imports Prelude CString MemMan RamFat RamDir RamCreate RamFile VfsPath Vfs HardDisk OrangeFs OrangeDisk OrangeFile
    FatPath FatBase FatFile FatDisk FatNames
    Process SpinLock Paging PagingLaws Fork ForkLaws Sched Console ConsoleLaws Tty TtyLaws Keymap Keyboard KeyboardLaws
begin

text \<open>
  A model of the MiniOS kernel with the in-memory file system of \<^verbatim>\<open>src/kernel/ramfs.c\<close>, translated from its C
  sources, and the theorems that say what the code does.

  \<^bold>\<open>The program.\<close> The kernel runs on one 32-bit processor. The physical memory manager keeps tables of free
  blocks; paging takes pages from it and maps them; processes are scheduled by ticks that the clock
  counts down, sleep on channels, fork, and start threads. A system call on files goes to the virtual
  file system, which resolves the path against the working directory, chooses a file system by the
  first component of the path, and calls it through a table of functions. Three file systems are mounted
  there: one in memory, the Orange file system and FAT32, both on the hard disk; the terminals are special
  files of the Orange file system. The file systems of the disk use its driver, directly or through a
  queue of requests that a kernel task works off. The interrupt handler of the keyboard queues scan codes; the task of
  the terminals decodes them, puts the keys into the ring of the terminal on display, shows them on its console,
  and processes read them from the ring.

  \<^bold>\<open>How the code is modelled.\<close> A C function is a HOL function of the same name that takes the
  part of the state it uses and returns the new one; an operation that may go wrong (an access outside
  an array, a null pointer, a failed \<^verbatim>\<open>assert\<close>, a call of \<^verbatim>\<open>panic\<close>, signed overflow, a loop
  that does not end) is an \<open>option\<close> whose \<open>None\<close> stands for it; only the words of the RAM file system that hold sizes and link
  counts are a total map. Error codes are values. Unsigned
  integers are words of their width, signed ones integers whose overflow is written out where it can happen. A
  local array or page is a function from offsets to bytes. A pointer to an element of an array is its index.
  Loops are recursive functions: over the number of rounds when it is known, with a measure when one exists,
  and \<open>partial_function (option)\<close> when the loop may run forever, so that every theorem which says
  that such a function returns says that the loop ends. No fuel is used. Records are extended
  where a component needs more state than the one it calls (\<open>ramfs\<close> by \<open>fstate\<close>, \<open>vstate\<close> and \<open>ostate\<close>, that by \<open>fatstate\<close>, \<open>kproc\<close>
  by \<open>kmem\<close>, \<open>screens\<close> by \<open>kbd\<close>), and operations are polymorphic in the extension.

  \<^bold>\<open>The theories.\<close>
    \<^item> \<open>Prelude\<close>: machine words, blocks of bytes, little-endian words in them.
    \<^item> \<open>CString\<close>: \<^verbatim>\<open>lib/string.c\<close>, \<^verbatim>\<open>itoa\<close> of \<^verbatim>\<open>lib/klib.c\<close> and \<^verbatim>\<open>num2str\<close> of
      \<^verbatim>\<open>ramfs.c\<close>. \<open>memcpy\<close> is right for every overlap, \<open>strcmp\<close> ends and is zero on equal strings only, the
      printed hexadecimal digits read back as the number.
    \<^item> \<open>MemMan\<close>: \<^verbatim>\<open>memman.c\<close>, the table of free blocks with its four pools. The set of free
      addresses is the abstraction: allocation takes a block out of it, freeing puts it back and joins neighbours;
      with the locale of an allocator, no sequence of calls makes two live blocks overlap.
    \<^item> \<open>RamFat\<close>, \<open>RamDir\<close>, \<open>RamCreate\<close>, \<open>RamFile\<close>: \<^verbatim>\<open>ramfs.c\<close>, from the cluster table over
      directories and the search of a path to the file operations. A file is a list of bytes along its chain of
      clusters, a path is followed component by component; the code refines both.
    \<^item> \<open>VfsPath\<close>, \<open>Vfs\<close>: \<^verbatim>\<open>vfs.c\<close>, the resolution of paths and the calls through the table of operations.
    \<^item> \<open>HardDisk\<close>: \<^verbatim>\<open>hd.c\<close>, the partitions, the transfer of sectors and the queue of
      requests, which refines a list, on the documented behaviour of an ATA disk.
    \<^item> \<open>OrangeFs\<close>, \<open>OrangeDisk\<close>, \<open>OrangeFile\<close>: \<^verbatim>\<open>fs.c\<close>. A locale states what a sector written or read
      gives; on it rest the laws of inodes, of the inode table, of the maps, and of the bytes of a file.
    \<^item> \<open>FatPath\<close>, \<open>FatBase\<close>, \<open>FatFile\<close>: the FAT32 file system, \<^verbatim>\<open>assist.c\<close>, \<^verbatim>\<open>base.c\<close> and \<^verbatim>\<open>fat32.c\<close>.
      \<open>FatDisk\<close>: the table of clusters on the disk, with the sector that is still in a buffer, is a function from clusters to entries;
      linking, freeing and following a chain refine it. \<open>FatNames\<close>: the parts of a path, and names in directory records.
    \<^item> \<open>Process\<close>, \<open>SpinLock\<close>: \<^verbatim>\<open>proc.c\<close>, \<^verbatim>\<open>clock.c\<close>, the switch of \<^verbatim>\<open>kernel.asm\<close>; \<^verbatim>\<open>spinlock.c\<close> as a step
      relation with any number of processors.
    \<^item> \<open>Paging\<close>, \<open>PagingLaws\<close>: \<^verbatim>\<open>pagetbl.c\<close> and the memory calls of \<^verbatim>\<open>syscallc.c\<close> on physical memory as bytes.
      The abstraction is the function of the memory management unit from linear to physical addresses.
    \<^item> \<open>Fork\<close>, \<open>ForkLaws\<close>: \<^verbatim>\<open>fork.c\<close> and \<^verbatim>\<open>pthread.c\<close>, and the address space of the child.
    \<^item> \<open>Sched\<close>: sequences of events of all processes, and that a ready process runs within a bound.
    \<^item> \<open>Console\<close>, \<open>ConsoleLaws\<close>: \<^verbatim>\<open>console.c\<close> on the video memory and the registers of the display. Printing keeps a
      console well-formed, stays in its part of the memory, and returns except in one case.
    \<^item> \<open>Tty\<close>, \<open>TtyLaws\<close>: \<^verbatim>\<open>tty.c\<close>. The ring of a terminal with its three places, for the next key, the next to be shown and the
      next to be read, refines a line that backspaces edit.
    \<^item> \<open>Keymap\<close>, \<open>Keyboard\<close>, \<open>KeyboardLaws\<close>: \<^verbatim>\<open>keyboard.c\<close> and its tables. The ring of scan codes is an instance of the locale of
      a bounded queue; on it rests that a typed text arrives in the ring of the terminal.

  \<^bold>\<open>Bounds.\<close> Theorems about addresses have the hypotheses that make the machine arithmetic exact (a block
  inside its pool, a sector number that the controller can express, a position below two gigabytes), and each has an example in which they hold. The bound of
  \<open>ready_process_runs\<close> is twice the ticks all twelve control blocks may hold.

  \<^bold>\<open>Not modelled.\<close> The \<^verbatim>\<open>sys_\<close> functions at the end of \<^verbatim>\<open>fat32.c\<close> and \<^verbatim>\<open>vfs.c\<close>, which fetch the
  arguments of a system call; \<^verbatim>\<open>exec\<close>; the set-up of descriptor tables, interrupt
  controllers and devices (\<^verbatim>\<open>start.c\<close>, \<^verbatim>\<open>protect.c\<close>, \<^verbatim>\<open>i8259.c\<close>) and the assembly; the
  shell and the test programs. Messages on the screen are left out everywhere.
\<close>

end
